(* ===== verification/Prelude.thy ===== *)
theory Prelude
  imports Complex_Main "HOL-Library.AList" "HOL-Library.List_Lexorder" "HOL-Library.Char_ord"
begin

text \<open>
  What every component of the development shares: results of code that may throw
  (\<open>'e + 'a\<close>, \<open>Inl\<close> for the thrown value), sequencing of such code, tables of rows kept as
  lists, insertion-ordered JavaScript collections, and the hint collections of the library.
\<close>

named_theorems settle_defs \<open>definitions the settlement proofs unfold\<close>
named_theorems queue_defs \<open>definitions the lease-queue proofs unfold\<close>
named_theorems table_simps \<open>facts about rows and tables\<close>

type_synonym date = int
  \<comment> \<open>a JavaScript Date, as its epoch milliseconds\<close>

section \<open>Results\<close>

text \<open>A statement that may throw, followed by the rest of the block.\<close>

definition sbind :: "'e + 'a \<Rightarrow> ('a \<Rightarrow> 'e + 'b) \<Rightarrow> 'e + 'b" where
  "sbind m f = (case m of Inl e \<Rightarrow> Inl e | Inr x \<Rightarrow> f x)"

lemma sbind_simps [simp]: "sbind (Inl e) f = Inl e" "sbind (Inr x) f = f x"
  by (simp_all add: sbind_def)

lemma sbind_Inr_iff: "sbind m f = Inr y \<longleftrightarrow> (\<exists>x. m = Inr x \<and> f x = Inr y)"
  by (cases m) auto

lemma sbind_Inl_iff: "sbind m f = Inl e \<longleftrightarrow> m = Inl e \<or> (\<exists>x. m = Inr x \<and> f x = Inl e)"
  by (cases m) auto

lemma sbind_InrE:
  assumes "sbind m f = Inr y"
  obtains x where "m = Inr x" and "f x = Inr y"
  using assms by (cases m) auto

lemma sbind_neq: "(\<And>x. f x \<noteq> Inr y) \<Longrightarrow> sbind m f \<noteq> Inr y"
  by (cases m) auto

lemma sbind_cong [fundef_cong]:
  "m = m' \<Longrightarrow> (\<And>x. m' = Inr x \<Longrightarrow> f x = g x) \<Longrightarrow> sbind m f = sbind m' g"
  by (cases m') auto

text \<open>\<open>if (b) throw e\<close> and the loops that stop at the first throw.\<close>

definition guard :: "bool \<Rightarrow> 'e \<Rightarrow> 'e + unit" where
  "guard b e = (if b then Inr () else Inl e)"

lemma guard_simps [simp]: "guard True e = Inr ()" "guard False e = Inl e"
  "guard b e = Inr u \<longleftrightarrow> b" "guard b e = Inl e' \<longleftrightarrow> \<not> b \<and> e' = e"
  by (auto simp: guard_def)

fun smap :: "('a \<Rightarrow> 'e + 'b) \<Rightarrow> 'a list \<Rightarrow> 'e + 'b list" where
  "smap f [] = Inr []"
| "smap f (x # xs) = sbind (f x) (\<lambda>y. sbind (smap f xs) (\<lambda>ys. Inr (y # ys)))"

fun sfold :: "('a \<Rightarrow> 's \<Rightarrow> 'e + 's) \<Rightarrow> 'a list \<Rightarrow> 's \<Rightarrow> 'e + 's" where
  "sfold f [] s = Inr s"
| "sfold f (x # xs) s = sbind (f x s) (sfold f xs)"

lemma sfold_append: "sfold f (xs @ ys) s = sbind (sfold f xs s) (sfold f ys)"
  by (induction xs arbitrary: s) (auto simp: sbind_def split: sum.split)

lemma sfold_invariant:
  assumes "sfold f xs s = Inr s'" and "P s"
    and "\<And>x t t'. x \<in> set xs \<Longrightarrow> P t \<Longrightarrow> f x t = Inr t' \<Longrightarrow> P t'"
  shows "P s'"
  using assms
proof (induction xs arbitrary: s)
  case Nil
  then show ?case by simp
next
  case (Cons x xs)
  from Cons.prems(1) obtain t where t: "f x s = Inr t" and rest: "sfold f xs t = Inr s'"
    by (auto elim: sbind_InrE)
  have "P t" using Cons.prems(3)[of x s t] Cons.prems(2) t by simp
  with Cons.IH[OF rest] Cons.prems(3) show ?case by auto
qed

lemma smap_length: "smap f xs = Inr ys \<Longrightarrow> length ys = length xs"
  by (induction xs arbitrary: ys) (auto simp: sbind_Inr_iff)

section \<open>Insertion-ordered JavaScript collections\<close>

text \<open>
  \<open>[...new Set(xs)]\<close>: each element once, at its first position (\<open>remdups\<close> keeps the last).
\<close>

definition uniq :: "'a list \<Rightarrow> 'a list" where
  "uniq xs = rev (remdups (rev xs))"

lemma set_uniq [simp]: "set (uniq xs) = set xs"
  by (simp add: uniq_def)

lemma distinct_uniq [simp]: "distinct (uniq xs)"
  by (simp add: uniq_def)

lemma uniq_distinct: "distinct xs \<Longrightarrow> uniq xs = xs"
  by (simp add: uniq_def distinct_remdups_id)

lemma uniq_Nil [simp]: "uniq [] = []"
  by (simp add: uniq_def)

lemma uniq_eq_Nil [simp]: "uniq xs = [] \<longleftrightarrow> xs = []"
  by (metis set_empty set_uniq)

text \<open>\<open>m.get(k) ?? 0\<close> of a \<open>Map<string, number>\<close>, kept as an association list.\<close>

definition count_of :: "('k \<times> int) list \<Rightarrow> 'k \<Rightarrow> int" where
  "count_of m k = (case map_of m k of None \<Rightarrow> 0 | Some n \<Rightarrow> n)"

lemma count_of_Nil [simp]: "count_of [] k = 0"
  by (simp add: count_of_def)

lemma count_of_update [simp]:
  "count_of (AList.update k v m) k' = (if k' = k then v else count_of m k')"
  by (simp add: count_of_def update_conv')

lemma count_of_not_key: "k \<notin> fst ` set m \<Longrightarrow> count_of m k = 0"
  by (simp add: count_of_def map_of_eq_None_iff option.case_eq_if)

lemma find_SomeD: "find P xs = Some x \<Longrightarrow> x \<in> set xs \<and> P x"
  by (auto simp: find_Some_iff)

section \<open>Tables\<close>

text \<open>
  A table is the list of its rows, in the order an unordered query returns them. A row is read by
  its key and written by a map over the rows, as \<open>UPDATE \<dots> WHERE id = k\<close> does.
\<close>

definition row_of :: "('r \<Rightarrow> 'k) \<Rightarrow> 'k \<Rightarrow> 'r list \<Rightarrow> 'r option" where
  "row_of key k t = find (\<lambda>r. key r = k) t"

definition update_rows :: "('r \<Rightarrow> bool) \<Rightarrow> ('r \<Rightarrow> 'r) \<Rightarrow> 'r list \<Rightarrow> 'r list" where
  "update_rows p f t = map (\<lambda>r. if p r then f r else r) t"

lemma row_of_Some: "row_of key k t = Some r \<Longrightarrow> r \<in> set t \<and> key r = k"
  by (auto simp: row_of_def find_Some_iff)

lemma row_of_None: "row_of key k t = None \<longleftrightarrow> k \<notin> key ` set t"
  by (auto simp: row_of_def find_None_iff)

lemma row_of_distinct:
  assumes "distinct (map key t)" and "r \<in> set t"
  shows "row_of key (key r) t = Some r"
  using assms by (induction t) (auto simp: row_of_def)

lemma row_of_Nil [simp]: "row_of key k [] = None"
  by (simp add: row_of_def)

lemma row_of_Cons [simp]:
  "row_of key k (r # t) = (if key r = k then Some r else row_of key k t)"
  by (simp add: row_of_def)

lemma length_update_rows [simp]: "length (update_rows p f t) = length t"
  by (simp add: update_rows_def)

lemma keys_update_rows [table_simps]:
  assumes "\<And>r. key (f r) = key r"
  shows "map key (update_rows p f t) = map key t"
  using assms by (simp add: update_rows_def)

lemma set_update_rows: "set (update_rows p f t) = (\<lambda>r. if p r then f r else r) ` set t"
  by (simp add: update_rows_def)

lemma update_rows_Nil [simp]: "update_rows p f [] = []"
  by (simp add: update_rows_def)

lemma update_rows_Cons [simp]:
  "update_rows p f (r # t) = (if p r then f r else r) # update_rows p f t"
  by (simp add: update_rows_def)

lemma update_rows_id: "(\<And>r. r \<in> set t \<Longrightarrow> p r \<Longrightarrow> f r = r) \<Longrightarrow> update_rows p f t = t"
  by (induction t) auto

lemma row_of_update_same:
  assumes "\<And>r. key (f r) = key r" and "row_of key k t = Some r"
  shows "row_of key k (update_rows (\<lambda>r. key r = k) f t) = Some (f r)"
  using assms by (induction t) (auto split: if_splits)

lemma row_of_update_other:
  assumes "\<And>r. key (f r) = key r" and "k' \<noteq> k"
  shows "row_of key k' (update_rows (\<lambda>r. key r = k) f t) = row_of key k' t"
  using assms by (induction t) auto

lemma row_of_update_key:
  assumes "\<And>r. key (f r) = key r"
  shows "row_of key k' (update_rows (\<lambda>r. key r = k) f t) =
    (if k' = k then map_option f (row_of key k t) else row_of key k' t)"
  using assms by (induction t) auto

section \<open>Strings\<close>

text \<open>\<open>trim\<close> and \<open>toUpperCase\<close>/\<open>toLowerCase\<close> on ASCII text.\<close>

definition is_space :: "char \<Rightarrow> bool" where
  "is_space c \<longleftrightarrow> c \<in> {CHR '' '', CHR 0x09, CHR 0x0A, CHR 0x0B, CHR 0x0C, CHR 0x0D}"

definition trim :: "string \<Rightarrow> string" where
  "trim s = rev (dropWhile is_space (rev (dropWhile is_space s)))"

definition upper_char :: "char \<Rightarrow> char" where
  "upper_char c = (let n = (of_char c :: nat) in if 97 \<le> n \<and> n \<le> 122 then char_of (n - 32) else c)"

definition lower_char :: "char \<Rightarrow> char" where
  "lower_char c = (let n = (of_char c :: nat) in if 65 \<le> n \<and> n \<le> 90 then char_of (n + 32) else c)"

definition to_upper :: "string \<Rightarrow> string" where
  "to_upper s = map upper_char s"

definition to_lower :: "string \<Rightarrow> string" where
  "to_lower s = map lower_char s"

lemma upper_char_idem [simp]: "upper_char (upper_char c) = upper_char c"
  by (auto simp: upper_char_def Let_def)

lemma to_upper_idem [simp]: "to_upper (to_upper s) = to_upper s"
  by (simp add: to_upper_def)

lemma lower_char_idem [simp]: "lower_char (lower_char c) = lower_char c"
  by (auto simp: lower_char_def Let_def)

lemma to_lower_idem [simp]: "to_lower (to_lower s) = to_lower s"
  by (simp add: to_lower_def)

fun is_infix :: "string \<Rightarrow> string \<Rightarrow> bool" where
  "is_infix p [] = (p = [])"
| "is_infix p (c # s) = (take (length p) (c # s) = p \<or> is_infix p s)"

definition starts_with :: "string \<Rightarrow> string \<Rightarrow> bool" where
  "starts_with p s \<longleftrightarrow> take (length p) s = p"

end
