(* ===== verification/Types.thy ===== *)
theory Types
  imports Prelude
begin

text \<open>
  The data types the settlement components share: payment statuses and drop reasons
  (\<open>packages/shared/src/payment-status.ts\<close>, \<open>packages/contracts/src/pricing.ts\<close>), the lines of
  a price breakdown, and the errors the code throws. A thrown message is a constructor with the
  values the message shows. A money amount is an \<open>int\<close>, the amount in ten-thousandths; theory
  Money relates it to the JavaScript number.
\<close>

type_synonym money = int

section \<open>Payment status\<close>

datatype payment_status = PENDING | VERIFYING | PARTIAL | PAID | SPONSORED | WAIVED | REFUNDED

definition PAYMENT_STATUSES :: "payment_status list" where
  "PAYMENT_STATUSES = [PENDING, VERIFYING, PARTIAL, PAID, SPONSORED, WAIVED, REFUNDED]"

definition FULLY_SETTLED_STATUSES :: "payment_status list" where
  "FULLY_SETTLED_STATUSES = [PAID, SPONSORED, WAIVED]"

definition isFullySettled :: "payment_status option \<Rightarrow> bool" where
  "isFullySettled st = (case st of None \<Rightarrow> False | Some s \<Rightarrow> s \<in> set FULLY_SETTLED_STATUSES)"

lemma PAYMENT_STATUSES_complete: "s \<in> set PAYMENT_STATUSES"
  by (cases s) (simp_all add: PAYMENT_STATUSES_def)

lemma isFullySettled_simps [simp]:
  "isFullySettled None = False"
  "isFullySettled (Some PENDING) = False" "isFullySettled (Some VERIFYING) = False"
  "isFullySettled (Some PARTIAL) = False" "isFullySettled (Some REFUNDED) = False"
  "isFullySettled (Some PAID) = True" "isFullySettled (Some SPONSORED) = True"
  "isFullySettled (Some WAIVED) = True"
  by (simp_all add: isFullySettled_def FULLY_SETTLED_STATUSES_def)

section \<open>Price breakdown\<close>

datatype drop_reason = Capacity_reached | Deactivated

record applied_rule =
  ar_ruleId :: string
  ar_ruleName :: string
  ar_effect :: money

record access_line =
  li_accessId :: string
  li_name :: string
  li_unitPrice :: money
  li_quantity :: int
  li_subtotal :: money
  li_confirmed :: bool  \<comment> \<open>\<open>status: "confirmed"\<close> present\<close>

record dropped_line = access_line +
  dl_reason :: drop_reason

record sponsorship_line =
  sl_code :: string
  sl_amount :: money
  sl_valid :: bool

record option_line =
  om_fieldId :: string
  om_optionId :: string
  om_label :: string
  om_amount :: money

record money_snapshot =
  ms_currency :: string
  ms_scale :: nat
  ms_amountsMinor :: "(string \<times> int) list"

record price_breakdown =
  pb_basePrice :: money
  pb_appliedRules :: "applied_rule list"
  pb_calculatedBasePrice :: money
  pb_accessItems :: "access_line list"
  pb_accessTotal :: money
  pb_subtotal :: money
  pb_sponsorships :: "sponsorship_line list"
  pb_sponsorshipTotal :: money
  pb_total :: money
  pb_currency :: string
  pb_droppedAccessItems :: "dropped_line list option"
  pb_optionModifiers :: "option_line list option"
  pb_optionModifiersTotal :: "money option"
  pb_money :: "money_snapshot option"

section \<open>Errors\<close>

datatype skip_reason =
  NOT_HELD | SETTLED | COVERED | NO_LONGER_APPLIES | OVERPAID | CAPACITY_FULL

datatype refusal =
  SPONSORSHIP_NOT_FOUND | SPONSORSHIP_CANCELLED | REGISTRATION_NOT_FOUND | EVENT_MISMATCH
| ALREADY_LINKED | NOT_LINKED | NOT_APPLICABLE | TARGET_SETTLED | EXCEEDS_AMOUNT_DUE

record overpaid_skip =
  os_accessId :: string
  os_accessName :: string
  os_reason :: drop_reason
  os_paidAmount :: money
  os_amountDue :: money
  os_amountDueWithoutAccess :: money

datatype violation =
  Not_amount string
| Sponsorship_exceeds_total
| Breakdown_not_amounts "string list"
| Access_total_not_sum
| Subtotal_not_sum
| Sponsorship_exceeds_subtotal
| Total_not_difference
| Sponsorship_differs
| Subtotal_exceeds_total
| Paid_exceeds_net

datatype error =
  RangeError string
| Plain_error string
| AccessNotFound string
| AccessCapacityExceeded string string "int option" int
| AccessPaidCountUnderflow string int int
| SettlementInvariant string "violation list"
| SkipDrop skip_reason "overpaid_skip option"
| SponsorshipSettlement refusal
| App_exception string int
| Unique_violation string  \<comment> \<open>of the named unique index\<close>

end
