(* ===== verification/Money.thy ===== *)
theory Money
  imports Types
begin

text \<open>
  \<open>packages/shared/src/money.ts\<close>. The code adds amounts as integers at four decimal places and
  refuses a number with more decimals or beyond the safe range. The first half translates the
  functions on the numbers themselves (rationals; \<open>NonFinite\<close> stands for NaN and the
  infinities), with the decimal check as the code has it. The second half is the same arithmetic
  on the count of ten-thousandths, the form every other component uses; \<open>js_of\<close> relates the
  two, and the refinement lemmas say that nothing is lost.

  A number stands for the decimal it prints as. JavaScript numbers are binary, so this reading is
  exact while ten-thousandths are at least two units in the last place apart, that is below
  \<open>2^39\<close> major units (about 5.5e11).
\<close>

section \<open>Numbers\<close>

datatype js_number = Fin rat | NonFinite

definition MAX_MINOR :: int where
  "MAX_MINOR = 9007199254740991"

definition range_error :: error where
  "range_error = RangeError ''Amount exceeds the safe money range''"

definition decimals_error :: error where
  "decimals_error = RangeError ''Amount must have at most n decimal places''"

definition in_safe_range :: "int \<Rightarrow> bool" where
  "in_safe_range m \<longleftrightarrow> \<not> (MAX_MINOR < m \<or> m < - MAX_MINOR)"

text \<open>\<open>icu c\<close> is the currency's number of fraction digits in the runtime's ICU data, if it knows c.\<close>

definition currencyScale :: "(string \<Rightarrow> nat option) \<Rightarrow> string \<Rightarrow> error + nat" where
  "currencyScale icu currency =
    (case icu (to_upper currency) of
       None \<Rightarrow> Inl (RangeError ''Invalid currency code'')
     | Some scale \<Rightarrow>
         if 4 < scale then Inl (RangeError ''Unsupported currency precision'') else Inr scale)"

fun scaledInteger :: "js_number \<Rightarrow> nat \<Rightarrow> error + int" where
  "scaledInteger NonFinite scale = Inl decimals_error"
| "scaledInteger (Fin amount) scale =
    (let minor = floor (amount * 10 ^ scale) in
     if of_int minor \<noteq> amount * 10 ^ scale then Inl decimals_error
     else if MAX_MINOR < minor \<or> minor < - MAX_MINOR then Inl range_error
     else Inr minor)"

definition js_toMinorUnits :: "(string \<Rightarrow> nat option) \<Rightarrow> js_number \<Rightarrow> string \<Rightarrow> error + int" where
  "js_toMinorUnits icu amount currency =
    sbind (currencyScale icu currency) (\<lambda>scale. scaledInteger amount scale)"

fun js_sum_units :: "js_number list \<Rightarrow> int \<Rightarrow> error + int" where
  "js_sum_units [] acc = Inr acc"
| "js_sum_units (a # as) acc = sbind (scaledInteger a 4) (\<lambda>n. js_sum_units as (acc + n))"

definition js_sumMoney :: "js_number list \<Rightarrow> error + js_number" where
  "js_sumMoney amounts =
    sbind (js_sum_units amounts 0) (\<lambda>result.
      if MAX_MINOR < result \<or> result < - MAX_MINOR then Inl range_error
      else Inr (Fin (of_int result / 10000)))"

fun js_neg :: "js_number \<Rightarrow> js_number" where
  "js_neg (Fin q) = Fin (- q)"
| "js_neg NonFinite = NonFinite"

definition js_subtractMoney :: "js_number \<Rightarrow> js_number \<Rightarrow> error + js_number" where
  "js_subtractMoney amount deduction = js_sumMoney [amount, js_neg deduction]"

definition js_multiplyMoney :: "js_number \<Rightarrow> int \<Rightarrow> error + js_number" where
  "js_multiplyMoney amount quantity =
    (if MAX_MINOR < \<bar>quantity\<bar> then Inl (RangeError ''Quantity must be a safe integer'')
     else sbind (scaledInteger amount 4) (\<lambda>m.
       let result = m * quantity in
       if MAX_MINOR < result \<or> result < - MAX_MINOR then Inl range_error
       else Inr (Fin (of_int result / 10000))))"

section \<open>Ten-thousandths\<close>

definition sumMoney :: "money list \<Rightarrow> error + money" where
  "sumMoney amounts =
    (if (\<forall>a \<in> set amounts. in_safe_range a) \<and> in_safe_range (sum_list amounts)
     then Inr (sum_list amounts) else Inl range_error)"

definition subtractMoney :: "money \<Rightarrow> money \<Rightarrow> error + money" where
  "subtractMoney amount deduction = sumMoney [amount, - deduction]"

definition multiplyMoney :: "money \<Rightarrow> int \<Rightarrow> error + money" where
  "multiplyMoney amount quantity =
    (if MAX_MINOR < \<bar>quantity\<bar> then Inl (RangeError ''Quantity must be a safe integer'')
     else if in_safe_range amount \<and> in_safe_range (amount * quantity)
     then Inr (amount * quantity) else Inl range_error)"

definition toMinorUnits :: "(string \<Rightarrow> nat option) \<Rightarrow> money \<Rightarrow> string \<Rightarrow> error + int" where
  "toMinorUnits icu amount currency =
    sbind (currencyScale icu currency) (\<lambda>scale.
      if amount mod 10 ^ (4 - scale) \<noteq> 0 then Inl decimals_error
      else if in_safe_range (amount div 10 ^ (4 - scale)) then Inr (amount div 10 ^ (4 - scale))
      else Inl range_error)"

definition moneySnapshot ::
  "(string \<Rightarrow> nat option) \<Rightarrow> string \<Rightarrow> (string \<times> money) list \<Rightarrow> error + money_snapshot" where
  "moneySnapshot icu currency amounts =
    sbind (currencyScale icu currency) (\<lambda>scale.
    sbind (smap (\<lambda>(k, v). sbind (toMinorUnits icu v currency) (\<lambda>m. Inr (k, m))) amounts) (\<lambda>ms.
    Inr \<lparr>ms_currency = currency, ms_scale = scale, ms_amountsMinor = ms\<rparr>))"

definition withBreakdownMoney ::
  "(string \<Rightarrow> nat option) \<Rightarrow> price_breakdown \<Rightarrow> error + price_breakdown" where
  "withBreakdownMoney icu b =
    sbind (moneySnapshot icu (pb_currency b)
      [(''basePrice'', pb_basePrice b), (''calculatedBasePrice'', pb_calculatedBasePrice b),
       (''accessTotal'', pb_accessTotal b),
       (''optionModifiersTotal'', case pb_optionModifiersTotal b of None \<Rightarrow> 0 | Some v \<Rightarrow> v),
       (''subtotal'', pb_subtotal b), (''sponsorshipTotal'', pb_sponsorshipTotal b),
       (''total'', pb_total b)])
     (\<lambda>m. Inr (b\<lparr>pb_money := Some m\<rparr>))"

section \<open>The two forms agree\<close>

definition js_of :: "money \<Rightarrow> js_number" where
  "js_of u = Fin (of_int u / 10000)"

lemma scaledInteger_js_of:
  "scaledInteger (js_of u) 4 = (if in_safe_range u then Inr u else Inl range_error)"
proof -
  have "(of_int u / 10000 :: rat) * 10 ^ 4 = of_int u" by simp
  then show ?thesis by (simp add: js_of_def in_safe_range_def Let_def)
qed

lemma js_sum_units_js_of:
  "js_sum_units (map js_of us) s =
    (if \<forall>u \<in> set us. in_safe_range u then Inr (s + sum_list us) else Inl range_error)"
  by (induction us arbitrary: s) (auto simp: scaledInteger_js_of)

lemma js_of_neg: "js_of (- u) = js_neg (js_of u)"
  by (simp add: js_of_def)

lemma js_sumMoney_refines:
  "js_sumMoney (map js_of us) = map_sum id js_of (sumMoney us)"
  by (auto simp: js_sumMoney_def js_sum_units_js_of sumMoney_def in_safe_range_def js_of_def)

lemma js_subtractMoney_refines:
  "js_subtractMoney (js_of a) (js_of b) = map_sum id js_of (subtractMoney a b)"
  using js_sumMoney_refines[of "[a, - b]"]
  by (simp add: js_subtractMoney_def subtractMoney_def js_of_neg)

lemma js_multiplyMoney_refines:
  "js_multiplyMoney (js_of a) q = map_sum id js_of (multiplyMoney a q)"
  by (simp add: js_multiplyMoney_def multiplyMoney_def scaledInteger_js_of in_safe_range_def
      js_of_def Let_def)

lemma scaled_units:
  assumes "scale \<le> 4"
  shows "scaledInteger (js_of u) scale =
    (if u mod 10 ^ (4 - scale) \<noteq> 0 then Inl decimals_error
     else if in_safe_range (u div 10 ^ (4 - scale)) then Inr (u div 10 ^ (4 - scale))
     else Inl range_error)"
proof -
  define d :: int where "d = 10 ^ (4 - scale)"
  have d0: "d > 0" by (simp add: d_def)
  have p: "(10 :: rat) ^ 4 = of_int d * 10 ^ scale"
    using assms by (simp add: d_def flip: power_add)
  have eq: "(of_int u / 10000 :: rat) * 10 ^ scale = of_int u / of_int d"
    using p d0 by (simp add: field_simps)
  have fl: "floor (of_int u / of_int d :: rat) = u div d"
    by (rule floor_divide_of_int_eq)
  have int_iff: "(of_int (u div d) :: rat) = of_int u / of_int d \<longleftrightarrow> u mod d = 0"
  proof
    assume "(of_int (u div d) :: rat) = of_int u / of_int d"
    then have "(of_int (u div d * d) :: rat) = of_int u" using d0 by (simp add: field_simps)
    then have "u div d * d = u" by (simp only: of_int_eq_iff)
    then show "u mod d = 0" by (metis add_cancel_left_right div_mult_mod_eq)
  next
    assume "u mod d = 0"
    then have "u = u div d * d" by (metis add.right_neutral div_mult_mod_eq)
    then have "(of_int u :: rat) = of_int (u div d) * of_int d" by (metis of_int_mult)
    then show "(of_int (u div d) :: rat) = of_int u / of_int d" using d0 by simp
  qed
  show ?thesis
    unfolding d_def[symmetric] js_of_def scaledInteger.simps eq fl Let_def int_iff
    by (simp add: in_safe_range_def)
qed

lemma js_toMinorUnits_refines:
  "js_toMinorUnits icu (js_of u) c = toMinorUnits icu u c"
  by (auto simp: js_toMinorUnits_def toMinorUnits_def currencyScale_def scaled_units
      split: option.split)

section \<open>Facts about the checked arithmetic\<close>

lemma sumMoney_Inr_iff:
  "sumMoney us = Inr s \<longleftrightarrow>
    s = sum_list us \<and> (\<forall>a \<in> set us. in_safe_range a) \<and> in_safe_range (sum_list us)"
  by (auto simp: sumMoney_def)

lemma in_safe_range_neg [simp]: "in_safe_range (- u) = in_safe_range u"
  by (auto simp: in_safe_range_def)

lemma in_safe_range_0 [simp]: "in_safe_range 0"
  by (simp add: in_safe_range_def MAX_MINOR_def)

lemma subtractMoney_Inr_iff:
  "subtractMoney a b = Inr s \<longleftrightarrow>
    s = a - b \<and> in_safe_range a \<and> in_safe_range b \<and> in_safe_range (a - b)"
  by (auto simp: subtractMoney_def sumMoney_Inr_iff)

lemma sumMoney_Inr: "sumMoney us = Inr s \<Longrightarrow> s = sum_list us"
  by (simp add: sumMoney_Inr_iff)

lemma subtractMoney_Inr: "subtractMoney a b = Inr s \<Longrightarrow> s = a - b"
  by (simp add: subtractMoney_Inr_iff)

lemma multiplyMoney_Inr: "multiplyMoney a q = Inr s \<Longrightarrow> s = a * q"
  by (auto simp: multiplyMoney_def split: if_splits)

lemma subtractMoney_nonneg:
  assumes "0 \<le> a" "0 \<le> b" "in_safe_range a" "in_safe_range b"
  shows "subtractMoney a b = Inr (a - b)"
  using assms by (auto simp: subtractMoney_Inr_iff in_safe_range_def)

lemma sumMoney_error: "sumMoney us = Inl e \<Longrightarrow> e = range_error"
  by (auto simp: sumMoney_def split: if_splits)

lemma moneySnapshot_currency:
  "moneySnapshot icu c amounts = Inr m \<Longrightarrow> ms_currency m = c \<and> map fst (ms_amountsMinor m) = map fst amounts"
proof -
  have keys: "smap (\<lambda>(k, v). sbind (toMinorUnits icu v c) (\<lambda>m. Inr (k, m))) xs = Inr ys \<Longrightarrow>
      map fst ys = map fst xs" for xs ys
    by (induction xs arbitrary: ys) (auto simp: sbind_Inr_iff split: prod.splits)
  then show "moneySnapshot icu c amounts = Inr m \<Longrightarrow> ms_currency m = c \<and> map fst (ms_amountsMinor m) = map fst amounts"
    by (auto simp: moneySnapshot_def sbind_Inr_iff)
qed

lemma withBreakdownMoney_Inr:
  assumes "withBreakdownMoney icu b = Inr b'"
  obtains m where "b' = b\<lparr>pb_money := Some m\<rparr>"
  using assms by (auto simp: withBreakdownMoney_def sbind_Inr_iff)

end
