(* ===== verification/Settlement.thy ===== *)
theory Settlement
  imports Money
begin

text \<open>
  \<open>packages/shared/src/settlement.ts\<close> and \<open>packages/shared/src/sponsorship-math.ts\<close>: the pure
  rules that turn a registration's amounts into a payment status, a net price breakdown, the
  places it holds in paid capacity, and the amount a sponsorship covers. The functions throw where
  the checked arithmetic of theory Money does; nothing else is left out. The database writers of
  the later theories call these definitions.
\<close>

section \<open>Amounts\<close>

record settlement_amounts =
  sa_amountDue :: money
  sa_netAmount :: money
  sa_isSettled :: bool
  sa_isPartiallyPaid :: bool

definition calculateSettlement :: "money \<Rightarrow> money \<Rightarrow> money \<Rightarrow> error + settlement_amounts" where
  "calculateSettlement totalAmount paidAmount sponsorshipAmount =
    sbind (sumMoney [paidAmount, sponsorshipAmount]) (\<lambda>covered.
    sbind (subtractMoney totalAmount covered) (\<lambda>rest.
    sbind (subtractMoney totalAmount sponsorshipAmount) (\<lambda>net.
    let amountDue = max 0 rest in
    Inr \<lparr>sa_amountDue = amountDue, sa_netAmount = max 0 net,
         sa_isSettled = (amountDue = 0 \<and> 0 \<le> totalAmount),
         sa_isPartiallyPaid = (0 < covered \<and> 0 < amountDue)\<rparr>)))"

section \<open>Payment status derivation\<close>

definition STICKY_SETTLEMENT_STATUSES :: "payment_status list" where
  "STICKY_SETTLEMENT_STATUSES = [REFUNDED, WAIVED, PAID, VERIFYING]"

definition isStickySettlementStatus :: "payment_status \<Rightarrow> bool" where
  "isStickySettlementStatus s \<longleftrightarrow> s \<in> set STICKY_SETTLEMENT_STATUSES"

fun AUTO_TRANSITIONS :: "payment_status \<Rightarrow> payment_status list" where
  "AUTO_TRANSITIONS PENDING = [PARTIAL, PAID, SPONSORED]"
| "AUTO_TRANSITIONS PARTIAL = [PENDING, PAID, SPONSORED]"
| "AUTO_TRANSITIONS SPONSORED = [PENDING, PARTIAL, PAID]"
| "AUTO_TRANSITIONS VERIFYING = []"
| "AUTO_TRANSITIONS PAID = []"
| "AUTO_TRANSITIONS WAIVED = []"
| "AUTO_TRANSITIONS REFUNDED = []"

record settlement_input =
  si_gross :: money
  si_sponsorship :: money
  si_paid :: money
  si_currentStatus :: payment_status
  si_paidAt :: "date option"
  si_now :: date

record derived_settlement =
  ds_status :: payment_status
  ds_paidAt :: "date option"
  ds_gross :: money
  ds_sponsorship :: money
  ds_net :: money
  ds_due :: money

definition assertAmount :: "string \<Rightarrow> money \<Rightarrow> error + unit" where
  "assertAmount name value =
    (if value < 0 then Inl (RangeError name) else sbind (sumMoney [value]) (\<lambda>_. Inr ()))"

definition deriveSettlement :: "settlement_input \<Rightarrow> error + derived_settlement" where
  "deriveSettlement input =
    sbind (assertAmount ''gross'' (si_gross input)) (\<lambda>_.
    sbind (assertAmount ''sponsorship'' (si_sponsorship input)) (\<lambda>_.
    sbind (assertAmount ''paid'' (si_paid input)) (\<lambda>_.
    let gross = si_gross input;
        sponsorship = min (si_sponsorship input) gross in
    sbind (subtractMoney gross sponsorship) (\<lambda>net.
    sbind (subtractMoney net (si_paid input)) (\<lambda>rest.
    let due = max 0 rest in
    if isStickySettlementStatus (si_currentStatus input) then
      Inr \<lparr>ds_status = si_currentStatus input, ds_paidAt = si_paidAt input,
           ds_gross = gross, ds_sponsorship = sponsorship, ds_net = net, ds_due = due\<rparr>
    else
      sbind (if 0 < gross \<and> gross \<le> sponsorship then Inr SPONSORED
             else if 0 < si_paid input \<and> due = 0 then Inr PAID
             else sbind (sumMoney [si_paid input, sponsorship]) (\<lambda>covered.
               Inr (if 0 < covered \<and> 0 < due then PARTIAL else PENDING))) (\<lambda>status.
      Inr \<lparr>ds_status = status,
           ds_paidAt = (if status = PAID \<or> status = SPONSORED
             then Some (case si_paidAt input of None \<Rightarrow> si_now input | Some t \<Rightarrow> t) else None),
           ds_gross = gross, ds_sponsorship = sponsorship, ds_net = net, ds_due = due\<rparr>))))))"

section \<open>Price breakdown\<close>

text \<open>
  \<open>PriceBreakdown\<close> always has the fields the code tests for before it refreshes the money
  snapshot, but \<open>money\<close> itself is optional.
\<close>

definition netBreakdown ::
  "(string \<Rightarrow> nat option) \<Rightarrow> price_breakdown \<Rightarrow> money \<Rightarrow> error + price_breakdown" where
  "netBreakdown icu breakdown sponsorship =
    (let sponsorshipTotal = min sponsorship (pb_subtotal breakdown) in
     sbind (subtractMoney (pb_subtotal breakdown) sponsorshipTotal) (\<lambda>rest.
     let next = breakdown\<lparr>pb_sponsorshipTotal := sponsorshipTotal, pb_total := max 0 rest\<rparr> in
     if pb_money next \<noteq> None then withBreakdownMoney icu next else Inr next))"

record dropped_result =
  dr_breakdown :: price_breakdown
  dr_dropped :: access_line
  dr_gross :: money
  dr_accessAmount :: money
  dr_sponsorship :: money

definition optionModifiersTotal_of :: "price_breakdown \<Rightarrow> money" where
  "optionModifiersTotal_of b = (case pb_optionModifiersTotal b of None \<Rightarrow> 0 | Some v \<Rightarrow> v)"

text \<open>\<open>{ ...dropped, reason }\<close>\<close>

definition droppedLine :: "access_line \<Rightarrow> drop_reason \<Rightarrow> dropped_line" where
  "droppedLine l reason =
    \<lparr>li_accessId = li_accessId l, li_name = li_name l, li_unitPrice = li_unitPrice l,
     li_quantity = li_quantity l, li_subtotal = li_subtotal l, li_confirmed = li_confirmed l,
     dl_reason = reason\<rparr>"

definition dropAccessItem ::
  "(string \<Rightarrow> nat option) \<Rightarrow> price_breakdown \<Rightarrow> string \<Rightarrow> money \<Rightarrow> drop_reason
    \<Rightarrow> error + dropped_result option" where
  "dropAccessItem icu breakdown accessId sponsorship reason =
    (case find (\<lambda>item. li_accessId item = accessId) (pb_accessItems breakdown) of
       None \<Rightarrow> Inr None
     | Some dropped \<Rightarrow>
        (let accessItems = filter (\<lambda>item. li_accessId item \<noteq> accessId) (pb_accessItems breakdown) in
         sbind (sumMoney (map li_subtotal accessItems)) (\<lambda>accessTotal.
         sbind (sumMoney [pb_calculatedBasePrice breakdown, accessTotal,
                  optionModifiersTotal_of breakdown]) (\<lambda>sum3.
         sbind (sumMoney [pb_calculatedBasePrice breakdown, accessTotal]) (\<lambda>sum2.
         let subtotal = max 0 sum3 in
         sbind (netBreakdown icu
           (breakdown\<lparr>pb_accessItems := accessItems, pb_accessTotal := accessTotal,
              pb_subtotal := subtotal,
              pb_droppedAccessItems := Some
                ((case pb_droppedAccessItems breakdown of None \<Rightarrow> [] | Some ds \<Rightarrow> ds)
                 @ [droppedLine dropped reason])\<rparr>)
           (min sponsorship (max 0 sum2))) (\<lambda>next.
         Inr (Some \<lparr>dr_breakdown = next, dr_dropped = dropped, dr_gross = subtotal,
                   dr_accessAmount = accessTotal, dr_sponsorship = pb_sponsorshipTotal next\<rparr>)))))))"

section \<open>Access capacity and discounts\<close>

definition paidAccessQuantities ::
  "payment_status \<Rightarrow> price_breakdown \<Rightarrow> string list \<Rightarrow> (string \<times> int) list" where
  "paidAccessQuantities status priceBreakdown coveredAccessIds =
    (let fullySettled = isFullySettled (Some status) in
     if \<not> fullySettled \<and> status \<noteq> PARTIAL \<and> status \<noteq> VERIFYING then []
     else fold (\<lambda>item quantities.
            if fullySettled \<or> li_accessId item \<in> set coveredAccessIds
            then AList.update (li_accessId item)
                   (count_of quantities (li_accessId item) + li_quantity item) quantities
            else quantities)
          (pb_accessItems priceBreakdown) [])"

definition calculateDiscountAmount :: "applied_rule list \<Rightarrow> error + money" where
  "calculateDiscountAmount appliedRules =
    sbind (sumMoney (map ar_effect (filter (\<lambda>r. ar_effect r < 0) appliedRules)))
      (\<lambda>s. Inr \<bar>s\<bar>)"

section \<open>Sponsorship amounts\<close>

record sponsorship_coverage =
  sc_coversBasePrice :: bool
  sc_coveredAccessIds :: "string list"
  sc_totalAmount :: money

record registration_for_calculation =
  rc_totalAmount :: money
  rc_baseAmount :: money
  rc_accessTypeIds :: "string list"
  rc_calculatedBasePrice :: "money option"
  rc_accessItems :: "(string \<times> money) list option"

definition calculateApplicableAmount ::
  "sponsorship_coverage \<Rightarrow> registration_for_calculation \<Rightarrow> error + money" where
  "calculateApplicableAmount sponsorship registration =
    (let base = (if sc_coversBasePrice sponsorship
                 then (case rc_calculatedBasePrice registration of
                         Some p \<Rightarrow> p | None \<Rightarrow> rc_baseAmount registration)
                 else 0) in
     sbind
       (case rc_accessItems registration of
          None \<Rightarrow> Inr base
        | Some items \<Rightarrow>
            if sc_coveredAccessIds sponsorship = [] then Inr base
            else sfold (\<lambda>coveredId applicable.
                   if coveredId \<in> set (rc_accessTypeIds registration) then
                     (case find (\<lambda>(aid, _). aid = coveredId) items of
                        Some (_, subtotal) \<Rightarrow> sumMoney [applicable, subtotal]
                      | None \<Rightarrow> Inr applicable)
                   else Inr applicable)
                 (sc_coveredAccessIds sponsorship) base)
       (\<lambda>applicable. Inr (min applicable
          (min (rc_totalAmount registration) (sc_totalAmount sponsorship)))))"

definition sponsorshipLimit :: "price_breakdown \<Rightarrow> error + money" where
  "sponsorshipLimit b =
    sbind (sumMoney (pb_calculatedBasePrice b # map li_subtotal (pb_accessItems b)))
      (\<lambda>s. Inr (max 0 (min (pb_subtotal b) s)))"

definition normalizeSponsorshipCode :: "string option \<Rightarrow> string option" where
  "normalizeSponsorshipCode code =
    (let normalized = (case code of None \<Rightarrow> '''' | Some c \<Rightarrow> to_upper (trim c)) in
     if 0 < length normalized then Some normalized else None)"


section \<open>Derived settlements\<close>

lemma assertAmount_Inr_iff [simp]:
  "assertAmount n v = Inr u \<longleftrightarrow> 0 \<le> v \<and> in_safe_range v"
  by (auto simp: assertAmount_def sbind_Inr_iff sumMoney_Inr_iff)

lemma assertAmount_cases:
  "assertAmount n v = Inr () \<and> 0 \<le> v \<and> in_safe_range v \<or>
   (\<exists>e. assertAmount n v = Inl e) \<and> \<not> (0 \<le> v \<and> in_safe_range v)"
  by (auto simp: assertAmount_def sumMoney_def)

definition valid_input :: "settlement_input \<Rightarrow> bool" where
  "valid_input i \<longleftrightarrow>
    0 \<le> si_gross i \<and> in_safe_range (si_gross i) \<and>
    0 \<le> si_sponsorship i \<and> in_safe_range (si_sponsorship i) \<and>
    0 \<le> si_paid i \<and> in_safe_range (si_paid i)"

text \<open>The status rule read off the code, without the checked arithmetic.\<close>

definition settled_status :: "settlement_input \<Rightarrow> payment_status" where
  "settled_status i =
    (let s = min (si_sponsorship i) (si_gross i); due = max 0 (si_gross i - s - si_paid i) in
     if isStickySettlementStatus (si_currentStatus i) then si_currentStatus i
     else if 0 < si_gross i \<and> si_gross i \<le> s then SPONSORED
     else if 0 < si_paid i \<and> due = 0 then PAID
     else if 0 < si_paid i + s \<and> 0 < due then PARTIAL
     else PENDING)"

definition settled_paidAt :: "settlement_input \<Rightarrow> date option" where
  "settled_paidAt i =
    (if isStickySettlementStatus (si_currentStatus i) then si_paidAt i
     else if settled_status i = PAID \<or> settled_status i = SPONSORED
     then Some (case si_paidAt i of None \<Rightarrow> si_now i | Some t \<Rightarrow> t) else None)"

lemma safe_between:
  "in_safe_range a \<Longrightarrow> 0 \<le> b \<Longrightarrow> b \<le> a \<Longrightarrow> in_safe_range b"
  by (auto simp: in_safe_range_def)

lemma deriveSettlement_valid:
  assumes "valid_input i"
  shows "deriveSettlement i = Inr
    \<lparr>ds_status = settled_status i, ds_paidAt = settled_paidAt i, ds_gross = si_gross i,
     ds_sponsorship = min (si_sponsorship i) (si_gross i),
     ds_net = si_gross i - min (si_sponsorship i) (si_gross i),
     ds_due = max 0 (si_gross i - min (si_sponsorship i) (si_gross i) - si_paid i)\<rparr>"
proof -
  let ?g = "si_gross i" and ?p = "si_paid i"
  define s where "s = min (si_sponsorship i) ?g"
  have a: "assertAmount ''gross'' ?g = Inr ()" "assertAmount ''paid'' ?p = Inr ()"
    "assertAmount ''sponsorship'' (si_sponsorship i) = Inr ()"
    using assms by (auto simp: valid_input_def)
  have s0: "0 \<le> s" "s \<le> ?g" and safe: "in_safe_range ?g" "in_safe_range ?p" "0 \<le> ?g" "0 \<le> ?p"
    using assms by (auto simp: valid_input_def s_def)
  have net: "subtractMoney ?g s = Inr (?g - s)"
    using s0 safe by (auto simp: subtractMoney_Inr_iff in_safe_range_def)
  have rest: "subtractMoney (?g - s) ?p = Inr (?g - s - ?p)"
    using s0 safe by (auto simp: subtractMoney_Inr_iff in_safe_range_def)
  have cov: "sumMoney [?p, s] = Inr (?p + s)" if "\<not> (0 < ?p \<and> max 0 (?g - s - ?p) = 0)"
    using that s0 safe by (auto simp: sumMoney_Inr_iff in_safe_range_def)
  show ?thesis
    using s0
    by (auto simp: deriveSettlement_def a net rest cov Let_def settled_status_def
        settled_paidAt_def simp flip: s_def)
qed

lemma deriveSettlement_Inr_iff: "(\<exists>d. deriveSettlement i = Inr d) \<longleftrightarrow> valid_input i"
proof
  assume "\<exists>d. deriveSettlement i = Inr d"
  then show "valid_input i"
    by (auto simp: deriveSettlement_def sbind_Inr_iff valid_input_def)
qed (simp add: deriveSettlement_valid)

lemma deriveSettlement_InrE:
  assumes "deriveSettlement i = Inr d"
  obtains "valid_input i" "ds_status d = settled_status i" "ds_paidAt d = settled_paidAt i"
    "ds_gross d = si_gross i" "ds_sponsorship d = min (si_sponsorship i) (si_gross i)"
    "ds_net d = si_gross i - ds_sponsorship d" "ds_due d = max 0 (ds_net d - si_paid i)"
  using assms deriveSettlement_Inr_iff[of i] deriveSettlement_valid[of i] by auto

lemma sticky_cases:
  "isStickySettlementStatus s \<longleftrightarrow> s = REFUNDED \<or> s = WAIVED \<or> s = PAID \<or> s = VERIFYING"
  by (auto simp: isStickySettlementStatus_def STICKY_SETTLEMENT_STATUSES_def)

lemma settled_status_sticky:
  "isStickySettlementStatus (si_currentStatus i) \<Longrightarrow> settled_status i = si_currentStatus i"
  by (simp add: settled_status_def Let_def)

lemma sticky_AUTO_TRANSITIONS: "isStickySettlementStatus s \<longleftrightarrow> AUTO_TRANSITIONS s = []"
  by (cases s) (auto simp: sticky_cases)

text \<open>What a concrete derivation evaluates with.\<close>

lemmas settle_eval = deriveSettlement_def assertAmount_def sumMoney_def subtractMoney_def
  in_safe_range_def MAX_MINOR_def isStickySettlementStatus_def STICKY_SETTLEMENT_STATUSES_def Let_def

text \<open>
  Deriving a settlement again from its own result (amounts, status and date as derived, at
  any later time) gives the same result, so a recomputation without a money change changes nothing.
\<close>

theorem deriveSettlement_idempotent:
  assumes "deriveSettlement i = Inr d"
  shows "deriveSettlement
    (i\<lparr>si_gross := ds_gross d, si_sponsorship := ds_sponsorship d,
       si_currentStatus := ds_status d, si_paidAt := ds_paidAt d, si_now := now'\<rparr>) = Inr d"
proof -
  from assms have v: "valid_input i" by (rule deriveSettlement_InrE)
  define j where "j = i\<lparr>si_gross := ds_gross d, si_sponsorship := ds_sponsorship d,
       si_currentStatus := ds_status d, si_paidAt := ds_paidAt d, si_now := now'\<rparr>"
  have d: "d = \<lparr>ds_status = settled_status i, ds_paidAt = settled_paidAt i, ds_gross = si_gross i,
     ds_sponsorship = min (si_sponsorship i) (si_gross i),
     ds_net = si_gross i - min (si_sponsorship i) (si_gross i),
     ds_due = max 0 (si_gross i - min (si_sponsorship i) (si_gross i) - si_paid i)\<rparr>"
    using deriveSettlement_valid[OF v] assms by simp
  have vj: "valid_input j"
    using v by (auto simp: valid_input_def j_def d intro: safe_between)
  have st: "settled_status j = settled_status i"
    by (auto simp: settled_status_def j_def d Let_def sticky_cases min_def max_def)
  have pa: "settled_paidAt j = settled_paidAt i"
    using settled_status_sticky[of i] unfolding settled_paidAt_def st
    by (auto simp: j_def d settled_paidAt_def sticky_cases)
  show ?thesis
    unfolding j_def[symmetric] deriveSettlement_valid[OF vj] st pa
    by (simp add: j_def d)
qed

theorem deriveSettlement_idempotent_witness:
  "deriveSettlement \<lparr>si_gross = 500000, si_sponsorship = 200000, si_paid = 300000,
      si_currentStatus = PAID, si_paidAt = Some 7, si_now = 99\<rparr> =
   Inr \<lparr>ds_status = PAID, ds_paidAt = Some 7, ds_gross = 500000, ds_sponsorship = 200000,
        ds_net = 300000, ds_due = 0\<rparr>"
proof -
  let ?i = "\<lparr>si_gross = 500000, si_sponsorship = 200000, si_paid = 300000,
      si_currentStatus = PARTIAL, si_paidAt = None, si_now = 7\<rparr>"
  let ?d = "\<lparr>ds_status = PAID, ds_paidAt = Some 7, ds_gross = 500000, ds_sponsorship = 200000,
        ds_net = 300000, ds_due = 0\<rparr>"
  have "deriveSettlement ?i = Inr ?d"
    by (simp add: settle_eval)
  from deriveSettlement_idempotent[OF this, of 99] show ?thesis by simp
qed

text \<open>
  C9: A derivation changes the status only along the transition table: the derived status is the
  current one or one of its automatic successors, and the sticky statuses (PAID, WAIVED, REFUNDED,
  VERIFYING) keep their status and their payment date.
\<close>

theorem deriveSettlement_transitions:
  assumes "deriveSettlement i = Inr d"
  shows "(ds_status d = si_currentStatus i \<or>
      ds_status d \<in> set (AUTO_TRANSITIONS (si_currentStatus i))) \<and>
    (isStickySettlementStatus (si_currentStatus i) \<longrightarrow>
      ds_status d = si_currentStatus i \<and> ds_paidAt d = si_paidAt i)"
proof -
  from assms have st: "ds_status d = settled_status i" and pa: "ds_paidAt d = settled_paidAt i"
    by (auto elim: deriveSettlement_InrE)
  have "settled_status i = si_currentStatus i \<or>
      settled_status i \<in> set (AUTO_TRANSITIONS (si_currentStatus i))"
    by (cases "si_currentStatus i") (auto simp: settled_status_def Let_def sticky_cases)
  then show ?thesis
    unfolding st pa by (simp add: settled_status_sticky settled_paidAt_def)
qed

theorem deriveSettlement_transitions_witness:
  "deriveSettlement \<lparr>si_gross = 500000, si_sponsorship = 700000, si_paid = 0,
      si_currentStatus = PENDING, si_paidAt = None, si_now = 7\<rparr> =
    Inr \<lparr>ds_status = SPONSORED, ds_paidAt = Some 7, ds_gross = 500000,
        ds_sponsorship = 500000, ds_net = 0, ds_due = 0\<rparr> \<and>
   (SPONSORED = PENDING \<or> SPONSORED \<in> set (AUTO_TRANSITIONS PENDING))"
proof -
  let ?i = "\<lparr>si_gross = 500000, si_sponsorship = 700000, si_paid = 0,
      si_currentStatus = PENDING, si_paidAt = None, si_now = 7\<rparr>"
  let ?d = "\<lparr>ds_status = SPONSORED, ds_paidAt = Some 7, ds_gross = 500000,
        ds_sponsorship = 500000, ds_net = 0, ds_due = 0\<rparr>"
  have r: "deriveSettlement ?i = Inr ?d"
    by (simp add: settle_eval)
  with deriveSettlement_transitions[OF r] show ?thesis
    by (simp only: settlement_input.select_convs derived_settlement.select_convs)
qed

text \<open>
  The derivation succeeds exactly for non-negative amounts in the safe range, and its result is
  the abstract rule: what is applied never exceeds the gross amount, gross splits into sponsorship
  and net, due is the unpaid part of net, a settled status (PAID or SPONSORED) owes nothing, and
  outside the sticky statuses the payment date is set exactly for PAID and SPONSORED.
\<close>

theorem deriveSettlement_amounts:
  "((\<exists>d. deriveSettlement i = Inr d) = valid_input i) \<and>
   (\<forall>d. deriveSettlement i = Inr d \<longrightarrow>
      ds_sponsorship d \<le> ds_gross d \<and> ds_gross d = ds_sponsorship d + ds_net d \<and>
      ds_due d = max 0 (ds_net d - si_paid i) \<and> 0 \<le> ds_net d \<and>
      (\<not> isStickySettlementStatus (si_currentStatus i) \<longrightarrow>
        (ds_status d \<in> {PAID, SPONSORED} \<longrightarrow> ds_due d = 0) \<and>
        (ds_status d = PARTIAL \<longrightarrow> 0 < ds_due d \<and> 0 < si_paid i + ds_sponsorship d) \<and>
        (ds_paidAt d \<noteq> None) = (ds_status d \<in> {PAID, SPONSORED})))"
proof
  show "(\<exists>d. deriveSettlement i = Inr d) = valid_input i"
    by (rule deriveSettlement_Inr_iff)
  show "\<forall>d. deriveSettlement i = Inr d \<longrightarrow>
      ds_sponsorship d \<le> ds_gross d \<and> ds_gross d = ds_sponsorship d + ds_net d \<and>
      ds_due d = max 0 (ds_net d - si_paid i) \<and> 0 \<le> ds_net d \<and>
      (\<not> isStickySettlementStatus (si_currentStatus i) \<longrightarrow>
        (ds_status d \<in> {PAID, SPONSORED} \<longrightarrow> ds_due d = 0) \<and>
        (ds_status d = PARTIAL \<longrightarrow> 0 < ds_due d \<and> 0 < si_paid i + ds_sponsorship d) \<and>
        (ds_paidAt d \<noteq> None) = (ds_status d \<in> {PAID, SPONSORED}))"
    by (auto elim!: deriveSettlement_InrE
        simp: settled_status_def settled_paidAt_def valid_input_def Let_def min_def max_def
        split: if_splits)
qed

theorem deriveSettlement_amounts_witness:
  "deriveSettlement \<lparr>si_gross = 500000, si_sponsorship = 100000, si_paid = 100000,
      si_currentStatus = PENDING, si_paidAt = None, si_now = 7\<rparr> =
     Inr \<lparr>ds_status = PARTIAL, ds_paidAt = None, ds_gross = 500000, ds_sponsorship = 100000,
          ds_net = 400000, ds_due = 300000\<rparr> \<and>
   (300000 :: int) = max 0 (400000 - 100000)"
proof -
  let ?i = "\<lparr>si_gross = 500000, si_sponsorship = 100000, si_paid = 100000,
      si_currentStatus = PENDING, si_paidAt = None, si_now = 7\<rparr>"
  let ?d = "\<lparr>ds_status = PARTIAL, ds_paidAt = None, ds_gross = 500000, ds_sponsorship = 100000,
          ds_net = 400000, ds_due = 300000\<rparr>"
  have r: "deriveSettlement ?i = Inr ?d"
    by (simp add: settle_eval)
  with deriveSettlement_amounts[of ?i] show ?thesis by simp
qed

section \<open>Price breakdowns\<close>

lemma netBreakdown_InrE:
  assumes "netBreakdown icu b sp = Inr b'"
  obtains m where "b' = b\<lparr>pb_sponsorshipTotal := min sp (pb_subtotal b),
      pb_total := max 0 (pb_subtotal b - min sp (pb_subtotal b)), pb_money := m\<rparr>"
proof -
  let ?t = "min sp (pb_subtotal b)"
  obtain rest where rest: "subtractMoney (pb_subtotal b) ?t = Inr rest"
    using assms by (auto simp: netBreakdown_def Let_def elim: sbind_InrE)
  then have sub: "rest = pb_subtotal b - ?t" by (rule subtractMoney_Inr)
  let ?n = "b\<lparr>pb_sponsorshipTotal := ?t, pb_total := max 0 rest\<rparr>"
  have "(if pb_money ?n \<noteq> None then withBreakdownMoney icu ?n else Inr ?n) = Inr b'"
    using assms rest by (simp only: netBreakdown_def Let_def sbind_simps)
  then have "\<exists>m. b' = ?n\<lparr>pb_money := m\<rparr>"
  proof (cases "pb_money ?n")
    case None
    then have "?n = ?n\<lparr>pb_money := None\<rparr>" by simp
    with None \<open>(if pb_money ?n \<noteq> None then withBreakdownMoney icu ?n else Inr ?n) = Inr b'\<close>
    show ?thesis by auto
  qed (auto elim!: withBreakdownMoney_Inr)
  with that show ?thesis unfolding sub by blast
qed

lemma netBreakdown_fields:
  assumes "netBreakdown icu b sp = Inr b'"
  shows "pb_sponsorshipTotal b' = min sp (pb_subtotal b)" "pb_subtotal b' = pb_subtotal b"
    "pb_total b' = pb_subtotal b' - pb_sponsorshipTotal b'"
    "pb_accessItems b' = pb_accessItems b" "pb_accessTotal b' = pb_accessTotal b"
    "pb_calculatedBasePrice b' = pb_calculatedBasePrice b"
    "optionModifiersTotal_of b' = optionModifiersTotal_of b"
    "pb_appliedRules b' = pb_appliedRules b" "pb_sponsorships b' = pb_sponsorships b"
    "pb_droppedAccessItems b' = pb_droppedAccessItems b"
proof -
  obtain m where m: "b' = b\<lparr>pb_sponsorshipTotal := min sp (pb_subtotal b),
      pb_total := max 0 (pb_subtotal b - min sp (pb_subtotal b)), pb_money := m\<rparr>"
    using assms by (rule netBreakdown_InrE)
  have nn: "max 0 (pb_subtotal b - min sp (pb_subtotal b)) = pb_subtotal b - min sp (pb_subtotal b)"
    by simp
  show "pb_sponsorshipTotal b' = min sp (pb_subtotal b)" "pb_subtotal b' = pb_subtotal b"
    "pb_total b' = pb_subtotal b' - pb_sponsorshipTotal b'"
    "pb_accessItems b' = pb_accessItems b" "pb_accessTotal b' = pb_accessTotal b"
    "pb_calculatedBasePrice b' = pb_calculatedBasePrice b"
    "optionModifiersTotal_of b' = optionModifiersTotal_of b"
    "pb_appliedRules b' = pb_appliedRules b" "pb_sponsorships b' = pb_sponsorships b"
    "pb_droppedAccessItems b' = pb_droppedAccessItems b"
    unfolding m nn by (simp_all add: optionModifiersTotal_of_def)
qed

lemma netBreakdown_idem_fields:
  assumes "netBreakdown icu b sp = Inr b1" and "netBreakdown icu b1 sp = Inr b2"
  shows "pb_sponsorshipTotal b2 = pb_sponsorshipTotal b1" "pb_total b2 = pb_total b1"
  using netBreakdown_fields(1-3)[OF assms(1)] netBreakdown_fields(1-3)[OF assms(2)] by simp_all

lemma dropAccessItem_InrE:
  assumes "dropAccessItem icu b k sp reason = Inr (Some r)"
  obtains item items where
    "find (\<lambda>i. li_accessId i = k) (pb_accessItems b) = Some item"
    "items = filter (\<lambda>i. li_accessId i \<noteq> k) (pb_accessItems b)"
    "dr_dropped r = item" "pb_accessItems (dr_breakdown r) = items"
    "pb_accessTotal (dr_breakdown r) = sum_list (map li_subtotal items)"
    "dr_accessAmount r = sum_list (map li_subtotal items)"
    "dr_gross r = max 0 (pb_calculatedBasePrice b + sum_list (map li_subtotal items)
        + optionModifiersTotal_of b)"
    "pb_subtotal (dr_breakdown r) = dr_gross r"
    "pb_sponsorshipTotal (dr_breakdown r) = dr_sponsorship r"
    "dr_sponsorship r = min (min sp (max 0 (pb_calculatedBasePrice b
        + sum_list (map li_subtotal items)))) (dr_gross r)"
    "pb_total (dr_breakdown r) = dr_gross r - dr_sponsorship r"
    "pb_calculatedBasePrice (dr_breakdown r) = pb_calculatedBasePrice b"
    "optionModifiersTotal_of (dr_breakdown r) = optionModifiersTotal_of b"
proof -
  define items where "items = filter (\<lambda>i. li_accessId i \<noteq> k) (pb_accessItems b)"
  define total where "total = sum_list (map li_subtotal items)"
  from assms obtain item where item: "find (\<lambda>i. li_accessId i = k) (pb_accessItems b) = Some item"
    by (auto simp: dropAccessItem_def split: option.splits)
  let ?sub = "max 0 (pb_calculatedBasePrice b + total + optionModifiersTotal_of b)"
  let ?b = "b\<lparr>pb_accessItems := items, pb_accessTotal := total, pb_subtotal := ?sub,
      pb_droppedAccessItems := Some ((case pb_droppedAccessItems b of None \<Rightarrow> [] | Some ds \<Rightarrow> ds)
        @ [droppedLine item reason])\<rparr>"
  let ?sp = "min sp (max 0 (pb_calculatedBasePrice b + total))"
  from assms obtain nb where nb: "netBreakdown icu ?b ?sp = Inr nb"
    and r: "r = \<lparr>dr_breakdown = nb, dr_dropped = item, dr_gross = ?sub, dr_accessAmount = total,
      dr_sponsorship = pb_sponsorshipTotal nb\<rparr>"
    by (auto simp: dropAccessItem_def item Let_def sbind_Inr_iff sumMoney_Inr_iff add.assoc
        simp flip: items_def total_def)
  note f = netBreakdown_fields[OF nb]
  have sel: "pb_accessItems nb = items" "pb_accessTotal nb = total" "pb_subtotal nb = ?sub"
    "pb_calculatedBasePrice nb = pb_calculatedBasePrice b"
    "optionModifiersTotal_of nb = optionModifiersTotal_of b"
    by (simp_all only: f) (simp_all add: optionModifiersTotal_of_def)
  have sp: "pb_sponsorshipTotal nb = min ?sp ?sub" by (simp only: f(1)) simp
  show ?thesis
    by (rule that[OF item items_def])
      (simp_all only: r dropped_result.select_convs sel sp f(3) total_def)
qed

lemma dropAccessItem_None_iff:
  "dropAccessItem icu b k sp reason = Inr None \<longleftrightarrow> k \<notin> li_accessId ` set (pb_accessItems b)"
proof (cases "find (\<lambda>i. li_accessId i = k) (pb_accessItems b)")
  case None
  from None have "k \<notin> li_accessId ` set (pb_accessItems b)" by (auto simp: find_None_iff)
  with None show ?thesis by (simp add: dropAccessItem_def)
next
  case (Some item)
  then have "k \<in> li_accessId ` set (pb_accessItems b)" by (auto dest!: find_SomeD)
  moreover have "dropAccessItem icu b k sp reason \<noteq> Inr None"
    unfolding dropAccessItem_def Some option.case Let_def by (intro sbind_neq) simp
  ultimately show ?thesis by simp
qed

section \<open>Paid places\<close>

definition quantity_of :: "price_breakdown \<Rightarrow> string \<Rightarrow> int" where
  "quantity_of b k = sum_list (map li_quantity (filter (\<lambda>i. li_accessId i = k) (pb_accessItems b)))"

definition holds_place :: "payment_status \<Rightarrow> string list \<Rightarrow> string \<Rightarrow> bool" where
  "holds_place st covered k \<longleftrightarrow>
    isFullySettled (Some st) \<or> (st = PARTIAL \<or> st = VERIFYING) \<and> k \<in> set covered"

lemma paid_fold:
  "count_of (fold (\<lambda>item q. if P (li_accessId item)
       then AList.update (li_accessId item) (count_of q (li_accessId item) + li_quantity item) q else q)
     items acc) k =
   count_of acc k + (if P k then sum_list (map li_quantity (filter (\<lambda>i. li_accessId i = k) items)) else 0)"
  by (induction items arbitrary: acc) auto

lemma paid_quantities_count:
  "count_of (paidAccessQuantities st b covered) k =
    (if holds_place st covered k then quantity_of b k else 0)"
  by (cases st) (simp_all add: paidAccessQuantities_def holds_place_def quantity_of_def Let_def
      paid_fold[where P = "\<lambda>_. True", simplified] paid_fold[where P = "\<lambda>i. i \<in> set covered"])

text \<open>
  The paid places a registration holds, per access item: all its lines of that item when it is
  fully settled, the sponsorship-covered ones when it is PARTIAL or VERIFYING, and none otherwise.
\<close>

theorem paidAccessQuantities_count:
  "count_of (paidAccessQuantities st b covered) k =
    (if holds_place st covered k then quantity_of b k else 0)"
  by (rule paid_quantities_count)

lemma paid_keys_fold:
  "fst ` set (fold (\<lambda>item q. if P item then AList.update (li_accessId item) (v item q) q else q)
      items acc) \<subseteq> fst ` set acc \<union> li_accessId ` set items"
proof (induction items arbitrary: acc)
  case Nil
  then show ?case by simp
next
  case (Cons i items)
  define acc' where "acc' = (if P i then AList.update (li_accessId i) (v i acc) acc else acc)"
  have "fst ` set acc' \<subseteq> insert (li_accessId i) (fst ` set acc)"
    by (auto simp: dom_update acc'_def)
  then have "fst ` set acc' \<union> li_accessId ` set items \<subseteq> fst ` set acc \<union> li_accessId ` set (i # items)"
    by (simp add: subset_iff) blast
  with Cons.IH[of acc'] have "fst ` set (fold (\<lambda>item q. if P item
        then AList.update (li_accessId item) (v item q) q else q) items acc')
      \<subseteq> fst ` set acc \<union> li_accessId ` set (i # items)"
    by (rule subset_trans)
  then show ?case by (simp only: fold.simps comp_def acc'_def)
qed

lemma paidAccessQuantities_keys:
  "fst ` set (paidAccessQuantities st b covered) \<subseteq> li_accessId ` set (pb_accessItems b)"
  using paid_keys_fold[of "\<lambda>item. isFullySettled (Some st) \<or> li_accessId item \<in> set covered"
      "\<lambda>item q. count_of q (li_accessId item) + li_quantity item" "pb_accessItems b" "[]"]
  by (auto simp: paidAccessQuantities_def Let_def)

section \<open>Sponsorship amounts\<close>

definition line_subtotal :: "(string \<times> money) list \<Rightarrow> string \<Rightarrow> money" where
  "line_subtotal items k = (case find (\<lambda>(a, _). a = k) items of Some (_, s) \<Rightarrow> s | None \<Rightarrow> 0)"

text \<open>What the sponsorship covers before the caps: the base and each covered, selected item.\<close>

definition covered_amount :: "sponsorship_coverage \<Rightarrow> registration_for_calculation \<Rightarrow> money" where
  "covered_amount s r =
    (if sc_coversBasePrice s
     then (case rc_calculatedBasePrice r of Some p \<Rightarrow> p | None \<Rightarrow> rc_baseAmount r) else 0) +
    (case rc_accessItems r of None \<Rightarrow> 0
     | Some items \<Rightarrow> sum_list (map (line_subtotal items)
         (filter (\<lambda>k. k \<in> set (rc_accessTypeIds r)) (sc_coveredAccessIds s))))"

lemma covered_fold:
  assumes "sfold (\<lambda>k acc. if k \<in> A then
      (case find (\<lambda>(a, _). a = k) items of Some (_, s) \<Rightarrow> sumMoney [acc, s] | None \<Rightarrow> Inr acc)
      else Inr acc) ks v = Inr w"
  shows "w = v + sum_list (map (line_subtotal items) (filter (\<lambda>k. k \<in> A) ks))"
  using assms
proof (induction ks arbitrary: v)
  case Nil
  then show ?case by simp
next
  case (Cons k ks)
  show ?case
  proof (cases "k \<in> A")
    case False
    then show ?thesis using Cons.IH[of v] Cons.prems by simp
  next
    case True
    show ?thesis
    proof (cases "find (\<lambda>(a, _). a = k) items")
      case None
      then show ?thesis using Cons.IH[of v] Cons.prems True by (simp add: line_subtotal_def)
    next
      case (Some p)
      then obtain a s where p: "p = (a, s)" by fastforce
      with Some True Cons.prems Cons.IH[of "v + s"] show ?thesis
        by (auto simp: line_subtotal_def sbind_Inr_iff sumMoney_Inr_iff)
    qed
  qed
qed

lemma calculateApplicableAmount_Inr:
  assumes "calculateApplicableAmount s r = Inr a"
  shows "a = min (covered_amount s r) (min (rc_totalAmount r) (sc_totalAmount s))"
  using assms
  by (auto simp: calculateApplicableAmount_def covered_amount_def Let_def sbind_Inr_iff
      split: option.splits if_splits dest!: covered_fold)

lemma calculateApplicableAmount_le:
  assumes "calculateApplicableAmount s r = Inr a"
  shows "a \<le> rc_totalAmount r" "a \<le> sc_totalAmount s"
  using calculateApplicableAmount_Inr[OF assms] by auto

lemma sponsorshipLimit_Inr:
  "sponsorshipLimit b = Inr l \<Longrightarrow>
    l = max 0 (min (pb_subtotal b) (pb_calculatedBasePrice b + sum_list (map li_subtotal (pb_accessItems b))))"
  by (auto simp: sponsorshipLimit_def sbind_Inr_iff sumMoney_Inr_iff)

lemma sponsorshipLimit_le:
  "sponsorshipLimit b = Inr l \<Longrightarrow> 0 \<le> l \<and> (0 \<le> pb_subtotal b \<longrightarrow> l \<le> pb_subtotal b)"
  by (auto dest: sponsorshipLimit_Inr)

subsection \<open>Sponsorship codes\<close>

lemma upper_char_space: "is_space (upper_char c) = is_space c"
proof -
  have sp: "is_space d \<longleftrightarrow> (of_char d :: nat) \<in> {9, 10, 11, 12, 13, 32}" for d
    using of_char_eq_iff[of d "CHR '' ''", where 'a = nat] of_char_eq_iff[of d "CHR 0x09", where 'a = nat]
      of_char_eq_iff[of d "CHR 0x0A", where 'a = nat] of_char_eq_iff[of d "CHR 0x0B", where 'a = nat]
      of_char_eq_iff[of d "CHR 0x0C", where 'a = nat] of_char_eq_iff[of d "CHR 0x0D", where 'a = nat]
    by (simp add: is_space_def) blast
  show ?thesis by (auto simp: sp upper_char_def Let_def)
qed

lemma trim_map_upper: "trim (to_upper s) = to_upper (trim s)"
  by (simp add: trim_def to_upper_def dropWhile_map rev_map o_def upper_char_space)

lemma dropWhile_suffix_hd:
  "xs \<noteq> [] \<Longrightarrow> \<not> P (hd xs) \<Longrightarrow> dropWhile P xs = xs"
  by (cases xs) auto

lemma trim_idem [simp]: "trim (trim s) = trim s"
proof -
  define t where "t = dropWhile is_space s"
  have tr: "trim s = rev (dropWhile is_space (rev t))" by (simp add: trim_def t_def)
  show ?thesis
  proof (cases "trim s")
    case Nil
    then show ?thesis by (simp only:) (simp add: trim_def)
  next
    case (Cons c cs)
    have suf: "\<exists>zs. t = trim s @ zs"
      unfolding tr by (metis rev_append rev_rev_ident takeWhile_dropWhile_id)
    then have "hd t = c" "t \<noteq> []" using Cons by auto
    then have "\<not> is_space c" using hd_dropWhile[of is_space s] by (auto simp: t_def)
    then have "dropWhile is_space (trim s) = trim s" by (simp add: Cons)
    then show ?thesis by (simp add: trim_def[of "trim s"]) (simp add: tr dropWhile_idem)
  qed
qed

lemma normalizeSponsorshipCode_idem:
  "normalizeSponsorshipCode (normalizeSponsorshipCode c) = normalizeSponsorshipCode c"
  by (cases c) (auto simp: normalizeSponsorshipCode_def Let_def trim_map_upper)

end
