(* ===== verification/JsValue.thy ===== *)
theory JsValue
  imports Prelude
begin

text \<open>
  What the conditions use of JavaScript: the values of form data, \<open>String(v)\<close>, \<open>Number(v)\<close> and the
  comparisons of numbers. A finite number is the decimal it prints as, mantissa times a power of ten;
  reading a numeral of more than 15 significant digits keeps all of them, where a double rounds.
  Text is ASCII.
\<close>

section \<open>Numbers\<close>

datatype js_num = Js_nan | Js_inf bool | Js_dec int int
  \<comment> \<open>\<open>Js_inf True\<close> is the negative infinity, \<open>Js_dec m e\<close> is m times ten to the e\<close>

definition dec_less :: "int \<Rightarrow> int \<Rightarrow> int \<Rightarrow> int \<Rightarrow> bool" where
  "dec_less m1 e1 m2 e2 \<longleftrightarrow> m1 * 10 ^ nat (e1 - min e1 e2) < m2 * 10 ^ nat (e2 - min e1 e2)"

definition dec_eq :: "int \<Rightarrow> int \<Rightarrow> int \<Rightarrow> int \<Rightarrow> bool" where
  "dec_eq m1 e1 m2 e2 \<longleftrightarrow> m1 * 10 ^ nat (e1 - min e1 e2) = m2 * 10 ^ nat (e2 - min e1 e2)"

fun num_less :: "js_num \<Rightarrow> js_num \<Rightarrow> bool" where
  "num_less (Js_dec m1 e1) (Js_dec m2 e2) = dec_less m1 e1 m2 e2"
| "num_less (Js_inf neg) (Js_dec _ _) = neg"
| "num_less (Js_dec _ _) (Js_inf neg) = (\<not> neg)"
| "num_less (Js_inf n1) (Js_inf n2) = (n1 \<and> \<not> n2)"
| "num_less _ _ = False"

fun num_eq :: "js_num \<Rightarrow> js_num \<Rightarrow> bool" where
  "num_eq (Js_dec m1 e1) (Js_dec m2 e2) = dec_eq m1 e1 m2 e2"
| "num_eq (Js_inf n1) (Js_inf n2) = (n1 = n2)"
| "num_eq _ _ = False"

fun is_finite :: "js_num \<Rightarrow> bool" where
  "is_finite (Js_dec _ _) = True"
| "is_finite _ = False"

text \<open>The value of a finite number, for the proofs about the order.\<close>

definition dec_val :: "int \<Rightarrow> int \<Rightarrow> rat" where
  "dec_val m e = of_int m * 10 powi e"

section \<open>String(n) and Number(s)\<close>

definition digit :: "nat \<Rightarrow> char" where
  "digit n = char_of (48 + n)"

fun show_nat :: "nat \<Rightarrow> string" where
  "show_nat n = (if n < 10 then [digit n] else show_nat (n div 10) @ [digit (n mod 10)])"

declare show_nat.simps [simp del]

function strip_zeros :: "nat \<Rightarrow> int \<Rightarrow> nat \<times> int" where
  "strip_zeros m e = (if m \<noteq> 0 \<and> m mod 10 = 0 then strip_zeros (m div 10) (e + 1) else (m, e))"
  by pat_completeness auto
termination by (relation "measure fst") auto

declare strip_zeros.simps [simp del]

definition show_exponent :: "int \<Rightarrow> string" where
  "show_exponent e = (if 0 \<le> e then ''+'' else ''-'') @ show_nat (nat \<bar>e\<bar>)"

text \<open>Positional up to 21 digits before the point and six zeros after it, else with an exponent.\<close>

definition show_decimal :: "string \<Rightarrow> int \<Rightarrow> string" where
  "show_decimal s n =
    (let k = int (length s) in
     if k \<le> n \<and> n \<le> 21 then s @ replicate (nat (n - k)) (CHR ''0'')
     else if 0 < n \<and> n \<le> 21 then take (nat n) s @ ''.'' @ drop (nat n) s
     else if -6 < n \<and> n \<le> 0 then ''0.'' @ replicate (nat (- n)) (CHR ''0'') @ s
     else take 1 s @ (if k = 1 then [] else ''.'' @ drop 1 s) @ ''e'' @ show_exponent (n - 1))"

fun num_string :: "js_num \<Rightarrow> string" where
  "num_string Js_nan = ''NaN''"
| "num_string (Js_inf neg) = (if neg then ''-Infinity'' else ''Infinity'')"
| "num_string (Js_dec m e) =
    (if m = 0 then ''0''
     else case strip_zeros (nat \<bar>m\<bar>) e of (d, x) \<Rightarrow>
       (if m < 0 then ''-'' else []) @ show_decimal (show_nat d) (int (length (show_nat d)) + x))"

definition is_digit :: "char \<Rightarrow> bool" where
  "is_digit c = (let n = (of_char c :: nat) in 48 \<le> n \<and> n \<le> 57)"

definition digit_value :: "char \<Rightarrow> nat" where
  "digit_value c = of_char c - 48"

definition digits_value :: "string \<Rightarrow> nat" where
  "digits_value s = foldl (\<lambda>a c. a * 10 + digit_value c) 0 s"

text \<open>The exponent part: nothing, or \<open>e\<close> with an optional sign and digits to the end.\<close>

definition read_exponent :: "string \<Rightarrow> int option" where
  "read_exponent s =
    (case s of
       [] \<Rightarrow> Some 0
     | c # rest \<Rightarrow>
         if c \<noteq> CHR ''e'' \<and> c \<noteq> CHR ''E'' then None
         else
           (case rest of
              CHR ''-'' # ds \<Rightarrow> if ds \<noteq> [] \<and> list_all is_digit ds then Some (- int (digits_value ds)) else None
            | CHR ''+'' # ds \<Rightarrow> if ds \<noteq> [] \<and> list_all is_digit ds then Some (int (digits_value ds)) else None
            | ds \<Rightarrow> if ds \<noteq> [] \<and> list_all is_digit ds then Some (int (digits_value ds)) else None))"

definition read_fraction :: "string \<Rightarrow> string \<times> string" where
  "read_fraction s =
    (case s of CHR ''.'' # r \<Rightarrow> (takeWhile is_digit r, dropWhile is_digit r) | _ \<Rightarrow> ([], s))"

definition read_unsigned :: "string \<Rightarrow> js_num" where
  "read_unsigned s =
    (if s = ''Infinity'' then Js_inf False
     else
      (let ip = takeWhile is_digit s in
       case read_fraction (dropWhile is_digit s) of (fp, r) \<Rightarrow>
         if ip = [] \<and> fp = [] then Js_nan
         else (case read_exponent r of None \<Rightarrow> Js_nan
           | Some x \<Rightarrow> Js_dec (int (digits_value (ip @ fp))) (x - int (length fp)))))"

fun num_neg :: "js_num \<Rightarrow> js_num" where
  "num_neg Js_nan = Js_nan"
| "num_neg (Js_inf neg) = Js_inf (\<not> neg)"
| "num_neg (Js_dec m e) = Js_dec (- m) e"

definition radix_value :: "char \<Rightarrow> nat option" where
  "radix_value c =
    (let n = (of_char c :: nat) in
     if 48 \<le> n \<and> n \<le> 57 then Some (n - 48)
     else if 97 \<le> n \<and> n \<le> 102 then Some (n - 87)
     else if 65 \<le> n \<and> n \<le> 70 then Some (n - 55)
     else None)"

fun read_radix :: "nat \<Rightarrow> string \<Rightarrow> nat \<Rightarrow> js_num" where
  "read_radix b [] acc = Js_dec (int acc) 0"
| "read_radix b (c # s) acc =
    (case radix_value c of None \<Rightarrow> Js_nan
     | Some d \<Rightarrow> if d < b then read_radix b s (acc * b + d) else Js_nan)"

definition radix_of :: "char \<Rightarrow> nat option" where
  "radix_of c =
    (if c = CHR ''x'' \<or> c = CHR ''X'' then Some 16
     else if c = CHR ''o'' \<or> c = CHR ''O'' then Some 8
     else if c = CHR ''b'' \<or> c = CHR ''B'' then Some 2 else None)"

definition read_signed :: "string \<Rightarrow> js_num" where
  "read_signed s =
    (case s of CHR ''-'' # r \<Rightarrow> num_neg (read_unsigned r) | CHR ''+'' # r \<Rightarrow> read_unsigned r
     | _ \<Rightarrow> read_unsigned s)"

definition read_trimmed :: "string \<Rightarrow> js_num" where
  "read_trimmed s =
    (case s of
       [] \<Rightarrow> Js_dec 0 0
     | CHR ''0'' # c # d # r \<Rightarrow> (case radix_of c of Some b \<Rightarrow> read_radix b (d # r) 0 | None \<Rightarrow> read_signed s)
     | _ \<Rightarrow> read_signed s)"

definition string_num :: "string \<Rightarrow> js_num" where
  "string_num s = read_trimmed (trim s)"

section \<open>Values\<close>

datatype js =
  J_undefined | J_null | J_bool bool | J_num js_num | J_str string | J_arr "js list"
| J_obj "(string \<times> js) list"

fun join :: "string \<Rightarrow> string list \<Rightarrow> string" where
  "join sep [] = []"
| "join sep [x] = x"
| "join sep (x # y # xs) = x @ sep @ join sep (y # xs)"

text \<open>An array joins its elements with commas, null and undefined as nothing.\<close>

fun js_string :: "js \<Rightarrow> string" where
  "js_string J_undefined = ''undefined''"
| "js_string J_null = ''null''"
| "js_string (J_bool b) = (if b then ''true'' else ''false'')"
| "js_string (J_num n) = num_string n"
| "js_string (J_str s) = s"
| "js_string (J_arr xs) = join '','' (map (\<lambda>x. if x = J_undefined \<or> x = J_null then [] else js_string x) xs)"
| "js_string (J_obj _) = ''[object Object]''"

fun js_number_of :: "js \<Rightarrow> js_num" where
  "js_number_of J_undefined = Js_nan"
| "js_number_of J_null = Js_dec 0 0"
| "js_number_of (J_bool b) = Js_dec (if b then 1 else 0) 0"
| "js_number_of (J_num n) = n"
| "js_number_of (J_str s) = string_num s"
| "js_number_of (J_arr xs) = string_num (js_string (J_arr xs))"
| "js_number_of (J_obj _) = Js_nan"

definition nullish :: "js \<Rightarrow> bool" where
  "nullish v \<longleftrightarrow> v = J_undefined \<or> v = J_null"

text \<open>\<open>data[key]\<close> of a JSON object.\<close>

type_synonym form_data = "(string \<times> js) list"

definition field :: "form_data \<Rightarrow> string \<Rightarrow> js" where
  "field data k = (case map_of data k of None \<Rightarrow> J_undefined | Some v \<Rightarrow> v)"

section \<open>The order of numbers\<close>

lemma dec_val_scale:
  assumes "k \<le> e"
  shows "dec_val m e = of_int (m * 10 ^ nat (e - k)) * 10 powi k"
proof -
  have "(10::rat) powi e = 10 powi ((e - k) + k)" by simp
  also have "\<dots> = 10 powi (e - k) * 10 powi k" by (rule power_int_add) simp
  also have "(10::rat) powi (e - k) = 10 ^ nat (e - k)" using assms by (simp add: power_int_def)
  finally show ?thesis by (simp add: dec_val_def)
qed

lemma dec_less_val: "dec_less m1 e1 m2 e2 \<longleftrightarrow> dec_val m1 e1 < dec_val m2 e2"
proof -
  let ?k = "min e1 e2"
  let ?a = "m1 * 10 ^ nat (e1 - ?k)" and ?b = "m2 * 10 ^ nat (e2 - ?k)"
  have p: "(0::rat) < 10 powi ?k" by simp
  have "dec_val m1 e1 = of_int ?a * 10 powi ?k" and "dec_val m2 e2 = of_int ?b * 10 powi ?k"
    by (rule dec_val_scale, simp)+
  then have "dec_val m1 e1 < dec_val m2 e2 \<longleftrightarrow> (of_int ?a :: rat) < of_int ?b"
    by (simp only: mult_less_cancel_right_pos[OF p])
  then show ?thesis by (simp only: dec_less_def of_int_less_iff)
qed

lemma dec_eq_val: "dec_eq m1 e1 m2 e2 \<longleftrightarrow> dec_val m1 e1 = dec_val m2 e2"
proof -
  let ?k = "min e1 e2"
  let ?a = "m1 * 10 ^ nat (e1 - ?k)" and ?b = "m2 * 10 ^ nat (e2 - ?k)"
  have p: "(10::rat) powi ?k \<noteq> 0" by simp
  have "dec_val m1 e1 = of_int ?a * 10 powi ?k" and "dec_val m2 e2 = of_int ?b * 10 powi ?k"
    by (rule dec_val_scale, simp)+
  then have "dec_val m1 e1 = dec_val m2 e2 \<longleftrightarrow> (of_int ?a :: rat) = of_int ?b"
    by (simp only: mult_right_cancel[OF p])
  then show ?thesis by (simp only: dec_eq_def of_int_eq_iff)
qed

lemma num_less_trans: "num_less a b \<Longrightarrow> num_less b c \<Longrightarrow> num_less a c"
  by (cases "(a, b)" rule: num_less.cases; cases c) (auto simp: dec_less_val)

lemma num_less_irrefl [simp]: "\<not> num_less a a"
  by (cases a) (auto simp: dec_less_val)

text \<open>\<open>a >= b\<close> of finite numbers.\<close>

definition num_ge :: "js_num \<Rightarrow> js_num \<Rightarrow> bool" where
  "num_ge a b \<longleftrightarrow> num_less b a \<or> num_eq a b"

lemma num_between:
  assumes "num_ge g l" and "num_less g a" and "num_less a l"
  shows False
proof -
  have "num_less g l" using assms(2,3) by (rule num_less_trans)
  with assms(1) show False
    using num_less_trans[of g l g]
    by (cases g; cases l) (auto simp: num_ge_def dec_less_val dec_eq_val)
qed

section \<open>Substrings\<close>

lemma is_infix_iff: "is_infix p s \<longleftrightarrow> (\<exists>a b. s = a @ p @ b)"
proof (induction s)
  case Nil
  then show ?case by auto
next
  case (Cons c s)
  have "take (length p) (c # s) = p \<longleftrightarrow> (\<exists>b. c # s = p @ b)"
    by (metis append_eq_conv_conj append_take_drop_id)
  moreover have "(\<exists>a b. c # s = a @ p @ b) \<longleftrightarrow> (\<exists>b. c # s = p @ b) \<or> (\<exists>a b. s = a @ p @ b)"
    by (auto simp: Cons_eq_append_conv)
  ultimately show ?case using Cons by simp
qed

lemma is_infix_trans: "is_infix p q \<Longrightarrow> is_infix q s \<Longrightarrow> is_infix p s"
  unfolding is_infix_iff by (metis append.assoc)

lemma is_infix_char: "is_infix [c] s \<longleftrightarrow> c \<in> set s"
  unfolding is_infix_iff by (auto dest: split_list)

text \<open>Text without a comma is the join of at most one element.\<close>

lemma join_comma:
  assumes "CHR '','' \<notin> set (join '','' xs)"
  shows "length xs \<le> 1"
  using assms by (cases xs rule: remdups_adj.cases) auto

end
