(* ===== verification/Db.thy ===== *)
theory Db
  imports Settlement JsValue
begin

text \<open>
  The tables the settlement code reads and writes, and its queries (\<open>packages/db/src/schema\<close>,
  \<open>packages/db/src/queries\<close>, \<open>packages/db/src/locks.ts\<close>, the enqueue half of
  \<open>packages/db/src/outbox/outbox.ts\<close>). A query is a function of the database state; one that
  writes returns the new state. A row lock is its existence check: a locking transaction is one
  atomic step of the model, so nothing moves between its statements. Columns no modelled code
  reads are left out.
\<close>

section \<open>Rows\<close>

datatype payment_method = BANK_TRANSFER | ONLINE | CASH | LAB_SPONSORSHIP

datatype registration_role = PARTICIPANT | SPEAKER | MODERATOR | ORGANIZER | INVITED

datatype sponsorship_status = Sp_pending | Sp_used | Sp_cancelled

record event_row =
  ev_id :: string
  ev_clientId :: string

record access_row =
  ea_id :: string
  ea_eventId :: string
  ea_name :: string
  ea_active :: bool
  ea_maxCapacity :: "int option"
  ea_paidCount :: int
  ea_registeredCount :: int

record registration_row =
  rg_id :: string
  rg_eventId :: string
  rg_email :: string
  rg_firstName :: "string option"
  rg_lastName :: "string option"
  rg_paymentStatus :: payment_status
  rg_paidAt :: "date option"
  rg_paidAmount :: money
  rg_totalAmount :: money
  rg_sponsorshipAmount :: money
  rg_priceBreakdown :: price_breakdown
  rg_baseAmount :: money
  rg_accessAmount :: money
  rg_discountAmount :: money
  rg_paymentMethod :: "payment_method option"
  rg_sponsorshipCode :: "string option"
  rg_accessTypeIds :: "string list option"
  rg_droppedAccessIds :: "string list option"
  rg_createdAt :: date
  rg_updatedAt :: date
  rg_formId :: string
  rg_formData :: form_data
  rg_formSchemaVersion :: int
  rg_networkingOptIn :: "bool option"
  rg_submittedAt :: date
  rg_phone :: "string option"
  rg_referenceNumber :: "string option"
  rg_currency :: string
  rg_paymentReference :: "string option"
  rg_paymentProofUrl :: "string option"
  rg_labName :: "string option"
  rg_lastEditedAt :: "date option"
  rg_editToken :: "string option"
  rg_linkBaseUrl :: "string option"
  rg_idempotencyKey :: "string option"
  rg_note :: "string option"
  rg_role :: registration_role
  rg_checkedInAt :: "date option"
  rg_checkedInBy :: "string option"

record sponsorship_row =
  sp_id :: string
  sp_eventId :: string
  sp_code :: string
  sp_status :: sponsorship_status
  sp_targetRegistrationId :: "string option"
  sp_totalAmount :: money
  sp_coversBasePrice :: bool
  sp_coveredAccessIds :: "string list option"
  sp_batchId :: string
  sp_beneficiaryName :: string
  sp_beneficiaryEmail :: string
  sp_beneficiaryPhone :: "string option"
  sp_beneficiaryAddress :: "string option"
  sp_createdAt :: date

record usage_row =
  us_id :: string
  us_sponsorshipId :: string
  us_registrationId :: "string option"
  us_amountApplied :: money
  us_appliedBy :: string

datatype app_event =
  Registration_updated string string string payment_status
    \<comment> \<open>client, event, registration, status\<close>
| Registration_paymentConfirmed string string string payment_status
| EventAccess_countsChanged string string "string list"
| Registration_created string string string string payment_status
    \<comment> \<open>client, event, registration, email, status\<close>
| Registration_deleted string string string string
| Registration_checkedIn string string string "string option"  \<comment> \<open>client, event, registration, access\<close>
| Registration_checkInUndone string string string
    \<comment> \<open>\<open>registration.updated\<close> with no status: client, event, registration\<close>
| Sponsorship_linked string string string string  \<comment> \<open>client, event, sponsorship, registration\<close>
| Sponsorship_unlinked string string string string
| Sponsorship_updated string string string
| Sponsorship_cancelled string string string
| Sponsorship_deleted string string string
| Sponsorship_batchCreated string string string nat  \<comment> \<open>client, event, batch, count\<close>

datatype outbox_payload =
  Access_capacityReached string string drop_reason  \<comment> \<open>event, access item, reason\<close>
| Email_triggered string string string  \<comment> \<open>trigger, event, registration\<close>
| Email_sponsorship string string string string "string option"
    \<comment> \<open>trigger, event, recipient's email and name, registration; the template's context is left out\<close>
| Realtime_emit app_event
| Networking_sync string string  \<comment> \<open>registration, event\<close>

record outbox_entry =
  oe_dedupeKey :: "string option"
  oe_payload :: outbox_payload
  oe_maxAttempts :: int

datatype audit_value =
  Av_null
| Av_text string
| Av_money money
| Av_status payment_status
| Av_method "payment_method option"
| Av_role registration_role
| Av_ids "string list"
| Av_items "(string \<times> int) list"
| Av_data form_data
| Av_bool bool
| Av_date date

text \<open>\<open>Changed\<close>: an entry of the object of changes, its field with the old and the new value.\<close>

datatype audit_change =
  Access_dropped string drop_reason
| Total_changed money money
| Price_deducted money
| Status_changed payment_status payment_status
| Access_kept overpaid_skip
| Changed string audit_value audit_value

record audit_entry =
  au_entityType :: string
  au_entityId :: string
  au_action :: string
  au_changes :: "audit_change list"
  au_performedBy :: "string option"
  au_ipAddress :: "string option"

text \<open>\<open>db_clock\<close> is the time \<open>new Date()\<close> returns; \<open>db_ids\<close> are the ids still to come from \<open>newId()\<close>.\<close>

record db =
  db_events :: "event_row list"
  db_networking :: "string list"  \<comment> \<open>events with a networking config row\<close>
  db_accesses :: "access_row list"
  db_registrations :: "registration_row list"
  db_sponsorships :: "sponsorship_row list"
  db_usages :: "usage_row list"
  db_outbox :: "outbox_entry list"
  db_audit :: "audit_entry list"
  db_realtimeDisabled :: bool
  db_clock :: date
  db_ids :: "string list"

section \<open>Locks\<close>

definition lockRowsForUpdate :: "('r \<Rightarrow> string) \<Rightarrow> 'r list \<Rightarrow> string list \<Rightarrow> string list" where
  "lockRowsForUpdate key table ids =
    filter (\<lambda>i. i \<in> key ` set table) (sort (uniq ids))"

definition lockRegistrationForUpdate :: "db \<Rightarrow> string \<Rightarrow> bool" where
  "lockRegistrationForUpdate s i \<longleftrightarrow> length (lockRowsForUpdate rg_id (db_registrations s) [i]) = 1"

definition lockRegistrationsForUpdate :: "db \<Rightarrow> string list \<Rightarrow> string list" where
  "lockRegistrationsForUpdate s ids = lockRowsForUpdate rg_id (db_registrations s) ids"

definition lockSponsorshipForUpdate :: "db \<Rightarrow> string \<Rightarrow> bool" where
  "lockSponsorshipForUpdate s i \<longleftrightarrow> length (lockRowsForUpdate sp_id (db_sponsorships s) [i]) = 1"

definition lockSponsorshipsForUpdate :: "db \<Rightarrow> string list \<Rightarrow> string list" where
  "lockSponsorshipsForUpdate s ids = lockRowsForUpdate sp_id (db_sponsorships s) ids"

definition lockSponsorshipByCodeForUpdate :: "db \<Rightarrow> string \<Rightarrow> string \<Rightarrow> string option" where
  "lockSponsorshipByCodeForUpdate s eventId code =
    map_option sp_id
      (find (\<lambda>r. sp_eventId r = eventId \<and> sp_code r = code) (db_sponsorships s))"

section \<open>Reads\<close>

definition registration_of :: "db \<Rightarrow> string \<Rightarrow> registration_row option" where
  "registration_of s i = row_of rg_id i (db_registrations s)"

definition access_of :: "db \<Rightarrow> string \<Rightarrow> access_row option" where
  "access_of s i = row_of ea_id i (db_accesses s)"

definition sponsorship_of :: "db \<Rightarrow> string \<Rightarrow> sponsorship_row option" where
  "sponsorship_of s i = row_of sp_id i (db_sponsorships s)"

text \<open>\<open>coveredAccessIds ?? []\<close>, and the coverage a settlement calculates with\<close>

definition covered_ids :: "sponsorship_row \<Rightarrow> string list" where
  "covered_ids r = (case sp_coveredAccessIds r of None \<Rightarrow> [] | Some ids \<Rightarrow> ids)"

definition coverage_of :: "sponsorship_row \<Rightarrow> sponsorship_coverage" where
  "coverage_of r = \<lparr>sc_coversBasePrice = sp_coversBasePrice r,
    sc_coveredAccessIds = covered_ids r, sc_totalAmount = sp_totalAmount r\<rparr>"

record usage_for_recalc =
  ur_id :: string
  ur_amountApplied :: money
  ur_sponsorship :: sponsorship_coverage

text \<open>The inner join of a registration's usages with their sponsorships.\<close>

definition findRegistrationUsagesForRecalc :: "db \<Rightarrow> string \<Rightarrow> usage_for_recalc list" where
  "findRegistrationUsagesForRecalc s registrationId =
    concat (map (\<lambda>u. case sponsorship_of s (us_sponsorshipId u) of
        None \<Rightarrow> []
      | Some r \<Rightarrow> [\<lparr>ur_id = us_id u, ur_amountApplied = us_amountApplied u,
                    ur_sponsorship = coverage_of r\<rparr>])
      (filter (\<lambda>u. us_registrationId u = Some registrationId) (db_usages s)))"

definition findRegistrationUsageLinks :: "db \<Rightarrow> string \<Rightarrow> (string \<times> string) list" where
  "findRegistrationUsageLinks s registrationId =
    map (\<lambda>u. (us_id u, us_sponsorshipId u))
      (filter (\<lambda>u. us_registrationId u = Some registrationId) (db_usages s))"

definition findUsage :: "db \<Rightarrow> string \<Rightarrow> string \<Rightarrow> usage_row option" where
  "findUsage s sponsorshipId registrationId =
    find (\<lambda>u. us_sponsorshipId u = sponsorshipId \<and> us_registrationId u = Some registrationId)
      (db_usages s)"

definition getAccessCapacityRowsByIds :: "db \<Rightarrow> string list \<Rightarrow> access_row list" where
  "getAccessCapacityRowsByIds s ids = filter (\<lambda>r. ea_id r \<in> set ids) (db_accesses s)"

section \<open>Writes\<close>

definition updateUsageAmount :: "string \<Rightarrow> money \<Rightarrow> db \<Rightarrow> db" where
  "updateUsageAmount usageId amount s =
    s\<lparr>db_usages := update_rows (\<lambda>u. us_id u = usageId) (\<lambda>u. u\<lparr>us_amountApplied := amount\<rparr>) (db_usages s)\<rparr>"

text \<open>The unique index on (sponsorship, registration) refuses a second usage of the same pair.\<close>

definition insertUsage :: "string \<Rightarrow> string \<Rightarrow> money \<Rightarrow> string \<Rightarrow> db \<Rightarrow> error + usage_row \<times> db" where
  "insertUsage sponsorshipId registrationId amount appliedBy s =
    (case db_ids s of
       [] \<Rightarrow> Inl (Plain_error ''newId'')
     | i # ids \<Rightarrow>
        (if findUsage s sponsorshipId registrationId \<noteq> None
         then Inl (Unique_violation ''sponsorship_usages_sponsorship_id_registration_id_key'')
         else
          (let u = \<lparr>us_id = i, us_sponsorshipId = sponsorshipId,
                    us_registrationId = Some registrationId, us_amountApplied = amount,
                    us_appliedBy = appliedBy\<rparr>
           in Inr (u, s\<lparr>db_ids := ids, db_usages := db_usages s @ [u]\<rparr>))))"

definition deleteUsage :: "string \<Rightarrow> db \<Rightarrow> db" where
  "deleteUsage usageId s = s\<lparr>db_usages := filter (\<lambda>u. us_id u \<noteq> usageId) (db_usages s)\<rparr>"

definition deleteRegistrationUsages :: "string \<Rightarrow> db \<Rightarrow> db" where
  "deleteRegistrationUsages registrationId s =
    s\<lparr>db_usages := filter (\<lambda>u. us_registrationId u \<noteq> Some registrationId) (db_usages s)\<rparr>"

text \<open>The number of rows changed, and the new state: USED only while not CANCELLED.\<close>

definition casSetSponsorshipUsed :: "string \<Rightarrow> db \<Rightarrow> nat \<times> db" where
  "casSetSponsorshipUsed i s =
    (length (filter (\<lambda>r. sp_id r = i \<and> sp_status r \<noteq> Sp_cancelled) (db_sponsorships s)),
     s\<lparr>db_sponsorships := update_rows (\<lambda>r. sp_id r = i \<and> sp_status r \<noteq> Sp_cancelled)
        (\<lambda>r. r\<lparr>sp_status := Sp_used\<rparr>) (db_sponsorships s)\<rparr>)"

definition updateSponsorshipRow :: "string \<Rightarrow> (sponsorship_row \<Rightarrow> sponsorship_row) \<Rightarrow> db \<Rightarrow> db" where
  "updateSponsorshipRow i patch s =
    s\<lparr>db_sponsorships := update_rows (\<lambda>r. sp_id r = i) patch (db_sponsorships s)\<rparr>"

section \<open>Outbox and audit log\<close>

text \<open>
  \<open>ON CONFLICT DO NOTHING\<close> on the partial unique index over non-null dedupe keys; the flag says
  whether a row was inserted.
\<close>

definition enqueueOutboxEvent :: "outbox_payload \<Rightarrow> string option \<Rightarrow> int \<Rightarrow> db \<Rightarrow> bool \<times> db" where
  "enqueueOutboxEvent payload dedupeKey maxAttempts s =
    (if dedupeKey \<noteq> None \<and> dedupeKey \<in> oe_dedupeKey ` set (db_outbox s) then (False, s)
     else (True, s\<lparr>db_outbox := db_outbox s @
       [\<lparr>oe_dedupeKey = dedupeKey, oe_payload = payload, oe_maxAttempts = maxAttempts\<rparr>]\<rparr>))"

definition enqueueRealtimeOutboxEvent :: "app_event \<Rightarrow> db \<Rightarrow> bool \<times> db" where
  "enqueueRealtimeOutboxEvent ev s =
    (if db_realtimeDisabled s then (False, s)
     else enqueueOutboxEvent (Realtime_emit ev) None 10 s)"

definition enqueueTriggeredEmailOutbox :: "string \<Rightarrow> string \<Rightarrow> string \<Rightarrow> string \<Rightarrow> db \<Rightarrow> bool \<times> db" where
  "enqueueTriggeredEmailOutbox trigger eventId registrationId dedupeKey s =
    enqueueOutboxEvent (Email_triggered trigger eventId registrationId) (Some dedupeKey) 5 s"

definition enqueueNetworkingRegistrationSyncs :: "(string \<times> string) list \<Rightarrow> db \<Rightarrow> string list \<times> db" where
  "enqueueNetworkingRegistrationSyncs targets s =
    (let unique = fold (\<lambda>(r, e) m. AList.update r e m) targets [];
         configured = filter (\<lambda>(_, e). e \<in> set (db_networking s)) unique
     in (map fst configured,
         fold (\<lambda>(r, e) t. snd (enqueueOutboxEvent (Networking_sync r e) None 5 t)) configured s))"

definition insertAuditLog :: "audit_entry \<Rightarrow> db \<Rightarrow> db" where
  "insertAuditLog a s = s\<lparr>db_audit := db_audit s @ [a]\<rparr>"

definition settlementEventPair ::
  "string \<Rightarrow> string \<Rightarrow> string \<Rightarrow> payment_status \<Rightarrow> payment_status option \<Rightarrow> bool \<Rightarrow> string list
    \<Rightarrow> app_event list" where
  "settlementEventPair i eventId clientId oldStatus newStatus emitCountsChanged accessIds =
    (let statusChanged = (newStatus \<noteq> None \<and> newStatus \<noteq> Some oldStatus);
         becameSettled = (statusChanged \<and> isFullySettled newStatus
           \<and> \<not> isFullySettled (Some oldStatus));
         status = (case newStatus of None \<Rightarrow> oldStatus | Some st \<Rightarrow> st)
     in (if becameSettled then Registration_paymentConfirmed clientId eventId i status
         else Registration_updated clientId eventId i status)
        # (if emitCountsChanged then [EventAccess_countsChanged clientId eventId accessIds] else []))"

fun sync_target :: "app_event \<Rightarrow> (string \<times> string) list" where
  "sync_target (Registration_updated _ e i _) = (if e \<noteq> '''' then [(i, e)] else [])"
| "sync_target (Registration_paymentConfirmed _ e i _) = (if e \<noteq> '''' then [(i, e)] else [])"
| "sync_target (EventAccess_countsChanged _ _ _) = []"
| "sync_target (Registration_created _ _ _ _ _) = []"
| "sync_target (Registration_deleted _ _ _ _) = []"
| "sync_target (Registration_checkedIn _ _ _ _) = []"
| "sync_target (Registration_checkInUndone _ e i) = (if e \<noteq> '''' then [(i, e)] else [])"
| "sync_target (Sponsorship_linked _ _ _ _) = []"
| "sync_target (Sponsorship_unlinked _ _ _ _) = []"
| "sync_target (Sponsorship_updated _ _ _) = []"
| "sync_target (Sponsorship_cancelled _ _ _) = []"
| "sync_target (Sponsorship_deleted _ _ _) = []"
| "sync_target (Sponsorship_batchCreated _ _ _ _) = []"

definition emitSettlementEvents :: "app_event list \<Rightarrow> db \<Rightarrow> db" where
  "emitSettlementEvents evs s =
    fold (\<lambda>ev t. snd (enqueueRealtimeOutboxEvent ev t)) evs
      (snd (enqueueNetworkingRegistrationSyncs (concat (map sync_target evs)) s))"

section \<open>Capacity counters\<close>

text \<open>
  Guarded single-statement updates (compare and swap). Each returns whether a row was changed.
\<close>

definition casIncrementAccessRegisteredCount :: "string \<Rightarrow> int \<Rightarrow> db \<Rightarrow> bool \<times> db" where
  "casIncrementAccessRegisteredCount accessId quantity s =
    (let p = (\<lambda>r. ea_id r = accessId \<and>
          (case ea_maxCapacity r of None \<Rightarrow> True | Some c \<Rightarrow> ea_paidCount r + quantity \<le> c))
     in (list_ex p (db_accesses s),
         s\<lparr>db_accesses := update_rows p
           (\<lambda>r. r\<lparr>ea_registeredCount := ea_registeredCount r + quantity\<rparr>) (db_accesses s)\<rparr>))"

definition casDecrementAccessRegisteredCount :: "string \<Rightarrow> int \<Rightarrow> db \<Rightarrow> bool \<times> db" where
  "casDecrementAccessRegisteredCount accessId quantity s =
    (let p = (\<lambda>r. ea_id r = accessId \<and> quantity \<le> ea_registeredCount r)
     in (list_ex p (db_accesses s),
         s\<lparr>db_accesses := update_rows p
           (\<lambda>r. r\<lparr>ea_registeredCount := ea_registeredCount r - quantity\<rparr>) (db_accesses s)\<rparr>))"

definition casIncrementAccessPaidCount :: "string \<Rightarrow> int \<Rightarrow> db \<Rightarrow> bool \<times> db" where
  "casIncrementAccessPaidCount accessId quantity s =
    (let p = (\<lambda>r. ea_id r = accessId \<and>
          (case ea_maxCapacity r of None \<Rightarrow> True | Some c \<Rightarrow> ea_paidCount r + quantity \<le> c))
     in (list_ex p (db_accesses s),
         s\<lparr>db_accesses := update_rows p
           (\<lambda>r. r\<lparr>ea_paidCount := ea_paidCount r + quantity\<rparr>) (db_accesses s)\<rparr>))"

definition casDecrementAccessPaidCount :: "string \<Rightarrow> int \<Rightarrow> db \<Rightarrow> bool \<times> db" where
  "casDecrementAccessPaidCount accessId quantity s =
    (let p = (\<lambda>r. ea_id r = accessId \<and> quantity \<le> ea_paidCount r)
     in (list_ex p (db_accesses s),
         s\<lparr>db_accesses := update_rows p
           (\<lambda>r. r\<lparr>ea_paidCount := ea_paidCount r - quantity\<rparr>) (db_accesses s)\<rparr>))"

section \<open>Lemmas\<close>

lemma lockRows_single: "length (lockRowsForUpdate key t [i]) = 1 \<longleftrightarrow> i \<in> key ` set t"
  by (auto simp: lockRowsForUpdate_def uniq_def)

lemma lockRegistrationForUpdate_iff:
  "lockRegistrationForUpdate s i \<longleftrightarrow> registration_of s i \<noteq> None"
  unfolding lockRegistrationForUpdate_def registration_of_def row_of_None lockRows_single by blast

lemma lockSponsorshipForUpdate_iff:
  "lockSponsorshipForUpdate s i \<longleftrightarrow> sponsorship_of s i \<noteq> None"
  unfolding lockSponsorshipForUpdate_def sponsorship_of_def row_of_None lockRows_single by blast

lemma lockRowsForUpdate_props:
  "sorted (lockRowsForUpdate key t ids)" "distinct (lockRowsForUpdate key t ids)"
  "set (lockRowsForUpdate key t ids) = set ids \<inter> key ` set t"
  by (auto simp: lockRowsForUpdate_def sorted_filter[where f = id, simplified] distinct_sort)

lemma registration_of_key: "registration_of s i = Some r \<Longrightarrow> rg_id r = i"
  by (auto simp: registration_of_def dest: row_of_Some)

lemma access_of_key: "access_of s i = Some r \<Longrightarrow> ea_id r = i"
  by (auto simp: access_of_def dest: row_of_Some)

text \<open>
  The outbox never holds two rows with the same dedupe key: an enqueue with a key that is
  already stored writes nothing and says so, and every enqueue keeps the keys distinct.
\<close>

definition keys_unique :: "db \<Rightarrow> bool" where
  "keys_unique s \<longleftrightarrow> distinct (filter (\<lambda>k. k \<noteq> None) (map oe_dedupeKey (db_outbox s)))"

theorem enqueueOutboxEvent_dedupe:
  assumes "keys_unique s" and "enqueueOutboxEvent p k m s = (fresh, s')"
  shows "keys_unique s' \<and> (k \<noteq> None \<longrightarrow> k \<in> oe_dedupeKey ` set (db_outbox s')) \<and>
    (fresh \<longleftrightarrow> length (db_outbox s') = Suc (length (db_outbox s))) \<and>
    (\<not> fresh \<longrightarrow> s' = s \<and> k \<noteq> None) \<and>
    enqueueOutboxEvent p k m s' = (k = None, if k = None then snd (enqueueOutboxEvent p k m s') else s')"
  using assms
  by (auto simp: enqueueOutboxEvent_def keys_unique_def split: if_splits)

theorem enqueueOutboxEvent_dedupe_witness:
  "keys_unique \<lparr>db_events = [], db_networking = [], db_accesses = [], db_registrations = [],
      db_sponsorships = [], db_usages = [],
      db_outbox = [\<lparr>oe_dedupeKey = Some ''k'', oe_payload = Networking_sync ''r'' ''e'', oe_maxAttempts = 5\<rparr>],
      db_audit = [], db_realtimeDisabled = False, db_clock = 0, db_ids = []\<rparr>"
proof -
  let ?s = "\<lparr>db_events = [], db_networking = [], db_accesses = [], db_registrations = [],
      db_sponsorships = [], db_usages = [], db_outbox = [], db_audit = [],
      db_realtimeDisabled = False, db_clock = 0, db_ids = []\<rparr>"
  have u: "keys_unique ?s" by (simp add: keys_unique_def)
  have e: "enqueueOutboxEvent (Networking_sync ''r'' ''e'') (Some ''k'') 5 ?s = (True,
      ?s\<lparr>db_outbox := [\<lparr>oe_dedupeKey = Some ''k'', oe_payload = Networking_sync ''r'' ''e'', oe_maxAttempts = 5\<rparr>]\<rparr>)"
    by (simp add: enqueueOutboxEvent_def)
  from enqueueOutboxEvent_dedupe[OF u e] show ?thesis by simp
qed

end
