(* ===== verification/PaidAccess.thy ===== *)
theory PaidAccess
  imports Db
begin

text \<open>
  \<open>packages/db/src/settlement/paid-access.ts\<close>: moving the paid-place counters of access items
  between two states of a registration. The interface \<open>counter\<close> states what the settlement
  relies on (a take or a release moves exactly one counter by exactly its amount);
  \<open>bounded_counter\<close> adds that a take stays within the capacity and a release at or above
  zero. The loop over the deltas is proved against the interface; the guarded updates of theory Db
  are its interpretation.
\<close>

section \<open>The counter interface\<close>

text \<open>One step of the delta loop on an arbitrary counter store, and the loop.\<close>

definition move_step ::
  "('s \<Rightarrow> 'k \<Rightarrow> int \<Rightarrow> 'e + 's) \<Rightarrow> ('s \<Rightarrow> 'k \<Rightarrow> int \<Rightarrow> 'e + 's) \<Rightarrow> ('k \<Rightarrow> int) \<Rightarrow> 'k \<Rightarrow> 's \<Rightarrow> 'e + 's" where
  "move_step take_places release_places d k s =
    (if 0 < d k then take_places s k (d k)
     else if d k < 0 then release_places s k (- d k) else Inr s)"

locale counter =
  fixes take_places :: "'s \<Rightarrow> 'k \<Rightarrow> int \<Rightarrow> 'e + 's"
    and release_places :: "'s \<Rightarrow> 'k \<Rightarrow> int \<Rightarrow> 'e + 's"
    and count :: "'s \<Rightarrow> 'k \<Rightarrow> int"
    and wf :: "'s \<Rightarrow> bool"
  assumes take_count:
      "wf s \<Longrightarrow> take_places s k n = Inr s' \<Longrightarrow> count s' = (count s)(k := count s k + n)"
    and release_count:
      "wf s \<Longrightarrow> release_places s k n = Inr s' \<Longrightarrow> count s' = (count s)(k := count s k - n)"
    and take_wf: "wf s \<Longrightarrow> take_places s k n = Inr s' \<Longrightarrow> wf s'"
    and release_wf: "wf s \<Longrightarrow> release_places s k n = Inr s' \<Longrightarrow> wf s'"
begin

lemma step_count:
  "wf s \<Longrightarrow> move_step take_places release_places d k s = Inr s' \<Longrightarrow>
    count s' = (count s)(k := count s k + d k) \<and> wf s'"
  by (auto simp: move_step_def dest: take_count release_count take_wf release_wf split: if_splits)

lemma loop_wf:
  "sfold (move_step take_places release_places d) ks s = Inr s' \<Longrightarrow> wf s \<Longrightarrow> wf s'"
  by (erule sfold_invariant[where P = wf]) (auto dest: step_count)

lemma loop_count:
  assumes "sfold (move_step take_places release_places d) ks s = Inr s'" and "distinct ks" and "wf s"
  shows "count s' k = count s k + (if k \<in> set ks then d k else 0)"
  using assms
proof (induction ks arbitrary: s)
  case Nil
  then show ?case by simp
next
  case (Cons j ks)
  from Cons.prems(1) obtain t where t: "move_step take_places release_places d j s = Inr t"
    and rest: "sfold (move_step take_places release_places d) ks t = Inr s'"
    by (auto elim: sbind_InrE)
  from step_count[OF Cons.prems(3) t] Cons.IH[OF rest] Cons.prems(2) show ?case by auto
qed

end

locale bounded_counter = counter +
  fixes ok :: "'s \<Rightarrow> bool"
  assumes ok_wf: "ok s \<Longrightarrow> wf s"
    and take_ok: "ok s \<Longrightarrow> 0 \<le> n \<Longrightarrow> take_places s k n = Inr s' \<Longrightarrow> ok s'"
    and release_ok: "ok s \<Longrightarrow> 0 \<le> n \<Longrightarrow> release_places s k n = Inr s' \<Longrightarrow> ok s'"
begin

lemma step_ok:
  assumes "ok s" and "move_step take_places release_places d k s = Inr s'"
  shows "ok s'"
proof -
  consider "0 < d k" | "d k < 0" | "d k = 0" by linarith
  then show ?thesis
    by cases (use assms take_ok[of s "d k" k s'] release_ok[of s "- d k" k s'] in
        \<open>simp_all add: move_step_def\<close>)
qed

lemma loop_ok:
  assumes "sfold (move_step take_places release_places d) ks s = Inr s'" and "ok s"
  shows "ok s'"
  by (rule sfold_invariant[where P = ok, OF assms]) (rule step_ok)

end

section \<open>Taking and releasing paid places\<close>

definition getAccessCapacityInfo :: "db \<Rightarrow> string \<Rightarrow> (string \<times> int option \<times> int) option" where
  "getAccessCapacityInfo s accessId =
    map_option (\<lambda>r. (ea_name r, ea_maxCapacity r, ea_paidCount r)) (access_of s accessId)"

definition getAccessPaidCount :: "db \<Rightarrow> string \<Rightarrow> int option" where
  "getAccessPaidCount s accessId = map_option ea_paidCount (access_of s accessId)"

definition takePaidAccess :: "db \<Rightarrow> string \<Rightarrow> int \<Rightarrow> error + db" where
  "takePaidAccess s accessId quantity =
    (case casIncrementAccessPaidCount accessId quantity s of
       (True, s') \<Rightarrow> Inr s'
     | (False, s') \<Rightarrow>
        (case getAccessCapacityInfo s' accessId of
           None \<Rightarrow> Inl (AccessNotFound accessId)
         | Some (name, maxCapacity, paidCount) \<Rightarrow>
             Inl (AccessCapacityExceeded accessId name
               (map_option (\<lambda>c. max 0 (c - paidCount)) maxCapacity) quantity)))"

definition releasePaidAccess :: "db \<Rightarrow> string \<Rightarrow> int \<Rightarrow> error + db" where
  "releasePaidAccess s accessId quantity =
    (case casDecrementAccessPaidCount accessId quantity s of
       (True, s') \<Rightarrow> Inr s'
     | (False, s') \<Rightarrow>
        (case getAccessPaidCount s' accessId of
           None \<Rightarrow> Inl (AccessNotFound accessId)
         | Some paidCount \<Rightarrow> Inl (AccessPaidCountUnderflow accessId paidCount quantity)))"

record paid_access_state =
  ps_status :: payment_status
  ps_priceBreakdown :: price_breakdown
  ps_coveredAccessIds :: "string list"

record paid_moves =
  pm_incremented :: "string list"
  pm_decremented :: "string list"

definition paid_delta_step ::
  "(string \<times> int) list \<Rightarrow> (string \<times> int) list \<Rightarrow> string \<Rightarrow> paid_moves \<times> db \<Rightarrow> error + paid_moves \<times> db" where
  "paid_delta_step oldPaid newPaid accessId ms =
    (let delta = count_of newPaid accessId - count_of oldPaid accessId in
     if 0 < delta then
       sbind (takePaidAccess (snd ms) accessId delta)
         (\<lambda>s'. Inr ((fst ms)\<lparr>pm_incremented := pm_incremented (fst ms) @ [accessId]\<rparr>, s'))
     else if delta < 0 then
       sbind (releasePaidAccess (snd ms) accessId (- delta))
         (\<lambda>s'. Inr ((fst ms)\<lparr>pm_decremented := pm_decremented (fst ms) @ [accessId]\<rparr>, s'))
     else Inr ms)"

definition applyPaidAccessDelta ::
  "paid_access_state \<Rightarrow> paid_access_state \<Rightarrow> db \<Rightarrow> error + paid_moves \<times> db" where
  "applyPaidAccessDelta before after s =
    (let oldPaid = paidAccessQuantities (ps_status before) (ps_priceBreakdown before)
           (ps_coveredAccessIds before);
         newPaid = paidAccessQuantities (ps_status after) (ps_priceBreakdown after)
           (ps_coveredAccessIds after)
     in sfold (paid_delta_step oldPaid newPaid) (uniq (map fst oldPaid @ map fst newPaid))
          (\<lparr>pm_incremented = [], pm_decremented = []\<rparr>, s))"

section \<open>The counters of the access table\<close>

definition paid_count :: "db \<Rightarrow> string \<Rightarrow> int" where
  "paid_count s k = (case access_of s k of None \<Rightarrow> 0 | Some r \<Rightarrow> ea_paidCount r)"

definition access_row_ok :: "access_row \<Rightarrow> bool" where
  "access_row_ok r \<longleftrightarrow> 0 \<le> ea_paidCount r \<and>
    (case ea_maxCapacity r of None \<Rightarrow> True | Some c \<Rightarrow> ea_paidCount r \<le> c)"

definition accesses_ok :: "db \<Rightarrow> bool" where
  "accesses_ok s \<longleftrightarrow> (\<forall>r \<in> set (db_accesses s). access_row_ok r) \<and> distinct (map ea_id (db_accesses s))"

lemma set_paid_same_key [simp]: "ea_id (r\<lparr>ea_paidCount := n\<rparr>) = ea_id r"
  by simp

lemma row_of_update_guarded:
  assumes "\<And>r. key (f r) = key r" and "distinct (map key t)"
  shows "row_of key k' (update_rows (\<lambda>r. key r = k \<and> p r) f t) =
    (if k' = k then map_option (\<lambda>r. if p r then f r else r) (row_of key k t) else row_of key k' t)"
  using assms by (induction t) auto

lemma list_ex_row:
  assumes "distinct (map key t)"
  shows "list_ex (\<lambda>r. key r = k \<and> p r) t \<longleftrightarrow> (\<exists>r. row_of key k t = Some r \<and> p r)"
  unfolding list_ex_iff using row_of_distinct[OF assms] by (auto dest: row_of_Some)

lemma takePaidAccess_Inr:
  "takePaidAccess s k n = Inr s' \<Longrightarrow> casIncrementAccessPaidCount k n s = (True, s')"
  by (auto simp: takePaidAccess_def split: prod.splits bool.splits option.splits)

lemma releasePaidAccess_Inr:
  "releasePaidAccess s k n = Inr s' \<Longrightarrow> casDecrementAccessPaidCount k n s = (True, s')"
  by (auto simp: releasePaidAccess_def split: prod.splits bool.splits option.splits)

lemma access_of_paid_update:
  assumes "distinct (map ea_id (db_accesses s))" and "list_ex (\<lambda>r. ea_id r = k \<and> p r) (db_accesses s)"
  shows "paid_count (s\<lparr>db_accesses := update_rows (\<lambda>r. ea_id r = k \<and> p r)
      (\<lambda>r. r\<lparr>ea_paidCount := ea_paidCount r + n\<rparr>) (db_accesses s)\<rparr>) =
    (paid_count s)(k := paid_count s k + n)"
proof -
  obtain r where r: "row_of ea_id k (db_accesses s) = Some r" "p r"
    using assms by (auto simp: list_ex_row)
  show ?thesis
    using r by (auto simp: fun_eq_iff paid_count_def access_of_def row_of_update_guarded[OF _ assms(1)]
        split: option.splits)
qed

lemma take_paid_count:
  assumes "distinct (map ea_id (db_accesses s))" and "takePaidAccess s k n = Inr s'"
  shows "paid_count s' = (paid_count s)(k := paid_count s k + n)"
  using takePaidAccess_Inr[OF assms(2)] access_of_paid_update[OF assms(1)]
  by (auto simp: casIncrementAccessPaidCount_def Let_def)

lemma release_paid_count:
  assumes "distinct (map ea_id (db_accesses s))" and "releasePaidAccess s k n = Inr s'"
  shows "paid_count s' = (paid_count s)(k := paid_count s k - n)"
  using releasePaidAccess_Inr[OF assms(2)] access_of_paid_update[OF assms(1), of k _ "- n"]
  by (auto simp: casDecrementAccessPaidCount_def Let_def)

lemma take_accesses:
  "takePaidAccess s k n = Inr s' \<Longrightarrow>
    \<exists>p f. (\<forall>r. ea_id (f r) = ea_id r) \<and>
      (\<forall>r. p r \<longrightarrow> 0 \<le> n \<longrightarrow> access_row_ok r \<longrightarrow> access_row_ok (f r)) \<and>
      s' = s\<lparr>db_accesses := update_rows p f (db_accesses s)\<rparr>"
  by (drule takePaidAccess_Inr, intro exI[of _ "\<lambda>r. ea_id r = k \<and> (case ea_maxCapacity r of
        None \<Rightarrow> True | Some c \<Rightarrow> ea_paidCount r + n \<le> c)"]
      exI[of _ "\<lambda>r. r\<lparr>ea_paidCount := ea_paidCount r + n\<rparr>"])
    (auto simp: casIncrementAccessPaidCount_def Let_def access_row_ok_def split: option.splits)

lemma release_accesses:
  "releasePaidAccess s k n = Inr s' \<Longrightarrow>
    \<exists>p f. (\<forall>r. ea_id (f r) = ea_id r) \<and>
      (\<forall>r. p r \<longrightarrow> 0 \<le> n \<longrightarrow> access_row_ok r \<longrightarrow> access_row_ok (f r)) \<and>
      s' = s\<lparr>db_accesses := update_rows p f (db_accesses s)\<rparr>"
  by (drule releasePaidAccess_Inr, intro exI[of _ "\<lambda>r. ea_id r = k \<and> n \<le> ea_paidCount r"]
      exI[of _ "\<lambda>r. r\<lparr>ea_paidCount := ea_paidCount r - n\<rparr>"])
    (auto simp: casDecrementAccessPaidCount_def Let_def access_row_ok_def split: option.splits)

definition accesses_wf :: "db \<Rightarrow> bool" where
  "accesses_wf s \<longleftrightarrow> distinct (map ea_id (db_accesses s))"

lemma update_accesses_wf:
  "(\<forall>r. ea_id (f r) = ea_id r) \<Longrightarrow>
    accesses_wf (s\<lparr>db_accesses := update_rows p f (db_accesses s)\<rparr>) = accesses_wf s"
  by (simp add: accesses_wf_def keys_update_rows)

lemma update_accesses_ok:
  "(\<forall>r. ea_id (f r) = ea_id r) \<Longrightarrow> (\<forall>r. p r \<longrightarrow> access_row_ok r \<longrightarrow> access_row_ok (f r)) \<Longrightarrow>
    accesses_ok s \<Longrightarrow> accesses_ok (s\<lparr>db_accesses := update_rows p f (db_accesses s)\<rparr>)"
  by (auto simp: accesses_ok_def keys_update_rows set_update_rows)

interpretation paid: bounded_counter takePaidAccess releasePaidAccess paid_count accesses_wf accesses_ok
proof unfold_locales
  fix s s' :: db and k n
  show "accesses_wf s \<Longrightarrow> takePaidAccess s k n = Inr s' \<Longrightarrow>
      paid_count s' = (paid_count s)(k := paid_count s k + n)"
    by (rule take_paid_count) (simp_all add: accesses_wf_def)
  show "accesses_wf s \<Longrightarrow> releasePaidAccess s k n = Inr s' \<Longrightarrow>
      paid_count s' = (paid_count s)(k := paid_count s k - n)"
    by (rule release_paid_count) (simp_all add: accesses_wf_def)
  show "accesses_wf s \<Longrightarrow> takePaidAccess s k n = Inr s' \<Longrightarrow> accesses_wf s'"
    by (auto dest!: take_accesses simp: update_accesses_wf)
  show "accesses_wf s \<Longrightarrow> releasePaidAccess s k n = Inr s' \<Longrightarrow> accesses_wf s'"
    by (auto dest!: release_accesses simp: update_accesses_wf)
  show "accesses_ok s \<Longrightarrow> accesses_wf s"
    by (simp add: accesses_ok_def accesses_wf_def)
  show "accesses_ok s \<Longrightarrow> 0 \<le> n \<Longrightarrow> takePaidAccess s k n = Inr s' \<Longrightarrow> accesses_ok s'"
    by (auto dest!: take_accesses intro!: update_accesses_ok)
  show "accesses_ok s \<Longrightarrow> 0 \<le> n \<Longrightarrow> releasePaidAccess s k n = Inr s' \<Longrightarrow> accesses_ok s'"
    by (auto dest!: release_accesses intro!: update_accesses_ok)
qed

section \<open>The delta loop\<close>

definition paid_delta :: "(string \<times> int) list \<Rightarrow> (string \<times> int) list \<Rightarrow> string \<Rightarrow> int" where
  "paid_delta oldPaid newPaid k = count_of newPaid k - count_of oldPaid k"

lemma paid_delta_step_moves:
  "paid_delta_step old new k (m, s) = Inr (m', s') \<Longrightarrow>
    move_step takePaidAccess releasePaidAccess (paid_delta old new) k s = Inr s' \<and>
    pm_incremented m' = pm_incremented m @ (if 0 < paid_delta old new k then [k] else []) \<and>
    pm_decremented m' = pm_decremented m @ (if paid_delta old new k < 0 then [k] else [])"
  by (auto simp: paid_delta_step_def paid_delta_def move_step_def Let_def sbind_Inr_iff split: if_splits)

lemma paid_delta_loop:
  assumes "sfold (paid_delta_step old new) ks (m, s) = Inr (m', s')"
  shows "sfold (move_step takePaidAccess releasePaidAccess (paid_delta old new)) ks s = Inr s' \<and>
    pm_incremented m' = pm_incremented m @ filter (\<lambda>k. 0 < paid_delta old new k) ks \<and>
    pm_decremented m' = pm_decremented m @ filter (\<lambda>k. paid_delta old new k < 0) ks"
  using assms
proof (induction ks arbitrary: m s)
  case Nil
  then show ?case by simp
next
  case (Cons k ks)
  from Cons.prems obtain m1 s1 where st: "paid_delta_step old new k (m, s) = Inr (m1, s1)"
    and rest: "sfold (paid_delta_step old new) ks (m1, s1) = Inr (m', s')"
    by (auto elim: sbind_InrE)
  from paid_delta_step_moves[OF st] Cons.IH[OF rest] show ?case by auto
qed

definition held :: "paid_access_state \<Rightarrow> string \<Rightarrow> int" where
  "held p k = (if holds_place (ps_status p) (ps_coveredAccessIds p) k
    then quantity_of (ps_priceBreakdown p) k else 0)"

lemma paid_delta_held:
  "paid_delta (paidAccessQuantities (ps_status b) (ps_priceBreakdown b) (ps_coveredAccessIds b))
    (paidAccessQuantities (ps_status a) (ps_priceBreakdown a) (ps_coveredAccessIds a)) k
   = held a k - held b k"
  by (simp add: paid_delta_def paid_quantities_count held_def)

lemma paid_delta_keys:
  "k \<notin> set (map fst old @ map fst new) \<Longrightarrow> paid_delta old new k = 0"
  by (simp add: paid_delta_def count_of_not_key)

lemma paid_access_delta:
  assumes "accesses_ok s" and "applyPaidAccessDelta before after s = Inr (m, s')"
  shows "accesses_ok s' \<and>
    (\<forall>k. paid_count s' k = paid_count s k + (held after k - held before k)) \<and>
    set (pm_incremented m) = {k. held before k < held after k} \<and>
    set (pm_decremented m) = {k. held after k < held before k}"
proof -
  let ?old = "paidAccessQuantities (ps_status before) (ps_priceBreakdown before) (ps_coveredAccessIds before)"
  let ?new = "paidAccessQuantities (ps_status after) (ps_priceBreakdown after) (ps_coveredAccessIds after)"
  let ?ks = "uniq (map fst ?old @ map fst ?new)"
  from assms(2) have run: "sfold (paid_delta_step ?old ?new) ?ks
      (\<lparr>pm_incremented = [], pm_decremented = []\<rparr>, s) = Inr (m, s')"
    by (simp add: applyPaidAccessDelta_def Let_def)
  note loop = paid_delta_loop[OF run]
  have d: "paid_delta ?old ?new k = held after k - held before k" for k
    by (rule paid_delta_held)
  have zero: "paid_delta ?old ?new k = 0" if "k \<notin> set ?ks" for k
    using that by (intro paid_delta_keys) simp
  have "paid_count s' k = paid_count s k + (held after k - held before k)" for k
    using paid.loop_count[of "paid_delta ?old ?new" ?ks s s' k] loop paid.ok_wf[OF assms(1)] zero[of k]
    by (simp add: d split: if_splits)
  moreover have "accesses_ok s'" using paid.loop_ok loop assms(1) by blast
  moreover have "k \<in> set ?ks" if "held after k - held before k \<noteq> 0" for k
    using zero[of k] that unfolding d by blast
  then have "set (pm_incremented m) = {k. held before k < held after k}"
    "set (pm_decremented m) = {k. held after k < held before k}"
    using loop by (fastforce simp: d)+
  ultimately show ?thesis by blast
qed

text \<open>
  Moving a registration's paid places moves every counter by exactly what the registration
  holds after minus what it held before, keeps every counter between zero and its capacity, and
  reports exactly the items whose count went up or down.
\<close>

theorem applyPaidAccessDelta_exact:
  assumes "accesses_ok s" and "applyPaidAccessDelta before after s = Inr (m, s')"
  shows "accesses_ok s' \<and>
    (\<forall>k. paid_count s' k = paid_count s k + (held after k - held before k)) \<and>
    set (pm_incremented m) = {k. held before k < held after k} \<and>
    set (pm_decremented m) = {k. held after k < held before k}"
  using assms by (rule paid_access_delta)

definition ex_breakdown :: price_breakdown where
  "ex_breakdown = \<lparr>pb_basePrice = 100000, pb_appliedRules = [], pb_calculatedBasePrice = 100000,
    pb_accessItems = [\<lparr>li_accessId = ''ws'', li_name = ''Workshop'', li_unitPrice = 50000,
      li_quantity = 2, li_subtotal = 50000, li_confirmed = True\<rparr>],
    pb_accessTotal = 50000, pb_subtotal = 150000, pb_sponsorships = [], pb_sponsorshipTotal = 0,
    pb_total = 150000, pb_currency = ''TND'', pb_droppedAccessItems = None,
    pb_optionModifiers = None, pb_optionModifiersTotal = None, pb_money = None\<rparr>"

definition ex_access :: "int \<Rightarrow> access_row" where
  "ex_access n = \<lparr>ea_id = ''ws'', ea_eventId = ''ev'', ea_name = ''Workshop'', ea_active = True,
    ea_maxCapacity = Some 3, ea_paidCount = n, ea_registeredCount = 2\<rparr>"

definition ex_db :: "registration_row list \<Rightarrow> int \<Rightarrow> db" where
  "ex_db regs n = \<lparr>db_events = [\<lparr>ev_id = ''ev'', ev_clientId = ''cl''\<rparr>], db_networking = [],
    db_accesses = [ex_access n], db_registrations = regs, db_sponsorships = [], db_usages = [],
    db_outbox = [], db_audit = [], db_realtimeDisabled = False, db_clock = 1000,
    db_ids = [''u1'', ''u2'']\<rparr>"

theorem applyPaidAccessDelta_exact_witness:
  "applyPaidAccessDelta
      \<lparr>ps_status = PENDING, ps_priceBreakdown = ex_breakdown, ps_coveredAccessIds = []\<rparr>
      \<lparr>ps_status = PAID, ps_priceBreakdown = ex_breakdown, ps_coveredAccessIds = []\<rparr> (ex_db [] 1) =
    Inr (\<lparr>pm_incremented = [''ws''], pm_decremented = []\<rparr>, ex_db [] 3) \<and>
   accesses_ok (ex_db [] 3) \<and> paid_count (ex_db [] 3) ''ws'' = 3"
proof -
  let ?b = "\<lparr>ps_status = PENDING, ps_priceBreakdown = ex_breakdown, ps_coveredAccessIds = []\<rparr>"
  let ?a = "\<lparr>ps_status = PAID, ps_priceBreakdown = ex_breakdown, ps_coveredAccessIds = []\<rparr>"
  have ok: "accesses_ok (ex_db [] 1)"
    by (simp add: accesses_ok_def ex_db_def ex_access_def access_row_ok_def)
  have run: "applyPaidAccessDelta ?b ?a (ex_db [] 1) =
      Inr (\<lparr>pm_incremented = [''ws''], pm_decremented = []\<rparr>, ex_db [] 3)"
    by code_simp
  have "held ?a ''ws'' = 2" "held ?b ''ws'' = 0" "paid_count (ex_db [] 1) ''ws'' = 1"
    by code_simp+
  with applyPaidAccessDelta_exact[OF ok run] run show ?thesis by simp
qed

lemma applyPaidAccessDelta_frame:
  assumes "applyPaidAccessDelta before after s = Inr (m, s')"
  shows "\<exists>t. s' = s\<lparr>db_accesses := t\<rparr> \<and> map ea_id t = map ea_id (db_accesses s)"
proof -
  let ?P = "\<lambda>(ms :: paid_moves \<times> db). \<exists>t. snd ms = s\<lparr>db_accesses := t\<rparr> \<and>
    map ea_id t = map ea_id (db_accesses s)"
  have "?P (m, s')"
    using assms unfolding applyPaidAccessDelta_def Let_def
  proof (rule sfold_invariant[where P = ?P])
    show "?P (\<lparr>pm_incremented = [], pm_decremented = []\<rparr>, s)" by (intro exI[of _ "db_accesses s"]) simp
  next
    fix k t t'
    assume P: "?P t"
      and st: "paid_delta_step (paidAccessQuantities (ps_status before) (ps_priceBreakdown before)
          (ps_coveredAccessIds before)) (paidAccessQuantities (ps_status after)
          (ps_priceBreakdown after) (ps_coveredAccessIds after)) k t = Inr t'"
    then show "?P t'"
      by (auto simp: paid_delta_step_def Let_def sbind_Inr_iff keys_update_rows split: if_splits
          dest!: take_accesses release_accesses)
  qed
  then show ?thesis by simp
qed

end
