(* ===== verification/SettlementWriter.thy ===== *)
theory SettlementWriter
  imports PaidAccess
begin

text \<open>
  \<open>packages/db/src/settlement/writer.ts\<close>: the only writer of a registration's money columns. One
  UPDATE sets the settlement and any other fields, then the stored row is checked; a violation is
  thrown, and the transaction that called the writer rolls back (the model's \<open>Inl\<close> has no state).
\<close>

section \<open>What a write sets\<close>

datatype settlement_column =
  Col_paymentStatus | Col_paidAt | Col_paidAmount | Col_totalAmount | Col_sponsorshipAmount
| Col_priceBreakdown | Col_baseAmount | Col_accessAmount | Col_discountAmount

definition SETTLEMENT_COLUMNS :: "settlement_column list" where
  "SETTLEMENT_COLUMNS = [Col_paymentStatus, Col_paidAt, Col_paidAmount, Col_totalAmount,
    Col_sponsorshipAmount, Col_priceBreakdown, Col_baseAmount, Col_accessAmount, Col_discountAmount]"

definition AMOUNT_COLUMNS :: "settlement_column list" where
  "AMOUNT_COLUMNS = [Col_paidAmount, Col_totalAmount, Col_sponsorshipAmount, Col_baseAmount,
    Col_accessAmount, Col_discountAmount]"

text \<open>\<open>RegistrationSettlementWrite\<close>: \<open>None\<close> is an omitted column, \<open>sw_paidAt = Some None\<close> writes null.\<close>

record settlement_write =
  sw_paymentStatus :: "payment_status option"
  sw_paidAt :: "date option option"
  sw_paidAmount :: "money option"
  sw_totalAmount :: "money option"
  sw_sponsorshipAmount :: "money option"
  sw_priceBreakdown :: "price_breakdown option"

definition no_settlement :: settlement_write where
  "no_settlement = \<lparr>sw_paymentStatus = None, sw_paidAt = None, sw_paidAmount = None,
    sw_totalAmount = None, sw_sponsorshipAmount = None, sw_priceBreakdown = None\<rparr>"

text \<open>
  \<open>RegistrationFieldsPatch\<close>, with the columns the settlement code sets. \<open>fp_smuggled\<close> holds the
  money columns the object has at run time in spite of its type.
\<close>

record fields_patch =
  fp_email :: "string option"
  fp_firstName :: "string option option"
  fp_lastName :: "string option option"
  fp_phone :: "string option option"
  fp_formData :: "form_data option"
  fp_role :: "registration_role option"
  fp_note :: "string option option"
  fp_paymentReference :: "string option option"
  fp_paymentProofUrl :: "string option option"
  fp_labName :: "string option option"
  fp_lastEditedAt :: "date option option"
  fp_paymentMethod :: "payment_method option option"
  fp_sponsorshipCode :: "string option option"
  fp_accessTypeIds :: "string list option option"
  fp_droppedAccessIds :: "string list option option"
  fp_smuggled :: "settlement_column list"

definition no_fields :: fields_patch where
  "no_fields = \<lparr>fp_email = None, fp_firstName = None, fp_lastName = None, fp_phone = None, fp_formData = None,
    fp_role = None, fp_note = None, fp_paymentReference = None, fp_paymentProofUrl = None, fp_labName = None,
    fp_lastEditedAt = None, fp_paymentMethod = None, fp_sponsorshipCode = None, fp_accessTypeIds = None,
    fp_droppedAccessIds = None, fp_smuggled = []\<rparr>"

definition isAmount :: "money \<Rightarrow> bool" where
  "isAmount v \<longleftrightarrow> 0 \<le> v \<and> v \<le> 900000000000 * 10000"

section \<open>Invariants of the stored money state\<close>

definition column_name :: "settlement_column \<Rightarrow> string" where
  "column_name c = (case c of
      Col_paymentStatus \<Rightarrow> ''paymentStatus'' | Col_paidAt \<Rightarrow> ''paidAt''
    | Col_paidAmount \<Rightarrow> ''paidAmount'' | Col_totalAmount \<Rightarrow> ''totalAmount''
    | Col_sponsorshipAmount \<Rightarrow> ''sponsorshipAmount'' | Col_priceBreakdown \<Rightarrow> ''priceBreakdown''
    | Col_baseAmount \<Rightarrow> ''baseAmount'' | Col_accessAmount \<Rightarrow> ''accessAmount''
    | Col_discountAmount \<Rightarrow> ''discountAmount'')"

text \<open>The breakdown half; the stored breakdown is never null in the model.\<close>

definition breakdownViolations :: "money \<Rightarrow> money \<Rightarrow> price_breakdown \<Rightarrow> error + violation list" where
  "breakdownViolations rowTotal rowSponsorship pb =
    (let bad = map fst (filter (\<lambda>(_, v). \<not> isAmount v)
           [(''calculatedBasePrice'', pb_calculatedBasePrice pb), (''accessTotal'', pb_accessTotal pb),
            (''subtotal'', pb_subtotal pb), (''sponsorshipTotal'', pb_sponsorshipTotal pb),
            (''total'', pb_total pb)])
     in if bad \<noteq> [] then Inr [Breakdown_not_amounts bad]
        else
          sbind (sumMoney (map li_subtotal (pb_accessItems pb))) (\<lambda>accessSum.
          sbind (sumMoney [pb_calculatedBasePrice pb, pb_accessTotal pb, optionModifiersTotal_of pb])
            (\<lambda>sum3.
          sbind (subtractMoney (pb_subtotal pb) (pb_sponsorshipTotal pb)) (\<lambda>net.
          Inr ((if pb_accessTotal pb \<noteq> accessSum then [Access_total_not_sum] else [])
             @ (if pb_subtotal pb \<noteq> max 0 sum3 then [Subtotal_not_sum] else [])
             @ (if pb_subtotal pb < pb_sponsorshipTotal pb then [Sponsorship_exceeds_subtotal] else [])
             @ (if pb_total pb \<noteq> net then [Total_not_difference] else [])
             @ (if pb_sponsorshipTotal pb \<noteq> rowSponsorship then [Sponsorship_differs] else [])
             @ (if rowTotal < pb_subtotal pb then [Subtotal_exceeds_total] else []))))))"

definition settlementInvariantViolations ::
  "registration_row \<Rightarrow> settlement_column list \<Rightarrow> error + violation list" where
  "settlementInvariantViolations row written =
    sbind
      (if Col_priceBreakdown \<in> set written
       then breakdownViolations (rg_totalAmount row) (rg_sponsorshipAmount row) (rg_priceBreakdown row)
       else Inr []) (\<lambda>breakdown.
    sbind
      (if Col_paidAmount \<in> set written
       then sbind (subtractMoney (rg_totalAmount row) (rg_sponsorshipAmount row)) (\<lambda>d.
         Inr (if max 0 d < rg_paidAmount row then [Paid_exceeds_net] else []))
       else Inr []) (\<lambda>paid.
    Inr ((if (Col_totalAmount \<in> set written \<or> Col_sponsorshipAmount \<in> set written)
             \<and> rg_totalAmount row < rg_sponsorshipAmount row
          then [Sponsorship_exceeds_total] else []) @ breakdown @ paid)))"

section \<open>The write\<close>

text \<open>The columns the UPDATE sets, the three amounts derived from a breakdown included.\<close>

record column_set =
  cs_settlement :: settlement_write
  cs_derived :: "(money \<times> money \<times> money) option"  \<comment> \<open>base, access, discount\<close>
  cs_fields :: fields_patch

definition build_set :: "settlement_write \<Rightarrow> fields_patch \<Rightarrow> error + column_set" where
  "build_set w patch =
    sbind
      (case sw_priceBreakdown w of
         None \<Rightarrow> Inr None
       | Some pb \<Rightarrow> sbind (calculateDiscountAmount (pb_appliedRules pb)) (\<lambda>discount.
           Inr (Some (pb_calculatedBasePrice pb, pb_accessTotal pb, discount))))
      (\<lambda>derived. Inr \<lparr>cs_settlement = w, cs_derived = derived, cs_fields = patch\<rparr>)"

definition no_field_keys :: "fields_patch \<Rightarrow> bool" where
  "no_field_keys f \<longleftrightarrow> fp_email f = None \<and> fp_firstName f = None \<and> fp_lastName f = None \<and>
    fp_phone f = None \<and> fp_formData f = None \<and> fp_role f = None \<and> fp_note f = None \<and>
    fp_paymentReference f = None \<and> fp_paymentProofUrl f = None \<and> fp_labName f = None \<and>
    fp_lastEditedAt f = None \<and> fp_paymentMethod f = None \<and> fp_sponsorshipCode f = None \<and>
    fp_accessTypeIds f = None \<and> fp_droppedAccessIds f = None \<and> fp_smuggled f = []"

definition empty_write :: "settlement_write \<Rightarrow> bool" where
  "empty_write w \<longleftrightarrow> sw_paymentStatus w = None \<and> sw_paidAt w = None \<and> sw_paidAmount w = None \<and>
    sw_totalAmount w = None \<and> sw_sponsorshipAmount w = None \<and> sw_priceBreakdown w = None"

fun column_written :: "column_set \<Rightarrow> settlement_column \<Rightarrow> bool" where
  "column_written c Col_paymentStatus = (sw_paymentStatus (cs_settlement c) \<noteq> None)"
| "column_written c Col_paidAt = (sw_paidAt (cs_settlement c) \<noteq> None)"
| "column_written c Col_paidAmount = (sw_paidAmount (cs_settlement c) \<noteq> None)"
| "column_written c Col_totalAmount = (sw_totalAmount (cs_settlement c) \<noteq> None)"
| "column_written c Col_sponsorshipAmount = (sw_sponsorshipAmount (cs_settlement c) \<noteq> None)"
| "column_written c Col_priceBreakdown = (sw_priceBreakdown (cs_settlement c) \<noteq> None)"
| "column_written c Col_baseAmount = (cs_derived c \<noteq> None)"
| "column_written c Col_accessAmount = (cs_derived c \<noteq> None)"
| "column_written c Col_discountAmount = (cs_derived c \<noteq> None)"

fun amount_set :: "column_set \<Rightarrow> settlement_column \<Rightarrow> money option" where
  "amount_set c Col_paidAmount = sw_paidAmount (cs_settlement c)"
| "amount_set c Col_totalAmount = sw_totalAmount (cs_settlement c)"
| "amount_set c Col_sponsorshipAmount = sw_sponsorshipAmount (cs_settlement c)"
| "amount_set c Col_baseAmount = map_option fst (cs_derived c)"
| "amount_set c Col_accessAmount = map_option (fst \<circ> snd) (cs_derived c)"
| "amount_set c Col_discountAmount = map_option (snd \<circ> snd) (cs_derived c)"
| "amount_set c _ = None"

definition or_stored :: "'a option \<Rightarrow> 'a \<Rightarrow> 'a" where
  "or_stored v old = (case v of None \<Rightarrow> old | Some x \<Rightarrow> x)"

text \<open>\<open>updated_at\<close> has an \<open>$onUpdate\<close> of the current time.\<close>

definition set_columns :: "column_set \<Rightarrow> date \<Rightarrow> registration_row \<Rightarrow> registration_row" where
  "set_columns c now r =
    (let w = cs_settlement c; f = cs_fields c in
     r\<lparr>rg_paymentStatus := or_stored (sw_paymentStatus w) (rg_paymentStatus r),
       rg_paidAt := or_stored (sw_paidAt w) (rg_paidAt r),
       rg_paidAmount := or_stored (sw_paidAmount w) (rg_paidAmount r),
       rg_totalAmount := or_stored (sw_totalAmount w) (rg_totalAmount r),
       rg_sponsorshipAmount := or_stored (sw_sponsorshipAmount w) (rg_sponsorshipAmount r),
       rg_priceBreakdown := or_stored (sw_priceBreakdown w) (rg_priceBreakdown r),
       rg_baseAmount := or_stored (map_option fst (cs_derived c)) (rg_baseAmount r),
       rg_accessAmount := or_stored (map_option (fst \<circ> snd) (cs_derived c)) (rg_accessAmount r),
       rg_discountAmount := or_stored (map_option (snd \<circ> snd) (cs_derived c)) (rg_discountAmount r),
       rg_paymentMethod := or_stored (fp_paymentMethod f) (rg_paymentMethod r),
       rg_sponsorshipCode := or_stored (fp_sponsorshipCode f) (rg_sponsorshipCode r),
       rg_accessTypeIds := or_stored (fp_accessTypeIds f) (rg_accessTypeIds r),
       rg_droppedAccessIds := or_stored (fp_droppedAccessIds f) (rg_droppedAccessIds r),
       rg_email := or_stored (fp_email f) (rg_email r),
       rg_firstName := or_stored (fp_firstName f) (rg_firstName r),
       rg_lastName := or_stored (fp_lastName f) (rg_lastName r),
       rg_phone := or_stored (fp_phone f) (rg_phone r),
       rg_formData := or_stored (fp_formData f) (rg_formData r),
       rg_role := or_stored (fp_role f) (rg_role r),
       rg_note := or_stored (fp_note f) (rg_note r),
       rg_paymentReference := or_stored (fp_paymentReference f) (rg_paymentReference r),
       rg_paymentProofUrl := or_stored (fp_paymentProofUrl f) (rg_paymentProofUrl r),
       rg_labName := or_stored (fp_labName f) (rg_labName r),
       rg_lastEditedAt := or_stored (fp_lastEditedAt f) (rg_lastEditedAt r),
       rg_updatedAt := now\<rparr>)"

text \<open>The WHERE clause: the row, at the \<open>updated_at\<close> the caller read when it gave one.\<close>

definition row_hit :: "string \<Rightarrow> date option \<Rightarrow> registration_row \<Rightarrow> bool" where
  "row_hit i expected r \<longleftrightarrow> rg_id r = i \<and>
    (case expected of None \<Rightarrow> True | Some t \<Rightarrow> rg_updatedAt r = t)"

definition bad_amount :: "column_set \<Rightarrow> settlement_column \<Rightarrow> bool" where
  "bad_amount c col \<longleftrightarrow> (case amount_set c col of None \<Rightarrow> False | Some v \<Rightarrow> \<not> isAmount v)"

definition applyRegistrationSettlement ::
  "string \<Rightarrow> settlement_write \<Rightarrow> fields_patch \<Rightarrow> date option \<Rightarrow> db \<Rightarrow> error + bool \<times> db" where
  "applyRegistrationSettlement registrationId settlement patch expectedUpdatedAt s =
    (if filter (\<lambda>c. c \<in> set (fp_smuggled patch)) SETTLEMENT_COLUMNS \<noteq> []
     then Inl (Plain_error ''Money columns are written only through the settlement'')
     else
       sbind (build_set settlement patch) (\<lambda>c.
       if empty_write settlement \<and> no_field_keys patch
       then Inl (Plain_error ''Nothing to write'')
       else
        (let written = filter (column_written c) SETTLEMENT_COLUMNS;
             badAmounts = filter (\<lambda>col. col \<in> set written \<and> bad_amount c col) AMOUNT_COLUMNS
         in if badAmounts \<noteq> []
            then Inl (SettlementInvariant registrationId (map (Not_amount \<circ> column_name) badAmounts))
            else
             (case find (row_hit registrationId expectedUpdatedAt) (db_registrations s) of
                None \<Rightarrow> Inr (False, s)
              | Some r \<Rightarrow>
                 sbind (settlementInvariantViolations (set_columns c (db_clock s) r) written) (\<lambda>violations.
                 if violations \<noteq> [] then Inl (SettlementInvariant registrationId violations)
                 else Inr (True, s\<lparr>db_registrations :=
                   update_rows (row_hit registrationId expectedUpdatedAt) (set_columns c (db_clock s))
                     (db_registrations s)\<rparr>))))))"

section \<open>What an accepted write leaves\<close>

definition breakdown_consistent :: "price_breakdown \<Rightarrow> bool" where
  "breakdown_consistent pb \<longleftrightarrow>
    isAmount (pb_calculatedBasePrice pb) \<and> isAmount (pb_accessTotal pb) \<and>
    isAmount (pb_subtotal pb) \<and> isAmount (pb_sponsorshipTotal pb) \<and> isAmount (pb_total pb) \<and>
    pb_accessTotal pb = sum_list (map li_subtotal (pb_accessItems pb)) \<and>
    pb_subtotal pb = max 0 (pb_calculatedBasePrice pb + pb_accessTotal pb + optionModifiersTotal_of pb) \<and>
    pb_sponsorshipTotal pb \<le> pb_subtotal pb \<and>
    pb_total pb = pb_subtotal pb - pb_sponsorshipTotal pb"

lemma breakdownViolations_Nil:
  "breakdownViolations t sp pb = Inr [] \<Longrightarrow>
    breakdown_consistent pb \<and> pb_sponsorshipTotal pb = sp \<and> pb_subtotal pb \<le> t"
  by (auto simp: breakdownViolations_def breakdown_consistent_def Let_def sbind_Inr_iff
      sumMoney_Inr_iff subtractMoney_Inr_iff add.assoc split: if_splits)

lemma settlementInvariantViolations_Nil:
  assumes "settlementInvariantViolations row written = Inr []"
  shows "(Col_priceBreakdown \<in> set written \<longrightarrow> breakdown_consistent (rg_priceBreakdown row) \<and>
      pb_sponsorshipTotal (rg_priceBreakdown row) = rg_sponsorshipAmount row \<and>
      pb_subtotal (rg_priceBreakdown row) \<le> rg_totalAmount row) \<and>
    (Col_totalAmount \<in> set written \<or> Col_sponsorshipAmount \<in> set written \<longrightarrow>
      rg_sponsorshipAmount row \<le> rg_totalAmount row) \<and>
    (Col_paidAmount \<in> set written \<longrightarrow>
      rg_paidAmount row \<le> max 0 (rg_totalAmount row - rg_sponsorshipAmount row))"
proof -
  from assms obtain b p where
    b: "(if Col_priceBreakdown \<in> set written
       then breakdownViolations (rg_totalAmount row) (rg_sponsorshipAmount row) (rg_priceBreakdown row)
       else Inr []) = Inr b" and
    p: "(if Col_paidAmount \<in> set written
       then sbind (subtractMoney (rg_totalAmount row) (rg_sponsorshipAmount row)) (\<lambda>d.
         Inr (if max 0 d < rg_paidAmount row then [Paid_exceeds_net] else []))
       else Inr []) = Inr p" and
    n: "b = []" "p = []" and
    t: "\<not> ((Col_totalAmount \<in> set written \<or> Col_sponsorshipAmount \<in> set written) \<and>
      rg_totalAmount row < rg_sponsorshipAmount row)"
    unfolding settlementInvariantViolations_def
    by (auto elim!: sbind_InrE split: if_split_asm)
  have "Col_paidAmount \<in> set written \<Longrightarrow>
      rg_paidAmount row \<le> max 0 (rg_totalAmount row - rg_sponsorshipAmount row)"
    using p n by (auto simp: sbind_Inr_iff subtractMoney_Inr_iff split: if_splits)
  with b n t breakdownViolations_Nil show ?thesis by (auto split: if_splits)
qed

lemma rg_id_set_columns [simp]: "rg_id (set_columns c now r) = rg_id r"
  by (simp add: set_columns_def Let_def)

lemma SETTLEMENT_COLUMNS_complete [simp]: "c \<in> set SETTLEMENT_COLUMNS"
  by (cases c) (simp_all add: SETTLEMENT_COLUMNS_def)

lemma applyRegistrationSettlement_True:
  assumes "applyRegistrationSettlement i w f t s = Inr (True, s')"
  obtains c r where "build_set w f = Inr c"
    and "find (row_hit i t) (db_registrations s) = Some r"
    and "settlementInvariantViolations (set_columns c (db_clock s) r)
        (filter (column_written c) SETTLEMENT_COLUMNS) = Inr []"
    and "\<And>col. column_written c col \<Longrightarrow> col \<in> set AMOUNT_COLUMNS \<Longrightarrow> \<not> bad_amount c col"
    and "s' = s\<lparr>db_registrations := update_rows (row_hit i t) (set_columns c (db_clock s)) (db_registrations s)\<rparr>"
proof -
  from assms obtain c where c: "build_set w f = Inr c"
    unfolding applyRegistrationSettlement_def by (auto elim!: sbind_InrE split: if_split_asm)
  note run = assms[unfolded applyRegistrationSettlement_def c sbind_simps Let_def]
  from run obtain r where r: "find (row_hit i t) (db_registrations s) = Some r"
    by (auto split: if_split_asm option.split_asm)
  from run[unfolded r option.case] show ?thesis
    using that[OF c r]
    by (auto simp: filter_empty_conv split: if_split_asm elim!: sbind_InrE)
qed

lemma applyRegistrationSettlement_False:
  "applyRegistrationSettlement i w f t s = Inr (False, s') \<Longrightarrow> s' = s"
  unfolding applyRegistrationSettlement_def
  by (auto simp: Let_def sbind_Inr_iff split: if_splits option.splits)

lemma row_hit_None: "row_hit i None = (\<lambda>r. rg_id r = i)"
  by (simp add: row_hit_def fun_eq_iff)

lemma applyRegistrationSettlement_missing:
  "applyRegistrationSettlement i w f None s = Inr (False, s') \<Longrightarrow> registration_of s i = None"
  unfolding applyRegistrationSettlement_def registration_of_def row_of_def row_hit_None
  by (auto simp: Let_def sbind_Inr_iff split: if_splits option.splits)

lemma row_hit_id: "row_hit i t r \<Longrightarrow> rg_id r = i \<and> (t \<noteq> None \<longrightarrow> t = Some (rg_updatedAt r))"
  by (auto simp: row_hit_def split: option.splits)

lemma row_of_update_hit:
  "(\<And>r. rg_id (f r) = rg_id r) \<Longrightarrow> row_of rg_id j (update_rows (row_hit i t) f rows) =
    (if j = i then map_option (\<lambda>r. if row_hit i t r then f r else r) (row_of rg_id i rows)
     else row_of rg_id j rows)"
  by (induction rows) (auto simp: row_hit_def)

lemma registration_of_update_hit:
  assumes "distinct (map rg_id (db_registrations s))" and "find (row_hit i t) (db_registrations s) = Some r"
    and "\<And>r. rg_id (f r) = rg_id r"
  shows "registration_of (s\<lparr>db_registrations := update_rows (row_hit i t) f (db_registrations s)\<rparr>) j =
    (if j = i then Some (f r) else registration_of s j) \<and> registration_of s i = Some r"
proof -
  from find_SomeD[OF assms(2)] have r: "r \<in> set (db_registrations s)" "row_hit i t r" by auto
  have 1: "registration_of s i = Some r"
    using row_of_distinct[OF assms(1) r(1)] row_hit_id[OF r(2)] by (simp add: registration_of_def)
  have "row_of rg_id j (update_rows (row_hit i t) f (db_registrations s)) =
      (if j = i then map_option (\<lambda>r. if row_hit i t r then f r else r)
          (row_of rg_id i (db_registrations s)) else row_of rg_id j (db_registrations s))"
    by (rule row_of_update_hit) (rule assms(3))
  with 1 r(2) show ?thesis by (simp add: registration_of_def)
qed

lemma applyRegistrationSettlement_row:
  assumes "distinct (map rg_id (db_registrations s))"
    and "applyRegistrationSettlement i w f t s = Inr (True, s')"
  obtains c r where "build_set w f = Inr c" "registration_of s i = Some r"
    "t \<noteq> None \<longrightarrow> t = Some (rg_updatedAt r)"
    "registration_of s' i = Some (set_columns c (db_clock s) r)"
    "\<And>j. j \<noteq> i \<Longrightarrow> registration_of s' j = registration_of s j"
    "db_registrations s' = update_rows (row_hit i t) (set_columns c (db_clock s)) (db_registrations s)"
    "s' = s\<lparr>db_registrations := db_registrations s'\<rparr>"
    "settlementInvariantViolations (set_columns c (db_clock s) r)
        (filter (column_written c) SETTLEMENT_COLUMNS) = Inr []"
    "\<And>col. column_written c col \<Longrightarrow> col \<in> set AMOUNT_COLUMNS \<Longrightarrow> \<not> bad_amount c col"
proof -
  from assms(2) obtain c r where c: "build_set w f = Inr c"
    and f: "find (row_hit i t) (db_registrations s) = Some r"
    and v: "settlementInvariantViolations (set_columns c (db_clock s) r)
        (filter (column_written c) SETTLEMENT_COLUMNS) = Inr []"
    and a: "\<And>col. column_written c col \<Longrightarrow> col \<in> set AMOUNT_COLUMNS \<Longrightarrow> \<not> bad_amount c col"
    and s': "s' = s\<lparr>db_registrations := update_rows (row_hit i t) (set_columns c (db_clock s)) (db_registrations s)\<rparr>"
    by (rule applyRegistrationSettlement_True) blast
  note row = registration_of_update_hit[OF assms(1) f rg_id_set_columns]
  have "t \<noteq> None \<longrightarrow> t = Some (rg_updatedAt r)"
    using row_hit_id find_SomeD[OF f] by blast
  then show ?thesis
    using row by (intro that[OF c _ _ _ _ _ _ v a]) (simp_all add: s')
qed

lemma build_set_Inr:
  "build_set w f = Inr c \<Longrightarrow> cs_settlement c = w \<and> cs_fields c = f \<and>
    (case sw_priceBreakdown w of None \<Rightarrow> cs_derived c = None
     | Some pb \<Rightarrow> \<exists>d. calculateDiscountAmount (pb_appliedRules pb) = Inr d \<and>
         cs_derived c = Some (pb_calculatedBasePrice pb, pb_accessTotal pb, d))"
  by (auto simp: build_set_def sbind_Inr_iff split: option.splits)

text \<open>
  C10: A write the settlement writer accepts leaves the row consistent: a written breakdown adds up
  (access total the sum of its lines, subtotal from base, access and option modifiers, total the
  subtotal less the sponsorship), agrees with the sponsorship and the derived base, access and
  discount columns and fits under the gross total; a written total or sponsorship keeps the
  sponsorship within the total; a written paid amount is at most the net. No other row or table
  changes, and the row still had the \<open>updated_at\<close> the caller gave.
\<close>

theorem applyRegistrationSettlement_consistent:
  assumes "distinct (map rg_id (db_registrations s))"
    and "applyRegistrationSettlement i w f expected s = Inr (True, s')"
  shows "\<exists>r r'. registration_of s i = Some r \<and> registration_of s' i = Some r' \<and>
    (expected \<noteq> None \<longrightarrow> expected = Some (rg_updatedAt r)) \<and>
    (\<forall>pb. sw_priceBreakdown w = Some pb \<longrightarrow> rg_priceBreakdown r' = pb \<and> breakdown_consistent pb \<and>
       pb_sponsorshipTotal pb = rg_sponsorshipAmount r' \<and> pb_subtotal pb \<le> rg_totalAmount r' \<and>
       rg_baseAmount r' = pb_calculatedBasePrice pb \<and> rg_accessAmount r' = pb_accessTotal pb \<and>
       calculateDiscountAmount (pb_appliedRules pb) = Inr (rg_discountAmount r')) \<and>
    (sw_totalAmount w \<noteq> None \<or> sw_sponsorshipAmount w \<noteq> None \<longrightarrow>
       rg_sponsorshipAmount r' \<le> rg_totalAmount r') \<and>
    (sw_paidAmount w \<noteq> None \<longrightarrow>
       0 \<le> rg_paidAmount r' \<and> rg_paidAmount r' \<le> max 0 (rg_totalAmount r' - rg_sponsorshipAmount r')) \<and>
    (\<forall>j. j \<noteq> i \<longrightarrow> registration_of s' j = registration_of s j) \<and>
    s' = s\<lparr>db_registrations := db_registrations s'\<rparr>"
proof -
  from assms obtain c r where c: "build_set w f = Inr c" and r: "registration_of s i = Some r"
    and t: "expected \<noteq> None \<longrightarrow> expected = Some (rg_updatedAt r)"
    and r': "registration_of s' i = Some (set_columns c (db_clock s) r)"
    and rest: "\<And>j. j \<noteq> i \<Longrightarrow> registration_of s' j = registration_of s j"
      "s' = s\<lparr>db_registrations := db_registrations s'\<rparr>"
    and v: "settlementInvariantViolations (set_columns c (db_clock s) r)
        (filter (column_written c) SETTLEMENT_COLUMNS) = Inr []"
    and a: "\<And>col. column_written c col \<Longrightarrow> col \<in> set AMOUNT_COLUMNS \<Longrightarrow> \<not> bad_amount c col"
    by (rule applyRegistrationSettlement_row) blast
  note b = build_set_Inr[OF c] and ok = settlementInvariantViolations_Nil[OF v]
  have paid: "sw_paidAmount w \<noteq> None \<longrightarrow> 0 \<le> rg_paidAmount (set_columns c (db_clock s) r)"
    using a[of Col_paidAmount] b
    by (auto simp: AMOUNT_COLUMNS_def bad_amount_def isAmount_def set_columns_def or_stored_def)
  have pb: "rg_priceBreakdown (set_columns c (db_clock s) r) = pb \<and>
      rg_baseAmount (set_columns c (db_clock s) r) = pb_calculatedBasePrice pb \<and>
      rg_accessAmount (set_columns c (db_clock s) r) = pb_accessTotal pb \<and>
      calculateDiscountAmount (pb_appliedRules pb) = Inr (rg_discountAmount (set_columns c (db_clock s) r))"
    if "sw_priceBreakdown w = Some pb" for pb
    using b that by (auto simp: set_columns_def or_stored_def Let_def)
  let ?r = "set_columns c (db_clock s) r"
  have w: "cs_settlement c = w" using b by simp
  have cons: "breakdown_consistent pb \<and> pb_sponsorshipTotal pb = rg_sponsorshipAmount ?r \<and>
      pb_subtotal pb \<le> rg_totalAmount ?r" if "sw_priceBreakdown w = Some pb" for pb
    using ok pb[OF that] that w by simp
  have tot: "sw_totalAmount w \<noteq> None \<or> sw_sponsorshipAmount w \<noteq> None \<longrightarrow>
      rg_sponsorshipAmount ?r \<le> rg_totalAmount ?r"
    using ok w by simp
  have net: "sw_paidAmount w \<noteq> None \<longrightarrow>
      rg_paidAmount ?r \<le> max 0 (rg_totalAmount ?r - rg_sponsorshipAmount ?r)"
    using ok w by simp
  show ?thesis
    by (intro exI[of _ r] exI[of _ ?r] conjI allI impI r t r' rest)
      (use paid pb cons tot net in blast)+
qed

definition ex_reg :: registration_row where
  "ex_reg = \<lparr>rg_id = ''r1'', rg_eventId = ''ev'', rg_email = ''a@b.c'', rg_firstName = None,
    rg_lastName = None, rg_paymentStatus = PENDING, rg_paidAt = None, rg_paidAmount = 0,
    rg_totalAmount = 150000, rg_sponsorshipAmount = 0, rg_priceBreakdown = ex_breakdown,
    rg_baseAmount = 100000, rg_accessAmount = 50000, rg_discountAmount = 0,
    rg_paymentMethod = None, rg_sponsorshipCode = None, rg_accessTypeIds = Some [''ws''],
    rg_droppedAccessIds = None, rg_createdAt = 1, rg_updatedAt = 5, rg_formId = ''form'', rg_formData = [], rg_formSchemaVersion = 1, rg_networkingOptIn = None,
    rg_submittedAt = 0, rg_phone = None, rg_referenceNumber = None, rg_currency = ''TND'', rg_paymentReference = None,
    rg_paymentProofUrl = None, rg_labName = None, rg_lastEditedAt = None, rg_editToken = None, rg_linkBaseUrl = None,
    rg_idempotencyKey = None, rg_note = None, rg_role = PARTICIPANT,
    rg_checkedInAt = None, rg_checkedInBy = None\<rparr>"

theorem applyRegistrationSettlement_consistent_witness:
  "\<exists>r'. registration_of (ex_db [ex_reg\<lparr>rg_paidAmount := 150000, rg_paymentStatus := PAID,
      rg_updatedAt := 1000\<rparr>] 1) ''r1'' = Some r' \<and>
    rg_paidAmount r' \<le> max 0 (rg_totalAmount r' - rg_sponsorshipAmount r')"
proof -
  let ?w = "no_settlement\<lparr>sw_paidAmount := Some 150000, sw_paymentStatus := Some PAID,
    sw_priceBreakdown := Some ex_breakdown\<rparr>"
  let ?s' = "ex_db [ex_reg\<lparr>rg_paidAmount := 150000, rg_paymentStatus := PAID, rg_updatedAt := 1000\<rparr>] 1"
  have d: "distinct (map rg_id (db_registrations (ex_db [ex_reg] 1)))" by (simp add: ex_db_def)
  have run: "applyRegistrationSettlement ''r1'' ?w no_fields (Some 5) (ex_db [ex_reg] 1) = Inr (True, ?s')"
    by code_simp
  from applyRegistrationSettlement_consistent[OF d run]
  show ?thesis by (auto simp: no_settlement_def)
qed

end
