(* ===== verification/Settle.thy ===== *)
theory Settle
  imports SettlementWriter
begin

text \<open>
  \<open>packages/db/src/settlement/settle.ts\<close>: the settlement of one registration. It recomputes the
  linked sponsorship usages, nets the breakdown, takes the status from the caller's decision or
  derives it, moves the paid counters from what the registration held to what it will hold, and
  writes the columns that changed. \<open>icu\<close> is the runtime's currency data (theory Money).
\<close>

section \<open>Options and results\<close>

record settlement_snapshot =
  ss_paymentStatus :: payment_status
  ss_paidAt :: "date option"
  ss_paidAmount :: money
  ss_totalAmount :: money
  ss_sponsorshipAmount :: money
  ss_priceBreakdown :: price_breakdown

record settlement_decision_input =
  di_before :: settlement_snapshot
  di_gross :: money
  di_sponsorship :: money
  di_net :: money

record settlement_decision =
  sd_paymentStatus :: "payment_status option"
  sd_paidAmount :: "money option"
  sd_paidAt :: "date option option"

record settle_options =
  so_priceBreakdown :: "price_breakdown option"
  so_totalAmount :: "money option"
  so_paidAmount :: "money option"
  so_paymentStatus :: "payment_status option"
  so_paidAt :: "date option option"
  so_decide :: "(settlement_decision_input \<Rightarrow> error + settlement_decision option) option"
  so_coveredAccessIdsBefore :: "string list option"
  so_keepUnlinkedSponsorship :: "bool option"
  so_fields :: fields_patch
  so_expectedUpdatedAt :: "date option"
  so_now :: "date option"

definition no_options :: settle_options where
  "no_options = \<lparr>so_priceBreakdown = None, so_totalAmount = None, so_paidAmount = None,
    so_paymentStatus = None, so_paidAt = None, so_decide = None, so_coveredAccessIdsBefore = None,
    so_keepUnlinkedSponsorship = None, so_fields = no_fields, so_expectedUpdatedAt = None,
    so_now = None\<rparr>"

record settle_result =
  sr_written :: bool
  sr_eventId :: string
  sr_before :: settlement_snapshot
  sr_after :: settlement_snapshot
  sr_coveredAccessIds :: "string list"
  sr_paidAccess :: paid_moves

definition readSettlementRow :: "registration_row \<Rightarrow> settlement_snapshot" where
  "readSettlementRow r = \<lparr>ss_paymentStatus = rg_paymentStatus r, ss_paidAt = rg_paidAt r,
    ss_paidAmount = rg_paidAmount r, ss_totalAmount = rg_totalAmount r,
    ss_sponsorshipAmount = rg_sponsorshipAmount r, ss_priceBreakdown = rg_priceBreakdown r\<rparr>"

section \<open>Recomputing the sponsorship\<close>

definition calculation_of :: "price_breakdown \<Rightarrow> registration_for_calculation" where
  "calculation_of pb = \<lparr>rc_totalAmount = pb_subtotal pb, rc_baseAmount = pb_calculatedBasePrice pb,
    rc_accessTypeIds = map li_accessId (pb_accessItems pb),
    rc_calculatedBasePrice = Some (pb_calculatedBasePrice pb),
    rc_accessItems = Some (map (\<lambda>l. (li_accessId l, li_subtotal l)) (pb_accessItems pb))\<rparr>"

text \<open>One turn of the loop over the usages, on the running sponsorship and the database.\<close>

definition recompute_step ::
  "price_breakdown \<Rightarrow> usage_for_recalc \<Rightarrow> money \<times> db \<Rightarrow> error + money \<times> db" where
  "recompute_step pb usage st =
    (case st of (sponsorship, s) \<Rightarrow>
      sbind (calculateApplicableAmount (ur_sponsorship usage) (calculation_of pb)) (\<lambda>amountApplied.
      sbind (sumMoney [sponsorship, amountApplied]) (\<lambda>total.
      Inr (total, if amountApplied \<noteq> ur_amountApplied usage
                  then updateUsageAmount (ur_id usage) amountApplied s else s))))"

definition covered_by :: "usage_for_recalc list \<Rightarrow> string list" where
  "covered_by usages = uniq (concat (map (\<lambda>u. sc_coveredAccessIds (ur_sponsorship u)) usages))"

definition recomputeRegistrationSponsorship ::
  "string \<Rightarrow> price_breakdown \<Rightarrow> bool \<Rightarrow> db \<Rightarrow> error + (money \<times> string list) \<times> db" where
  "recomputeRegistrationSponsorship registrationId pb keepUnlinked s =
    (let usages = findRegistrationUsagesForRecalc s registrationId;
         initial = (if usages = [] \<and> keepUnlinked then pb_sponsorshipTotal pb else 0)
     in sbind (sfold (recompute_step pb) usages (initial, s)) (\<lambda>(sponsorship, s').
        sbind (sponsorshipLimit pb) (\<lambda>limit.
        Inr ((min sponsorship limit, covered_by usages), s'))))"

section \<open>Settling\<close>

text \<open>\<open>chosen\<close>: what \<open>decide\<close> returned, else the options; then the status and date to write.\<close>

definition chosen_decision ::
  "settle_options \<Rightarrow> settlement_decision_input \<Rightarrow> error + settlement_decision" where
  "chosen_decision options input =
    sbind (case so_decide options of None \<Rightarrow> Inr None | Some decide \<Rightarrow> decide input) (\<lambda>d.
    Inr (case d of Some decision \<Rightarrow> decision
       | None \<Rightarrow> \<lparr>sd_paymentStatus = so_paymentStatus options,
                  sd_paidAmount = so_paidAmount options, sd_paidAt = so_paidAt options\<rparr>))"

definition decided_status ::
  "settlement_decision \<Rightarrow> settlement_snapshot \<Rightarrow> money \<Rightarrow> money \<Rightarrow> money \<Rightarrow> date
    \<Rightarrow> error + payment_status \<times> date option" where
  "decided_status chosen before totalAmount sponsorship paidAmount now =
    (case sd_paymentStatus chosen of
       Some status \<Rightarrow> Inr (status, or_stored (sd_paidAt chosen) (ss_paidAt before))
     | None \<Rightarrow>
        sbind (deriveSettlement \<lparr>si_gross = totalAmount, si_sponsorship = sponsorship,
            si_paid = paidAmount, si_currentStatus = ss_paymentStatus before,
            si_paidAt = ss_paidAt before, si_now = now\<rparr>)
          (\<lambda>derived. Inr (ds_status derived, ds_paidAt derived)))"

text \<open>Only the columns that changed are written.\<close>

definition changed_columns ::
  "bool \<Rightarrow> settlement_snapshot \<Rightarrow> settlement_snapshot \<Rightarrow> money option \<Rightarrow> settlement_write" where
  "changed_columns repriced before after explicitPaidAmount =
    (let breakdownChanged = (repriced
           \<or> pb_sponsorshipTotal (ss_priceBreakdown before) \<noteq> pb_sponsorshipTotal (ss_priceBreakdown after)
           \<or> pb_total (ss_priceBreakdown before) \<noteq> pb_total (ss_priceBreakdown after))
     in \<lparr>sw_paymentStatus = (if ss_paymentStatus after \<noteq> ss_paymentStatus before
            then Some (ss_paymentStatus after) else None),
         sw_paidAt = (if ss_paidAt after \<noteq> ss_paidAt before then Some (ss_paidAt after) else None),
         sw_paidAmount = (if explicitPaidAmount \<noteq> None then Some (ss_paidAmount after) else None),
         sw_totalAmount = (if breakdownChanged \<or> ss_totalAmount after \<noteq> ss_totalAmount before
            then Some (ss_totalAmount after) else None),
         sw_sponsorshipAmount = (if breakdownChanged
              \<or> ss_sponsorshipAmount after \<noteq> ss_sponsorshipAmount before
            then Some (ss_sponsorshipAmount after) else None),
         sw_priceBreakdown = (if breakdownChanged then Some (ss_priceBreakdown after) else None)\<rparr>)"

text \<open>The two states the paid counters move between.\<close>

definition paid_before :: "settle_options \<Rightarrow> settlement_snapshot \<Rightarrow> string list \<Rightarrow> paid_access_state" where
  "paid_before options before cov = \<lparr>ps_status = ss_paymentStatus before,
    ps_priceBreakdown = ss_priceBreakdown before,
    ps_coveredAccessIds = or_stored (so_coveredAccessIdsBefore options) cov\<rparr>"

definition paid_after :: "settlement_snapshot \<Rightarrow> string list \<Rightarrow> paid_access_state" where
  "paid_after after cov = \<lparr>ps_status = ss_paymentStatus after,
    ps_priceBreakdown = ss_priceBreakdown after, ps_coveredAccessIds = cov\<rparr>"

text \<open>The settlement of the locked, unchanged row, and the whole transaction step.\<close>

definition settle_row ::
  "(string \<Rightarrow> nat option) \<Rightarrow> string \<Rightarrow> settle_options \<Rightarrow> registration_row \<Rightarrow> db
    \<Rightarrow> error + settle_result \<times> db" where
  "settle_row icu registrationId options row s =
    (let before = readSettlementRow row;
         repriced = (so_priceBreakdown options \<noteq> None);
         grossBreakdown = or_stored (so_priceBreakdown options) (ss_priceBreakdown before)
     in
     sbind (recomputeRegistrationSponsorship registrationId grossBreakdown
         (or_stored (so_keepUnlinkedSponsorship options) True) s) (\<lambda>((sponsorship, coveredAccessIds), s1).
     sbind (netBreakdown icu grossBreakdown sponsorship) (\<lambda>priceBreakdown.
     let totalAmount = (case so_totalAmount options of Some t \<Rightarrow> t
           | None \<Rightarrow> if repriced then pb_subtotal priceBreakdown else ss_totalAmount before) in
     sbind (case so_decide options of None \<Rightarrow> Inr 0 | Some _ \<Rightarrow> subtractMoney totalAmount sponsorship)
       (\<lambda>net.
     sbind (chosen_decision options \<lparr>di_before = before, di_gross = totalAmount,
         di_sponsorship = sponsorship, di_net = max 0 net\<rparr>) (\<lambda>chosen.
     let paidAmount = or_stored (sd_paidAmount chosen) (ss_paidAmount before) in
     sbind (decided_status chosen before totalAmount sponsorship paidAmount
         (or_stored (so_now options) (db_clock s1))) (\<lambda>(paymentStatus, paidAt).
     let after = \<lparr>ss_paymentStatus = paymentStatus, ss_paidAt = paidAt,
           ss_paidAmount = paidAmount, ss_totalAmount = totalAmount,
           ss_sponsorshipAmount = sponsorship, ss_priceBreakdown = priceBreakdown\<rparr> in
     sbind (applyPaidAccessDelta (paid_before options before coveredAccessIds)
         (paid_after after coveredAccessIds) s1) (\<lambda>(paidAccess, s2).
     let settlement = changed_columns repriced before after (sd_paidAmount chosen) in
     sbind (if empty_write settlement \<and> no_field_keys (so_fields options) then Inr (False, s2)
            else applyRegistrationSettlement registrationId settlement (so_fields options) None s2)
       (\<lambda>(_, s3).
     Inr (\<lparr>sr_written = True, sr_eventId = rg_eventId row, sr_before = before,
           sr_after = after, sr_coveredAccessIds = coveredAccessIds,
           sr_paidAccess = paidAccess\<rparr>, s3)))))))))"

definition settleRegistrationTxn ::
  "(string \<Rightarrow> nat option) \<Rightarrow> string \<Rightarrow> settle_options \<Rightarrow> db \<Rightarrow> error + settle_result option \<times> db" where
  "settleRegistrationTxn icu registrationId options s =
    (if \<not> lockRegistrationForUpdate s registrationId then Inr (None, s)
     else case registration_of s registrationId of
       None \<Rightarrow> Inr (None, s)
     | Some row \<Rightarrow>
        if so_expectedUpdatedAt options \<noteq> None \<and> so_expectedUpdatedAt options \<noteq> Some (rg_updatedAt row)
        then Inr (Some \<lparr>sr_written = False, sr_eventId = rg_eventId row,
               sr_before = readSettlementRow row, sr_after = readSettlementRow row,
               sr_coveredAccessIds = [],
               sr_paidAccess = \<lparr>pm_incremented = [], pm_decremented = []\<rparr>\<rparr>, s)
        else sbind (settle_row icu registrationId options row s) (\<lambda>(res, s'). Inr (Some res, s')))"

section \<open>The recomputed sponsorship\<close>

text \<open>What one sponsorship pays of a breakdown: what it covers, within the subtotal and its own total.\<close>

definition applicable :: "price_breakdown \<Rightarrow> sponsorship_coverage \<Rightarrow> money" where
  "applicable pb c = min (covered_amount c (calculation_of pb)) (min (pb_subtotal pb) (sc_totalAmount c))"

lemma calculateApplicable_applicable:
  "calculateApplicableAmount c (calculation_of pb) = Inr a \<Longrightarrow> a = applicable pb c"
  by (drule calculateApplicableAmount_Inr) (simp add: applicable_def calculation_of_def)

definition recomputed_row :: "price_breakdown \<Rightarrow> usage_for_recalc list \<Rightarrow> usage_row \<Rightarrow> usage_row" where
  "recomputed_row pb us r = (case find (\<lambda>u. ur_id u = us_id r) us of None \<Rightarrow> r
     | Some u \<Rightarrow> r\<lparr>us_amountApplied := applicable pb (ur_sponsorship u)\<rparr>)"

lemma recomputed_row_fields [simp]:
  "us_id (recomputed_row pb us r) = us_id r"
  "us_sponsorshipId (recomputed_row pb us r) = us_sponsorshipId r"
  "us_registrationId (recomputed_row pb us r) = us_registrationId r"
  by (simp_all add: recomputed_row_def split: option.splits)

lemma recompute_step_Inr:
  assumes "recompute_step pb u (v, s) = Inr (w, s')"
    and "\<forall>r \<in> set (db_usages s). us_id r = ur_id u \<longrightarrow> us_amountApplied r = ur_amountApplied u"
  shows "w = v + applicable pb (ur_sponsorship u) \<and>
    s' = s\<lparr>db_usages := map (\<lambda>r. if us_id r = ur_id u
      then r\<lparr>us_amountApplied := applicable pb (ur_sponsorship u)\<rparr> else r) (db_usages s)\<rparr>"
proof -
  from assms(1) obtain a where a: "calculateApplicableAmount (ur_sponsorship u) (calculation_of pb) = Inr a"
    and w: "w = v + a"
    and s': "s' = (if a \<noteq> ur_amountApplied u then updateUsageAmount (ur_id u) a s else s)"
    by (auto simp: recompute_step_def sbind_Inr_iff sumMoney_Inr_iff)
  note aa = calculateApplicable_applicable[OF a]
  have same: "map (\<lambda>r. if us_id r = ur_id u then r\<lparr>us_amountApplied := a\<rparr> else r) (db_usages s) = db_usages s"
    if "a = ur_amountApplied u"
    using assms(2) that by (intro map_idI) auto
  show ?thesis
  proof (cases "a = ur_amountApplied u")
    case True
    have "s = s\<lparr>db_usages := map (\<lambda>r. if us_id r = ur_id u then r\<lparr>us_amountApplied := a\<rparr> else r)
        (db_usages s)\<rparr>"
      unfolding same[OF True] by simp
    moreover have "s' = s" "w = v + a" using True w s' by simp_all
    ultimately show ?thesis unfolding aa[symmetric] by simp
  next
    case False
    then show ?thesis using w s' by (simp add: updateUsageAmount_def update_rows_def aa[symmetric])
  qed
qed

lemma recompute_loop:
  assumes "sfold (recompute_step pb) us (v, s) = Inr (w, s')" and "distinct (map ur_id us)"
    and "\<forall>u \<in> set us. \<forall>r \<in> set (db_usages s). us_id r = ur_id u \<longrightarrow> us_amountApplied r = ur_amountApplied u"
  shows "w = v + (\<Sum>u\<leftarrow>us. applicable pb (ur_sponsorship u)) \<and>
    s' = s\<lparr>db_usages := map (recomputed_row pb us) (db_usages s)\<rparr>"
  using assms
proof (induction us arbitrary: v s)
  case Nil
  then show ?case by (simp add: recomputed_row_def)
next
  case (Cons u us)
  from Cons.prems(1) obtain v1 s1 where st: "recompute_step pb u (v, s) = Inr (v1, s1)"
    and rest: "sfold (recompute_step pb) us (v1, s1) = Inr (w, s')"
    by (auto elim: sbind_InrE)
  have one: "v1 = v + applicable pb (ur_sponsorship u) \<and>
    s1 = s\<lparr>db_usages := map (\<lambda>r. if us_id r = ur_id u
      then r\<lparr>us_amountApplied := applicable pb (ur_sponsorship u)\<rparr> else r) (db_usages s)\<rparr>"
    by (rule recompute_step_Inr[OF st]) (use Cons.prems(3) in simp)
  have ih: "w = v1 + (\<Sum>u\<leftarrow>us. applicable pb (ur_sponsorship u)) \<and>
    s' = s1\<lparr>db_usages := map (recomputed_row pb us) (db_usages s1)\<rparr>"
  proof (rule Cons.IH[OF rest])
    show "distinct (map ur_id us)" using Cons.prems(2) by simp
    show "\<forall>u \<in> set us. \<forall>r \<in> set (db_usages s1). us_id r = ur_id u \<longrightarrow> us_amountApplied r = ur_amountApplied u"
      using Cons.prems(2,3) one by (auto simp: image_iff)
  qed
  have notin: "find (\<lambda>v. ur_id v = ur_id u) us = None"
    using Cons.prems(2) by (auto simp: find_None_iff) (metis imageI)
  show ?case
    using one ih notin by (auto simp: recomputed_row_def add.assoc)
qed

lemma recalc_usage:
  assumes "u \<in> set (findRegistrationUsagesForRecalc s i)"
  obtains r c where "r \<in> set (db_usages s)" "us_registrationId r = Some i"
    "sponsorship_of s (us_sponsorshipId r) = Some c"
    "u = \<lparr>ur_id = us_id r, ur_amountApplied = us_amountApplied r, ur_sponsorship = coverage_of c\<rparr>"
proof -
  from assms obtain r where r: "r \<in> set (db_usages s)" "us_registrationId r = Some i"
    and u: "u \<in> set (case sponsorship_of s (us_sponsorshipId r) of None \<Rightarrow> []
      | Some c \<Rightarrow> [\<lparr>ur_id = us_id r, ur_amountApplied = us_amountApplied r, ur_sponsorship = coverage_of c\<rparr>])"
    unfolding findRegistrationUsagesForRecalc_def by auto
  then show ?thesis by (cases "sponsorship_of s (us_sponsorshipId r)") (auto intro: that[OF r])
qed

lemma recalc_ids_sublist:
  "\<exists>f. map ur_id (findRegistrationUsagesForRecalc s i) = map us_id (filter f (db_usages s))"
proof -
  let ?g = "\<lambda>u. us_registrationId u = Some i \<and> sponsorship_of s (us_sponsorshipId u) \<noteq> None"
  have "map ur_id (concat (map (\<lambda>u. case sponsorship_of s (us_sponsorshipId u) of
        None \<Rightarrow> []
      | Some r \<Rightarrow> [\<lparr>ur_id = us_id u, ur_amountApplied = us_amountApplied u,
                    ur_sponsorship = coverage_of r\<rparr>])
      (filter (\<lambda>u. us_registrationId u = Some i) us))) = map us_id (filter ?g us)" for us
    by (induction us) (auto split: option.splits)
  then show ?thesis unfolding findRegistrationUsagesForRecalc_def by blast
qed

lemma recalc_distinct:
  "distinct (map us_id (db_usages s)) \<Longrightarrow> distinct (map ur_id (findRegistrationUsagesForRecalc s i))"
  using recalc_ids_sublist[of s i] by (auto simp: distinct_map_filter)

text \<open>The coverage of a registration's linked sponsorships, as its settlement sees it.\<close>

definition coverages :: "db \<Rightarrow> string \<Rightarrow> sponsorship_coverage list" where
  "coverages s i = map ur_sponsorship (findRegistrationUsagesForRecalc s i)"

lemma recompute_Inr:
  assumes "distinct (map us_id (db_usages s))"
    and "recomputeRegistrationSponsorship i pb keep s = Inr ((sp, cov), s')"
  shows "sp = min ((if coverages s i = [] \<and> keep then pb_sponsorshipTotal pb else 0)
        + (\<Sum>c\<leftarrow>coverages s i. applicable pb c))
      (max 0 (min (pb_subtotal pb)
        (pb_calculatedBasePrice pb + sum_list (map li_subtotal (pb_accessItems pb))))) \<and>
    cov = uniq (concat (map sc_coveredAccessIds (coverages s i))) \<and>
    s' = s\<lparr>db_usages := map (recomputed_row pb (findRegistrationUsagesForRecalc s i)) (db_usages s)\<rparr>"
proof -
  let ?us = "findRegistrationUsagesForRecalc s i"
  let ?v = "if ?us = [] \<and> keep then pb_sponsorshipTotal pb else 0"
  from assms(2) obtain w l where loop: "sfold (recompute_step pb) ?us (?v, s) = Inr (w, s')"
    and l: "sponsorshipLimit pb = Inr l" and r: "sp = min w l" "cov = covered_by ?us"
    by (auto simp: recomputeRegistrationSponsorship_def Let_def elim!: sbind_InrE)
  have same: "us_amountApplied r = ur_amountApplied u"
    if "u \<in> set ?us" "r \<in> set (db_usages s)" "us_id r = ur_id u" for u r
  proof -
    from that(1) obtain r' c where "r' \<in> set (db_usages s)" "u = \<lparr>ur_id = us_id r',
        ur_amountApplied = us_amountApplied r', ur_sponsorship = coverage_of c\<rparr>"
      by (rule recalc_usage)
    with that(2,3) assms(1) show ?thesis by (auto simp: distinct_map dest: inj_onD)
  qed
  have "w = ?v + (\<Sum>u\<leftarrow>?us. applicable pb (ur_sponsorship u)) \<and>
    s' = s\<lparr>db_usages := map (recomputed_row pb ?us) (db_usages s)\<rparr>"
    by (rule recompute_loop[OF loop recalc_distinct[OF assms(1)]]) (use same in blast)
  then show ?thesis
    using r sponsorshipLimit_Inr[OF l]
    by (simp add: coverages_def covered_by_def comp_def)
qed


section \<open>What a settlement does\<close>

text \<open>The stages of a settlement that was written, read off the code.\<close>

lemma settle_InrE:
  assumes "settleRegistrationTxn icu i o' s = Inr (Some res, s')" and "sr_written res"
  obtains row sp cov s1 pb net chosen s2 w where
    "registration_of s i = Some row" "sr_before res = readSettlementRow row"
    "sr_eventId res = rg_eventId row"
    "so_expectedUpdatedAt o' \<noteq> None \<longrightarrow> so_expectedUpdatedAt o' = Some (rg_updatedAt row)"
    "recomputeRegistrationSponsorship i (or_stored (so_priceBreakdown o') (rg_priceBreakdown row))
      (or_stored (so_keepUnlinkedSponsorship o') True) s = Inr ((sp, cov), s1)"
    "netBreakdown icu (or_stored (so_priceBreakdown o') (rg_priceBreakdown row)) sp = Inr pb"
    "ss_totalAmount (sr_after res) = (case so_totalAmount o' of Some t \<Rightarrow> t
      | None \<Rightarrow> if so_priceBreakdown o' \<noteq> None then pb_subtotal pb else rg_totalAmount row)"
    "ss_sponsorshipAmount (sr_after res) = sp" "ss_priceBreakdown (sr_after res) = pb"
    "so_decide o' \<noteq> None \<longrightarrow> net = ss_totalAmount (sr_after res) - sp"
    "chosen_decision o' \<lparr>di_before = sr_before res, di_gross = ss_totalAmount (sr_after res),
      di_sponsorship = sp, di_net = max 0 net\<rparr> = Inr chosen"
    "ss_paidAmount (sr_after res) = or_stored (sd_paidAmount chosen) (rg_paidAmount row)"
    "decided_status chosen (sr_before res) (ss_totalAmount (sr_after res)) sp
      (ss_paidAmount (sr_after res)) (or_stored (so_now o') (db_clock s1))
      = Inr (ss_paymentStatus (sr_after res), ss_paidAt (sr_after res))"
    "sr_coveredAccessIds res = cov"
    "applyPaidAccessDelta (paid_before o' (sr_before res) cov) (paid_after (sr_after res) cov) s1
      = Inr (sr_paidAccess res, s2)"
    "w = changed_columns (so_priceBreakdown o' \<noteq> None) (sr_before res) (sr_after res) (sd_paidAmount chosen)"
    "empty_write w \<and> no_field_keys (so_fields o') \<and> s' = s2 \<or>
      (\<exists>b. applyRegistrationSettlement i w (so_fields o') None s2 = Inr (b, s'))"
proof -
  from assms(1) obtain row where row: "registration_of s i = Some row"
    by (auto simp: settleRegistrationTxn_def lockRegistrationForUpdate_iff split: if_split_asm)
  then have lock: "lockRegistrationForUpdate s i" by (simp add: lockRegistrationForUpdate_iff)
  from assms have e: "so_expectedUpdatedAt o' \<noteq> None \<longrightarrow> so_expectedUpdatedAt o' = Some (rg_updatedAt row)"
    and run: "settle_row icu i o' row s = Inr (res, s')"
    by (auto simp: settleRegistrationTxn_def lock row sbind_Inr_iff split: if_split_asm prod.split_asm)
  let ?gb = "or_stored (so_priceBreakdown o') (rg_priceBreakdown row)"
  have b: "ss_priceBreakdown (readSettlementRow row) = rg_priceBreakdown row"
    "ss_totalAmount (readSettlementRow row) = rg_totalAmount row"
    "ss_paidAmount (readSettlementRow row) = rg_paidAmount row"
    by (simp_all add: readSettlementRow_def)
  note run = run[unfolded settle_row_def Let_def b]
  from run obtain sp cov s1 pb where
    1: "recomputeRegistrationSponsorship i ?gb (or_stored (so_keepUnlinkedSponsorship o') True) s
        = Inr ((sp, cov), s1)"
    and 2: "netBreakdown icu ?gb sp = Inr pb"
    by (auto elim!: sbind_InrE)
  note run = run[unfolded 1 2 sbind_simps prod.case]
  let ?total = "case so_totalAmount o' of Some t \<Rightarrow> t
      | None \<Rightarrow> if so_priceBreakdown o' \<noteq> None then pb_subtotal pb else rg_totalAmount row"
  from run obtain net where 3: "(case so_decide o' of None \<Rightarrow> Inr 0 | Some _ \<Rightarrow> subtractMoney ?total sp) = Inr net"
    by (elim sbind_InrE)
  note run = run[unfolded 3 sbind_simps]
  from run obtain chosen where 4: "chosen_decision o' \<lparr>di_before = readSettlementRow row,
      di_gross = ?total, di_sponsorship = sp, di_net = max 0 net\<rparr> = Inr chosen"
    by (elim sbind_InrE)
  note run = run[unfolded 4 sbind_simps]
  from run obtain st pa where 5: "decided_status chosen (readSettlementRow row) ?total sp
      (or_stored (sd_paidAmount chosen) (rg_paidAmount row)) (or_stored (so_now o') (db_clock s1)) = Inr (st, pa)"
    by (elim sbind_InrE) auto
  note run = run[unfolded 5 sbind_simps prod.case]
  from run obtain moves s2 where 6: "applyPaidAccessDelta (paid_before o' (readSettlementRow row) cov)
      (paid_after \<lparr>ss_paymentStatus = st, ss_paidAt = pa,
         ss_paidAmount = or_stored (sd_paidAmount chosen) (rg_paidAmount row),
         ss_totalAmount = ?total, ss_sponsorshipAmount = sp, ss_priceBreakdown = pb\<rparr> cov) s1 = Inr (moves, s2)"
    by (elim sbind_InrE) auto
  note run = run[unfolded 6 sbind_simps prod.case]
  from 3 have n: "so_decide o' \<noteq> None \<longrightarrow> net = ?total - sp"
  proof (cases "so_decide o'")
    case (Some d)
    with 3 have "subtractMoney ?total sp = Inr net" by (simp only: option.case)
    from subtractMoney_Inr[OF this] show ?thesis by (rule impI)
  qed simp
  from run obtain r where w: "res = \<lparr>sr_written = True, sr_eventId = rg_eventId row,
      sr_before = readSettlementRow row, sr_after = \<lparr>ss_paymentStatus = st, ss_paidAt = pa,
         ss_paidAmount = or_stored (sd_paidAmount chosen) (rg_paidAmount row),
         ss_totalAmount = ?total, ss_sponsorshipAmount = sp, ss_priceBreakdown = pb\<rparr>,
      sr_coveredAccessIds = cov, sr_paidAccess = moves\<rparr>"
    by (elim sbind_InrE) auto
  from run have "empty_write (changed_columns (so_priceBreakdown o' \<noteq> None) (sr_before res)
        (sr_after res) (sd_paidAmount chosen)) \<and> no_field_keys (so_fields o') \<and> s' = s2 \<or>
      (\<exists>b. applyRegistrationSettlement i (changed_columns (so_priceBreakdown o' \<noteq> None)
        (sr_before res) (sr_after res) (sd_paidAmount chosen)) (so_fields o') None s2 = Inr (b, s'))"
    unfolding w by (elim sbind_InrE) (auto split: if_split_asm)
  with that[OF row _ _ e 1 2] n 4 5 6 show ?thesis unfolding w by simp
qed


section \<open>The stored row after a settlement\<close>

definition db_wf :: "db \<Rightarrow> bool" where
  "db_wf s \<longleftrightarrow> distinct (map rg_id (db_registrations s)) \<and> distinct (map us_id (db_usages s)) \<and>
    distinct (map sp_id (db_sponsorships s)) \<and> accesses_wf s"

text \<open>
  A breakdown up to its money snapshot: a settlement that changes no amount leaves the stored
  snapshot alone.
\<close>

definition same_breakdown :: "price_breakdown \<Rightarrow> price_breakdown \<Rightarrow> bool" where
  "same_breakdown a b \<longleftrightarrow> a\<lparr>pb_money := None\<rparr> = b\<lparr>pb_money := None\<rparr>"

lemma same_breakdown_refl [simp]: "same_breakdown a a"
  by (simp add: same_breakdown_def)

lemma same_breakdownD:
  assumes "same_breakdown a b"
  shows "pb_accessItems a = pb_accessItems b" "pb_subtotal a = pb_subtotal b"
    "pb_sponsorshipTotal a = pb_sponsorshipTotal b" "pb_total a = pb_total b"
  using assms by (cases a; cases b; simp add: same_breakdown_def)+

lemma netBreakdown_same:
  assumes "netBreakdown icu b sp = Inr b'" and "pb_sponsorshipTotal b = pb_sponsorshipTotal b'"
    and "pb_total b = pb_total b'"
  shows "same_breakdown b b'"
proof -
  obtain m where "b' = b\<lparr>pb_sponsorshipTotal := min sp (pb_subtotal b),
      pb_total := max 0 (pb_subtotal b - min sp (pb_subtotal b)), pb_money := m\<rparr>"
    using assms(1) by (rule netBreakdown_InrE)
  with assms(2,3) show ?thesis
    by (cases b) (simp add: same_breakdown_def)
qed

definition stores :: "registration_row \<Rightarrow> settlement_snapshot \<Rightarrow> bool" where
  "stores r a \<longleftrightarrow> rg_paymentStatus r = ss_paymentStatus a \<and> rg_paidAt r = ss_paidAt a \<and>
    rg_paidAmount r = ss_paidAmount a \<and> rg_totalAmount r = ss_totalAmount a \<and>
    rg_sponsorshipAmount r = ss_sponsorshipAmount a \<and>
    same_breakdown (rg_priceBreakdown r) (ss_priceBreakdown a)"

lemma changed_columns_stores:
  assumes "same_breakdown (rg_priceBreakdown r) pb \<or> repriced
      \<or> pb_sponsorshipTotal (rg_priceBreakdown r) \<noteq> pb_sponsorshipTotal pb
      \<or> pb_total (rg_priceBreakdown r) \<noteq> pb_total pb"
    and "ss_priceBreakdown a = pb" and "ss_paidAmount a = or_stored explicit (rg_paidAmount r)"
    and "cs_settlement c = changed_columns repriced (readSettlementRow r) a explicit"
  shows "stores (set_columns c now r) a"
  using assms
  by (auto simp: stores_def set_columns_def changed_columns_def readSettlementRow_def or_stored_def
      Let_def split: option.splits)

lemma empty_write_stores:
  assumes "same_breakdown (rg_priceBreakdown r) pb \<or> repriced
      \<or> pb_sponsorshipTotal (rg_priceBreakdown r) \<noteq> pb_sponsorshipTotal pb
      \<or> pb_total (rg_priceBreakdown r) \<noteq> pb_total pb"
    and "ss_priceBreakdown a = pb" and "ss_paidAmount a = or_stored explicit (rg_paidAmount r)"
    and "empty_write (changed_columns repriced (readSettlementRow r) a explicit)"
  shows "stores r a"
  using assms
  by (auto simp: stores_def changed_columns_def empty_write_def readSettlementRow_def or_stored_def
      Let_def split: option.splits if_splits)

lemma settle_effect:
  assumes wf: "db_wf s" and run: "settleRegistrationTxn icu i o' s = Inr (Some res, s')"
    and written: "sr_written res"
  obtains row f a u where "registration_of s i = Some row" "sr_before res = readSettlementRow row"
    "\<And>r. rg_id (f r) = rg_id r" "stores (f row) (sr_after res)"
    "registration_of s' i = Some (f row)" "rg_eventId (f row) = rg_eventId row"
    "rg_sponsorshipCode (f row) = or_stored (fp_sponsorshipCode (so_fields o')) (rg_sponsorshipCode row)"
    "rg_accessTypeIds (f row) = or_stored (fp_accessTypeIds (so_fields o')) (rg_accessTypeIds row)"
    "s' = s\<lparr>db_registrations := update_rows (\<lambda>r. rg_id r = i) f (db_registrations s),
      db_accesses := a, db_usages := map u (db_usages s)\<rparr>"
    "u = recomputed_row (or_stored (so_priceBreakdown o') (rg_priceBreakdown row)) (findRegistrationUsagesForRecalc s i)"
    "sr_coveredAccessIds res = covered_by (findRegistrationUsagesForRecalc s i)"
    "map ea_id a = map ea_id (db_accesses s)"
    "applyPaidAccessDelta (paid_before o' (sr_before res) (sr_coveredAccessIds res))
      (paid_after (sr_after res) (sr_coveredAccessIds res)) (s\<lparr>db_usages := map u (db_usages s)\<rparr>)
      = Inr (sr_paidAccess res, s\<lparr>db_usages := map u (db_usages s), db_accesses := a\<rparr>)"
proof -
  from run written obtain row sp cov s1 pb net chosen s2 w where
    row: "registration_of s i = Some row" and bef: "sr_before res = readSettlementRow row"
    and "sr_eventId res = rg_eventId row"
    and "so_expectedUpdatedAt o' \<noteq> None \<longrightarrow> so_expectedUpdatedAt o' = Some (rg_updatedAt row)"
    and rec: "recomputeRegistrationSponsorship i (or_stored (so_priceBreakdown o') (rg_priceBreakdown row))
      (or_stored (so_keepUnlinkedSponsorship o') True) s = Inr ((sp, cov), s1)"
    and nb: "netBreakdown icu (or_stored (so_priceBreakdown o') (rg_priceBreakdown row)) sp = Inr pb"
    and "ss_totalAmount (sr_after res) = (case so_totalAmount o' of Some t \<Rightarrow> t
      | None \<Rightarrow> if so_priceBreakdown o' \<noteq> None then pb_subtotal pb else rg_totalAmount row)"
    and "ss_sponsorshipAmount (sr_after res) = sp" and pb: "ss_priceBreakdown (sr_after res) = pb"
    and "so_decide o' \<noteq> None \<longrightarrow> net = ss_totalAmount (sr_after res) - sp"
    and "chosen_decision o' \<lparr>di_before = sr_before res, di_gross = ss_totalAmount (sr_after res),
      di_sponsorship = sp, di_net = max 0 net\<rparr> = Inr chosen"
    and paid: "ss_paidAmount (sr_after res) = or_stored (sd_paidAmount chosen) (rg_paidAmount row)"
    and "decided_status chosen (sr_before res) (ss_totalAmount (sr_after res)) sp
      (ss_paidAmount (sr_after res)) (or_stored (so_now o') (db_clock s1))
      = Inr (ss_paymentStatus (sr_after res), ss_paidAt (sr_after res))"
    and cov: "sr_coveredAccessIds res = cov"
    and delta: "applyPaidAccessDelta (paid_before o' (sr_before res) cov) (paid_after (sr_after res) cov) s1
      = Inr (sr_paidAccess res, s2)"
    and w: "w = changed_columns (so_priceBreakdown o' \<noteq> None) (sr_before res) (sr_after res) (sd_paidAmount chosen)"
    and wr: "empty_write w \<and> no_field_keys (so_fields o') \<and> s' = s2 \<or>
      (\<exists>b. applyRegistrationSettlement i w (so_fields o') None s2 = Inr (b, s'))"
    by (rule settle_InrE)
  define u where "u = recomputed_row (or_stored (so_priceBreakdown o') (rg_priceBreakdown row)) (findRegistrationUsagesForRecalc s i)"
  have ids: "distinct (map us_id (db_usages s))" "distinct (map rg_id (db_registrations s))"
    using wf by (simp_all add: db_wf_def)
  have s1: "s1 = s\<lparr>db_usages := map u (db_usages s)\<rparr>"
    using recompute_Inr[OF ids(1) rec] by (simp add: u_def)
  obtain a where s2: "s2 = s\<lparr>db_usages := map u (db_usages s), db_accesses := a\<rparr>"
    and a: "map ea_id a = map ea_id (db_accesses s)"
    using applyPaidAccessDelta_frame[OF delta] s1 by auto
  have cov2: "cov = covered_by (findRegistrationUsagesForRecalc s i)"
    using recompute_Inr[OF ids(1) rec] by (simp add: covered_by_def coverages_def comp_def)
  have delta2: "applyPaidAccessDelta (paid_before o' (sr_before res) (sr_coveredAccessIds res))
      (paid_after (sr_after res) (sr_coveredAccessIds res)) (s\<lparr>db_usages := map u (db_usages s)\<rparr>)
      = Inr (sr_paidAccess res, s\<lparr>db_usages := map u (db_usages s), db_accesses := a\<rparr>)"
    using delta by (simp add: s1 s2 cov)
  have same: "same_breakdown (rg_priceBreakdown row) pb \<or> so_priceBreakdown o' \<noteq> None
      \<or> pb_sponsorshipTotal (rg_priceBreakdown row) \<noteq> pb_sponsorshipTotal pb
      \<or> pb_total (rg_priceBreakdown row) \<noteq> pb_total pb"
    using netBreakdown_same[OF nb] by (cases "so_priceBreakdown o'") (auto simp: or_stored_def)
  from wr show ?thesis
  proof
    assume e: "empty_write w \<and> no_field_keys (so_fields o') \<and> s' = s2"
    have st: "stores row (sr_after res)"
      using empty_write_stores[OF same pb paid] e by (simp add: w bef)
    show ?thesis
      by (rule that[of row "\<lambda>r. r" u a, OF row bef _ st _ _ _ _ _ u_def _ a delta2])
        (use row e cov cov2 in \<open>simp_all add: s2 registration_of_def
            update_rows_id or_stored_def no_field_keys_def\<close>)
  next
    assume "\<exists>b. applyRegistrationSettlement i w (so_fields o') None s2 = Inr (b, s')"
    then obtain b where ap: "applyRegistrationSettlement i w (so_fields o') None s2 = Inr (b, s')" ..
    have row2: "registration_of s2 i = Some row" using row by (simp add: s2 registration_of_def)
    then have b: "b" using ap applyRegistrationSettlement_missing[of i w "so_fields o'" s2 s'] by (cases b) auto
    have ids2: "distinct (map rg_id (db_registrations s2))" using ids by (simp add: s2)
    from ids2 ap[unfolded iffD2[OF eq_True b]] obtain c r where c: "build_set w (so_fields o') = Inr c"
      and r: "registration_of s2 i = Some r"
      and "None \<noteq> (None :: date option) \<longrightarrow> None = Some (rg_updatedAt r)"
      and r': "registration_of s' i = Some (set_columns c (db_clock s2) r)"
      and "\<And>j. j \<noteq> i \<Longrightarrow> registration_of s' j = registration_of s2 j"
      and regs: "db_registrations s' = update_rows (row_hit i None) (set_columns c (db_clock s2)) (db_registrations s2)"
      and s': "s' = s2\<lparr>db_registrations := db_registrations s'\<rparr>"
      and "settlementInvariantViolations (set_columns c (db_clock s2) r)
          (filter (column_written c) SETTLEMENT_COLUMNS) = Inr []"
      and "\<And>col. column_written c col \<Longrightarrow> col \<in> set AMOUNT_COLUMNS \<Longrightarrow> \<not> bad_amount c col"
      by (rule applyRegistrationSettlement_row) blast
    have rr: "r = row" using r row2 by simp
    note bs = build_set_Inr[OF c]
    have st: "stores (set_columns c (db_clock s2) row) (sr_after res)"
      by (rule changed_columns_stores[OF same pb paid]) (use bs in \<open>simp add: w bef\<close>)
    have s'': "s' = s\<lparr>db_registrations := update_rows (\<lambda>r. rg_id r = i) (set_columns c (db_clock s2)) (db_registrations s),
        db_accesses := a, db_usages := map u (db_usages s)\<rparr>"
      by (subst s') (simp add: regs s2 row_hit_None)
    show ?thesis
      by (rule that[OF row bef _ st _ _ _ _ s'' u_def _ a delta2])
        (use r' bs cov cov2 in \<open>simp_all add: rr set_columns_def Let_def\<close>)
  qed
qed

lemma recalc_mem:
  "r \<in> set (db_usages s) \<Longrightarrow> us_registrationId r = Some i \<Longrightarrow> sponsorship_of s (us_sponsorshipId r) = Some c \<Longrightarrow>
    \<lparr>ur_id = us_id r, ur_amountApplied = us_amountApplied r, ur_sponsorship = coverage_of c\<rparr>
      \<in> set (findRegistrationUsagesForRecalc s i)"
  by (force simp: findRegistrationUsagesForRecalc_def)

lemma sponsorship_of_cong: "db_sponsorships s' = db_sponsorships s \<Longrightarrow> sponsorship_of s' i = sponsorship_of s i"
  by (simp add: sponsorship_of_def)

lemma coverages_map_usages:
  assumes "db_usages s' = map u (db_usages s)" and "db_sponsorships s' = db_sponsorships s"
    and "\<And>r. us_registrationId (u r) = us_registrationId r"
    and "\<And>r. us_sponsorshipId (u r) = us_sponsorshipId r"
  shows "coverages s' i = coverages s i"
proof -
  have "map ur_sponsorship (concat (map (\<lambda>u. case sponsorship_of s' (us_sponsorshipId u) of
        None \<Rightarrow> []
      | Some r \<Rightarrow> [\<lparr>ur_id = us_id u, ur_amountApplied = us_amountApplied u,
                    ur_sponsorship = coverage_of r\<rparr>])
      (filter (\<lambda>u. us_registrationId u = Some i) (map u us)))) =
    map ur_sponsorship (concat (map (\<lambda>u. case sponsorship_of s (us_sponsorshipId u) of
        None \<Rightarrow> []
      | Some r \<Rightarrow> [\<lparr>ur_id = us_id u, ur_amountApplied = us_amountApplied u,
                    ur_sponsorship = coverage_of r\<rparr>])
      (filter (\<lambda>u. us_registrationId u = Some i) us)))" for us
    unfolding sponsorship_of_cong[OF assms(2)]
    by (induction us) (auto simp: assms(3,4) split: option.splits)
  then show ?thesis
    unfolding coverages_def findRegistrationUsagesForRecalc_def assms(1) .
qed

lemma recomputed_amounts:
  assumes "distinct (map us_id (db_usages s))"
    and s': "db_usages s' = map (recomputed_row pb (findRegistrationUsagesForRecalc s i)) (db_usages s)"
      "db_sponsorships s' = db_sponsorships s"
    and u: "u \<in> set (findRegistrationUsagesForRecalc s' i)"
  shows "ur_amountApplied u = applicable pb (ur_sponsorship u)"
proof -
  let ?us = "findRegistrationUsagesForRecalc s i"
  from u obtain r' c where r': "r' \<in> set (db_usages s')" "us_registrationId r' = Some i"
    and c: "sponsorship_of s' (us_sponsorshipId r') = Some c"
    and ueq: "u = \<lparr>ur_id = us_id r', ur_amountApplied = us_amountApplied r', ur_sponsorship = coverage_of c\<rparr>"
    by (rule recalc_usage)
  from r'(1) s' obtain r where r: "r \<in> set (db_usages s)" "r' = recomputed_row pb ?us r" by auto
  let ?u0 = "\<lparr>ur_id = us_id r, ur_amountApplied = us_amountApplied r, ur_sponsorship = coverage_of c\<rparr>"
  have "?u0 \<in> set ?us"
    using recalc_mem[OF r(1)] r'(2) c r(2)
    by (simp add: sponsorship_of_cong[OF s'(2)])
  from row_of_distinct[OF recalc_distinct[OF assms(1)] this]
  have "find (\<lambda>u. ur_id u = us_id r) ?us = Some ?u0" by (simp add: row_of_def)
  then show ?thesis by (simp add: ueq r(2) recomputed_row_def)
qed

lemma decided_status_derived:
  assumes "decided_status chosen before t sp p now = Inr (st, pa)" and "sd_paymentStatus chosen = None"
  shows "st = settled_status \<lparr>si_gross = t, si_sponsorship = sp, si_paid = p,
      si_currentStatus = ss_paymentStatus before, si_paidAt = ss_paidAt before, si_now = now\<rparr>"
  using assms by (auto simp: decided_status_def sbind_Inr_iff elim!: deriveSettlement_InrE)

lemma settle_amounts:
  assumes "db_wf s" and "settleRegistrationTxn icu i options s = Inr (Some res, s')"
    and "sr_written res" and "registration_of s i = Some row"
    and "gb = or_stored (so_priceBreakdown options) (rg_priceBreakdown row)"
  shows "sr_before res = readSettlementRow row \<and> ss_sponsorshipAmount (sr_after res) =
      min ((if coverages s i = [] \<and> or_stored (so_keepUnlinkedSponsorship options) True
            then pb_sponsorshipTotal gb else 0) + (\<Sum>c\<leftarrow>coverages s i. applicable gb c))
        (max 0 (min (pb_subtotal gb)
          (pb_calculatedBasePrice gb + sum_list (map li_subtotal (pb_accessItems gb))))) \<and>
    (so_decide options = None \<and> so_paymentStatus options = None \<longrightarrow>
      ss_paymentStatus (sr_after res) = settled_status
        \<lparr>si_gross = ss_totalAmount (sr_after res), si_sponsorship = ss_sponsorshipAmount (sr_after res),
         si_paid = ss_paidAmount (sr_after res), si_currentStatus = rg_paymentStatus row,
         si_paidAt = rg_paidAt row, si_now = or_stored (so_now options) (db_clock s)\<rparr>)"
proof -
  from assms(2,3) obtain row2 sp cov s1 pb net chosen s2 w where
    row: "registration_of s i = Some row2" and bef: "sr_before res = readSettlementRow row2"
    and "sr_eventId res = rg_eventId row2"
    and "so_expectedUpdatedAt options \<noteq> None \<longrightarrow> so_expectedUpdatedAt options = Some (rg_updatedAt row2)"
    and rec: "recomputeRegistrationSponsorship i (or_stored (so_priceBreakdown options) (rg_priceBreakdown row2))
      (or_stored (so_keepUnlinkedSponsorship options) True) s = Inr ((sp, cov), s1)"
    and "netBreakdown icu (or_stored (so_priceBreakdown options) (rg_priceBreakdown row2)) sp = Inr pb"
    and "ss_totalAmount (sr_after res) = (case so_totalAmount options of Some t \<Rightarrow> t
      | None \<Rightarrow> if so_priceBreakdown options \<noteq> None then pb_subtotal pb else rg_totalAmount row2)"
    and sp: "ss_sponsorshipAmount (sr_after res) = sp" and "ss_priceBreakdown (sr_after res) = pb"
    and "so_decide options \<noteq> None \<longrightarrow> net = ss_totalAmount (sr_after res) - sp"
    and ch: "chosen_decision options \<lparr>di_before = sr_before res, di_gross = ss_totalAmount (sr_after res),
      di_sponsorship = sp, di_net = max 0 net\<rparr> = Inr chosen"
    and "ss_paidAmount (sr_after res) = or_stored (sd_paidAmount chosen) (rg_paidAmount row2)"
    and dec: "decided_status chosen (sr_before res) (ss_totalAmount (sr_after res)) sp
      (ss_paidAmount (sr_after res)) (or_stored (so_now options) (db_clock s1))
      = Inr (ss_paymentStatus (sr_after res), ss_paidAt (sr_after res))"
    by (rule settle_InrE)
  have same: "row2 = row" using row assms(4) by simp
  have "distinct (map us_id (db_usages s))" using assms(1) by (simp add: db_wf_def)
  note rc = recompute_Inr[OF this rec[unfolded same assms(5)[symmetric]]]
  have clock: "db_clock s1 = db_clock s" using rc by simp
  have "ss_paymentStatus (sr_after res) = settled_status
        \<lparr>si_gross = ss_totalAmount (sr_after res), si_sponsorship = ss_sponsorshipAmount (sr_after res),
         si_paid = ss_paidAmount (sr_after res), si_currentStatus = rg_paymentStatus row,
         si_paidAt = rg_paidAt row, si_now = or_stored (so_now options) (db_clock s)\<rparr>"
    if "so_decide options = None \<and> so_paymentStatus options = None"
  proof -
    from ch that have "sd_paymentStatus chosen = None" by (auto simp: chosen_decision_def)
    from decided_status_derived[OF dec this] show ?thesis
      by (simp add: sp bef same clock readSettlementRow_def)
  qed
  then show ?thesis using rc sp bef same by simp
qed

text \<open>
  C4: A settlement stores exactly the state it returns (the breakdown up to its money snapshot):
  the sponsorship is the sum of what each linked usage pays of the breakdown it settles with (or
  the signup code's amount when none is linked), capped by the sponsorship limit; every usage row
  stores its recomputed amount; without an explicit status the status is the derived one; and no
  other registration changes.
\<close>

theorem settleRegistrationTxn_stores:
  assumes "db_wf s" and "settleRegistrationTxn icu i options s = Inr (Some res, s')"
    and "sr_written res"
  shows "\<exists>row r' gb. registration_of s i = Some row \<and> registration_of s' i = Some r' \<and>
    gb = or_stored (so_priceBreakdown options) (rg_priceBreakdown row) \<and>
    sr_before res = readSettlementRow row \<and> stores r' (sr_after res) \<and>
    ss_sponsorshipAmount (sr_after res) =
      min ((if coverages s i = [] \<and> or_stored (so_keepUnlinkedSponsorship options) True
            then pb_sponsorshipTotal gb else 0) + (\<Sum>c\<leftarrow>coverages s i. applicable gb c))
        (max 0 (min (pb_subtotal gb)
          (pb_calculatedBasePrice gb + sum_list (map li_subtotal (pb_accessItems gb))))) \<and>
    (\<forall>u \<in> set (findRegistrationUsagesForRecalc s' i). ur_amountApplied u = applicable gb (ur_sponsorship u)) \<and>
    (so_decide options = None \<and> so_paymentStatus options = None \<longrightarrow>
      ss_paymentStatus (sr_after res) = settled_status
        \<lparr>si_gross = ss_totalAmount (sr_after res), si_sponsorship = ss_sponsorshipAmount (sr_after res),
         si_paid = ss_paidAmount (sr_after res), si_currentStatus = rg_paymentStatus row,
         si_paidAt = rg_paidAt row, si_now = or_stored (so_now options) (db_clock s)\<rparr>) \<and>
    (\<forall>j. j \<noteq> i \<longrightarrow> registration_of s' j = registration_of s j)"
proof -
  obtain row f a u where row: "registration_of s i = Some row"
    and "sr_before res = readSettlementRow row" and f: "\<And>r. rg_id (f r) = rg_id r"
    and st: "stores (f row) (sr_after res)" and r': "registration_of s' i = Some (f row)"
    and "rg_eventId (f row) = rg_eventId row"
    and "rg_sponsorshipCode (f row) = or_stored (fp_sponsorshipCode (so_fields options)) (rg_sponsorshipCode row)"
    and "rg_accessTypeIds (f row) = or_stored (fp_accessTypeIds (so_fields options)) (rg_accessTypeIds row)"
    and s': "s' = s\<lparr>db_registrations := update_rows (\<lambda>r. rg_id r = i) f (db_registrations s),
      db_accesses := a, db_usages := map u (db_usages s)\<rparr>"
    and u: "u = recomputed_row (or_stored (so_priceBreakdown options) (rg_priceBreakdown row))
      (findRegistrationUsagesForRecalc s i)"
    and "sr_coveredAccessIds res = covered_by (findRegistrationUsagesForRecalc s i)"
    and "map ea_id a = map ea_id (db_accesses s)"
    and "applyPaidAccessDelta (paid_before options (sr_before res) (sr_coveredAccessIds res))
      (paid_after (sr_after res) (sr_coveredAccessIds res)) (s\<lparr>db_usages := map u (db_usages s)\<rparr>)
      = Inr (sr_paidAccess res, s\<lparr>db_usages := map u (db_usages s), db_accesses := a\<rparr>)"
    by (rule settle_effect[OF assms]) blast
  have ids: "distinct (map us_id (db_usages s))" using assms(1) by (simp add: db_wf_def)
  let ?gb = "or_stored (so_priceBreakdown options) (rg_priceBreakdown row)"
  have am: "ur_amountApplied v = applicable ?gb (ur_sponsorship v)"
    if "v \<in> set (findRegistrationUsagesForRecalc s' i)" for v
    by (rule recomputed_amounts[OF ids _ _ that]) (simp_all add: s' u)
  have others: "registration_of s' j = registration_of s j" if "j \<noteq> i" for j
    using row_of_update_other[of rg_id f j i] f that by (simp add: registration_of_def s')
  show ?thesis
    by (rule exI[of _ row], rule exI[of _ "f row"], rule exI[of _ ?gb])
      (intro conjI row r' refl st ballI allI impI am others;
       use settle_amounts[OF assms row refl] in blast)
qed

text \<open>Two sponsorships of the registration \<open>r1\<close>: one linked, one still pending.\<close>

definition ex_sponsorship :: "string \<Rightarrow> sponsorship_status \<Rightarrow> sponsorship_row" where
  "ex_sponsorship i st = \<lparr>sp_id = i, sp_eventId = ''ev'', sp_code = ''SP-'' @ i, sp_status = st,
    sp_targetRegistrationId = None, sp_totalAmount = 60000, sp_coversBasePrice = False,
    sp_coveredAccessIds = Some [''ws''],
    sp_batchId = ''b1'', sp_beneficiaryName = ''Ada'', sp_beneficiaryEmail = ''ada@x.org'',
    sp_beneficiaryPhone = None, sp_beneficiaryAddress = None, sp_createdAt = 0\<rparr>"

definition ex_usage :: "money \<Rightarrow> usage_row" where
  "ex_usage amount = \<lparr>us_id = ''u0'', us_sponsorshipId = ''s1'', us_registrationId = Some ''r1'',
    us_amountApplied = amount, us_appliedBy = ''admin''\<rparr>"

definition ex_icu :: "string \<Rightarrow> nat option" where
  "ex_icu c = Some 3"

definition ex_settled :: "settle_result" where
  "ex_settled = \<lparr>sr_written = True, sr_eventId = ''ev'', sr_before = readSettlementRow ex_reg,
    sr_after = \<lparr>ss_paymentStatus = PAID, ss_paidAt = Some 1000, ss_paidAmount = 100000,
      ss_totalAmount = 150000, ss_sponsorshipAmount = 50000,
      ss_priceBreakdown = ex_breakdown\<lparr>pb_sponsorshipTotal := 50000, pb_total := 100000\<rparr>\<rparr>,
    sr_coveredAccessIds = [''ws''],
    sr_paidAccess = \<lparr>pm_incremented = [''ws''], pm_decremented = []\<rparr>\<rparr>"

definition ex_settled_db :: "db" where
  "ex_settled_db = (ex_db [ex_reg\<lparr>rg_paymentStatus := PAID, rg_paidAt := Some 1000,
      rg_paidAmount := 100000, rg_sponsorshipAmount := 50000, rg_updatedAt := 1000,
      rg_priceBreakdown := ex_breakdown\<lparr>pb_sponsorshipTotal := 50000, pb_total := 100000\<rparr>\<rparr>] 3)
    \<lparr>db_sponsorships := [ex_sponsorship ''s1'' Sp_used], db_usages := [ex_usage 50000]\<rparr>"

definition ex_unsettled_db :: "db" where
  "ex_unsettled_db = (ex_db [ex_reg] 1)
    \<lparr>db_sponsorships := [ex_sponsorship ''s1'' Sp_used], db_usages := [ex_usage 0]\<rparr>"

lemma ex_settle_run:
  "settleRegistrationTxn ex_icu ''r1'' (no_options\<lparr>so_paidAmount := Some 100000\<rparr>) ex_unsettled_db =
    Inr (Some ex_settled, ex_settled_db)"
  by code_simp

lemma ex_unsettled_wf: "db_wf ex_unsettled_db"
  by (simp add: db_wf_def ex_unsettled_db_def ex_db_def accesses_wf_def)

theorem settleRegistrationTxn_stores_witness:
  "\<exists>r'. registration_of ex_settled_db ''r1'' = Some r' \<and> stores r' (sr_after ex_settled) \<and>
    (\<forall>u \<in> set (findRegistrationUsagesForRecalc ex_settled_db ''r1'').
      ur_amountApplied u = applicable ex_breakdown (ur_sponsorship u)) \<and>
    applicable ex_breakdown (coverage_of (ex_sponsorship ''s1'' Sp_used)) = 50000"
proof -
  have w: "sr_written ex_settled" by (simp add: ex_settled_def)
  have b: "registration_of ex_unsettled_db ''r1'' = Some ex_reg"
    "applicable ex_breakdown (coverage_of (ex_sponsorship ''s1'' Sp_used)) = 50000"
    by code_simp+
  from settleRegistrationTxn_stores[OF ex_unsettled_wf ex_settle_run w] b show ?thesis
    by (auto simp: or_stored_def no_options_def ex_reg_def)
qed

end
