(* ===== verification/SponsorshipLink.thy ===== *)
theory SponsorshipLink
  imports Settle
begin

text \<open>
  \<open>packages/db/src/settlement/sponsorship-code.ts\<close> and \<open>sponsorship-link.ts\<close>: consuming a
  sponsorship code, linking and unlinking a sponsorship, releasing it, changing its coverage and
  removing a registration's usages. Each function locks, checks from the locked rows, changes the
  usages and settles the registrations it touched. A refusal is a thrown error, so the caller's
  transaction keeps the state it had.
\<close>

section \<open>Sponsorship codes\<close>

text \<open>\<open>LinkableSponsorship\<close> has the columns of the row; the covered items default to none.\<close>

definition readLinkableSponsorship :: "db \<Rightarrow> string \<Rightarrow> sponsorship_row option" where
  "readLinkableSponsorship s i =
    map_option (\<lambda>r. r\<lparr>sp_coveredAccessIds := Some (covered_ids r)\<rparr>) (sponsorship_of s i)"

definition countSponsorshipUsages :: "db \<Rightarrow> string \<Rightarrow> nat" where
  "countSponsorshipUsages s i = length (filter (\<lambda>u. us_sponsorshipId u = i) (db_usages s))"

text \<open>SQL \<open>trim\<close> removes spaces only, \<open>String.trim\<close> all white space.\<close>

definition sql_trim :: "string \<Rightarrow> string" where
  "sql_trim s = rev (dropWhile (\<lambda>c. c = CHR '' '') (rev (dropWhile (\<lambda>c. c = CHR '' '') s)))"

text \<open>Registrations are ordered by creation, then id.\<close>

definition claims_code :: "string \<Rightarrow> string \<Rightarrow> registration_row \<Rightarrow> bool" where
  "claims_code eventId code r \<longleftrightarrow> rg_eventId r = eventId \<and>
    (case rg_sponsorshipCode r of None \<Rightarrow> False
     | Some c \<Rightarrow> c = code \<or> to_upper (sql_trim c) = code)"

definition findSponsorshipCodeClaimants ::
  "db \<Rightarrow> string \<Rightarrow> string \<Rightarrow> nat option \<Rightarrow> (string \<times> date) list" where
  "findSponsorshipCodeClaimants s eventId code limit =
    (let rows = map (\<lambda>r. (rg_id r, rg_createdAt r))
           (sort_key rg_createdAt (sort_key rg_id
             (filter (claims_code eventId code) (db_registrations s))))
     in case limit of None \<Rightarrow> rows | Some n \<Rightarrow> take n rows)"

datatype unavailable_reason = Reason_used | Reason_targeted | Reason_linked | Reason_claimed

datatype code_claim =
  Claim_invalid
| Claim_used unavailable_reason string
| Claim_available sponsorship_row

definition claimSponsorshipCodeTxn :: "string \<Rightarrow> string \<Rightarrow> db \<Rightarrow> code_claim" where
  "claimSponsorshipCodeTxn eventId code s =
    (case lockSponsorshipByCodeForUpdate s eventId code of
       None \<Rightarrow> Claim_invalid
     | Some sponsorshipId \<Rightarrow>
        (case readLinkableSponsorship s sponsorshipId of
           None \<Rightarrow> Claim_invalid
         | Some sponsorship \<Rightarrow>
            if sp_status sponsorship = Sp_cancelled then Claim_invalid
            else if sp_status sponsorship = Sp_used then Claim_used Reason_used sponsorshipId
            else if sp_targetRegistrationId sponsorship \<noteq> None then Claim_used Reason_targeted sponsorshipId
            else if 0 < countSponsorshipUsages s sponsorshipId then Claim_used Reason_linked sponsorshipId
            else if 0 < length (findSponsorshipCodeClaimants s eventId code (Some 1))
            then Claim_used Reason_claimed sponsorshipId
            else Claim_available sponsorship))"

definition sponsorshipAmountFor :: "sponsorship_coverage \<Rightarrow> price_breakdown \<Rightarrow> error + money" where
  "sponsorshipAmountFor c pb = calculateApplicableAmount c (calculation_of pb)"

definition linkSponsorshipUsageTxn ::
  "sponsorship_row \<Rightarrow> string \<Rightarrow> price_breakdown \<Rightarrow> string \<Rightarrow> db \<Rightarrow> error + usage_row \<times> db" where
  "linkSponsorshipUsageTxn sponsorship registrationId pb appliedBy s =
    sbind (sponsorshipAmountFor (coverage_of sponsorship) pb) (\<lambda>amount.
    sbind (insertUsage (sp_id sponsorship) registrationId amount appliedBy s) (\<lambda>(usage, s1).
    (case casSetSponsorshipUsed (sp_id sponsorship) s1 of (updated, s2) \<Rightarrow>
      if updated \<noteq> 1 then Inl (Plain_error ''Sponsorship could not be set USED'') else Inr (usage, s2))))"

section \<open>Guards and refusals\<close>

definition LINK_REFUSED_STATUSES :: "payment_status list" where
  "LINK_REFUSED_STATUSES = [PAID, WAIVED, REFUNDED]"

definition linkedRegistrationIds :: "db \<Rightarrow> string \<Rightarrow> string list" where
  "linkedRegistrationIds s sponsorshipId =
    sort (uniq (concat (map (\<lambda>u. case us_registrationId u of None \<Rightarrow> [] | Some r \<Rightarrow> [r])
      (filter (\<lambda>u. us_sponsorshipId u = sponsorshipId) (db_usages s)))))"

definition coveredAccessIdsOf :: "db \<Rightarrow> string \<Rightarrow> string list" where
  "coveredAccessIdsOf s registrationId = covered_by (findRegistrationUsagesForRecalc s registrationId)"

definition guardSponsorshipChange ::
  "settlement_decision_input \<Rightarrow> error + settlement_decision option" where
  "guardSponsorshipChange state =
    (let before = di_before state in
     if di_sponsorship state = ss_sponsorshipAmount before then Inr None
     else if ss_paymentStatus before = PAID then Inl (SponsorshipSettlement TARGET_SETTLED)
     else if ss_sponsorshipAmount before < di_sponsorship state \<and> di_net state < ss_paidAmount before
     then Inl (SponsorshipSettlement EXCEEDS_AMOUNT_DUE)
     else Inr None)"

text \<open>\<open>None\<close> is no refusal; the checks themselves may throw.\<close>

definition sponsorshipLinkRefusal ::
  "db \<Rightarrow> sponsorship_coverage \<Rightarrow> registration_row \<Rightarrow> error + refusal option" where
  "sponsorshipLinkRefusal s coverage target =
    (if rg_paymentStatus target \<in> set LINK_REFUSED_STATUSES then Inr (Some TARGET_SETTLED)
     else
      (let pb = rg_priceBreakdown target in
       sbind (sponsorshipAmountFor coverage pb) (\<lambda>amount.
       if amount = 0 \<and> 0 < sc_totalAmount coverage then Inr (Some NOT_APPLICABLE)
       else
        sbind (smap (\<lambda>usage. sponsorshipAmountFor (ur_sponsorship usage) pb)
            (findRegistrationUsagesForRecalc s (rg_id target))) (\<lambda>others.
        sbind (sumMoney (amount # others)) (\<lambda>total.
        sbind (sponsorshipLimit pb) (\<lambda>limit.
        sbind (subtractMoney (rg_totalAmount target) (min total limit)) (\<lambda>rest.
        Inr (if max 0 rest < rg_paidAmount target then Some EXCEEDS_AMOUNT_DUE else None))))))))"

definition refuse :: "refusal \<Rightarrow> error + 'a" where
  "refuse r = Inl (SponsorshipSettlement r)"

text \<open>A settlement whose missing registration is a refusal.\<close>

definition settle_or_refuse ::
  "(string \<Rightarrow> nat option) \<Rightarrow> refusal \<Rightarrow> string \<Rightarrow> settle_options \<Rightarrow> db \<Rightarrow> error + settle_result \<times> db" where
  "settle_or_refuse icu r registrationId options s =
    sbind (settleRegistrationTxn icu registrationId options s) (\<lambda>(settled, s').
    case settled of None \<Rightarrow> refuse r | Some res \<Rightarrow> Inr (res, s'))"

section \<open>Linking\<close>

record link_result =
  lr_sponsorship :: sponsorship_row
  lr_usage :: usage_row
  lr_settled :: settle_result

definition linkSponsorshipToRegistrationTxn ::
  "(string \<Rightarrow> nat option) \<Rightarrow> string \<Rightarrow> string \<Rightarrow> string \<Rightarrow> fields_patch \<Rightarrow> db \<Rightarrow> error + link_result \<times> db" where
  "linkSponsorshipToRegistrationTxn icu sponsorshipId registrationId appliedBy patch s =
    (if \<not> lockSponsorshipForUpdate s sponsorshipId then refuse SPONSORSHIP_NOT_FOUND
     else case readLinkableSponsorship s sponsorshipId of
       None \<Rightarrow> refuse SPONSORSHIP_NOT_FOUND
     | Some sponsorship \<Rightarrow>
        if sp_status sponsorship = Sp_cancelled then refuse SPONSORSHIP_CANCELLED
        else if \<not> lockRegistrationForUpdate s registrationId then refuse REGISTRATION_NOT_FOUND
        else case registration_of s registrationId of
          None \<Rightarrow> refuse REGISTRATION_NOT_FOUND
        | Some target \<Rightarrow>
           if rg_eventId target \<noteq> sp_eventId sponsorship then refuse EVENT_MISMATCH
           else if findUsage s sponsorshipId registrationId \<noteq> None then refuse ALREADY_LINKED
           else
             sbind (sponsorshipLinkRefusal s (coverage_of sponsorship) target) (\<lambda>refusal.
             case refusal of Some r \<Rightarrow> refuse r
             | None \<Rightarrow>
               (let coveredBefore = coveredAccessIdsOf s registrationId in
                sbind (linkSponsorshipUsageTxn sponsorship registrationId (rg_priceBreakdown target)
                    appliedBy s) (\<lambda>(usage, s1).
                sbind (settle_or_refuse icu REGISTRATION_NOT_FOUND registrationId
                    (no_options\<lparr>so_coveredAccessIdsBefore := Some coveredBefore,
                       so_decide := Some guardSponsorshipChange, so_fields := patch\<rparr>) s1)
                  (\<lambda>(settled, s2).
                Inr (\<lparr>lr_sponsorship = sponsorship, lr_usage = usage, lr_settled = settled\<rparr>, s2))))))"

section \<open>Unlinking\<close>

record unlink_result =
  xr_registrationId :: string
  xr_usage :: usage_row
  xr_settled :: settle_result
  xr_clearedSponsorshipCode :: "string option"
  xr_clearedPaymentMethod :: "payment_method option"

definition cleared_code :: "sponsorship_row \<Rightarrow> registration_row \<Rightarrow> string option" where
  "cleared_code sponsorship target =
    (let code = normalizeSponsorshipCode (Some (sp_code sponsorship)) in
     if code \<noteq> None \<and> normalizeSponsorshipCode (rg_sponsorshipCode target) = code
     then rg_sponsorshipCode target else None)"

definition cleared_method :: "nat \<Rightarrow> registration_row \<Rightarrow> payment_method option" where
  "cleared_method remaining target =
    (if remaining = 0 \<and> rg_paymentMethod target = Some LAB_SPONSORSHIP
     then rg_paymentMethod target else None)"

text \<open>What the settlement after an unlink is asked to do.\<close>

definition unlink_options ::
  "sponsorship_row \<Rightarrow> registration_row \<Rightarrow> nat \<Rightarrow> string list \<Rightarrow> settle_options" where
  "unlink_options sponsorship target remaining coveredBefore =
    (let code = normalizeSponsorshipCode (Some (sp_code sponsorship));
         lines = pb_sponsorships (rg_priceBreakdown target);
         keptLines = filter (\<lambda>line. normalizeSponsorshipCode (Some (sl_code line)) \<noteq> code) lines;
         repriced = (length keptLines \<noteq> length lines)
     in no_options\<lparr>so_coveredAccessIdsBefore := Some coveredBefore,
          so_keepUnlinkedSponsorship := Some False,
          so_priceBreakdown := (if repriced
            then Some ((rg_priceBreakdown target)\<lparr>pb_sponsorships := keptLines\<rparr>) else None),
          so_totalAmount := (if repriced then Some (rg_totalAmount target) else None),
          so_decide := Some guardSponsorshipChange,
          so_fields := no_fields\<lparr>
            fp_sponsorshipCode := (if cleared_code sponsorship target \<noteq> None then Some None else None),
            fp_paymentMethod := (if cleared_method remaining target \<noteq> None then Some None else None)\<rparr>\<rparr>)"

definition unlinkLockedUsage ::
  "(string \<Rightarrow> nat option) \<Rightarrow> sponsorship_row \<Rightarrow> string \<Rightarrow> db \<Rightarrow> error + unlink_result \<times> db" where
  "unlinkLockedUsage icu sponsorship registrationId s =
    (case (findUsage s (sp_id sponsorship) registrationId, registration_of s registrationId) of
       (Some usage, Some target) \<Rightarrow>
        (let coveredBefore = coveredAccessIdsOf s registrationId;
             s1 = deleteUsage (us_id usage) s;
             remaining = length (findRegistrationUsagesForRecalc s1 registrationId)
         in sbind (settle_or_refuse icu NOT_LINKED registrationId
              (unlink_options sponsorship target remaining coveredBefore) s1) (\<lambda>(settled, s2).
            Inr (\<lparr>xr_registrationId = registrationId, xr_usage = usage, xr_settled = settled,
                  xr_clearedSponsorshipCode = cleared_code sponsorship target,
                  xr_clearedPaymentMethod = cleared_method remaining target\<rparr>, s2)))
     | _ \<Rightarrow> refuse NOT_LINKED)"

definition settleSponsorshipStatusTxn ::
  "string \<Rightarrow> sponsorship_status \<Rightarrow> db \<Rightarrow> (sponsorship_status \<times> sponsorship_status) \<times> db" where
  "settleSponsorshipStatusTxn i status s =
    (if status = Sp_cancelled then ((Sp_cancelled, Sp_cancelled), s)
     else
      (let after = (if 0 < countSponsorshipUsages s i then Sp_used else Sp_pending) in
       ((status, after),
        if after \<noteq> status then updateSponsorshipRow i (\<lambda>r. r\<lparr>sp_status := after\<rparr>) s else s)))"

definition unlinkSponsorshipFromRegistrationTxn ::
  "(string \<Rightarrow> nat option) \<Rightarrow> string \<Rightarrow> string \<Rightarrow> db
    \<Rightarrow> error + (unlink_result \<times> (sponsorship_status \<times> sponsorship_status)) \<times> db" where
  "unlinkSponsorshipFromRegistrationTxn icu sponsorshipId registrationId s =
    (case (if lockSponsorshipForUpdate s sponsorshipId
           then readLinkableSponsorship s sponsorshipId else None) of
       None \<Rightarrow> refuse NOT_LINKED
     | Some sponsorship \<Rightarrow>
        if \<not> lockRegistrationForUpdate s registrationId then refuse NOT_LINKED
        else
          sbind (unlinkLockedUsage icu sponsorship registrationId s) (\<lambda>(unlinked, s1).
          (case settleSponsorshipStatusTxn (sp_id sponsorship) (sp_status sponsorship) s1 of
             (change, s2) \<Rightarrow> Inr ((unlinked, change), s2))))"

text \<open>The loop of \<open>releaseSponsorshipTxn\<close>, one locked registration after the other.\<close>

definition release_step ::
  "(string \<Rightarrow> nat option) \<Rightarrow> sponsorship_row \<Rightarrow> string \<Rightarrow> unlink_result list \<times> db
    \<Rightarrow> error + unlink_result list \<times> db" where
  "release_step icu sponsorship registrationId st =
    (case st of (done, s) \<Rightarrow>
      sbind (unlinkLockedUsage icu sponsorship registrationId s) (\<lambda>(r, s').
      Inr (done @ [r], s')))"

definition releaseSponsorshipTxn ::
  "(string \<Rightarrow> nat option) \<Rightarrow> string \<Rightarrow> db
    \<Rightarrow> error + (sponsorship_row \<times> unlink_result list) option \<times> db" where
  "releaseSponsorshipTxn icu sponsorshipId s =
    (if \<not> lockSponsorshipForUpdate s sponsorshipId then Inr (None, s)
     else case readLinkableSponsorship s sponsorshipId of
       None \<Rightarrow> Inr (None, s)
     | Some sponsorship \<Rightarrow>
        (let locked = lockRegistrationsForUpdate s (linkedRegistrationIds s sponsorshipId) in
         sbind (sfold (release_step icu sponsorship) locked ([], s)) (\<lambda>(unlinked, s').
         Inr (Some (sponsorship, unlinked), s'))))"

section \<open>Coverage changes and registration removal\<close>

text \<open>The new coverage with any other fields of the sponsorship (\<open>patch\<close>, which leaves coverage and status).\<close>

definition set_coverage :: "sponsorship_coverage \<Rightarrow> sponsorship_row \<Rightarrow> sponsorship_row" where
  "set_coverage c r = r\<lparr>sp_coversBasePrice := sc_coversBasePrice c,
    sp_coveredAccessIds := Some (sc_coveredAccessIds c), sp_totalAmount := sc_totalAmount c\<rparr>"

definition coverage_step ::
  "(string \<Rightarrow> nat option) \<Rightarrow> string \<times> string list \<Rightarrow> (string \<times> settle_result) list \<times> db
    \<Rightarrow> error + (string \<times> settle_result) list \<times> db" where
  "coverage_step icu entry st =
    (case (entry, st) of ((registrationId, coveredBefore), (done, s)) \<Rightarrow>
      sbind (settleRegistrationTxn icu registrationId
          (no_options\<lparr>so_coveredAccessIdsBefore := Some coveredBefore,
             so_decide := Some guardSponsorshipChange\<rparr>) s) (\<lambda>(result, s').
      Inr (case result of None \<Rightarrow> done | Some r \<Rightarrow> done @ [(registrationId, r)], s')))"

definition changeSponsorshipCoverageTxn ::
  "(string \<Rightarrow> nat option) \<Rightarrow> string \<Rightarrow> sponsorship_coverage \<Rightarrow> (sponsorship_row \<Rightarrow> sponsorship_row) \<Rightarrow> db
    \<Rightarrow> error + (sponsorship_row \<times> (string \<times> settle_result) list) option \<times> db" where
  "changeSponsorshipCoverageTxn icu sponsorshipId coverage patch s =
    (if \<not> lockSponsorshipForUpdate s sponsorshipId then Inr (None, s)
     else case readLinkableSponsorship s sponsorshipId of
       None \<Rightarrow> Inr (None, s)
     | Some sponsorship \<Rightarrow>
        (let locked = lockRegistrationsForUpdate s (linkedRegistrationIds s sponsorshipId);
             coveredBefore = map (\<lambda>i. (i, coveredAccessIdsOf s i)) locked;
             s1 = updateSponsorshipRow sponsorshipId (set_coverage coverage \<circ> patch) s
         in sbind (sfold (coverage_step icu) coveredBefore ([], s1)) (\<lambda>(settled, s2).
            Inr (Some (sponsorship, settled), s2))))"

definition lockRegistrationSponsorships :: "string \<Rightarrow> db \<Rightarrow> string list" where
  "lockRegistrationSponsorships registrationId s =
    lockSponsorshipsForUpdate s (map snd (findRegistrationUsageLinks s registrationId))"

definition release_status_step ::
  "string \<Rightarrow> (string \<times> sponsorship_status \<times> sponsorship_status) list \<times> db
    \<Rightarrow> (string \<times> sponsorship_status \<times> sponsorship_status) list \<times> db" where
  "release_status_step i st =
    (case st of (done, s) \<Rightarrow>
      (case readLinkableSponsorship s i of
         None \<Rightarrow> (done, s)
       | Some sponsorship \<Rightarrow>
          (case settleSponsorshipStatusTxn (sp_id sponsorship) (sp_status sponsorship) s of
             (change, s') \<Rightarrow> (done @ [(i, change)], s'))))"

definition releaseRegistrationUsagesTxn ::
  "string \<Rightarrow> db \<Rightarrow> (string list \<times> (string \<times> sponsorship_status \<times> sponsorship_status) list) \<times> db" where
  "releaseRegistrationUsagesTxn registrationId s =
    (let links = findRegistrationUsageLinks s registrationId;
         sponsorshipIds = lockSponsorshipsForUpdate s (map snd links);
         coveredAccessIds = coveredAccessIdsOf s registrationId;
         s1 = (if links \<noteq> [] then deleteRegistrationUsages registrationId s else s);
         (statuses, s2) = fold release_status_step sponsorshipIds ([], s1)
     in ((coveredAccessIds, statuses), s2))"

end
