(* ===== verification/Conservation.thy ===== *)
theory Conservation
  imports SponsorshipLink
begin

text \<open>
  The paid counters count paid places: for every access item the stored \<open>paid_count\<close> is the sum,
  over all registrations, of the places each holds by its status, breakdown and sponsorship
  coverage. This theory defines that invariant and proves that settling, linking, unlinking,
  releasing and changing the coverage of sponsorships keep it. The argument is one equation: an
  operation moves the difference between counter and sum by what a registration holds and what its
  settlement was told it held before.
\<close>

section \<open>Counters and places\<close>

definition registration_state :: "db \<Rightarrow> registration_row \<Rightarrow> paid_access_state" where
  "registration_state s r = \<lparr>ps_status = rg_paymentStatus r, ps_priceBreakdown = rg_priceBreakdown r,
    ps_coveredAccessIds = coveredAccessIdsOf s (rg_id r)\<rparr>"

definition places_held :: "db \<Rightarrow> string \<Rightarrow> int" where
  "places_held s k = (\<Sum>r\<leftarrow>db_registrations s. held (registration_state s r) k)"

definition discrepancy :: "db \<Rightarrow> string \<Rightarrow> int" where
  "discrepancy s k = paid_count s k - places_held s k"

definition conserved :: "db \<Rightarrow> bool" where
  "conserved s \<longleftrightarrow> (\<forall>k \<in> ea_id ` set (db_accesses s). discrepancy s k = 0)"

lemma coveredAccessIdsOf_coverages:
  "coveredAccessIdsOf s i = uniq (concat (map sc_coveredAccessIds (coverages s i)))"
  by (simp add: coveredAccessIdsOf_def covered_by_def coverages_def comp_def)

lemma held_cong:
  assumes "ps_status a = ps_status b"
    and "pb_accessItems (ps_priceBreakdown a) = pb_accessItems (ps_priceBreakdown b)"
    and "set (ps_coveredAccessIds a) = set (ps_coveredAccessIds b)"
  shows "held a k = held b k"
  using assms by (auto simp: held_def holds_place_def quantity_of_def)

lemma sum_update_rows:
  fixes h :: "'r \<Rightarrow> int"
  assumes "distinct (map key t)" and "row_of key k t = Some r0" and "\<And>r. key (f r) = key r"
  shows "(\<Sum>r\<leftarrow>update_rows (\<lambda>r. key r = k) f t. h r) = (\<Sum>r\<leftarrow>t. h r) + h (f r0) - h r0"
  using assms(1,2)
proof (induction t)
  case Nil
  then show ?case by simp
next
  case (Cons r t)
  show ?case
  proof (cases "key r = k")
    case True
    with Cons.prems have "r = r0" "k \<notin> key ` set t" by auto
    then have "update_rows (\<lambda>r. key r = k) f t = t" by (intro update_rows_id) auto
    with True \<open>r = r0\<close> show ?thesis by simp
  next
    case False
    with Cons show ?thesis by simp
  qed
qed

lemma sum_rows_one:
  fixes h g :: "'r \<Rightarrow> int"
  assumes "distinct (map key t)" and "row_of key k t = Some r0"
    and "\<And>r. r \<in> set t \<Longrightarrow> key r \<noteq> k \<Longrightarrow> h r = g r"
  shows "(\<Sum>r\<leftarrow>t. h r) = (\<Sum>r\<leftarrow>t. g r) + h r0 - g r0"
  using assms
proof (induction t)
  case Nil
  then show ?case by simp
next
  case (Cons r t)
  show ?case
  proof (cases "key r = k")
    case True
    with Cons.prems(1,2) have r: "r = r0" and k: "k \<notin> key ` set t" by auto
    have "(\<Sum>x\<leftarrow>t. h x) = (\<Sum>x\<leftarrow>t. g x)"
      using Cons.prems(3) k by (intro arg_cong[where f = sum_list] map_cong) auto
    with r show ?thesis by simp
  next
    case False
    then show ?thesis using Cons.IH Cons.prems by simp
  qed
qed

section \<open>One settlement\<close>

text \<open>
  A settlement moves the counters by what the registration holds after minus what it was said to
  hold before, and the sum of places by what it holds after minus what it really held; nothing else
  the invariant reads moves.
\<close>

definition moved :: "settle_options \<Rightarrow> string \<Rightarrow> registration_row \<Rightarrow> db \<Rightarrow> db \<Rightarrow> bool" where
  "moved o' i row s s' \<longleftrightarrow> registration_of s i = Some row \<and> db_wf s' \<and> accesses_ok s' \<and>
    map ea_id (db_accesses s') = map ea_id (db_accesses s) \<and>
    map rg_id (db_registrations s') = map rg_id (db_registrations s) \<and>
    map us_id (db_usages s') = map us_id (db_usages s) \<and>
    db_sponsorships s' = db_sponsorships s \<and> db_ids s' = db_ids s \<and>
    (\<forall>j. coverages s' j = coverages s j) \<and>
    (\<forall>j. j \<noteq> i \<longrightarrow> registration_of s' j = registration_of s j) \<and>
    map_option rg_eventId (registration_of s' i) = map_option rg_eventId (registration_of s i) \<and>
    (\<forall>j. countSponsorshipUsages s' j = countSponsorshipUsages s j) \<and>
    (\<forall>j. linkedRegistrationIds s' j = linkedRegistrationIds s j) \<and>
    (\<forall>k. discrepancy s' k = discrepancy s k + held (registration_state s row) k
      - held (paid_before o' (readSettlementRow row) (coveredAccessIdsOf s i)) k)"

lemma settle_discrepancy:
  assumes wf: "db_wf s" and ok: "accesses_ok s"
    and run: "settleRegistrationTxn icu i o' s = Inr (Some res, s')" and written: "sr_written res"
  obtains row where "moved o' i row s s'"
proof -
  obtain row f a u where row: "registration_of s i = Some row"
    and bef: "sr_before res = readSettlementRow row" and f: "\<And>r. rg_id (f r) = rg_id r"
    and st: "stores (f row) (sr_after res)" and r': "registration_of s' i = Some (f row)"
    and ev: "rg_eventId (f row) = rg_eventId row"
    and "rg_sponsorshipCode (f row) = or_stored (fp_sponsorshipCode (so_fields o')) (rg_sponsorshipCode row)"
    and "rg_accessTypeIds (f row) = or_stored (fp_accessTypeIds (so_fields o')) (rg_accessTypeIds row)"
    and s': "s' = s\<lparr>db_registrations := update_rows (\<lambda>r. rg_id r = i) f (db_registrations s),
      db_accesses := a, db_usages := map u (db_usages s)\<rparr>"
    and u: "u = recomputed_row (or_stored (so_priceBreakdown o') (rg_priceBreakdown row))
      (findRegistrationUsagesForRecalc s i)"
    and cov: "sr_coveredAccessIds res = covered_by (findRegistrationUsagesForRecalc s i)"
    and a: "map ea_id a = map ea_id (db_accesses s)"
    and delta: "applyPaidAccessDelta (paid_before o' (sr_before res) (sr_coveredAccessIds res))
      (paid_after (sr_after res) (sr_coveredAccessIds res)) (s\<lparr>db_usages := map u (db_usages s)\<rparr>)
      = Inr (sr_paidAccess res, s\<lparr>db_usages := map u (db_usages s), db_accesses := a\<rparr>)"
    by (rule settle_effect[OF wf run written]) blast
  have u_id: "us_id (u r) = us_id r" "us_sponsorshipId (u r) = us_sponsorshipId r"
    "us_registrationId (u r) = us_registrationId r" for r by (simp_all add: u)
  have covs: "coverages s' j = coverages s j" for j
    by (rule coverages_map_usages[where u = u]) (simp_all add: s' u_id)
  have covids: "coveredAccessIdsOf s' j = coveredAccessIdsOf s j" for j
    by (simp add: coveredAccessIdsOf_coverages covs)
  have ids: "distinct (map rg_id (db_registrations s))" using wf by (simp add: db_wf_def)
  have usages: "map us_id (db_usages s') = map us_id (db_usages s)" by (simp add: s' u_id comp_def)
  have regs: "map rg_id (db_registrations s') = map rg_id (db_registrations s)"
    by (simp add: s' keys_update_rows f)
  have others: "registration_of s' j = registration_of s j" if "j \<noteq> i" for j
    using row_of_update_other[of rg_id f j i] f that by (simp add: registration_of_def s')
  have filt: "filter (\<lambda>w. us_sponsorshipId w = j) (map u (db_usages s)) =
      map u (filter (\<lambda>w. us_sponsorshipId w = j) (db_usages s))" for j
    by (simp add: filter_map comp_def u_id)
  have counts: "countSponsorshipUsages s' j = countSponsorshipUsages s j" for j
    by (simp add: countSponsorshipUsages_def s' filt)
  have links: "linkedRegistrationIds s' j = linkedRegistrationIds s j" for j
    by (simp add: linkedRegistrationIds_def s' filt comp_def u_id)
  have ok1: "accesses_ok (s\<lparr>db_usages := map u (db_usages s)\<rparr>)" using ok by (simp add: accesses_ok_def)
  note pd = paid_access_delta[OF ok1 delta]
  have ok': "accesses_ok s'" using pd by (simp add: accesses_ok_def s')
  have paid: "paid_count s' k = paid_count s k + (held (paid_after (sr_after res) (coveredAccessIdsOf s i)) k
      - held (paid_before o' (readSettlementRow row) (coveredAccessIdsOf s i)) k)" for k
    using pd by (simp add: paid_count_def access_of_def s' cov bef coveredAccessIdsOf_def)
  have after: "held (registration_state s' (f row)) k
      = held (paid_after (sr_after res) (coveredAccessIdsOf s i)) k" for k
    using st registration_of_key[OF r']
    by (intro held_cong)
      (simp_all add: registration_state_def paid_after_def stores_def covids same_breakdownD(1))
  have sum: "places_held s' k = places_held s k + held (registration_state s' (f row)) k
      - held (registration_state s row) k" for k
  proof -
    have "places_held s' k = (\<Sum>r\<leftarrow>update_rows (\<lambda>r. rg_id r = i) f (db_registrations s).
        held (registration_state s r) k)"
      by (simp add: places_held_def registration_state_def covids) (simp add: s')
    then show ?thesis
      using sum_update_rows[of rg_id "db_registrations s" i row f "\<lambda>r. held (registration_state s r) k"]
        ids f row
      by (simp add: places_held_def registration_of_def registration_state_def covids)
  qed
  have sps: "db_sponsorships s' = db_sponsorships s" by (simp add: s')
  have wf': "db_wf s'"
    using wf ok' by (simp add: db_wf_def accesses_ok_def accesses_wf_def usages regs sps)
  have acc: "map ea_id (db_accesses s') = map ea_id (db_accesses s)" and ids': "db_ids s' = db_ids s"
    by (simp_all add: s' a)
  have disc: "discrepancy s' k = discrepancy s k + held (registration_state s row) k
      - held (paid_before o' (readSettlementRow row) (coveredAccessIdsOf s i)) k" for k
    by (simp add: discrepancy_def sum paid after)
  show ?thesis
    by (rule that[of row])
      (simp add: moved_def row r' ev wf' ok' acc regs usages sps ids' covs others counts links disc)
qed

section \<open>Changes of the usages\<close>

lemma coverages_alt:
  "coverages s j = concat (map (\<lambda>u. case map_option coverage_of (sponsorship_of s (us_sponsorshipId u)) of
      None \<Rightarrow> [] | Some c \<Rightarrow> [c]) (filter (\<lambda>u. us_registrationId u = Some j) (db_usages s)))"
proof -
  have "map ur_sponsorship (concat (map (\<lambda>u. case sponsorship_of s (us_sponsorshipId u) of
        None \<Rightarrow> []
      | Some r \<Rightarrow> [\<lparr>ur_id = us_id u, ur_amountApplied = us_amountApplied u,
                    ur_sponsorship = coverage_of r\<rparr>]) us)) =
    concat (map (\<lambda>u. case map_option coverage_of (sponsorship_of s (us_sponsorshipId u)) of
      None \<Rightarrow> [] | Some c \<Rightarrow> [c]) us)" for us
    by (induction us) (auto split: option.splits)
  then show ?thesis unfolding coverages_def findRegistrationUsagesForRecalc_def .
qed

lemma coverages_cong:
  assumes "\<And>x. map_option coverage_of (sponsorship_of s' x) = map_option coverage_of (sponsorship_of s x)"
    and "filter (\<lambda>u. us_registrationId u = Some j) (db_usages s') =
      filter (\<lambda>u. us_registrationId u = Some j) (db_usages s)"
  shows "coverages s' j = coverages s j"
  by (simp only: coverages_alt assms)

lemma coverage_update:
  assumes "\<And>r. sp_id (f r) = sp_id r" and "\<And>r. coverage_of (f r) = coverage_of r"
  shows "map_option coverage_of (row_of sp_id x (update_rows p f t)) = map_option coverage_of (row_of sp_id x t)"
  using assms by (induction t) auto

lemma discrepancy_usage_change:
  assumes "distinct (map rg_id (db_registrations s))" and "registration_of s i = Some row"
    and "db_registrations s1 = db_registrations s" and "db_accesses s1 = db_accesses s"
    and "\<And>j. j \<noteq> i \<Longrightarrow> coverages s1 j = coverages s j"
  shows "discrepancy s1 k = discrepancy s k + held (registration_state s row) k
    - held (registration_state s1 row) k"
proof -
  have "places_held s1 k = places_held s k + held (registration_state s1 row) k
      - held (registration_state s row) k"
    unfolding places_held_def assms(3)
    by (rule sum_rows_one[OF assms(1) assms(2)[unfolded registration_of_def]])
      (simp add: registration_state_def coveredAccessIdsOf_coverages assms(5))
  then show ?thesis by (simp add: discrepancy_def paid_count_def access_of_def assms(4))
qed

lemma discrepancy_same:
  assumes "db_registrations s1 = db_registrations s" and "db_accesses s1 = db_accesses s"
    and "\<And>j. coverages s1 j = coverages s j"
  shows "discrepancy s1 k = discrepancy s k"
  by (simp add: discrepancy_def places_held_def paid_count_def access_of_def registration_state_def
      coveredAccessIdsOf_coverages assms)

lemma settle_row_written: "settle_row icu i o' row s = Inr (res, s') \<Longrightarrow> sr_written res"
  unfolding settle_row_def Let_def by (auto elim!: sbind_InrE)

lemma settle_written:
  assumes "settleRegistrationTxn icu i o' s = Inr (Some res, s')" and "so_expectedUpdatedAt o' = None"
  shows "sr_written res"
  using assms settle_row_written
  by (auto simp: settleRegistrationTxn_def elim!: sbind_InrE split: if_split_asm option.split_asm)

text \<open>Every usage of a registration names a stored one: the foreign key of the table.\<close>

definition usages_known :: "db \<Rightarrow> bool" where
  "usages_known s \<longleftrightarrow> (\<forall>x. set (linkedRegistrationIds s x) \<subseteq> rg_id ` set (db_registrations s))"

lemma linked_ids:
  "i \<in> set (linkedRegistrationIds s x) \<longleftrightarrow>
    (\<exists>u \<in> set (db_usages s). us_sponsorshipId u = x \<and> us_registrationId u = Some i)"
  by (auto simp: linkedRegistrationIds_def split: option.splits)

lemma usages_known_iff:
  "usages_known s \<longleftrightarrow> (\<forall>u \<in> set (db_usages s). \<forall>i. us_registrationId u = Some i \<longrightarrow> i \<in> rg_id ` set (db_registrations s))"
  unfolding usages_known_def subset_iff linked_ids by blast

lemma usages_known_links:
  assumes "map rg_id (db_registrations s') = map rg_id (db_registrations s)"
    and "\<And>x. linkedRegistrationIds s' x = linkedRegistrationIds s x"
  shows "usages_known s' = usages_known s"
proof -
  have "rg_id ` set (db_registrations s') = rg_id ` set (db_registrations s)"
    using assms(1) by (metis set_map)
  then show ?thesis by (simp add: usages_known_def assms(2))
qed

lemma usages_known_tables:
  assumes "map rg_id (db_registrations s') = map rg_id (db_registrations s)" and "db_usages s' = db_usages s"
  shows "usages_known s' = usages_known s"
  by (rule usages_known_links[OF assms(1)]) (simp add: linkedRegistrationIds_def assms(2))

text \<open>No registration moves to another event.\<close>

definition same_owners :: "db \<Rightarrow> db \<Rightarrow> bool" where
  "same_owners s s' \<longleftrightarrow>
    (\<forall>i. map_option rg_eventId (registration_of s' i) = map_option rg_eventId (registration_of s i))"

lemma same_owners_refl [simp]: "same_owners s s"
  by (simp add: same_owners_def)

lemma same_owners_trans: "same_owners s t \<Longrightarrow> same_owners t u \<Longrightarrow> same_owners s u"
  by (simp add: same_owners_def)

lemma same_owners_rows: "db_registrations s' = db_registrations s \<Longrightarrow> same_owners s s'"
  by (simp add: same_owners_def registration_of_def)

lemma same_owners_one:
  assumes "\<And>j. j \<noteq> i \<Longrightarrow> registration_of s' j = registration_of s j"
    and "map_option rg_eventId (registration_of s' i) = map_option rg_eventId (registration_of s i)"
  shows "same_owners s s'"
  unfolding same_owners_def
proof
  fix j
  show "map_option rg_eventId (registration_of s' j) = map_option rg_eventId (registration_of s j)"
    using assms by (cases "j = i") simp_all
qed

lemma moved_owners: "moved o' i row s s' \<Longrightarrow> same_owners s s' \<and> usages_known s' = usages_known s"
  using same_owners_one[of i s' s] usages_known_links[of s' s] by (simp add: moved_def)

text \<open>
  What every operation of this theory keeps of the store: unique keys, fresh ids, counters within
  capacity, the events and the usages of the registrations.
\<close>

definition store_ok :: "db \<Rightarrow> bool" where
  "store_ok s \<longleftrightarrow> db_wf s \<and> accesses_ok s \<and> distinct (map us_id (db_usages s) @ db_ids s)"

definition preserved :: "db \<Rightarrow> db \<Rightarrow> bool" where
  "preserved s s' \<longleftrightarrow> store_ok s' \<and> map ea_id (db_accesses s') = map ea_id (db_accesses s) \<and>
    map rg_id (db_registrations s') = map rg_id (db_registrations s) \<and>
    map sp_id (db_sponsorships s') = map sp_id (db_sponsorships s) \<and>
    same_owners s s' \<and> (usages_known s \<longrightarrow> usages_known s') \<and>
    (\<forall>k. discrepancy s' k = discrepancy s k)"

lemma preserved_refl: "store_ok s \<Longrightarrow> preserved s s"
  by (simp add: preserved_def)

lemma preserved_trans: "preserved s t \<Longrightarrow> preserved t u \<Longrightarrow> preserved s u"
  using same_owners_trans by (auto simp: preserved_def)

lemma preserved_conserved: "preserved s s' \<Longrightarrow> conserved s \<Longrightarrow> conserved s'"
proof -
  assume p: "preserved s s'" and c: "conserved s"
  have "ea_id ` set (db_accesses s') = ea_id ` set (db_accesses s)"
    using p by (metis preserved_def set_map)
  with p c show "conserved s'" by (simp add: conserved_def preserved_def)
qed

text \<open>
  The shape of a link and an unlink: change one registration's usages, then settle it, telling the
  settlement what was covered before the change.
\<close>

lemma settle_after_usage_change:
  assumes ok: "store_ok s1" and regs: "db_registrations s1 = db_registrations s"
    and acc: "db_accesses s1 = db_accesses s" and sps: "map sp_id (db_sponsorships s1) = map sp_id (db_sponsorships s)"
    and others: "\<And>j. j \<noteq> i \<Longrightarrow> coverages s1 j = coverages s j"
    and known: "usages_known s \<Longrightarrow> usages_known s1"
    and run: "settleRegistrationTxn icu i o' s1 = Inr (Some res, s')"
    and opts: "so_expectedUpdatedAt o' = None" "so_coveredAccessIdsBefore o' = Some (coveredAccessIdsOf s i)"
  shows "preserved s s' \<and> db_sponsorships s' = db_sponsorships s1 \<and>
    (\<forall>j. coverages s' j = coverages s1 j) \<and> (\<forall>j. j \<noteq> i \<longrightarrow> registration_of s' j = registration_of s1 j) \<and>
    (\<forall>j. countSponsorshipUsages s' j = countSponsorshipUsages s1 j) \<and>
    (\<forall>j. linkedRegistrationIds s' j = linkedRegistrationIds s1 j)"
proof -
  have ok1: "db_wf s1" "accesses_ok s1" using ok by (simp_all add: store_ok_def)
  obtain row where m: "moved o' i row s1 s'"
    by (rule settle_discrepancy[OF ok1 run settle_written[OF run opts(1)]])
  note own = moved_owners[OF m]
  note m = m[unfolded moved_def]
  then have row: "registration_of s1 i = Some row" by simp
  have owners: "same_owners s s'" using same_owners_trans[OF same_owners_rows[OF regs]] own by blast
  have row0: "registration_of s i = Some row" using row regs by (simp add: registration_of_def)
  have bef: "paid_before o' (readSettlementRow row) (coveredAccessIdsOf s1 i) = registration_state s row"
    using registration_of_key[OF row0] opts(2)
    by (simp add: paid_before_def registration_state_def readSettlementRow_def or_stored_def)
  have dist: "distinct (map rg_id (db_registrations s))" using ok1 regs by (simp add: db_wf_def)
  have "discrepancy s' k = discrepancy s k" for k
    using m discrepancy_usage_change[OF dist row0 regs acc others, of k] by (simp add: bef)
  then have "preserved s s'"
    using m ok own owners known by (simp add: preserved_def store_ok_def regs acc sps)
  then show ?thesis using m by simp
qed

section \<open>Linking and unlinking\<close>

lemma settle_or_refuse_Inr:
  "settle_or_refuse icu r i o' s = Inr (res, s') \<Longrightarrow> settleRegistrationTxn icu i o' s = Inr (Some res, s')"
  by (auto simp: settle_or_refuse_def refuse_def sbind_Inr_iff split: option.splits)

lemma findUsage_Some:
  "findUsage s x i = Some u \<Longrightarrow> u \<in> set (db_usages s) \<and> us_sponsorshipId u = x \<and> us_registrationId u = Some i"
  unfolding findUsage_def by (drule find_SomeD) simp

lemma linkSponsorshipUsageTxn_Inr:
  assumes "linkSponsorshipUsageTxn sp i pb who s = Inr (u, s1)"
  obtains ids amount where "db_ids s = us_id u # ids" "findUsage s (sp_id sp) i = None"
    "sponsorshipAmountFor (coverage_of sp) pb = Inr amount"
    "u = \<lparr>us_id = us_id u, us_sponsorshipId = sp_id sp, us_registrationId = Some i,
      us_amountApplied = amount, us_appliedBy = who\<rparr>"
    "s1 = s\<lparr>db_ids := ids, db_usages := db_usages s @ [u],
      db_sponsorships := update_rows (\<lambda>r. sp_id r = sp_id sp \<and> sp_status r \<noteq> Sp_cancelled)
        (\<lambda>r. r\<lparr>sp_status := Sp_used\<rparr>) (db_sponsorships s)\<rparr>"
    "length (filter (\<lambda>r. sp_id r = sp_id sp \<and> sp_status r \<noteq> Sp_cancelled) (db_sponsorships s)) = 1"
proof -
  from assms obtain amount s0 where am: "sponsorshipAmountFor (coverage_of sp) pb = Inr amount"
    and ins: "insertUsage (sp_id sp) i amount who s = Inr (u, s0)"
    and cas: "casSetSponsorshipUsed (sp_id sp) s0 = (1, s1)"
    unfolding linkSponsorshipUsageTxn_def
    by (auto elim!: sbind_InrE split: if_split_asm prod.split_asm)
  from ins obtain ids where ids: "db_ids s = us_id u # ids" and new: "findUsage s (sp_id sp) i = None"
    and u: "u = \<lparr>us_id = us_id u, us_sponsorshipId = sp_id sp, us_registrationId = Some i,
      us_amountApplied = amount, us_appliedBy = who\<rparr>"
    and s0: "s0 = s\<lparr>db_ids := ids, db_usages := db_usages s @ [u]\<rparr>"
    by (auto simp: insertUsage_def Let_def split: list.splits if_splits)
  show ?thesis
    by (rule that[OF ids new am u]) (use cas in \<open>simp_all add: casSetSponsorshipUsed_def s0\<close>)
qed

lemma link_usage_store:
  assumes "store_ok s" and "linkSponsorshipUsageTxn sp i pb who s = Inr (u, s1)"
  shows "store_ok s1 \<and> db_registrations s1 = db_registrations s \<and> db_accesses s1 = db_accesses s \<and>
    map sp_id (db_sponsorships s1) = map sp_id (db_sponsorships s) \<and>
    (\<forall>j. j \<noteq> i \<longrightarrow> coverages s1 j = coverages s j)"
proof -
  from assms(2) obtain ids amount where 1: "db_ids s = us_id u # ids"
    and "findUsage s (sp_id sp) i = None" and "sponsorshipAmountFor (coverage_of sp) pb = Inr amount"
    and u: "u = \<lparr>us_id = us_id u, us_sponsorshipId = sp_id sp, us_registrationId = Some i,
      us_amountApplied = amount, us_appliedBy = who\<rparr>"
    and s1: "s1 = s\<lparr>db_ids := ids, db_usages := db_usages s @ [u],
      db_sponsorships := update_rows (\<lambda>r. sp_id r = sp_id sp \<and> sp_status r \<noteq> Sp_cancelled)
        (\<lambda>r. r\<lparr>sp_status := Sp_used\<rparr>) (db_sponsorships s)\<rparr>"
    by (rule linkSponsorshipUsageTxn_Inr)
  have ui: "us_registrationId u = Some i" by (subst u) simp
  have "coverages s1 j = coverages s j" if "j \<noteq> i" for j
    by (rule coverages_cong)
      (use that in \<open>simp_all add: s1 ui sponsorship_of_def coverage_update coverage_of_def covered_ids_def\<close>)
  then show ?thesis
    using assms(1) 1
    by (simp add: store_ok_def db_wf_def accesses_wf_def accesses_ok_def s1 keys_update_rows)
qed

lemma link_usage_known:
  assumes "linkSponsorshipUsageTxn sp i pb who s = Inr (u, s1)" and "usages_known s" and "registration_of s i \<noteq> None"
  shows "usages_known s1"
proof -
  from assms(1) obtain ids amount where "db_ids s = us_id u # ids"
    and "findUsage s (sp_id sp) i = None" and "sponsorshipAmountFor (coverage_of sp) pb = Inr amount"
    and u: "u = \<lparr>us_id = us_id u, us_sponsorshipId = sp_id sp, us_registrationId = Some i,
      us_amountApplied = amount, us_appliedBy = who\<rparr>"
    and s1: "s1 = s\<lparr>db_ids := ids, db_usages := db_usages s @ [u],
      db_sponsorships := update_rows (\<lambda>r. sp_id r = sp_id sp \<and> sp_status r \<noteq> Sp_cancelled)
        (\<lambda>r. r\<lparr>sp_status := Sp_used\<rparr>) (db_sponsorships s)\<rparr>"
    by (rule linkSponsorshipUsageTxn_Inr)
  have "us_registrationId u = Some i" by (subst u) simp
  moreover have "i \<in> rg_id ` set (db_registrations s)" using assms(3) by (simp add: registration_of_def row_of_None)
  ultimately show ?thesis using assms(2) by (simp add: usages_known_iff s1)
qed

lemma readLinkable_id: "readLinkableSponsorship s i = Some sp \<Longrightarrow> sp_id sp = i"
  by (auto simp: readLinkableSponsorship_def sponsorship_of_def dest: row_of_Some)

lemma link_InrE:
  assumes "linkSponsorshipToRegistrationTxn icu x i who patch s = Inr (res, s')"
  obtains sp target s1 where "readLinkableSponsorship s x = Some sp" "sp_status sp \<noteq> Sp_cancelled"
    "registration_of s i = Some target" "rg_eventId target = sp_eventId sp"
    "findUsage s x i = None"
    "sponsorshipLinkRefusal s (coverage_of sp) target = Inr None"
    "linkSponsorshipUsageTxn sp i (rg_priceBreakdown target) who s = Inr (lr_usage res, s1)"
    "settleRegistrationTxn icu i (no_options\<lparr>so_coveredAccessIdsBefore := Some (coveredAccessIdsOf s i),
       so_decide := Some guardSponsorshipChange, so_fields := patch\<rparr>) s1 = Inr (Some (lr_settled res), s')"
proof -
  from assms obtain sp where sp: "readLinkableSponsorship s x = Some sp"
    and c: "sp_status sp \<noteq> Sp_cancelled"
    unfolding linkSponsorshipToRegistrationTxn_def refuse_def
    by (auto split: if_split_asm option.split_asm)
  note run = assms[unfolded linkSponsorshipToRegistrationTxn_def sp option.case if_not_P[OF c]]
  from run obtain target where tg: "registration_of s i = Some target"
    and ev: "rg_eventId target = sp_eventId sp" and new: "findUsage s x i = None"
    unfolding refuse_def by (auto split: if_split_asm option.split_asm)
  from run tg ev new obtain rf where
    "sponsorshipLinkRefusal s (coverage_of sp) target = Inr rf"
    and r2: "(case rf of Some r \<Rightarrow> refuse r
       | None \<Rightarrow> sbind (linkSponsorshipUsageTxn sp i (rg_priceBreakdown target) who s) (\<lambda>(usage, s1).
          sbind (settle_or_refuse icu REGISTRATION_NOT_FOUND i
              (no_options\<lparr>so_coveredAccessIdsBefore := Some (coveredAccessIdsOf s i),
                 so_decide := Some guardSponsorshipChange, so_fields := patch\<rparr>) s1)
            (\<lambda>(settled, s2).
          Inr (\<lparr>lr_sponsorship = sp, lr_usage = usage, lr_settled = settled\<rparr>, s2)))) = Inr (res, s')"
    by (auto simp: Let_def refuse_def elim!: sbind_InrE split: if_split_asm)
  moreover from this have "rf = None" by (cases rf) (simp_all add: refuse_def)
  ultimately show ?thesis
    using that[OF sp c tg ev new]
    by (auto elim!: sbind_InrE dest!: settle_or_refuse_Inr)
qed

lemma link_preserved:
  assumes "store_ok s" and "linkSponsorshipToRegistrationTxn icu x i who patch s = Inr (res, s')"
  shows "preserved s s'"
proof -
  from assms(2) obtain sp target s1 where "readLinkableSponsorship s x = Some sp" "sp_status sp \<noteq> Sp_cancelled"
    and t: "registration_of s i = Some target" and "rg_eventId target = sp_eventId sp" "findUsage s x i = None"
    "sponsorshipLinkRefusal s (coverage_of sp) target = Inr None"
    and lk: "linkSponsorshipUsageTxn sp i (rg_priceBreakdown target) who s = Inr (lr_usage res, s1)"
    and st: "settleRegistrationTxn icu i (no_options\<lparr>so_coveredAccessIdsBefore := Some (coveredAccessIdsOf s i),
       so_decide := Some guardSponsorshipChange, so_fields := patch\<rparr>) s1 = Inr (Some (lr_settled res), s')"
    by (rule link_InrE)
  have "usages_known s1" if "usages_known s"
    using link_usage_known[OF lk that] by (simp add: t)
  with link_usage_store[OF assms(1) lk] settle_after_usage_change[OF _ _ _ _ _ _ st]
  show ?thesis by (simp add: no_options_def)
qed

lemma delete_usage_store:
  assumes "store_ok s" and "findUsage s x i = Some u"
  shows "store_ok (deleteUsage (us_id u) s) \<and>
    (\<forall>j. j \<noteq> i \<longrightarrow> coverages (deleteUsage (us_id u) s) j = coverages s j)"
proof
  let ?s1 = "deleteUsage (us_id u) s"
  note fu = findUsage_Some[OF assms(2)]
  have ids: "distinct (map us_id (db_usages s))" using assms(1) by (simp add: store_ok_def)
  have same: "v = u" if "v \<in> set (db_usages s)" "us_id v = us_id u" for v
    using ids that fu by (auto simp: distinct_map dest: inj_onD)
  show "store_ok ?s1"
    using assms(1) by (auto simp: store_ok_def db_wf_def accesses_ok_def accesses_wf_def
        deleteUsage_def distinct_map_filter)
  show "\<forall>j. j \<noteq> i \<longrightarrow> coverages ?s1 j = coverages s j"
  proof (intro allI impI)
    fix j assume "j \<noteq> i"
    then have "filter (\<lambda>v. us_registrationId v = Some j) (filter (\<lambda>v. us_id v \<noteq> us_id u) (db_usages s)) =
        filter (\<lambda>v. us_registrationId v = Some j) (db_usages s)"
      using same fu by (force intro!: filter_cong simp: filter_filter)
    then show "coverages ?s1 j = coverages s j"
      by (intro coverages_cong) (simp_all add: deleteUsage_def sponsorship_of_def)
  qed
qed

lemma unlink_options_fields:
  "so_expectedUpdatedAt (unlink_options sp target n cov) = None"
  "so_coveredAccessIdsBefore (unlink_options sp target n cov) = Some cov"
  "so_decide (unlink_options sp target n cov) = Some guardSponsorshipChange"
  "so_keepUnlinkedSponsorship (unlink_options sp target n cov) = Some False"
  by (simp_all add: unlink_options_def Let_def no_options_def)

lemma unlink_InrE:
  assumes "unlinkLockedUsage icu sp i s = Inr (res, s')"
  obtains u target opts where "findUsage s (sp_id sp) i = Some u" "registration_of s i = Some target"
    "so_expectedUpdatedAt opts = None" "so_coveredAccessIdsBefore opts = Some (coveredAccessIdsOf s i)"
    "so_decide opts = Some guardSponsorshipChange" "so_keepUnlinkedSponsorship opts = Some False"
    "settleRegistrationTxn icu i opts (deleteUsage (us_id u) s) = Inr (Some (xr_settled res), s')"
    "xr_usage res = u" "xr_registrationId res = i"
proof -
  from assms obtain u target where f: "findUsage s (sp_id sp) i = Some u"
    and t: "registration_of s i = Some target"
    unfolding unlinkLockedUsage_def refuse_def by (auto split: option.split_asm)
  show ?thesis
    using assms that[OF f t, of "unlink_options sp target n (coveredAccessIdsOf s i)" for n]
    unfolding unlinkLockedUsage_def f t prod.case option.case Let_def
    by (auto elim!: sbind_InrE dest!: settle_or_refuse_Inr simp: unlink_options_fields)
qed

lemma unlink_preserved:
  assumes "store_ok s" and "unlinkLockedUsage icu sp i s = Inr (res, s')"
  shows "preserved s s' \<and> db_sponsorships s' = db_sponsorships s \<and>
    (\<forall>j. j \<noteq> i \<longrightarrow> coverages s' j = coverages s j \<and> registration_of s' j = registration_of s j) \<and>
    (\<forall>x. countSponsorshipUsages s' x = countSponsorshipUsages (deleteUsage (us_id (xr_usage res)) s) x)"
proof -
  from assms(2) obtain u target opts where f: "findUsage s (sp_id sp) i = Some u"
    and "registration_of s i = Some target"
    and o1: "so_expectedUpdatedAt opts = None" and o2: "so_coveredAccessIdsBefore opts = Some (coveredAccessIdsOf s i)"
    and "so_decide opts = Some guardSponsorshipChange" and "so_keepUnlinkedSponsorship opts = Some False"
    and st: "settleRegistrationTxn icu i opts (deleteUsage (us_id u) s) = Inr (Some (xr_settled res), s')"
    and xu: "xr_usage res = u" and "xr_registrationId res = i"
    by (rule unlink_InrE)
  have "usages_known (deleteUsage (us_id u) s)" if "usages_known s"
    using that by (auto simp: usages_known_iff deleteUsage_def)
  with delete_usage_store[OF assms(1) f]
    settle_after_usage_change[where s = s, OF _ _ _ _ _ _ st o1 o2]
  show ?thesis by (simp add: deleteUsage_def xu registration_of_def)
qed

lemma update_sponsorship_store:
  assumes "store_ok s" and "\<And>r. sp_id (f r) = sp_id r"
  shows "store_ok (updateSponsorshipRow x f s)"
  using assms by (simp add: store_ok_def db_wf_def accesses_ok_def accesses_wf_def
      updateSponsorshipRow_def keys_update_rows)

lemma settle_status_preserved:
  assumes "store_ok s" and "settleSponsorshipStatusTxn x st s = (c, s')"
  shows "preserved s s'"
proof (cases "s' = s")
  case True
  then show ?thesis using assms(1) by (simp add: preserved_refl)
next
  case False
  then obtain st' where s': "s' = updateSponsorshipRow x (\<lambda>r. r\<lparr>sp_status := st'\<rparr>) s"
    using assms(2) by (auto simp: settleSponsorshipStatusTxn_def Let_def split: if_splits)
  have cov: "coverages s' j = coverages s j" for j
    by (rule coverages_cong)
      (simp_all add: s' updateSponsorshipRow_def sponsorship_of_def coverage_update coverage_of_def covered_ids_def)
  have "discrepancy s' k = discrepancy s k" for k
    by (rule discrepancy_same) (simp_all add: cov, simp_all add: s' updateSponsorshipRow_def)
  then show ?thesis
    using update_sponsorship_store[OF assms(1), of "\<lambda>r. r\<lparr>sp_status := st'\<rparr>" x]
    by (simp add: preserved_def s' same_owners_def registration_of_def usages_known_iff)
      (simp add: updateSponsorshipRow_def keys_update_rows)
qed

lemma unlink_txn_preserved:
  assumes "store_ok s" and "unlinkSponsorshipFromRegistrationTxn icu x i s = Inr (res, s')"
  shows "preserved s s'"
proof -
  from assms(2) obtain sp u s1 c where un: "unlinkLockedUsage icu sp i s = Inr (u, s1)"
    and st: "settleSponsorshipStatusTxn (sp_id sp) (sp_status sp) s1 = (c, s')"
    unfolding unlinkSponsorshipFromRegistrationTxn_def refuse_def
    by (auto elim!: sbind_InrE split: if_split_asm option.split_asm prod.split_asm)
  note p = unlink_preserved[OF assms(1) un]
  then have "store_ok s1" by (simp add: preserved_def)
  from settle_status_preserved[OF this st] p show ?thesis by (blast intro: preserved_trans)
qed

lemma release_step_eq:
  "release_step icu sp i (acc, s) =
    sbind (unlinkLockedUsage icu sp i s) (\<lambda>(r, s'). Inr (acc @ [r], s'))"
  by (simp add: release_step_def)

lemma release_loop_preserved:
  "sfold (release_step icu sp) ids (acc, s) = Inr (acc', t) \<Longrightarrow> store_ok s \<Longrightarrow> preserved s t"
proof (induction ids arbitrary: acc s)
  case Nil
  then show ?case by (simp add: preserved_refl)
next
  case (Cons i ids)
  from Cons.prems(1) obtain r s1 where un: "unlinkLockedUsage icu sp i s = Inr (r, s1)"
    and rest: "sfold (release_step icu sp) ids (acc @ [r], s1) = Inr (acc', t)"
    by (auto simp: release_step_eq elim!: sbind_InrE)
  have p: "preserved s s1" using unlink_preserved[OF Cons.prems(2) un] by simp
  then have "store_ok s1" by (simp add: preserved_def)
  from Cons.IH[OF rest this] p show ?case by (rule preserved_trans[rotated])
qed

lemma release_preserved:
  assumes "store_ok s" and "releaseSponsorshipTxn icu x s = Inr (res, s')"
  shows "preserved s s'"
  using assms release_loop_preserved[OF _ assms(1)] preserved_refl[OF assms(1)]
  unfolding releaseSponsorshipTxn_def
  by (auto elim!: sbind_InrE split: if_split_asm option.split_asm)

section \<open>Changing a coverage\<close>

lemma sum_over_ids:
  fixes g :: "'r \<Rightarrow> int"
  assumes "distinct (map key t)" and "distinct is" and "set is \<subseteq> key ` set t"
    and "\<And>r. r \<in> set t \<Longrightarrow> key r \<notin> set is \<Longrightarrow> g r = 0"
  shows "(\<Sum>r\<leftarrow>t. g r) = (\<Sum>i\<leftarrow>is. g (the (row_of key i t)))"
proof -
  let ?S = "{r \<in> set t. key r \<in> set is}"
  have inj: "inj_on key ?S" using assms(1) by (auto simp: distinct_map inj_on_def)
  have img: "key ` ?S = set is" using assms(3) by auto
  have row: "the (row_of key (key r) t) = r" if "r \<in> ?S" for r
    using row_of_distinct[OF assms(1)] that by simp
  have "(\<Sum>r\<leftarrow>t. g r) = sum g (set t)"
    using assms(1) by (simp add: sum_list_distinct_conv_sum_set distinct_map)
  also have "\<dots> = sum g ?S"
    by (rule sum.mono_neutral_right) (auto simp: assms(4))
  also have "\<dots> = (\<Sum>r\<in>?S. g (the (row_of key (key r) t)))"
    by (rule sum.cong[OF refl]) (simp only: row)
  also have "\<dots> = (\<Sum>i\<in>set is. g (the (row_of key i t)))"
    using sum.reindex[OF inj, of "\<lambda>i. g (the (row_of key i t))"] img by (simp add: comp_def)
  finally show ?thesis using assms(2) by (simp add: sum_list_distinct_conv_sum_set)
qed

definition covered_state :: "registration_row \<Rightarrow> string list \<Rightarrow> paid_access_state" where
  "covered_state r cov = \<lparr>ps_status = rg_paymentStatus r, ps_priceBreakdown = rg_priceBreakdown r,
    ps_coveredAccessIds = cov\<rparr>"

definition row_at :: "db \<Rightarrow> string \<Rightarrow> registration_row" where
  "row_at s i = the (registration_of s i)"

text \<open>Settling the registrations one after the other makes up for each one's change of coverage.\<close>

lemma coverage_step_eq:
  "coverage_step icu (i, cov) (acc, s) = sbind (settleRegistrationTxn icu i
      (no_options\<lparr>so_coveredAccessIdsBefore := Some cov, so_decide := Some guardSponsorshipChange\<rparr>) s)
    (\<lambda>(result, s'). Inr (case result of None \<Rightarrow> acc | Some r \<Rightarrow> acc @ [(i, r)], s'))"
  by (simp add: coverage_step_def)

lemma settle_not_None:
  "registration_of s i = Some row \<Longrightarrow> settleRegistrationTxn icu i o' s \<noteq> Inr (None, s')"
  by (auto simp: settleRegistrationTxn_def lockRegistrationForUpdate_iff sbind_Inr_iff
      split: if_splits)

lemma coverage_loop:
  assumes "sfold (coverage_step icu) (map (\<lambda>i. (i, cb i)) is) (acc, s) = Inr (acc', t)"
    and "store_ok s" and "distinct is" and "\<And>i. i \<in> set is \<Longrightarrow> registration_of s i \<noteq> None"
  shows "store_ok t \<and> map ea_id (db_accesses t) = map ea_id (db_accesses s) \<and>
    map rg_id (db_registrations t) = map rg_id (db_registrations s) \<and>
    db_sponsorships t = db_sponsorships s \<and> same_owners s t \<and> usages_known t = usages_known s \<and>
    (\<forall>k. discrepancy t k = discrepancy s k + (\<Sum>i\<leftarrow>is. held (registration_state s (row_at s i)) k
      - held (covered_state (row_at s i) (cb i)) k))"
  using assms
proof (induction "is" arbitrary: acc s)
  case Nil
  then show ?case by simp
next
  case (Cons i js)
  let ?o = "no_options\<lparr>so_coveredAccessIdsBefore := Some (cb i), so_decide := Some guardSponsorshipChange\<rparr>"
  from Cons.prems(4)[of i] obtain row where row: "registration_of s i = Some row" by auto
  from Cons.prems(1) obtain res s1 where run: "settleRegistrationTxn icu i ?o s = Inr (Some res, s1)"
    and rest: "sfold (coverage_step icu) (map (\<lambda>i. (i, cb i)) js) (acc @ [(i, res)], s1) = Inr (acc', t)"
    by (auto simp: coverage_step_eq settle_not_None[OF row] elim!: sbind_InrE split: option.split_asm)
  have opt: "so_expectedUpdatedAt ?o = None" by (simp add: no_options_def)
  have ok: "db_wf s" "accesses_ok s" using Cons.prems(2) by (simp_all add: store_ok_def)
  obtain row' where m: "moved ?o i row' s s1"
    by (rule settle_discrepancy[OF ok run settle_written[OF run opt]])
  note own = moved_owners[OF m]
  note m = m[unfolded moved_def]
  have reg: "registration_of s1 j = registration_of s j" if "j \<noteq> i" for j using m that by simp
  have cov: "coverages s1 j = coverages s j" for j using m by simp
  have ok1: "store_ok s1" using m Cons.prems(2) by (simp add: store_ok_def)
  have bef: "paid_before ?o (readSettlementRow row') (coveredAccessIdsOf s i) = covered_state row' (cb i)"
    by (simp add: paid_before_def covered_state_def readSettlementRow_def or_stored_def no_options_def)
  have later: "registration_state s1 (row_at s j) = registration_state s (row_at s j)"
    "row_at s1 j = row_at s j" if "j \<in> set js" for j
  proof -
    have "registration_of s1 j = registration_of s j" using that Cons.prems(3) by (intro reg) auto
    then show "registration_state s1 (row_at s j) = registration_state s (row_at s j)"
      "row_at s1 j = row_at s j"
      by (simp_all add: registration_state_def row_at_def coveredAccessIdsOf_coverages cov)
  qed
  have sums: "(\<Sum>j\<leftarrow>js. held (registration_state s1 (row_at s1 j)) k - held (covered_state (row_at s1 j) (cb j)) k)
      = (\<Sum>j\<leftarrow>js. held (registration_state s (row_at s j)) k - held (covered_state (row_at s j) (cb j)) k)" for k
    by (intro arg_cong[where f = sum_list] map_cong refl) (simp add: later)
  have regs1: "registration_of s1 j \<noteq> None" if "j \<in> set js" for j
  proof -
    have "registration_of s1 j = registration_of s j" using that Cons.prems(3) by (intro reg) auto
    with Cons.prems(4)[of j] that show ?thesis by simp
  qed
  have "distinct js" using Cons.prems(3) by simp
  have "row_at s i = row'" using m by (simp add: row_at_def)
  with Cons.IH[OF rest ok1 \<open>distinct js\<close> regs1] show ?case
    using m own same_owners_trans[of s s1 t] by (simp add: sums bef)
qed

lemma sponsorship_of_other:
  assumes "\<And>r. sp_id (f r) = sp_id r" and "y \<noteq> x"
  shows "sponsorship_of (updateSponsorshipRow x f s) y = sponsorship_of s y"
  using row_of_update_other[of sp_id f y x "db_sponsorships s"] assms
  by (simp add: sponsorship_of_def updateSponsorshipRow_def)

lemma coverages_unlinked:
  assumes "\<And>r. sp_id (f r) = sp_id r" and "j \<notin> set (linkedRegistrationIds s x)"
  shows "coverages (updateSponsorshipRow x f s) j = coverages s j"
proof -
  have us: "db_usages (updateSponsorshipRow x f s) = db_usages s" by (simp add: updateSponsorshipRow_def)
  have "sponsorship_of (updateSponsorshipRow x f s) (us_sponsorshipId u) = sponsorship_of s (us_sponsorshipId u)"
    if "u \<in> set (filter (\<lambda>u. us_registrationId u = Some j) (db_usages s))" for u
    using that assms(2) by (intro sponsorship_of_other[OF assms(1)]) (auto simp: linked_ids)
  then show ?thesis
    unfolding coverages_alt us by (intro arg_cong[where f = concat] map_cong) auto
qed

lemma set_coverage_id [simp]: "sp_id (set_coverage c r) = sp_id r"
  by (simp add: set_coverage_def)

lemma coverage_change_discrepancy:
  assumes ok: "store_ok s" and f: "\<And>r. sp_id (f r) = sp_id r"
    and locked: "locked = lockRegistrationsForUpdate s (linkedRegistrationIds s x)"
    and s1: "s1 = updateSponsorshipRow x f s"
  shows "discrepancy s1 k = discrepancy s k + (\<Sum>i\<leftarrow>locked. held (registration_state s (row_at s i)) k
      - held (registration_state s1 (row_at s i)) k)"
proof -
  have dist: "distinct (map rg_id (db_registrations s))" using ok by (simp add: store_ok_def db_wf_def)
  have lk: "distinct locked" "set locked \<subseteq> rg_id ` set (db_registrations s)"
    "set locked = set (linkedRegistrationIds s x) \<inter> rg_id ` set (db_registrations s)"
    using lockRowsForUpdate_props[of rg_id "db_registrations s" "linkedRegistrationIds s x"]
    by (auto simp: locked lockRegistrationsForUpdate_def)
  have same: "db_registrations s1 = db_registrations s" "db_accesses s1 = db_accesses s"
    by (simp_all add: s1 updateSponsorshipRow_def)
  let ?g = "\<lambda>r. held (registration_state s r) k - held (registration_state s1 r) k"
  have "?g r = 0" if "r \<in> set (db_registrations s)" "rg_id r \<notin> set locked" for r
    using that lk(3) coverages_unlinked[OF f, of "rg_id r" s x]
    by (simp add: s1 registration_state_def coveredAccessIdsOf_coverages)
  from sum_over_ids[OF dist lk(1,2) this]
  have "(\<Sum>r\<leftarrow>db_registrations s. ?g r) = (\<Sum>i\<leftarrow>locked. ?g (row_at s i))"
    by (simp add: row_at_def registration_of_def)
  moreover have "(\<Sum>r\<leftarrow>db_registrations s. ?g r) = places_held s k - places_held s1 k"
    by (simp add: places_held_def same sum_list_subtractf)
  ultimately show ?thesis
    by (simp add: discrepancy_def paid_count_def access_of_def same)
qed

lemma coverage_preserved:
  assumes ok: "store_ok s" and patch: "\<And>r. sp_id (patch r) = sp_id r"
    and run: "changeSponsorshipCoverageTxn icu x c patch s = Inr (res, s')"
  shows "preserved s s'"
proof (cases "sponsorship_of s x")
  case None
  then show ?thesis
    using run ok by (simp add: changeSponsorshipCoverageTxn_def lockSponsorshipForUpdate_iff preserved_refl)
next
  case (Some sp0)
  define locked where "locked = lockRegistrationsForUpdate s (linkedRegistrationIds s x)"
  define f where "f = set_coverage c \<circ> patch"
  define s1 where "s1 = updateSponsorshipRow x f s"
  have f: "\<And>r. sp_id (f r) = sp_id r" by (simp add: f_def patch)
  from run Some obtain done' where
    loop: "sfold (coverage_step icu) (map (\<lambda>i. (i, coveredAccessIdsOf s i)) locked) ([], s1) = Inr (done', s')"
    by (auto simp: changeSponsorshipCoverageTxn_def lockSponsorshipForUpdate_iff readLinkableSponsorship_def
        locked_def s1_def f_def elim!: sbind_InrE)
  have ok1: "store_ok s1" unfolding s1_def by (rule update_sponsorship_store[OF ok f])
  have lk: "distinct locked" "\<And>i. i \<in> set locked \<Longrightarrow> registration_of s1 i \<noteq> None"
    using lockRowsForUpdate_props[of rg_id "db_registrations s" "linkedRegistrationIds s x"]
    by (auto simp: locked_def lockRegistrationsForUpdate_def s1_def updateSponsorshipRow_def
        registration_of_def row_of_None)
  have rows: "row_at s1 i = row_at s i" for i
    by (simp add: row_at_def registration_of_def s1_def updateSponsorshipRow_def)
  have state: "covered_state (row_at s i) (coveredAccessIdsOf s i) = registration_state s (row_at s i)"
    if "i \<in> set locked" for i
  proof -
    from lk(2)[OF that] obtain r where "registration_of s i = Some r"
      by (auto simp: registration_of_def s1_def updateSponsorshipRow_def)
    with registration_of_key[OF this] show ?thesis
      by (simp add: covered_state_def registration_state_def row_at_def)
  qed
  note cl = coverage_loop[OF loop ok1 lk]
  have "(\<Sum>i\<leftarrow>locked. held (registration_state s1 (row_at s1 i)) k
        - held (covered_state (row_at s1 i) (coveredAccessIdsOf s i)) k) =
      (\<Sum>i\<leftarrow>locked. held (registration_state s1 (row_at s i)) k - held (registration_state s (row_at s i)) k)" for k
    by (intro arg_cong[where f = sum_list] map_cong refl) (simp add: rows state)
  then have "discrepancy s' k = discrepancy s k" for k
    using cl coverage_change_discrepancy[OF ok f locked_def s1_def, of k]
    by (simp add: sum_list_subtractf)
  then show ?thesis
    using cl same_owners_trans[of s s1 s'] by (simp add: preserved_def)
      (simp add: s1_def updateSponsorshipRow_def keys_update_rows f same_owners_def registration_of_def usages_known_iff)
qed

section \<open>What links and unlinks guarantee\<close>

text \<open>What the sponsorship guard lets through.\<close>

lemma guard_Inr:
  "guardSponsorshipChange input = Inr d \<Longrightarrow> d = None \<and>
    (di_sponsorship input = ss_sponsorshipAmount (di_before input) \<or>
     ss_paymentStatus (di_before input) \<noteq> PAID \<and>
     (di_sponsorship input < ss_sponsorshipAmount (di_before input) \<or>
      ss_paidAmount (di_before input) \<le> di_net input))"
  by (auto simp: guardSponsorshipChange_def Let_def split: if_splits)

lemma guarded_settle:
  assumes "settleRegistrationTxn icu i o' s = Inr (Some res, s')" and "sr_written res"
    and "so_decide o' = Some guardSponsorshipChange"
    and "registration_of s i = Some row"
  shows "ss_sponsorshipAmount (sr_after res) = rg_sponsorshipAmount row \<or>
    rg_paymentStatus row \<noteq> PAID \<and>
    (ss_sponsorshipAmount (sr_after res) < rg_sponsorshipAmount row \<or>
     rg_paidAmount row \<le> max 0 (ss_totalAmount (sr_after res) - ss_sponsorshipAmount (sr_after res)))"
proof -
  from assms(1,2) obtain row2 sp cov s1 pb net chosen s2 w where
    row: "registration_of s i = Some row2" and bef: "sr_before res = readSettlementRow row2"
    and "sr_eventId res = rg_eventId row2"
    and "so_expectedUpdatedAt o' \<noteq> None \<longrightarrow> so_expectedUpdatedAt o' = Some (rg_updatedAt row2)"
    and "recomputeRegistrationSponsorship i (or_stored (so_priceBreakdown o') (rg_priceBreakdown row2))
      (or_stored (so_keepUnlinkedSponsorship o') True) s = Inr ((sp, cov), s1)"
    and "netBreakdown icu (or_stored (so_priceBreakdown o') (rg_priceBreakdown row2)) sp = Inr pb"
    and "ss_totalAmount (sr_after res) = (case so_totalAmount o' of Some t \<Rightarrow> t
      | None \<Rightarrow> if so_priceBreakdown o' \<noteq> None then pb_subtotal pb else rg_totalAmount row2)"
    and sp: "ss_sponsorshipAmount (sr_after res) = sp" and "ss_priceBreakdown (sr_after res) = pb"
    and net: "so_decide o' \<noteq> None \<longrightarrow> net = ss_totalAmount (sr_after res) - sp"
    and ch: "chosen_decision o' \<lparr>di_before = sr_before res, di_gross = ss_totalAmount (sr_after res),
      di_sponsorship = sp, di_net = max 0 net\<rparr> = Inr chosen"
    by (rule settle_InrE)
  from ch assms(3) obtain d where "guardSponsorshipChange \<lparr>di_before = sr_before res,
      di_gross = ss_totalAmount (sr_after res), di_sponsorship = sp, di_net = max 0 net\<rparr> = Inr d"
    by (auto simp: chosen_decision_def elim!: sbind_InrE)
  from guard_Inr[OF this] show ?thesis
    using row assms(3,4) net sp by (simp add: bef readSettlementRow_def)
qed

lemma sponsorship_used_after:
  assumes "db_sponsorships s1 = update_rows (\<lambda>r. sp_id r = x \<and> sp_status r \<noteq> Sp_cancelled)
      (\<lambda>r. r\<lparr>sp_status := Sp_used\<rparr>) (db_sponsorships s)"
    and "sponsorship_of s x = Some r0" and "sp_status r0 \<noteq> Sp_cancelled"
    and "distinct (map sp_id (db_sponsorships s))"
  shows "sponsorship_of s1 x = Some (r0\<lparr>sp_status := Sp_used\<rparr>)"
  using row_of_update_guarded[of sp_id "\<lambda>r. r\<lparr>sp_status := Sp_used\<rparr>" "db_sponsorships s" x x
      "\<lambda>r. sp_status r \<noteq> Sp_cancelled"] assms
  by (simp add: sponsorship_of_def)

text \<open>
  C7: A link that commits was allowed: the sponsorship was not cancelled, belongs to the
  registration's event and was not linked to it yet, and the registration's money was not settled
  (PAID, WAIVED or REFUNDED). Afterwards the sponsorship is USED, has exactly one usage more, all
  paid counters still agree with the places held, and no registration but the target changed.
\<close>

theorem linkSponsorship_safe:
  assumes "store_ok s" and "conserved s"
    and "linkSponsorshipToRegistrationTxn icu x i who patch s = Inr (res, s')"
  shows "\<exists>sp target. sponsorship_of s x = Some sp \<and> sp_status sp \<noteq> Sp_cancelled \<and>
    registration_of s i = Some target \<and> rg_eventId target = sp_eventId sp \<and>
    rg_paymentStatus target \<notin> {PAID, WAIVED, REFUNDED} \<and> findUsage s x i = None \<and>
    sponsorship_of s' x = Some (sp\<lparr>sp_status := Sp_used\<rparr>) \<and>
    countSponsorshipUsages s' x = Suc (countSponsorshipUsages s x) \<and>
    conserved s' \<and> (\<forall>j. j \<noteq> i \<longrightarrow> registration_of s' j = registration_of s j)"
proof -
  from assms(3) obtain sp target s1 where sp: "readLinkableSponsorship s x = Some sp"
    and nc: "sp_status sp \<noteq> Sp_cancelled" and tg: "registration_of s i = Some target"
    and ev: "rg_eventId target = sp_eventId sp" and new: "findUsage s x i = None"
    and ref: "sponsorshipLinkRefusal s (coverage_of sp) target = Inr None"
    and lk: "linkSponsorshipUsageTxn sp i (rg_priceBreakdown target) who s = Inr (lr_usage res, s1)"
    and st: "settleRegistrationTxn icu i (no_options\<lparr>so_coveredAccessIdsBefore := Some (coveredAccessIdsOf s i),
       so_decide := Some guardSponsorshipChange, so_fields := patch\<rparr>) s1 = Inr (Some (lr_settled res), s')"
    by (rule link_InrE)
  from sp obtain sp0 where sp0: "sponsorship_of s x = Some sp0"
    and spe: "sp = sp0\<lparr>sp_coveredAccessIds := Some (covered_ids sp0)\<rparr>"
    by (auto simp: readLinkableSponsorship_def)
  have spx: "sp_id sp = x" by (rule readLinkable_id[OF sp])
  have sp0x: "sp_id sp0 = x" using spx by (simp add: spe)
  have unsettled: "rg_paymentStatus target \<notin> {PAID, WAIVED, REFUNDED}"
    using ref by (auto simp: sponsorshipLinkRefusal_def LINK_REFUSED_STATUSES_def split: if_splits)
  from lk obtain ids amount where "db_ids s = us_id (lr_usage res) # ids"
    and "findUsage s (sp_id sp) i = None"
    and "sponsorshipAmountFor (coverage_of sp) (rg_priceBreakdown target) = Inr amount"
    and u: "lr_usage res = \<lparr>us_id = us_id (lr_usage res), us_sponsorshipId = sp_id sp, us_registrationId = Some i,
      us_amountApplied = amount, us_appliedBy = who\<rparr>"
    and s1: "s1 = s\<lparr>db_ids := ids, db_usages := db_usages s @ [lr_usage res],
      db_sponsorships := update_rows (\<lambda>r. sp_id r = sp_id sp \<and> sp_status r \<noteq> Sp_cancelled)
        (\<lambda>r. r\<lparr>sp_status := Sp_used\<rparr>) (db_sponsorships s)\<rparr>"
    by (rule linkSponsorshipUsageTxn_Inr)
  have ux: "us_sponsorshipId (lr_usage res) = x" by (subst u) (simp add: spx)
  note ls = link_usage_store[OF assms(1) lk]
  have eff: "preserved s s' \<and> db_sponsorships s' = db_sponsorships s1 \<and>
      (\<forall>j. coverages s' j = coverages s1 j) \<and> (\<forall>j. j \<noteq> i \<longrightarrow> registration_of s' j = registration_of s1 j) \<and>
      (\<forall>j. countSponsorshipUsages s' j = countSponsorshipUsages s1 j) \<and>
      (\<forall>j. linkedRegistrationIds s' j = linkedRegistrationIds s1 j)"
    by (rule settle_after_usage_change[OF _ _ _ _ _ _ st])
      (use ls link_usage_known[OF lk] tg in \<open>simp_all add: no_options_def\<close>)
  have dist: "distinct (map sp_id (db_sponsorships s))" using assms(1) by (simp add: store_ok_def db_wf_def)
  have "sponsorship_of s1 x = Some (sp0\<lparr>sp_status := Sp_used\<rparr>)"
    by (rule sponsorship_used_after[OF _ sp0 _ dist]) (use nc in \<open>simp_all add: s1 spe sp0x\<close>)
  then have used: "sponsorship_of s' x = Some (sp0\<lparr>sp_status := Sp_used\<rparr>)"
    using eff by (simp add: sponsorship_of_def)
  have cnt: "countSponsorshipUsages s' x = Suc (countSponsorshipUsages s x)"
    using eff by (simp add: countSponsorshipUsages_def s1 ux)
  show ?thesis
    using sp0 nc tg ev new unsettled used cnt eff preserved_conserved[OF _ assms(2)]
    by (intro exI[of _ sp0] exI[of _ target]) (simp add: spe s1 registration_of_def)
qed

definition ex_pending_db :: db where
  "ex_pending_db = (ex_db [ex_reg] 0)\<lparr>db_sponsorships := [ex_sponsorship ''s1'' Sp_pending]\<rparr>"

definition ex_linked_reg :: registration_row where
  "ex_linked_reg = ex_reg\<lparr>rg_paymentStatus := PARTIAL, rg_sponsorshipAmount := 50000, rg_updatedAt := 1000,
     rg_priceBreakdown := ex_breakdown\<lparr>pb_sponsorshipTotal := 50000, pb_total := 100000\<rparr>\<rparr>"

definition ex_linked_db :: db where
  "ex_linked_db = (ex_db [ex_linked_reg] 2)
    \<lparr>db_sponsorships := [ex_sponsorship ''s1'' Sp_used], db_ids := [''u2''],
     db_usages := [(ex_usage 50000)\<lparr>us_id := ''u1''\<rparr>]\<rparr>"

definition ex_link_result :: link_result where
  "ex_link_result = \<lparr>lr_sponsorship = ex_sponsorship ''s1'' Sp_pending,
    lr_usage = (ex_usage 50000)\<lparr>us_id := ''u1''\<rparr>,
    lr_settled = \<lparr>sr_written = True, sr_eventId = ''ev'', sr_before = readSettlementRow ex_reg,
      sr_after = readSettlementRow ex_linked_reg, sr_coveredAccessIds = [''ws''],
      sr_paidAccess = \<lparr>pm_incremented = [''ws''], pm_decremented = []\<rparr>\<rparr>\<rparr>"

lemma ex_link_run:
  "linkSponsorshipToRegistrationTxn ex_icu ''s1'' ''r1'' ''admin'' no_fields ex_pending_db =
    Inr (ex_link_result, ex_linked_db)"
  by code_simp

lemma ex_pending_ok: "store_ok ex_pending_db" "conserved ex_pending_db"
proof -
  show "store_ok ex_pending_db"
    by (simp add: store_ok_def db_wf_def ex_pending_db_def ex_db_def accesses_wf_def accesses_ok_def
        ex_access_def access_row_ok_def)
  show "conserved ex_pending_db"
    unfolding conserved_def by (simp add: ex_pending_db_def ex_db_def) code_simp
qed

theorem linkSponsorship_safe_witness:
  "conserved ex_linked_db \<and> countSponsorshipUsages ex_linked_db ''s1'' = 1 \<and>
   sponsorship_of ex_linked_db ''s1'' = Some (ex_sponsorship ''s1'' Sp_used)"
proof -
  have b: "sponsorship_of ex_pending_db ''s1'' = Some (ex_sponsorship ''s1'' Sp_pending)"
    "countSponsorshipUsages ex_pending_db ''s1'' = 0"
    by code_simp+
  from linkSponsorship_safe[OF ex_pending_ok ex_link_run] b show ?thesis
    by (auto simp: ex_sponsorship_def)
qed

end
