(* ===== verification/AccessDrop.thy ===== *)
theory AccessDrop
  imports Conservation
begin

text \<open>
  \<open>packages/db/src/settlement/access-drop.ts\<close>: when an access item fills up or is deactivated,
  every unsettled registration that holds it without a sponsorship covering it loses the item, one
  transaction per registration. A transaction that throws leaves the database as it was; the
  function around it turns the throw into an outcome.
\<close>

section \<open>Enqueueing a drop\<close>

record drop =
  dp_eventId :: string
  dp_accessId :: string
  dp_reason :: drop_reason

record drop_summary =
  sm_accessId :: string
  sm_reason :: drop_reason
  sm_dropped :: "string list"
  sm_skipped :: "(string \<times> skip_reason) list"

definition DROP_AUDIT_ACTION :: "drop_reason \<Rightarrow> string" where
  "DROP_AUDIT_ACTION reason = (case reason of Capacity_reached \<Rightarrow> ''ACCESS_CAPACITY_REACHED''
    | Deactivated \<Rightarrow> ''ACCESS_DEACTIVATED'')"

definition ACCESS_DROP_SKIPPED_OVERPAID_AUDIT_ACTION :: string where
  "ACCESS_DROP_SKIPPED_OVERPAID_AUDIT_ACTION = ''ACCESS_DROP_SKIPPED_OVERPAID''"

definition row_full :: "access_row \<Rightarrow> bool" where
  "row_full r \<longleftrightarrow> (case ea_maxCapacity r of None \<Rightarrow> False | Some c \<Rightarrow> c \<le> ea_paidCount r)"

definition enqueueAccessDrops :: "string \<Rightarrow> string list \<Rightarrow> drop_reason \<Rightarrow> db \<Rightarrow> string list \<times> db" where
  "enqueueAccessDrops eventId accessIds reason s =
    (let ids0 = sort (uniq accessIds);
         ids = (if reason = Capacity_reached
           then (let full = map ea_id (filter row_full (getAccessCapacityRowsByIds s ids0))
                 in filter (\<lambda>i. i \<in> set full) ids0)
           else ids0)
     in (ids, fold (\<lambda>accessId t.
          snd (enqueueOutboxEvent (Access_capacityReached eventId accessId reason) None 10 t)) ids s))"

definition dropStillApplies :: "db \<Rightarrow> string \<Rightarrow> drop_reason \<Rightarrow> (string \<times> bool) option" where
  "dropStillApplies s accessId reason =
    map_option (\<lambda>r. (ea_name r, if reason = Deactivated then \<not> ea_active r else row_full r))
      (access_of s accessId)"

definition candidateRegistrationIds :: "db \<Rightarrow> string \<Rightarrow> string \<Rightarrow> string list" where
  "candidateRegistrationIds s eventId accessId =
    sort (map rg_id (filter (\<lambda>r. rg_eventId r = eventId
        \<and> rg_paymentStatus r \<notin> {PAID, SPONSORED, WAIVED, REFUNDED}
        \<and> (case rg_accessTypeIds r of None \<Rightarrow> False | Some ids \<Rightarrow> accessId \<in> set ids))
      (db_registrations s)))"

section \<open>Dropping from one registration\<close>

text \<open>The settlement's guard: the registration may not end up paid more than it owes.\<close>

definition drop_guard ::
  "drop \<Rightarrow> string \<Rightarrow> settlement_decision_input \<Rightarrow> error + settlement_decision option" where
  "drop_guard d accessName state =
    (if di_net state < ss_paidAmount (di_before state)
     then Inl (SkipDrop OVERPAID (Some \<lparr>os_accessId = dp_accessId d, os_accessName = accessName,
        os_reason = dp_reason d, os_paidAmount = ss_paidAmount (di_before state),
        os_amountDue = max 0 (ss_totalAmount (di_before state) - ss_sponsorshipAmount (di_before state)),
        os_amountDueWithoutAccess = di_net state\<rparr>))
     else Inr None)"

definition drop_options :: "drop \<Rightarrow> string \<Rightarrow> registration_row \<Rightarrow> dropped_result \<Rightarrow> settle_options" where
  "drop_options d accessName reg result =
    no_options\<lparr>so_priceBreakdown := Some (dr_breakdown result),
      so_totalAmount := Some (dr_gross result),
      so_decide := Some (drop_guard d accessName),
      so_fields := no_fields\<lparr>
        fp_accessTypeIds := Some (Some (filter (\<lambda>i. i \<noteq> dp_accessId d)
          (case rg_accessTypeIds reg of None \<Rightarrow> [] | Some ids \<Rightarrow> ids))),
        fp_droppedAccessIds := Some (Some ((case rg_droppedAccessIds reg of None \<Rightarrow> [] | Some ids \<Rightarrow> ids)
          @ [dp_accessId d]))\<rparr>\<rparr>"

definition client_of :: "db \<Rightarrow> string \<Rightarrow> string option" where
  "client_of s eventId = map_option ev_clientId (row_of ev_id eventId (db_events s))"

text \<open>The checks from the locked row, in order; then what is dropped and the item's name.\<close>

definition drop_checks ::
  "(string \<Rightarrow> nat option) \<Rightarrow> string \<Rightarrow> drop \<Rightarrow> db
    \<Rightarrow> error + registration_row \<times> string \<times> dropped_result \<times> string" where
  "drop_checks icu registrationId d s =
    (let skip = (\<lambda>r. Inl (SkipDrop r None)) in
     if \<not> lockRegistrationForUpdate s registrationId then skip NOT_HELD
     else case registration_of s registrationId of
       None \<Rightarrow> skip NOT_HELD
     | Some reg \<Rightarrow>
       (case client_of s (rg_eventId reg) of
          None \<Rightarrow> skip NOT_HELD
        | Some clientId \<Rightarrow>
           if rg_eventId reg \<noteq> dp_eventId d then skip NOT_HELD
           else if rg_paymentStatus reg = REFUNDED \<or> isFullySettled (Some (rg_paymentStatus reg))
           then skip SETTLED
           else if list_ex (\<lambda>u. dp_accessId d \<in> set (sc_coveredAccessIds (ur_sponsorship u)))
               (findRegistrationUsagesForRecalc s registrationId)
           then skip COVERED
           else
             sbind (dropAccessItem icu (rg_priceBreakdown reg) (dp_accessId d)
                 (rg_sponsorshipAmount reg) (dp_reason d)) (\<lambda>result.
             case result of None \<Rightarrow> skip NOT_HELD
             | Some res \<Rightarrow>
                (case dropStillApplies s (dp_accessId d) (dp_reason d) of
                   Some (name, True) \<Rightarrow> Inr (reg, clientId, res, name)
                 | _ \<Rightarrow> skip NO_LONGER_APPLIES))))"

text \<open>What follows the settlement: counter, audit log, email, further drops, events.\<close>

definition drop_effects ::
  "string \<Rightarrow> drop \<Rightarrow> string \<Rightarrow> string \<Rightarrow> dropped_result \<Rightarrow> settle_result \<Rightarrow> db \<Rightarrow> db" where
  "drop_effects registrationId d clientId name result settled s =
    (let s1 = snd (casDecrementAccessRegisteredCount (dp_accessId d) (li_quantity (dr_dropped result)) s);
         before = sr_before settled; after = sr_after settled;
         changes = [Access_dropped name (dp_reason d),
           Total_changed (ss_totalAmount before) (ss_totalAmount after),
           Price_deducted (li_subtotal (dr_dropped result))]
           @ (if ss_paymentStatus before \<noteq> ss_paymentStatus after
              then [Status_changed (ss_paymentStatus before) (ss_paymentStatus after)] else []);
         s2 = insertAuditLog \<lparr>au_entityType = ''Registration'', au_entityId = registrationId, au_action = DROP_AUDIT_ACTION (dp_reason d),
           au_changes = changes, au_performedBy = Some ''SYSTEM'', au_ipAddress = None\<rparr> s1;
         becameSettled = (isFullySettled (Some (ss_paymentStatus after))
           \<and> \<not> isFullySettled (Some (ss_paymentStatus before)));
         s3 = (if becameSettled then snd (enqueueTriggeredEmailOutbox ''PAYMENT_CONFIRMED''
             (dp_eventId d) registrationId (''email:triggered:PAYMENT_CONFIRMED:'' @ registrationId) s2)
           else s2);
         moves = sr_paidAccess settled;
         s4 = snd (enqueueAccessDrops (dp_eventId d) (pm_incremented moves) Capacity_reached s3)
     in emitSettlementEvents (settlementEventPair registrationId (dp_eventId d) clientId
          (ss_paymentStatus before) (Some (ss_paymentStatus after)) True
          (sort (uniq (dp_accessId d # pm_incremented moves @ pm_decremented moves)))) s4)"

definition drop_txn ::
  "(string \<Rightarrow> nat option) \<Rightarrow> string \<Rightarrow> drop \<Rightarrow> db \<Rightarrow> error + unit \<times> db" where
  "drop_txn icu registrationId d s =
    sbind (drop_checks icu registrationId d s) (\<lambda>(reg, clientId, result, name).
    sbind (settleRegistrationTxn icu registrationId (drop_options d name reg result) s) (\<lambda>(settled, s1).
    case settled of
      None \<Rightarrow> Inl (SkipDrop NOT_HELD None)
    | Some res \<Rightarrow> Inr ((), drop_effects registrationId d clientId name result res s1)))"

section \<open>Outcomes\<close>

text \<open>A locking transaction: its writes when it returns, none when it throws.\<close>

definition withLockingTxn :: "(db \<Rightarrow> 'e + 'a \<times> db) \<Rightarrow> db \<Rightarrow> ('e + 'a) \<times> db" where
  "withLockingTxn fn s = (case fn s of Inl e \<Rightarrow> (Inl e, s) | Inr (a, s') \<Rightarrow> (Inr a, s'))"

definition recordOverpaidDropSkip :: "string \<Rightarrow> overpaid_skip \<Rightarrow> db \<Rightarrow> bool \<times> db" where
  "recordOverpaidDropSkip registrationId skip s =
    (if \<not> lockRegistrationForUpdate s registrationId then (False, s)
     else
      (let recorded = filter (\<lambda>a. au_entityId a = registrationId
             \<and> au_action a = ACCESS_DROP_SKIPPED_OVERPAID_AUDIT_ACTION) (db_audit s)
       in if list_ex (\<lambda>a. au_changes a = [Access_kept skip]) recorded then (False, s)
          else (True, insertAuditLog \<lparr>au_entityType = ''Registration'', au_entityId = registrationId,
             au_action = ACCESS_DROP_SKIPPED_OVERPAID_AUDIT_ACTION,
             au_changes = [Access_kept skip], au_performedBy = Some ''SYSTEM'', au_ipAddress = None\<rparr> s)))"

datatype drop_outcome = Dropped | Skipped skip_reason

definition dropAccessFromRegistration ::
  "(string \<Rightarrow> nat option) \<Rightarrow> string \<Rightarrow> drop \<Rightarrow> db \<Rightarrow> (error + drop_outcome) \<times> db" where
  "dropAccessFromRegistration icu registrationId d s =
    (case withLockingTxn (drop_txn icu registrationId d) s of
       (Inr _, s') \<Rightarrow> (Inr Dropped, s')
     | (Inl (SkipDrop reason overpaid), s') \<Rightarrow>
         (Inr (Skipped reason), case overpaid of None \<Rightarrow> s'
            | Some skip \<Rightarrow> snd (recordOverpaidDropSkip registrationId skip s'))
     | (Inl (AccessCapacityExceeded _ _ _ _), s') \<Rightarrow> (Inr (Skipped CAPACITY_FULL), s')
     | (Inl e, s') \<Rightarrow> (Inl e, s'))"

text \<open>
  The loop over the candidates. \<open>aborted\<close> tells whether the signal is aborted when the loop
  reaches a registration. A throw keeps what the earlier transactions committed.
\<close>

fun drop_loop ::
  "(string \<Rightarrow> nat option) \<Rightarrow> (string \<Rightarrow> bool) \<Rightarrow> drop \<Rightarrow> string list \<Rightarrow> drop_summary \<Rightarrow> db
    \<Rightarrow> (error + drop_summary) \<times> db" where
  "drop_loop icu aborted d [] summary s = (Inr summary, s)"
| "drop_loop icu aborted d (registrationId # rest) summary s =
    (if aborted registrationId then (Inl (Plain_error ''access drop aborted''), s)
     else case dropAccessFromRegistration icu registrationId d s of
       (Inl e, s') \<Rightarrow> (Inl e, s')
     | (Inr Dropped, s') \<Rightarrow>
         drop_loop icu aborted d rest (summary\<lparr>sm_dropped := sm_dropped summary @ [registrationId]\<rparr>) s'
     | (Inr (Skipped reason), s') \<Rightarrow>
         (let summary' = summary\<lparr>sm_skipped := sm_skipped summary @ [(registrationId, reason)]\<rparr> in
          if reason = NO_LONGER_APPLIES then (Inr summary', s')
          else drop_loop icu aborted d rest summary' s'))"

definition dropAccessFromUnsettledRegistrations ::
  "(string \<Rightarrow> nat option) \<Rightarrow> (string \<Rightarrow> bool) \<Rightarrow> drop \<Rightarrow> db \<Rightarrow> (error + drop_summary) \<times> db" where
  "dropAccessFromUnsettledRegistrations icu aborted d s =
    (let summary = \<lparr>sm_accessId = dp_accessId d, sm_reason = dp_reason d, sm_dropped = [], sm_skipped = []\<rparr> in
     case dropStillApplies s (dp_accessId d) (dp_reason d) of
       Some (_, True) \<Rightarrow>
         drop_loop icu aborted d (candidateRegistrationIds s (dp_eventId d) (dp_accessId d)) summary s
     | _ \<Rightarrow> (Inr summary, s))"

section \<open>The outbox handler\<close>

text \<open>A payload as it is stored: an object's properties, or not an object.\<close>

datatype payload_value = Payload_string string | Payload_other

definition parsePayload :: "(string \<times> payload_value) list option \<Rightarrow> drop option" where
  "parsePayload payload =
    (case payload of None \<Rightarrow> None
     | Some p \<Rightarrow>
        (case (map_of p ''eventId'', map_of p ''accessId'', map_of p ''reason'') of
           (Some (Payload_string e), Some (Payload_string a), Some (Payload_string r)) \<Rightarrow>
             if r = ''capacity_reached''
             then Some \<lparr>dp_eventId = e, dp_accessId = a, dp_reason = Capacity_reached\<rparr>
             else if r = ''deactivated''
             then Some \<lparr>dp_eventId = e, dp_accessId = a, dp_reason = Deactivated\<rparr>
             else None
         | _ \<Rightarrow> None))"

datatype handler_result = Processed | Handler_skipped

definition handleAccessCapacityReachedOutbox ::
  "(string \<Rightarrow> nat option) \<Rightarrow> (string \<Rightarrow> bool) \<Rightarrow> (string \<times> payload_value) list option \<Rightarrow> db
    \<Rightarrow> (error + handler_result) \<times> db" where
  "handleAccessCapacityReachedOutbox icu aborted payload s =
    (case parsePayload payload of
       None \<Rightarrow> (Inr Handler_skipped, s)
     | Some d \<Rightarrow>
        (case dropAccessFromUnsettledRegistrations icu aborted d s of
           (Inl e, s') \<Rightarrow> (Inl e, s')
         | (Inr _, s') \<Rightarrow> (Inr Processed, s')))"


section \<open>What a drop leaves alone\<close>

text \<open>States that differ in the outbox and the audit log only.\<close>

definition same_store :: "db \<Rightarrow> db \<Rightarrow> bool" where
  "same_store s s' \<longleftrightarrow> s' = s\<lparr>db_outbox := db_outbox s', db_audit := db_audit s'\<rparr>"

lemma same_store_refl [simp]: "same_store s s"
  by (simp add: same_store_def)

lemma same_store_trans: "same_store s t \<Longrightarrow> same_store t u \<Longrightarrow> same_store s u"
  unfolding same_store_def by (cases s; cases t; cases u) simp

lemma same_store_enqueue [simp]: "same_store s (snd (enqueueOutboxEvent p k m s))"
  by (simp add: enqueueOutboxEvent_def same_store_def)

lemma same_store_audit [simp]: "same_store s (insertAuditLog a s)"
  by (simp add: insertAuditLog_def same_store_def)

lemma same_store_fold:
  "(\<And>x t. same_store t (f x t)) \<Longrightarrow> same_store s (fold f xs s)"
  by (induction xs arbitrary: s) (auto intro: same_store_trans)

lemma same_store_drops [simp]: "same_store s (snd (enqueueAccessDrops e ids r s))"
  by (simp add: enqueueAccessDrops_def Let_def same_store_fold)

lemma same_store_email [simp]: "same_store s (snd (enqueueTriggeredEmailOutbox tr e r k s))"
  by (simp add: enqueueTriggeredEmailOutbox_def)

lemma same_store_realtime [simp]: "same_store s (snd (enqueueRealtimeOutboxEvent ev s))"
  by (simp add: enqueueRealtimeOutboxEvent_def)

lemma same_store_syncs [simp]: "same_store s (snd (enqueueNetworkingRegistrationSyncs ts s))"
  by (simp add: enqueueNetworkingRegistrationSyncs_def Let_def same_store_fold split_def)

lemma same_store_events [simp]: "same_store s (emitSettlementEvents evs s)"
  unfolding emitSettlementEvents_def
  by (rule same_store_trans[OF same_store_syncs same_store_fold]) simp

lemma same_store_fields:
  assumes "same_store s s'"
  shows "db_registrations s' = db_registrations s" "db_accesses s' = db_accesses s"
    "db_usages s' = db_usages s" "db_sponsorships s' = db_sponsorships s" "db_ids s' = db_ids s"
    "db_events s' = db_events s"
  using arg_cong[OF assms[unfolded same_store_def], of db_registrations]
    arg_cong[OF assms[unfolded same_store_def], of db_accesses]
    arg_cong[OF assms[unfolded same_store_def], of db_usages]
    arg_cong[OF assms[unfolded same_store_def], of db_sponsorships]
    arg_cong[OF assms[unfolded same_store_def], of db_ids]
    arg_cong[OF assms[unfolded same_store_def], of db_events]
  by simp_all

lemma coverages_tables:
  "db_usages s' = db_usages s \<Longrightarrow> db_sponsorships s' = db_sponsorships s \<Longrightarrow> coverages s' j = coverages s j"
  by (simp add: coverages_def findRegistrationUsagesForRecalc_def sponsorship_of_def)

lemma same_store_preserved:
  assumes "store_ok s" and "same_store s s'"
  shows "preserved s s'"
proof -
  note f = same_store_fields[OF assms(2)]
  have "discrepancy s' k = discrepancy s k" for k
    by (rule discrepancy_same) (simp_all add: f coverages_tables[OF f(3,4)])
  then show ?thesis
    using assms(1) by (simp add: preserved_def store_ok_def db_wf_def accesses_ok_def accesses_wf_def f
        same_owners_rows usages_known_iff)
qed

lemma registered_preserved:
  assumes "store_ok s"
  shows "preserved s (snd (casDecrementAccessRegisteredCount k n s))"
proof -
  let ?s = "snd (casDecrementAccessRegisteredCount k n s)"
  let ?p = "\<lambda>r. ea_id r = k \<and> n \<le> ea_registeredCount r"
  let ?f = "\<lambda>r. r\<lparr>ea_registeredCount := ea_registeredCount r - n\<rparr>"
  have s: "?s = s\<lparr>db_accesses := update_rows ?p ?f (db_accesses s)\<rparr>"
    by (simp add: casDecrementAccessRegisteredCount_def Let_def)
  have same: "map_option ea_paidCount (row_of ea_id x (update_rows p ?f t)) = map_option ea_paidCount (row_of ea_id x t)"
    for x p t by (induction t) auto
  have paid: "paid_count ?s x = paid_count s x" for x
    using same[of x ?p "db_accesses s"]
    by (auto simp: paid_count_def access_of_def s split: option.splits)
  have row: "access_row_ok (?f r) = access_row_ok r" for r
    by (cases "ea_maxCapacity r") (simp_all add: access_row_ok_def)
  have ok: "accesses_ok ?s"
    using assms by (auto simp: store_ok_def accesses_ok_def s keys_update_rows set_update_rows row)
  have "discrepancy ?s x = discrepancy s x" for x
    by (simp add: discrepancy_def paid places_held_def registration_state_def coveredAccessIdsOf_coverages)
      (simp add: s coverages_def findRegistrationUsagesForRecalc_def sponsorship_of_def)
  then show ?thesis
    using assms ok by (simp add: preserved_def store_ok_def)
      (simp add: db_wf_def accesses_wf_def s keys_update_rows same_owners_rows usages_known_iff)
qed

lemma settle_plain_preserved:
  assumes "store_ok s" and "settleRegistrationTxn icu i o' s = Inr (res, s')"
    and "so_coveredAccessIdsBefore o' = None"
  shows "preserved s s'"
proof (cases "\<exists>r. res = Some r \<and> sr_written r")
  case True
  then obtain r where r: "res = Some r" "sr_written r" by blast
  have ok: "db_wf s" "accesses_ok s" using assms(1) by (simp_all add: store_ok_def)
  from assms(2) r(1) have run: "settleRegistrationTxn icu i o' s = Inr (Some r, s')" by simp
  obtain row where m: "moved o' i row s s'" by (rule settle_discrepancy[OF ok run r(2)])
  note own = moved_owners[OF m]
  note m = m[unfolded moved_def]
  then have "paid_before o' (readSettlementRow row) (coveredAccessIdsOf s i) = registration_state s row"
    using registration_of_key[of s i row] assms(3)
    by (simp add: paid_before_def registration_state_def readSettlementRow_def or_stored_def)
  with m assms(1) own show ?thesis by (simp add: preserved_def store_ok_def)
next
  case False
  then have "s' = s"
    using assms(2) settle_row_written[of icu i o' _ s]
    by (auto simp: settleRegistrationTxn_def elim!: sbind_InrE split: if_split_asm option.split_asm)
  then show ?thesis using assms(1) by (simp add: preserved_refl)
qed

lemma drop_effects_preserved:
  assumes "store_ok s"
  shows "preserved s (drop_effects i d c name result settled s)"
proof -
  let ?s1 = "snd (casDecrementAccessRegisteredCount (dp_accessId d) (li_quantity (dr_dropped result)) s)"
  have p1: "preserved s ?s1" by (rule registered_preserved[OF assms])
  then have ok1: "store_ok ?s1" by (simp add: preserved_def)
  have "same_store ?s1 (drop_effects i d c name result settled s)"
    unfolding drop_effects_def Let_def
    by (intro same_store_trans[OF _ same_store_events] same_store_trans[OF _ same_store_drops])
      (auto intro: same_store_trans[OF same_store_audit same_store_email])
  from preserved_trans[OF p1 same_store_preserved[OF ok1 this]] show ?thesis .
qed

lemma drop_txn_InrE:
  assumes "drop_txn icu i d s = Inr (u, s')"
  obtains reg c result name settled s1 where "drop_checks icu i d s = Inr (reg, c, result, name)"
    "settleRegistrationTxn icu i (drop_options d name reg result) s = Inr (Some settled, s1)"
    "s' = drop_effects i d c name result settled s1"
  using assms unfolding drop_txn_def
  by (auto elim!: sbind_InrE split: option.split_asm)

lemma drop_options_fields:
  "so_coveredAccessIdsBefore (drop_options d name reg r) = None"
  "so_expectedUpdatedAt (drop_options d name reg r) = None"
  "so_priceBreakdown (drop_options d name reg r) = Some (dr_breakdown r)"
  "so_totalAmount (drop_options d name reg r) = Some (dr_gross r)"
  "so_decide (drop_options d name reg r) = Some (drop_guard d name)"
  by (simp_all add: drop_options_def no_options_def)

lemma drop_txn_preserved:
  assumes "store_ok s" and "drop_txn icu i d s = Inr (u, s')"
  shows "preserved s s'"
proof -
  from assms(2) obtain reg c result name settled s1 where "drop_checks icu i d s = Inr (reg, c, result, name)"
    and st: "settleRegistrationTxn icu i (drop_options d name reg result) s = Inr (Some settled, s1)"
    and s': "s' = drop_effects i d c name result settled s1"
    by (rule drop_txn_InrE)
  have p: "preserved s s1" by (rule settle_plain_preserved[OF assms(1) st]) (simp add: drop_options_fields)
  then have "store_ok s1" by (simp add: preserved_def)
  from preserved_trans[OF p drop_effects_preserved[OF this]] show ?thesis by (simp add: s')
qed

lemma record_same_store [simp]: "same_store s (snd (recordOverpaidDropSkip i skip s))"
  by (simp add: recordOverpaidDropSkip_def Let_def)

text \<open>The two kinds of outcome: a committed drop, or nothing but a history entry.\<close>

lemma dropAccess_cases:
  assumes "dropAccessFromRegistration icu i d s = (out, s')"
  obtains (dropped) u where "out = Inr Dropped" "drop_txn icu i d s = Inr (u, s')"
  | (skipped) "out \<noteq> Inr Dropped" "same_store s s'"
proof (cases "drop_txn icu i d s")
  case (Inr r)
  then show ?thesis
    using assms by (cases r) (auto simp: dropAccessFromRegistration_def withLockingTxn_def intro: dropped)
next
  case (Inl e)
  have "out \<noteq> Inr Dropped \<and> same_store s s'"
    using assms Inl
    by (cases e) (auto simp: dropAccessFromRegistration_def withLockingTxn_def split: option.splits)
  then show ?thesis by (intro skipped) simp_all
qed

lemma dropAccess_preserved:
  assumes "store_ok s" and "dropAccessFromRegistration icu i d s = (out, s')"
  shows "preserved s s'"
  using assms(2)
proof (cases rule: dropAccess_cases)
  case (dropped u)
  from drop_txn_preserved[OF assms(1) dropped(2)] show ?thesis .
next
  case skipped
  from same_store_preserved[OF assms(1) skipped(2)] show ?thesis .
qed

lemma drop_loop_preserved:
  "drop_loop icu ab d ids sm s = (out, s') \<Longrightarrow> store_ok s \<Longrightarrow> preserved s s'"
proof (induction ids arbitrary: sm s)
  case Nil
  then show ?case by (simp add: preserved_refl)
next
  case (Cons i ids)
  obtain o1 s1 where one: "dropAccessFromRegistration icu i d s = (o1, s1)" by fastforce
  have p: "preserved s s1" by (rule dropAccess_preserved[OF Cons.prems(2) one])
  then have ok1: "store_ok s1" by (simp add: preserved_def)
  consider "s' = s" | "s' = s1" | sm' where "drop_loop icu ab d ids sm' s1 = (out, s')"
    using Cons.prems(1) one by (auto simp: Let_def split: if_splits sum.splits drop_outcome.splits)
  then show ?case
  proof cases
    case 3
    from preserved_trans[OF p Cons.IH[OF 3 ok1]] show ?thesis .
  qed (use p Cons.prems(2) in \<open>simp_all add: preserved_refl\<close>)
qed

lemma dropAll_preserved:
  assumes "store_ok s" and "dropAccessFromUnsettledRegistrations icu ab d s = (out, s')"
  shows "preserved s s'"
  using assms drop_loop_preserved[OF _ assms(1)] preserved_refl[OF assms(1)]
  unfolding dropAccessFromUnsettledRegistrations_def Let_def
  by (auto split: option.split_asm bool.split_asm prod.split_asm)

section \<open>What a drop does to its registration\<close>

definition unsettled :: "payment_status \<Rightarrow> bool" where
  "unsettled st \<longleftrightarrow> st \<noteq> REFUNDED \<and> \<not> isFullySettled (Some st)"

definition holds_item :: "registration_row \<Rightarrow> string \<Rightarrow> bool" where
  "holds_item r k \<longleftrightarrow> k \<in> li_accessId ` set (pb_accessItems (rg_priceBreakdown r))"

lemma covered_iff:
  "list_ex (\<lambda>u. k \<in> set (sc_coveredAccessIds (ur_sponsorship u))) (findRegistrationUsagesForRecalc s i)
    \<longleftrightarrow> k \<in> set (coveredAccessIdsOf s i)"
  by (auto simp: coveredAccessIdsOf_def covered_by_def list_ex_iff)

lemma drop_checks_Inr:
  assumes "drop_checks icu i d s = Inr (reg, c, result, name)"
  shows "registration_of s i = Some reg \<and> client_of s (rg_eventId reg) = Some c \<and>
    rg_eventId reg = dp_eventId d \<and> unsettled (rg_paymentStatus reg) \<and>
    dp_accessId d \<notin> set (coveredAccessIdsOf s i) \<and>
    dropAccessItem icu (rg_priceBreakdown reg) (dp_accessId d) (rg_sponsorshipAmount reg) (dp_reason d)
      = Inr (Some result) \<and>
    dropStillApplies s (dp_accessId d) (dp_reason d) = Some (name, True)"
  using assms unfolding drop_checks_def Let_def covered_iff
  by (auto simp: unsettled_def elim!: sbind_InrE
      split: if_split_asm option.split_asm prod.split_asm bool.split_asm)

lemma drop_guard_settle:
  assumes "settleRegistrationTxn icu i (drop_options d name reg result) s = Inr (Some res, s')"
    and "registration_of s i = Some row"
  shows "ss_paidAmount (sr_after res) = rg_paidAmount row \<and> ss_totalAmount (sr_after res) = dr_gross result \<and>
    rg_paidAmount row \<le> max 0 (ss_totalAmount (sr_after res) - ss_sponsorshipAmount (sr_after res)) \<and>
    pb_accessItems (ss_priceBreakdown (sr_after res)) = pb_accessItems (dr_breakdown result)"
proof -
  let ?o = "drop_options d name reg result"
  have w: "sr_written res" by (rule settle_written[OF assms(1)]) (simp add: drop_options_fields)
  from assms(1) w obtain row2 sp cov s1 pb net chosen s2 w2 where
    row: "registration_of s i = Some row2" and bef: "sr_before res = readSettlementRow row2"
    and "sr_eventId res = rg_eventId row2"
    and "so_expectedUpdatedAt ?o \<noteq> None \<longrightarrow> so_expectedUpdatedAt ?o = Some (rg_updatedAt row2)"
    and "recomputeRegistrationSponsorship i (or_stored (so_priceBreakdown ?o) (rg_priceBreakdown row2))
      (or_stored (so_keepUnlinkedSponsorship ?o) True) s = Inr ((sp, cov), s1)"
    and nb: "netBreakdown icu (or_stored (so_priceBreakdown ?o) (rg_priceBreakdown row2)) sp = Inr pb"
    and tot: "ss_totalAmount (sr_after res) = (case so_totalAmount ?o of Some t \<Rightarrow> t
      | None \<Rightarrow> if so_priceBreakdown ?o \<noteq> None then pb_subtotal pb else rg_totalAmount row2)"
    and sp: "ss_sponsorshipAmount (sr_after res) = sp" and pb: "ss_priceBreakdown (sr_after res) = pb"
    and net: "so_decide ?o \<noteq> None \<longrightarrow> net = ss_totalAmount (sr_after res) - sp"
    and ch: "chosen_decision ?o \<lparr>di_before = sr_before res, di_gross = ss_totalAmount (sr_after res),
      di_sponsorship = sp, di_net = max 0 net\<rparr> = Inr chosen"
    and paid: "ss_paidAmount (sr_after res) = or_stored (sd_paidAmount chosen) (rg_paidAmount row2)"
    by (rule settle_InrE)
  have "sd_paidAmount chosen = None \<and> rg_paidAmount row2 \<le> max 0 net"
    using ch by (auto simp: chosen_decision_def drop_options_fields drop_guard_def bef readSettlementRow_def
        elim!: sbind_InrE split: if_split_asm) (simp_all add: drop_options_def no_options_def)
  moreover have "pb_accessItems pb = pb_accessItems (dr_breakdown result)"
    using netBreakdown_fields(4)[OF nb] by (simp add: drop_options_fields or_stored_def)
  ultimately show ?thesis
    using row assms(2) tot net sp pb paid by (simp add: drop_options_fields or_stored_def)
qed

lemma drop_effects_tables:
  "db_registrations (drop_effects i d c name result settled s) = db_registrations s \<and>
   db_usages (drop_effects i d c name result settled s) = db_usages s \<and>
   db_sponsorships (drop_effects i d c name result settled s) = db_sponsorships s \<and>
   db_events (drop_effects i d c name result settled s) = db_events s"
proof -
  let ?s1 = "snd (casDecrementAccessRegisteredCount (dp_accessId d) (li_quantity (dr_dropped result)) s)"
  have "same_store ?s1 (drop_effects i d c name result settled s)"
    unfolding drop_effects_def Let_def
    by (intro same_store_trans[OF _ same_store_events] same_store_trans[OF _ same_store_drops])
      (auto intro: same_store_trans[OF same_store_audit same_store_email])
  from same_store_fields[OF this] show ?thesis
    by (simp add: casDecrementAccessRegisteredCount_def Let_def)
qed

lemma drop_txn_effect:
  assumes ok: "store_ok s" and run: "drop_txn icu i d s = Inr (u, s')"
  obtains reg reg' where "registration_of s i = Some reg" "registration_of s' i = Some reg'"
    "unsettled (rg_paymentStatus reg)" "rg_eventId reg = dp_eventId d" "rg_eventId reg' = rg_eventId reg"
    "dp_accessId d \<notin> set (coveredAccessIdsOf s i)" "holds_item reg (dp_accessId d)"
    "pb_accessItems (rg_priceBreakdown reg') =
      filter (\<lambda>l. li_accessId l \<noteq> dp_accessId d) (pb_accessItems (rg_priceBreakdown reg))"
    "rg_paidAmount reg' = rg_paidAmount reg"
    "rg_paidAmount reg' \<le> max 0 (rg_totalAmount reg' - rg_sponsorshipAmount reg')"
    "\<And>j. coverages s' j = coverages s j" "\<And>j. j \<noteq> i \<Longrightarrow> registration_of s' j = registration_of s j"
    "db_events s' = db_events s"
proof -
  from run obtain reg c result name settled s1 where ck: "drop_checks icu i d s = Inr (reg, c, result, name)"
    and st: "settleRegistrationTxn icu i (drop_options d name reg result) s = Inr (Some settled, s1)"
    and s': "s' = drop_effects i d c name result settled s1"
    by (rule drop_txn_InrE)
  note ck = drop_checks_Inr[OF ck]
  then have reg: "registration_of s i = Some reg" by simp
  have w: "sr_written settled" by (rule settle_written[OF st]) (simp add: drop_options_fields)
  have wf: "db_wf s" "accesses_ok s" using ok by (simp_all add: store_ok_def)
  obtain row where m: "moved (drop_options d name reg result) i row s s1"
    by (rule settle_discrepancy[OF wf st w])
  note m = m[unfolded moved_def]
  obtain f where r1: "registration_of s1 i = Some (f reg)" and str: "stores (f reg) (sr_after settled)"
    and ev: "rg_eventId (f reg) = rg_eventId reg" and dbev: "db_events s1 = db_events s"
    by (rule settle_effect[OF wf(1) st w]) (simp add: reg)
  note tables = drop_effects_tables[of i d c name result settled s1]
  note guard = drop_guard_settle[OF st reg]
  from ck obtain item items where item: "find (\<lambda>l. li_accessId l = dp_accessId d)
        (pb_accessItems (rg_priceBreakdown reg)) = Some item"
    and items: "items = filter (\<lambda>l. li_accessId l \<noteq> dp_accessId d) (pb_accessItems (rg_priceBreakdown reg))"
    and di: "pb_accessItems (dr_breakdown result) = items"
    by (auto elim: dropAccessItem_InrE)
  have holds: "holds_item reg (dp_accessId d)"
    using find_SomeD[OF item] by (force simp: holds_item_def)
  have cov: "coverages s' j = coverages s j" for j
    using coverages_tables[of s' s1 j] tables m by (simp add: s')
  have other: "registration_of s' j = registration_of s j" if "j \<noteq> i" for j
    using m tables that by (simp add: s' registration_of_def)
  show ?thesis
    by (rule that[of reg "f reg", OF reg _ _ _ ev _ holds _ _ _ cov other])
      (use ck r1 str guard tables di items dbev in
        \<open>auto simp: s' registration_of_def stores_def dest: same_breakdownD(1)\<close>)
qed

lemma find_filter_none:
  "filter (\<lambda>l. li_accessId l \<noteq> k) xs = ys \<Longrightarrow> find (\<lambda>l. li_accessId l = k) ys = None"
  by (auto simp: find_None_iff)

text \<open>What the checks answer on a registration that is settled, covered or without the item.\<close>

lemma drop_checks_refuse:
  assumes "registration_of s i = Some reg" and "client_of s (rg_eventId reg) = Some c"
    and "rg_eventId reg = dp_eventId d"
  shows "\<not> unsettled (rg_paymentStatus reg) \<Longrightarrow> drop_checks icu i d s = Inl (SkipDrop SETTLED None)"
    and "unsettled (rg_paymentStatus reg) \<Longrightarrow> dp_accessId d \<in> set (coveredAccessIdsOf s i) \<Longrightarrow>
      drop_checks icu i d s = Inl (SkipDrop COVERED None)"
    and "unsettled (rg_paymentStatus reg) \<Longrightarrow> dp_accessId d \<notin> set (coveredAccessIdsOf s i) \<Longrightarrow>
      \<not> holds_item reg (dp_accessId d) \<Longrightarrow> drop_checks icu i d s = Inl (SkipDrop NOT_HELD None)"
proof -
  note lock = lockRegistrationForUpdate_iff[of s i]
  show "\<not> unsettled (rg_paymentStatus reg) \<Longrightarrow> drop_checks icu i d s = Inl (SkipDrop SETTLED None)"
    using assms lock by (simp add: drop_checks_def unsettled_def)
  show "unsettled (rg_paymentStatus reg) \<Longrightarrow> dp_accessId d \<in> set (coveredAccessIdsOf s i) \<Longrightarrow>
      drop_checks icu i d s = Inl (SkipDrop COVERED None)"
    using assms lock by (auto simp: drop_checks_def unsettled_def covered_iff)
  show "unsettled (rg_paymentStatus reg) \<Longrightarrow> dp_accessId d \<notin> set (coveredAccessIdsOf s i) \<Longrightarrow>
      \<not> holds_item reg (dp_accessId d) \<Longrightarrow> drop_checks icu i d s = Inl (SkipDrop NOT_HELD None)"
    using assms lock dropAccessItem_None_iff[of icu "rg_priceBreakdown reg" "dp_accessId d"
        "rg_sponsorshipAmount reg" "dp_reason d"]
    by (auto simp: drop_checks_def unsettled_def covered_iff holds_item_def)
qed

lemma dropAccess_skip:
  "drop_checks icu i d s = Inl (SkipDrop r None) \<Longrightarrow>
    dropAccessFromRegistration icu i d s = (Inr (Skipped r), s)"
  by (simp add: dropAccessFromRegistration_def withLockingTxn_def drop_txn_def)

text \<open>
  C5: A committed drop takes the item, and only the item, from an unsettled registration of the
  event that held it without a sponsorship covering it, leaves the registration owing at least what
  it has paid, changes no other registration, keeps the paid counters equal to the places held, and
  is idempotent: dropping again changes nothing and reports NOT_HELD (or SETTLED).
\<close>

theorem dropAccessFromRegistration_dropped:
  assumes "store_ok s" and "conserved s" and "dropAccessFromRegistration icu i d s = (Inr Dropped, s')"
  shows "\<exists>reg reg'. registration_of s i = Some reg \<and> registration_of s' i = Some reg' \<and>
    unsettled (rg_paymentStatus reg) \<and> holds_item reg (dp_accessId d) \<and>
    dp_accessId d \<notin> set (coveredAccessIdsOf s i) \<and>
    pb_accessItems (rg_priceBreakdown reg') =
      filter (\<lambda>l. li_accessId l \<noteq> dp_accessId d) (pb_accessItems (rg_priceBreakdown reg)) \<and>
    rg_paidAmount reg' = rg_paidAmount reg \<and>
    rg_paidAmount reg' \<le> max 0 (rg_totalAmount reg' - rg_sponsorshipAmount reg') \<and>
    (\<forall>j. j \<noteq> i \<longrightarrow> registration_of s' j = registration_of s j) \<and> conserved s' \<and>
    dropAccessFromRegistration icu i d s' =
      (Inr (Skipped (if unsettled (rg_paymentStatus reg') then NOT_HELD else SETTLED)), s')"
proof -
  from assms(3) obtain u where run: "drop_txn icu i d s = Inr (u, s')"
    by (cases rule: dropAccess_cases) auto
  from drop_txn_effect[OF assms(1) run] obtain reg reg' where
    reg: "registration_of s i = Some reg" and reg': "registration_of s' i = Some reg'"
    and un: "unsettled (rg_paymentStatus reg)" and ev: "rg_eventId reg = dp_eventId d"
    and ev': "rg_eventId reg' = rg_eventId reg" and cov: "dp_accessId d \<notin> set (coveredAccessIdsOf s i)"
    and holds: "holds_item reg (dp_accessId d)"
    and items: "pb_accessItems (rg_priceBreakdown reg') =
      filter (\<lambda>l. li_accessId l \<noteq> dp_accessId d) (pb_accessItems (rg_priceBreakdown reg))"
    and paid: "rg_paidAmount reg' = rg_paidAmount reg"
    and net: "rg_paidAmount reg' \<le> max 0 (rg_totalAmount reg' - rg_sponsorshipAmount reg')"
    and covs: "\<And>j. coverages s' j = coverages s j"
    and other: "\<And>j. j \<noteq> i \<Longrightarrow> registration_of s' j = registration_of s j"
    and events: "db_events s' = db_events s" by metis
  from run obtain c where c: "client_of s (rg_eventId reg) = Some c"
    by (auto elim!: drop_txn_InrE dest!: drop_checks_Inr simp: reg)
  have cons: "conserved s'"
    by (rule preserved_conserved[OF drop_txn_preserved[OF assms(1) run] assms(2)])
  have c': "client_of s' (rg_eventId reg') = Some c" using c by (simp add: client_of_def events ev')
  have cov': "dp_accessId d \<notin> set (coveredAccessIdsOf s' i)"
    using cov by (simp add: coveredAccessIdsOf_coverages covs)
  have free: "\<not> holds_item reg' (dp_accessId d)" by (auto simp: holds_item_def items)
  note refuse = drop_checks_refuse[OF reg' c' ev'[unfolded ev]]
  have "drop_checks icu i d s' =
      Inl (SkipDrop (if unsettled (rg_paymentStatus reg') then NOT_HELD else SETTLED) None)"
    using refuse(1) refuse(3)[OF _ cov' free] by simp
  note again = dropAccess_skip[OF this]
  show ?thesis
    by (rule exI[of _ reg], rule exI[of _ reg'])
      (intro conjI reg reg' un holds cov items paid net allI impI other cons again)
qed

definition ex_drop :: drop where
  "ex_drop = \<lparr>dp_eventId = ''ev'', dp_accessId = ''ws'', dp_reason = Capacity_reached\<rparr>"

text \<open>Three places sold to others: the pending registration loses its workshop.\<close>

definition ex_full_db :: db where
  "ex_full_db = (ex_db [ex_reg, ex_reg\<lparr>rg_id := ''r2'', rg_paymentStatus := PAID, rg_paidAmount := 150000,
     rg_priceBreakdown := ex_breakdown\<lparr>pb_accessItems := [(hd (pb_accessItems ex_breakdown))\<lparr>li_quantity := 3\<rparr>]\<rparr>\<rparr>] 3)"

theorem dropAccessFromRegistration_dropped_witness:
  "\<exists>s'. dropAccessFromRegistration ex_icu ''r1'' ex_drop ex_full_db = (Inr Dropped, s') \<and> conserved s' \<and>
    dropAccessFromRegistration ex_icu ''r1'' ex_drop s' = (Inr (Skipped NOT_HELD), s')"
proof -
  define r where "r = dropAccessFromRegistration ex_icu ''r1'' ex_drop ex_full_db"
  have d: "fst r = Inr Dropped" unfolding r_def by code_simp
  have st: "map_option rg_paymentStatus (registration_of (snd r) ''r1'') = Some PENDING"
    unfolding r_def by code_simp
  have ok: "store_ok ex_full_db"
    by (simp add: store_ok_def db_wf_def ex_full_db_def ex_db_def accesses_wf_def accesses_ok_def
        ex_access_def access_row_ok_def ex_reg_def)
  have con: "conserved ex_full_db"
    unfolding conserved_def by (simp add: ex_full_db_def ex_db_def) code_simp
  obtain s' where run: "r = (Inr Dropped, s')" using d by (cases r) auto
  from dropAccessFromRegistration_dropped[OF ok con run[unfolded r_def]] st
  have "conserved s' \<and> dropAccessFromRegistration ex_icu ''r1'' ex_drop s' = (Inr (Skipped NOT_HELD), s')"
    by (auto simp: run unsettled_def)
  with run show ?thesis unfolding r_def by blast
qed

section \<open>What a drop event never touches\<close>

definition drop_protected :: "db \<Rightarrow> drop \<Rightarrow> string \<Rightarrow> registration_row \<Rightarrow> bool" where
  "drop_protected s d j r \<longleftrightarrow> registration_of s j = Some r \<and>
    (\<not> unsettled (rg_paymentStatus r) \<or> dp_accessId d \<in> set (coveredAccessIdsOf s j)
     \<or> rg_eventId r \<noteq> dp_eventId d)"

lemma dropAccess_protected:
  assumes "store_ok s" and "dropAccessFromRegistration icu i d s = (out, s')" and "drop_protected s d j r"
  shows "drop_protected s' d j r"
  using assms(2)
proof (cases rule: dropAccess_cases)
  case skipped
  note f = same_store_fields[OF skipped(2)]
  from assms(3) show ?thesis
    by (simp add: drop_protected_def registration_of_def coveredAccessIdsOf_coverages f
        coverages_tables[OF f(3,4)])
next
  case (dropped u)
  from drop_txn_effect[OF assms(1) dropped(2)] obtain reg where
    reg: "registration_of s i = Some reg" "unsettled (rg_paymentStatus reg)" "rg_eventId reg = dp_eventId d"
      "dp_accessId d \<notin> set (coveredAccessIdsOf s i)"
    and covs: "\<And>j. coverages s' j = coverages s j"
    and other: "\<And>j. j \<noteq> i \<Longrightarrow> registration_of s' j = registration_of s j"
    by metis
  have "j \<noteq> i" using assms(3) reg by (auto simp: drop_protected_def)
  with assms(3) show ?thesis
    by (simp add: drop_protected_def other coveredAccessIdsOf_coverages covs)
qed

lemma drop_loop_protected:
  "drop_loop icu ab d ids sm s = (out, s') \<Longrightarrow> store_ok s \<Longrightarrow> drop_protected s d j r \<Longrightarrow>
    drop_protected s' d j r"
proof (induction ids arbitrary: sm s)
  case Nil
  then show ?case by simp
next
  case (Cons i ids)
  obtain o1 s1 where one: "dropAccessFromRegistration icu i d s = (o1, s1)" by fastforce
  have p1: "drop_protected s1 d j r" by (rule dropAccess_protected[OF Cons.prems(2) one Cons.prems(3)])
  have ok1: "store_ok s1" using dropAccess_preserved[OF Cons.prems(2) one] by (simp add: preserved_def)
  consider "s' = s" | "s' = s1" | sm' where "drop_loop icu ab d ids sm' s1 = (out, s')"
    using Cons.prems(1) one by (auto simp: Let_def split: if_splits sum.splits drop_outcome.splits)
  then show ?case
  proof cases
    case 3
    from Cons.IH[OF 3 ok1 p1] show ?thesis .
  qed (use p1 Cons.prems(3) in simp_all)
qed

text \<open>
  C6: Handling an access.capacityReached event, even when it stops half way, never changes a
  registration that is settled (PAID, SPONSORED, WAIVED, REFUNDED), that has the item covered by a
  linked sponsorship, or that belongs to another event.
\<close>

theorem handleAccessCapacityReached_protects:
  assumes "store_ok s" and "handleAccessCapacityReachedOutbox icu aborted payload s = (out, s')"
    and "parsePayload payload = Some d" and "registration_of s j = Some r"
    and "\<not> unsettled (rg_paymentStatus r) \<or> dp_accessId d \<in> set (coveredAccessIdsOf s j)
      \<or> rg_eventId r \<noteq> dp_eventId d"
  shows "registration_of s' j = Some r"
proof -
  have p: "drop_protected s d j r" using assms(4,5) by (simp add: drop_protected_def)
  obtain o1 where "dropAccessFromUnsettledRegistrations icu aborted d s = (o1, s')"
    using assms(2,3) by (auto simp: handleAccessCapacityReachedOutbox_def split: prod.split_asm sum.split_asm)
  then have "drop_protected s' d j r"
    using p drop_loop_protected[OF _ assms(1) p]
    unfolding dropAccessFromUnsettledRegistrations_def Let_def
    by (auto split: option.split_asm bool.split_asm prod.split_asm)
  then show ?thesis by (simp add: drop_protected_def)
qed

theorem handleAccessCapacityReached_protects_witness:
  "registration_of (snd (handleAccessCapacityReachedOutbox ex_icu (\<lambda>_. False)
      (Some [(''eventId'', Payload_string ''ev''), (''accessId'', Payload_string ''ws''),
        (''reason'', Payload_string ''capacity_reached'')]) ex_full_db)) ''r2'' =
   registration_of ex_full_db ''r2''"
proof -
  let ?p = "Some [(''eventId'', Payload_string ''ev''), (''accessId'', Payload_string ''ws''),
        (''reason'', Payload_string ''capacity_reached'')]"
  have ok: "store_ok ex_full_db"
    by (simp add: store_ok_def db_wf_def ex_full_db_def ex_db_def accesses_wf_def accesses_ok_def
        ex_access_def access_row_ok_def ex_reg_def)
  have parse: "parsePayload ?p = Some ex_drop" by code_simp
  obtain r where r: "registration_of ex_full_db ''r2'' = Some r" "rg_paymentStatus r = PAID"
    by (simp add: registration_of_def ex_full_db_def ex_db_def ex_reg_def)
  have s: "\<not> unsettled (rg_paymentStatus r) \<or> dp_accessId ex_drop \<in> set (coveredAccessIdsOf ex_full_db ''r2'')
      \<or> rg_eventId r \<noteq> dp_eventId ex_drop"
    using r(2) by (simp add: unsettled_def)
  from handleAccessCapacityReached_protects[OF ok surjective_pairing parse r(1) s] r(1) show ?thesis by simp
qed

end
