(* ===== verification/SettlementSystem.thy ===== *)
theory SettlementSystem
  imports AccessDrop
begin

text \<open>
  The settlement component as a state machine: its steps are the public operations, each a locking
  transaction that commits or rolls back, in any order and number. The counter invariant of theory
  Conservation holds in every reachable state.
\<close>

inductive op_step :: "(string \<Rightarrow> nat option) \<Rightarrow> db \<Rightarrow> db \<Rightarrow> bool" for icu where
  op_settle: "so_coveredAccessIdsBefore opts = None \<Longrightarrow>
    withLockingTxn (settleRegistrationTxn icu i opts) s = (out, s') \<Longrightarrow> op_step icu s s'"
| op_link: "withLockingTxn (linkSponsorshipToRegistrationTxn icu x i who patch) s = (out1, s') \<Longrightarrow>
    op_step icu s s'"
| op_unlink: "withLockingTxn (unlinkSponsorshipFromRegistrationTxn icu x i) s = (out2, s') \<Longrightarrow>
    op_step icu s s'"
| op_release: "withLockingTxn (releaseSponsorshipTxn icu x) s = (out3, s') \<Longrightarrow> op_step icu s s'"
| op_coverage: "(\<And>r. sp_id (patch r) = sp_id r) \<Longrightarrow>
    withLockingTxn (changeSponsorshipCoverageTxn icu x c patch) s = (out4, s') \<Longrightarrow> op_step icu s s'"
| op_drop: "handleAccessCapacityReachedOutbox icu aborted payload s = (out5, s') \<Longrightarrow> op_step icu s s'"
| op_clock: "op_step icu s (s\<lparr>db_clock := now\<rparr>)"

text \<open>A transaction that keeps the store when it commits keeps it when it rolls back.\<close>

lemma withLockingTxn_preserved:
  assumes "store_ok s" and "withLockingTxn f s = (out, s')"
    and "\<And>a t. f s = Inr (a, t) \<Longrightarrow> preserved s t"
  shows "preserved s s'"
  using assms preserved_refl[OF assms(1)]
  by (auto simp: withLockingTxn_def split: sum.splits)

lemma clock_preserved: "store_ok s \<Longrightarrow> preserved s (s\<lparr>db_clock := now\<rparr>)"
proof -
  assume ok: "store_ok s"
  have "discrepancy (s\<lparr>db_clock := now\<rparr>) k = discrepancy s k" for k
    by (rule discrepancy_same)
      (simp_all add: coverages_def findRegistrationUsagesForRecalc_def sponsorship_of_def)
  with ok show ?thesis
    by (simp add: preserved_def store_ok_def db_wf_def accesses_ok_def accesses_wf_def same_owners_rows usages_known_iff)
qed

lemma handler_preserved:
  assumes "store_ok s" and "handleAccessCapacityReachedOutbox icu aborted payload s = (out, s')"
  shows "preserved s s'"
  using assms(2) preserved_refl[OF assms(1)] dropAll_preserved[OF assms(1)]
  by (auto simp: handleAccessCapacityReachedOutbox_def split: option.split_asm prod.split_asm sum.split_asm)

lemma op_step_preserved:
  assumes "op_step icu s s'" and "store_ok s"
  shows "preserved s s'"
  using assms
proof (induction rule: op_step.induct)
  case (op_settle opts i s out s')
  show ?case by (rule withLockingTxn_preserved[OF op_settle(3,2)])
      (use settle_plain_preserved[OF op_settle(3) _ op_settle(1)] in blast)
next
  case (op_link x i who patch s out1 s')
  show ?case by (rule withLockingTxn_preserved[OF op_link(2,1)])
      (use link_preserved[OF op_link(2)] in blast)
next
  case (op_unlink x i s out2 s')
  show ?case by (rule withLockingTxn_preserved[OF op_unlink(2,1)])
      (use unlink_txn_preserved[OF op_unlink(2)] in blast)
next
  case (op_release x s out3 s')
  show ?case by (rule withLockingTxn_preserved[OF op_release(2,1)])
      (use release_preserved[OF op_release(2)] in blast)
next
  case (op_coverage patch x c s out4 s')
  show ?case by (rule withLockingTxn_preserved[OF op_coverage(3,2)])
      (use coverage_preserved[OF op_coverage(3) op_coverage(1)] in blast)
next
  case (op_drop aborted payload s out5 s')
  from handler_preserved[OF op_drop(2,1)] show ?case .
next
  case (op_clock s now)
  from clock_preserved[OF op_clock] show ?case .
qed

lemma reachable_preserved:
  assumes "(op_step icu)\<^sup>*\<^sup>* s0 s" and "store_ok s0"
  shows "preserved s0 s"
  using assms
proof (induction rule: rtranclp_induct)
  case base
  then show ?case by (simp add: preserved_refl)
next
  case (step t u)
  have p: "preserved s0 t" by (rule step.IH[OF step.prems])
  then have "store_ok t" by (simp add: preserved_def)
  from preserved_trans[OF p op_step_preserved[OF step.hyps(2) this]] show ?case .
qed

text \<open>
  In every state the settlement operations can reach (settle, link, unlink, release and change
  the coverage of a sponsorship, drop an access item; committed or rolled back, in any order), each
  access item's paid count is exactly the number of places its registrations hold, is not negative
  and never exceeds the item's capacity: no item is oversold and no place is leaked.
\<close>

theorem reachable_paid_counts:
  assumes "(op_step icu)\<^sup>*\<^sup>* s0 s" and "store_ok s0" and "conserved s0"
    and "r \<in> set (db_accesses s)"
  shows "ea_paidCount r = places_held s (ea_id r) \<and> 0 \<le> places_held s (ea_id r) \<and>
    (\<forall>c. ea_maxCapacity r = Some c \<longrightarrow> places_held s (ea_id r) \<le> c)"
proof -
  have p: "preserved s0 s" by (rule reachable_preserved[OF assms(1,2)])
  have c: "conserved s" by (rule preserved_conserved[OF p assms(3)])
  have ok: "accesses_ok s" using p by (simp add: preserved_def store_ok_def)
  have "access_of s (ea_id r) = Some r"
    unfolding access_of_def by (rule row_of_distinct) (use ok assms(4) in \<open>simp_all add: accesses_ok_def\<close>)
  then have "ea_paidCount r = places_held s (ea_id r)"
    using c assms(4) by (force simp: conserved_def discrepancy_def paid_count_def)
  moreover have "access_row_ok r" using ok assms(4) by (simp add: accesses_ok_def)
  ultimately show ?thesis by (auto simp: access_row_ok_def)
qed

lemma ex_unsettled_store: "store_ok (ex_unsettled_db\<lparr>db_accesses := [ex_access 0]\<rparr>)"
  by (simp add: store_ok_def db_wf_def ex_unsettled_db_def ex_db_def accesses_wf_def accesses_ok_def
      ex_access_def access_row_ok_def ex_usage_def)

text \<open>One settlement that pays the registration takes its two places.\<close>

theorem reachable_paid_counts_witness:
  "\<exists>s. (op_step ex_icu)\<^sup>*\<^sup>* (ex_unsettled_db\<lparr>db_accesses := [ex_access 0]\<rparr>) s \<and>
    db_accesses s = [ex_access 2] \<and> places_held s ''ws'' = 2"
proof -
  let ?s0 = "ex_unsettled_db\<lparr>db_accesses := [ex_access 0]\<rparr>"
  let ?s1 = "ex_settled_db\<lparr>db_accesses := [ex_access 2]\<rparr>"
  let ?o = "no_options\<lparr>so_paidAmount := Some 100000\<rparr>"
  have run: "settleRegistrationTxn ex_icu ''r1'' ?o ?s0 = Inr (Some ex_settled, ?s1)" by code_simp
  have step: "op_step ex_icu ?s0 ?s1"
    by (rule op_settle[where opts = ?o and i = "''r1''" and out = "Inr (Some ex_settled)"])
      (simp add: no_options_def, simp add: withLockingTxn_def run)
  have steps: "(op_step ex_icu)\<^sup>*\<^sup>* ?s0 ?s1" using step by (rule r_into_rtranclp)
  have c: "conserved ?s0"
    unfolding conserved_def by (simp add: ex_unsettled_db_def ex_db_def) code_simp
  have "ex_access 2 \<in> set (db_accesses ?s1)" by simp
  from reachable_paid_counts[OF steps ex_unsettled_store c this]
  have "places_held ?s1 ''ws'' = 2" by (simp add: ex_access_def)
  with steps show ?thesis by (intro exI[of _ ?s1]) simp
qed

end
