(* ===== verification/SponsorshipSafety.thy ===== *)
theory SponsorshipSafety
  imports Conservation
begin

text \<open>
  What an unlink guarantees, and when a sponsorship code may be consumed at signup
  (\<open>unlinkSponsorshipFromRegistrationTxn\<close>, \<open>claimSponsorshipCodeTxn\<close>).
\<close>

lemma count_without:
  assumes "distinct (map us_id l)" and "u \<in> set l" and "P u"
  shows "length (filter P l) = Suc (length (filter P (filter (\<lambda>v. us_id v \<noteq> us_id u) l)))"
  using assms
proof (induction l)
  case Nil
  then show ?case by simp
next
  case (Cons v l)
  show ?case
  proof (cases "v = u")
    case True
    then have "filter (\<lambda>w. us_id w \<noteq> us_id u) l = l"
      using Cons.prems(1) by (intro filter_True) (metis True distinct.simps(2) image_eqI list.simps(9) set_map)
    with True Cons.prems(3) show ?thesis by simp
  next
    case False
    with Cons.prems have "us_id v \<noteq> us_id u" by auto
    with Cons False show ?thesis by simp
  qed
qed

lemma settle_stored_row:
  assumes "store_ok s" and "settleRegistrationTxn icu i o' s = Inr (Some res, s')" and "sr_written res"
  obtains r' where "registration_of s' i = Some r'" "stores r' (sr_after res)"
proof -
  have wf: "db_wf s" using assms(1) by (simp add: store_ok_def)
  show ?thesis by (rule settle_effect[OF wf assms(2,3)]) (rule that)
qed

lemma settle_status_effect:
  assumes "settleSponsorshipStatusTxn x st s = (c, s')" and "sponsorship_of s x = Some sp" and "sp_status sp = st"
  shows "sponsorship_of s' x = Some (sp\<lparr>sp_status := if st = Sp_cancelled then Sp_cancelled
      else if 0 < countSponsorshipUsages s x then Sp_used else Sp_pending\<rparr>) \<and>
    db_registrations s' = db_registrations s \<and> db_usages s' = db_usages s"
proof -
  have upd: "sponsorship_of (updateSponsorshipRow x f s) x = Some (f sp)" if "\<And>r. sp_id (f r) = sp_id r" for f
    using row_of_update_same[of sp_id f x "db_sponsorships s" sp] that assms(2)
    by (simp add: sponsorship_of_def updateSponsorshipRow_def)
  have id: "sp\<lparr>sp_status := st\<rparr> = sp" using assms(3) by simp
  show ?thesis
    using assms id upd[of "\<lambda>r. r\<lparr>sp_status := Sp_used\<rparr>"] upd[of "\<lambda>r. r\<lparr>sp_status := Sp_pending\<rparr>"]
    by (auto simp: settleSponsorshipStatusTxn_def Let_def updateSponsorshipRow_def split: if_splits)
qed

text \<open>
  C8: An unlink that commits removes exactly one usage of the sponsorship, sets the sponsorship USED
  while usages remain and PENDING when none does (a cancelled one stays cancelled), never changes
  the sponsorship amount of a PAID registration, and keeps every paid counter equal to the places
  held.
\<close>

theorem unlinkSponsorship_safe:
  assumes "store_ok s" and "conserved s"
    and "unlinkSponsorshipFromRegistrationTxn icu x i s = Inr ((u, c), s')"
  shows "\<exists>sp row r'. sponsorship_of s x = Some sp \<and> registration_of s i = Some row \<and>
    registration_of s' i = Some r' \<and> findUsage s x i = Some (xr_usage u) \<and>
    countSponsorshipUsages s x = Suc (countSponsorshipUsages s' x) \<and>
    sponsorship_of s' x = Some (sp\<lparr>sp_status := if sp_status sp = Sp_cancelled then Sp_cancelled
      else if 0 < countSponsorshipUsages s' x then Sp_used else Sp_pending\<rparr>) \<and>
    (rg_paymentStatus row = PAID \<longrightarrow> rg_sponsorshipAmount r' = rg_sponsorshipAmount row) \<and>
    conserved s'"
proof -
  from assms(3) obtain spl s1 where spl: "readLinkableSponsorship s x = Some spl"
    and un: "unlinkLockedUsage icu spl i s = Inr (u, s1)"
    and st: "settleSponsorshipStatusTxn (sp_id spl) (sp_status spl) s1 = (c, s')"
    unfolding unlinkSponsorshipFromRegistrationTxn_def refuse_def
    by (auto elim!: sbind_InrE split: if_split_asm option.split_asm prod.split_asm)
  have spx: "sp_id spl = x" by (rule readLinkable_id[OF spl])
  from spl obtain sp where sp: "sponsorship_of s x = Some sp" and ss: "sp_status spl = sp_status sp"
    by (auto simp: readLinkableSponsorship_def)
  from un obtain us row opts where f: "findUsage s (sp_id spl) i = Some us"
    and row: "registration_of s i = Some row"
    and o1: "so_expectedUpdatedAt opts = None"
    and "so_coveredAccessIdsBefore opts = Some (coveredAccessIdsOf s i)"
    and dec: "so_decide opts = Some guardSponsorshipChange"
    and "so_keepUnlinkedSponsorship opts = Some False"
    and run: "settleRegistrationTxn icu i opts (deleteUsage (us_id us) s) = Inr (Some (xr_settled u), s1)"
    and xu: "xr_usage u = us" and "xr_registrationId u = i"
    by (rule unlink_InrE)
  note fu = findUsage_Some[OF f]
  note p = unlink_preserved[OF assms(1) un]
  have ok1: "store_ok s1" using p by (simp add: preserved_def)
  have w: "sr_written (xr_settled u)" by (rule settle_written[OF run o1])
  have row1: "registration_of (deleteUsage (us_id us) s) i = Some row"
    using row by (simp add: registration_of_def deleteUsage_def)
  have okd: "store_ok (deleteUsage (us_id us) s)" using delete_usage_store[OF assms(1) f] by simp
  obtain r1 where r1: "registration_of s1 i = Some r1" and str: "stores r1 (sr_after (xr_settled u))"
    by (rule settle_stored_row[OF okd run w])
  have sp1: "sponsorship_of s1 x = Some sp" using p sp by (simp add: sponsorship_of_def)
  note se = settle_status_effect[OF st[unfolded spx] sp1 ss[symmetric]]
  have cnt: "countSponsorshipUsages s x = Suc (countSponsorshipUsages s1 x)"
    using count_without[of "db_usages s" us "\<lambda>v. us_sponsorshipId v = x"] fu p assms(1)
    by (simp add: xu spx store_ok_def countSponsorshipUsages_def deleteUsage_def)
  have same: "countSponsorshipUsages s' x = countSponsorshipUsages s1 x" "registration_of s' i = Some r1"
    using se r1 by (simp_all add: countSponsorshipUsages_def registration_of_def)
  have paid: "rg_paymentStatus row = PAID \<longrightarrow> rg_sponsorshipAmount r1 = rg_sponsorshipAmount row"
    using guarded_settle[OF run w dec row1] str by (auto simp: stores_def)
  have cons: "conserved s'"
    using preserved_conserved[OF settle_status_preserved[OF ok1 st]] preserved_conserved[OF conjunct1[OF p]] assms(2)
    by simp
  show ?thesis
    using sp row same f se cnt paid cons by (intro exI[of _ sp] exI[of _ row] exI[of _ r1]) (simp add: xu spx ss)
qed

text \<open>The state after the linked example is unlinked again.\<close>

theorem unlinkSponsorship_safe_witness:
  "\<exists>u c s'. unlinkSponsorshipFromRegistrationTxn ex_icu ''s1'' ''r1'' ex_linked_db = Inr ((u, c), s') \<and>
    sponsorship_of s' ''s1'' = Some (ex_sponsorship ''s1'' Sp_pending) \<and> conserved s'"
proof -
  define r where "r = unlinkSponsorshipFromRegistrationTxn ex_icu ''s1'' ''r1'' ex_linked_db"
  have "\<not> isl r" unfolding r_def by code_simp
  then obtain u c s' where run: "r = Inr ((u, c), s')" by (cases r) auto
  have ok: "store_ok ex_linked_db"
    by (simp add: store_ok_def db_wf_def ex_linked_db_def ex_db_def accesses_wf_def accesses_ok_def
        ex_access_def access_row_ok_def ex_usage_def)
  have con: "conserved ex_linked_db"
    unfolding conserved_def by (simp add: ex_linked_db_def ex_db_def) code_simp
  have b: "sponsorship_of ex_linked_db ''s1'' = Some (ex_sponsorship ''s1'' Sp_used)"
    "countSponsorshipUsages ex_linked_db ''s1'' = 1"
    by code_simp+
  from unlinkSponsorship_safe[OF ok con run[unfolded r_def]] b run show ?thesis
    unfolding r_def by (auto simp: ex_sponsorship_def)
qed

text \<open>
  A code can be consumed at signup exactly when its sponsorship (of that event, by that code)
  is PENDING, not reserved for a registration, linked by no usage and claimed by no registration of
  the event; a used code is refused with the first reason that applies.
\<close>

theorem claimSponsorshipCode_available:
  "(claimSponsorshipCodeTxn eventId code s = Claim_available sponsorship) =
    (\<exists>i. lockSponsorshipByCodeForUpdate s eventId code = Some i \<and>
      readLinkableSponsorship s i = Some sponsorship \<and> sp_status sponsorship = Sp_pending \<and>
      sp_targetRegistrationId sponsorship = None \<and>
      \<not> (\<exists>u \<in> set (db_usages s). us_sponsorshipId u = i) \<and>
      \<not> (\<exists>r \<in> set (db_registrations s). claims_code eventId code r))"
proof -
  have st: "st = Sp_pending \<longleftrightarrow> st \<noteq> Sp_cancelled \<and> st \<noteq> Sp_used" for st by (cases st) auto
  have sk: "sort_key f xs = [] \<longleftrightarrow> xs = []" for f :: "registration_row \<Rightarrow> 'k :: linorder" and xs
    by (metis set_empty set_sort)
  have u: "countSponsorshipUsages s i = 0 \<longleftrightarrow> \<not> (\<exists>u \<in> set (db_usages s). us_sponsorshipId u = i)" for i
    by (auto simp: countSponsorshipUsages_def filter_empty_conv)
  have c: "findSponsorshipCodeClaimants s eventId code (Some 1) = [] \<longleftrightarrow>
      \<not> (\<exists>r \<in> set (db_registrations s). claims_code eventId code r)"
    by (simp add: findSponsorshipCodeClaimants_def Let_def sk filter_empty_conv)
  show ?thesis
    unfolding claimSponsorshipCodeTxn_def st u[symmetric] c[symmetric]
    by (auto split: option.splits)
qed

end
