(* ===== verification/LeaseQueue.thy ===== *)
theory LeaseQueue
  imports Prelude
begin

text \<open>
  \<open>packages/db/src/lease-queue/lease-queue.ts\<close>: a table leased row by row. A queue is its spec
  (the SQL fragments it supplies, as functions on rows) and its table; each operation is one
  autocommit statement at a database time \<open>now\<close>. Rows carry a queue's own columns as a record
  extension. \<open>SKIP LOCKED\<close> is a parameter of the claim: the rows another transaction holds locked.
\<close>

section \<open>Rows and specs\<close>

record 's lease_row =
  q_id :: string
  q_status :: 's
  q_attempts :: int
  q_lockedAt :: "date option"
  q_lockedUntil :: "date option"
  q_lockedBy :: "string option"
  q_lastAttemptAt :: "date option"
  q_updatedAt :: date

record ('s, 'r) lease_spec =
  qs_leased :: 's
  qs_leaseMs :: int
  qs_claimable :: "date \<Rightarrow> 'r \<Rightarrow> bool"
  qs_order :: "'r \<Rightarrow> int"
  qs_claimSet :: "'r \<Rightarrow> 'r"
  qs_releaseSet :: "'r \<Rightarrow> 'r"
  qs_releasable :: "('r \<Rightarrow> bool) option"
  qs_exhausted :: "'r \<Rightarrow> bool"
  qs_retrySet :: "'r \<Rightarrow> 'r"
  qs_deadSet :: "'r \<Rightarrow> 'r"
  qs_uncertain :: "(('r \<Rightarrow> bool) \<times> ('r \<Rightarrow> 'r)) option"
  qs_exclude :: "('r \<Rightarrow> bool) option"

definition intervalMs :: "int \<Rightarrow> int" where
  "intervalMs ms = max 0 ms"

text \<open>\<open>CASE WHEN attempt <= 1 THEN d0 \<dots> ELSE last\<close>; an empty list throws.\<close>

fun backoff_case :: "int \<Rightarrow> int \<Rightarrow> int list \<Rightarrow> int" where
  "backoff_case attempt i [] = 0"
| "backoff_case attempt i [d] = intervalMs d"
| "backoff_case attempt i (d # ds) =
    (if attempt \<le> i + 1 then intervalMs d else backoff_case attempt (i + 1) ds)"

definition backoffInterval :: "int \<Rightarrow> int list \<Rightarrow> unit + int" where
  "backoffInterval attempt delaysMs =
    (if delaysMs = [] then Inl () else Inr (backoff_case attempt 0 delaysMs))"

section \<open>Operations\<close>

definition owned :: "('s, 'x) lease_row_scheme \<Rightarrow> 's \<Rightarrow> string \<Rightarrow> bool" where
  "owned r leased workerId \<longleftrightarrow> q_status r = leased \<and> q_lockedBy r = Some workerId"

definition clear_lease :: "('s, 'x) lease_row_scheme \<Rightarrow> ('s, 'x) lease_row_scheme" where
  "clear_lease r = r\<lparr>q_lockedAt := None, q_lockedUntil := None, q_lockedBy := None\<rparr>"

text \<open>\<open>UPDATE \<dots> WHERE p SET f RETURNING id\<close>: the ids of the rows hit, and the new table.\<close>

definition update_returning ::
  "(('s, 'x) lease_row_scheme \<Rightarrow> bool) \<Rightarrow> (('s, 'x) lease_row_scheme \<Rightarrow> ('s, 'x) lease_row_scheme)
    \<Rightarrow> ('s, 'x) lease_row_scheme list \<Rightarrow> string list \<times> ('s, 'x) lease_row_scheme list" where
  "update_returning p f t = (map q_id (filter p t), update_rows p f t)"

definition claim_row ::
  "('s, ('s, 'x) lease_row_scheme) lease_spec \<Rightarrow> string \<Rightarrow> int \<Rightarrow> date
    \<Rightarrow> ('s, 'x) lease_row_scheme \<Rightarrow> ('s, 'x) lease_row_scheme" where
  "claim_row spec workerId leaseMs now r =
    (qs_claimSet spec r)\<lparr>q_status := qs_leased spec, q_lockedAt := Some now,
      q_lockedUntil := Some (now + intervalMs leaseMs), q_lockedBy := Some workerId,
      q_lastAttemptAt := Some now, q_attempts := q_attempts r + 1, q_updatedAt := now\<rparr>"

definition picked ::
  "('s, ('s, 'x) lease_row_scheme) lease_spec \<Rightarrow> nat \<Rightarrow> (string \<Rightarrow> bool) \<Rightarrow> date
    \<Rightarrow> ('s, 'x) lease_row_scheme list \<Rightarrow> string list" where
  "picked spec limit locked now t =
    map q_id (take limit (sort_key (qs_order spec)
      (filter (\<lambda>r. qs_claimable spec now r \<and> \<not> locked (q_id r)) t)))"

definition claim ::
  "('s, ('s, 'x) lease_row_scheme) lease_spec \<Rightarrow> string \<Rightarrow> int \<Rightarrow> int option \<Rightarrow> (string \<Rightarrow> bool) \<Rightarrow> date
    \<Rightarrow> ('s, 'x) lease_row_scheme list \<Rightarrow> string list \<times> ('s, 'x) lease_row_scheme list" where
  "claim spec workerId limit leaseMs locked now t =
    (if limit \<le> 0 then ([], t)
     else
      (let ids = picked spec (nat limit) locked now t;
           ms = (case leaseMs of None \<Rightarrow> qs_leaseMs spec | Some m \<Rightarrow> m)
       in update_returning (\<lambda>r. q_id r \<in> set ids) (claim_row spec workerId ms now) t))"

definition renew ::
  "('s, ('s, 'x) lease_row_scheme) lease_spec \<Rightarrow> string \<Rightarrow> string list \<Rightarrow> int option \<Rightarrow> date
    \<Rightarrow> ('s, 'x) lease_row_scheme list \<Rightarrow> string list \<times> ('s, 'x) lease_row_scheme list" where
  "renew spec workerId ids leaseMs now t =
    (if ids = [] then ([], t)
     else
      (let ms = (case leaseMs of None \<Rightarrow> qs_leaseMs spec | Some m \<Rightarrow> m)
       in update_returning (\<lambda>r. q_id r \<in> set ids \<and> owned r (qs_leased spec) workerId)
            (\<lambda>r. r\<lparr>q_lockedUntil := Some (now + intervalMs ms)\<rparr>) t))"

definition confirm ::
  "('s, ('s, 'x) lease_row_scheme) lease_spec \<Rightarrow> string \<Rightarrow> string \<Rightarrow> int option \<Rightarrow> date
    \<Rightarrow> ('s, 'x) lease_row_scheme list \<Rightarrow> bool \<times> ('s, 'x) lease_row_scheme list" where
  "confirm spec workerId i leaseMs now t =
    (case renew spec workerId [i] leaseMs now t of (kept, t') \<Rightarrow> (length kept = 1, t'))"

text \<open>\<open>complete\<close> and \<open>fail\<close> are the same fenced terminal write with different assignments.\<close>

definition finish ::
  "('s, ('s, 'x) lease_row_scheme) lease_spec \<Rightarrow> string \<Rightarrow> string
    \<Rightarrow> (('s, 'x) lease_row_scheme \<Rightarrow> ('s, 'x) lease_row_scheme) \<Rightarrow> date
    \<Rightarrow> ('s, 'x) lease_row_scheme list \<Rightarrow> bool \<times> ('s, 'x) lease_row_scheme list" where
  "finish spec workerId i assign now t =
    (case update_returning (\<lambda>r. q_id r = i \<and> owned r (qs_leased spec) workerId)
        (\<lambda>r. (clear_lease (assign r))\<lparr>q_updatedAt := now\<rparr>) t of
       (hit, t') \<Rightarrow> (0 < length hit, t'))"

definition release_row ::
  "('s, ('s, 'x) lease_row_scheme) lease_spec \<Rightarrow> date \<Rightarrow> ('s, 'x) lease_row_scheme \<Rightarrow> ('s, 'x) lease_row_scheme" where
  "release_row spec now r =
    (clear_lease (qs_releaseSet spec r))\<lparr>q_attempts := max (q_attempts r - 1) 0, q_updatedAt := now\<rparr>"

definition release ::
  "('s, ('s, 'x) lease_row_scheme) lease_spec \<Rightarrow> string \<Rightarrow> string list \<Rightarrow> date
    \<Rightarrow> ('s, 'x) lease_row_scheme list \<Rightarrow> nat \<times> ('s, 'x) lease_row_scheme list" where
  "release spec workerId ids now t =
    (if ids = [] then (0, t)
     else
      (case update_returning (\<lambda>r. q_id r \<in> set ids \<and> owned r (qs_leased spec) workerId
             \<and> (case qs_releasable spec of None \<Rightarrow> True | Some p \<Rightarrow> p r))
          (release_row spec now) t of
         (hit, t') \<Rightarrow> (length hit, t')))"

text \<open>A row without a lease end is stale once it was locked, or last touched, a lease ago.\<close>

definition stale ::
  "('s, ('s, 'x) lease_row_scheme) lease_spec \<Rightarrow> date \<Rightarrow> ('s, 'x) lease_row_scheme \<Rightarrow> bool" where
  "stale spec now r \<longleftrightarrow>
    (case q_lockedUntil r of Some u \<Rightarrow> u < now
     | None \<Rightarrow> (case q_lockedAt r of Some a \<Rightarrow> a | None \<Rightarrow> q_updatedAt r) < now - intervalMs (qs_leaseMs spec))"

definition recoverable ::
  "('s, ('s, 'x) lease_row_scheme) lease_spec \<Rightarrow> date \<Rightarrow> ('s, 'x) lease_row_scheme \<Rightarrow> bool" where
  "recoverable spec now r \<longleftrightarrow> q_status r = qs_leased spec \<and> stale spec now r \<and>
    (case qs_exclude spec of None \<Rightarrow> True | Some p \<Rightarrow> \<not> p r)"

definition parked ::
  "('s, ('s, 'x) lease_row_scheme) lease_spec \<Rightarrow> ('s, 'x) lease_row_scheme \<Rightarrow> bool" where
  "parked spec r \<longleftrightarrow> (case qs_uncertain spec of None \<Rightarrow> False | Some (p, _) \<Rightarrow> p r)"

text \<open>One statement of the recovery: the rows \<open>p\<close> selects get \<open>assign\<close> and lose their lease.\<close>

definition recover_statement ::
  "(('s, 'x) lease_row_scheme \<Rightarrow> bool) \<Rightarrow> (('s, 'x) lease_row_scheme \<Rightarrow> ('s, 'x) lease_row_scheme) \<Rightarrow> date
    \<Rightarrow> ('s, 'x) lease_row_scheme list \<Rightarrow> nat \<times> ('s, 'x) lease_row_scheme list" where
  "recover_statement p assign now t =
    (case update_returning p (\<lambda>r. (clear_lease (assign r))\<lparr>q_updatedAt := now\<rparr>) t of
       (hit, t') \<Rightarrow> (length hit, t'))"

record recover_result =
  rr_requeued :: nat
  rr_deadLettered :: nat
  rr_uncertain :: "nat option"

definition park_stale where
  "park_stale spec scope now t = recover_statement
    (\<lambda>r. recoverable spec now r \<and> scope r \<and> parked spec r)
    (case qs_uncertain spec of None \<Rightarrow> (\<lambda>r. r) | Some (_, f) \<Rightarrow> f) now t"

definition requeue_stale where
  "requeue_stale spec scope now t = recover_statement
    (\<lambda>r. recoverable spec now r \<and> scope r \<and> \<not> parked spec r \<and> \<not> qs_exhausted spec r)
    (qs_retrySet spec) now t"

definition dead_stale where
  "dead_stale spec scope now t = recover_statement
    (\<lambda>r. recoverable spec now r \<and> scope r \<and> \<not> parked spec r \<and> qs_exhausted spec r)
    (qs_deadSet spec) now t"

text \<open>The statements run one after the other, each at its own time.\<close>

definition recoverStale ::
  "('s, ('s, 'x) lease_row_scheme) lease_spec \<Rightarrow> (('s, 'x) lease_row_scheme \<Rightarrow> bool)
    \<Rightarrow> date \<times> date \<times> date \<Rightarrow> ('s, 'x) lease_row_scheme list
    \<Rightarrow> recover_result \<times> ('s, 'x) lease_row_scheme list" where
  "recoverStale spec scope clock t =
    (case clock of (n1, n2, n3) \<Rightarrow>
     (case (if qs_uncertain spec = None then (0, t) else park_stale spec scope n1 t) of (u, t1) \<Rightarrow>
     (case requeue_stale spec scope n2 t1 of (q, t2) \<Rightarrow>
     (case dead_stale spec scope n3 t2 of (d, t3) \<Rightarrow>
       (\<lparr>rr_requeued = q, rr_deadLettered = d,
         rr_uncertain = (if qs_uncertain spec = None then None else Some u)\<rparr>, t3)))))"

record queue_health =
  qh_claimable :: nat
  qh_leased :: nat
  qh_expiredLeases :: nat
  qh_oldestLeaseAgeMs :: int

definition health ::
  "('s, ('s, 'x) lease_row_scheme) lease_spec \<Rightarrow> date \<Rightarrow> ('s, 'x) lease_row_scheme list \<Rightarrow> queue_health" where
  "health spec now t =
    (let leased = filter (\<lambda>r. q_status r = qs_leased spec) t;
         since = map (\<lambda>r. case q_lockedAt r of Some a \<Rightarrow> a | None \<Rightarrow> q_updatedAt r) leased
     in \<lparr>qh_claimable = length (filter (qs_claimable spec now) t), qh_leased = length leased,
         qh_expiredLeases = length (filter (stale spec now) leased),
         qh_oldestLeaseAgeMs = (if since = [] then 0 else max 0 (now - Min (set since)))\<rparr>)"


section \<open>Interleavings\<close>

text \<open>
  The statements of any number of workers, one after the other in any order. The label is the
  worker that issues the statement; recovery has none. \<open>terminal\<close> are the assignments a queue's
  owner may write.
\<close>

inductive lease_step ::
  "('s, ('s, 'x) lease_row_scheme) lease_spec
    \<Rightarrow> ((('s, 'x) lease_row_scheme \<Rightarrow> ('s, 'x) lease_row_scheme) \<Rightarrow> bool) \<Rightarrow> date \<Rightarrow> string option
    \<Rightarrow> ('s, 'x) lease_row_scheme list \<Rightarrow> ('s, 'x) lease_row_scheme list \<Rightarrow> bool"
  for spec terminal now where
  ls_claim: "claim spec w limit ms locked now t = (ids, t') \<Longrightarrow> lease_step spec terminal now (Some w) t t'"
| ls_renew: "renew spec w ids ms now t = (kept, t') \<Longrightarrow> lease_step spec terminal now (Some w) t t'"
| ls_finish: "terminal f \<Longrightarrow> finish spec w i f now t = (hit, t') \<Longrightarrow> lease_step spec terminal now (Some w) t t'"
| ls_release: "release spec w ids now t = (n, t') \<Longrightarrow> lease_step spec terminal now (Some w) t t'"
| ls_park: "park_stale spec scope now t = (n, t') \<Longrightarrow> lease_step spec terminal now None t t'"
| ls_requeue: "requeue_stale spec scope now t = (n, t') \<Longrightarrow> lease_step spec terminal now None t t'"
| ls_dead: "dead_stale spec scope now t = (n, t') \<Longrightarrow> lease_step spec terminal now None t t'"

text \<open>Statements of the given actors, at times that never go back.\<close>

inductive lease_steps ::
  "('s, ('s, 'x) lease_row_scheme) lease_spec
    \<Rightarrow> ((('s, 'x) lease_row_scheme \<Rightarrow> ('s, 'x) lease_row_scheme) \<Rightarrow> bool) \<Rightarrow> string option set
    \<Rightarrow> date \<times> ('s, 'x) lease_row_scheme list \<Rightarrow> date \<times> ('s, 'x) lease_row_scheme list \<Rightarrow> bool"
  for spec terminal actors where
  steps_refl: "lease_steps spec terminal actors c c"
| steps_step: "lease_steps spec terminal actors c (n, t) \<Longrightarrow> n \<le> now \<Longrightarrow> a \<in> actors \<Longrightarrow>
    lease_step spec terminal now a t t' \<Longrightarrow> lease_steps spec terminal actors c (now, t')"

section \<open>Facts about one statement\<close>

lemma update_returning_eq [queue_defs]:
  "update_returning p f t = (ids, t') \<longleftrightarrow> ids = map q_id (filter p t) \<and> t' = update_rows p f t"
  by (auto simp: update_returning_def)

lemma row_of_update:
  assumes "\<And>r. key (f r) = key r"
  shows "row_of key k (update_rows p f t) = map_option (\<lambda>r. if p r then f r else r) (row_of key k t)"
  using assms by (induction t) auto

lemma clear_lease_fields [simp]:
  "q_id (clear_lease r) = q_id r" "q_status (clear_lease r) = q_status r"
  "q_attempts (clear_lease r) = q_attempts r" "q_lockedBy (clear_lease r) = None"
  "q_lockedUntil (clear_lease r) = None" "q_lockedAt (clear_lease r) = None"
  by (simp_all add: clear_lease_def)

lemma claim_row_fields [simp]:
  "q_status (claim_row spec w ms now r) = qs_leased spec"
  "q_lockedBy (claim_row spec w ms now r) = Some w"
  "q_attempts (claim_row spec w ms now r) = q_attempts r + 1"
  "q_lockedUntil (claim_row spec w ms now r) = Some (now + intervalMs ms)"
  "q_id (claim_row spec w ms now r) = q_id (qs_claimSet spec r)"
  by (simp_all add: claim_row_def)

lemma release_row_fields [simp]:
  "q_status (release_row spec now r) = q_status (qs_releaseSet spec r)"
  "q_attempts (release_row spec now r) = max (q_attempts r - 1) 0"
  "q_lockedBy (release_row spec now r) = None"
  "q_id (release_row spec now r) = q_id (qs_releaseSet spec r)"
  by (simp_all add: release_row_def)

lemma picked_claimable:
  assumes "i \<in> set (picked spec n locked now t)"
  obtains r where "r \<in> set t" "q_id r = i" "qs_claimable spec now r" "\<not> locked i"
  using assms set_take_subset[of n "sort_key (qs_order spec) (filter (\<lambda>r. qs_claimable spec now r \<and> \<not> locked (q_id r)) t)"]
  unfolding picked_def by auto

lemma picked_length: "length (picked spec n locked now t) \<le> n"
  by (simp add: picked_def)

lemma picked_distinct:
  assumes "distinct (map q_id t)"
  shows "distinct (picked spec n locked now t)"
proof -
  let ?c = "filter (\<lambda>r. qs_claimable spec now r \<and> \<not> locked (q_id r)) t"
  have "distinct (map q_id ?c)" using assms by (simp add: distinct_map_filter)
  then have "distinct (map q_id (sort_key (qs_order spec) ?c))"
    by (simp add: distinct_map)
  then show ?thesis unfolding picked_def by (simp flip: take_map)
qed

text \<open>First in the queue's order: nothing left behind precedes what was picked.\<close>

lemma take_sort_key_le:
  assumes "x \<in> set (take n (sort_key k xs))" and "y \<in> set xs" and "y \<notin> set (take n (sort_key k xs))"
  shows "k x \<le> k y"
proof -
  let ?s = "sort_key k xs"
  have "y \<in> set (drop n ?s)"
    using assms(2,3) by (metis Un_iff append_take_drop_id set_append set_sort)
  moreover have "sorted (map k (take n ?s) @ map k (drop n ?s))"
    by (simp flip: map_append)
  ultimately show ?thesis using assms(1) by (auto simp: sorted_append)
qed

lemma picked_first:
  assumes "distinct (map q_id t)" and "r \<in> set t" and "q_id r \<in> set (picked spec n locked now t)"
    and "r' \<in> set t" and "qs_claimable spec now r'" and "\<not> locked (q_id r')"
    and "q_id r' \<notin> set (picked spec n locked now t)"
  shows "qs_order spec r \<le> qs_order spec r'"
proof -
  let ?c = "filter (\<lambda>r. qs_claimable spec now r \<and> \<not> locked (q_id r)) t"
  obtain x where x: "x \<in> set (take n (sort_key (qs_order spec) ?c))" "q_id x = q_id r"
    using assms(3) by (auto simp: picked_def)
  have "x \<in> set t" using x(1) set_take_subset[of n "sort_key (qs_order spec) ?c"] by auto
  then have "x = r" using x(2) assms(1,2) by (auto simp: distinct_map dest: inj_onD)
  with x(1) have "r \<in> set (take n (sort_key (qs_order spec) ?c))" by simp
  moreover have "r' \<in> set ?c" using assms(4-6) by simp
  moreover have "r' \<notin> set (take n (sort_key (qs_order spec) ?c))" using assms(7) by (auto simp: picked_def)
  ultimately show ?thesis by (rule take_sort_key_le)
qed

lemma claim_result:
  assumes "distinct (map q_id t)" and "claim spec w limit ms locked now t = (ids, t')"
  obtains lease where "\<And>r. r \<in> set t \<Longrightarrow> q_id r \<in> set ids \<Longrightarrow> qs_claimable spec now r \<and> \<not> locked (q_id r)"
    and "t' = update_rows (\<lambda>r. q_id r \<in> set ids) (claim_row spec w lease now) t"
    and "length ids \<le> nat limit" and "set ids \<subseteq> q_id ` set t" and "distinct ids"
    and "ids = [] \<or> lease = (case ms of None \<Rightarrow> qs_leaseMs spec | Some m \<Rightarrow> m)"
proof (cases "limit \<le> 0")
  case True
  then have e: "ids = []" "t' = t" using assms(2) by (auto simp: claim_def)
  show ?thesis
    by (rule that[of 0]) (simp_all add: e update_rows_id)
next
  case False
  define lease where "lease = (case ms of None \<Rightarrow> qs_leaseMs spec | Some m \<Rightarrow> m)"
  define ps where "ps = picked spec (nat limit) locked now t"
  have r: "ids = map q_id (filter (\<lambda>r. q_id r \<in> set ps) t)"
    "t' = update_rows (\<lambda>r. q_id r \<in> set ps) (claim_row spec w lease now) t"
    using assms(2) False by (simp_all add: claim_def Let_def update_returning_eq lease_def ps_def)
  have sub: "set ps \<subseteq> q_id ` set t" by (auto simp: ps_def elim: picked_claimable)
  then have same: "set ids = set ps" by (auto simp: r(1))
  have d: "distinct ids" using assms(1) unfolding r(1) by (simp add: distinct_map_filter)
  have "length ids = card (set ids)" using d by (simp add: distinct_card)
  also have "\<dots> \<le> nat limit"
    using same card_length[of ps] picked_length[of spec "nat limit" locked now t] by (simp add: ps_def)
  finally have len: "length ids \<le> nat limit" .
  have claimable: "qs_claimable spec now x \<and> \<not> locked (q_id x)" if "x \<in> set t" "q_id x \<in> set ids" for x
  proof -
    from that(2) same have "q_id x \<in> set (picked spec (nat limit) locked now t)" by (simp add: ps_def)
    then obtain y where "y \<in> set t" "q_id y = q_id x" "qs_claimable spec now y" "\<not> locked (q_id x)"
      by (rule picked_claimable)
    with that(1) assms(1) show ?thesis by (auto simp: distinct_map dest: inj_onD)
  qed
  show ?thesis
    by (rule that[of lease]) (use claimable r(2) len sub d in \<open>simp_all add: same lease_def\<close>)
qed

lemma claim_row_of:
  assumes "distinct (map q_id t)" and "claim spec w limit ms locked now t = (ids, t')"
    and "\<And>r. q_id (qs_claimSet spec r) = q_id r"
  shows "length ids \<le> nat limit"
    and "row_of q_id i t = Some r \<Longrightarrow> i \<in> set ids \<Longrightarrow> qs_claimable spec now r \<and> \<not> locked i"
    and "row_of q_id i t = Some r \<Longrightarrow> row_of q_id i t' = Some (if i \<in> set ids
      then claim_row spec w (case ms of None \<Rightarrow> qs_leaseMs spec | Some m \<Rightarrow> m) now r else r)"
proof -
  obtain lease where c: "\<And>r. r \<in> set t \<Longrightarrow> q_id r \<in> set ids \<Longrightarrow> qs_claimable spec now r \<and> \<not> locked (q_id r)"
    and t': "t' = update_rows (\<lambda>r. q_id r \<in> set ids) (claim_row spec w lease now) t"
    and len: "length ids \<le> nat limit"
    and l: "ids = [] \<or> lease = (case ms of None \<Rightarrow> qs_leaseMs spec | Some m \<Rightarrow> m)"
    by (rule claim_result[OF assms(1,2)]) blast
  show "length ids \<le> nat limit" by (rule len)
  show "row_of q_id i t = Some r \<Longrightarrow> i \<in> set ids \<Longrightarrow> qs_claimable spec now r \<and> \<not> locked i"
    using c row_of_Some by fastforce
  assume r: "row_of q_id i t = Some r"
  have "q_id (claim_row spec w lease now r) = q_id r" for r by (simp add: assms(3))
  from row_of_update[of q_id, OF this] r l row_of_Some[OF r]
  show "row_of q_id i t' = Some (if i \<in> set ids
      then claim_row spec w (case ms of None \<Rightarrow> qs_leaseMs spec | Some m \<Rightarrow> m) now r else r)"
    by (auto simp: t')
qed

lemma claim_first:
  assumes "distinct (map q_id t)" and "claim spec w limit ms locked now t = (ids, t')"
    and "r \<in> set t" and "q_id r \<in> set ids" and "r' \<in> set t" and "qs_claimable spec now r'"
    and "\<not> locked (q_id r')" and "q_id r' \<notin> set ids"
  shows "qs_order spec r \<le> qs_order spec r'"
proof -
  have "\<not> limit \<le> 0" using assms(2,4) by (auto simp: claim_def)
  then have e: "ids = map q_id (filter (\<lambda>r. q_id r \<in> set (picked spec (nat limit) locked now t)) t)"
    using assms(2) by (simp add: claim_def Let_def update_returning_eq)
  have "q_id r \<in> set (picked spec (nat limit) locked now t)" using assms(4) by (auto simp: e)
  moreover have "q_id r' \<notin> set (picked spec (nat limit) locked now t)" using assms(5,8) by (auto simp: e)
  ultimately show ?thesis by (rule picked_first[where locked = locked, OF assms(1,3) _ assms(5-7)])
qed

section \<open>The contract of a queue\<close>

text \<open>The assignments that end a lease: the owner's terminal writes and the recovery's.\<close>

definition lease_write ::
  "('s, ('s, 'x) lease_row_scheme) lease_spec
    \<Rightarrow> ((('s, 'x) lease_row_scheme \<Rightarrow> ('s, 'x) lease_row_scheme) \<Rightarrow> bool)
    \<Rightarrow> (('s, 'x) lease_row_scheme \<Rightarrow> ('s, 'x) lease_row_scheme) \<Rightarrow> bool" where
  "lease_write spec terminal f \<longleftrightarrow> terminal f \<or> f = qs_retrySet spec \<or> f = qs_deadSet spec
    \<or> (\<exists>p. qs_uncertain spec = Some (p, f))"

definition end_lease ::
  "(('s, 'x) lease_row_scheme \<Rightarrow> ('s, 'x) lease_row_scheme) \<Rightarrow> date
    \<Rightarrow> ('s, 'x) lease_row_scheme \<Rightarrow> ('s, 'x) lease_row_scheme" where
  "end_lease f now r = (clear_lease (f r))\<lparr>q_updatedAt := now\<rparr>"

text \<open>
  What a spec promises: a claimable row is not leased and has attempts left under the bound its
  frame gives; the assignments keep the row's key, attempts and frame (the columns the queue never
  writes), and each one that ends a lease moves the row
  out of the leased status.
\<close>

locale lease_policy =
  fixes spec :: "('s, ('s, 'x) lease_row_scheme) lease_spec"
    and terminal :: "(('s, 'x) lease_row_scheme \<Rightarrow> ('s, 'x) lease_row_scheme) \<Rightarrow> bool"
    and frame :: "('s, 'x) lease_row_scheme \<Rightarrow> 'k"
    and bound :: "'k \<Rightarrow> int"
  assumes claimable_free: "qs_claimable spec now r \<Longrightarrow> q_status r \<noteq> qs_leased spec"
    and claimable_below: "qs_claimable spec now r \<Longrightarrow> q_attempts r < bound (frame r)"
    and claim_id: "q_id (qs_claimSet spec r) = q_id r"
    and claim_frame: "frame (claim_row spec w ms now r) = frame r"
    and renew_frame: "frame (r\<lparr>q_lockedUntil := u\<rparr>) = frame r"
    and release_id: "q_id (qs_releaseSet spec r) = q_id r"
    and release_status: "q_status (qs_releaseSet spec r) \<noteq> qs_leased spec"
    and release_frame: "frame (release_row spec now r) = frame r"
    and write_id: "lease_write spec terminal f \<Longrightarrow> q_id (f r) = q_id r"
    and write_status: "lease_write spec terminal f \<Longrightarrow> q_status (f r) \<noteq> qs_leased spec"
    and write_attempts: "lease_write spec terminal f \<Longrightarrow> q_attempts (f r) = q_attempts r"
    and write_frame: "lease_write spec terminal f \<Longrightarrow> frame (end_lease f now r) = frame r"
begin

abbreviation limit_of :: "('s, 'x) lease_row_scheme \<Rightarrow> int" where
  "limit_of r \<equiv> bound (frame r)"

text \<open>Every statement is an update whose rows are either free to take, owned, or stale.\<close>

lemma step_update:
  assumes "distinct (map q_id t)" and "lease_step spec terminal now a t t'"
  obtains p f where "t' = update_rows p f t" and "\<And>r. q_id (f r) = q_id r"
    and "\<And>r. frame (f r) = frame r"
    and "\<And>r. r \<in> set t \<Longrightarrow> p r \<Longrightarrow> qs_claimable spec now r \<or> (\<exists>w. a = Some w \<and> owned r (qs_leased spec) w)
        \<or> a = None \<and> q_status r = qs_leased spec \<and> stale spec now r"
    and "\<And>r. r \<in> set t \<Longrightarrow> p r \<Longrightarrow> 0 \<le> q_attempts r \<Longrightarrow> q_attempts r \<le> limit_of r \<Longrightarrow>
        0 \<le> q_attempts (f r) \<and> q_attempts (f r) \<le> limit_of r"
  using assms(2)
proof (cases rule: lease_step.cases)
  case (ls_claim w limit ms locked ids)
  from assms(1) ls_claim(2) obtain lease where
    c: "\<And>r. r \<in> set t \<Longrightarrow> q_id r \<in> set ids \<Longrightarrow> qs_claimable spec now r \<and> \<not> locked (q_id r)"
    and t': "t' = update_rows (\<lambda>r. q_id r \<in> set ids) (claim_row spec w lease now) t"
    by (rule claim_result) blast
  show ?thesis
    by (rule that[OF t']) (use c claimable_below in \<open>auto simp: claim_id claim_frame dest: c\<close>, force)
next
  case (ls_renew w ids ms kept)
  define lease where "lease = (case ms of None \<Rightarrow> qs_leaseMs spec | Some m \<Rightarrow> m)"
  have "t' = update_rows (\<lambda>r. q_id r \<in> set ids \<and> owned r (qs_leased spec) w)
      (\<lambda>r. r\<lparr>q_lockedUntil := Some (now + intervalMs lease)\<rparr>) t"
    using ls_renew by (auto simp: renew_def Let_def update_returning_eq lease_def update_rows_id split: if_splits)
  then show ?thesis by (rule that) (use ls_renew in \<open>auto simp: renew_frame\<close>)
next
  case (ls_finish f w i hit)
  have w: "lease_write spec terminal f" using ls_finish by (simp add: lease_write_def)
  have "t' = update_rows (\<lambda>r. q_id r = i \<and> owned r (qs_leased spec) w) (end_lease f now) t"
    using ls_finish by (auto simp: finish_def update_returning_def end_lease_def[abs_def])
  then show ?thesis
    by (rule that) (use ls_finish write_frame[OF w] in \<open>auto simp: end_lease_def write_id[OF w] write_attempts[OF w]\<close>)
next
  case (ls_release w ids n)
  have "t' = update_rows (\<lambda>r. q_id r \<in> set ids \<and> owned r (qs_leased spec) w
      \<and> (case qs_releasable spec of None \<Rightarrow> True | Some p \<Rightarrow> p r)) (release_row spec now) t"
    using ls_release by (auto simp: release_def update_returning_def update_rows_id split: if_splits)
  then show ?thesis by (rule that) (use ls_release in \<open>auto simp: release_id release_frame\<close>)
next
  case (ls_park scope n)
  define f where "f = (case qs_uncertain spec of None \<Rightarrow> (\<lambda>r. r) | Some (_, f) \<Rightarrow> f)"
  show ?thesis
  proof (cases "qs_uncertain spec")
    case None
    then have "t' = update_rows (\<lambda>r. False) (\<lambda>r. r) t"
      using ls_park by (simp add: park_stale_def parked_def recover_statement_def update_returning_def update_rows_def)
    then show ?thesis by (rule that) auto
  next
    case (Some pf)
    then have w: "lease_write spec terminal f" by (cases pf) (auto simp: f_def lease_write_def)
    have "t' = update_rows (\<lambda>r. recoverable spec now r \<and> scope r \<and> parked spec r) (end_lease f now) t"
      using ls_park by (simp add: park_stale_def recover_statement_def update_returning_def end_lease_def[abs_def] f_def)
    then show ?thesis
      by (rule that) (use ls_park write_frame[OF w] in
          \<open>auto simp: end_lease_def write_id[OF w] write_attempts[OF w] recoverable_def\<close>)
  qed
next
  case (ls_requeue scope n)
  have w: "lease_write spec terminal (qs_retrySet spec)" by (simp add: lease_write_def)
  have "t' = update_rows (\<lambda>r. recoverable spec now r \<and> scope r \<and> \<not> parked spec r \<and> \<not> qs_exhausted spec r)
      (end_lease (qs_retrySet spec) now) t"
    using ls_requeue by (simp add: requeue_stale_def recover_statement_def update_returning_def end_lease_def[abs_def])
  then show ?thesis
    by (rule that) (use ls_requeue write_frame[OF w] in
        \<open>auto simp: end_lease_def write_id[OF w] write_attempts[OF w] recoverable_def\<close>)
next
  case (ls_dead scope n)
  have w: "lease_write spec terminal (qs_deadSet spec)" by (simp add: lease_write_def)
  have "t' = update_rows (\<lambda>r. recoverable spec now r \<and> scope r \<and> \<not> parked spec r \<and> qs_exhausted spec r)
      (end_lease (qs_deadSet spec) now) t"
    using ls_dead by (simp add: dead_stale_def recover_statement_def update_returning_def end_lease_def[abs_def])
  then show ?thesis
    by (rule that) (use ls_dead write_frame[OF w] in
        \<open>auto simp: end_lease_def write_id[OF w] write_attempts[OF w] recoverable_def\<close>)
qed

lemma step_ids:
  assumes "distinct (map q_id t)" and "lease_step spec terminal now a t t'"
  shows "map q_id t' = map q_id t"
  by (rule step_update[OF assms]) (simp add: keys_update_rows)

lemma step_keeps:
  assumes "distinct (map q_id t)" and "lease_step spec terminal now a t t'"
    and "row_of q_id i t = Some r"
  obtains r' where "row_of q_id i t' = Some r'" and "frame r' = frame r"
    and "\<not> qs_claimable spec now r \<Longrightarrow> q_status r \<noteq> qs_leased spec \<Longrightarrow> r' = r"
proof -
  obtain p f where t': "t' = update_rows p f t" and id: "\<And>r. q_id (f r) = q_id r"
    and fr: "\<And>r. frame (f r) = frame r"
    and p: "\<And>r. r \<in> set t \<Longrightarrow> p r \<Longrightarrow> qs_claimable spec now r \<or> (\<exists>w. a = Some w \<and> owned r (qs_leased spec) w)
        \<or> a = None \<and> q_status r = qs_leased spec \<and> stale spec now r"
    by (rule step_update[OF assms(1,2)]) blast
  have mem: "r \<in> set t" using row_of_Some[OF assms(3)] by simp
  show ?thesis
  proof (rule that[of "if p r then f r else r"])
    show "row_of q_id i t' = Some (if p r then f r else r)"
      using row_of_update[of q_id f i p t] id assms(3) by (simp add: t')
    show "frame (if p r then f r else r) = frame r" by (simp add: fr)
    show "(if p r then f r else r) = r" if "\<not> qs_claimable spec now r" "q_status r \<noteq> qs_leased spec"
      using p[OF mem] that by (auto simp: owned_def)
  qed
qed

lemma step_fenced:
  assumes "distinct (map q_id t)" and "lease_step spec terminal now a t t'"
    and "row_of q_id i t = Some r" and "owned r (qs_leased spec) w" and "a \<noteq> Some w"
    and "\<not> stale spec now r"
  shows "row_of q_id i t' = Some r"
proof -
  obtain p f where t': "t' = update_rows p f t" and id: "\<And>r. q_id (f r) = q_id r"
    and p: "\<And>r. r \<in> set t \<Longrightarrow> p r \<Longrightarrow> qs_claimable spec now r \<or> (\<exists>w. a = Some w \<and> owned r (qs_leased spec) w)
        \<or> a = None \<and> q_status r = qs_leased spec \<and> stale spec now r"
    by (rule step_update[OF assms(1,2)]) blast
  have "r \<in> set t" using row_of_Some[OF assms(3)] by simp
  then have "\<not> p r"
    using p[of r] assms(4-6) claimable_free[of now r] by (auto simp: owned_def)
  then show ?thesis using row_of_update[of q_id f i p t] id assms(3) by (simp add: t')
qed

definition attempts_ok :: "('s, 'x) lease_row_scheme list \<Rightarrow> bool" where
  "attempts_ok t \<longleftrightarrow> (\<forall>r \<in> set t. 0 \<le> q_attempts r \<and> q_attempts r \<le> limit_of r)"

lemma step_attempts:
  assumes "distinct (map q_id t)" and "lease_step spec terminal now a t t'" and "attempts_ok t"
  shows "attempts_ok t'"
proof -
  obtain p f where t': "t' = update_rows p f t" and lim: "\<And>r. frame (f r) = frame r"
    and p: "\<And>r. r \<in> set t \<Longrightarrow> p r \<Longrightarrow> 0 \<le> q_attempts r \<Longrightarrow> q_attempts r \<le> limit_of r \<Longrightarrow>
        0 \<le> q_attempts (f r) \<and> q_attempts (f r) \<le> limit_of r"
    by (rule step_update[OF assms(1,2)]) blast
  with assms(3) show ?thesis by (auto simp: attempts_ok_def set_update_rows)
qed

lemma steps_ids_attempts:
  assumes "lease_steps spec terminal actors c d" and "distinct (map q_id (snd c))"
  shows "map q_id (snd d) = map q_id (snd c) \<and> (attempts_ok (snd c) \<longrightarrow> attempts_ok (snd d))"
  using assms
proof (induction rule: lease_steps.induct)
  case (steps_refl c)
  then show ?case by simp
next
  case (steps_step c n t now a t')
  then have ih: "map q_id t = map q_id (snd c)" "attempts_ok (snd c) \<longrightarrow> attempts_ok t" by simp_all
  with steps_step.prems have "distinct (map q_id t)" by simp
  from step_ids[OF this steps_step.hyps(4)] step_attempts[OF this steps_step.hyps(4)] ih
  show ?case by simp
qed

text \<open>Until a lease ends nobody but its owner writes the row, whatever the others do.\<close>

lemma steps_fenced:
  assumes "lease_steps spec terminal actors c d" and "distinct (map q_id (snd c))"
    and "row_of q_id i (snd c) = Some r" and "owned r (qs_leased spec) w" and "Some w \<notin> actors"
    and "q_lockedUntil r = Some u" and "fst d \<le> u"
  shows "row_of q_id i (snd d) = Some r"
  using assms
proof (induction rule: lease_steps.induct)
  case (steps_refl c)
  then show ?case by simp
next
  case (steps_step c n t now a t')
  have ids: "distinct (map q_id t)"
    using steps_ids_attempts[OF steps_step.hyps(1) steps_step.prems(1)] steps_step.prems(1) by simp
  have "row_of q_id i t = Some r" using steps_step by simp
  moreover have "a \<noteq> Some w" using steps_step.hyps(3) steps_step.prems(4) by auto
  moreover have "\<not> stale spec now r" using steps_step.prems(5,6) by (simp add: stale_def)
  ultimately show ?case
    using step_fenced[OF ids steps_step.hyps(4)] steps_step.prems(3) by simp
qed

text \<open>What the recovery does to a row that was stale when it began.\<close>

definition recovered :: "date \<Rightarrow> date \<Rightarrow> date \<Rightarrow> ('s, 'x) lease_row_scheme \<Rightarrow> ('s, 'x) lease_row_scheme" where
  "recovered n1 n2 n3 r =
    (if parked spec r then end_lease (snd (the (qs_uncertain spec))) n1 r
     else if \<not> qs_exhausted spec r then end_lease (qs_retrySet spec) n2 r
     else end_lease (qs_deadSet spec) n3 r)"

lemma end_lease_fields:
  assumes "lease_write spec terminal f"
  shows "q_id (end_lease f n r) = q_id r" and "\<not> recoverable spec m (end_lease f n r)"
  by (simp_all add: end_lease_def write_id[OF assms] recoverable_def write_status[OF assms])

lemma recoverStale_row:
  assumes "recoverStale spec scope (n1, n2, n3) t = (res, t')" and "n1 \<le> n2" and "n2 \<le> n3"
    and row: "row_of q_id i t = Some r"
  shows "recoverable spec n1 r \<Longrightarrow> scope r \<Longrightarrow> row_of q_id i t' = Some (recovered n1 n2 n3 r)"
    and "\<not> (recoverable spec n3 r \<and> scope r) \<Longrightarrow> row_of q_id i t' = Some r"
proof -
  have mono: "stale spec n r \<Longrightarrow> n \<le> m \<Longrightarrow> stale spec m r" for n m r
    by (auto simp: stale_def split: option.splits)
  have rec: "recoverable spec n r \<Longrightarrow> n \<le> m \<Longrightarrow> recoverable spec m r" for n m r
    by (auto simp: recoverable_def intro: mono)
  have nopark: "qs_uncertain spec = None \<Longrightarrow> \<not> parked spec r" for r by (simp add: parked_def)
  have W: "lease_write spec terminal (qs_retrySet spec)" "lease_write spec terminal (qs_deadSet spec)"
    by (simp_all add: lease_write_def)
  have U: "lease_write spec terminal (snd (the (qs_uncertain spec)))" if "parked spec r" for r
    using that by (auto simp: lease_write_def parked_def split: option.splits)
  define park where "park r = (recoverable spec n1 r \<and> scope r \<and> parked spec r)" for r
  define fp where "fp r = (if park r then end_lease (snd (the (qs_uncertain spec))) n1 r else r)" for r
  define fr where "fr r = (if recoverable spec n2 r \<and> scope r \<and> \<not> parked spec r \<and> \<not> qs_exhausted spec r
      then end_lease (qs_retrySet spec) n2 r else r)" for r
  define fd where "fd r = (if recoverable spec n3 r \<and> scope r \<and> \<not> parked spec r \<and> qs_exhausted spec r
      then end_lease (qs_deadSet spec) n3 r else r)" for r
  have ids: "q_id (fp r) = q_id r" "q_id (fr r) = q_id r" "q_id (fd r) = q_id r" for r
    using U[of r] by (auto simp: fp_def fr_def fd_def park_def end_lease_fields(1) W)
  have e1: "snd (if qs_uncertain spec = None then (0, t) else park_stale spec scope n1 t) = map fp t"
  proof (cases "qs_uncertain spec")
    case None
    then have "fp = (\<lambda>r. r)" by (simp add: fp_def[abs_def] park_def nopark)
    with None show ?thesis by simp
  next
    case (Some u)
    then show ?thesis
      by (simp add: park_stale_def recover_statement_def update_returning_def update_rows_def
          fp_def park_def end_lease_def case_prod_beta)
  qed
  have e2: "snd (requeue_stale spec scope n2 t) = map fr t" for t
    by (simp add: requeue_stale_def recover_statement_def update_returning_def update_rows_def fr_def end_lease_def)
  have e3: "snd (dead_stale spec scope n3 t) = map fd t" for t
    by (simp add: dead_stale_def recover_statement_def update_returning_def update_rows_def fd_def end_lease_def)
  have "t' = snd (recoverStale spec scope (n1, n2, n3) t)" by (simp add: assms(1))
  also have "\<dots> = snd (dead_stale spec scope n3 (snd (requeue_stale spec scope n2
      (snd (if qs_uncertain spec = None then (0, t) else park_stale spec scope n1 t)))))"
    unfolding recoverStale_def by (simp only: prod.case case_prod_beta fst_conv snd_conv)
  finally have t': "t' = map fd (map fr (map fp t))" by (simp only: e1 e2 e3)
  have "row_of q_id i (map f t) = map_option f (row_of q_id i t)" if "\<And>r. q_id (f r) = q_id r"
    for f :: "('s, 'x) lease_row_scheme \<Rightarrow> ('s, 'x) lease_row_scheme" and t
    using that by (induction t) auto
  then have now: "row_of q_id i t' = Some (fd (fr (fp r)))" by (simp add: t' ids row del: map_map)
  have stop: "fr (end_lease f n x) = end_lease f n x" "fd (end_lease f n x) = end_lease f n x"
    if "lease_write spec terminal f" for f n x
    using end_lease_fields(2)[OF that] by (simp_all add: fr_def fd_def)
  show "row_of q_id i t' = Some (recovered n1 n2 n3 r)" if r1: "recoverable spec n1 r" and sc: "scope r"
  proof (cases "parked spec r")
    case True
    then have "fp r = end_lease (snd (the (qs_uncertain spec))) n1 r" using r1 sc by (simp add: fp_def park_def)
    with True show ?thesis by (simp add: now recovered_def stop[OF U[OF True]])
  next
    case False
    then have p: "fp r = r" by (simp add: fp_def park_def)
    have r2: "recoverable spec n2 r" and r3: "recoverable spec n3 r"
      using rec[OF r1] assms(2,3) by simp_all
    show ?thesis
    proof (cases "qs_exhausted spec r")
      case True
      then have "fr r = r" and "fd r = end_lease (qs_deadSet spec) n3 r"
        using False r3 sc by (simp_all add: fr_def fd_def)
      with True False show ?thesis by (simp add: now recovered_def p)
    next
      case exh: False
      then have "fr r = end_lease (qs_retrySet spec) n2 r" using False r2 sc by (simp add: fr_def)
      with exh False show ?thesis by (simp add: now recovered_def p stop[OF W(1)])
    qed
  qed
  show "row_of q_id i t' = Some r" if no: "\<not> (recoverable spec n3 r \<and> scope r)"
  proof -
    have "\<not> (recoverable spec n1 r \<and> scope r)" "\<not> (recoverable spec n2 r \<and> scope r)"
      using no rec[of n1 r n3] rec[of n2 r n3] assms(2,3) by (blast intro: order_trans)+
    with no have "fp r = r" "fr r = r" "fd r = r" by (auto simp: fp_def fr_def fd_def park_def)
    then show ?thesis by (simp add: now)
  qed
qed

end

section \<open>The owner's writes\<close>

lemma finish_owned:
  assumes "distinct (map q_id t)" and "finish spec w i f now t = (hit, t')" and "\<And>r. q_id (f r) = q_id r"
    and "row_of q_id i t = Some r"
  shows "hit \<longleftrightarrow> owned r (qs_leased spec) w"
    and "row_of q_id i t' = Some (if hit then end_lease f now r else r)"
proof -
  have uniq: "x = r" if "x \<in> set t" "q_id x = i" for x
    using that row_of_distinct[OF assms(1) that(1)] assms(4) by simp
  have mem: "r \<in> set t" "q_id r = i" using row_of_Some[OF assms(4)] by auto
  show hit: "hit \<longleftrightarrow> owned r (qs_leased spec) w"
  proof -
    have "hit \<longleftrightarrow> (\<exists>x \<in> set t. q_id x = i \<and> owned x (qs_leased spec) w)"
      using assms(2) by (auto simp: finish_def update_returning_def filter_empty_conv)
    with uniq mem show ?thesis by blast
  qed
  have t': "t' = update_rows (\<lambda>r. q_id r = i \<and> owned r (qs_leased spec) w) (end_lease f now) t"
    using assms(2) by (auto simp: finish_def update_returning_def end_lease_def[abs_def])
  have "q_id (end_lease f now x) = q_id x" for x by (simp add: end_lease_def assms(3))
  from row_of_update[of q_id, OF this] show "row_of q_id i t' = Some (if hit then end_lease f now r else r)"
    by (simp add: t' assms(4) mem hit)
qed

end
