(* ===== verification/RunLeased.thy ===== *)
theory RunLeased
  imports LeaseQueue
begin

text \<open>
  \<open>packages/db/src/lease-queue/run-leased.ts\<close>: one batch of \<open>runLeased\<close>. Its lanes, its heartbeat, the
  job signal and the other workers interleave at every \<open>await\<close>, so the batch is a step relation: a
  step is what runs between two awaits, or a statement of lease-queue.ts on the table.
\<close>

section \<open>State\<close>

datatype abort_reason = Job_timeout | Worker_shutdown

datatype row_outcome = Outcome_handled | Outcome_failed | Outcome_lost

text \<open>Where \<open>handleOne\<close> is: awaiting the confirm, holding its result, or in the handler.\<close>

datatype run_phase = Confirming | Confirmed bool | Handling

record running_row =
  rn_id :: string
  rn_phase :: run_phase
  rn_aborted :: bool

record run_state =
  rs_unfinished :: "string list"
  rs_running :: "running_row list"
  rs_renewing :: "(string list \<times> string list option) option"
  rs_waiting :: "string list option"  \<comment> \<open>rows not reached yet; none before \<open>load\<close>\<close>
  rs_started :: "string list"
  rs_lanes :: nat  \<comment> \<open>lanes between two rows\<close>
  rs_signal :: "abort_reason option"
  rs_laneError :: bool
  rs_handled :: nat
  rs_failed :: nat
  rs_leaseLost :: nat
  rs_unrecorded :: nat

text \<open>\<open>settle\<close>: the first outcome of a row counts, a later one is ignored.\<close>

definition settle_outcome :: "string \<Rightarrow> row_outcome \<Rightarrow> run_state \<Rightarrow> run_state" where
  "settle_outcome i outcome st =
    (if i \<notin> set (rs_unfinished st) then st
     else
      (let st' = st\<lparr>rs_unfinished := removeAll i (rs_unfinished st)\<rparr>
       in case outcome of
            Outcome_handled \<Rightarrow> st'\<lparr>rs_handled := rs_handled st' + 1\<rparr>
          | Outcome_failed \<Rightarrow> st'\<lparr>rs_failed := rs_failed st' + 1\<rparr>
          | Outcome_lost \<Rightarrow> st'\<lparr>rs_leaseLost := rs_leaseLost st' + 1\<rparr>))"

text \<open>\<open>lose\<close>: a running row is only told; an idle one is dropped now.\<close>

definition lose :: "string \<Rightarrow> run_state \<Rightarrow> run_state" where
  "lose i st =
    (if i \<in> rn_id ` set (rs_running st)
     then st\<lparr>rs_running := map (\<lambda>r. if rn_id r = i then r\<lparr>rn_aborted := True\<rparr> else r) (rs_running st)\<rparr>
     else settle_outcome i Outcome_lost st)"

definition leave_row :: "string \<Rightarrow> run_state \<Rightarrow> run_state" where
  "leave_row i st = st\<lparr>rs_running := filter (\<lambda>r. rn_id r \<noteq> i) (rs_running st), rs_lanes := rs_lanes st + 1\<rparr>"

definition set_phase :: "string \<Rightarrow> run_phase \<Rightarrow> run_state \<Rightarrow> run_state" where
  "set_phase i p st =
    st\<lparr>rs_running := map (\<lambda>r. if rn_id r = i then r\<lparr>rn_phase := p\<rparr> else r) (rs_running st)\<rparr>"

definition begin_batch :: "string list \<Rightarrow> nat \<Rightarrow> abort_reason option \<Rightarrow> run_state" where
  "begin_batch ids concurrency signal =
    \<lparr>rs_unfinished = ids, rs_running = [], rs_renewing = None, rs_waiting = None, rs_started = [],
     rs_lanes = max 1 concurrency, rs_signal = signal, rs_laneError = False,
     rs_handled = 0, rs_failed = 0, rs_leaseLost = 0, rs_unrecorded = 0\<rparr>"

section \<open>Steps\<close>

text \<open>
  The lanes: \<open>load\<close>, taking the next row, \<open>handleOne\<close>. The handler's terminal write and the failure
  write of \<open>onError\<close> are \<open>finish\<close> with an assignment of the queue's owner.
\<close>

inductive lane_step ::
  "('s, ('s, 'x) lease_row_scheme) lease_spec
    \<Rightarrow> ((('s, 'x) lease_row_scheme \<Rightarrow> ('s, 'x) lease_row_scheme) \<Rightarrow> bool) \<Rightarrow> string \<Rightarrow> int \<Rightarrow> string list \<Rightarrow> date
    \<Rightarrow> ('s, 'x) lease_row_scheme list \<times> run_state \<Rightarrow> ('s, 'x) lease_row_scheme list \<times> run_state \<Rightarrow> bool"
  for spec terminal w ms ids now where
  ln_load: "rs_waiting st = None \<Longrightarrow> distinct rows \<Longrightarrow> set rows \<subseteq> set ids \<Longrightarrow>
    lane_step spec terminal w ms ids now (t, st)
      (t, (fold (\<lambda>i. settle_outcome i Outcome_lost) (filter (\<lambda>i. i \<notin> set rows) ids) st)\<lparr>rs_waiting := Some rows\<rparr>)"
| ln_load_error: "rs_waiting st = None \<Longrightarrow>
    lane_step spec terminal w ms ids now (t, st) (t, st\<lparr>rs_waiting := Some [], rs_lanes := 0, rs_laneError := True\<rparr>)"
| ln_skip: "rs_waiting st = Some (i # rest) \<Longrightarrow> rs_signal st = None \<Longrightarrow> 0 < rs_lanes st \<Longrightarrow>
    i \<notin> set (rs_unfinished st) \<Longrightarrow>
    lane_step spec terminal w ms ids now (t, st) (t, st\<lparr>rs_waiting := Some rest\<rparr>)"
| ln_start: "rs_waiting st = Some (i # rest) \<Longrightarrow> rs_signal st = None \<Longrightarrow> 0 < rs_lanes st \<Longrightarrow>
    i \<in> set (rs_unfinished st) \<Longrightarrow>
    lane_step spec terminal w ms ids now (t, st)
      (t, st\<lparr>rs_waiting := Some rest, rs_lanes := rs_lanes st - 1, rs_started := i # rs_started st,
         rs_running := rs_running st @ [\<lparr>rn_id = i, rn_phase = Confirming, rn_aborted = False\<rparr>]\<rparr>)"
| ln_confirm: "r \<in> set (rs_running st) \<Longrightarrow> rn_phase r = Confirming \<Longrightarrow>
    confirm spec w (rn_id r) (Some ms) now t = (ok, t') \<Longrightarrow>
    lane_step spec terminal w ms ids now (t, st) (t', set_phase (rn_id r) (Confirmed ok) st)"
| ln_confirm_error: "r \<in> set (rs_running st) \<Longrightarrow> rn_phase r = Confirming \<Longrightarrow>
    lane_step spec terminal w ms ids now (t, st)
      (t, (leave_row (rn_id r) st)\<lparr>rs_lanes := rs_lanes st, rs_laneError := True\<rparr>)"
| ln_not_owned: "r \<in> set (rs_running st) \<Longrightarrow> rn_phase r = Confirmed ok \<Longrightarrow> \<not> ok \<or> rn_aborted r \<Longrightarrow>
    lane_step spec terminal w ms ids now (t, st) (t, leave_row (rn_id r) (settle_outcome (rn_id r) Outcome_lost st))"
| ln_handle: "r \<in> set (rs_running st) \<Longrightarrow> rn_phase r = Confirmed True \<Longrightarrow> \<not> rn_aborted r \<Longrightarrow>
    lane_step spec terminal w ms ids now (t, st) (t, set_phase (rn_id r) Handling st)"
| ln_handled: "r \<in> set (rs_running st) \<Longrightarrow> rn_phase r = Handling \<Longrightarrow> terminal f \<Longrightarrow>
    finish spec w (rn_id r) f now t = (hit, t') \<Longrightarrow>
    lane_step spec terminal w ms ids now (t, st)
      (t', leave_row (rn_id r) (settle_outcome (rn_id r) (if hit then Outcome_handled else Outcome_lost) st))"
| ln_threw_lost: "r \<in> set (rs_running st) \<Longrightarrow> rn_phase r = Handling \<Longrightarrow> rn_aborted r \<Longrightarrow>
    lane_step spec terminal w ms ids now (t, st) (t, leave_row (rn_id r) (settle_outcome (rn_id r) Outcome_lost st))"
| ln_threw_shutdown: "r \<in> set (rs_running st) \<Longrightarrow> rn_phase r = Handling \<Longrightarrow> \<not> rn_aborted r \<Longrightarrow>
    rs_signal st = Some Worker_shutdown \<Longrightarrow>
    lane_step spec terminal w ms ids now (t, st) (t, leave_row (rn_id r) st)"
| ln_threw: "r \<in> set (rs_running st) \<Longrightarrow> rn_phase r = Handling \<Longrightarrow> \<not> rn_aborted r \<Longrightarrow>
    rs_signal st \<noteq> Some Worker_shutdown \<Longrightarrow> terminal f \<Longrightarrow> finish spec w (rn_id r) f now t = (hit, t') \<Longrightarrow>
    lane_step spec terminal w ms ids now (t, st)
      (t', leave_row (rn_id r) (settle_outcome (rn_id r) (if hit then Outcome_failed else Outcome_lost) st))"
| ln_write_error: "r \<in> set (rs_running st) \<Longrightarrow> rn_phase r = Handling \<Longrightarrow> \<not> rn_aborted r \<Longrightarrow>
    rs_signal st \<noteq> Some Worker_shutdown \<Longrightarrow>
    lane_step spec terminal w ms ids now (t, st)
      (t, leave_row (rn_id r) (st\<lparr>rs_unfinished := removeAll (rn_id r) (rs_unfinished st),
         rs_unrecorded := rs_unrecorded st + 1\<rparr>))"

text \<open>The heartbeat, the job signal, and every statement of another worker or of the recovery.\<close>

inductive side_step ::
  "('s, ('s, 'x) lease_row_scheme) lease_spec
    \<Rightarrow> ((('s, 'x) lease_row_scheme \<Rightarrow> ('s, 'x) lease_row_scheme) \<Rightarrow> bool) \<Rightarrow> string \<Rightarrow> int \<Rightarrow> date
    \<Rightarrow> ('s, 'x) lease_row_scheme list \<times> run_state \<Rightarrow> ('s, 'x) lease_row_scheme list \<times> run_state \<Rightarrow> bool"
  for spec terminal w ms now where
  sd_beat: "rs_renewing st = None \<Longrightarrow> rs_unfinished st \<noteq> [] \<Longrightarrow>
    renew spec w (rs_unfinished st) (Some ms) now t = (kept, t') \<Longrightarrow>
    side_step spec terminal w ms now (t, st) (t', st\<lparr>rs_renewing := Some (rs_unfinished st, Some kept)\<rparr>)"
| sd_beat_error: "rs_renewing st = None \<Longrightarrow> rs_unfinished st \<noteq> [] \<Longrightarrow>
    side_step spec terminal w ms now (t, st) (t, st\<lparr>rs_renewing := Some (rs_unfinished st, None)\<rparr>)"
| sd_beat_done: "rs_renewing st = Some (pending, Some kept) \<Longrightarrow>
    side_step spec terminal w ms now (t, st)
      (t, (fold lose (filter (\<lambda>i. i \<notin> set kept) pending) st)\<lparr>rs_renewing := None\<rparr>)"
| sd_beat_failed: "rs_renewing st = Some (pending, None) \<Longrightarrow>
    side_step spec terminal w ms now (t, st) (t, st\<lparr>rs_renewing := None\<rparr>)"
| sd_abort: "rs_signal st = None \<Longrightarrow>
    side_step spec terminal w ms now (t, st) (t, st\<lparr>rs_signal := Some reason\<rparr>)"
| sd_others: "lease_step spec terminal now a t t' \<Longrightarrow> a \<noteq> Some w \<Longrightarrow>
    side_step spec terminal w ms now (t, st) (t', st)"

inductive batch_run ::
  "('s, ('s, 'x) lease_row_scheme) lease_spec
    \<Rightarrow> ((('s, 'x) lease_row_scheme \<Rightarrow> ('s, 'x) lease_row_scheme) \<Rightarrow> bool) \<Rightarrow> string \<Rightarrow> int \<Rightarrow> string list
    \<Rightarrow> date \<times> ('s, 'x) lease_row_scheme list \<times> run_state
    \<Rightarrow> date \<times> ('s, 'x) lease_row_scheme list \<times> run_state \<Rightarrow> bool" for spec terminal w ms ids where
  br_refl: "batch_run spec terminal w ms ids c c"
| br_lane: "batch_run spec terminal w ms ids c (n, d) \<Longrightarrow> n \<le> now \<Longrightarrow>
    lane_step spec terminal w ms ids now d e \<Longrightarrow> batch_run spec terminal w ms ids c (now, e)"
| br_side: "batch_run spec terminal w ms ids c (n, d) \<Longrightarrow> n \<le> now \<Longrightarrow>
    side_step spec terminal w ms now d e \<Longrightarrow> batch_run spec terminal w ms ids c (now, e)"

text \<open>The lanes are done, the heartbeat has settled: what is unfinished goes back.\<close>

definition lanes_done :: "run_state \<Rightarrow> bool" where
  "lanes_done st \<longleftrightarrow> rs_running st = [] \<and> rs_renewing st = None
    \<and> (case rs_waiting st of None \<Rightarrow> False | Some rows \<Rightarrow> rows = [] \<or> rs_signal st \<noteq> None \<or> rs_lanes st = 0)"

record run_result =
  ru_claimed :: nat
  ru_handled :: nat
  ru_failed :: nat
  ru_released :: nat
  ru_leaseLost :: nat

text \<open>A batch that rejects after its release (\<open>load\<close> threw, or \<open>laneError\<close>) is \<open>None\<close>.\<close>

definition end_batch ::
  "('s, ('s, 'x) lease_row_scheme) lease_spec \<Rightarrow> string \<Rightarrow> string list \<Rightarrow> date
    \<Rightarrow> ('s, 'x) lease_row_scheme list \<Rightarrow> run_state \<Rightarrow> run_result option \<times> ('s, 'x) lease_row_scheme list" where
  "end_batch spec w ids now t st =
    (case (if rs_unfinished st = [] then (0, t) else release spec w (rs_unfinished st) now t) of
       (n, t') \<Rightarrow>
         (if rs_laneError st then None
          else Some \<lparr>ru_claimed = length ids, ru_handled = rs_handled st, ru_failed = rs_failed st,
            ru_released = n, ru_leaseLost = rs_leaseLost st\<rparr>, t'))"

text \<open>\<open>runLeased\<close>: the batches one after the other, added up, until one comes back short.\<close>

definition empty_result :: run_result where
  "empty_result = \<lparr>ru_claimed = 0, ru_handled = 0, ru_failed = 0, ru_released = 0, ru_leaseLost = 0\<rparr>"

definition add_result :: "run_result \<Rightarrow> run_result \<Rightarrow> run_result" where
  "add_result a b =
    \<lparr>ru_claimed = ru_claimed a + ru_claimed b, ru_handled = ru_handled a + ru_handled b,
     ru_failed = ru_failed a + ru_failed b, ru_released = ru_released a + ru_released b,
     ru_leaseLost = ru_leaseLost a + ru_leaseLost b\<rparr>"

fun run_leased :: "int \<Rightarrow> date option \<Rightarrow> (run_result \<times> bool \<times> date) list \<Rightarrow> run_result \<Rightarrow> run_result" where
  "run_leased limit drainUntil [] acc = acc"
| "run_leased limit drainUntil ((batch, aborted, clock) # later) acc =
    (if aborted then acc
     else (let acc' = add_result acc batch
       in if drainUntil = None \<or> int (ru_claimed batch) < limit \<or> the drainUntil \<le> clock then acc'
          else run_leased limit drainUntil later acc'))"

section \<open>The books of a batch\<close>

definition waiting_ok :: "string list \<Rightarrow> string list option \<Rightarrow> string list \<Rightarrow> bool" where
  "waiting_ok ids waiting started =
    (case waiting of None \<Rightarrow> started = []
     | Some rows \<Rightarrow> distinct (rows @ started) \<and> set rows \<union> set started \<subseteq> set ids)"

definition batch_inv :: "nat \<Rightarrow> string list \<Rightarrow> run_state \<Rightarrow> bool" where
  "batch_inv concurrency ids st \<longleftrightarrow>
     distinct (rs_unfinished st) \<and> set (rs_unfinished st) \<subseteq> set ids
   \<and> rs_handled st + rs_failed st + rs_leaseLost st + rs_unrecorded st + length (rs_unfinished st) = length ids
   \<and> distinct (map rn_id (rs_running st)) \<and> rn_id ` set (rs_running st) \<subseteq> set (rs_unfinished st)
   \<and> rn_id ` set (rs_running st) \<subseteq> set (rs_started st)
   \<and> waiting_ok ids (rs_waiting st) (rs_started st)
   \<and> rs_lanes st + length (rs_running st) \<le> max 1 concurrency"

lemma length_removeAll_distinct:
  "distinct xs \<Longrightarrow> x \<in> set xs \<Longrightarrow> Suc (length (removeAll x xs)) = length xs"
  by (induction xs) auto

text \<open>What \<open>settle_outcome\<close> and \<open>lose\<close> leave alone, and the books they keep.\<close>

lemma settle_outcome_simps [simp]:
  "rs_running (settle_outcome i oc st) = rs_running st" "rs_renewing (settle_outcome i oc st) = rs_renewing st"
  "rs_waiting (settle_outcome i oc st) = rs_waiting st" "rs_started (settle_outcome i oc st) = rs_started st"
  "rs_lanes (settle_outcome i oc st) = rs_lanes st" "rs_signal (settle_outcome i oc st) = rs_signal st"
  "rs_unfinished (settle_outcome i oc st) = removeAll i (rs_unfinished st)"
  "rs_unrecorded (settle_outcome i oc st) = rs_unrecorded st"
  by (auto simp: settle_outcome_def Let_def removeAll_id split: row_outcome.split)

definition books :: "run_state \<Rightarrow> nat" where
  "books st = rs_handled st + rs_failed st + rs_leaseLost st + rs_unrecorded st + length (rs_unfinished st)"

lemma books_settle: "distinct (rs_unfinished st) \<Longrightarrow> books (settle_outcome i oc st) = books st"
  using length_removeAll_distinct[of "rs_unfinished st" i]
  by (auto simp: books_def settle_outcome_def Let_def split: row_outcome.split)

lemma batch_inv_settle:
  assumes "batch_inv k ids st" and "i \<notin> rn_id ` set (rs_running st)"
  shows "batch_inv k ids (settle_outcome i oc st)"
proof -
  have "books (settle_outcome i oc st) = books st" using assms(1) by (simp add: books_settle batch_inv_def)
  with assms show ?thesis
    by (auto simp: batch_inv_def books_def distinct_removeAll)
qed

lemma batch_inv_running:
  assumes "batch_inv k ids st" and "map rn_id rs = map rn_id (rs_running st)"
  shows "batch_inv k ids (st\<lparr>rs_running := rs\<rparr>)"
proof -
  have "rn_id ` set rs = rn_id ` set (rs_running st)" and "length rs = length (rs_running st)"
    using assms(2) by (metis list.set_map) (metis assms(2) length_map)
  with assms show ?thesis by (simp add: batch_inv_def)
qed

lemma batch_inv_lose: "batch_inv k ids st \<Longrightarrow> batch_inv k ids (lose i st)"
  unfolding lose_def by (auto intro!: batch_inv_settle batch_inv_running)

lemma batch_inv_fold_lose: "batch_inv k ids st \<Longrightarrow> batch_inv k ids (fold lose is st)"
  by (induction "is" arbitrary: st) (auto intro: batch_inv_lose)

lemma batch_inv_fold_settle:
  "batch_inv k ids st \<Longrightarrow> rs_running st = [] \<Longrightarrow> batch_inv k ids (fold (\<lambda>i. settle_outcome i oc) js st)
    \<and> rs_waiting (fold (\<lambda>i. settle_outcome i oc) js st) = rs_waiting st
    \<and> rs_started (fold (\<lambda>i. settle_outcome i oc) js st) = rs_started st"
proof (induction js arbitrary: st)
  case (Cons j js)
  have "batch_inv k ids (settle_outcome j oc st)" using Cons.prems by (intro batch_inv_settle) auto
  from Cons.IH[OF this] Cons.prems(2) show ?case by simp
qed simp

lemma running_filter_length:
  assumes "distinct (map rn_id rs)" and "r \<in> set rs"
  shows "Suc (length (filter (\<lambda>x. rn_id x \<noteq> rn_id r) rs)) = length rs"
  using assms by (induction rs) (auto simp: image_iff filter_id_conv intro!: arg_cong[where f = length] filter_True)

text \<open>A row that leaves its lane, with its outcome or without.\<close>

lemma batch_inv_leave:
  assumes inv: "batch_inv k ids st" and r: "r \<in> set (rs_running st)"
  shows "batch_inv k ids (leave_row (rn_id r) st)"
    and "batch_inv k ids ((leave_row (rn_id r) st)\<lparr>rs_lanes := rs_lanes st\<rparr>)"
proof -
  have d: "distinct (map rn_id (rs_running st))" using inv by (simp add: batch_inv_def)
  have l: "Suc (length (filter (\<lambda>x. rn_id x \<noteq> rn_id r) (rs_running st))) = length (rs_running st)"
    by (rule running_filter_length[OF d r])
  have d': "distinct (map rn_id (filter (\<lambda>x. rn_id x \<noteq> rn_id r) (rs_running st)))"
    using d by (rule distinct_map_filter)
  show "batch_inv k ids (leave_row (rn_id r) st)"
    and "batch_inv k ids ((leave_row (rn_id r) st)\<lparr>rs_lanes := rs_lanes st\<rparr>)"
    using inv l d' by (auto simp: batch_inv_def leave_row_def)
qed

lemma leave_settle: "leave_row i (settle_outcome i oc st) = settle_outcome i oc (leave_row i st)"
  by (simp add: leave_row_def settle_outcome_def Let_def split: row_outcome.split)

lemma batch_inv_done:
  assumes "batch_inv k ids st" and "r \<in> set (rs_running st)"
  shows "batch_inv k ids (leave_row (rn_id r) (settle_outcome (rn_id r) oc st))"
  unfolding leave_settle
  by (rule batch_inv_settle[OF batch_inv_leave(1)[OF assms]]) (auto simp: leave_row_def)

lemma batch_inv_phase: "batch_inv k ids st \<Longrightarrow> batch_inv k ids (set_phase i p st)"
  unfolding set_phase_def by (rule batch_inv_running) auto

lemma lane_step_inv:
  assumes "lane_step spec terminal w ms ids now d e" and "batch_inv k ids (snd d)" and "distinct ids"
  shows "batch_inv k ids (snd e)"
  using assms
proof (cases rule: lane_step.cases)
  case (ln_load st rows t)
  let ?st = "fold (\<lambda>i. settle_outcome i Outcome_lost) (filter (\<lambda>i. i \<notin> set rows) ids) st"
  have "rs_started st = []" using assms(2) ln_load by (simp add: batch_inv_def waiting_ok_def)
  moreover have "rs_running st = []" using assms(2) \<open>rs_started st = []\<close> ln_load(1) by (simp add: batch_inv_def)
  ultimately have "batch_inv k ids ?st" "rs_started ?st = []"
    using batch_inv_fold_settle[of k ids st Outcome_lost] assms(2) ln_load(1) by auto
  then show ?thesis using ln_load by (auto simp: batch_inv_def waiting_ok_def)
next
  case (ln_load_error st t)
  then show ?thesis using assms(2) by (auto simp: batch_inv_def waiting_ok_def)
next
  case (ln_skip st i rest t)
  then show ?thesis using assms(2) by (auto simp: batch_inv_def waiting_ok_def)
next
  case (ln_start st i rest t)
  then have "i \<notin> set (rs_started st)" and inv: "batch_inv k ids st"
    using assms(2) by (auto simp: batch_inv_def waiting_ok_def)
  moreover have "rn_id ` set (rs_running st) \<subseteq> set (rs_started st)" using inv by (simp add: batch_inv_def)
  ultimately have "i \<notin> rn_id ` set (rs_running st)" by blast
  then show ?thesis using assms(2) ln_start by (auto simp: batch_inv_def waiting_ok_def)
next
  case (ln_confirm_error r st t)
  have "batch_inv k ids ((leave_row (rn_id r) st)\<lparr>rs_lanes := rs_lanes st\<rparr>)"
    using ln_confirm_error assms(2) by (intro batch_inv_leave) auto
  then show ?thesis using ln_confirm_error by (simp add: batch_inv_def)
next
  case (ln_write_error r st t)
  have inv: "batch_inv k ids st" using assms(2) ln_write_error by simp
  have l: "batch_inv k ids (leave_row (rn_id r) st)"
    using inv ln_write_error(3) by (rule batch_inv_leave)
  have "rn_id r \<in> set (rs_unfinished st)" and "distinct (rs_unfinished st)"
    using inv ln_write_error(3) by (auto simp: batch_inv_def)
  from length_removeAll_distinct[OF this(2,1)] l ln_write_error(2) show ?thesis
    by (auto simp: batch_inv_def leave_row_def distinct_removeAll)
next
  case (ln_threw_shutdown r st t)
  then show ?thesis using assms(2) by (auto intro: batch_inv_leave)
qed (auto intro: batch_inv_phase batch_inv_done)

lemma side_step_inv:
  assumes "side_step spec terminal w ms now d e" and "batch_inv k ids (snd d)"
  shows "batch_inv k ids (snd e)"
  using assms(1)
proof cases
  case (sd_beat_done st pending kept t)
  then have "batch_inv k ids (fold lose (filter (\<lambda>i. i \<notin> set kept) pending) st)"
    using assms(2) by (auto intro: batch_inv_fold_lose)
  with sd_beat_done(2) show ?thesis by (simp add: batch_inv_def)
qed (use assms(2) in \<open>auto simp: batch_inv_def\<close>)

lemma batch_inv_begin: "distinct ids \<Longrightarrow> batch_inv k ids (begin_batch ids k signal)"
  by (simp add: batch_inv_def begin_batch_def waiting_ok_def)

lemma batch_run_inv:
  assumes "batch_run spec terminal w ms ids c d" and "batch_inv k ids (snd (snd c))" and "distinct ids"
  shows "batch_inv k ids (snd (snd d))"
  using assms
proof (induction rule: batch_run.induct)
  case (br_lane c n d now e)
  then show ?case using lane_step_inv[OF br_lane.hyps(3)] by (cases e) auto
next
  case (br_side c n d now e)
  then show ?case using side_step_inv[OF br_side.hyps(3)] by (cases e) auto
qed simp

section \<open>The lanes end\<close>

text \<open>Steps the lanes have left: none can be added, and each lane step uses one up.\<close>

fun phase_work :: "run_phase \<Rightarrow> nat" where
  "phase_work Confirming = 3"
| "phase_work (Confirmed _) = 2"
| "phase_work Handling = 1"

definition row_work :: "running_row \<Rightarrow> nat" where
  "row_work r = phase_work (rn_phase r)"

lemma row_work_simps [simp]:
  "row_work (r\<lparr>rn_phase := p\<rparr>) = phase_work p" "row_work (r\<lparr>rn_aborted := b\<rparr>) = row_work r"
  by (simp_all add: row_work_def)

lemma row_work_new [simp]:
  "row_work \<lparr>rn_id = i, rn_phase = p, rn_aborted = b\<rparr> = phase_work p"
  by (simp add: row_work_def)

lemma row_work_pos: "0 < row_work r"
  by (cases "rn_phase r") (auto simp: row_work_def)

definition batch_work :: "string list \<Rightarrow> run_state \<Rightarrow> nat" where
  "batch_work ids st =
    (case rs_waiting st of None \<Rightarrow> 1 + 4 * length ids | Some rows \<Rightarrow> 4 * length rows)
    + sum_list (map row_work (rs_running st))"

lemma leave_work:
  fixes rs :: "running_row list"
  assumes "r \<in> set rs"
  shows "sum_list (map row_work (filter (\<lambda>x. rn_id x \<noteq> rn_id r) rs))
    < sum_list (map row_work rs)"
proof -
  have le: "sum_list (map row_work (filter P xs)) \<le> sum_list (map row_work xs)"
    for P and xs :: "running_row list" by (induction xs) auto
  from assms show ?thesis
  proof (induction rs)
    case (Cons x rs)
    show ?case
    proof (cases "rn_id x = rn_id r")
      case True
      with row_work_pos[of x] le[of "\<lambda>x. rn_id x \<noteq> rn_id r" rs] show ?thesis by simp
    next
      case False
      with Cons show ?thesis by auto
    qed
  qed simp
qed

lemma phase_step_work:
  assumes "distinct (map rn_id rs)" and "r \<in> set rs" and "phase_work p < row_work r"
  shows "sum_list (map row_work (map (\<lambda>x. if rn_id x = rn_id r then x\<lparr>rn_phase := p\<rparr> else x) rs))
    < sum_list (map row_work rs)"
  using assms
proof (induction rs)
  case (Cons x rs)
  show ?case
  proof (cases "x = r")
    case True
    then have "rn_id r \<notin> rn_id ` set rs" using Cons.prems(1) by simp
    then have "map (\<lambda>x. if rn_id x = rn_id r then x\<lparr>rn_phase := p\<rparr> else x) rs = rs"
      by (intro map_idI) (auto simp: image_iff)
    with True Cons.prems(3) show ?thesis by simp
  next
    case False
    then have "r \<in> set rs" and "rn_id x \<noteq> rn_id r" using Cons.prems(1,2) by (auto simp: image_iff)
    with Cons show ?thesis by simp
  qed
qed simp

lemma work_fold_settle [simp]:
  "rs_running (fold (\<lambda>i. settle_outcome i oc) js st) = rs_running st"
  by (induction js arbitrary: st) auto

lemma lane_step_work:
  assumes "lane_step spec terminal w ms ids now d e" and "batch_inv k ids (snd d)"
  shows "batch_work ids (snd e) < batch_work ids (snd d)"
  using assms
proof (cases rule: lane_step.cases)
  case (ln_load st rows t)
  have "length rows \<le> length ids"
    using ln_load(4,5) by (metis card_length card_mono distinct_card finite_set order_trans)
  with ln_load show ?thesis by (simp add: batch_work_def)
next
  case (ln_confirm r st t ok t')
  have "distinct (map rn_id (rs_running st))" using assms(2) ln_confirm by (simp add: batch_inv_def)
  from phase_step_work[OF this ln_confirm(3), of "Confirmed ok"] ln_confirm show ?thesis
    by (simp add: batch_work_def set_phase_def row_work_def[of r])
next
  case (ln_handle r st t)
  have "distinct (map rn_id (rs_running st))" using assms(2) ln_handle by (simp add: batch_inv_def)
  from phase_step_work[OF this ln_handle(3), of Handling] ln_handle show ?thesis
    by (simp add: batch_work_def set_phase_def row_work_def[of r])
qed (use leave_work in \<open>auto simp: batch_work_def leave_row_def\<close>)

lemma lose_work: "batch_work ids (lose i st) = batch_work ids st"
proof -
  have "row_work \<circ> (\<lambda>r. if rn_id r = i then r\<lparr>rn_aborted := True\<rparr> else r) = row_work"
    by (rule ext) simp
  then show ?thesis by (simp add: lose_def batch_work_def)
qed

lemma fold_lose_work: "batch_work ids (fold lose js st) = batch_work ids st"
  by (induction js arbitrary: st) (auto simp: lose_work)

lemma side_step_work:
  assumes "side_step spec terminal w ms now d e"
  shows "batch_work ids (snd e) = batch_work ids (snd d)"
  using assms
proof cases
  case (sd_beat_done st pending kept t)
  have "batch_work ids (fold lose (filter (\<lambda>i. i \<notin> set kept) pending) st) = batch_work ids st"
    by (rule fold_lose_work)
  with sd_beat_done show ?thesis by (simp add: batch_work_def)
qed (auto simp: batch_work_def)

text \<open>A batch is never stuck: a lane or the heartbeat can go on until the lanes are done.\<close>

lemma lane_enabled:
  assumes "\<not> lanes_done st" and "rs_renewing st = None"
  shows "\<exists>e. lane_step spec terminal w ms ids now (t, st) e"
proof (cases "rs_running st")
  case (Cons r rest)
  then have r: "r \<in> set (rs_running st)" by simp
  show ?thesis
  proof (cases "rn_phase r")
    case Confirming
    obtain ok t' where "confirm spec w (rn_id r) (Some ms) now t = (ok, t')"
      by (cases "confirm spec w (rn_id r) (Some ms) now t")
    from ln_confirm[OF r Confirming this] show ?thesis by blast
  next
    case (Confirmed ok)
    show ?thesis
    proof (cases "\<not> ok \<or> rn_aborted r")
      case True
      from ln_not_owned[OF r Confirmed this] show ?thesis by blast
    next
      case False
      with Confirmed have "rn_phase r = Confirmed True" and "\<not> rn_aborted r" by auto
      from ln_handle[OF r this] show ?thesis by blast
    qed
  next
    case Handling
    show ?thesis
    proof (cases "rn_aborted r")
      case True
      from ln_threw_lost[OF r Handling this] show ?thesis by blast
    next
      case False
      show ?thesis
      proof (cases "rs_signal st = Some Worker_shutdown")
        case True
        from ln_threw_shutdown[OF r Handling False this] show ?thesis by blast
      next
        case other: False
        from ln_write_error[OF r Handling False other] show ?thesis by blast
      qed
    qed
  qed
next
  case Nil
  show ?thesis
  proof (cases "rs_waiting st")
    case None
    then show ?thesis using ln_load_error by blast
  next
    case (Some rows)
    with Nil assms obtain i more where "rows = i # more" "rs_signal st = None" "0 < rs_lanes st"
      by (cases rows) (auto simp: lanes_done_def)
    with Some show ?thesis using ln_skip[of st i more] ln_start[of st i more] by blast
  qed
qed

section \<open>A batch on the table\<close>

context lease_policy
begin

lemma lane_step_table:
  assumes "lane_step spec terminal w ms ids now (t, st) (t', st')"
  shows "t' = t \<or> lease_step spec terminal now (Some w) t t'"
  using assms
proof cases
  case (ln_confirm r ok)
  then obtain kept where "renew spec w [rn_id r] (Some ms) now t = (kept, t')"
    by (auto simp: confirm_def split: prod.splits)
  then show ?thesis by (auto intro: ls_renew)
next
  case (ln_handled r f hit)
  then show ?thesis by (auto intro: ls_finish)
next
  case (ln_threw r f hit)
  then show ?thesis by (auto intro: ls_finish)
qed auto

lemma side_step_table:
  assumes "side_step spec terminal w ms now (t, st) (t', st')"
  shows "t' = t \<or> (\<exists>a. lease_step spec terminal now a t t')"
  using assms by cases (auto intro: ls_renew)

lemma lease_steps_stay:
  assumes "lease_steps spec terminal UNIV c (n, t)" and "n \<le> m" and "t' = t \<or> (\<exists>a. lease_step spec terminal m a t t')"
  shows "\<exists>m'. lease_steps spec terminal UNIV c (m', t') \<and> m' \<le> m"
  using assms by (auto intro: steps_step)

lemma batch_run_table:
  assumes "batch_run spec terminal w ms ids c d"
  shows "\<exists>m \<le> fst d. lease_steps spec terminal UNIV (fst c, fst (snd c)) (m, fst (snd d))"
  using assms
proof (induction rule: batch_run.induct)
  case (br_refl c)
  then show ?case by (auto intro: steps_refl)
next
  case (br_lane c n d now e)
  then obtain m where m: "m \<le> n" "lease_steps spec terminal UNIV (fst c, fst (snd c)) (m, fst d)" by auto
  from br_lane.hyps(3) have "fst e = fst d \<or> (\<exists>a. lease_step spec terminal now a (fst d) (fst e))"
    using lane_step_table[of w ms ids now "fst d" "snd d" "fst e" "snd e"] by auto
  from lease_steps_stay[OF m(2) _ this] m(1) br_lane.hyps(2) show ?case by auto
next
  case (br_side c n d now e)
  then obtain m where m: "m \<le> n" "lease_steps spec terminal UNIV (fst c, fst (snd c)) (m, fst d)" by auto
  from br_side.hyps(3) have "fst e = fst d \<or> (\<exists>a. lease_step spec terminal now a (fst d) (fst e))"
    using side_step_table[of w ms now "fst d" "snd d" "fst e" "snd e"] by auto
  from lease_steps_stay[OF m(2) _ this] m(1) br_side.hyps(2) show ?case by auto
qed

end

end
