(* ===== verification/Outbox.thy ===== *)
theory Outbox
  imports RunLeased
begin

text \<open>
  The transactional outbox (\<open>packages/db/src/outbox/\<close>): \<open>outbox_events\<close> as a lease queue
  (\<open>outbox.ts\<close>), dead letters put back (\<open>dead-letters.ts\<close>), retention (\<open>retention.ts\<close>), and the
  life of a row under every interleaving of these statements. A payload is its JSON text, the empty
  object being \<open>{}\<close>.
\<close>

section \<open>Rows\<close>

datatype outbox_status =
  Ob_pending | Ob_processing | Ob_processed | Ob_failed | Ob_dead_lettered | Ob_skipped

datatype outbox_scope = Scope_all | Scope_realtime | Scope_background

record outbox_row = "outbox_status lease_row" +
  ob_type :: string
  ob_dedupeKey :: "string option"
  ob_payload :: string
  ob_maxAttempts :: int
  ob_nextAttemptAt :: "date option"
  ob_errorMessage :: "string option"
  ob_createdAt :: date
  ob_processedAt :: "date option"

definition REALTIME_EMIT_TYPE :: string where
  "REALTIME_EMIT_TYPE = ''realtime.emit''"

definition NETWORKING_NOTIFY_TYPE :: string where
  "NETWORKING_NOTIFY_TYPE = ''networking.notify''"

definition REALTIME_OUTBOX_TYPES :: "string list" where
  "REALTIME_OUTBOX_TYPES = [REALTIME_EMIT_TYPE, NETWORKING_NOTIFY_TYPE]"

section \<open>The queue\<close>

definition OUTBOX_LEASE_MS :: int where
  "OUTBOX_LEASE_MS = 5 * 60 * 1000"

definition outboxRetryDelayMs :: "int \<Rightarrow> int" where
  "outboxRetryDelayMs attemptCount =
    (if attemptCount \<le> 1 then 30 * 1000
     else if attemptCount = 2 then 2 * 60 * 1000
     else if attemptCount = 3 then 5 * 60 * 1000
     else 15 * 60 * 1000)"

definition outboxScopeClause :: "outbox_scope \<Rightarrow> outbox_row \<Rightarrow> bool" where
  "outboxScopeClause scope r =
    (case scope of Scope_all \<Rightarrow> True
     | Scope_realtime \<Rightarrow> ob_type r \<in> set REALTIME_OUTBOX_TYPES
     | Scope_background \<Rightarrow> ob_type r \<notin> set REALTIME_OUTBOX_TYPES)"

definition outboxLeaseSpec :: "outbox_scope \<Rightarrow> (outbox_status, outbox_row) lease_spec" where
  "outboxLeaseSpec scope =
    \<lparr>qs_leased = Ob_processing,
     qs_leaseMs = OUTBOX_LEASE_MS,
     qs_claimable = (\<lambda>now r. q_status r \<in> {Ob_pending, Ob_failed}
       \<and> (case ob_nextAttemptAt r of None \<Rightarrow> True | Some n \<Rightarrow> n \<le> now)
       \<and> q_attempts r < ob_maxAttempts r \<and> outboxScopeClause scope r),
     qs_order = ob_createdAt,
     qs_claimSet = (\<lambda>r. r\<lparr>ob_errorMessage := None\<rparr>),
     qs_releaseSet = (\<lambda>r. r\<lparr>q_status := (if q_attempts r > 1 then Ob_failed else Ob_pending),
       ob_nextAttemptAt := None\<rparr>),
     qs_releasable = None,
     qs_exhausted = (\<lambda>r. q_attempts r \<ge> ob_maxAttempts r),
     qs_retrySet = (\<lambda>r. r\<lparr>q_status := Ob_failed, ob_nextAttemptAt := None\<rparr>),
     qs_deadSet = (\<lambda>r. r\<lparr>q_status := Ob_dead_lettered, ob_nextAttemptAt := None\<rparr>),
     qs_uncertain = None,
     qs_exclude = None\<rparr>"

definition outboxDoneSet :: "outbox_status \<Rightarrow> date \<Rightarrow> outbox_row \<Rightarrow> outbox_row" where
  "outboxDoneSet status now r =
    r\<lparr>q_status := status, ob_processedAt := Some now, ob_errorMessage := None, ob_nextAttemptAt := None\<rparr>"

text \<open>The loaded row decides (its attempts include the claim); the write is applied to the stored row.\<close>

definition outboxFailedSet :: "int \<Rightarrow> int \<Rightarrow> string \<Rightarrow> date \<Rightarrow> outbox_row \<Rightarrow> outbox_row" where
  "outboxFailedSet attemptCount maxAttempts message now r =
    (if attemptCount \<ge> maxAttempts
     then r\<lparr>q_status := Ob_dead_lettered, ob_errorMessage := Some message, ob_nextAttemptAt := None\<rparr>
     else r\<lparr>q_status := Ob_failed, ob_errorMessage := Some message,
            ob_nextAttemptAt := Some (now + intervalMs (outboxRetryDelayMs attemptCount))\<rparr>)"

datatype handler_outcome = Outcome_processed | Outcome_skipped

text \<open>The rows \<open>load\<close> returns: still leased by this worker, oldest first.\<close>

definition outboxLoad :: "string \<Rightarrow> string list \<Rightarrow> outbox_row list \<Rightarrow> outbox_row list" where
  "outboxLoad workerId ids t =
    sort_key ob_createdAt (filter (\<lambda>r. q_id r \<in> set ids \<and> owned r Ob_processing workerId) t)"

text \<open>
  One loaded event through its handler: \<open>handle\<close> when the handler resolves, \<open>onError\<close> when it, or the
  lookup, throws. The result is the row's verdict and whether the write found the row owned.
\<close>

datatype event_verdict = Verdict_processed | Verdict_skipped | Verdict_failed

definition handleOutboxRow ::
  "(string \<Rightarrow> (string \<Rightarrow> string \<Rightarrow> string + handler_outcome) option) \<Rightarrow> outbox_scope \<Rightarrow> string
    \<Rightarrow> outbox_row \<Rightarrow> date \<Rightarrow> outbox_row list \<Rightarrow> event_verdict \<times> bool \<times> outbox_row list" where
  "handleOutboxRow handlers scope workerId event now t =
    (let outcome = (case handlers (ob_type event) of
           None \<Rightarrow> Inl (''Unknown outbox event type: '' @ ob_type event)
         | Some handler \<Rightarrow> handler (ob_payload event) (q_id event))
     in case outcome of
          Inr oc \<Rightarrow>
            (let status = (if oc = Outcome_skipped then Ob_skipped else Ob_processed)
             in (if status = Ob_skipped then Verdict_skipped else Verdict_processed,
                 finish (outboxLeaseSpec scope) workerId (q_id event) (outboxDoneSet status now) now t))
        | Inl message \<Rightarrow>
            (Verdict_failed,
             finish (outboxLeaseSpec scope) workerId (q_id event)
               (outboxFailedSet (q_attempts event) (ob_maxAttempts event) message now) now t))"

section \<open>The outbox keeps the contract\<close>

text \<open>The columns no statement of the queue writes.\<close>

definition outbox_frame :: "outbox_row \<Rightarrow> string \<times> string option \<times> string \<times> date \<times> int" where
  "outbox_frame r = (ob_type r, ob_dedupeKey r, ob_payload r, ob_createdAt r, ob_maxAttempts r)"

definition frame_max :: "string \<times> string option \<times> string \<times> date \<times> int \<Rightarrow> int" where
  "frame_max f = snd (snd (snd (snd f)))"

lemma frame_max_frame [simp]: "frame_max (outbox_frame r) = ob_maxAttempts r"
  by (simp add: frame_max_def outbox_frame_def)

text \<open>What a handler's end may write: a processed, skipped, failed or dead-lettered row.\<close>

definition outbox_terminal :: "(outbox_row \<Rightarrow> outbox_row) \<Rightarrow> bool" where
  "outbox_terminal f \<longleftrightarrow> (\<exists>now. f = outboxDoneSet Ob_processed now \<or> f = outboxDoneSet Ob_skipped now)
    \<or> (\<exists>a m msg now. f = outboxFailedSet a m msg now)"

lemma outbox_write_cases:
  assumes "lease_write (outboxLeaseSpec scope) outbox_terminal f"
  shows "q_id (f r) = q_id r" and "q_status (f r) \<notin> {Ob_processing, Ob_pending}"
    and "q_attempts (f r) = q_attempts r" and "outbox_frame (f r) = outbox_frame r"
  using assms
  by (auto simp: lease_write_def outbox_terminal_def outboxLeaseSpec_def outboxDoneSet_def outboxFailedSet_def
      outbox_frame_def split: if_split_asm)

interpretation outbox: lease_policy "outboxLeaseSpec scope" outbox_terminal outbox_frame frame_max
  for scope :: outbox_scope
proof unfold_locales
  fix now r
  assume c: "qs_claimable (outboxLeaseSpec scope) now r"
  then show "q_status r \<noteq> qs_leased (outboxLeaseSpec scope)" by (auto simp: outboxLeaseSpec_def)
  from c show "q_attempts r < frame_max (outbox_frame r)" by (simp add: outboxLeaseSpec_def)
next
  fix r w ms now u
  show "q_id (qs_claimSet (outboxLeaseSpec scope) r) = q_id r" by (simp add: outboxLeaseSpec_def)
  show "outbox_frame (claim_row (outboxLeaseSpec scope) w ms now r) = outbox_frame r"
    by (simp add: claim_row_def outboxLeaseSpec_def outbox_frame_def)
  show "outbox_frame (r\<lparr>q_lockedUntil := u\<rparr>) = outbox_frame r" by (simp add: outbox_frame_def)
  show "q_id (qs_releaseSet (outboxLeaseSpec scope) r) = q_id r" by (simp add: outboxLeaseSpec_def)
  show "q_status (qs_releaseSet (outboxLeaseSpec scope) r) \<noteq> qs_leased (outboxLeaseSpec scope)"
    by (simp add: outboxLeaseSpec_def)
  show "outbox_frame (release_row (outboxLeaseSpec scope) now r) = outbox_frame r"
    by (simp add: release_row_def clear_lease_def outboxLeaseSpec_def outbox_frame_def)
next
  fix f r now
  assume w: "lease_write (outboxLeaseSpec scope) outbox_terminal f"
  note c = outbox_write_cases[OF w]
  show "q_id (f r) = q_id r" by (rule c(1))
  show "q_status (f r) \<noteq> qs_leased (outboxLeaseSpec scope)" using c(2)[of r] by (simp add: outboxLeaseSpec_def)
  show "q_attempts (f r) = q_attempts r" by (rule c(3))
  have "outbox_frame (end_lease f now r) = outbox_frame (f r)"
    by (simp add: end_lease_def clear_lease_def outbox_frame_def)
  then show "outbox_frame (end_lease f now r) = outbox_frame r" by (simp add: c(4))
qed

section \<open>Enqueueing rows\<close>

record outbox_input =
  en_type :: string
  en_payload :: string
  en_dedupeKey :: "string option"
  en_maxAttempts :: "int option"

definition new_outbox_row :: "string \<Rightarrow> date \<Rightarrow> outbox_input \<Rightarrow> outbox_row" where
  "new_outbox_row i now input =
    \<lparr>q_id = i, q_status = Ob_pending, q_attempts = 0, q_lockedAt = None, q_lockedUntil = None,
     q_lockedBy = None, q_lastAttemptAt = None, q_updatedAt = now, ob_type = en_type input,
     ob_dedupeKey = en_dedupeKey input, ob_payload = en_payload input,
     ob_maxAttempts = (case en_maxAttempts input of None \<Rightarrow> 5 | Some m \<Rightarrow> m),
     ob_nextAttemptAt = None, ob_errorMessage = None, ob_createdAt = now, ob_processedAt = None\<rparr>"

text \<open>\<open>ON CONFLICT\<close> on the partial unique index: a key already in the table inserts nothing.\<close>

definition insertOutboxRow :: "string \<Rightarrow> date \<Rightarrow> outbox_input \<Rightarrow> outbox_row list \<Rightarrow> bool \<times> outbox_row list" where
  "insertOutboxRow i now input t =
    (if en_dedupeKey input \<noteq> None \<and> en_dedupeKey input \<in> ob_dedupeKey ` set t then (False, t)
     else (True, t @ [new_outbox_row i now input]))"

section \<open>Dead letters\<close>

record dead_letter_filter =
  dlf_ids :: "string list option"
  dlf_type :: "string option"
  dlf_since :: "date option"
  dlf_limit :: nat

definition requeueable :: "outbox_row \<Rightarrow> bool" where
  "requeueable r \<longleftrightarrow> q_status r = Ob_dead_lettered \<and> ob_type r \<notin> set REALTIME_OUTBOX_TYPES"

text \<open>An empty type text filters nothing, as the code tests it for truth.\<close>

definition findDeadLetteredOutboxEvents :: "dead_letter_filter \<Rightarrow> outbox_row list \<Rightarrow> outbox_row list" where
  "findDeadLetteredOutboxEvents flt t =
    (if dlf_ids flt = Some [] then []
     else take (dlf_limit flt) (sort_key q_updatedAt (sort_key q_id
       (filter (\<lambda>r. requeueable r
         \<and> (case dlf_ids flt of None \<Rightarrow> True | Some ids \<Rightarrow> q_id r \<in> set ids)
         \<and> (case dlf_type flt of None \<Rightarrow> True | Some ty \<Rightarrow> ty = [] \<or> ob_type r = ty)
         \<and> (case dlf_since flt of None \<Rightarrow> True | Some s \<Rightarrow> q_updatedAt r \<ge> s)) t))))"

definition requeueDeadLetteredOutboxEvents :: "string list \<Rightarrow> date \<Rightarrow> outbox_row list \<Rightarrow> nat \<times> outbox_row list" where
  "requeueDeadLetteredOutboxEvents ids now t =
    (if ids = [] then (0, t)
     else
      (let hit = (\<lambda>r. q_id r \<in> set ids \<and> q_status r = Ob_dead_lettered
             \<and> ob_type r \<notin> set REALTIME_OUTBOX_TYPES)
       in (length (filter hit t),
           update_rows hit (\<lambda>r. r\<lparr>q_status := Ob_pending, q_attempts := 0,
             ob_nextAttemptAt := None, q_updatedAt := now\<rparr>) t)))"

section \<open>Retention\<close>

definition realtimeExpired :: "int \<Rightarrow> date \<Rightarrow> outbox_row \<Rightarrow> bool" where
  "realtimeExpired maxAgeMs now r \<longleftrightarrow> ob_type r \<in> set REALTIME_OUTBOX_TYPES \<and> ob_dedupeKey r = None
    \<and> q_status r \<noteq> Ob_processing \<and> ob_createdAt r < now - intervalMs maxAgeMs"

definition backgroundExpired :: "int \<Rightarrow> date \<Rightarrow> outbox_row \<Rightarrow> bool" where
  "backgroundExpired maxAgeMs now r \<longleftrightarrow> ob_type r \<notin> set REALTIME_OUTBOX_TYPES \<and> ob_dedupeKey r = None
    \<and> q_status r \<in> {Ob_processed, Ob_skipped} \<and> ob_createdAt r < now - intervalMs maxAgeMs"

definition keyedCompactable :: "int \<Rightarrow> date \<Rightarrow> outbox_row \<Rightarrow> bool" where
  "keyedCompactable afterMs now r \<longleftrightarrow> ob_dedupeKey r \<noteq> None
    \<and> q_status r \<in> {Ob_processed, Ob_skipped} \<and> ob_createdAt r < now - intervalMs afterMs
    \<and> ob_payload r \<noteq> ''{}''"

text \<open>The rows one statement acts on: at most \<open>limit\<close> matching ones that nobody holds locked.\<close>

definition pick_rows :: "(outbox_row \<Rightarrow> bool) \<Rightarrow> nat \<Rightarrow> (string \<Rightarrow> bool) \<Rightarrow> outbox_row list \<Rightarrow> string list" where
  "pick_rows p limit locked t = map q_id (take limit (filter (\<lambda>r. p r \<and> \<not> locked (q_id r)) t))"

definition deleteBatch ::
  "(outbox_row \<Rightarrow> bool) \<Rightarrow> nat \<Rightarrow> (string \<Rightarrow> bool) \<Rightarrow> outbox_row list \<Rightarrow> nat \<times> outbox_row list" where
  "deleteBatch p limit locked t =
    (let ids = pick_rows p limit locked t; hit = (\<lambda>r. q_id r \<in> set ids \<and> p r)
     in (length (filter hit t), filter (\<lambda>r. \<not> hit r) t))"

definition compactBatch ::
  "(outbox_row \<Rightarrow> bool) \<Rightarrow> date \<Rightarrow> nat \<Rightarrow> (string \<Rightarrow> bool) \<Rightarrow> outbox_row list \<Rightarrow> nat \<times> outbox_row list" where
  "compactBatch p now limit locked t =
    (let ids = pick_rows p limit locked t; hit = (\<lambda>r. q_id r \<in> set ids \<and> p r)
     in (length (filter hit t), update_rows hit (\<lambda>r. r\<lparr>ob_payload := ''{}'', q_updatedAt := now\<rparr>) t))"

text \<open>The loop, its \<open>k\<close>-th statement and its \<open>k\<close>-th look at the signal.\<close>

partial_function (option) inBatches ::
  "(nat \<Rightarrow> 't \<Rightarrow> nat \<times> 't) \<Rightarrow> nat \<Rightarrow> (nat \<Rightarrow> bool) \<Rightarrow> nat \<Rightarrow> nat \<Rightarrow> 't \<Rightarrow> (nat \<times> 't) option" where
  "inBatches batch limit aborted k acc t =
    (if aborted k then Some (acc, t)
     else (case batch k t of (n, t') \<Rightarrow>
       if n < limit then Some (acc + n, t')
       else inBatches batch limit aborted (Suc k) (acc + n) t'))"

record retention_options =
  ro_batchSize :: "nat option"
  ro_realtimeMaxAgeMs :: "int option"
  ro_backgroundMaxAgeMs :: "int option"
  ro_keyedCompactAfterMs :: "int option"

record retention_result =
  re_realtimeDeleted :: nat
  re_backgroundDeleted :: nat
  re_compacted :: nat

definition HOUR_MS :: int where
  "HOUR_MS = 60 * 60 * 1000"

text \<open>The options, each with its default of \<open>OUTBOX_RETENTION\<close>.\<close>

definition retention_limit :: "retention_options \<Rightarrow> nat" where
  "retention_limit o' = (case ro_batchSize o' of None \<Rightarrow> 1000 | Some n \<Rightarrow> n)"

definition realtime_age :: "retention_options \<Rightarrow> int" where
  "realtime_age o' = (case ro_realtimeMaxAgeMs o' of None \<Rightarrow> 24 * HOUR_MS | Some m \<Rightarrow> m)"

definition background_age :: "retention_options \<Rightarrow> int" where
  "background_age o' = (case ro_backgroundMaxAgeMs o' of None \<Rightarrow> 30 * 24 * HOUR_MS | Some m \<Rightarrow> m)"

definition keyed_age :: "retention_options \<Rightarrow> int" where
  "keyed_age o' = (case ro_keyedCompactAfterMs o' of None \<Rightarrow> 30 * 24 * HOUR_MS | Some m \<Rightarrow> m)"

text \<open>\<open>now\<close>, \<open>locked\<close> and \<open>aborted\<close> are indexed by the phase and the statement in it.\<close>

definition runOutboxRetention ::
  "retention_options \<Rightarrow> (nat \<Rightarrow> nat \<Rightarrow> date) \<Rightarrow> (nat \<Rightarrow> nat \<Rightarrow> string \<Rightarrow> bool) \<Rightarrow> (nat \<Rightarrow> nat \<Rightarrow> bool)
    \<Rightarrow> outbox_row list \<Rightarrow> (retention_result \<times> outbox_row list) option" where
  "runOutboxRetention options now locked aborted t =
    (let limit = retention_limit options;
         realtime = realtimeExpired (realtime_age options);
         background = backgroundExpired (background_age options);
         keyed = keyedCompactable (keyed_age options)
     in case inBatches (\<lambda>k. deleteBatch (realtime (now 0 k)) limit (locked 0 k)) limit (aborted 0) 0 0 t of
          None \<Rightarrow> None
        | Some (a, t1) \<Rightarrow>
       (case inBatches (\<lambda>k. deleteBatch (background (now 1 k)) limit (locked 1 k)) limit (aborted 1) 0 0 t1 of
          None \<Rightarrow> None
        | Some (b, t2) \<Rightarrow>
       (case inBatches (\<lambda>k. compactBatch (keyed (now 2 k)) (now 2 k) limit (locked 2 k)) limit (aborted 2) 0 0 t2 of
          None \<Rightarrow> None
        | Some (c, t3) \<Rightarrow>
            Some (\<lparr>re_realtimeDeleted = a, re_backgroundDeleted = b, re_compacted = c\<rparr>, t3))))"

section \<open>Health\<close>

record outbox_health =
  oh_isHealthy :: bool
  oh_pending :: nat
  oh_failed :: nat
  oh_processing :: nat
  oh_deadLettered :: nat
  oh_deadLetteredLast24h :: nat
  oh_oldestPendingAgeMs :: int
  oh_oldestProcessingAgeMs :: int

text \<open>The three reads run at one time each; the thresholds are 24 hours, 1000 rows, 10 minutes and two leases.\<close>

definition getOutboxHealth :: "date \<Rightarrow> date \<Rightarrow> date \<Rightarrow> outbox_row list \<Rightarrow> outbox_health" where
  "getOutboxHealth n1 n2 n3 t =
    (let count = (\<lambda>st. length (filter (\<lambda>r. q_status r = st) t));
         recent = length (filter (\<lambda>r. q_status r = Ob_dead_lettered \<and> q_updatedAt r \<ge> n1 - intervalMs (24 * HOUR_MS)) t);
         waiting = map ob_createdAt (filter (\<lambda>r. q_status r \<in> {Ob_pending, Ob_failed}) t);
         pendingAge = (if waiting = [] then 0 else n2 - Min (set waiting));
         processingAge = qh_oldestLeaseAgeMs (health (outboxLeaseSpec Scope_all) n3 t)
     in \<lparr>oh_isHealthy = (recent = 0 \<and> count Ob_pending + count Ob_failed < 1000
           \<and> pendingAge < 10 * 60 * 1000 \<and> processingAge < 2 * OUTBOX_LEASE_MS),
         oh_pending = count Ob_pending, oh_failed = count Ob_failed, oh_processing = count Ob_processing,
         oh_deadLettered = count Ob_dead_lettered, oh_deadLetteredLast24h = recent,
         oh_oldestPendingAgeMs = pendingAge, oh_oldestProcessingAgeMs = processingAge\<rparr>)"

end
