(* ===== verification/OutboxLife.thy ===== *)
theory OutboxLife
  imports Outbox
begin

text \<open>
  The life of an outbox row under every interleaving of the statements of theory Outbox: what any
  number of workers, pumps, recoveries, producers, dead-letter requeues and retention passes can and
  cannot do to it.
\<close>

section \<open>Interleavings of every outbox statement\<close>

inductive outbox_step :: "date \<Rightarrow> string option \<Rightarrow> outbox_row list \<Rightarrow> outbox_row list \<Rightarrow> bool" for now where
  ob_queue: "lease_step (outboxLeaseSpec scope) outbox_terminal now a t t' \<Longrightarrow> outbox_step now a t t'"
| ob_enqueue: "insertOutboxRow i now input t = (b, t') \<Longrightarrow> i \<notin> q_id ` set t \<Longrightarrow>
    0 \<le> (case en_maxAttempts input of None \<Rightarrow> 5 | Some m \<Rightarrow> m) \<Longrightarrow> outbox_step now None t t'"
| ob_requeue: "requeueDeadLetteredOutboxEvents ids now t = (n, t') \<Longrightarrow> outbox_step now None t t'"
| ob_delete_realtime: "deleteBatch (realtimeExpired age now) limit locked t = (n, t') \<Longrightarrow> outbox_step now None t t'"
| ob_delete_background: "deleteBatch (backgroundExpired age now) limit locked t = (n, t') \<Longrightarrow> outbox_step now None t t'"
| ob_compact: "compactBatch (keyedCompactable age now) now limit locked t = (n, t') \<Longrightarrow> outbox_step now None t t'"

text \<open>Statements of the given actors (a worker's name, or none), at times that never go back.\<close>

inductive outbox_run ::
  "string option set \<Rightarrow> date \<times> outbox_row list \<Rightarrow> date \<times> outbox_row list \<Rightarrow> bool" for actors where
  run_refl: "outbox_run actors c c"
| run_step: "outbox_run actors c (n, t) \<Longrightarrow> n \<le> now \<Longrightarrow> a \<in> actors \<Longrightarrow> outbox_step now a t t' \<Longrightarrow>
    outbox_run actors c (now, t')"

definition outbox_ok :: "outbox_row list \<Rightarrow> bool" where
  "outbox_ok t \<longleftrightarrow> distinct (map q_id t)
    \<and> distinct (filter (\<lambda>k. k \<noteq> None) (map ob_dedupeKey t))
    \<and> outbox.attempts_ok t"

definition finished :: "outbox_row \<Rightarrow> bool" where
  "finished r \<longleftrightarrow> q_status r = Ob_processed \<or> q_status r = Ob_skipped"

text \<open>
  What one statement does to the row: it is there with the same type and key, its status and
  attempts kept once it is finished; or it is gone, and then it was unkeyed and not leased.
\<close>

definition row_kept :: "outbox_row \<Rightarrow> outbox_row \<Rightarrow> bool" where
  "row_kept r r' \<longleftrightarrow> ob_type r' = ob_type r \<and> ob_dedupeKey r' = ob_dedupeKey r
    \<and> ob_createdAt r' = ob_createdAt r \<and> ob_maxAttempts r' = ob_maxAttempts r
    \<and> (finished r \<longrightarrow> q_status r' = q_status r \<and> q_attempts r' = q_attempts r
        \<and> ob_processedAt r' = ob_processedAt r)"

definition row_gone :: "outbox_row \<Rightarrow> bool" where
  "row_gone r \<longleftrightarrow> ob_dedupeKey r = None"

lemma row_kept_refl [simp]: "row_kept r r"
  by (simp add: row_kept_def)

lemma row_kept_trans: "row_kept r s \<Longrightarrow> row_kept s t \<Longrightarrow> row_kept r t"
  by (auto simp: row_kept_def finished_def)

lemma row_of_filter:
  assumes "distinct (map q_id t)" and "row_of q_id i t = Some r"
  shows "row_of q_id i (filter P t) = (if P r then Some r else None)"
  using assms
proof (induction t)
  case Nil
  then show ?case by simp
next
  case (Cons x t)
  show ?case
  proof (cases "q_id x = i")
    case True
    then have "i \<notin> q_id ` set t" using Cons.prems(1) by auto
    then have "row_of q_id i (filter P t) = None" by (auto simp: row_of_None)
    with True Cons.prems show ?thesis by auto
  next
    case False
    with Cons show ?thesis by auto
  qed
qed

lemma row_of_append: "row_of key i t = Some r \<Longrightarrow> row_of key i (t @ u) = Some r"
  by (induction t) (auto split: if_splits)

lemma frame_kept: "outbox_frame r' = outbox_frame r \<Longrightarrow> (finished r \<Longrightarrow> r' = r) \<Longrightarrow> row_kept r r'"
  by (auto simp: row_kept_def outbox_frame_def)

lemma finished_unclaimable:
  "finished r \<Longrightarrow> \<not> qs_claimable (outboxLeaseSpec scope) now r"
  "finished r \<Longrightarrow> q_status r \<noteq> qs_leased (outboxLeaseSpec scope)"
  by (auto simp: finished_def outboxLeaseSpec_def)

lemma deleteBatch_filter:
  assumes "deleteBatch p limit locked t = (n, t')"
  obtains P where "t' = filter P t" and "\<And>r. \<not> P r \<Longrightarrow> p r" and "n + length t' = length t"
    and "n \<le> length t"
proof -
  define hit where "hit = (\<lambda>r. q_id r \<in> set (pick_rows p limit locked t) \<and> p r)"
  have e: "n = length (filter hit t)" "t' = filter (\<lambda>r. \<not> hit r) t"
    using assms by (auto simp: deleteBatch_def Let_def hit_def)
  show ?thesis
    by (rule that[of "\<lambda>r. \<not> hit r"])
       (use sum_length_filter_compl[of hit t] in \<open>auto simp: e hit_def\<close>)
qed

lemma deleteBatch_row:
  assumes "deleteBatch p limit locked t = (n, t')" and "distinct (map q_id t)"
    and "row_of q_id i t = Some r"
  shows "row_of q_id i t' = Some r \<or> p r \<and> row_of q_id i t' = None"
proof -
  obtain P where "t' = filter P t" and "\<And>r. \<not> P r \<Longrightarrow> p r"
    using assms(1) by (rule deleteBatch_filter) blast
  then show ?thesis using row_of_filter[OF assms(2,3), of P] by auto
qed

lemma outbox_step_row:
  assumes "outbox_step now a t t'" and d: "distinct (map q_id t)" and r: "row_of q_id i t = Some r"
  shows "(\<exists>r'. row_of q_id i t' = Some r' \<and> row_kept r r') \<or> row_gone r \<and> row_of q_id i t' = None"
  using assms(1)
proof cases
  case (ob_queue scope)
  obtain r' where "row_of q_id i t' = Some r'" and "outbox_frame r' = outbox_frame r"
    and "\<not> qs_claimable (outboxLeaseSpec scope) now r \<Longrightarrow> q_status r \<noteq> qs_leased (outboxLeaseSpec scope) \<Longrightarrow> r' = r"
    by (rule outbox.step_keeps[OF d ob_queue r]) blast
  then show ?thesis using frame_kept finished_unclaimable by blast
next
  case (ob_enqueue j input b)
  then show ?thesis using r row_of_append[OF r] by (auto simp: insertOutboxRow_def split: if_splits)
next
  case (ob_requeue ids n)
  then show ?thesis
    using r by (auto simp: requeueDeadLetteredOutboxEvents_def Let_def row_of_update row_kept_def finished_def split: if_splits)
next
  case (ob_delete_realtime age limit locked n)
  from deleteBatch_row[OF this(2) d r] show ?thesis by (auto simp: realtimeExpired_def row_gone_def)
next
  case (ob_delete_background age limit locked n)
  from deleteBatch_row[OF this(2) d r] show ?thesis by (auto simp: backgroundExpired_def row_gone_def)
next
  case (ob_compact age limit locked n)
  then obtain p where t': "t' = update_rows p (\<lambda>r. r\<lparr>ob_payload := ''{}'', q_updatedAt := now\<rparr>) t"
    by (auto simp: compactBatch_def Let_def)
  show ?thesis using r by (cases "p r") (auto simp: t' row_of_update row_kept_def)
qed

lemma deleteBatch_set:
  assumes "deleteBatch p limit locked t = (n, t')"
  shows "set t' \<subseteq> set t" and "distinct (map g t) \<Longrightarrow> distinct (map g t')"
    and "distinct (filter Q (map h t)) \<Longrightarrow> distinct (filter Q (map h t'))"
proof -
  obtain P where t': "t' = filter P t" using assms by (rule deleteBatch_filter)
  show "set t' \<subseteq> set t" by (simp add: t')
  show "distinct (map g t) \<Longrightarrow> distinct (map g t')" unfolding t' by (rule distinct_map_filter)
  have "filter Q (map h t') = map h (filter (\<lambda>x. P x) (filter (Q \<circ> h) t))"
    by (simp add: t' filter_map filter_filter conj_commute)
  then show "distinct (filter Q (map h t)) \<Longrightarrow> distinct (filter Q (map h t'))"
    using distinct_map_filter[of h "filter (Q \<circ> h) t" P] by (simp add: filter_map)
qed

lemma lease_step_keys:
  assumes "lease_step (outboxLeaseSpec scope) outbox_terminal now a t t'" and "distinct (map q_id t)"
  shows "map ob_dedupeKey t' = map ob_dedupeKey t"
proof -
  obtain p f where "t' = update_rows p f t" and "\<And>r. outbox_frame (f r) = outbox_frame r"
    by (rule outbox.step_update[OF assms(2,1)]) blast
  then show ?thesis by (auto intro!: keys_update_rows simp: outbox_frame_def)
qed

lemma outbox_step_ok:
  assumes "outbox_step now a t t'" and ok: "outbox_ok t"
  shows "outbox_ok t'"
  using assms(1)
proof cases
  case (ob_queue scope)
  have d: "distinct (map q_id t)" using ok by (simp add: outbox_ok_def)
  from outbox.step_ids[OF d ob_queue] outbox.step_attempts[OF d ob_queue] lease_step_keys[OF ob_queue d] ok
  show ?thesis by (simp add: outbox_ok_def)
next
  case (ob_enqueue j input b)
  show ?thesis
  proof (cases "t' = t")
    case True
    with ok show ?thesis by simp
  next
    case False
    then have t': "t' = t @ [new_outbox_row j now input]"
      and k: "en_dedupeKey input \<noteq> None \<Longrightarrow> en_dedupeKey input \<notin> ob_dedupeKey ` set t"
      using ob_enqueue(2) by (auto simp: insertOutboxRow_def split: if_splits)
    show ?thesis
      using ok ob_enqueue(3,4) k by (auto simp: t' outbox_ok_def outbox.attempts_ok_def new_outbox_row_def)
  qed
next
  case (ob_requeue ids n)
  then obtain p where t': "t' = update_rows p (\<lambda>r. r\<lparr>q_status := Ob_pending, q_attempts := 0,
             ob_nextAttemptAt := None, q_updatedAt := now\<rparr>) t \<or> t' = t"
    by (auto simp: requeueDeadLetteredOutboxEvents_def Let_def split: if_splits)
  have "0 \<le> ob_maxAttempts r" if "r \<in> set t" for r
    using ok that by (fastforce simp: outbox_ok_def outbox.attempts_ok_def)
  with t' ok show ?thesis
    by (auto simp: outbox_ok_def keys_update_rows outbox.attempts_ok_def set_update_rows)
next
  case (ob_delete_realtime age limit locked n)
  note s = deleteBatch_set[OF ob_delete_realtime(2)]
  show ?thesis
    using ok s(2)[of q_id] s(3)[of "\<lambda>k. k \<noteq> None" ob_dedupeKey] s(1)
    by (auto simp: outbox_ok_def outbox.attempts_ok_def)
next
  case (ob_delete_background age limit locked n)
  note s = deleteBatch_set[OF ob_delete_background(2)]
  show ?thesis
    using ok s(2)[of q_id] s(3)[of "\<lambda>k. k \<noteq> None" ob_dedupeKey] s(1)
    by (auto simp: outbox_ok_def outbox.attempts_ok_def)
next
  case (ob_compact age limit locked n)
  then obtain p where t': "t' = update_rows p (\<lambda>r. r\<lparr>ob_payload := ''{}'', q_updatedAt := now\<rparr>) t"
    by (auto simp: compactBatch_def Let_def)
  show ?thesis
    using ok by (auto simp: t' outbox_ok_def keys_update_rows outbox.attempts_ok_def set_update_rows)
qed

lemma outbox_run_ok: "outbox_run actors c d \<Longrightarrow> outbox_ok (snd c) \<Longrightarrow> outbox_ok (snd d)"
  by (induction rule: outbox_run.induct) (auto intro: outbox_step_ok)

lemma outbox_ok_distinct: "outbox_ok t \<Longrightarrow> distinct (map q_id t)"
  by (simp add: outbox_ok_def)

lemma outbox_run_row:
  assumes "outbox_run actors c d" and "outbox_ok (snd c)" and "row_of q_id i (snd c) = Some r"
    and "ob_dedupeKey r \<noteq> None"
  shows "\<exists>r'. row_of q_id i (snd d) = Some r' \<and> row_kept r r'"
  using assms
proof (induction rule: outbox_run.induct)
  case (run_refl c)
  then show ?case by simp
next
  case (run_step c n u now a v)
  then obtain r1 where r1: "row_of q_id i u = Some r1" "row_kept r r1" by auto
  have "distinct (map q_id u)"
    using outbox_run_ok[OF run_step.hyps(1) run_step.prems(1)] by (simp add: outbox_ok_def)
  from outbox_step_row[OF run_step.hyps(4) this r1(1)]
  obtain r2 where "row_of q_id i v = Some r2" "row_kept r1 r2"
    using r1(2) run_step.prems(3) by (auto simp: row_gone_def row_kept_def)
  with r1(2) show ?case by (auto intro: row_kept_trans)
qed

text \<open>A leased row changes only by its owner, or by the recovery once its lease has ended.\<close>

lemma outbox_step_fenced:
  assumes "outbox_step now a t t'" and d: "distinct (map q_id t)" and r: "row_of q_id i t = Some r"
    and own: "owned r Ob_processing w" and "a \<noteq> Some w" and fresh: "q_lockedUntil r = Some u" "now \<le> u"
  shows "row_of q_id i t' = Some r"
  using assms(1)
proof cases
  case (ob_queue scope)
  have "owned r (qs_leased (outboxLeaseSpec scope)) w" using own by (simp add: outboxLeaseSpec_def)
  moreover have "\<not> stale (outboxLeaseSpec scope) now r" using fresh by (simp add: stale_def)
  ultimately show ?thesis using outbox.step_fenced[OF d ob_queue r] assms(5) by blast
next
  case (ob_enqueue j input b)
  then show ?thesis using row_of_append[OF r] r by (auto simp: insertOutboxRow_def split: if_splits)
next
  case (ob_requeue ids n)
  then show ?thesis
    using r own by (auto simp: requeueDeadLetteredOutboxEvents_def Let_def row_of_update owned_def split: if_splits)
next
  case (ob_delete_realtime age limit locked n)
  from deleteBatch_row[OF ob_delete_realtime(2) d r] own show ?thesis
    by (auto simp: realtimeExpired_def owned_def)
next
  case (ob_delete_background age limit locked n)
  from deleteBatch_row[OF ob_delete_background(2) d r] own show ?thesis
    by (auto simp: backgroundExpired_def owned_def)
next
  case (ob_compact age limit locked n)
  then show ?thesis
    using r own by (auto simp: compactBatch_def Let_def row_of_update keyedCompactable_def owned_def)
qed

lemma outbox_run_fenced:
  assumes "outbox_run actors c d" and "outbox_ok (snd c)" and "row_of q_id i (snd c) = Some r"
    and "owned r Ob_processing w" and "Some w \<notin> actors" and "q_lockedUntil r = Some u" and "fst d \<le> u"
  shows "row_of q_id i (snd d) = Some r"
  using assms
proof (induction rule: outbox_run.induct)
  case (run_refl c)
  then show ?case by simp
next
  case (run_step c n t now a t')
  have "distinct (map q_id t)"
    using outbox_run_ok[OF run_step.hyps(1) run_step.prems(1)] by (simp add: outbox_ok_def)
  moreover have "row_of q_id i t = Some r" using run_step by simp
  moreover have "a \<noteq> Some w" using run_step.hyps(3) run_step.prems(4) by auto
  ultimately show ?case
    using outbox_step_fenced[OF run_step.hyps(4)] run_step.prems(3,5,6) by simp
qed

lemma handleOutboxRow_ids:
  assumes "handleOutboxRow handlers scope w r now t = (v, hit, t')"
  shows "map q_id t' = map q_id t"
proof -
  have "map q_id (snd (finish spec w i f now t)) = map q_id t" if "\<And>x. q_id (f x) = q_id x"
    for f and spec :: "(outbox_status, outbox_row) lease_spec" and i
    using that by (simp add: finish_def update_returning_def keys_update_rows)
  then have "map q_id (snd (snd (handleOutboxRow handlers scope w r now t))) = map q_id t"
    by (simp add: handleOutboxRow_def Let_def outboxDoneSet_def outboxFailedSet_def split: option.split sum.split)
  with assms show ?thesis by simp
qed

end
