(* ===== verification/OutboxRetention.thy ===== *)
theory OutboxRetention
  imports OutboxLife
begin

text \<open>
  Retention (\<open>retention.ts\<close>): the batch loop ends, deletes nothing but expired unkeyed rows, compacts
  nothing but finished keyed rows, and leaves nothing expired behind when nothing stops it.
\<close>

lemma inBatches_result:
  fixes m :: "'t \<Rightarrow> nat"
  assumes "0 < limit" and "I acc t"
    and dec: "\<And>k t n t'. batch k t = (n, t') \<Longrightarrow> m t' + n \<le> m t"
    and inv: "\<And>k acc t n t'. batch k t = (n, t') \<Longrightarrow> I acc t \<Longrightarrow> I (acc + n) t'"
  obtains n t' where "inBatches batch limit aborted k acc t = Some (n, t')" and "I n t'"
    and "(\<exists>k. aborted k) \<or> (\<exists>k a u v. I a u \<and> batch k u = (v, t') \<and> v < limit)"
proof -
  have "\<exists>n t'. inBatches batch limit aborted k acc t = Some (n, t') \<and> I n t'
      \<and> ((\<exists>k. aborted k) \<or> (\<exists>k a u v. I a u \<and> batch k u = (v, t') \<and> v < limit))"
    using assms(2)
  proof (induction "m t" arbitrary: t k acc rule: less_induct)
    case less
    obtain n t' where b: "batch k t = (n, t')" by (cases "batch k t")
    show ?case
    proof (cases "aborted k \<or> n < limit")
      case True
      then show ?thesis
        using less.prems b inv[OF b] by (subst inBatches.simps) (auto simp: inBatches.simps)
    next
      case False
      then have "m t' < m t" using dec[OF b] assms(1) by simp
      from less.hyps[OF this inv[OF b less.prems], of "Suc k"] False b show ?thesis
        by (subst inBatches.simps) auto
    qed
  qed
  then show ?thesis by (blast intro: that)
qed

text \<open>A statement that hits fewer rows than its limit has hit every matching row.\<close>

lemma short_batch_hits_all:
  assumes "distinct (map q_id t)" and "\<And>i. \<not> locked i"
    and "length (filter (\<lambda>r. q_id r \<in> set (pick_rows p limit locked t) \<and> p r) t) < limit"
    and "r \<in> set t" and "p r"
  shows "q_id r \<in> set (pick_rows p limit locked t)"
proof -
  let ?hit = "filter (\<lambda>r. q_id r \<in> set (pick_rows p limit locked t) \<and> p r) t"
  let ?pick = "take limit (filter p t)"
  have pick: "pick_rows p limit locked t = map q_id ?pick" by (simp add: pick_rows_def assms(2))
  have "distinct t" using assms(1) by (simp add: distinct_map)
  then have "distinct ?pick" by simp
  moreover have "set ?pick \<subseteq> set ?hit" using set_take_subset[of limit "filter p t"] by (auto simp: pick)
  ultimately have "card (set ?pick) \<le> card (set ?hit)" and "card (set ?pick) = length ?pick"
    by (blast intro: card_mono finite_set) (rule distinct_card, fact)
  then have "length ?pick \<le> card (set ?hit)" by simp
  also have "\<dots> \<le> length ?hit" by (rule card_length)
  finally have "length ?pick \<le> length ?hit" .
  with assms(3) have "length (filter p t) < limit" by simp
  then have "?pick = filter p t" by simp
  with assms(4,5) show ?thesis by (auto simp: pick)
qed

definition cut_down :: "(outbox_row \<Rightarrow> bool) \<Rightarrow> outbox_row list \<Rightarrow> outbox_row list \<Rightarrow> bool" where
  "cut_down p t u \<longleftrightarrow> (\<exists>P. u = filter P t \<and> (\<forall>r. \<not> P r \<longrightarrow> p r))"

lemma cut_down_distinct: "cut_down p t u \<Longrightarrow> distinct (map q_id t) \<Longrightarrow> distinct (map q_id u)"
  by (auto simp: cut_down_def distinct_map_filter)

lemma cut_down_row:
  assumes "cut_down p t u" and "distinct (map q_id t)" and "row_of q_id i t = Some r"
  shows "row_of q_id i u = Some r \<or> row_of q_id i u = None \<and> p r"
proof -
  obtain P where "u = filter P t" and "\<And>r. \<not> P r \<Longrightarrow> p r" using assms(1) by (auto simp: cut_down_def)
  then show ?thesis using row_of_filter[OF assms(2,3), of P] by auto
qed

lemma deleteBatch_cut:
  assumes "deleteBatch p limit locked u = (n, u')" and "\<forall>r. p r \<longrightarrow> q r"
  shows "length u' + n = length u \<and> cut_down q u u'"
proof -
  define hit where "hit = (\<lambda>r. q_id r \<in> set (pick_rows p limit locked u) \<and> p r)"
  have e: "n = length (filter hit u)" "u' = filter (\<lambda>r. \<not> hit r) u"
    using assms(1) by (auto simp: deleteBatch_def Let_def hit_def)
  have "cut_down q u u'"
    unfolding cut_down_def by (rule exI[of _ "\<lambda>r. \<not> hit r"]) (use assms(2) in \<open>auto simp: e(2) hit_def\<close>)
  with sum_length_filter_compl[of hit u] show ?thesis by (simp add: e)
qed

lemma cut_down_trans: "cut_down q a b \<Longrightarrow> cut_down q b c \<Longrightarrow> cut_down q a c"
proof -
  assume "cut_down q a b" "cut_down q b c"
  then obtain P Q where "b = filter P a" "c = filter Q b" "\<forall>r. \<not> P r \<longrightarrow> q r" "\<forall>r. \<not> Q r \<longrightarrow> q r"
    by (auto simp: cut_down_def)
  then show ?thesis
    unfolding cut_down_def by (intro exI[of _ "\<lambda>r. Q r \<and> P r"]) (auto simp: conj_commute)
qed

lemma delete_phase:
  assumes "0 < limit" and d: "distinct (map q_id t)" and "\<And>k. \<forall>r. p k r \<longrightarrow> q r"
  obtains n u where "inBatches (\<lambda>k. deleteBatch (p k) limit (locked k)) limit aborted 0 0 t = Some (n, u)"
    and "cut_down q t u" and "length u + n = length t"
    and "(\<forall>k. \<not> aborted k \<and> p k = q \<and> (\<forall>i. \<not> locked k i)) \<longrightarrow> (\<forall>r \<in> set u. \<not> q r)"
proof -
  define I where "I acc u \<longleftrightarrow> cut_down q t u \<and> length u + acc = length t" for acc u
  have step: "length u' + n = length u \<and> cut_down q u u'"
    if "deleteBatch (p k) limit (locked k) u = (n, u')" for k u n u'
    using that assms(3) by (rule deleteBatch_cut)
  have I0: "I 0 t" by (auto simp: I_def cut_down_def intro: exI[of _ "\<lambda>_. True"])
  have inv: "I (acc + n) u'" if "deleteBatch (p k) limit (locked k) u = (n, u')" "I acc u" for k acc u n u'
    using step[OF that(1)] that(2) cut_down_trans by (auto simp: I_def)
  obtain n u where r: "inBatches (\<lambda>k. deleteBatch (p k) limit (locked k)) limit aborted 0 0 t = Some (n, u)"
    "I n u" "(\<exists>k. aborted k) \<or> (\<exists>k a w v. I a w \<and> deleteBatch (p k) limit (locked k) w = (v, u) \<and> v < limit)"
    by (rule inBatches_result[where m = length and I = I and acc = 0 and k = 0 and t = t and aborted = aborted
          and batch = "\<lambda>k. deleteBatch (p k) limit (locked k)", OF assms(1) I0])
       (use step inv in auto)
  have "\<forall>r \<in> set u. \<not> q r" if na: "\<And>k. \<not> aborted k" and pq: "\<And>k. p k = q" and nl: "\<And>k i. \<not> locked k i"
  proof -
    obtain k a w v where w: "I a w" "deleteBatch q limit (locked k) w = (v, u)" "v < limit"
      using r(3) na pq by auto
    have "distinct (map q_id w)" using w(1) cut_down_distinct d by (auto simp: I_def)
    then have "q_id r \<in> set (pick_rows q limit (locked k) w)" if "r \<in> set w" "q r" for r
      using short_batch_hits_all[of w "locked k" q limit r] w(2,3) nl that
      by (auto simp: deleteBatch_def Let_def)
    with w(2) show ?thesis by (auto simp: deleteBatch_def Let_def)
  qed
  with r(1,2) show ?thesis by (intro that[of n u]) (auto simp: I_def)
qed

definition compacted :: "int \<Rightarrow> (nat \<Rightarrow> date) \<Rightarrow> outbox_row \<Rightarrow> outbox_row \<Rightarrow> bool" where
  "compacted age now r r' \<longleftrightarrow> r' = r
    \<or> (\<exists>k. keyedCompactable age (now k) r \<and> r' = r\<lparr>ob_payload := ''{}'', q_updatedAt := now k\<rparr>)"

lemma compacted_step:
  assumes "compacted age now r r'" and "keyedCompactable age (now k) r'"
  shows "compacted age now r (r'\<lparr>ob_payload := ''{}'', q_updatedAt := now k\<rparr>)"
  using assms by (auto simp: compacted_def keyedCompactable_def)

lemma compactBatch_rows:
  assumes "compactBatch (keyedCompactable age (now k)) (now k) limit locked u = (n, u')"
    and "list_all2 (compacted age now) t u"
  shows "list_all2 (compacted age now) t u'"
proof -
  obtain P where u': "u' = update_rows P (\<lambda>r. r\<lparr>ob_payload := ''{}'', q_updatedAt := now k\<rparr>) u"
    and P: "\<And>r. P r \<Longrightarrow> keyedCompactable age (now k) r"
    using assms(1) by (auto simp: compactBatch_def Let_def)
  from assms(2) show ?thesis
    unfolding u' by (induction rule: list_all2_induct) (auto intro: compacted_step P)
qed

definition payloads :: "outbox_row list \<Rightarrow> nat" where
  "payloads t = length (filter (\<lambda>r. ob_payload r \<noteq> ''{}'') t)"

lemma payloads_compact:
  assumes "\<And>r. P r \<Longrightarrow> ob_payload r \<noteq> ''{}''"
  shows "payloads (update_rows P (\<lambda>r. r\<lparr>ob_payload := ''{}'', q_updatedAt := m\<rparr>) t) + length (filter P t) \<le> payloads t"
  using assms by (induction t) (auto simp: payloads_def)

lemma compactBatch_payloads:
  assumes "compactBatch (keyedCompactable age m) m limit locked u = (n, u')"
  shows "payloads u' + n \<le> payloads u"
proof -
  define P where "P r \<longleftrightarrow> q_id r \<in> set (pick_rows (keyedCompactable age m) limit locked u) \<and> keyedCompactable age m r" for r
  have "u' = update_rows P (\<lambda>r. r\<lparr>ob_payload := ''{}'', q_updatedAt := m\<rparr>) u" and "n = length (filter P u)"
    using assms by (auto simp: compactBatch_def Let_def P_def[abs_def])
  then show ?thesis using payloads_compact[of P m u] by (simp add: P_def keyedCompactable_def)
qed

lemma compacted_ids: "list_all2 (compacted age now) t u \<Longrightarrow> map q_id u = map q_id t"
  by (induction rule: list_all2_induct) (auto simp: compacted_def)

lemma compacted_row:
  assumes "list_all2 (compacted age now) t u" and "row_of q_id i t = Some r"
  shows "\<exists>r'. row_of q_id i u = Some r' \<and> compacted age now r r'"
  using assms by (induction rule: list_all2_induct) (auto simp: compacted_def split: if_splits)

lemma compacted_row_None:
  assumes "list_all2 (compacted age now) t u" and "row_of q_id i t = None"
  shows "row_of q_id i u = None"
  using assms by (induction rule: list_all2_induct) (auto simp: compacted_def split: if_splits)

lemma compact_phase:
  assumes "0 < limit" and d: "distinct (map q_id t)"
  obtains n u where
    "inBatches (\<lambda>k. compactBatch (keyedCompactable age (now k)) (now k) limit (locked k)) limit aborted 0 0 t = Some (n, u)"
    and "list_all2 (compacted age now) t u"
    and "(\<forall>k. \<not> aborted k \<and> now k = m \<and> (\<forall>i. \<not> locked k i)) \<longrightarrow>
      (\<forall>r \<in> set u. \<not> keyedCompactable age m r)"
proof -
  define I where "I acc u \<longleftrightarrow> list_all2 (compacted age now) t u" for acc :: nat and u
  let ?b = "\<lambda>k. compactBatch (keyedCompactable age (now k)) (now k) limit (locked k)"
  have I0: "I 0 t" by (simp add: I_def list_all2_same compacted_def)
  obtain n u where r: "inBatches ?b limit aborted 0 0 t = Some (n, u)"
    "I n u" "(\<exists>k. aborted k) \<or> (\<exists>k a w v. I a w \<and> ?b k w = (v, u) \<and> v < limit)"
    by (rule inBatches_result[where m = payloads and I = I and acc = 0 and k = 0 and t = t and aborted = aborted
          and batch = ?b, OF assms(1) I0])
       (auto simp: I_def intro: compactBatch_payloads compactBatch_rows)
  have "\<forall>r \<in> set u. \<not> keyedCompactable age m r"
    if na: "\<And>k. \<not> aborted k" and pq: "\<And>k. now k = m" and nl: "\<And>k i. \<not> locked k i"
  proof -
    let ?q = "keyedCompactable age m"
    obtain k a w v where w: "I a w" "compactBatch ?q m limit (locked k) w = (v, u)" "v < limit"
      using r(3) na pq by auto
    define P where "P r \<longleftrightarrow> q_id r \<in> set (pick_rows ?q limit (locked k) w) \<and> ?q r" for r
    have u: "u = update_rows P (\<lambda>r. r\<lparr>ob_payload := ''{}'', q_updatedAt := m\<rparr>) w" and "v = length (filter P w)"
      using w(2) by (auto simp: compactBatch_def Let_def P_def[abs_def])
    have "distinct (map q_id w)" using w(1) compacted_ids d by (auto simp: I_def)
    then have all: "P r" if "r \<in> set w" "?q r" for r
      using short_batch_hits_all[of w "locked k" ?q limit r] w(3) nl that \<open>v = _\<close>
      by (simp add: P_def[abs_def])
    then show ?thesis by (auto simp: u set_update_rows keyedCompactable_def)
  qed
  with r(1,2) show ?thesis by (intro that[of n u]) (auto simp: I_def)
qed

section \<open>The whole pass\<close>

lemma retention_rows:
  assumes "cut_down p t t1" and "cut_down q t1 t2" and "list_all2 (compacted age now) t2 t3"
    and "distinct (map q_id t)" and "row_of q_id i t = Some r"
  shows "case row_of q_id i t3 of None \<Rightarrow> p r \<or> q r | Some r' \<Rightarrow> compacted age now r r'"
proof (cases "row_of q_id i t1")
  case None
  then have "p r" using cut_down_row[OF assms(1,4,5)] by auto
  moreover have "row_of q_id i t2 = None" using assms(2) None by (auto simp: cut_down_def row_of_None)
  ultimately show ?thesis using compacted_row_None[OF assms(3)] by simp
next
  case (Some r1)
  then have s1: "row_of q_id i t1 = Some r" using cut_down_row[OF assms(1,4,5)] by auto
  have d1: "distinct (map q_id t1)" using assms(1,4) by (rule cut_down_distinct)
  show ?thesis
  proof (cases "row_of q_id i t2")
    case None
    then have "q r" using cut_down_row[OF assms(2) d1 s1] by auto
    then show ?thesis using compacted_row_None[OF assms(3) None] by simp
  next
    case (Some r2)
    then have "row_of q_id i t2 = Some r" using cut_down_row[OF assms(2) d1 s1] by auto
    then show ?thesis using compacted_row[OF assms(3)] by fastforce
  qed
qed

lemma compacted_expired:
  assumes "compacted age now r r'"
  shows "realtimeExpired a m r' = realtimeExpired a m r" and "backgroundExpired a m r' = backgroundExpired a m r"
  using assms by (auto simp: compacted_def realtimeExpired_def backgroundExpired_def)

lemma retention_clean:
  assumes "\<forall>r \<in> set t1. \<not> realtimeExpired a m r" and "\<forall>r \<in> set t2. \<not> backgroundExpired b m r"
    and "cut_down q t1 t2" and "list_all2 (compacted age now) t2 t3" and "r' \<in> set t3"
  shows "\<not> realtimeExpired a m r'" and "\<not> backgroundExpired b m r'"
proof -
  obtain r where r: "r \<in> set t2" "compacted age now r r'"
    using assms(4,5) unfolding list_all2_conv_all_nth in_set_conv_nth by (metis nth_mem)
  moreover have "r \<in> set t1" using r(1) assms(3) by (auto simp: cut_down_def)
  ultimately show "\<not> realtimeExpired a m r'" and "\<not> backgroundExpired b m r'"
    using assms(1,2) compacted_expired[OF r(2)] by auto
qed

end
