(* ===== verification/OutboxProps.thy ===== *)
theory OutboxProps
  imports OutboxRetention
begin

text \<open>The properties of the outbox, each with its instance on a small table.\<close>

section \<open>Example rows\<close>

definition ex_row :: "string \<Rightarrow> outbox_status \<Rightarrow> int \<Rightarrow> string option \<Rightarrow> outbox_row" where
  "ex_row i st n key =
    \<lparr>q_id = i, q_status = st, q_attempts = n, q_lockedAt = None, q_lockedUntil = None, q_lockedBy = None,
     q_lastAttemptAt = None, q_updatedAt = 0, ob_type = ''email.triggered'', ob_dedupeKey = key,
     ob_payload = ''{1}'', ob_maxAttempts = 5, ob_nextAttemptAt = None, ob_errorMessage = None,
     ob_createdAt = 0, ob_processedAt = None\<rparr>"

definition ex_leased :: "string \<Rightarrow> string \<Rightarrow> int \<Rightarrow> date \<Rightarrow> outbox_row" where
  "ex_leased i w n u = (ex_row i Ob_processing n (Some i))
    \<lparr>q_lockedAt := Some 0, q_lockedUntil := Some u, q_lockedBy := Some w\<rparr>"

definition ex_input :: outbox_input where
  "ex_input = \<lparr>en_type = ''email.triggered'', en_payload = ''{1}'', en_dedupeKey = Some ''k'', en_maxAttempts = None\<rparr>"

lemma prod3: "x = (fst x, fst (snd x), snd (snd x))"
  by simp

section \<open>Enqueueing\<close>

lemma insertOutboxRow_ok:
  assumes "outbox_ok t" and "insertOutboxRow i now input t = (b, t1)" and "i \<notin> q_id ` set t"
    and "0 \<le> (case en_maxAttempts input of None \<Rightarrow> 5 | Some m \<Rightarrow> m)"
  shows "outbox_ok t1"
  by (rule outbox_step_ok[OF ob_enqueue[OF assms(2-4)] assms(1)])

lemma key_in_table:
  assumes "row_of q_id i t = Some r" and "ob_dedupeKey r = Some k" and "en_dedupeKey input = Some k"
  shows "insertOutboxRow j now input t = (False, t)"
  using row_of_Some[OF assms(1)] assms(2,3) by (force simp: insertOutboxRow_def)

lemma outbox_key_once_facts:
  assumes "outbox_ok t" and "insertOutboxRow i now input t = (True, t1)" and "i \<notin> q_id ` set t"
    and "0 \<le> (case en_maxAttempts input of None \<Rightarrow> 5 | Some m \<Rightarrow> m)"
    and "en_dedupeKey input = Some k" and "outbox_run actors (now, t1) (m, u)"
    and "en_dedupeKey again = Some k"
  shows "outbox_ok u" and "\<exists>r. row_of q_id i u = Some r \<and> ob_dedupeKey r = Some k \<and> ob_type r = en_type input"
    and "insertOutboxRow j m again u = (False, u)"
proof -
  have ok1: "outbox_ok t1" using assms(1-4) by (rule insertOutboxRow_ok)
  show "outbox_ok u" using outbox_run_ok[OF assms(6)] ok1 by simp
  have "t1 = t @ [new_outbox_row i now input]" using assms(2) by (auto simp: insertOutboxRow_def split: if_splits)
  then have "row_of q_id i t1 = Some (new_outbox_row i now input)"
    using assms(3) by (induction t arbitrary: t1) (auto simp: new_outbox_row_def)
  from outbox_run_row[OF assms(6) _ _ , of i "new_outbox_row i now input"] ok1 this assms(5)
  obtain r where "row_of q_id i u = Some r" "row_kept (new_outbox_row i now input) r"
    by (auto simp: new_outbox_row_def)
  then have r: "row_of q_id i u = Some r" "ob_dedupeKey r = Some k" "ob_type r = en_type input"
    using assms(5) by (auto simp: row_kept_def new_outbox_row_def)
  then show "\<exists>r. row_of q_id i u = Some r \<and> ob_dedupeKey r = Some k \<and> ob_type r = en_type input" by blast
  show "insertOutboxRow j m again u = (False, u)" using r(1,2) assms(7) by (rule key_in_table)
qed

text \<open>
  C12: once a keyed event has been enqueued, whatever workers, recoveries, producers, requeues and
  retention passes do to the table afterwards, the row with that key stays in it and every later
  enqueue of the key inserts nothing; identifiers and keys stay unique and attempts within bounds.
\<close>

theorem outbox_key_once:
  assumes "outbox_ok t" and "insertOutboxRow i now input t = (True, t1)" and "i \<notin> q_id ` set t"
    and "0 \<le> (case en_maxAttempts input of None \<Rightarrow> 5 | Some m \<Rightarrow> m)"
    and "en_dedupeKey input = Some k" and "outbox_run actors (now, t1) (m, u)"
    and "en_dedupeKey again = Some k"
  shows "(outbox_ok u)
    \<and> (\<exists>r. row_of q_id i u = Some r \<and> ob_dedupeKey r = Some k \<and> ob_type r = en_type input)
    \<and> (insertOutboxRow j m again u = (False, u))"
  using outbox_key_once_facts[OF assms] by blast

lemma ex_key_run:
  "outbox_run UNIV (0, snd (insertOutboxRow ''a'' 0 ex_input []))
    (1, snd (claim (outboxLeaseSpec Scope_all) ''w'' 10 None (\<lambda>_. False) 1 (snd (insertOutboxRow ''a'' 0 ex_input []))))"
  by (rule run_step[OF run_refl _ _ ob_queue[OF ls_claim[OF surjective_pairing]]]) simp_all

theorem outbox_key_once_witness:
  "insertOutboxRow ''b'' 1 ex_input
     (snd (claim (outboxLeaseSpec Scope_all) ''w'' 10 None (\<lambda>_. False) 1 (snd (insertOutboxRow ''a'' 0 ex_input []))))
   = (False, snd (claim (outboxLeaseSpec Scope_all) ''w'' 10 None (\<lambda>_. False) 1 (snd (insertOutboxRow ''a'' 0 ex_input []))))"
  by (rule outbox_key_once[where t = "[]" and i = "''a''" and k = "''k''" and input = ex_input, OF _ _ _ _ _ ex_key_run, THEN conjunct2, THEN conjunct2])
     (simp_all add: outbox_ok_def outbox.attempts_ok_def insertOutboxRow_def ex_input_def)

lemma outbox_finished_final_facts:
  assumes "outbox_ok t" and "row_of q_id i t = Some r" and "finished r" and "ob_dedupeKey r \<noteq> None"
    and "outbox_run actors (n, t) (m, u)"
    and "claim (outboxLeaseSpec scope) w limit ms locked m u = (ids, u')"
  shows "\<exists>r'. row_of q_id i u = Some r' \<and> q_status r' = q_status r \<and> q_attempts r' = q_attempts r"
    and "i \<notin> set ids"
proof -
  obtain r' where r': "row_of q_id i u = Some r'" "row_kept r r'"
    using outbox_run_row[OF assms(5), of i r] assms(1,2,4) by auto
  then show "\<exists>r'. row_of q_id i u = Some r' \<and> q_status r' = q_status r \<and> q_attempts r' = q_attempts r"
    using assms(3) by (auto simp: row_kept_def)
  have "distinct (map q_id u)" using outbox_run_ok[OF assms(5)] assms(1) by (simp add: outbox_ok_distinct)
  then obtain lease where c: "\<And>r. r \<in> set u \<Longrightarrow> q_id r \<in> set ids \<Longrightarrow> qs_claimable (outboxLeaseSpec scope) m r"
    by (rule claim_result[OF _ assms(6)]) blast
  have "finished r'" using r'(2) assms(3) by (auto simp: row_kept_def finished_def)
  with c[of r'] row_of_Some[OF r'(1)] finished_unclaimable(1) show "i \<notin> set ids" by blast
qed

text \<open>
  a keyed event that has been processed or skipped is never handled again: in every later state
  its row is there with the same status and attempts, and no claim of any scope takes it.
\<close>

theorem outbox_finished_final:
  assumes "outbox_ok t" and "row_of q_id i t = Some r" and "finished r" and "ob_dedupeKey r \<noteq> None"
    and "outbox_run actors (n, t) (m, u)"
    and "claim (outboxLeaseSpec scope) w limit ms locked m u = (ids, u')"
  shows "(\<exists>r'. row_of q_id i u = Some r' \<and> q_status r' = q_status r \<and> q_attempts r' = q_attempts r)
    \<and> (i \<notin> set ids)"
  using outbox_finished_final_facts[OF assms] by blast

theorem outbox_finished_final_witness:
  "''a'' \<notin> set (fst (claim (outboxLeaseSpec Scope_all) ''w'' 10 None (\<lambda>_. False) 9
     [ex_row ''a'' Ob_processed 1 (Some ''k''), ex_row ''b'' Ob_pending 0 None]))"
  by (rule outbox_finished_final[where t = "[ex_row ''a'' Ob_processed 1 (Some ''k''), ex_row ''b'' Ob_pending 0 None]"
        and n = 9 and actors = UNIV and r = "ex_row ''a'' Ob_processed 1 (Some ''k'')", OF _ _ _ _ run_refl surjective_pairing, THEN conjunct2])
     (simp_all add: outbox_ok_def outbox.attempts_ok_def finished_def ex_row_def)

lemma outbox_claim_fifo_facts:
  assumes "distinct (map q_id t)" and "claim (outboxLeaseSpec scope) w limit ms locked now t = (ids, t')"
    and "row_of q_id i t = Some r"
  shows "length ids \<le> nat limit"
    and "i \<in> set ids \<Longrightarrow> q_status r \<in> {Ob_pending, Ob_failed} \<and> q_attempts r < ob_maxAttempts r
        \<and> (\<forall>n. ob_nextAttemptAt r = Some n \<longrightarrow> n \<le> now) \<and> outboxScopeClause scope r \<and> \<not> locked i
        \<and> (\<exists>r'. row_of q_id i t' = Some r' \<and> owned r' Ob_processing w \<and> q_attempts r' = q_attempts r + 1
            \<and> q_lockedUntil r' = Some (now + intervalMs (case ms of None \<Rightarrow> OUTBOX_LEASE_MS | Some m \<Rightarrow> m)))"
    and "i \<notin> set ids \<Longrightarrow> row_of q_id i t' = Some r"
    and "i \<in> set ids \<Longrightarrow> r2 \<in> set t \<Longrightarrow> qs_claimable (outboxLeaseSpec scope) now r2 \<Longrightarrow> \<not> locked (q_id r2) \<Longrightarrow>
        q_id r2 \<notin> set ids \<Longrightarrow> ob_createdAt r \<le> ob_createdAt r2"
proof -
  define lease where "lease = (case ms of None \<Rightarrow> OUTBOX_LEASE_MS | Some m \<Rightarrow> m)"
  have mem: "r \<in> set t" "q_id r = i" using row_of_Some[OF assms(3)] by auto
  have cs: "q_id (qs_claimSet (outboxLeaseSpec scope) r) = q_id r" for r by (rule outbox.claim_id)
  have ms: "(case ms of None \<Rightarrow> qs_leaseMs (outboxLeaseSpec scope) | Some m \<Rightarrow> m) = lease"
    by (simp add: lease_def outboxLeaseSpec_def split: option.split)
  note facts = claim_row_of[OF assms(1,2) cs]
  have len: "length ids \<le> nat limit" by (rule facts)
  have c: "i \<in> set ids \<Longrightarrow> qs_claimable (outboxLeaseSpec scope) now r \<and> \<not> locked i"
    using facts(2)[OF assms(3)] .
  have row: "row_of q_id i t' = Some (if i \<in> set ids then claim_row (outboxLeaseSpec scope) w lease now r else r)"
    using facts(3)[OF assms(3)] by (simp only: ms)
  show "length ids \<le> nat limit" by (rule len)
  show "i \<notin> set ids \<Longrightarrow> row_of q_id i t' = Some r" using row by simp
  show "i \<in> set ids \<Longrightarrow> q_status r \<in> {Ob_pending, Ob_failed} \<and> q_attempts r < ob_maxAttempts r
        \<and> (\<forall>n. ob_nextAttemptAt r = Some n \<longrightarrow> n \<le> now) \<and> outboxScopeClause scope r \<and> \<not> locked i
        \<and> (\<exists>r'. row_of q_id i t' = Some r' \<and> owned r' Ob_processing w \<and> q_attempts r' = q_attempts r + 1
            \<and> q_lockedUntil r' = Some (now + intervalMs (case ms of None \<Rightarrow> OUTBOX_LEASE_MS | Some m \<Rightarrow> m)))"
    using c row by (auto simp: outboxLeaseSpec_def owned_def lease_def claim_row_def split: option.split_asm)
  show "i \<in> set ids \<Longrightarrow> r2 \<in> set t \<Longrightarrow> qs_claimable (outboxLeaseSpec scope) now r2 \<Longrightarrow> \<not> locked (q_id r2) \<Longrightarrow>
        q_id r2 \<notin> set ids \<Longrightarrow> ob_createdAt r \<le> ob_createdAt r2"
    using claim_first[OF assms(1,2) mem(1)] mem(2) by (simp add: outboxLeaseSpec_def)
qed

text \<open>
  A claim takes at most \<open>limit\<close> rows, each due, in scope, under its attempt limit and locked by
  nobody else, oldest first; each row it takes is leased to the worker for the lease length with one
  more attempt, and every other row is unchanged.
\<close>

theorem outbox_claim_fifo:
  assumes "distinct (map q_id t)" and "claim (outboxLeaseSpec scope) w limit ms locked now t = (ids, t')"
    and "row_of q_id i t = Some r"
  shows "(length ids \<le> nat limit)
    \<and> ((i \<in> set ids) \<longrightarrow> (q_status r \<in> {Ob_pending, Ob_failed} \<and> q_attempts r < ob_maxAttempts r
        \<and> (\<forall>n. ob_nextAttemptAt r = Some n \<longrightarrow> n \<le> now) \<and> outboxScopeClause scope r \<and> \<not> locked i
        \<and> (\<exists>r'. row_of q_id i t' = Some r' \<and> owned r' Ob_processing w \<and> q_attempts r' = q_attempts r + 1
            \<and> q_lockedUntil r' = Some (now + intervalMs (case ms of None \<Rightarrow> OUTBOX_LEASE_MS | Some m \<Rightarrow> m)))))
    \<and> ((i \<notin> set ids) \<longrightarrow> (row_of q_id i t' = Some r))
    \<and> ((i \<in> set ids) \<longrightarrow> (r2 \<in> set t) \<longrightarrow> (qs_claimable (outboxLeaseSpec scope) now r2) \<longrightarrow> (\<not> locked (q_id r2)) \<longrightarrow> (q_id r2 \<notin> set ids) \<longrightarrow> (ob_createdAt r \<le> ob_createdAt r2))"
  using outbox_claim_fifo_facts[OF assms] by blast

theorem outbox_claim_fifo_witness:
  "length (fst (claim (outboxLeaseSpec Scope_all) ''w'' 1 None (\<lambda>_. False) 0
     [ex_row ''a'' Ob_pending 0 None, ex_row ''b'' Ob_failed 1 None])) \<le> nat 1
   \<and> fst (claim (outboxLeaseSpec Scope_all) ''w'' 1 None (\<lambda>_. False) 0
     [ex_row ''a'' Ob_pending 0 None, ex_row ''b'' Ob_failed 1 None]) = [''a'']"
proof
  show "length (fst (claim (outboxLeaseSpec Scope_all) ''w'' 1 None (\<lambda>_. False) 0
     [ex_row ''a'' Ob_pending 0 None, ex_row ''b'' Ob_failed 1 None])) \<le> nat 1"
    by (rule outbox_claim_fifo[where i = "''a''" and r = "ex_row ''a'' Ob_pending 0 None",
          OF _ surjective_pairing, THEN conjunct1]) (simp_all add: ex_row_def)
  show "fst (claim (outboxLeaseSpec Scope_all) ''w'' 1 None (\<lambda>_. False) 0
     [ex_row ''a'' Ob_pending 0 None, ex_row ''b'' Ob_failed 1 None]) = [''a'']"
    by code_simp
qed

section \<open>Leases\<close>

definition verdict_status :: "event_verdict \<Rightarrow> outbox_row \<Rightarrow> outbox_status" where
  "verdict_status v r =
    (case v of Verdict_processed \<Rightarrow> Ob_processed | Verdict_skipped \<Rightarrow> Ob_skipped
     | Verdict_failed \<Rightarrow> (if q_attempts r < ob_maxAttempts r then Ob_failed else Ob_dead_lettered))"

lemma handleOutboxRow_owned:
  assumes "distinct (map q_id t)" and "row_of q_id (q_id r) t = Some r"
    and "handleOutboxRow handlers scope w r now t = (v, hit, t')"
  shows "hit \<longleftrightarrow> owned r Ob_processing w"
    and "\<exists>r'. row_of q_id (q_id r) t' = Some r'
      \<and> (if hit then q_status r' = verdict_status v r \<and> q_lockedBy r' = None \<and> q_attempts r' = q_attempts r
           \<and> ob_nextAttemptAt r' = (if v = Verdict_failed \<and> q_attempts r < ob_maxAttempts r
               then Some (now + intervalMs (outboxRetryDelayMs (q_attempts r))) else None)
         else r' = r)"
proof -
  obtain f where f: "finish (outboxLeaseSpec scope) w (q_id r) f now t = (hit, t')"
    and id: "\<And>x. q_id (f x) = q_id x"
    and st: "q_status (f r) = verdict_status v r" "q_attempts (f r) = q_attempts r"
      "ob_nextAttemptAt (f r) = (if v = Verdict_failed \<and> q_attempts r < ob_maxAttempts r
               then Some (now + intervalMs (outboxRetryDelayMs (q_attempts r))) else None)"
  proof (cases "case handlers (ob_type r) of None \<Rightarrow> Inl (''Unknown outbox event type: '' @ ob_type r)
         | Some handler \<Rightarrow> handler (ob_payload r) (q_id r)")
    case (Inl msg)
    with assms(3) show ?thesis
      by (intro that[of "outboxFailedSet (q_attempts r) (ob_maxAttempts r) msg now"])
         (auto simp: handleOutboxRow_def Let_def outboxFailedSet_def verdict_status_def)
  next
    case (Inr oc)
    with assms(3) show ?thesis
      by (intro that[of "outboxDoneSet (if oc = Outcome_skipped then Ob_skipped else Ob_processed) now"])
         (auto simp: handleOutboxRow_def Let_def outboxDoneSet_def verdict_status_def split: if_split_asm)
  qed
  note fin = finish_owned[OF assms(1) f id assms(2)]
  show "hit \<longleftrightarrow> owned r Ob_processing w" using fin(1) by (simp add: outboxLeaseSpec_def)
  show "\<exists>r'. row_of q_id (q_id r) t' = Some r'
      \<and> (if hit then q_status r' = verdict_status v r \<and> q_lockedBy r' = None \<and> q_attempts r' = q_attempts r
           \<and> ob_nextAttemptAt r' = (if v = Verdict_failed \<and> q_attempts r < ob_maxAttempts r
               then Some (now + intervalMs (outboxRetryDelayMs (q_attempts r))) else None)
         else r' = r)"
    using fin(2) st by (auto simp: end_lease_def clear_lease_def)
qed

lemma outbox_lease_exclusive_facts:
  assumes "outbox_ok t" and "row_of q_id (q_id r) t = Some r" and "owned r Ob_processing w"
    and "q_lockedUntil r = Some until" and "Some w \<notin> actors"
    and "outbox_run actors (n, t) (m, u)" and "m \<le> until"
    and "handleOutboxRow handlers scope w r m u = (v, hit, u')"
  shows "row_of q_id (q_id r) u = Some r" and "hit"
    and "\<exists>r'. row_of q_id (q_id r) u' = Some r' \<and> q_status r' = verdict_status v r \<and> q_lockedBy r' = None
      \<and> q_attempts r' = q_attempts r"
proof -
  show u: "row_of q_id (q_id r) u = Some r"
    using outbox_run_fenced[OF assms(6) _ _ assms(3,5,4)] assms(1,2,7) by simp
  have d: "distinct (map q_id u)"
    using outbox_run_ok[OF assms(6)] assms(1) by (simp add: outbox_ok_distinct)
  show hit using handleOutboxRow_owned(1)[OF d u assms(8)] assms(3) by simp
  then show "\<exists>r'. row_of q_id (q_id r) u' = Some r' \<and> q_status r' = verdict_status v r \<and> q_lockedBy r' = None
      \<and> q_attempts r' = q_attempts r"
    using handleOutboxRow_owned(2)[OF d u assms(8)] by auto
qed

text \<open>
  C11: while a lease runs, no statement of anyone else (other workers, the API pump, recovery,
  producers, dead-letter requeues, retention) changes the row; when its owner then ends the row's
  handling, the write finds the row, gives it exactly the status of the handler's verdict and clears
  the lease.
\<close>

theorem outbox_lease_exclusive:
  assumes "outbox_ok t" and "row_of q_id (q_id r) t = Some r" and "owned r Ob_processing w"
    and "q_lockedUntil r = Some until" and "Some w \<notin> actors"
    and "outbox_run actors (n, t) (m, u)" and "m \<le> until"
    and "handleOutboxRow handlers scope w r m u = (v, hit, u')"
  shows "(row_of q_id (q_id r) u = Some r)
    \<and> (hit)
    \<and> (\<exists>r'. row_of q_id (q_id r) u' = Some r' \<and> q_status r' = verdict_status v r \<and> q_lockedBy r' = None
      \<and> q_attempts r' = q_attempts r)"
  using outbox_lease_exclusive_facts[OF assms] by blast

definition ex_rows :: "outbox_row list" where
  "ex_rows = [ex_leased ''a'' ''w1'' 1 100, ex_leased ''b'' ''w2'' 5 10]"

lemma ex_rows_ok: "outbox_ok ex_rows"
  by (simp add: outbox_ok_def outbox.attempts_ok_def ex_rows_def ex_leased_def ex_row_def)

lemma ex_recover_run:
  "outbox_run {None} (0, ex_rows) (50, snd (dead_stale (outboxLeaseSpec Scope_all) (\<lambda>_. True) 50 ex_rows))"
  by (rule run_step[OF run_refl _ _ ob_queue[OF ls_dead[OF surjective_pairing]]]) simp_all

definition ex_handlers :: "string \<Rightarrow> (string \<Rightarrow> string \<Rightarrow> string + handler_outcome) option" where
  "ex_handlers ty = (if ty = ''email.triggered'' then Some (\<lambda>_ _. Inr Outcome_processed) else None)"

theorem outbox_lease_exclusive_witness:
  "fst (snd (handleOutboxRow ex_handlers Scope_all ''w1'' (ex_leased ''a'' ''w1'' 1 100) 50
     (snd (dead_stale (outboxLeaseSpec Scope_all) (\<lambda>_. True) 50 ex_rows))))"
  by (rule outbox_lease_exclusive[where r = "ex_leased ''a'' ''w1'' 1 100" and until = 100,
        OF ex_rows_ok _ _ _ _ ex_recover_run _ prod3, THEN conjunct2, THEN conjunct1])
     (simp_all add: ex_rows_def ex_leased_def ex_row_def owned_def)

lemma outbox_failure_backoff_facts:
  assumes "outbox_ok t" and "row_of q_id (q_id r) t = Some r" and "owned r Ob_processing w"
    and "handleOutboxRow handlers scope w r now t = (Verdict_failed, hit, t')"
  shows "q_attempts r \<ge> ob_maxAttempts r \<Longrightarrow>
      \<exists>r'. row_of q_id (q_id r) t' = Some r' \<and> q_status r' = Ob_dead_lettered"
    and "q_attempts r < ob_maxAttempts r \<Longrightarrow> claim (outboxLeaseSpec scope') w' limit ms locked later t' = (ids, t'') \<Longrightarrow>
      later < now + outboxRetryDelayMs (q_attempts r) \<Longrightarrow> q_id r \<notin> set ids"
    and "30000 \<le> outboxRetryDelayMs (q_attempts r) \<and> outboxRetryDelayMs (q_attempts r) \<le> 900000"
proof -
  have d: "distinct (map q_id t)" using assms(1) by (rule outbox_ok_distinct)
  have hit: hit using handleOutboxRow_owned(1)[OF d assms(2,4)] assms(3) by simp
  from handleOutboxRow_owned(2)[OF d assms(2,4)] hit obtain r' where
    r': "row_of q_id (q_id r) t' = Some r'" "q_status r' = verdict_status Verdict_failed r"
      "ob_nextAttemptAt r' = (if q_attempts r < ob_maxAttempts r
        then Some (now + intervalMs (outboxRetryDelayMs (q_attempts r))) else None)"
    by auto
  show "q_attempts r \<ge> ob_maxAttempts r \<Longrightarrow>
      \<exists>r'. row_of q_id (q_id r) t' = Some r' \<and> q_status r' = Ob_dead_lettered"
    using r' by (auto simp: verdict_status_def)
  show delay: "30000 \<le> outboxRetryDelayMs (q_attempts r) \<and> outboxRetryDelayMs (q_attempts r) \<le> 900000"
    by (simp add: outboxRetryDelayMs_def)
  assume lt: "q_attempts r < ob_maxAttempts r" and c: "claim (outboxLeaseSpec scope') w' limit ms locked later t' = (ids, t'')"
    and early: "later < now + outboxRetryDelayMs (q_attempts r)"
  have "distinct (map q_id t')"
    using handleOutboxRow_ids[OF assms(4)] d by simp
  from claim_row_of(2)[OF this c outbox.claim_id r'(1)] r'(3) lt early delay
  show "q_id r \<notin> set ids" by (auto simp: outboxLeaseSpec_def intervalMs_def)
qed

text \<open>
  A failed handling of an owned row dead-letters it exactly when its attempts are used up;
  otherwise no claim of any worker takes the row before its back-off, between 30 seconds and 15
  minutes, has passed.
\<close>

theorem outbox_failure_backoff:
  assumes "outbox_ok t" and "row_of q_id (q_id r) t = Some r" and "owned r Ob_processing w"
    and "handleOutboxRow handlers scope w r now t = (Verdict_failed, hit, t')"
  shows "((q_attempts r \<ge> ob_maxAttempts r) \<longrightarrow> (\<exists>r'. row_of q_id (q_id r) t' = Some r' \<and> q_status r' = Ob_dead_lettered))
    \<and> ((q_attempts r < ob_maxAttempts r) \<longrightarrow> (claim (outboxLeaseSpec scope') w' limit ms locked later t' = (ids, t'')) \<longrightarrow> (later < now + outboxRetryDelayMs (q_attempts r)) \<longrightarrow> (q_id r \<notin> set ids))
    \<and> (30000 \<le> outboxRetryDelayMs (q_attempts r) \<and> outboxRetryDelayMs (q_attempts r) \<le> 900000)"
  using outbox_failure_backoff_facts[OF assms] by blast

theorem outbox_failure_backoff_witness:
  "''a'' \<notin> set (fst (claim (outboxLeaseSpec Scope_all) ''w3'' 10 None (\<lambda>_. False) 30049
     (snd (snd (handleOutboxRow (\<lambda>_. None) Scope_all ''w1'' (ex_leased ''a'' ''w1'' 1 100) 50 ex_rows)))))"
proof -
  define x where "x = handleOutboxRow (\<lambda>_. None) Scope_all ''w1'' (ex_leased ''a'' ''w1'' 1 100) 50 ex_rows"
  have x: "handleOutboxRow (\<lambda>_. None) Scope_all ''w1'' (ex_leased ''a'' ''w1'' 1 100) 50 ex_rows
      = (Verdict_failed, fst (snd x), snd (snd x))" by (simp add: x_def handleOutboxRow_def Let_def)
  have "q_id (ex_leased ''a'' ''w1'' 1 100)
      \<notin> set (fst (claim (outboxLeaseSpec Scope_all) ''w3'' 10 None (\<lambda>_. False) 30049 (snd (snd x))))"
    by (rule outbox_failure_backoff[OF ex_rows_ok _ _ x, THEN conjunct2, THEN conjunct1, rule_format, OF _ _ _ surjective_pairing])
       (simp_all add: ex_rows_def ex_leased_def ex_row_def owned_def outboxRetryDelayMs_def)
  then show ?thesis by (simp add: x_def ex_leased_def ex_row_def)
qed

section \<open>Recovery and retention\<close>

lemma outbox_recovery_complete_facts:
  assumes "recoverStale (outboxLeaseSpec scope) (\<lambda>_. True) (n1, n2, n3) t = (res, t')"
    and "n1 \<le> n2" and "n2 \<le> n3" and "row_of q_id i t = Some r"
  shows "q_status r = Ob_processing \<Longrightarrow> stale (outboxLeaseSpec scope) n1 r \<Longrightarrow>
      \<exists>r'. row_of q_id i t' = Some r' \<and> q_lockedBy r' = None \<and> q_attempts r' = q_attempts r
        \<and> ob_nextAttemptAt r' = None
        \<and> q_status r' = (if q_attempts r < ob_maxAttempts r then Ob_failed else Ob_dead_lettered)"
    and "q_status r \<noteq> Ob_processing \<or> \<not> stale (outboxLeaseSpec scope) n3 r \<Longrightarrow> row_of q_id i t' = Some r"
proof -
  have rec: "recoverable (outboxLeaseSpec scope) n r \<longleftrightarrow> q_status r = Ob_processing \<and> stale (outboxLeaseSpec scope) n r" for n
    by (simp add: recoverable_def outboxLeaseSpec_def)
  note row = outbox.recoverStale_row[OF assms]
  have "\<not> parked (outboxLeaseSpec scope) r" by (simp add: parked_def outboxLeaseSpec_def)
  then have shape: "outbox.recovered scope n1 n2 n3 r = (if q_attempts r < ob_maxAttempts r
      then end_lease (\<lambda>r. r\<lparr>q_status := Ob_failed, ob_nextAttemptAt := None\<rparr>) n2 r
      else end_lease (\<lambda>r. r\<lparr>q_status := Ob_dead_lettered, ob_nextAttemptAt := None\<rparr>) n3 r)"
    by (simp add: outbox.recovered_def) (simp add: outboxLeaseSpec_def)
  show "q_status r = Ob_processing \<Longrightarrow> stale (outboxLeaseSpec scope) n1 r \<Longrightarrow>
      \<exists>r'. row_of q_id i t' = Some r' \<and> q_lockedBy r' = None \<and> q_attempts r' = q_attempts r
        \<and> ob_nextAttemptAt r' = None
        \<and> q_status r' = (if q_attempts r < ob_maxAttempts r then Ob_failed else Ob_dead_lettered)"
    using row(1) by (simp add: rec shape) (simp add: end_lease_def clear_lease_def)
  show "q_status r \<noteq> Ob_processing \<or> \<not> stale (outboxLeaseSpec scope) n3 r \<Longrightarrow> row_of q_id i t' = Some r"
    using row(2) by (auto simp: rec)
qed

text \<open>
  Recovery leaves no row behind a dead worker: a leased row whose lease had ended when recovery
  began is unleased afterwards with the attempt still charged, due at once again if attempts are left
  and dead-lettered if not; a row that is not leased, or whose lease still runs when recovery ends, is
  unchanged.
\<close>

theorem outbox_recovery_complete:
  assumes "recoverStale (outboxLeaseSpec scope) (\<lambda>_. True) (n1, n2, n3) t = (res, t')"
    and "n1 \<le> n2" and "n2 \<le> n3" and "row_of q_id i t = Some r"
  shows "((q_status r = Ob_processing) \<longrightarrow> (stale (outboxLeaseSpec scope) n1 r) \<longrightarrow> (\<exists>r'. row_of q_id i t' = Some r' \<and> q_lockedBy r' = None \<and> q_attempts r' = q_attempts r
        \<and> ob_nextAttemptAt r' = None
        \<and> q_status r' = (if q_attempts r < ob_maxAttempts r then Ob_failed else Ob_dead_lettered)))
    \<and> ((q_status r \<noteq> Ob_processing \<or> \<not> stale (outboxLeaseSpec scope) n3 r) \<longrightarrow> (row_of q_id i t' = Some r))"
  using outbox_recovery_complete_facts[OF assms] by blast

theorem outbox_recovery_complete_witness:
  "row_of q_id ''a'' (snd (recoverStale (outboxLeaseSpec Scope_all) (\<lambda>_. True) (50, 51, 52) ex_rows))
   = Some (ex_leased ''a'' ''w1'' 1 100)"
  by (rule outbox_recovery_complete[OF surjective_pairing, THEN conjunct2, rule_format])
     (simp_all add: ex_rows_def ex_leased_def ex_row_def stale_def)

text \<open>
  C15: a retention pass always ends (its batch size being positive), deletes only realtime rows past
  their age that are not leased and finished background rows past theirs, none of them keyed, counts
  them exactly, changes the other rows at most by emptying the payload of a finished keyed row past
  its age, and, when nothing is locked or aborted, leaves no such row behind.
\<close>

theorem runOutboxRetention_result:
  assumes "distinct (map q_id t)" and "0 < retention_limit options"
  shows "\<exists>res t'. runOutboxRetention options now locked aborted t = Some (res, t')
    \<and> length t' + re_realtimeDeleted res + re_backgroundDeleted res = length t
    \<and> (\<forall>i r. row_of q_id i t = Some r \<longrightarrow>
        (case row_of q_id i t' of
           None \<Rightarrow> (\<exists>k. realtimeExpired (realtime_age options) (now 0 k) r)
             \<or> (\<exists>k. backgroundExpired (background_age options) (now 1 k) r)
         | Some r' \<Rightarrow> compacted (keyed_age options) (now 2) r r'))
    \<and> ((\<forall>p k. \<not> aborted p k \<and> now p k = m \<and> (\<forall>i. \<not> locked p k i)) \<longrightarrow>
        (\<forall>r \<in> set t'. \<not> realtimeExpired (realtime_age options) m r
          \<and> \<not> backgroundExpired (background_age options) m r \<and> \<not> keyedCompactable (keyed_age options) m r))"
proof -
  let ?rt = "\<lambda>r. \<exists>k. realtimeExpired (realtime_age options) (now 0 k) r"
  let ?bg = "\<lambda>r. \<exists>k. backgroundExpired (background_age options) (now 1 k) r"
  obtain a t1 where a: "inBatches (\<lambda>k. deleteBatch (realtimeExpired (realtime_age options) (now 0 k))
      (retention_limit options) (locked 0 k)) (retention_limit options) (aborted 0) 0 0 t = Some (a, t1)"
    "cut_down ?rt t t1" "length t1 + a = length t"
    "(\<forall>k. \<not> aborted 0 k \<and> realtimeExpired (realtime_age options) (now 0 k) = ?rt \<and> (\<forall>i. \<not> locked 0 k i))
      \<longrightarrow> (\<forall>r \<in> set t1. \<not> ?rt r)"
    by (rule delete_phase[OF assms(2,1), of "\<lambda>k. realtimeExpired (realtime_age options) (now 0 k)" ?rt]) blast+
  have d1: "distinct (map q_id t1)" using cut_down_distinct[OF a(2) assms(1)] .
  obtain b t2 where b: "inBatches (\<lambda>k. deleteBatch (backgroundExpired (background_age options) (now 1 k))
      (retention_limit options) (locked 1 k)) (retention_limit options) (aborted 1) 0 0 t1 = Some (b, t2)"
    "cut_down ?bg t1 t2" "length t2 + b = length t1"
    "(\<forall>k. \<not> aborted 1 k \<and> backgroundExpired (background_age options) (now 1 k) = ?bg \<and> (\<forall>i. \<not> locked 1 k i))
      \<longrightarrow> (\<forall>r \<in> set t2. \<not> ?bg r)"
    by (rule delete_phase[OF assms(2) d1, of "\<lambda>k. backgroundExpired (background_age options) (now 1 k)" ?bg]) blast+
  have d2: "distinct (map q_id t2)" using cut_down_distinct[OF b(2) d1] .
  obtain c t3 where c: "inBatches (\<lambda>k. compactBatch (keyedCompactable (keyed_age options) (now 2 k)) (now 2 k)
      (retention_limit options) (locked 2 k)) (retention_limit options) (aborted 2) 0 0 t2 = Some (c, t3)"
    "list_all2 (compacted (keyed_age options) (now 2)) t2 t3"
    "(\<forall>k. \<not> aborted 2 k \<and> now 2 k = m \<and> (\<forall>i. \<not> locked 2 k i)) \<longrightarrow>
      (\<forall>r \<in> set t3. \<not> keyedCompactable (keyed_age options) m r)"
    by (rule compact_phase[OF assms(2) d2, of "keyed_age options" "now 2" "locked 2" "aborted 2" m])
  have run: "runOutboxRetention options now locked aborted t =
      Some (\<lparr>re_realtimeDeleted = a, re_backgroundDeleted = b, re_compacted = c\<rparr>, t3)"
    by (simp add: runOutboxRetention_def a(1) b(1)[simplified] c(1)[simplified])
  have len: "length t3 = length t2" using c(2) by (simp add: list_all2_lengthD)
  have clean: "\<forall>r \<in> set t3. \<not> realtimeExpired (realtime_age options) m r
      \<and> \<not> backgroundExpired (background_age options) m r \<and> \<not> keyedCompactable (keyed_age options) m r"
    if "\<forall>p k. \<not> aborted p k \<and> now p k = m \<and> (\<forall>i. \<not> locked p k i)"
    using that a(4) b(4) c(3) retention_clean[OF _ _ b(2) c(2)] by simp
  show ?thesis
    using run len a(3) b(3) clean retention_rows[OF a(2) b(2) c(2) assms(1)] by auto
qed

definition ex_retention :: retention_options where
  "ex_retention = \<lparr>ro_batchSize = Some 1, ro_realtimeMaxAgeMs = Some 10, ro_backgroundMaxAgeMs = Some 20,
     ro_keyedCompactAfterMs = None\<rparr>"

theorem runOutboxRetention_result_witness:
  "\<exists>res t'. runOutboxRetention ex_retention (\<lambda>_ _. 100) (\<lambda>_ _ _. False) (\<lambda>_ _. False)
       [ex_row ''a'' Ob_processed 1 None, ex_row ''b'' Ob_pending 0 None, ex_row ''c'' Ob_skipped 1 None]
     = Some (res, t') \<and> length t' + re_realtimeDeleted res + re_backgroundDeleted res = 3"
proof -
  let ?t = "[ex_row ''a'' Ob_processed 1 None, ex_row ''b'' Ob_pending 0 None, ex_row ''c'' Ob_skipped 1 None]"
  have "distinct (map q_id ?t)" and "0 < retention_limit ex_retention" and "length ?t = 3"
    by (simp_all add: ex_row_def retention_limit_def ex_retention_def)
  with runOutboxRetention_result[of ?t ex_retention "\<lambda>_ _. 100" "\<lambda>_ _ _. False" "\<lambda>_ _. False"]
  show ?thesis by metis
qed

end
