(* ===== verification/OutboxBatch.thy ===== *)
theory OutboxBatch
  imports OutboxProps
begin

text \<open>
  Batches of \<open>runLeased\<close> over the outbox: the books of a batch under every interleaving of its lanes,
  its heartbeat, the job signal, other workers and the recovery, and that its lanes end.
\<close>

lemma lease_steps_outbox_run:
  "lease_steps (outboxLeaseSpec scope) outbox_terminal actors c d \<Longrightarrow> outbox_run actors c d"
  by (induction rule: lease_steps.induct) (auto intro: run_refl run_step ob_queue)

lemma release_count:
  assumes "distinct (map q_id t)" and "release spec w ids now t = (n, t')"
  shows "n \<le> length ids"
proof -
  have bound: "length (filter P t) \<le> length ids" if "\<And>r. P r \<Longrightarrow> q_id r \<in> set ids" for P
  proof -
    have "distinct (map q_id (filter P t))" using assms(1) by (rule distinct_map_filter)
    then have "length (filter P t) = card (set (map q_id (filter P t)))" by (metis distinct_card length_map)
    also have "\<dots> \<le> card (set ids)" using that by (intro card_mono) auto
    also have "\<dots> \<le> length ids" by (rule card_length)
    finally show ?thesis .
  qed
  show ?thesis
    using assms(2) by (auto simp: release_def update_returning_def intro!: bound split: if_splits)
qed

lemma outbox_batch_accounting_facts:
  assumes "outbox_ok t" and "claim (outboxLeaseSpec scope) w limit (Some ms) locked n t = (ids, t1)"
    and "batch_run (outboxLeaseSpec scope) outbox_terminal w ms ids (n, t1, begin_batch ids lanes sig) (m, u, st)"
    and "end_batch (outboxLeaseSpec scope) w ids m u st = (Some res, u')"
  shows "ru_handled res + ru_failed res + ru_leaseLost res + rs_unrecorded st + length (rs_unfinished st)
      = ru_claimed res"
    and "ru_released res \<le> length (rs_unfinished st)" and "ru_claimed res \<le> nat limit"
    and "distinct (map rn_id (rs_running st))" and "length (rs_running st) \<le> max 1 lanes"
    and "rs_waiting st \<noteq> None \<Longrightarrow> distinct (rs_started st)"
    and "outbox_ok u'"
proof -
  have d: "distinct (map q_id t)" using assms(1) by (rule outbox_ok_distinct)
  obtain ids': "distinct ids" and len: "length ids \<le> nat limit"
    by (rule claim_result[OF d assms(2)]) blast
  have inv: "batch_inv lanes ids st" using batch_run_inv[OF assms(3), of lanes] batch_inv_begin[OF ids'] ids' by simp
  have ok1: "outbox_ok t1"
    by (rule outbox_step_ok[OF ob_queue[OF ls_claim[OF assms(2)]] assms(1)])
  from outbox.batch_run_table[OF assms(3)] obtain k where
    "lease_steps (outboxLeaseSpec scope) outbox_terminal UNIV (n, t1) (k, u)" by auto
  from outbox_run_ok[OF lease_steps_outbox_run[OF this]] ok1 have ok: "outbox_ok u" by simp
  obtain c where c: "(if rs_unfinished st = [] then (0, u)
      else release (outboxLeaseSpec scope) w (rs_unfinished st) m u) = (c, u')" and res:
    "res = \<lparr>ru_claimed = length ids, ru_handled = rs_handled st, ru_failed = rs_failed st,
       ru_released = c, ru_leaseLost = rs_leaseLost st\<rparr>"
    using assms(4) by (auto simp: end_batch_def split: prod.splits if_split_asm)
  show "ru_handled res + ru_failed res + ru_leaseLost res + rs_unrecorded st + length (rs_unfinished st)
      = ru_claimed res" using inv by (simp add: res batch_inv_def)
  show "ru_claimed res \<le> nat limit" using len by (simp add: res)
  show "distinct (map rn_id (rs_running st))" and "length (rs_running st) \<le> max 1 lanes"
    using inv by (simp_all add: batch_inv_def)
  show "rs_waiting st \<noteq> None \<Longrightarrow> distinct (rs_started st)"
    using inv by (auto simp: batch_inv_def waiting_ok_def)
  show "ru_released res \<le> length (rs_unfinished st)"
    using c release_count[OF outbox_ok_distinct[OF ok]] by (auto simp: res split: if_splits)
  show "outbox_ok u'"
    using c ok outbox_step_ok[OF ob_queue[OF ls_release]] by (auto split: if_splits)
qed

text \<open>
  C13: every row a batch claims ends in exactly one way: handled, failed, lost to another worker, left
  to the recovery because its failure could not be recorded, or unfinished and given back; no row is
  handled twice, no more rows run at once than the batch has lanes, no more rows are released than are
  unfinished, and the table's attempts stay within their bounds.
\<close>

theorem outbox_batch_accounting:
  assumes "outbox_ok t" and "claim (outboxLeaseSpec scope) w limit (Some ms) locked n t = (ids, t1)"
    and "batch_run (outboxLeaseSpec scope) outbox_terminal w ms ids (n, t1, begin_batch ids lanes sig) (m, u, st)"
    and "end_batch (outboxLeaseSpec scope) w ids m u st = (Some res, u')"
  shows "(ru_handled res + ru_failed res + ru_leaseLost res + rs_unrecorded st + length (rs_unfinished st)
      = ru_claimed res)
    \<and> (ru_released res \<le> length (rs_unfinished st))
    \<and> (ru_claimed res \<le> nat limit)
    \<and> (distinct (map rn_id (rs_running st)))
    \<and> (length (rs_running st) \<le> max 1 lanes)
    \<and> ((rs_waiting st \<noteq> None) \<longrightarrow> (distinct (rs_started st)))
    \<and> (outbox_ok u')"
  using outbox_batch_accounting_facts[OF assms] by blast

lemma outbox_batch_live_facts:
  assumes "distinct ids"
    and "batch_run (outboxLeaseSpec scope) outbox_terminal w ms ids (n, t, begin_batch ids lanes sig) (m, u, st)"
  shows "lanes_done st \<or> rs_renewing st \<noteq> None
      \<or> (\<exists>e. lane_step (outboxLeaseSpec scope) outbox_terminal w ms ids now (u, st) e)"
    and "lane_step (outboxLeaseSpec scope) outbox_terminal w ms ids now (u, st) (u', st') \<Longrightarrow>
      batch_work ids st' < batch_work ids st"
    and "side_step (outboxLeaseSpec scope) outbox_terminal w ms now (u, st) (u', st') \<Longrightarrow>
      batch_work ids st' = batch_work ids st"
    and "batch_work ids (begin_batch ids lanes sig) = 4 * length ids + 1"
proof -
  have inv: "batch_inv lanes ids st" using batch_run_inv[OF assms(2), of lanes] batch_inv_begin[OF assms(1)] assms(1) by simp
  show "lanes_done st \<or> rs_renewing st \<noteq> None
      \<or> (\<exists>e. lane_step (outboxLeaseSpec scope) outbox_terminal w ms ids now (u, st) e)"
    using lane_enabled by blast
  show "lane_step (outboxLeaseSpec scope) outbox_terminal w ms ids now (u, st) (u', st') \<Longrightarrow>
      batch_work ids st' < batch_work ids st"
    using lane_step_work[of _ _ _ _ _ _ "(u, st)" "(u', st')"] inv by simp
  show "side_step (outboxLeaseSpec scope) outbox_terminal w ms now (u, st) (u', st') \<Longrightarrow>
      batch_work ids st' = batch_work ids st"
    using side_step_work[of _ _ _ _ _ "(u, st)" "(u', st')"] by simp
  show "batch_work ids (begin_batch ids lanes sig) = 4 * length ids + 1"
    by (simp add: batch_work_def begin_batch_def)
qed

text \<open>
  C14: a batch is never stuck and its lanes end: while they are not done, some lane or a pending
  heartbeat can take a step; every lane step uses up work, of which a batch starts with at most
  \<open>4 n + 1\<close> for \<open>n\<close> claimed rows, and no other step adds any.
\<close>

theorem outbox_batch_live:
  assumes "distinct ids"
    and "batch_run (outboxLeaseSpec scope) outbox_terminal w ms ids (n, t, begin_batch ids lanes sig) (m, u, st)"
  shows "(lanes_done st \<or> rs_renewing st \<noteq> None
      \<or> (\<exists>e. lane_step (outboxLeaseSpec scope) outbox_terminal w ms ids now (u, st) e))
    \<and> ((lane_step (outboxLeaseSpec scope) outbox_terminal w ms ids now (u, st) (u', st')) \<longrightarrow> (batch_work ids st' < batch_work ids st))
    \<and> ((side_step (outboxLeaseSpec scope) outbox_terminal w ms now (u, st) (u', st')) \<longrightarrow> (batch_work ids st' = batch_work ids st))
    \<and> (batch_work ids (begin_batch ids lanes sig) = 4 * length ids + 1)"
  using outbox_batch_live_facts[OF assms] by blast

section \<open>A batch of one row\<close>

definition ex_table :: "outbox_row list" where
  "ex_table = snd (claim (outboxLeaseSpec Scope_all) ''w'' 5 (Some 9) (\<lambda>_. False) 0 [ex_row ''a'' Ob_pending 0 None])"

definition ex_loaded :: run_state where
  "ex_loaded = (begin_batch [''a''] 1 None)\<lparr>rs_waiting := Some [''a'']\<rparr>"

definition ex_started :: run_state where
  "ex_started = ex_loaded\<lparr>rs_waiting := Some [], rs_lanes := 0, rs_started := [''a''],
     rs_running := [\<lparr>rn_id = ''a'', rn_phase = Confirming, rn_aborted = False\<rparr>]\<rparr>"

definition ex_handling :: run_state where
  "ex_handling = ex_started\<lparr>rs_running := [\<lparr>rn_id = ''a'', rn_phase = Handling, rn_aborted = False\<rparr>]\<rparr>"

definition ex_ended :: run_state where
  "ex_ended = leave_row ''a'' (settle_outcome ''a'' Outcome_handled ex_handling)"

definition ex_confirmed_table :: "outbox_row list" where
  "ex_confirmed_table = snd (confirm (outboxLeaseSpec Scope_all) ''w'' ''a'' (Some 9) 0 ex_table)"

definition ex_final_table :: "outbox_row list" where
  "ex_final_table = snd (finish (outboxLeaseSpec Scope_all) ''w'' ''a'' (outboxDoneSet Ob_processed 0) 0 ex_confirmed_table)"

lemmas ex_batch_defs = ex_loaded_def ex_started_def ex_handling_def ex_ended_def begin_batch_def set_phase_def

lemma ex_claim: "claim (outboxLeaseSpec Scope_all) ''w'' 5 (Some 9) (\<lambda>_. False) 0 [ex_row ''a'' Ob_pending 0 None]
    = ([''a''], ex_table)"
  by code_simp

lemma ex_confirm: "confirm (outboxLeaseSpec Scope_all) ''w'' ''a'' (Some 9) 0 ex_table = (True, ex_confirmed_table)"
  by code_simp

lemma ex_finish: "finish (outboxLeaseSpec Scope_all) ''w'' ''a'' (outboxDoneSet Ob_processed 0) 0 ex_confirmed_table
    = (True, ex_final_table)"
  by code_simp

lemma ex_batch_run:
  "batch_run (outboxLeaseSpec Scope_all) outbox_terminal ''w'' 9 [''a'']
    (0, ex_table, begin_batch [''a''] 1 None) (0, ex_final_table, ex_ended)"
proof -
  let ?step = "lane_step (outboxLeaseSpec Scope_all) outbox_terminal ''w'' 9 [''a''] 0"
  have 1: "?step (ex_table, begin_batch [''a''] 1 None) (ex_table, ex_loaded)"
    using ln_load[of "begin_batch [''a''] 1 None" "[''a'']" "[''a'']"] by (simp add: ex_batch_defs)
  have 2: "?step (ex_table, ex_loaded) (ex_table, ex_started)"
    using ln_start[of ex_loaded "''a''" "[]"] by (simp add: ex_batch_defs)
  have 3: "?step (ex_table, ex_started) (ex_confirmed_table, set_phase ''a'' (Confirmed True) ex_started)"
    by (rule ln_confirm[of "\<lparr>rn_id = ''a'', rn_phase = Confirming, rn_aborted = False\<rparr>", simplified, OF _ ex_confirm])
       (simp add: ex_batch_defs)
  have 4: "?step (ex_confirmed_table, set_phase ''a'' (Confirmed True) ex_started) (ex_confirmed_table, ex_handling)"
    using ln_handle[of "\<lparr>rn_id = ''a'', rn_phase = Confirmed True, rn_aborted = False\<rparr>"
        "set_phase ''a'' (Confirmed True) ex_started"] by (simp add: ex_batch_defs)
  have "outbox_terminal (outboxDoneSet Ob_processed 0)" by (auto simp: outbox_terminal_def)
  then have 5: "?step (ex_confirmed_table, ex_handling) (ex_final_table, ex_ended)"
    using ln_handled[of "\<lparr>rn_id = ''a'', rn_phase = Handling, rn_aborted = False\<rparr>" ex_handling, simplified,
        OF _ _ ex_finish] by (simp add: ex_ended_def) (simp add: ex_batch_defs)
  show ?thesis
    by (rule br_lane[OF br_lane[OF br_lane[OF br_lane[OF br_lane[OF br_refl _ 1] _ 2] _ 3] _ 4] _ 5]) simp_all
qed

theorem outbox_batch_accounting_witness:
  "\<exists>res u'. end_batch (outboxLeaseSpec Scope_all) ''w'' [''a''] 0 ex_final_table ex_ended = (Some res, u')
    \<and> ru_handled res + ru_failed res + ru_leaseLost res + rs_unrecorded ex_ended + length (rs_unfinished ex_ended)
      = ru_claimed res"
proof -
  have ok: "outbox_ok [ex_row ''a'' Ob_pending 0 None]"
    by (simp add: outbox_ok_def outbox.attempts_ok_def ex_row_def)
  obtain res u' where e: "end_batch (outboxLeaseSpec Scope_all) ''w'' [''a''] 0 ex_final_table ex_ended = (Some res, u')"
    by (auto simp: end_batch_def ex_ended_def leave_row_def settle_outcome_def ex_batch_defs)
  from outbox_batch_accounting[OF ok ex_claim ex_batch_run e] e show ?thesis by blast
qed

theorem outbox_batch_live_witness:
  "batch_work [''a''] (begin_batch [''a''] 1 None) = 4 * length [''a''] + 1 \<and> batch_work [''a''] ex_ended = 0"
  using outbox_batch_live[OF _ ex_batch_run] by (simp add: batch_work_def ex_batch_defs leave_row_def settle_outcome_def)

end
