(* ===== verification/Txn.thy ===== *)
theory Txn
  imports Prelude
begin

text \<open>
  Transactions that run again (\<open>packages/db/src/txn.ts\<close>): what a driver error is, and
  \<open>withTxnRetry\<close>. The attempts of a transaction are a function of their number: each commits with
  a result or throws, having rolled back.
\<close>

section \<open>Driver errors\<close>

text \<open>An error: its \<open>code\<close> (when that is a string), its \<open>constraint\<close> and \<open>table\<close>, and its cause.\<close>

datatype js_error = Js_error (er_code: "string option") (er_constraint: "string option")
  (er_table: "string option") (er_cause: "js_error option")

fun unwrap_from :: "nat \<Rightarrow> js_error option \<Rightarrow> js_error option" where
  "unwrap_from 0 current = None"
| "unwrap_from (Suc depth) None = None"
| "unwrap_from (Suc depth) (Some e) = (if er_code e \<noteq> None then Some e else unwrap_from depth (er_cause e))"

definition unwrapPgError :: "js_error \<Rightarrow> js_error option" where
  "unwrapPgError err = unwrap_from 10 (Some err)"

definition code_of :: "js_error \<Rightarrow> string option" where
  "code_of err = (case unwrapPgError err of None \<Rightarrow> None | Some e \<Rightarrow> er_code e)"

definition isSerializationFailure :: "js_error \<Rightarrow> bool" where
  "isSerializationFailure err \<longleftrightarrow> code_of err = Some ''40001'' \<or> code_of err = Some ''40P01''"

definition is_sqlstate_char :: "char \<Rightarrow> bool" where
  "is_sqlstate_char c = (let n = (of_char c :: nat) in (48 \<le> n \<and> n \<le> 57) \<or> (65 \<le> n \<and> n \<le> 90))"

definition pgErrorCode :: "js_error \<Rightarrow> string option" where
  "pgErrorCode err = (case code_of err of None \<Rightarrow> None
    | Some c \<Rightarrow> if length c = 5 \<and> list_all is_sqlstate_char c then Some c else None)"

definition pgUniqueViolation :: "js_error \<Rightarrow> string option" where
  "pgUniqueViolation err =
    (case unwrapPgError err of None \<Rightarrow> None
     | Some e \<Rightarrow> if er_code e \<noteq> Some ''23505'' then None
         else Some (case er_constraint e of None \<Rightarrow> [] | Some c \<Rightarrow> c))"

definition pgErrorLogFields :: "js_error \<Rightarrow> (string \<times> string option \<times> string option) option" where
  "pgErrorLogFields err =
    (case pgErrorCode err of None \<Rightarrow> None
     | Some c \<Rightarrow> (case unwrapPgError err of None \<Rightarrow> Some (c, None, None)
         | Some e \<Rightarrow> Some (c, er_constraint e, er_table e)))"

section \<open>Retries\<close>

text \<open>
  The loop from \<open>attempt\<close>, with \<open>left\<close> attempts to go: the outcome and the delays slept, as the base
  of each (25 ms doubled, before jitter). With no attempts at all the code throws \<open>undefined\<close>.
\<close>

datatype 'a txn_outcome = Committed 'a | Threw js_error | Threw_undefined

fun retry_loop :: "(nat \<Rightarrow> js_error + 'a) \<Rightarrow> nat \<Rightarrow> nat \<Rightarrow> nat list \<Rightarrow> 'a txn_outcome \<times> nat list" where
  "retry_loop fn attempt 0 slept = (Threw_undefined, slept)"
| "retry_loop fn attempt (Suc left) slept =
    (case fn attempt of
       Inr x \<Rightarrow> (Committed x, slept)
     | Inl err \<Rightarrow>
         if left = 0 \<or> \<not> isSerializationFailure err then (Threw err, slept)
         else retry_loop fn (attempt + 1) left (slept @ [25 * 2 ^ (attempt - 1)]))"

definition withTxnRetry :: "nat option \<Rightarrow> (nat \<Rightarrow> js_error + 'a) \<Rightarrow> 'a txn_outcome \<times> nat list" where
  "withTxnRetry attempts fn = retry_loop fn 1 (case attempts of None \<Rightarrow> 5 | Some n \<Rightarrow> n) []"

text \<open>The last attempt the loop runs: the first that commits, throws for good, or is the last allowed.\<close>

definition last_attempt :: "(nat \<Rightarrow> js_error + 'a) \<Rightarrow> nat \<Rightarrow> nat \<Rightarrow> nat \<Rightarrow> bool" where
  "last_attempt fn from n k \<longleftrightarrow> from \<le> k \<and> k < from + n
    \<and> (\<forall>j. from \<le> j \<and> j < k \<longrightarrow> (\<exists>e. fn j = Inl e \<and> isSerializationFailure e))
    \<and> ((\<exists>x. fn k = Inr x) \<or> (\<exists>e. fn k = Inl e \<and> (\<not> isSerializationFailure e \<or> k + 1 = from + n)))"

lemma retry_loop_result:
  assumes "0 < n"
  shows "\<exists>k. last_attempt fn from n k
    \<and> fst (retry_loop fn from n slept) = (case fn k of Inr x \<Rightarrow> Committed x | Inl e \<Rightarrow> Threw e)
    \<and> length (snd (retry_loop fn from n slept)) = length slept + (k - from)"
  using assms
proof (induction fn "from" n slept rule: retry_loop.induct)
  case (2 fn attempt left slept)
  show ?case
  proof (cases "fn attempt")
    case (Inr x)
    then show ?thesis by (intro exI[of _ attempt]) (auto simp: last_attempt_def)
  next
    case (Inl err)
    show ?thesis
    proof (cases "left = 0 \<or> \<not> isSerializationFailure err")
      case True
      with Inl show ?thesis by (intro exI[of _ attempt]) (auto simp: last_attempt_def)
    next
      case False
      with "2.IH"[OF Inl] obtain k where k: "last_attempt fn (attempt + 1) left k"
        "fst (retry_loop fn (attempt + 1) left (slept @ [25 * 2 ^ (attempt - 1)])) = (case fn k of Inr x \<Rightarrow> Committed x | Inl e \<Rightarrow> Threw e)"
        "length (snd (retry_loop fn (attempt + 1) left (slept @ [25 * 2 ^ (attempt - 1)]))) = length slept + 1 + (k - (attempt + 1))"
        by auto
      have "\<exists>e. fn j = Inl e \<and> isSerializationFailure e" if "attempt \<le> j" "j < k" for j
        using that k(1) Inl False by (cases "j = attempt") (auto simp: last_attempt_def)
      with k(1) have "last_attempt fn attempt (Suc left) k" by (auto simp: last_attempt_def)
      then show ?thesis using k Inl False by (intro exI[of _ k]) (auto simp: last_attempt_def)
    qed
  qed
qed simp

text \<open>
  C16: a retried transaction runs at most its allowed attempts and returns what the last one returned
  or threw; every earlier attempt ended in a serialization failure or a deadlock, so nothing that
  committed and nothing that failed for another reason is ever run again, and one delay is slept
  between any two attempts.
\<close>

theorem withTxnRetry_result:
  assumes "0 < n"
  shows "\<exists>k. last_attempt fn 1 n k
    \<and> fst (withTxnRetry (Some n) fn) = (case fn k of Inr x \<Rightarrow> Committed x | Inl e \<Rightarrow> Threw e)
    \<and> length (snd (withTxnRetry (Some n) fn)) = k - 1"
  using retry_loop_result[OF assms, of fn 1 "[]"] by (simp add: withTxnRetry_def)

definition ex_attempts :: "nat \<Rightarrow> js_error + nat" where
  "ex_attempts k = (if k < 3 then Inl (Js_error None None None (Some (Js_error (Some ''40001'') None None None))) else Inr k)"

theorem withTxnRetry_result_witness:
  "(\<exists>k. last_attempt ex_attempts 1 5 k
    \<and> fst (withTxnRetry (Some 5) ex_attempts) = (case ex_attempts k of Inr x \<Rightarrow> Committed x | Inl e \<Rightarrow> Threw e)
    \<and> length (snd (withTxnRetry (Some 5) ex_attempts)) = k - 1)
   \<and> withTxnRetry (Some 5) ex_attempts = (Committed 3, [25, 50])"
proof
  show "withTxnRetry (Some 5) ex_attempts = (Committed 3, [25, 50])" by code_simp
qed (rule withTxnRetry_result, simp)

end
