(* ===== verification/Conditions.thy ===== *)
theory Conditions
  imports JsValue
begin

text \<open>
  Rule conditions (\<open>packages/shared/src/conditions.ts\<close>), used by pricing rules and access
  conditions, and the guard against contradictory ones
  (\<open>packages/contracts/src/condition-satisfiability.ts\<close>) with the condition schema
  (\<open>condition.schema.ts\<close>). A missing property is \<open>undefined\<close>.
\<close>

section \<open>Evaluation\<close>

record condition =
  cn_fieldId :: string
  cn_operator :: string
  cn_value :: js

definition toFiniteNumber :: "js \<Rightarrow> js_num option" where
  "toFiniteNumber v =
    (case v of
       J_num n \<Rightarrow> if is_finite n then Some n else None
     | J_str s \<Rightarrow>
         (let t = trim s
          in if t = [] then None
             else (let n = string_num t in if is_finite n then Some n else None))
     | _ \<Rightarrow> None)"

definition isEmptyValue :: "js \<Rightarrow> bool" where
  "isEmptyValue v \<longleftrightarrow> v = J_null \<or> v = J_undefined \<or> v = J_str [] \<or> v = J_arr []"

definition isEqualValue :: "js \<Rightarrow> js \<Rightarrow> bool" where
  "isEqualValue actual expected =
    (if expected = J_null then actual = J_null
     else if expected = J_undefined then actual = J_undefined
     else if actual = J_null \<or> actual = J_undefined then False
     else js_string actual = js_string expected)"

definition as_list :: "js \<Rightarrow> js list" where
  "as_list v = (case v of J_arr xs \<Rightarrow> xs | _ \<Rightarrow> [v])"

definition isInValue :: "js \<Rightarrow> js \<Rightarrow> bool" where
  "isInValue actual expected =
    (if expected = J_null \<or> expected = J_undefined then False
     else
      (let candidates = as_list expected
       in if candidates = [] then False
          else list_ex (\<lambda>a. list_ex (\<lambda>c. isEqualValue a c) candidates) (as_list actual)))"

text \<open>\<open>String(value ?? "")\<close>.\<close>

definition text_or_empty :: "js \<Rightarrow> string" where
  "text_or_empty v = (if nullish v then [] else js_string v)"

definition evaluateRuleCondition :: "condition \<Rightarrow> form_data \<Rightarrow> bool" where
  "evaluateRuleCondition c data =
    (let v = field data (cn_fieldId c); e = cn_value c; op = cn_operator c
     in if op = ''equals'' then isEqualValue v e
        else if op = ''not_equals'' then \<not> isEqualValue v e
        else if op = ''in'' then isInValue v e
        else if op = ''contains'' then
          (case v of J_str s \<Rightarrow> is_infix (text_or_empty e) s | _ \<Rightarrow> False)
        else if op = ''not_contains'' then
          (case v of J_str s \<Rightarrow> \<not> is_infix (text_or_empty e) s | _ \<Rightarrow> True)
        else if op = ''greater_than'' then
          (case toFiniteNumber v of None \<Rightarrow> False
           | Some a \<Rightarrow> (case toFiniteNumber e of None \<Rightarrow> False | Some x \<Rightarrow> num_less x a))
        else if op = ''less_than'' then
          (case toFiniteNumber v of None \<Rightarrow> False
           | Some a \<Rightarrow> (case toFiniteNumber e of None \<Rightarrow> False | Some x \<Rightarrow> num_less a x))
        else if op = ''is_empty'' then isEmptyValue v
        else if op = ''is_not_empty'' then \<not> isEmptyValue v
        else False)"

definition evaluateRuleConditions :: "condition list \<Rightarrow> string \<Rightarrow> form_data \<Rightarrow> bool" where
  "evaluateRuleConditions conditions logic data =
    (let l = to_upper logic
     in if l \<noteq> ''AND'' \<and> l \<noteq> ''OR'' then False
        else if conditions = [] then l = ''AND''
        else (let results = map (\<lambda>c. evaluateRuleCondition c data) conditions
          in if l = ''AND'' then list_all (\<lambda>b. b) results else list_ex (\<lambda>b. b) results))"

section \<open>The condition schema\<close>

definition CONDITION_OPERATORS :: "string list" where
  "CONDITION_OPERATORS = [''equals'', ''not_equals'', ''contains'', ''not_contains'', ''greater_than'',
     ''less_than'', ''is_empty'', ''is_not_empty'', ''in'']"

definition is_list :: "js \<Rightarrow> bool" where
  "is_list v = (case v of J_arr _ \<Rightarrow> True | _ \<Rightarrow> False)"

text \<open>The types of \<open>value\<close> (\<open>undefined\<close> when absent), then the rules of \<open>superRefine\<close>.\<close>

definition condition_value_type :: "js \<Rightarrow> bool" where
  "condition_value_type v =
    (case v of J_undefined \<Rightarrow> True | J_null \<Rightarrow> True | J_bool _ \<Rightarrow> True | J_num n \<Rightarrow> is_finite n | J_str _ \<Rightarrow> True
     | J_arr xs \<Rightarrow> list_all (\<lambda>x. case x of J_str _ \<Rightarrow> True | _ \<Rightarrow> False) xs | J_obj _ \<Rightarrow> False)"

definition ConditionSchema :: "condition \<Rightarrow> bool" where
  "ConditionSchema c \<longleftrightarrow>
     cn_fieldId c \<noteq> [] \<and> cn_operator c \<in> set CONDITION_OPERATORS \<and> condition_value_type (cn_value c)
   \<and> (if cn_operator c = ''in'' then is_list (cn_value c) \<and> cn_value c \<noteq> J_arr []
      else \<not> is_list (cn_value c)
        \<and> (cn_operator c = ''greater_than'' \<or> cn_operator c = ''less_than'' \<longrightarrow>
            (case cn_value c of J_num n \<Rightarrow> is_finite n
             | J_str s \<Rightarrow> trim s \<noteq> [] \<and> is_finite (string_num s) | _ \<Rightarrow> False)))"

section \<open>The contradiction guard\<close>

datatype conflict_reason =
  Equals_conflict | Equals_not_equals_conflict | Empty_conflict | Empty_equals_conflict | Range_conflict
| Contains_conflict | Empty_in_conflict | Equals_in_conflict | In_in_conflict

record condition_conflict =
  cc_reason :: conflict_reason
  cc_fieldId :: string
  cc_indices :: "nat list"
  cc_values :: "js list"

datatype value_key = Key_null | Key_undefined | Key_value string

definition valueKey :: "js \<Rightarrow> value_key" where
  "valueKey v = (if v = J_null then Key_null else if v = J_undefined then Key_undefined else Key_value (js_string v))"

definition sameKey :: "js \<Rightarrow> js \<Rightarrow> bool" where
  "sameKey a b \<longleftrightarrow> valueKey a = valueKey b"

definition isEmptyLiteral :: "js \<Rightarrow> bool" where
  "isEmptyLiteral v \<longleftrightarrow> v = J_null \<or> v = J_undefined \<or> v = J_str []"

definition is_text :: "js \<Rightarrow> bool" where
  "is_text v = (case v of J_str _ \<Rightarrow> True | _ \<Rightarrow> False)"

definition toStringList :: "js \<Rightarrow> js list" where
  "toStringList v = (case v of J_arr xs \<Rightarrow> filter is_text xs | _ \<Rightarrow> [])"

definition equalsInConflicts :: "js \<Rightarrow> js \<Rightarrow> bool" where
  "equalsInConflicts e v =
    (if nullish e then False
     else if is_infix '','' (js_string e) then False
     else if toStringList v = [] then False
     else \<not> list_ex (\<lambda>c. sameKey e c) (toStringList v))"

definition inInDisjoint :: "js \<Rightarrow> js \<Rightarrow> bool" where
  "inInDisjoint a b =
    (if toStringList a = [] \<or> toStringList b = [] then False
     else \<not> list_ex (\<lambda>v. js_string v \<in> set (map js_string (toStringList b))) (toStringList a))"

text \<open>The pairwise rules in the code's order; a rule that does not fire falls through.\<close>

definition checkTier1Pair :: "condition \<Rightarrow> condition \<Rightarrow> conflict_reason option" where
  "checkTier1Pair a b =
    (let opA = cn_operator a; opB = cn_operator b
     in if (opA = ''is_empty'' \<and> opB = ''is_not_empty'') \<or> (opA = ''is_not_empty'' \<and> opB = ''is_empty'')
        then Some Empty_conflict
        else if opA = ''is_empty'' \<and> opB = ''equals'' \<and> \<not> isEmptyLiteral (cn_value b) then Some Empty_equals_conflict
        else if opB = ''is_empty'' \<and> opA = ''equals'' \<and> \<not> isEmptyLiteral (cn_value a) then Some Empty_equals_conflict
        else if opA = ''equals'' \<and> opB = ''equals'' \<and> \<not> sameKey (cn_value a) (cn_value b) then Some Equals_conflict
        else if ((opA = ''equals'' \<and> opB = ''not_equals'') \<or> (opA = ''not_equals'' \<and> opB = ''equals''))
          \<and> sameKey (cn_value a) (cn_value b) then Some Equals_not_equals_conflict
        else if ((opA = ''greater_than'' \<and> opB = ''less_than'') \<or> (opA = ''less_than'' \<and> opB = ''greater_than''))
          \<and> (case (toFiniteNumber (if opA = ''greater_than'' then cn_value a else cn_value b),
                   toFiniteNumber (if opA = ''less_than'' then cn_value a else cn_value b)) of
               (Some g, Some l) \<Rightarrow> num_ge g l | _ \<Rightarrow> False) then Some Range_conflict
        else if opA = ''contains'' \<and> opB = ''not_contains''
          \<and> is_infix (text_or_empty (cn_value b)) (text_or_empty (cn_value a)) then Some Contains_conflict
        else if opB = ''contains'' \<and> opA = ''not_contains''
          \<and> is_infix (text_or_empty (cn_value a)) (text_or_empty (cn_value b)) then Some Contains_conflict
        else if opA = ''equals'' \<and> opB = ''in'' \<and> equalsInConflicts (cn_value a) (cn_value b) then Some Equals_in_conflict
        else if opB = ''equals'' \<and> opA = ''in'' \<and> equalsInConflicts (cn_value b) (cn_value a) then Some Equals_in_conflict
        else None)"

text \<open>Conflicts of one pair: tier 1, else, on a field known to hold one value, tier 3.\<close>

definition pair_conflicts :: "string list option \<Rightarrow> string \<Rightarrow> nat \<times> condition \<Rightarrow> nat \<times> condition \<Rightarrow> condition_conflict list" where
  "pair_conflicts singleValued fieldId p q =
    (case checkTier1Pair (snd p) (snd q) of
       Some reason \<Rightarrow> [\<lparr>cc_reason = reason, cc_fieldId = fieldId, cc_indices = [fst p, fst q],
          cc_values = [cn_value (snd p), cn_value (snd q)]\<rparr>]
     | None \<Rightarrow>
         if (case singleValued of None \<Rightarrow> False | Some s \<Rightarrow> fieldId \<in> set s)
           \<and> cn_operator (snd p) = ''in'' \<and> cn_operator (snd q) = ''in''
           \<and> inInDisjoint (cn_value (snd p)) (cn_value (snd q))
         then [\<lparr>cc_reason = In_in_conflict, cc_fieldId = fieldId, cc_indices = [fst p, fst q],
            cc_values = [cn_value (snd p), cn_value (snd q)]\<rparr>]
         else [])"

fun group_conflicts :: "string list option \<Rightarrow> string \<Rightarrow> (nat \<times> condition) list \<Rightarrow> condition_conflict list" where
  "group_conflicts singleValued fieldId [] = []"
| "group_conflicts singleValued fieldId (p # ps) =
    concat (map (pair_conflicts singleValued fieldId p) ps) @ group_conflicts singleValued fieldId ps"

definition empty_in_conflicts :: "(nat \<times> condition) list \<Rightarrow> condition_conflict list" where
  "empty_in_conflicts ics =
    map (\<lambda>(i, c). \<lparr>cc_reason = Empty_in_conflict, cc_fieldId = cn_fieldId c, cc_indices = [i], cc_values = [cn_value c]\<rparr>)
      (filter (\<lambda>(i, c). cn_operator c = ''in'' \<and> cn_value c = J_arr []) ics)"

text \<open>The groups in the order their fields first appear, as the code's \<open>Map\<close> keeps them.\<close>

definition findConditionConflicts :: "condition list \<Rightarrow> string \<Rightarrow> string list option \<Rightarrow> condition_conflict list" where
  "findConditionConflicts conditions logic singleValued =
    (if conditions = [] \<or> to_upper logic \<noteq> ''AND'' then []
     else
      (let ics = zip [0..<length conditions] conditions
       in empty_in_conflicts ics @
          concat (map (\<lambda>f. group_conflicts singleValued f (filter (\<lambda>(i, c). cn_fieldId c = f) ics))
            (uniq (filter (\<lambda>f. f \<noteq> []) (map cn_fieldId conditions))))))"

end
