(* ===== verification/Satisfiability.thy ===== *)
theory Satisfiability
  imports Conditions
begin

text \<open>
  The contradiction guard is sound: what it reports can never be satisfied by any form data. It is
  proved rule by rule, on the equality the evaluator uses (\<open>valueKey\<close>).
\<close>

lemma isEqualValue_key: "isEqualValue v e \<longleftrightarrow> valueKey v = valueKey e"
  by (auto simp: isEqualValue_def valueKey_def)

lemma text_key: "is_text c \<Longrightarrow> valueKey v = valueKey c \<longleftrightarrow> \<not> nullish v \<and> js_string v = js_string c"
  by (auto simp: valueKey_def nullish_def is_text_def split: js.splits)

lemma show_nat_not_Nil [simp]: "show_nat n \<noteq> []"
  by (subst show_nat.simps) simp

lemma num_string_not_Nil [simp]: "num_string n \<noteq> []"
  by (cases n) (auto simp: show_decimal_def Let_def split: prod.split)

lemma scalar_empty:
  assumes "condition_value_type e" and "\<not> is_list e" and "js_string e = []"
  shows "e = J_str []"
  using assms by (cases e) (auto simp: condition_value_type_def is_list_def split: if_splits)

text \<open>\<open>is_empty\<close> and \<open>equals\<close>.\<close>

lemma empty_equals:
  assumes "isEmptyValue v" and "isEqualValue v e" and "condition_value_type e" and "\<not> is_list e"
  shows "isEmptyLiteral e"
  using assms scalar_empty[of e] by (auto simp: isEmptyValue_def isEqualValue_def isEmptyLiteral_def split: if_splits)

text \<open>\<open>equals\<close> and \<open>in\<close>: without a comma, an array that reads as the text has that one element.\<close>

lemma no_comma_element:
  assumes "\<not> is_infix '','' (js_string v)" and "a \<in> set (as_list v)" and "\<not> nullish a"
  shows "js_string a = js_string v"
proof (cases v)
  case (J_arr xs)
  let ?f = "\<lambda>x. if x = J_undefined \<or> x = J_null then [] else js_string x"
  have "CHR '','' \<notin> set (join '','' (map ?f xs))" using assms(1) by (simp add: J_arr is_infix_char)
  then have "length xs \<le> 1" using join_comma by fastforce
  with assms(2) have "xs = [a]" by (cases xs) (auto simp: J_arr as_list_def)
  then show ?thesis using assms(3) by (simp add: J_arr nullish_def)
qed (use assms(2) in \<open>auto simp: as_list_def\<close>)

lemma in_text_list:
  assumes "isInValue v (J_arr xs)" and "list_all is_text xs"
  obtains a c where "a \<in> set (as_list v)" and "c \<in> set xs" and "\<not> nullish a" and "js_string a = js_string c"
proof -
  obtain a c where "a \<in> set (as_list v)" "c \<in> set xs" "isEqualValue a c"
    using assms(1) by (auto simp: isInValue_def Let_def as_list_def list_ex_iff split: if_splits)
  with assms(2) show ?thesis
    by (intro that[of a c]) (auto simp: isEqualValue_key text_key list_all_iff)
qed

lemma toStringList_text: "list_all is_text xs \<Longrightarrow> toStringList (J_arr xs) = xs"
  by (simp add: toStringList_def list_all_iff)

lemma equals_in:
  assumes "isEqualValue v e" and "isInValue v (J_arr xs)" and "list_all is_text xs"
  shows "\<not> equalsInConflicts e (J_arr xs)"
proof
  assume conf: "equalsInConflicts e (J_arr xs)"
  have n: "\<not> nullish e" "\<not> is_infix '','' (js_string e)"
    using conf by (auto simp: equalsInConflicts_def split: if_splits)
  with assms(1) have v: "js_string v = js_string e" by (auto simp: isEqualValue_def nullish_def split: if_splits)
  obtain a c where ac: "a \<in> set (as_list v)" "c \<in> set xs" "\<not> nullish a" "js_string a = js_string c"
    by (rule in_text_list[OF assms(2,3)])
  have "js_string a = js_string v" using no_comma_element[OF _ ac(1,3)] n(2) v by simp
  with ac v n(1) have "sameKey e c"
    using assms(3) text_key[of c e] by (auto simp: sameKey_def list_all_iff)
  with conf ac(2) show False
    by (auto simp: equalsInConflicts_def toStringList_text[OF assms(3)] list_ex_iff split: if_splits)
qed

lemma in_in:
  assumes "isInValue v (J_arr xs)" and "isInValue v (J_arr ys)" and "list_all is_text xs" and "list_all is_text ys"
    and "\<not> is_list v"
  shows "\<not> inInDisjoint (J_arr xs) (J_arr ys)"
proof -
  have v: "as_list v = [v]" using assms(5) by (auto simp: is_list_def as_list_def split: js.splits)
  obtain c where "c \<in> set xs" "js_string v = js_string c"
    using in_text_list[OF assms(1,3)] v by auto
  moreover obtain d where "d \<in> set ys" "js_string v = js_string d"
    using in_text_list[OF assms(2,4)] v by auto
  ultimately have "\<exists>c \<in> set xs. js_string c \<in> js_string ` set ys" by (metis image_eqI)
  then show ?thesis
    by (simp add: inInDisjoint_def toStringList_text[OF assms(3)] toStringList_text[OF assms(4)] list_ex_iff)
qed

section \<open>One pair\<close>

lemma schema_scalar:
  assumes "ConditionSchema c" and "cn_operator c \<noteq> ''in''"
  shows "condition_value_type (cn_value c)" and "\<not> is_list (cn_value c)"
  using assms by (simp_all add: ConditionSchema_def)

lemma schema_in:
  assumes "ConditionSchema c" and "cn_operator c = ''in''"
  obtains xs where "cn_value c = J_arr xs" and "list_all is_text xs"
proof -
  obtain xs where xs: "cn_value c = J_arr xs"
    using assms by (auto simp: ConditionSchema_def is_list_def split: js.splits)
  with assms(1) have "list_all is_text xs"
    unfolding ConditionSchema_def condition_value_type_def is_text_def by simp
  with xs show ?thesis by (rule that)
qed

lemmas evaluate_simps = evaluateRuleCondition_def Let_def

lemma range_sound:
  assumes "case (toFiniteNumber g, toFiniteNumber l) of (Some x, Some y) \<Rightarrow> num_ge x y | _ \<Rightarrow> False"
    and "case toFiniteNumber v of None \<Rightarrow> False
      | Some a \<Rightarrow> (case toFiniteNumber g of None \<Rightarrow> False | Some x \<Rightarrow> num_less x a)"
    and "case toFiniteNumber v of None \<Rightarrow> False
      | Some a \<Rightarrow> (case toFiniteNumber l of None \<Rightarrow> False | Some x \<Rightarrow> num_less a x)"
  shows False
  using assms num_between by (auto split: option.splits)

lemma contains_sound:
  assumes "is_infix s2 s1" and "case v of J_str s \<Rightarrow> is_infix s1 s | _ \<Rightarrow> False"
    and "case v of J_str s \<Rightarrow> \<not> is_infix s2 s | _ \<Rightarrow> True"
  shows False
  using assms is_infix_trans by (auto split: js.splits)

text \<open>The pairwise rules, each read in one order of the two conditions.\<close>

definition pair_rule :: "condition \<Rightarrow> condition \<Rightarrow> bool" where
  "pair_rule c d \<longleftrightarrow>
      cn_operator c = ''is_empty'' \<and> cn_operator d = ''is_not_empty''
      \<or> cn_operator c = ''is_empty'' \<and> cn_operator d = ''equals'' \<and> \<not> isEmptyLiteral (cn_value d)
      \<or> cn_operator c = ''equals'' \<and> cn_operator d = ''equals'' \<and> \<not> sameKey (cn_value c) (cn_value d)
      \<or> cn_operator c = ''equals'' \<and> cn_operator d = ''not_equals'' \<and> sameKey (cn_value c) (cn_value d)
      \<or> cn_operator c = ''greater_than'' \<and> cn_operator d = ''less_than''
        \<and> (case (toFiniteNumber (cn_value c), toFiniteNumber (cn_value d)) of (Some g, Some l) \<Rightarrow> num_ge g l | _ \<Rightarrow> False)
      \<or> cn_operator c = ''contains'' \<and> cn_operator d = ''not_contains''
        \<and> is_infix (text_or_empty (cn_value d)) (text_or_empty (cn_value c))
      \<or> cn_operator c = ''equals'' \<and> cn_operator d = ''in'' \<and> equalsInConflicts (cn_value c) (cn_value d)"

lemma if_SomeE:
  assumes "(if P then Some x else y) = Some r"
  obtains "P" | "y = Some r"
  using assms by (auto split: if_splits)

lemma checkTier1Pair_rule:
  assumes "checkTier1Pair a b = Some r"
  shows "pair_rule a b \<or> pair_rule b a"
  using assms unfolding checkTier1Pair_def Let_def
proof (elim if_SomeE)
  assume "(cn_operator a = ''greater_than'' \<and> cn_operator b = ''less_than''
      \<or> cn_operator a = ''less_than'' \<and> cn_operator b = ''greater_than'')
    \<and> (case (toFiniteNumber (if cn_operator a = ''greater_than'' then cn_value a else cn_value b),
              toFiniteNumber (if cn_operator a = ''less_than'' then cn_value a else cn_value b)) of
         (Some g, Some l) \<Rightarrow> num_ge g l | _ \<Rightarrow> False)"
  then show ?thesis by (elim conjE disjE) (simp_all add: pair_rule_def)
qed (auto simp: pair_rule_def sameKey_def)

lemma pair_rule_sound:
  assumes "pair_rule c d" and "ConditionSchema c" and "ConditionSchema d" and "cn_fieldId c = cn_fieldId d"
    and c: "evaluateRuleCondition c data" and d: "evaluateRuleCondition d data"
  shows False
proof -
  define v where "v = field data (cn_fieldId c)"
  have v': "field data (cn_fieldId d) = v" by (simp add: v_def assms(4))
  note e = c[unfolded evaluate_simps, folded v_def] d[unfolded evaluate_simps, unfolded v']
  from assms(1)[unfolded pair_rule_def] show False
  proof (elim disjE conjE)
    assume "cn_operator c = ''is_empty''" "cn_operator d = ''is_not_empty''"
    with e show False by simp
  next
    assume o: "cn_operator c = ''is_empty''" "cn_operator d = ''equals''" and "\<not> isEmptyLiteral (cn_value d)"
    moreover have "isEmptyValue v" "isEqualValue v (cn_value d)" using e o by simp_all
    ultimately show False using empty_equals[of v "cn_value d"] schema_scalar[OF assms(3)] by simp
  next
    assume "cn_operator c = ''equals''" "cn_operator d = ''equals''" "\<not> sameKey (cn_value c) (cn_value d)"
    with e show False by (simp add: isEqualValue_key sameKey_def)
  next
    assume "cn_operator c = ''equals''" "cn_operator d = ''not_equals''" "sameKey (cn_value c) (cn_value d)"
    with e show False by (simp add: isEqualValue_key sameKey_def)
  next
    assume o: "cn_operator c = ''greater_than''" "cn_operator d = ''less_than''"
      and r: "case (toFiniteNumber (cn_value c), toFiniteNumber (cn_value d)) of (Some g, Some l) \<Rightarrow> num_ge g l | _ \<Rightarrow> False"
    show False by (rule range_sound[OF r, of v]) (use e o in simp_all)
  next
    assume o: "cn_operator c = ''contains''" "cn_operator d = ''not_contains''"
      and r: "is_infix (text_or_empty (cn_value d)) (text_or_empty (cn_value c))"
    show False by (rule contains_sound[OF r, of v]) (use e o in simp_all)
  next
    assume o: "cn_operator c = ''equals''" "cn_operator d = ''in''" and r: "equalsInConflicts (cn_value c) (cn_value d)"
    obtain xs where xs: "cn_value d = J_arr xs" "list_all is_text xs" by (rule schema_in[OF assms(3) o(2)])
    have "isEqualValue v (cn_value c)" "isInValue v (J_arr xs)" using e o xs by simp_all
    then show False using equals_in xs r by simp
  qed
qed

section \<open>The whole guard\<close>

lemma pair_conflicts_sound:
  assumes "pair_conflicts single f (i, c) (j, d) \<noteq> []" and "ConditionSchema c" and "ConditionSchema d"
    and "cn_fieldId c = f" and "cn_fieldId d = f"
    and single: "\<And>s. single = Some s \<Longrightarrow> f \<in> set s \<Longrightarrow> \<not> is_list (field data f)"
    and "evaluateRuleCondition c data" and "evaluateRuleCondition d data"
  shows False
proof (cases "checkTier1Pair c d")
  case (Some r)
  have f: "cn_fieldId c = cn_fieldId d" by (simp add: assms(4,5))
  from checkTier1Pair_rule[OF Some] show False
    using pair_rule_sound[OF _ assms(2,3) f assms(7,8)] pair_rule_sound[OF _ assms(3,2) f[symmetric] assms(8,7)]
    by blast
next
  case None
  with assms(1) have o: "cn_operator c = ''in''" "cn_operator d = ''in''"
    and disj: "inInDisjoint (cn_value c) (cn_value d)" and s: "\<exists>s. single = Some s \<and> f \<in> set s"
    by (auto simp: pair_conflicts_def split: if_splits option.splits)
  obtain xs ys where x: "cn_value c = J_arr xs" "list_all is_text xs" and y: "cn_value d = J_arr ys" "list_all is_text ys"
    using schema_in[OF assms(2) o(1)] schema_in[OF assms(3) o(2)] by metis
  have "isInValue (field data f) (J_arr xs)" and "isInValue (field data f) (J_arr ys)"
    using assms(4,5,7,8) o x y by (simp_all add: evaluate_simps)
  from in_in[OF this x(2) y(2)] single s disj x(1) y(1) show False by auto
qed

lemma group_conflicts_pair:
  assumes "group_conflicts single f ps \<noteq> []"
  obtains p q where "p \<in> set ps" and "q \<in> set ps" and "pair_conflicts single f p q \<noteq> []"
  using assms by (induction ps) auto

text \<open>
  C17: the contradiction guard never rejects a satisfiable rule: when it reports a conflict in a set of
  conditions that passed the condition schema, no form data whatsoever satisfies the set, whether the
  fields it was told are single-valued hold one value or it was told of none.
\<close>

theorem findConditionConflicts_sound:
  assumes "findConditionConflicts conditions logic single \<noteq> []"
    and "\<forall>c \<in> set conditions. ConditionSchema c"
    and "\<forall>f. (\<exists>s. single = Some s \<and> f \<in> set s) \<longrightarrow> \<not> is_list (field data f)"
  shows "\<not> evaluateRuleConditions conditions logic data"
proof
  assume ev: "evaluateRuleConditions conditions logic data"
  let ?ics = "zip [0..<length conditions] conditions"
  have logic: "to_upper logic = ''AND''" and ne: "conditions \<noteq> []"
    using assms(1) by (auto simp: findConditionConflicts_def split: if_splits)
  with ev have all: "evaluateRuleCondition c data" if "c \<in> set conditions" for c
    using that by (auto simp: evaluateRuleConditions_def list_all_iff)
  have mem: "snd p \<in> set conditions" if "p \<in> set ?ics" for p
    using that set_zip_rightD[of "fst p" "snd p"] by simp
  consider (empty) "empty_in_conflicts ?ics \<noteq> []"
    | (group) f where "group_conflicts single f (filter (\<lambda>(i, c). cn_fieldId c = f) ?ics) \<noteq> []"
    using assms(1) logic ne by (auto simp: findConditionConflicts_def Let_def split: if_splits)
  then show False
  proof cases
    case empty
    then obtain p where "p \<in> set ?ics" "cn_operator (snd p) = ''in''" "cn_value (snd p) = J_arr []"
      by (auto simp: empty_in_conflicts_def filter_empty_conv)
    with mem[of p] assms(2) show False by (auto simp: ConditionSchema_def)
  next
    case group
    then obtain p q where p: "p \<in> set ?ics" "cn_fieldId (snd p) = f" and q: "q \<in> set ?ics" "cn_fieldId (snd q) = f"
      and "pair_conflicts single f p q \<noteq> []"
      by (rule group_conflicts_pair) auto
    then have "pair_conflicts single f (fst p, snd p) (fst q, snd q) \<noteq> []" by simp
    from pair_conflicts_sound[OF this _ _ p(2) q(2)] mem[OF p(1)] mem[OF q(1)] assms(2,3) all
    show False by blast
  qed
qed

definition ex_conditions :: "condition list" where
  "ex_conditions =
    [\<lparr>cn_fieldId = ''grade'', cn_operator = ''equals'', cn_value = J_str ''phd''\<rparr>,
     \<lparr>cn_fieldId = ''age'', cn_operator = ''greater_than'', cn_value = J_num (Js_dec 18 0)\<rparr>,
     \<lparr>cn_fieldId = ''grade'', cn_operator = ''in'', cn_value = J_arr [J_str ''resident'', J_str ''postgrad'']\<rparr>]"

theorem findConditionConflicts_sound_witness:
  "findConditionConflicts ex_conditions ''AND'' None \<noteq> []
   \<and> \<not> evaluateRuleConditions ex_conditions ''AND'' [(''grade'', J_str ''phd''), (''age'', J_str ''20'')]"
proof
  show c: "findConditionConflicts ex_conditions ''AND'' None \<noteq> []" by code_simp
  have "\<forall>c \<in> set ex_conditions. ConditionSchema c" by code_simp
  from findConditionConflicts_sound[OF c this] show
    "\<not> evaluateRuleConditions ex_conditions ''AND'' [(''grade'', J_str ''phd''), (''age'', J_str ''20'')]"
    by simp
qed

text \<open>
  Outside the schema the guard can reject a satisfiable set: an \<open>equals\<close> with the empty list reads as
  the empty text, which an empty answer satisfies.
\<close>

lemma equals_empty_list_false_conflict:
  defines "cs \<equiv> [\<lparr>cn_fieldId = ''f'', cn_operator = ''is_empty'', cn_value = J_undefined\<rparr>,
    \<lparr>cn_fieldId = ''f'', cn_operator = ''equals'', cn_value = J_arr []\<rparr>]"
  shows "findConditionConflicts cs ''AND'' None \<noteq> []" and "evaluateRuleConditions cs ''AND'' [(''f'', J_str [])]"
  unfolding cs_def by code_simp+

end
