(* ===== verification/NumberText.thy ===== *)
theory NumberText
  imports JsValue
begin

text \<open>
  Numbers survive their text: \<open>Number(String(n))\<close> is n, the fact behind every comparison the code makes
  through \<open>String\<close>. The four layouts \<open>String\<close> chooses from are treated one by one.
\<close>

section \<open>Digits\<close>

lemma digit_facts [simp]: "n < 10 \<Longrightarrow> is_digit (digit n)" "n < 10 \<Longrightarrow> digit_value (digit n) = n"
  by (simp_all add: digit_def is_digit_def digit_value_def Let_def)

lemma digit_char: "is_digit c \<Longrightarrow> c \<in> set ''0123456789''"
proof -
  assume d: "is_digit c"
  define n :: nat where "n = of_char c"
  have c: "c = char_of n" by (simp add: n_def)
  have "n \<in> {48..57}" using d by (simp add: is_digit_def n_def Let_def)
  then have "48 \<le> n" "n < 58" by simp_all
  then have n: "n \<in> set [48..<58]" unfolding set_upt by (simp only: atLeastLessThan_iff simp_thms)
  have e: "set ''0123456789'' = char_of ` set [48..<58::nat]" unfolding set_map[symmetric] by (rule arg_cong[of _ _ set]) code_simp
  show ?thesis unfolding c e by (rule imageI[OF n])
qed

lemma not_digit [simp]: "\<not> is_digit (CHR ''.'')" "\<not> is_digit (CHR ''e'')" "\<not> is_digit (CHR ''-'')"
  "\<not> is_digit (CHR ''+'')" "\<not> is_digit (CHR ''I'')" "is_digit (CHR ''0'')" "digit_value (CHR ''0'') = 0"
  by (simp_all add: is_digit_def digit_value_def Let_def)

lemma digits_value_snoc [simp]: "digits_value (s @ [c]) = digits_value s * 10 + digit_value c"
  by (simp add: digits_value_def)

lemma digits_value_Nil [simp]: "digits_value [] = 0"
  by (simp add: digits_value_def)

lemma digits_value_zeros [simp]: "digits_value (s @ replicate j (CHR ''0'')) = digits_value s * 10 ^ j"
proof (induction j)
  case (Suc j)
  have e: "s @ replicate (Suc j) (CHR ''0'') = (s @ replicate j (CHR ''0'')) @ [CHR ''0'']"
    by (simp add: replicate_append_same)
  show ?case unfolding e digits_value_snoc Suc by simp
qed simp

lemma digits_value_leading: "digits_value (replicate j (CHR ''0'') @ s) = digits_value s"
proof (induction s rule: rev_induct)
  case Nil
  show ?case using digits_value_zeros[of "[]" j] by simp
next
  case (snoc c s)
  then show ?case by (simp flip: append_assoc)
qed

lemma show_nat_props:
  "digits_value (show_nat n) = n \<and> list_all is_digit (show_nat n) \<and> show_nat n \<noteq> []
   \<and> (n \<noteq> 0 \<longrightarrow> hd (show_nat n) \<noteq> CHR ''0'')"
proof (induction n rule: show_nat.induct)
  case (1 n)
  show ?case
  proof (cases "n < 10")
    case True
    have "digit n = CHR ''0'' \<Longrightarrow> n = 0" using True digit_facts(2)[of n] not_digit(7) by metis
    with True show ?thesis by (auto simp: show_nat.simps[of n] digits_value_def)
  next
    case False
    with 1 have "digits_value (show_nat (n div 10)) = n div 10" "list_all is_digit (show_nat (n div 10))"
      "show_nat (n div 10) \<noteq> []" "hd (show_nat (n div 10)) \<noteq> CHR ''0''" by auto
    with False show ?thesis by (simp add: show_nat.simps[of n])
  qed
qed

section \<open>Reading what was written\<close>

text \<open>The value of a decimal, and the decimals a text reads as.\<close>

definition reads_as :: "string \<Rightarrow> rat \<Rightarrow> bool" where
  "reads_as s q \<longleftrightarrow> (\<exists>m e. read_unsigned s = Js_dec m e \<and> dec_val m e = q)"

lemma takeWhile_digits: "list_all is_digit a \<Longrightarrow> \<not> is_digit c \<Longrightarrow> takeWhile is_digit (a @ c # b) = a"
  and dropWhile_digits: "list_all is_digit a \<Longrightarrow> \<not> is_digit c \<Longrightarrow> dropWhile is_digit (a @ c # b) = c # b"
  by (induction a) auto

lemma takeWhile_digits_all: "list_all is_digit a \<Longrightarrow> takeWhile is_digit a = a"
  and dropWhile_digits_all: "list_all is_digit a \<Longrightarrow> dropWhile is_digit a = []"
  by (induction a) auto

lemma digits_not_Infinity: "list_all is_digit a \<Longrightarrow> a \<noteq> [] \<Longrightarrow> a @ b \<noteq> ''Infinity''"
  by (cases a) auto

lemma read_integer:
  assumes "list_all is_digit a" "a \<noteq> []"
  shows "read_unsigned a = Js_dec (int (digits_value a)) 0"
  using assms digits_not_Infinity[of a "[]"]
  by (simp add: read_unsigned_def Let_def takeWhile_digits_all dropWhile_digits_all read_fraction_def read_exponent_def)

lemma read_point:
  assumes "list_all is_digit a" "a \<noteq> []" "list_all is_digit b"
  shows "read_unsigned (a @ CHR ''.'' # b) = Js_dec (int (digits_value (a @ b))) (- int (length b))"
  using assms digits_not_Infinity[of a "CHR ''.'' # b"]
  by (simp add: read_unsigned_def Let_def takeWhile_digits dropWhile_digits read_fraction_def
      takeWhile_digits_all dropWhile_digits_all read_exponent_def)

lemma read_show_exponent: "read_exponent (CHR ''e'' # show_exponent x) = Some x"
  using show_nat_props[of "nat \<bar>x\<bar>"] by (cases "0 \<le> x") (simp_all add: read_exponent_def show_exponent_def)

lemma read_scientific:
  assumes "list_all is_digit a" "a \<noteq> []" "list_all is_digit b"
  shows "read_unsigned (a @ (if b = [] then [] else CHR ''.'' # b) @ CHR ''e'' # show_exponent x)
    = Js_dec (int (digits_value (a @ b))) (x - int (length b))"
proof (cases "b = []")
  case True
  then show ?thesis
    using assms digits_not_Infinity[of a "CHR ''e'' # show_exponent x"]
    by (simp add: read_unsigned_def Let_def takeWhile_digits dropWhile_digits read_fraction_def read_show_exponent)
next
  case False
  then show ?thesis
    using assms digits_not_Infinity[of a "CHR ''.'' # b @ CHR ''e'' # show_exponent x"]
    by (simp add: read_unsigned_def Let_def takeWhile_digits dropWhile_digits read_fraction_def read_show_exponent)
qed

lemma dec_val_shift: "dec_val (m * 10 ^ j) e = dec_val m (e + int j)"
  by (simp add: dec_val_def power_int_add)

lemma read_show_decimal:
  assumes "list_all is_digit s" "s \<noteq> []"
  shows "reads_as (show_decimal s n) (dec_val (int (digits_value s)) (n - int (length s)))"
proof -
  let ?k = "int (length s)" and ?z = "CHR ''0''"
  have dig: "list_all is_digit (take j s)" "list_all is_digit (drop j s)" for j
    using assms(1) by (auto simp: list_all_iff dest: in_set_takeD in_set_dropD)
  consider (a) "?k \<le> n \<and> n \<le> 21" | (b) "\<not> (?k \<le> n \<and> n \<le> 21)" "0 < n \<and> n \<le> 21"
    | (c) "\<not> (0 < n \<and> n \<le> 21)" "-6 < n \<and> n \<le> 0" | (d) "\<not> (?k \<le> n \<and> n \<le> 21)" "\<not> (0 < n \<and> n \<le> 21)" "\<not> (-6 < n \<and> n \<le> 0)"
    by blast
  then show ?thesis
  proof cases
    case a
    let ?t = "s @ replicate (nat (n - ?k)) ?z"
    have "list_all is_digit ?t" using assms(1) by (auto simp: list_all_iff)
    then have "read_unsigned ?t = Js_dec (int (digits_value s) * 10 ^ nat (n - ?k)) 0"
      using read_integer[of ?t] assms(2) by simp
    moreover have "show_decimal s n = ?t" using a by (simp add: show_decimal_def Let_def)
    ultimately show ?thesis using a by (simp add: reads_as_def dec_val_shift)
  next
    case b
    have e: "show_decimal s n = take (nat n) s @ ''.'' @ drop (nat n) s" using b by (auto simp: show_decimal_def Let_def)
    show ?thesis
      unfolding reads_as_def e using read_point[OF dig(1) _ dig(2), of "nat n" "nat n"] b assms(2) by auto
  next
    case c
    let ?b = "replicate (nat (- n)) ?z @ s"
    have "0 < ?k" using assms(2) by simp
    with c have "\<not> (?k \<le> n \<and> n \<le> 21)" by linarith
    with c have e: "show_decimal s n = [?z] @ CHR ''.'' # ?b" by (simp add: show_decimal_def Let_def)
    have zeros: "list_all is_digit (replicate j ?z)" for j by (simp add: list_all_iff)
    have "digits_value ([?z] @ ?b) = digits_value s"
      using digits_value_leading[of "Suc (nat (- n))" s] by simp
    then have "read_unsigned ([?z] @ CHR ''.'' # ?b) = Js_dec (int (digits_value s)) (n - ?k)"
      using read_point[of "[?z]" ?b] assms c zeros by simp
    then show ?thesis unfolding reads_as_def e by blast
  next
    case d
    have e: "show_decimal s n = take 1 s @ (if drop 1 s = [] then [] else CHR ''.'' # drop 1 s) @ CHR ''e'' # show_exponent (n - 1)"
      using d assms(2) by (cases s) (auto simp: show_decimal_def Let_def)
    have l: "int (length (drop 1 s)) = ?k - 1" using assms(2) by (cases s) auto
    have "take 1 s \<noteq> []" using assms(2) by simp
    then have "read_unsigned (show_decimal s n) = Js_dec (int (digits_value (take 1 s @ drop 1 s))) (n - 1 - int (length (drop 1 s)))"
      unfolding e using read_scientific[OF dig(1) _ dig(2), of 1 1 "n - 1"] by blast
    then show ?thesis unfolding reads_as_def l append_take_drop_id by simp
  qed
qed

section \<open>Number(String(n))\<close>

definition same_number :: "js_num \<Rightarrow> js_num \<Rightarrow> bool" where
  "same_number a b \<longleftrightarrow> num_eq a b \<or> a = Js_nan \<and> b = Js_nan"

lemma strip_zeros_val: "strip_zeros m e = (d, x) \<Longrightarrow> dec_val (int d) x = dec_val (int m) e \<and> (m \<noteq> 0 \<longrightarrow> d \<noteq> 0)"
proof (induction m e rule: strip_zeros.induct)
  case (1 m e)
  show ?case
  proof (cases "m \<noteq> 0 \<and> m mod 10 = 0")
    case True
    then have m: "m = m div 10 * 10" "m div 10 \<noteq> 0" by auto
    have "dec_val (int m) e = dec_val (int (m div 10) * 10 ^ 1) e" using m(1) by (metis of_nat_mult of_nat_numeral power_one_right)
    also have "\<dots> = dec_val (int (m div 10)) (e + 1)" by (simp only: dec_val_shift of_nat_1)
    finally show ?thesis using 1 True m(2) by (simp add: strip_zeros.simps[of m e])
  next
    case False
    with "1.prems" show ?thesis by (auto simp: strip_zeros.simps[of m e])
  qed
qed

lemma show_decimal_head:
  assumes "list_all is_digit s" "s \<noteq> []" "hd s \<noteq> CHR ''0''"
  shows "(\<exists>c r. show_decimal s n = c # r \<and> is_digit c \<and> c \<noteq> CHR ''0'')
    \<or> (\<exists>c r. show_decimal s n = CHR ''0'' # CHR ''.'' # c # r)"
proof -
  obtain c r where s: "s = c # r" "is_digit c" "c \<noteq> CHR ''0''" using assms by (cases s) auto
  obtain j where j: "0 < n \<Longrightarrow> nat n = Suc j" by (metis Suc_pred zero_less_nat_eq)
  obtain y ys where "replicate (nat (- n)) (CHR ''0'') @ c # r = y # ys" by (cases "replicate (nat (- n)) (CHR ''0'')") auto
  with s j show ?thesis by (auto simp: show_decimal_def Let_def)
qed

lemma read_trimmed_digit: "is_digit c \<Longrightarrow> c \<noteq> CHR ''0'' \<Longrightarrow> read_trimmed (c # r) = read_unsigned (c # r)"
  using digit_char[of c] by (auto simp: read_trimmed_def read_signed_def)

lemma read_trimmed_zero: "read_trimmed (CHR ''0'' # CHR ''.'' # c # r) = read_unsigned (CHR ''0'' # CHR ''.'' # c # r)"
  by (simp add: read_trimmed_def radix_of_def read_signed_def)

lemma read_trimmed_minus: "read_trimmed (CHR ''-'' # r) = num_neg (read_unsigned r)"
  by (simp add: read_trimmed_def read_signed_def)

lemma trim_no_space: "list_all (\<lambda>c. \<not> is_space c) s \<Longrightarrow> trim s = s"
proof -
  have "dropWhile is_space t = t" if "list_all (\<lambda>c. \<not> is_space c) t" for t using that by (cases t) auto
  then show "list_all (\<lambda>c. \<not> is_space c) s \<Longrightarrow> trim s = s" by (simp add: trim_def)
qed

lemma digits_no_space: "list_all is_digit s \<Longrightarrow> list_all (\<lambda>c. \<not> is_space c) s"
  by (auto simp: list_all_iff is_space_def dest!: bspec digit_char)

lemma show_decimal_no_space:
  assumes "list_all is_digit s"
  shows "list_all (\<lambda>c. \<not> is_space c) (show_decimal s n)"
proof -
  have x: "list_all (\<lambda>c. \<not> is_space c) (show_exponent x)" for x
    using digits_no_space[of "show_nat (nat \<bar>x\<bar>)"] show_nat_props[of "nat \<bar>x\<bar>"]
    by (simp add: show_exponent_def is_space_def)
  have d: "list_all (\<lambda>c. \<not> is_space c) s" by (rule digits_no_space[OF assms])
  then have "list_all (\<lambda>c. \<not> is_space c) (take j s)" "list_all (\<lambda>c. \<not> is_space c) (drop j s)" for j
    by (auto simp: list_all_iff dest: in_set_takeD in_set_dropD)
  moreover have "list_all (\<lambda>c. \<not> is_space c) (replicate j (CHR ''0''))" for j by (simp add: list_all_iff is_space_def)
  moreover have "\<not> is_space (CHR ''.'')" "\<not> is_space (CHR ''0'')" "\<not> is_space (CHR ''e'')" by (simp_all add: is_space_def)
  ultimately show ?thesis using d x by (simp add: show_decimal_def Let_def)
qed

lemma num_string_no_space: "list_all (\<lambda>c. \<not> is_space c) (num_string n)"
proof (cases n)
  case (Js_dec m e)
  obtain d x where "strip_zeros (nat \<bar>m\<bar>) e = (d, x)" by force
  moreover have "list_all is_digit (show_nat d)" using show_nat_props by blast
  moreover have "\<not> is_space (CHR ''-'')" "\<not> is_space (CHR ''0'')" by (simp_all add: is_space_def)
  ultimately show ?thesis using Js_dec show_decimal_no_space by simp
next
  case (Js_inf b)
  then show ?thesis by (simp add: is_space_def)
qed (simp add: is_space_def)

lemma num_string_trim: "trim (num_string n) = num_string n"
  by (rule trim_no_space[OF num_string_no_space])

lemma num_string_nonempty: "num_string n \<noteq> []"
proof (cases n)
  case (Js_dec m e)
  obtain d x where "strip_zeros (nat \<bar>m\<bar>) e = (d, x)" by force
  moreover have "show_nat d \<noteq> []" using show_nat_props by blast
  ultimately show ?thesis using Js_dec by (auto simp: show_decimal_def Let_def)
qed auto

lemma string_num_num_string: "same_number (string_num (num_string n)) n"
proof (cases n)
  case (Js_dec m e)
  show ?thesis
  proof (cases "m = 0")
    case True
    have "string_num ''0'' = Js_dec 0 0" by code_simp
    with True Js_dec show ?thesis by (simp add: same_number_def dec_eq_val dec_val_def)
  next
    case False
    obtain d x where dx: "strip_zeros (nat \<bar>m\<bar>) e = (d, x)" by force
    let ?s = "show_nat d" and ?n = "int (length (show_nat d)) + x"
    let ?t = "show_decimal ?s ?n"
    have v: "dec_val (int d) x = dec_val \<bar>m\<bar> e" and d: "d \<noteq> 0" using strip_zeros_val[OF dx] False by auto
    have s: "list_all is_digit ?s" "?s \<noteq> []" "hd ?s \<noteq> CHR ''0''" "digits_value ?s = d"
      using show_nat_props[of d] d by auto
    obtain M E where r: "read_unsigned ?t = Js_dec M E" and ME: "dec_val M E = dec_val \<bar>m\<bar> e"
      using read_show_decimal[OF s(1,2), of ?n] s(4) v by (auto simp: reads_as_def)
    have ns: "list_all (\<lambda>c. \<not> is_space c) ?t" using show_decimal_no_space[OF s(1)] .
    show ?thesis
    proof (cases "m < 0")
      case True
      have "num_string n = CHR ''-'' # ?t" using Js_dec False True dx by simp
      moreover have "trim (CHR ''-'' # ?t) = CHR ''-'' # ?t" 
        using ns by (intro trim_no_space) (simp add: is_space_def[of "CHR ''-''"])
      ultimately have "string_num (num_string n) = Js_dec (- M) E" by (simp add: string_num_def read_trimmed_minus r)
      moreover have "dec_val (- M) E = dec_val m e" using ME True by (simp add: dec_val_def)
      ultimately show ?thesis using Js_dec by (simp add: same_number_def dec_eq_val)
    next
      case pos: False
      have "num_string n = ?t" using Js_dec False pos dx by simp
      moreover have "read_trimmed ?t = read_unsigned ?t"
        using show_decimal_head[OF s(1-3), of ?n] read_trimmed_digit read_trimmed_zero by auto
      ultimately have "string_num (num_string n) = Js_dec M E" by (simp add: string_num_def trim_no_space[OF ns] r)
      then show ?thesis using Js_dec ME pos by (simp add: same_number_def dec_eq_val)
    qed
  qed
next
  case Js_nan
  have "string_num ''NaN'' = Js_nan" by code_simp
  with Js_nan show ?thesis by (simp add: same_number_def)
next
  case (Js_inf b)
  have "string_num ''-Infinity'' = Js_inf True" "string_num ''Infinity'' = Js_inf False" by code_simp+
  with Js_inf show ?thesis by (cases b) (simp_all add: same_number_def)
qed

end
