(* ===== verification/Signature.thy ===== *)
theory Signature
  imports Conditions NumberText
begin

text \<open>
  The fingerprint of a condition set (\<open>conditionSetSignature\<close> of
  \<open>packages/contracts/src/condition-satisfiability.ts\<close>): a JSON text that grandfathering compares with the
  stored one. The lemmas read the text back, and the property says that rules with the same fingerprint
  price every registration alike.
\<close>

section \<open>JSON.stringify of texts and arrays\<close>

datatype json_doc = Jd_str string | Jd_arr "json_doc list"

definition hex_digit :: "nat \<Rightarrow> char" where
  "hex_digit k = char_of (if k < 10 then 48 + k else 87 + k)"

text \<open>\<open>0x22\<close> is the quote, \<open>0x5C\<close> the backslash.\<close>

definition json_short :: "nat \<Rightarrow> char option" where
  "json_short = map_of [(34, CHR 0x22), (92, CHR 0x5C), (8, CHR ''b''), (9, CHR ''t''), (10, CHR ''n''),
     (12, CHR ''f''), (13, CHR ''r'')]"

definition json_char :: "char \<Rightarrow> string" where
  "json_char c =
    (let n = (of_char c :: nat) in
     case json_short n of
       Some a \<Rightarrow> [CHR 0x5C, a]
     | None \<Rightarrow>
         if n < 32 then [CHR 0x5C, CHR ''u'', CHR ''0'', CHR ''0'', hex_digit (n div 16), hex_digit (n mod 16)]
         else [c])"

definition json_string :: "string \<Rightarrow> string" where
  "json_string s = CHR 0x22 # concat (map json_char s) @ [CHR 0x22]"

fun stringify :: "json_doc \<Rightarrow> string" where
  "stringify (Jd_str s) = json_string s"
| "stringify (Jd_arr ds) = ''['' @ join '','' (map stringify ds) @ '']''"

section \<open>The fingerprint\<close>

definition canonicalValueKey :: "js \<Rightarrow> string" where
  "canonicalValueKey v =
    (if v = J_null then ''null''
     else if v = J_undefined then ''undefined''
     else case v of
       J_arr xs \<Rightarrow> stringify (Jd_arr [Jd_str ''arr'', Jd_arr (map (\<lambda>x. Jd_str (js_string x)) xs)])
     | _ \<Rightarrow> stringify (Jd_arr [Jd_str ''val'', Jd_str (js_string v)]))"

definition conditionSetSignature :: "condition list \<Rightarrow> string \<Rightarrow> string" where
  "conditionSetSignature conditions logic =
    stringify (Jd_arr [Jd_str (to_upper logic), Jd_arr (map (\<lambda>c.
      Jd_arr [Jd_str (cn_fieldId c), Jd_str (cn_operator c), Jd_str (canonicalValueKey (cn_value c))]) conditions)])"

section \<open>Reading it back\<close>

lemma hex_digit_inj: "k < 16 \<Longrightarrow> j < 16 \<Longrightarrow> hex_digit k = hex_digit j \<Longrightarrow> k = j"
  by (drule arg_cong[where f = "of_char :: char \<Rightarrow> nat"]) (auto simp: hex_digit_def split: if_splits)

lemma json_short_SomeD: "json_short n = Some a \<Longrightarrow>
    (n, a) \<in> {(34, CHR 0x22), (92, CHR 0x5C), (8, CHR ''b''), (9, CHR ''t''), (10, CHR ''n''), (12, CHR ''f''), (13, CHR ''r'')}"
  by (auto simp: json_short_def split: if_split_asm)

lemma json_short_inj: "json_short n = Some a \<Longrightarrow> json_short m = Some a \<Longrightarrow> n = m"
  by (drule json_short_SomeD)+ auto

lemma json_short_not_u: "json_short n \<noteq> Some (CHR ''u'')"
  using json_short_SomeD[of n "CHR ''u''"] by auto

definition json_long :: "nat \<Rightarrow> bool" where
  "json_long n \<longleftrightarrow> json_short n = None \<and> n < 32"

definition json_plain :: "char \<Rightarrow> bool" where
  "json_plain c \<longleftrightarrow> json_short (of_char c) = None \<and> \<not> of_char c < (32::nat)"

lemma json_plain_char: "json_plain c \<Longrightarrow> c \<noteq> CHR 0x5C \<and> c \<noteq> CHR 0x22"
  by (auto simp: json_plain_def json_short_def)

lemma json_char_cases:
  obtains (short) a where "json_short (of_char c) = Some a" "json_char c = [CHR 0x5C, a]"
  | (long) "of_char c < (32::nat)"
      "json_char c = [CHR 0x5C, CHR ''u'', CHR ''0'', CHR ''0'', hex_digit (of_char c div 16), hex_digit (of_char c mod 16)]"
  | (plain) "c \<noteq> CHR 0x5C" "c \<noteq> CHR 0x22" "json_char c = [c]"
proof (cases "json_short (of_char c)")
  case (Some a)
  with short show thesis by (simp add: json_char_def)
next
  case None
  then show thesis
    using long plain json_plain_char[of c] by (cases "of_char c < (32::nat)") (auto simp: json_char_def json_plain_def Let_def)
qed

lemma json_char_head: "\<exists>a r. json_char c = a # r \<and> a \<noteq> CHR 0x22"
  by (cases c rule: json_char_cases) auto

lemma code_of_hex: "n div 16 = m div (16::nat) \<Longrightarrow> n mod 16 = m mod 16 \<Longrightarrow> n = m"
  by (metis div_mult_mod_eq)

lemma hex_code_inj:
  assumes "n < 32" "m < 32" "hex_digit (n div 16) = hex_digit (m div 16)" "hex_digit (n mod 16) = hex_digit (m mod 16)"
  shows "n = m"
proof (rule code_of_hex)
  show "n div 16 = m div 16" using assms(1,2) by (intro hex_digit_inj[OF _ _ assms(3)]) auto
  show "n mod 16 = m mod 16" by (intro hex_digit_inj[OF _ _ assms(4)]) auto
qed

lemma json_char_prefix:
  assumes "json_char c @ x = json_char d @ y"
  shows "c = d \<and> x = y"
proof -
  have e: "c = d"
  proof (cases c rule: json_char_cases)
    case (short a)
    then show ?thesis
      using assms json_short_inj[of "of_char c" a "of_char d"] json_short_not_u[of "of_char c"]
      by (cases d rule: json_char_cases) auto
  next
    case long
    then show ?thesis
      using assms hex_code_inj[of "of_char c" "of_char d"] json_short_not_u[of "of_char d"]
      by (cases d rule: json_char_cases) auto
  next
    case plain
    with assms show ?thesis by (cases d rule: json_char_cases) auto
  qed
  with assms show ?thesis by simp
qed

lemma json_string_prefix: "json_string s @ x = json_string t @ y \<Longrightarrow> s = t \<and> x = y"
proof -
  have "concat (map json_char s) @ CHR 0x22 # x = concat (map json_char t) @ CHR 0x22 # y \<Longrightarrow> s = t \<and> x = y"
  proof (induction s arbitrary: t)
    case Nil
    then show ?case using json_char_head by (cases t) (auto, metis append_Cons list.inject)
  next
    case (Cons c s)
    show ?case
    proof (cases t)
      case Nil
      then show ?thesis using Cons.prems json_char_head[of c] by auto
    next
      case t: (Cons d t')
      from Cons.prems have "json_char c @ (concat (map json_char s) @ CHR 0x22 # x)
          = json_char d @ (concat (map json_char t') @ CHR 0x22 # y)" unfolding t by simp
      from json_char_prefix[OF this] Cons.IH[of t'] t show ?thesis by auto
    qed
  qed
  then show "json_string s @ x = json_string t @ y \<Longrightarrow> s = t \<and> x = y" by (simp add: json_string_def)
qed

lemma join_Cons: "join sep (x # xs) = x @ concat (map (\<lambda>y. sep @ y) xs)"
  by (induction xs arbitrary: x) auto

lemma stringify_head: "\<exists>a r. stringify d = a # r \<and> (a = CHR 0x22 \<or> a = CHR ''['')"
  by (cases d) (auto simp: json_string_def)

lemma commas_prefix:
  assumes "\<And>d d' x y. d \<in> set ds \<Longrightarrow> stringify d @ x = stringify d' @ y \<Longrightarrow> d = d' \<and> x = y"
    and "concat (map (\<lambda>y. '','' @ y) (map stringify ds)) @ CHR '']'' # x
      = concat (map (\<lambda>y. '','' @ y) (map stringify ds')) @ CHR '']'' # y"
  shows "ds = ds' \<and> x = y"
  using assms
proof (induction ds arbitrary: ds')
  case Nil
  then show ?case by (cases ds') auto
next
  case (Cons d ds)
  obtain d' es where ds': "ds' = d' # es" using Cons.prems(2) by (cases ds') auto
  let ?t = "\<lambda>es z. concat (map (\<lambda>y. '','' @ y) (map stringify es)) @ CHR '']'' # z"
  have "stringify d @ ?t ds x = stringify d' @ ?t es y" using Cons.prems(2) by (simp add: ds')
  from Cons.prems(1)[OF _ this] have "d = d'" "?t ds x = ?t es y" by auto
  with Cons.IH[OF Cons.prems(1)] ds' show ?case by auto
qed

lemma stringify_prefix: "stringify d @ x = stringify d' @ y \<Longrightarrow> d = d' \<and> x = y"
proof (induction d arbitrary: d' x y)
  case (Jd_str s)
  then show ?case using json_string_prefix[of s x _ y] by (cases d') (auto simp: json_string_def)
next
  case (Jd_arr ds)
  obtain es where d': "d' = Jd_arr es" using Jd_arr.prems by (cases d') (auto simp: json_string_def)
  have e: "join '','' (map stringify ds) @ CHR '']'' # x = join '','' (map stringify es) @ CHR '']'' # y"
    using Jd_arr.prems by (simp add: d')
  show ?case
  proof (cases ds)
    case Nil
    then show ?thesis using e stringify_head[of "hd es"] by (cases es) (auto simp: d' join_Cons)
  next
    case (Cons d ds')
    obtain f es' where es: "es = f # es'" using e stringify_head[of d] by (cases es) (auto simp: Cons join_Cons)
    let ?t = "\<lambda>es z. concat (map (\<lambda>y. '','' @ y) (map stringify es)) @ CHR '']'' # z"
    have "stringify d @ ?t ds' x = stringify f @ ?t es' y" using e by (simp add: Cons es join_Cons)
    with Jd_arr.IH[of d] Cons have "d = f" "?t ds' x = ?t es' y" by auto
    with commas_prefix[of ds' x es' y] Jd_arr.IH Cons es d' show ?thesis by auto
  qed
qed

lemma stringify_inj: "stringify d = stringify d' \<Longrightarrow> d = d'"
  using stringify_prefix[of d "[]" d' "[]"] by simp

section \<open>Equal fingerprints evaluate alike\<close>

definition scalar :: "js \<Rightarrow> bool" where
  "scalar v = (case v of J_bool _ \<Rightarrow> True | J_num _ \<Rightarrow> True | J_str _ \<Rightarrow> True | _ \<Rightarrow> False)"

lemma texts_eq: "list_all is_text xs \<Longrightarrow> list_all is_text ys \<Longrightarrow> map js_string xs = map js_string ys \<Longrightarrow> xs = ys"
proof (induction xs arbitrary: ys)
  case (Cons x xs)
  then obtain y zs where ys: "ys = y # zs" "js_string x = js_string y" by (cases ys) auto
  with Cons.prems have "is_text x" "is_text y" by auto
  with ys(2) have "x = y" by (cases x; cases y) (auto simp: is_text_def)
  moreover have "xs = zs" using Cons.IH[of zs] Cons.prems ys(1) by auto
  ultimately show ?case using ys(1) by simp
qed simp

lemma typed_cases:
  assumes "condition_value_type v"
  shows "v = J_undefined \<or> v = J_null \<or> scalar v \<or> (\<exists>xs. v = J_arr xs \<and> list_all is_text xs)"
  using assms by (cases v) (auto simp: condition_value_type_def scalar_def is_text_def[abs_def])

lemma canonicalValueKey_scalar: "scalar v \<Longrightarrow> canonicalValueKey v = stringify (Jd_arr [Jd_str ''val'', Jd_str (js_string v)])"
  by (cases v) (auto simp: canonicalValueKey_def scalar_def)

lemma canonicalValueKey_arr:
  "canonicalValueKey (J_arr xs) = stringify (Jd_arr [Jd_str ''arr'', Jd_arr (map (\<lambda>x. Jd_str (js_string x)) xs)])"
  by (simp add: canonicalValueKey_def)

lemma Jd_str_map: "map (\<lambda>x. Jd_str (f x)) xs = map (\<lambda>x. Jd_str (f x)) ys \<Longrightarrow> map f xs = map f ys"
  by (drule arg_cong[where f = "map (\<lambda>d. case d of Jd_str s \<Rightarrow> s | _ \<Rightarrow> [])"]) (simp add: comp_def)

lemma key_not_bare: "stringify (Jd_arr ds) \<noteq> ''null''" "stringify (Jd_arr ds) \<noteq> ''undefined''"
  by auto

lemma equal_keys:
  assumes "condition_value_type v" "condition_value_type w" "canonicalValueKey v = canonicalValueKey w"
  shows "v = w \<or> scalar v \<and> scalar w \<and> js_string v = js_string w"
proof -
  have k: "canonicalValueKey J_null = ''null''" "canonicalValueKey J_undefined = ''undefined''"
    by (simp_all add: canonicalValueKey_def)
  have a: "xs = ys" if "list_all is_text xs" "list_all is_text ys"
      "map (\<lambda>x. Jd_str (js_string x)) xs = map (\<lambda>x. Jd_str (js_string x)) ys" for xs ys
    using texts_eq[OF that(1,2)] Jd_str_map[OF that(3)] by blast
  note facts = k canonicalValueKey_scalar canonicalValueKey_arr key_not_bare key_not_bare[symmetric]
  show ?thesis
    using typed_cases[OF assms(1)] typed_cases[OF assms(2)] assms(3) a
    by (elim disjE exE conjE) (auto simp: facts simp del: stringify.simps dest!: stringify_inj)
qed

definition number_like :: "js_num option \<Rightarrow> js_num option \<Rightarrow> bool" where
  "number_like = rel_option num_eq"

lemma num_eq_refl: "is_finite n \<Longrightarrow> num_eq n n"
  by (cases n) (auto simp: dec_eq_val)

lemma num_eq_sym: "num_eq a b \<Longrightarrow> num_eq b a"
  by (cases a; cases b) (auto simp: dec_eq_val)

lemma num_eq_trans: "num_eq a b \<Longrightarrow> num_eq b c \<Longrightarrow> num_eq a c"
  by (cases a; cases b; cases c) (auto simp: dec_eq_val)

lemma num_eq_less: "num_eq a b \<Longrightarrow> num_less a c = num_less b c \<and> num_less c a = num_less c b"
  by (cases a; cases b; cases c) (auto simp: dec_eq_val dec_less_val)

lemma toFiniteNumber_finite: "toFiniteNumber v = Some n \<Longrightarrow> is_finite n"
  by (auto simp: toFiniteNumber_def Let_def split: js.splits if_splits)

lemma toFiniteNumber_text:
  assumes "scalar v" "condition_value_type v"
  shows "number_like (toFiniteNumber v) (toFiniteNumber (J_str (js_string v)))"
proof (cases v)
  case (J_num n)
  have f: "is_finite n" using assms(2) J_num by (simp add: condition_value_type_def)
  have e: "num_eq (string_num (num_string n)) n"
    using string_num_num_string[of n] f by (auto simp: same_number_def)
  then have "is_finite (string_num (num_string n))" using f by (cases "string_num (num_string n)"; cases n) auto
  with e f J_num show ?thesis
    by (simp add: toFiniteNumber_def number_like_def Let_def num_string_trim num_string_nonempty num_eq_sym)
next
  case (J_bool b)
  have "toFiniteNumber (J_str ''true'') = None" "toFiniteNumber (J_str ''false'') = None" by code_simp+
  with J_bool show ?thesis by (cases b) (simp_all add: number_like_def toFiniteNumber_def[of "J_bool _"])
next
  case (J_str s)
  then show ?thesis
    using toFiniteNumber_finite[of v] by (cases "toFiniteNumber v") (auto simp: number_like_def num_eq_refl)
qed (use assms in \<open>auto simp: scalar_def\<close>)

lemma scalars_number:
  assumes "scalar v" "scalar w" "js_string v = js_string w" "condition_value_type v" "condition_value_type w"
  shows "number_like (toFiniteNumber v) (toFiniteNumber w)"
proof -
  have "number_like (toFiniteNumber v) (toFiniteNumber (J_str (js_string w)))"
    using toFiniteNumber_text[OF assms(1,4)] assms(3) by simp
  moreover have "number_like (toFiniteNumber (J_str (js_string w))) (toFiniteNumber w)"
    using toFiniteNumber_text[OF assms(2,5)] unfolding number_like_def
    by (cases "toFiniteNumber w"; cases "toFiniteNumber (J_str (js_string w))") (auto intro: num_eq_sym)
  ultimately show ?thesis unfolding number_like_def
    by (auto simp: option.rel_sel dest: num_eq_trans intro: num_eq_trans)
qed

lemma number_like_less:
  assumes "number_like p q"
  shows "(case p of None \<Rightarrow> False | Some x \<Rightarrow> num_less x a) = (case q of None \<Rightarrow> False | Some x \<Rightarrow> num_less x a)"
    and "(case p of None \<Rightarrow> False | Some x \<Rightarrow> num_less a x) = (case q of None \<Rightarrow> False | Some x \<Rightarrow> num_less a x)"
  using assms num_eq_less by (cases p; cases q; simp add: number_like_def)+

lemma scalars_condition:
  assumes "scalar v" "scalar w" "js_string v = js_string w" "condition_value_type v" "condition_value_type w"
  shows "evaluateRuleCondition \<lparr>cn_fieldId = f, cn_operator = op, cn_value = v\<rparr> data
    = evaluateRuleCondition \<lparr>cn_fieldId = f, cn_operator = op, cn_value = w\<rparr> data"
proof -
  have n: "\<not> nullish v" "\<not> nullish w" "v \<noteq> J_null" "v \<noteq> J_undefined" "w \<noteq> J_null" "w \<noteq> J_undefined"
    using assms(1,2) by (auto simp: scalar_def nullish_def)
  have l: "as_list v = [v]" "as_list w = [w]"
    using assms(1,2) by (auto simp: as_list_def scalar_def split: js.splits)
  have eq: "isEqualValue a v = isEqualValue a w" for a using n assms(3) by (simp add: isEqualValue_def)
  have inn: "isInValue a v = isInValue a w" for a using n l eq by (simp add: isInValue_def)
  have t: "text_or_empty v = text_or_empty w" using n assms(3) by (simp add: text_or_empty_def)
  note num = number_like_less[OF scalars_number[OF assms]]
  show ?thesis
    unfolding evaluateRuleCondition_def Let_def condition.simps eq inn t
    by (simp add: num cong: option.case_cong)
qed

lemma equal_signatures_evaluate:
  assumes "conditionSetSignature cs logic = conditionSetSignature cs' logic'"
    and "\<forall>c \<in> set cs \<union> set cs'. condition_value_type (cn_value c)"
  shows "evaluateRuleConditions cs logic data = evaluateRuleConditions cs' logic' data"
proof -
  let ?d = "\<lambda>c. Jd_arr [Jd_str (cn_fieldId c), Jd_str (cn_operator c), Jd_str (canonicalValueKey (cn_value c))]"
  have l: "to_upper logic = to_upper logic'" and m: "map ?d cs = map ?d cs'"
    using stringify_inj[OF assms(1)[unfolded conditionSetSignature_def]] by auto
  have "map (\<lambda>c. evaluateRuleCondition c data) cs = map (\<lambda>c. evaluateRuleCondition c data) cs'"
  proof (rule nth_equalityI)
    show len: "length (map (\<lambda>c. evaluateRuleCondition c data) cs) = length (map (\<lambda>c. evaluateRuleCondition c data) cs')"
      using arg_cong[OF m, of length] by simp
    fix i assume i: "i < length (map (\<lambda>c. evaluateRuleCondition c data) cs)"
    let ?a = "cs ! i" and ?b = "cs' ! i"
    have "map ?d cs ! i = map ?d cs' ! i" using m by simp
    then have e: "cn_fieldId ?a = cn_fieldId ?b" "cn_operator ?a = cn_operator ?b"
      "canonicalValueKey (cn_value ?a) = canonicalValueKey (cn_value ?b)" using i len by auto
    have t: "condition_value_type (cn_value ?a)" "condition_value_type (cn_value ?b)" using assms(2) i len by auto
    from equal_keys[OF t e(3)] have "evaluateRuleCondition ?a data = evaluateRuleCondition ?b data"
    proof (elim disjE conjE)
      assume "cn_value ?a = cn_value ?b"
      then show ?thesis using e(1,2) by (simp add: evaluateRuleCondition_def)
    next
      assume s: "scalar (cn_value ?a)" "scalar (cn_value ?b)" "js_string (cn_value ?a) = js_string (cn_value ?b)"
      show ?thesis
        using scalars_condition[OF s t, of "cn_fieldId ?a" "cn_operator ?a" data] e(1,2)
        by (simp add: evaluateRuleCondition_def)
    qed
    then show "map (\<lambda>c. evaluateRuleCondition c data) cs ! i = map (\<lambda>c. evaluateRuleCondition c data) cs' ! i"
      using i len by simp
  qed
  moreover have "cs = [] \<longleftrightarrow> cs' = []" using arg_cong[OF m, of length] by auto
  ultimately show ?thesis unfolding evaluateRuleConditions_def Let_def l by simp
qed

text \<open>
  C23: rules with the same fingerprint select the same registrations: the fingerprint keeps everything the
  evaluator reads, so a rule that was grandfathered because its fingerprint did not change prices every
  form as the stored rule did. The values are the kinds the condition type allows.
\<close>

theorem conditionSetSignature_sound:
  assumes "conditionSetSignature cs logic = conditionSetSignature cs' logic'"
    and "\<forall>c \<in> set cs \<union> set cs'. condition_value_type (cn_value c)"
  shows "evaluateRuleConditions cs logic data = evaluateRuleConditions cs' logic' data"
  using assms by (rule equal_signatures_evaluate)

theorem conditionSetSignature_sound_witness:
  "\<forall>data. evaluateRuleConditions [\<lparr>cn_fieldId = ''age'', cn_operator = ''greater_than'', cn_value = J_num (Js_dec 30 0)\<rparr>] ''AND'' data
    = evaluateRuleConditions [\<lparr>cn_fieldId = ''age'', cn_operator = ''greater_than'', cn_value = J_str ''30''\<rparr>] ''and'' data"
proof (rule allI, rule conditionSetSignature_sound)
  have "num_string (Js_dec 30 0) = ''30''" by code_simp
  moreover have "to_upper ''AND'' = to_upper ''and''" by code_simp
  ultimately show "conditionSetSignature [\<lparr>cn_fieldId = ''age'', cn_operator = ''greater_than'', cn_value = J_num (Js_dec 30 0)\<rparr>] ''AND''
    = conditionSetSignature [\<lparr>cn_fieldId = ''age'', cn_operator = ''greater_than'', cn_value = J_str ''30''\<rparr>] ''and''"
    unfolding conditionSetSignature_def by (simp add: canonicalValueKey_def)
qed (simp add: condition_value_type_def)

end
