(* ===== verification/Visibility.thy ===== *)
theory Visibility
  imports JsValue
begin

text \<open>
  Field visibility (\<open>packages/shared/src/field-visibility.ts\<close>), the form app's lenient evaluator.
  A stored condition value need not be text, so it is a value of any kind and
  \<open>conditionValue.toLowerCase()\<close> of one that is not text throws a TypeError.
\<close>

datatype type_error = TypeError

record field_condition =
  fc_fieldId :: string
  fc_operator :: string
  fc_value :: js

definition lower_of :: "js \<Rightarrow> type_error + string" where
  "lower_of v = (case v of J_str s \<Rightarrow> Inr (to_lower s) | _ \<Rightarrow> Inl TypeError)"

definition isEqual :: "js \<Rightarrow> js \<Rightarrow> type_error + bool" where
  "isEqual fieldValue conditionValue =
    (if nullish fieldValue then
       Inr (conditionValue = J_str [] \<or> conditionValue = J_str ''null'' \<or> conditionValue = J_str ''undefined'')
     else
      (case fieldValue of
         J_arr xs \<Rightarrow> sbind (lower_of conditionValue) (\<lambda>l. Inr (list_ex (\<lambda>v. to_lower (js_string v) = l) xs))
       | J_bool b \<Rightarrow> Inr (b = (conditionValue = J_str ''true''))
       | J_num n \<Rightarrow> Inr (num_eq n (js_number_of conditionValue))
       | v \<Rightarrow> sbind (lower_of conditionValue) (\<lambda>l. Inr (to_lower (js_string v) = l))))"

text \<open>\<open>some\<close> calls \<open>toLowerCase\<close> for each element until one matches, and never for an empty array.\<close>

fun some_contains :: "js list \<Rightarrow> js \<Rightarrow> type_error + bool" where
  "some_contains [] c = Inr False"
| "some_contains (v # vs) c =
    sbind (lower_of c) (\<lambda>l. if is_infix l (to_lower (js_string v)) then Inr True else some_contains vs c)"

definition containsValue :: "js \<Rightarrow> js \<Rightarrow> type_error + bool" where
  "containsValue fieldValue conditionValue =
    (if nullish fieldValue then Inr False
     else
      (case fieldValue of
         J_arr xs \<Rightarrow> some_contains xs conditionValue
       | v \<Rightarrow> sbind (lower_of conditionValue) (\<lambda>l. Inr (is_infix l (to_lower (js_string v))))))"

definition isEmpty :: "js \<Rightarrow> bool" where
  "isEmpty fieldValue =
    (if nullish fieldValue then True
     else (case fieldValue of J_str s \<Rightarrow> trim s = [] | J_arr xs \<Rightarrow> xs = [] | _ \<Rightarrow> False))"

text \<open>
  \<open><\<close> of a text and any value: text against text (an array or object as its text), else as numbers.
  It is reached only when one side is not a number, so the second case is false.
\<close>

definition text_less :: "string \<Rightarrow> js \<Rightarrow> bool" where
  "text_less s v =
    (case v of J_str t \<Rightarrow> s < t | J_arr _ \<Rightarrow> s < js_string v | J_obj _ \<Rightarrow> s < js_string v
     | _ \<Rightarrow> num_less (string_num s) (js_number_of v))"

definition text_greater :: "string \<Rightarrow> js \<Rightarrow> bool" where
  "text_greater s v =
    (case v of J_str t \<Rightarrow> t < s | J_arr _ \<Rightarrow> js_string v < s | J_obj _ \<Rightarrow> js_string v < s
     | _ \<Rightarrow> num_less (js_number_of v) (string_num s))"

definition isGreaterThan :: "js \<Rightarrow> js \<Rightarrow> bool" where
  "isGreaterThan fieldValue conditionValue =
    (let numField = js_number_of fieldValue; numCondition = js_number_of conditionValue
     in if numField = Js_nan \<or> numCondition = Js_nan then
          (case fieldValue of J_str s \<Rightarrow> text_greater s conditionValue | _ \<Rightarrow> False)
        else num_less numCondition numField)"

definition isLessThan :: "js \<Rightarrow> js \<Rightarrow> bool" where
  "isLessThan fieldValue conditionValue =
    (let numField = js_number_of fieldValue; numCondition = js_number_of conditionValue
     in if numField = Js_nan \<or> numCondition = Js_nan then
          (case fieldValue of J_str s \<Rightarrow> text_less s conditionValue | _ \<Rightarrow> False)
        else num_less numField numCondition)"

definition not_of :: "type_error + bool \<Rightarrow> type_error + bool" where
  "not_of r = sbind r (\<lambda>b. Inr (\<not> b))"

definition evaluateOperator :: "string \<Rightarrow> js \<Rightarrow> js \<Rightarrow> type_error + bool" where
  "evaluateOperator operator fieldValue conditionValue =
    (if operator = ''equals'' then isEqual fieldValue conditionValue
     else if operator = ''not_equals'' then not_of (isEqual fieldValue conditionValue)
     else if operator = ''contains'' then containsValue fieldValue conditionValue
     else if operator = ''not_contains'' then not_of (containsValue fieldValue conditionValue)
     else if operator = ''is_empty'' then Inr (isEmpty fieldValue)
     else if operator = ''is_not_empty'' then Inr (\<not> isEmpty fieldValue)
     else if operator = ''greater_than'' then Inr (isGreaterThan fieldValue conditionValue)
     else if operator = ''less_than'' then Inr (isLessThan fieldValue conditionValue)
     else Inr False)"

definition evaluateSingleCondition :: "field_condition \<Rightarrow> form_data \<Rightarrow> type_error + bool" where
  "evaluateSingleCondition c data = evaluateOperator (fc_operator c) (field data (fc_fieldId c)) (fc_value c)"

text \<open>\<open>None\<close> for no conditions or a logic left to its default; only lower-case \<open>and\<close> means AND.\<close>

definition evaluateConditions :: "field_condition list option \<Rightarrow> string option \<Rightarrow> form_data \<Rightarrow> type_error + bool" where
  "evaluateConditions conditions logic data =
    (case conditions of None \<Rightarrow> Inr True
     | Some cs \<Rightarrow>
         if cs = [] then Inr True
         else sbind (smap (\<lambda>c. evaluateSingleCondition c data) cs) (\<lambda>results.
           Inr (if (case logic of None \<Rightarrow> ''and'' | Some l \<Rightarrow> l) = ''and''
             then list_all (\<lambda>r. r) results else list_ex (\<lambda>r. r) results)))"

section \<open>When it throws\<close>

definition needs_text :: "field_condition \<Rightarrow> form_data \<Rightarrow> bool" where
  "needs_text c data =
    (let v = field data (fc_fieldId c); op = fc_operator c
     in if op = ''equals'' \<or> op = ''not_equals''
        then (case v of J_str _ \<Rightarrow> True | J_arr _ \<Rightarrow> True | J_obj _ \<Rightarrow> True | _ \<Rightarrow> False)
        else if op = ''contains'' \<or> op = ''not_contains'' then \<not> nullish v \<and> v \<noteq> J_arr [] else False)"

definition text_value :: "field_condition \<Rightarrow> bool" where
  "text_value c = (case fc_value c of J_str _ \<Rightarrow> True | _ \<Rightarrow> False)"

lemma lower_of_text: "(\<exists>e. lower_of v = Inl e) \<longleftrightarrow> (case v of J_str _ \<Rightarrow> False | _ \<Rightarrow> True)"
  by (cases v) (auto simp: lower_of_def)

lemma sbind_total: "(\<exists>e. sbind m (\<lambda>x. Inr (f x)) = Inl e) \<longleftrightarrow> (\<exists>e. m = Inl e)"
  by (cases m) auto

lemma some_contains_throws: "(\<exists>e. some_contains xs c = Inl e) \<longleftrightarrow> xs \<noteq> [] \<and> (\<exists>e. lower_of c = Inl e)"
proof (induction xs)
  case (Cons x xs)
  then show ?case by (cases "lower_of c") auto
qed simp

lemma isEqual_throws: "(\<exists>e. isEqual v c = Inl e) \<longleftrightarrow>
    (case v of J_str _ \<Rightarrow> True | J_arr _ \<Rightarrow> True | J_obj _ \<Rightarrow> True | _ \<Rightarrow> False) \<and> (\<exists>e. lower_of c = Inl e)"
  by (cases v) (auto simp: isEqual_def nullish_def sbind_total)

lemma containsValue_throws:
  "(\<exists>e. containsValue v c = Inl e) \<longleftrightarrow> \<not> nullish v \<and> v \<noteq> J_arr [] \<and> (\<exists>e. lower_of c = Inl e)"
  by (cases v) (auto simp: containsValue_def nullish_def sbind_total some_contains_throws)

lemma single_throws:
  "(\<exists>e. evaluateSingleCondition c data = Inl e) \<longleftrightarrow> needs_text c data \<and> \<not> text_value c"
proof -
  have t: "(\<exists>e. lower_of (fc_value c) = Inl e) \<longleftrightarrow> \<not> text_value c"
    by (simp add: lower_of_text text_value_def split: js.split)
  show ?thesis
    unfolding evaluateSingleCondition_def evaluateOperator_def needs_text_def Let_def not_of_def
    by (auto simp: sbind_total isEqual_throws containsValue_throws t)
qed

lemma smap_throws: "(\<exists>e. smap f xs = Inl e) \<longleftrightarrow> (\<exists>x \<in> set xs. \<exists>e. f x = Inl e)"
proof (induction xs)
  case (Cons x xs)
  then show ?case by (cases "f x"; cases "smap f xs") auto
qed simp

text \<open>
  Deciding a field's visibility throws exactly when some condition's value is not text and the field
  it reads holds a value the comparison turns to lower case: a text, a list or an object for
  \<open>equals\<close> and \<open>not_equals\<close>, any present value but the empty list for \<open>contains\<close> and \<open>not_contains\<close>.
\<close>

theorem evaluateConditions_throws:
  "(\<exists>e. evaluateConditions (Some cs) logic data = Inl e) = (\<exists>c \<in> set cs. needs_text c data \<and> \<not> text_value c)"
proof (cases "cs = []")
  case False
  then have "(\<exists>e. evaluateConditions (Some cs) logic data = Inl e)
      = (\<exists>e. smap (\<lambda>c. evaluateSingleCondition c data) cs = Inl e)"
    by (simp add: evaluateConditions_def sbind_total)
  then show ?thesis by (simp add: smap_throws single_throws)
qed (simp add: evaluateConditions_def)

end
