(* ===== verification/FormData.thy ===== *)
theory FormData
  imports Visibility Money
begin

text \<open>
  Form answers (\<open>packages/shared/src/form-data-validator.ts\<close>): which fields are shown, how each answer
  is checked and coerced, and what is stored. The schemas the code builds with zod are their accept
  functions: a parse gives the coerced answer or fails (\<open>None\<close>); the wording of issues is left out.
  The environment supplies zod's email test, the patterns (with \<open>isSafePattern\<close>) and \<open>Date\<close> parsing.
\<close>

section \<open>Form schemas\<close>

datatype field_type =
  Ft_text | Ft_firstName | Ft_lastName | Ft_email | Ft_phone | Ft_number | Ft_textarea | Ft_dropdown
| Ft_radio | Ft_checkbox | Ft_date | Ft_file | Ft_heading | Ft_paragraph | Ft_governorate | Ft_country

record field_validation =
  fv_required :: bool
  fv_minLength :: "nat option"
  fv_maxLength :: "nat option"
  fv_min :: "js_num option"
  fv_max :: "js_num option"
  fv_pattern :: "string option"
  fv_fileTypes :: "string list option"
  fv_maxFileSize :: "js_num option"
  fv_minValue :: "js_num option"
  fv_maxValue :: "js_num option"
  fv_minDate :: "string option"
  fv_maxDate :: "string option"
  fv_acceptedFileTypes :: "string list option"
  fv_minSelections :: "nat option"
  fv_maxSelections :: "nat option"

record form_option =
  fo_id :: string
  fo_label :: "string option"
  fo_priceModifier :: "js_number option"

record form_field =
  ff_id :: string
  ff_label :: "string option"
  ff_type :: field_type
  ff_required :: bool
  ff_options :: "form_option list"  \<comment> \<open>empty when absent\<close>
  ff_validation :: "field_validation option"
  ff_conditions :: "field_condition list option"
  ff_conditionLogic :: "string option"

definition option_ids :: "form_field \<Rightarrow> string list" where
  "option_ids f = map fo_id (ff_options f)"

text \<open>A step's fields, \<open>None\<close> when they are not a list; a schema's step lists likewise.\<close>

record form_schema =
  fs_steps :: "form_field list option list option"
  fs_sponsorSteps :: "form_field list option list option"
  fs_beneficiarySteps :: "form_field list option list option"
  fs_accessSelectionRequired :: "bool option"  \<comment> \<open>of \<open>settings\<close>\<close>

record form_env =
  fe_email :: "string \<Rightarrow> bool"
  fe_pattern :: "string \<Rightarrow> (string \<Rightarrow> bool) option"  \<comment> \<open>none for an unsafe pattern\<close>
  fe_date :: "string \<Rightarrow> int option"

definition extractSchemaSteps :: "form_schema option \<Rightarrow> form_field list option list option" where
  "extractSchemaSteps schema =
    (case schema of None \<Rightarrow> None
     | Some s \<Rightarrow>
         (case fs_steps s of Some steps \<Rightarrow> Some steps
          | None \<Rightarrow>
              (let sponsor = (case fs_sponsorSteps s of None \<Rightarrow> [] | Some xs \<Rightarrow> xs);
                   beneficiary = (case fs_beneficiarySteps s of None \<Rightarrow> [] | Some xs \<Rightarrow> xs)
               in if sponsor \<noteq> [] \<or> beneficiary \<noteq> [] then Some (sponsor @ beneficiary) else None)))"

definition extractSchemaFields :: "form_schema option \<Rightarrow> form_field list option" where
  "extractSchemaFields schema =
    map_option (\<lambda>steps. concat (map (\<lambda>st. case st of None \<Rightarrow> [] | Some fs \<Rightarrow> fs) steps)) (extractSchemaSteps schema)"

definition isDisplayOnly :: "form_field \<Rightarrow> bool" where
  "isDisplayOnly f \<longleftrightarrow> ff_type f = Ft_heading \<or> ff_type f = Ft_paragraph"

definition isFieldVisible :: "form_field \<Rightarrow> form_data \<Rightarrow> type_error + bool" where
  "isFieldVisible f data = evaluateConditions (ff_conditions f) (ff_conditionLogic f) data"

definition isBlankAnswer :: "js \<Rightarrow> bool" where
  "isBlankAnswer v \<longleftrightarrow> v = J_undefined \<or> v = J_null \<or> v = J_str [] \<or> v = J_arr []"

section \<open>Field schemas\<close>

text \<open>\<open>schema.optional().or(z.literal(""))\<close>.\<close>

definition optional_or_blank :: "(js \<Rightarrow> js option) \<Rightarrow> js \<Rightarrow> js option" where
  "optional_or_blank schema v =
    (if v = J_undefined then Some J_undefined
     else case schema v of Some r \<Rightarrow> Some r | None \<Rightarrow> if v = J_str [] then Some v else None)"

definition on_text :: "(string \<Rightarrow> string option) \<Rightarrow> js \<Rightarrow> js option" where
  "on_text p v = (case v of J_str s \<Rightarrow> map_option J_str (p s) | _ \<Rightarrow> None)"

text \<open>A length bound of 0 is falsy and sets none.\<close>

definition length_ok :: "nat option \<Rightarrow> nat option \<Rightarrow> string \<Rightarrow> bool" where
  "length_ok lo hi s \<longleftrightarrow>
    (case lo of None \<Rightarrow> True | Some n \<Rightarrow> n = 0 \<or> n \<le> length s)
    \<and> (case hi of None \<Rightarrow> True | Some n \<Rightarrow> n = 0 \<or> length s \<le> n)"

definition withSafePattern :: "form_env \<Rightarrow> string option \<Rightarrow> string \<Rightarrow> bool" where
  "withSafePattern env pattern s =
    (case pattern of None \<Rightarrow> True
     | Some p \<Rightarrow> p = [] \<or> (case fe_pattern env p of None \<Rightarrow> True | Some test \<Rightarrow> test s))"

definition no_validation :: field_validation where
  "no_validation = \<lparr>fv_required = False, fv_minLength = None, fv_maxLength = None, fv_min = None, fv_max = None,
     fv_pattern = None, fv_fileTypes = None, fv_maxFileSize = None, fv_minValue = None, fv_maxValue = None,
     fv_minDate = None, fv_maxDate = None, fv_acceptedFileTypes = None, fv_minSelections = None, fv_maxSelections = None\<rparr>"

definition buildTextSchema :: "form_env \<Rightarrow> field_validation \<Rightarrow> js \<Rightarrow> js option" where
  "buildTextSchema env vd =
    (let core = (\<lambda>s. let t = trim s in
           if length_ok (fv_minLength vd) (fv_maxLength vd) t \<and> withSafePattern env (fv_pattern vd) t then Some t else None)
     in if fv_required vd
        then on_text (\<lambda>s. case core s of None \<Rightarrow> None | Some t \<Rightarrow> if 1 \<le> length t then Some t else None)
        else optional_or_blank (on_text core))"

definition buildEmailSchema :: "form_env \<Rightarrow> field_validation \<Rightarrow> js \<Rightarrow> js option" where
  "buildEmailSchema env vd =
    (let schema = on_text (\<lambda>s. if fe_email env s \<and> length_ok (fv_minLength vd) (fv_maxLength vd) s then Some s else None)
     in if fv_required vd then schema else optional_or_blank schema)"

definition MIN_PHONE_LENGTH :: nat where
  "MIN_PHONE_LENGTH = 8"

definition buildPhoneSchema :: "form_env \<Rightarrow> field_validation \<Rightarrow> js \<Rightarrow> js option" where
  "buildPhoneSchema env vd =
    (let minLen = (case fv_minLength vd of None \<Rightarrow> MIN_PHONE_LENGTH | Some n \<Rightarrow> n);
         schema = on_text (\<lambda>s. if minLen \<le> length s \<and> length_ok None (fv_maxLength vd) s
           \<and> withSafePattern env (fv_pattern vd) s then Some s else None)
     in if fv_required vd then schema else optional_or_blank schema)"

text \<open>\<open>/^[+-]?(?:\d+|\d*\.\d+)$/\<close>.\<close>

definition is_plain_numeral :: "string \<Rightarrow> bool" where
  "is_plain_numeral s =
    (let u = (case s of c # r \<Rightarrow> if c = CHR ''+'' \<or> c = CHR ''-'' then r else s | [] \<Rightarrow> s);
         ip = takeWhile is_digit u
     in case dropWhile is_digit u of
          [] \<Rightarrow> ip \<noteq> []
        | c # fp \<Rightarrow> c = CHR ''.'' \<and> fp \<noteq> [] \<and> list_all is_digit fp)"

definition parseNumberInput :: "js \<Rightarrow> js" where
  "parseNumberInput v =
    (case v of
       J_null \<Rightarrow> J_undefined | J_undefined \<Rightarrow> J_undefined | J_num n \<Rightarrow> J_num n
     | J_str s \<Rightarrow>
         (let t = trim s
          in if t = [] then J_undefined
             else if \<not> is_plain_numeral t then v
             else (let n = string_num t in if is_finite n then J_num n else v))
     | _ \<Rightarrow> v)"

definition first_of :: "'a option \<Rightarrow> 'a option \<Rightarrow> 'a option" where
  "first_of a b = (case a of None \<Rightarrow> b | Some x \<Rightarrow> Some x)"

definition number_in :: "js_num option \<Rightarrow> js_num option \<Rightarrow> js \<Rightarrow> js option" where
  "number_in lo hi v =
    (case v of
       J_num n \<Rightarrow>
         if is_finite n
           \<and> (case lo of None \<Rightarrow> True | Some m \<Rightarrow> num_ge n m)
           \<and> (case hi of None \<Rightarrow> True | Some m \<Rightarrow> num_ge m n)
         then Some v else None
     | _ \<Rightarrow> None)"

definition buildNumberSchema :: "field_validation \<Rightarrow> js \<Rightarrow> js option" where
  "buildNumberSchema vd v =
    (let schema = number_in (first_of (fv_min vd) (fv_minValue vd)) (first_of (fv_max vd) (fv_maxValue vd));
         p = parseNumberInput v
     in if fv_required vd then schema p else if p = J_undefined then Some J_undefined else schema p)"

text \<open>An empty \<open>minDate\<close> or \<open>maxDate\<close> is falsy and sets no bound.\<close>

definition date_ok :: "form_env \<Rightarrow> field_validation \<Rightarrow> string \<Rightarrow> bool" where
  "date_ok env vd s \<longleftrightarrow>
     (s = [] \<or> fe_date env s \<noteq> None)
   \<and> (case fv_minDate vd of None \<Rightarrow> True | Some m \<Rightarrow> m = [] \<or>
       (case fe_date env s of None \<Rightarrow> False | Some d \<Rightarrow> (case fe_date env m of None \<Rightarrow> True | Some x \<Rightarrow> x \<le> d)))
   \<and> (case fv_maxDate vd of None \<Rightarrow> True | Some m \<Rightarrow> m = [] \<or>
       (case fe_date env s of None \<Rightarrow> False | Some d \<Rightarrow> (case fe_date env m of None \<Rightarrow> True | Some x \<Rightarrow> d \<le> x)))"

definition buildDateSchema :: "form_env \<Rightarrow> field_validation \<Rightarrow> js \<Rightarrow> js option" where
  "buildDateSchema env vd =
    (if fv_required vd
     then on_text (\<lambda>s. if date_ok env vd s \<and> 1 \<le> length (trim s) then Some (trim s) else None)
     else optional_or_blank (on_text (\<lambda>s. if date_ok env vd s then Some s else None)))"

definition buildDropdownSchema :: "form_field \<Rightarrow> field_validation \<Rightarrow> js \<Rightarrow> js option" where
  "buildDropdownSchema f vd =
    (if option_ids f \<noteq> [] then
      (let schema = on_text (\<lambda>s. if s \<in> set (option_ids f) then Some s else None)
       in if fv_required vd then schema else optional_or_blank schema)
     else if fv_required vd then on_text (\<lambda>s. if 1 \<le> length s then Some s else None)
     else optional_or_blank (on_text Some))"

definition toArrayOr :: "js \<Rightarrow> js \<Rightarrow> js" where
  "toArrayOr blank v =
    (if v = J_undefined \<or> v = J_str [] \<or> v = J_null then blank
     else case v of J_arr _ \<Rightarrow> v | _ \<Rightarrow> J_arr [v])"

definition checkbox_list :: "string list \<Rightarrow> nat option \<Rightarrow> nat option \<Rightarrow> js \<Rightarrow> js option" where
  "checkbox_list options lo hi v =
    (case v of
       J_arr xs \<Rightarrow>
         if list_all (\<lambda>x. case x of J_str s \<Rightarrow> options = [] \<or> s \<in> set options | _ \<Rightarrow> False) xs
           \<and> (case lo of None \<Rightarrow> True | Some n \<Rightarrow> n \<le> length xs)
           \<and> (case hi of None \<Rightarrow> True | Some n \<Rightarrow> length xs \<le> n)
         then Some v else None
     | _ \<Rightarrow> None)"

definition buildCheckboxSchema :: "form_field \<Rightarrow> field_validation \<Rightarrow> js \<Rightarrow> js option" where
  "buildCheckboxSchema f vd v =
    (let lo = (if fv_required vd then Some (max 1 (case fv_minSelections vd of None \<Rightarrow> 1 | Some n \<Rightarrow> n))
           else fv_minSelections vd);
         schema = checkbox_list (option_ids f) lo (fv_maxSelections vd)
     in if fv_required vd \<or> fv_minSelections vd \<noteq> None then schema (toArrayOr (J_arr []) v)
        else (let p = toArrayOr J_undefined v in if p = J_undefined then Some (J_arr []) else schema p))"

definition normalizeFileType :: "string \<Rightarrow> string" where
  "normalizeFileType s =
    (let t = to_lower (trim s) in case t of c # r \<Rightarrow> if c = CHR ''.'' then r else t | [] \<Rightarrow> t)"

definition ends_with :: "string \<Rightarrow> string \<Rightarrow> bool" where
  "ends_with p s \<longleftrightarrow> starts_with (rev p) (rev s)"

definition isAllowedFileType :: "string list option \<Rightarrow> string \<Rightarrow> string \<Rightarrow> bool" where
  "isAllowedFileType allowed name ty =
    (case allowed of None \<Rightarrow> True
     | Some types \<Rightarrow> types = [] \<or>
        (let ext = to_lower (rev (takeWhile (\<lambda>c. c \<noteq> CHR ''.'') (rev name))); mime = to_lower (trim ty)
         in list_ex (\<lambda>a. let n = normalizeFileType a in
              if ends_with ''/*'' n then starts_with (butlast n) mime
              else if is_infix ''/'' n then mime = n else ext = n) types))"

text \<open>zod keeps the four known keys and drops the others; a zero \<open>maxFileSize\<close> sets no bound.\<close>

definition buildFileSchema :: "field_validation \<Rightarrow> js \<Rightarrow> js option" where
  "buildFileSchema vd v =
    (let schema = (\<lambda>v. case v of
           J_obj kvs \<Rightarrow>
             (case field kvs ''name'' of
                J_str name \<Rightarrow> (case field kvs ''size'' of
                  J_num sz \<Rightarrow> (case field kvs ''type'' of
                    J_str ty \<Rightarrow>
                     (let url = field kvs ''url''
                      in if is_finite sz \<and> (url = J_undefined \<or> (case url of J_str _ \<Rightarrow> True | _ \<Rightarrow> False))
                        \<and> (case fv_maxFileSize vd of None \<Rightarrow> True
                           | Some m \<Rightarrow> num_eq m (Js_dec 0 0) \<or> m = Js_nan \<or> \<not> num_less m sz)
                        \<and> isAllowedFileType (first_of (fv_fileTypes vd) (fv_acceptedFileTypes vd)) name ty
                      then Some (J_obj ([(''name'', J_str name), (''size'', J_num sz), (''type'', J_str ty)]
                        @ (if ''url'' \<in> fst ` set kvs then [(''url'', url)] else [])))
                      else None)
                  | _ \<Rightarrow> None)
                | _ \<Rightarrow> None)
              | _ \<Rightarrow> None)
         | _ \<Rightarrow> None)
     in if fv_required vd then schema v
        else if v = J_undefined \<or> v = J_null then Some v else schema v)"

text \<open>The schema of a field, \<open>None\<close> for a display-only one.\<close>

definition buildFieldSchema :: "form_env \<Rightarrow> form_field \<Rightarrow> bool \<Rightarrow> (js \<Rightarrow> js option) option" where
  "buildFieldSchema env f enforceRequired =
    (let isRequired = enforceRequired
           \<and> ((case ff_validation f of None \<Rightarrow> False | Some vd \<Rightarrow> fv_required vd) \<or> ff_required f);
         vd = (case ff_validation f of Some vd \<Rightarrow> vd\<lparr>fv_required := isRequired\<rparr>
           | None \<Rightarrow> no_validation\<lparr>fv_required := isRequired\<rparr>)
     in case ff_type f of
          Ft_text \<Rightarrow> Some (buildTextSchema env vd) | Ft_firstName \<Rightarrow> Some (buildTextSchema env vd)
        | Ft_lastName \<Rightarrow> Some (buildTextSchema env vd) | Ft_textarea \<Rightarrow> Some (buildTextSchema env vd)
        | Ft_email \<Rightarrow> Some (buildEmailSchema env vd) | Ft_phone \<Rightarrow> Some (buildPhoneSchema env vd)
        | Ft_number \<Rightarrow> Some (buildNumberSchema vd) | Ft_date \<Rightarrow> Some (buildDateSchema env vd)
        | Ft_dropdown \<Rightarrow> Some (buildDropdownSchema f vd) | Ft_radio \<Rightarrow> Some (buildDropdownSchema f vd)
        | Ft_governorate \<Rightarrow> Some (buildDropdownSchema f vd) | Ft_country \<Rightarrow> Some (buildDropdownSchema f vd)
        | Ft_checkbox \<Rightarrow> Some (buildCheckboxSchema f vd) | Ft_file \<Rightarrow> Some (buildFileSchema vd)
        | Ft_heading \<Rightarrow> None | Ft_paragraph \<Rightarrow> None)"

section \<open>Validation\<close>

datatype field_error = Invalid_schema | Invalid_condition string | Invalid_answer string

type_synonym answers = "(string \<times> js) list"

text \<open>One field of the loop: the errors and the answers so far.\<close>

definition validate_field ::
  "form_env \<Rightarrow> bool \<Rightarrow> form_data \<Rightarrow> form_field \<Rightarrow> field_error list \<times> answers \<Rightarrow> field_error list \<times> answers" where
  "validate_field env enforceRequired data f acc =
    (if isDisplayOnly f then acc
     else case isFieldVisible f data of
       Inl _ \<Rightarrow> (fst acc @ [Invalid_condition (ff_id f)], snd acc)
     | Inr visible \<Rightarrow>
         if \<not> visible then acc
         else
          (let v = field data (ff_id f)
           in if \<not> enforceRequired \<and> isBlankAnswer v
              then (if v \<noteq> J_undefined then (fst acc, AList.update (ff_id f) v (snd acc)) else acc)
              else case buildFieldSchema env f enforceRequired of
                None \<Rightarrow> acc
              | Some schema \<Rightarrow>
                  (case schema v of
                     None \<Rightarrow> (fst acc @ [Invalid_answer (ff_id f)], snd acc)
                   | Some d \<Rightarrow> (fst acc, AList.update (ff_id f) d (snd acc)))))"

definition validateFormData :: "form_env \<Rightarrow> form_schema option \<Rightarrow> form_data \<Rightarrow> bool option \<Rightarrow> field_error list + answers" where
  "validateFormData env schema data enforce =
    (case extractSchemaFields schema of None \<Rightarrow> Inl [Invalid_schema]
     | Some allFields \<Rightarrow>
         (case fold (validate_field env (case enforce of None \<Rightarrow> True | Some b \<Rightarrow> b) data) allFields ([], []) of
            (errors, d) \<Rightarrow> if errors = [] then Inr d else Inl errors))"

definition parse_with :: "(js \<Rightarrow> js option) option \<Rightarrow> js \<Rightarrow> js option" where
  "parse_with schema v = (case schema of None \<Rightarrow> None | Some p \<Rightarrow> p v)"

definition visible_answer :: "form_env \<Rightarrow> form_data \<Rightarrow> form_field \<Rightarrow> answers \<Rightarrow> answers" where
  "visible_answer env data f acc =
    (if isDisplayOnly f then acc
     else case isFieldVisible f data of
       Inl _ \<Rightarrow> acc
     | Inr visible \<Rightarrow>
         if \<not> visible then acc
         else
          (let v = field data (ff_id f)
           in case parse_with (buildFieldSchema env f True) v of
                Some d \<Rightarrow> AList.update (ff_id f) d acc
              | None \<Rightarrow> AList.update (ff_id f)
                  (case parse_with (buildFieldSchema env f False) v of Some d \<Rightarrow> d | None \<Rightarrow> v) acc))"

definition visibleFormAnswers :: "form_env \<Rightarrow> form_schema option \<Rightarrow> form_data \<Rightarrow> answers" where
  "visibleFormAnswers env schema data =
    (case extractSchemaFields schema of None \<Rightarrow> [] | Some allFields \<Rightarrow> fold (visible_answer env data) allFields [])"

definition sanitizeFormData :: "form_schema option \<Rightarrow> form_data \<Rightarrow> form_data" where
  "sanitizeFormData schema data =
    (case extractSchemaFields schema of None \<Rightarrow> []
     | Some allFields \<Rightarrow> filter (\<lambda>(k, v). k \<in> ff_id ` set allFields) data)"

section \<open>Stored answers\<close>

text \<open>The environment documents that the empty text is no email address.\<close>

lemma validate_field_keeps_errors: "fst acc \<noteq> [] \<Longrightarrow> fst (validate_field env b data f acc) \<noteq> []"
  by (auto simp: validate_field_def Let_def split: sum.split option.split)

lemma fold_validate_errors: "fst acc \<noteq> [] \<Longrightarrow> fst (fold (validate_field env b data) fs acc) \<noteq> []"
proof (induction fs arbitrary: acc)
  case (Cons f fs)
  from Cons.IH[OF validate_field_keeps_errors[OF Cons.prems]] show ?case by simp
qed simp

lemma buildFieldSchema_exists: "\<not> isDisplayOnly f \<Longrightarrow> \<exists>p. buildFieldSchema env f b = Some p"
  unfolding buildFieldSchema_def isDisplayOnly_def Let_def by (cases "ff_type f") simp_all

lemma validate_field_answer:
  assumes "fst (validate_field env True data f acc) = []"
  shows "fst acc = [] \<and> snd (validate_field env True data f acc) = visible_answer env data f (snd acc)"
proof (cases "isDisplayOnly f")
  case True
  with assms show ?thesis by (simp add: validate_field_def visible_answer_def)
next
  case False
  then obtain p where p: "buildFieldSchema env f True = Some p" using buildFieldSchema_exists by blast
  have e: "fst acc = []" using assms validate_field_keeps_errors by blast
  show ?thesis
  proof (cases "isFieldVisible f data")
    case (Inl err)
    with assms False show ?thesis by (simp add: validate_field_def)
  next
    case (Inr vis)
    with assms False p e show ?thesis
      by (cases "p (field data (ff_id f))") (auto simp: validate_field_def visible_answer_def parse_with_def)
  qed
qed

lemma fold_validate_answers:
  assumes "fst (fold (validate_field env True data) fs acc) = []"
  shows "snd (fold (validate_field env True data) fs acc) = fold (visible_answer env data) fs (snd acc)"
  using assms
proof (induction fs arbitrary: acc)
  case (Cons f fs)
  then have "fst (validate_field env True data f acc) = []"
    using fold_validate_errors[of "validate_field env True data f acc" env True data fs] by auto
  with Cons validate_field_answer show ?case by simp
qed simp

lemma fold_update_keys:
  assumes "\<And>f acc. fst ` set (g f acc) \<subseteq> fst ` set acc \<union> K f"
  shows "fst ` set (fold g fs acc) \<subseteq> fst ` set acc \<union> (\<Union>f \<in> set fs. K f)"
proof (induction fs arbitrary: acc)
  case (Cons f fs)
  from Cons.IH[of "g f acc"] assms[of f acc] show ?case by simp blast
qed simp

definition shown :: "form_data \<Rightarrow> form_field \<Rightarrow> bool" where
  "shown data f \<longleftrightarrow> \<not> isDisplayOnly f \<and> isFieldVisible f data = Inr True"

lemma visible_answer_shape:
  "visible_answer env data f acc = acc \<or> shown data f \<and> (\<exists>d. visible_answer env data f acc = AList.update (ff_id f) d acc)"
  by (auto simp: visible_answer_def shown_def Let_def split: sum.split option.split)

lemma visible_answer_keys: "fst ` set (visible_answer env data f acc) \<subseteq> fst ` set acc \<union> (if shown data f then {ff_id f} else {})"
  using visible_answer_shape[of env data f acc]
proof (elim disjE conjE exE)
  fix d assume "shown data f" and e: "visible_answer env data f acc = AList.update (ff_id f) d acc"
  then show ?thesis unfolding e dom_update by auto
qed auto

text \<open>
  C18: for any answers the public form accepts, the answers conditions see at lookup are exactly the ones
  that are stored: the same fields, hidden and display-only ones left out, with the same coerced values.
\<close>

theorem visibleFormAnswers_stored:
  assumes "validateFormData env schema data None = Inr stored"
  shows "visibleFormAnswers env schema data = stored
    \<and> (\<forall>k \<in> fst ` set stored. \<exists>fs f. extractSchemaFields schema = Some fs \<and> f \<in> set fs \<and> ff_id f = k \<and> shown data f)"
proof -
  obtain fs where fs: "extractSchemaFields schema = Some fs"
    and r: "fold (validate_field env True data) fs ([], []) = ([], stored)"
    using assms by (auto simp: validateFormData_def split: option.splits prod.splits if_splits)
  have eq: "visibleFormAnswers env schema data = stored"
    using fold_validate_answers[of env data fs "([], [])"] r by (simp add: visibleFormAnswers_def fs)
  have sub: "fst ` set stored \<subseteq> (\<Union>f \<in> set fs. if shown data f then {ff_id f} else {})"
    using fold_update_keys[of "visible_answer env data" "\<lambda>f. if shown data f then {ff_id f} else {}" fs "[]", OF visible_answer_keys]
      eq fs by (simp add: visibleFormAnswers_def)
  have "\<exists>f \<in> set fs. ff_id f = k \<and> shown data f" if "k \<in> fst ` set stored" for k
    using subsetD[OF sub that] by (auto split: if_split_asm)
  with eq fs show ?thesis by auto
qed

text \<open>A page with a text, a country that decides whether a phone is asked, and a heading.\<close>

definition demo_field :: "string \<Rightarrow> field_type \<Rightarrow> bool \<Rightarrow> form_field" where
  "demo_field i ty req = \<lparr>ff_id = i, ff_label = None, ff_type = ty, ff_required = req, ff_options = [], ff_validation = None,
     ff_conditions = None, ff_conditionLogic = None\<rparr>"

definition demo_form :: form_schema where
  "demo_form = \<lparr>fs_steps = Some [Some
     [demo_field ''name'' Ft_text True, demo_field ''intro'' Ft_heading False,
      (demo_field ''phone'' Ft_phone True)\<lparr>ff_conditions :=
        Some [\<lparr>fc_fieldId = ''name'', fc_operator = ''equals'', fc_value = J_str ''x''\<rparr>]\<rparr>]],
     fs_sponsorSteps = None, fs_beneficiarySteps = None, fs_accessSelectionRequired = None\<rparr>"

definition demo_env :: form_env where
  "demo_env = \<lparr>fe_email = (\<lambda>s. s \<noteq> [] \<and> CHR ''@'' \<in> set s), fe_pattern = (\<lambda>p. None), fe_date = (\<lambda>s. None)\<rparr>"

lemma demo_accepted: "validateFormData demo_env (Some demo_form) [(''name'', J_str '' Ana '')] None
    = Inr [(''name'', J_str ''Ana'')]"
  by code_simp

theorem visibleFormAnswers_stored_witness:
  "visibleFormAnswers demo_env (Some demo_form) [(''name'', J_str '' Ana '')] = [(''name'', J_str ''Ana'')]"
  using visibleFormAnswers_stored[OF demo_accepted] by blast

section \<open>Required answers\<close>

definition required_field :: "form_field \<Rightarrow> bool" where
  "required_field f \<longleftrightarrow> (case ff_validation f of None \<Rightarrow> False | Some vd \<Rightarrow> fv_required vd) \<or> ff_required f"

text \<open>
  What the form designer must not have set up: an option whose id is the empty text, or a phone
  whose least length is 0 (the one bound that is not read as "none").
\<close>

definition no_blank_choice :: "form_field \<Rightarrow> bool" where
  "no_blank_choice f \<longleftrightarrow> [] \<notin> set (option_ids f)
     \<and> (ff_type f = Ft_phone \<longrightarrow> (case ff_validation f of None \<Rightarrow> True | Some vd \<Rightarrow> fv_minLength vd \<noteq> Some 0))"

lemma on_text_Some: "on_text p v = Some d \<longleftrightarrow> (\<exists>s t. v = J_str s \<and> p s = Some t \<and> d = J_str t)"
  by (cases v) (auto simp: on_text_def)

lemma text_filled: "fv_required vd \<Longrightarrow> buildTextSchema env vd v = Some d \<Longrightarrow> \<not> isBlankAnswer d"
  by (auto simp: buildTextSchema_def Let_def on_text_Some isBlankAnswer_def split: option.splits if_splits)

lemma email_filled: "fv_required vd \<Longrightarrow> \<not> fe_email env [] \<Longrightarrow> buildEmailSchema env vd v = Some d \<Longrightarrow> \<not> isBlankAnswer d"
  by (auto simp: buildEmailSchema_def Let_def on_text_Some isBlankAnswer_def split: if_splits)

lemma phone_filled:
  "fv_required vd \<Longrightarrow> fv_minLength vd \<noteq> Some 0 \<Longrightarrow> buildPhoneSchema env vd v = Some d \<Longrightarrow> \<not> isBlankAnswer d"
  by (auto simp: buildPhoneSchema_def Let_def on_text_Some isBlankAnswer_def MIN_PHONE_LENGTH_def split: option.splits if_splits)

lemma number_filled: "fv_required vd \<Longrightarrow> buildNumberSchema vd v = Some d \<Longrightarrow> \<not> isBlankAnswer d"
  by (auto simp: buildNumberSchema_def Let_def number_in_def isBlankAnswer_def split: js.splits if_splits)

lemma date_filled: "fv_required vd \<Longrightarrow> buildDateSchema env vd v = Some d \<Longrightarrow> \<not> isBlankAnswer d"
  by (auto simp: buildDateSchema_def on_text_Some isBlankAnswer_def split: if_splits)

lemma dropdown_filled:
  "fv_required vd \<Longrightarrow> [] \<notin> set (option_ids f) \<Longrightarrow> buildDropdownSchema f vd v = Some d \<Longrightarrow> \<not> isBlankAnswer d"
  by (auto simp: buildDropdownSchema_def Let_def on_text_Some isBlankAnswer_def split: if_splits)

lemma checkbox_list_filled: "checkbox_list opts (Some n) hi v = Some d \<Longrightarrow> 1 \<le> n \<Longrightarrow> \<not> isBlankAnswer d"
  by (cases v) (auto simp: checkbox_list_def isBlankAnswer_def split: if_splits)

lemma checkbox_filled: "fv_required vd \<Longrightarrow> buildCheckboxSchema f vd v = Some d \<Longrightarrow> \<not> isBlankAnswer d"
  unfolding buildCheckboxSchema_def Let_def by (auto intro: checkbox_list_filled dest: checkbox_list_filled)

lemma file_filled: "fv_required vd \<Longrightarrow> buildFileSchema vd v = Some d \<Longrightarrow> \<not> isBlankAnswer d"
  by (auto simp: buildFileSchema_def Let_def isBlankAnswer_def split: js.splits if_splits)

lemmas schema_filled = text_filled email_filled phone_filled number_filled date_filled dropdown_filled
  checkbox_filled file_filled

lemma required_filled:
  assumes "required_field f" "no_blank_choice f" "\<not> fe_email env []"
    "buildFieldSchema env f True = Some p" "p v = Some d"
  shows "\<not> isBlankAnswer d"
proof -
  let ?vd = "(case ff_validation f of Some vd \<Rightarrow> vd | None \<Rightarrow> no_validation)\<lparr>fv_required := True\<rparr>"
  have vd: "(case ff_validation f of Some vd \<Rightarrow> vd\<lparr>fv_required := True\<rparr>
      | None \<Rightarrow> no_validation\<lparr>fv_required := True\<rparr>) = ?vd"
    by (simp split: option.split)
  have r: "((case ff_validation f of None \<Rightarrow> False | Some vd \<Rightarrow> fv_required vd) \<or> ff_required f) = True"
    using assms(1) by (simp add: required_field_def)
  have req: "fv_required ?vd" by simp
  have ph: "ff_type f = Ft_phone \<Longrightarrow> fv_minLength ?vd \<noteq> Some 0"
    using assms(2) by (auto simp: no_blank_choice_def no_validation_def split: option.splits)
  have op: "[] \<notin> set (option_ids f)" using assms(2) by (simp add: no_blank_choice_def)
  from assms(4) show ?thesis
    unfolding buildFieldSchema_def Let_def r simp_thms vd
    by (cases "ff_type f") (use assms(3,5) op ph schema_filled[OF req] in auto)
qed

lemma fold_visible_other:
  "k \<notin> ff_id ` set fs \<Longrightarrow> map_of (fold (visible_answer env data) fs acc) k = map_of acc k"
proof (induction fs arbitrary: acc)
  case (Cons f fs)
  have "map_of (visible_answer env data f acc) k = map_of acc k"
    using visible_answer_shape[of env data f acc] Cons.prems by (auto simp: update_conv)
  with Cons show ?case by simp
qed simp

lemma validated_parse:
  assumes "fst (validate_field env True data f acc) = []" "shown data f"
  shows "\<exists>p d. buildFieldSchema env f True = Some p \<and> p (field data (ff_id f)) = Some d
    \<and> snd (validate_field env True data f acc) = AList.update (ff_id f) d (snd acc)"
proof -
  have nd: "\<not> isDisplayOnly f" and v: "isFieldVisible f data = Inr True" using assms(2) by (auto simp: shown_def)
  obtain p where p: "buildFieldSchema env f True = Some p" using buildFieldSchema_exists[OF nd] by blast
  with assms(1) nd v show ?thesis by (cases "p (field data (ff_id f))") (auto simp: validate_field_def)
qed

text \<open>
  C19: a form the public page accepts has an answer to every required question it showed: the stored
  answer of a shown required field is never missing, null, the empty text or the empty list. Field ids
  are distinct, no option id is empty, no phone has a least length of 0, and zod's email test refuses
  the empty text.
\<close>

theorem required_answers_stored:
  assumes "validateFormData env schema data None = Inr stored" "extractSchemaFields schema = Some fs"
    "distinct (map ff_id fs)" "f \<in> set fs" "shown data f" "required_field f" "no_blank_choice f" "\<not> fe_email env []"
  shows "\<exists>d. map_of stored (ff_id f) = Some d \<and> \<not> isBlankAnswer d"
proof -
  let ?g = "validate_field env True data"
  obtain xs ys where fs: "fs = xs @ f # ys" using split_list[OF assms(4)] by blast
  have r: "fold ?g fs ([], []) = ([], stored)"
    using assms(1,2) by (auto simp: validateFormData_def split: prod.splits if_splits)
  let ?acc = "fold ?g xs ([], [])"
  have rest: "fold ?g ys (?g f ?acc) = ([], stored)" using r fs by simp
  have ok: "fst (?g f ?acc) = []" using fold_validate_errors[of "?g f ?acc" env True data ys] rest by auto
  obtain p d where p: "buildFieldSchema env f True = Some p" "p (field data (ff_id f)) = Some d"
    and s: "snd (?g f ?acc) = AList.update (ff_id f) d (snd ?acc)"
    using validated_parse[OF ok assms(5)] by blast
  have "stored = fold (visible_answer env data) ys (snd (?g f ?acc))"
    using fold_validate_answers[of env data ys "?g f ?acc"] rest by simp
  moreover have "ff_id f \<notin> ff_id ` set ys" using assms(3) fs by auto
  ultimately have "map_of stored (ff_id f) = Some d" using s by (simp add: fold_visible_other update_conv)
  then show ?thesis using required_filled[OF assms(6-8) p] by blast
qed

theorem required_answers_stored_witness:
  "\<exists>d. map_of [(''name'', J_str ''Ana'')] ''name'' = Some d \<and> \<not> isBlankAnswer d"
proof -
  let ?f = "demo_field ''name'' Ft_text True"
  have e: "extractSchemaFields (Some demo_form) = Some
     [?f, demo_field ''intro'' Ft_heading False,
      (demo_field ''phone'' Ft_phone True)\<lparr>ff_conditions :=
        Some [\<lparr>fc_fieldId = ''name'', fc_operator = ''equals'', fc_value = J_str ''x''\<rparr>]\<rparr>]"
    by (simp add: extractSchemaFields_def extractSchemaSteps_def demo_form_def)
  have i: "ff_id ?f = ''name''" by (simp add: demo_field_def)
  have "shown [(''name'', J_str '' Ana '')] ?f" "required_field ?f" "no_blank_choice ?f" "\<not> fe_email demo_env []"
    by (simp_all add: shown_def isDisplayOnly_def isFieldVisible_def evaluateConditions_def required_field_def
        no_blank_choice_def option_ids_def demo_field_def demo_env_def)
  then show ?thesis
    using required_answers_stored[OF demo_accepted e _ _, of ?f] by (simp add: demo_field_def)
qed

end
