(* ===== verification/Pricing.thy ===== *)
theory Pricing
  imports Signature FormData Db
begin

text \<open>
  Event pricing (\<open>apps/api/src/modules/pricing\<close>, \<open>packages/db/src/queries/pricing.ts\<close>): the price quote
  of a form, and the writes of the base price, the free-event flags and the pricing rules. A database read
  is a function of the tables; the write transactions are serializable, one atomic step each.
\<close>

section \<open>Rows\<close>

record pricing_rule =
  pr_id :: string
  pr_name :: string
  pr_description :: "string option"
  pr_priority :: int
  pr_conditions :: "condition list"
  pr_conditionLogic :: string
  pr_price :: money
  pr_active :: bool

record pricing_row =
  ep_eventId :: string
  ep_basePrice :: money
  ep_isFree :: bool
  ep_autoAccept :: bool
  ep_currency :: string
  ep_rules :: "pricing_rule list"
  ep_onlinePaymentEnabled :: bool
  ep_onlinePaymentUrl :: "string option"
  ep_cashPaymentEnabled :: bool
  ep_bankName :: "string option"
  ep_bankAccountName :: "string option"
  ep_bankAccountNumber :: "string option"

datatype event_status = Ev_closed | Ev_open | Ev_archived

text \<open>An event with the columns of its client that the module gate reads.\<close>

record pricing_event =
  pe_id :: string
  pe_status :: event_status
  pe_endDate :: date
  pe_clientActive :: bool
  pe_enabledModules :: "string list option"

record priced_access =
  pa_id :: string
  pa_eventId :: string
  pa_name :: string
  pa_price :: money
  pa_companionPrice :: money
  pa_includedInBase :: bool

record form_row =
  fm_id :: string
  fm_eventId :: string
  fm_type :: string
  fm_active :: bool
  fm_schema :: form_schema
  fm_schemaVersion :: int

record pricing_db =
  pd_events :: "pricing_event list"
  pd_pricing :: "pricing_row list"
  pd_registrations :: "registration_row list"
  pd_access :: "priced_access list"
  pd_sponsorships :: "sponsorship_row list"
  pd_forms :: "form_row list"
  pd_ids :: "string list"

text \<open>
  \<open>px_icu\<close> is the runtime's currency data, \<open>px_uuid\<close> zod's uuid test, \<open>px_enforce\<close> the JSONB_VALIDATION
  mode. \<open>px_formOk\<close> is the form schema's verdict on a stored form, whose other keys the model leaves out.
\<close>

record pricing_env =
  px_icu :: "string \<Rightarrow> nat option"
  px_uuid :: "string \<Rightarrow> bool"
  px_enforce :: bool
  px_formOk :: "form_schema \<Rightarrow> bool"
  px_form :: form_env

section \<open>Errors and gates\<close>

definition notFound :: error where
  "notFound = App_exception ''NOT_FOUND'' 404"

definition badRequest :: error where
  "badRequest = App_exception ''VALIDATION_ERROR'' 400"

definition assertEventWritable :: "event_status \<Rightarrow> error + unit" where
  "assertEventWritable status = guard (status \<noteq> Ev_archived) (App_exception ''EVENT_ARCHIVED'' 400)"

definition assertEventOpen :: "event_status \<Rightarrow> error + unit" where
  "assertEventOpen status = guard (status = Ev_open) (App_exception ''EVENT_NOT_OPEN'' 400)"

definition day_ms :: int where
  "day_ms = 24 * 60 * 60 * 1000"

definition effectivePublicEndDate :: "date \<Rightarrow> date" where
  "effectivePublicEndDate endDate = (if endDate mod day_ms \<noteq> 0 then endDate else endDate + (day_ms - 1))"

definition eventAcceptsPublicActions :: "event_status \<Rightarrow> date \<Rightarrow> date \<Rightarrow> bool" where
  "eventAcceptsPublicActions status endDate now \<longleftrightarrow> status = Ev_open \<and> now \<le> effectivePublicEndDate endDate"

definition assertEventAcceptsPublicActions :: "event_status \<Rightarrow> date \<Rightarrow> date \<Rightarrow> error + unit" where
  "assertEventAcceptsPublicActions status endDate now =
    sbind (assertEventOpen status) (\<lambda>_.
      guard (eventAcceptsPublicActions status endDate now) (App_exception ''EVENT_NOT_OPEN'' 400))"

definition isModuleEnabledForClient :: "bool \<Rightarrow> string list option \<Rightarrow> string \<Rightarrow> bool" where
  "isModuleEnabledForClient active enabledModules moduleId \<longleftrightarrow>
    active \<and> (case enabledModules of None \<Rightarrow> False | Some ms \<Rightarrow> moduleId \<in> set ms)"

definition assertModuleEnabledForClient :: "bool \<Rightarrow> string list option \<Rightarrow> string \<Rightarrow> error + unit" where
  "assertModuleEnabledForClient active enabledModules moduleId =
    sbind (guard active (App_exception ''CLIENT_INACTIVE'' 403)) (\<lambda>_.
      guard (case enabledModules of None \<Rightarrow> False | Some ms \<Rightarrow> moduleId \<in> set ms)
        (App_exception ''MODULE_DISABLED'' 403))"

definition assertMoneyPrecision :: "(string \<Rightarrow> nat option) \<Rightarrow> string \<Rightarrow> money option list \<Rightarrow> error + unit" where
  "assertMoneyPrecision icu currency amounts =
    (case smap (\<lambda>a. case a of None \<Rightarrow> Inr 0 | Some v \<Rightarrow> toMinorUnits icu v currency) amounts of
       Inl _ \<Rightarrow> Inl badRequest | Inr _ \<Rightarrow> Inr ())"

section \<open>Stored documents\<close>

definition MoneyAmountSchema :: "money \<Rightarrow> bool" where
  "MoneyAmountSchema m \<longleftrightarrow> 0 \<le> m \<and> m \<le> 900000000000 * 10000"

definition EmbeddedPricingRuleSchema :: "(string \<Rightarrow> bool) \<Rightarrow> pricing_rule \<Rightarrow> bool" where
  "EmbeddedPricingRuleSchema uuid r \<longleftrightarrow>
     uuid (pr_id r) \<and> 1 \<le> length (pr_name r) \<and> length (pr_name r) \<le> 200
   \<and> (case pr_description r of None \<Rightarrow> True | Some d \<Rightarrow> length d \<le> 1000)
   \<and> 0 \<le> pr_priority r
   \<and> list_all ConditionSchema (pr_conditions r) \<and> pr_conditions r \<noteq> []
   \<and> (pr_conditionLogic r = ''AND'' \<or> pr_conditionLogic r = ''OR'') \<and> MoneyAmountSchema (pr_price r)"

definition StoredPricingRulesSchema :: "(string \<Rightarrow> bool) \<Rightarrow> pricing_rule list \<Rightarrow> bool" where
  "StoredPricingRulesSchema uuid rules = list_all (EmbeddedPricingRuleSchema uuid) rules"

text \<open>\<open>parseJsonb\<close>: a document that does not match is returned as stored, or refused when enforcing.\<close>

definition parseJsonb :: "bool \<Rightarrow> ('a \<Rightarrow> bool) \<Rightarrow> 'a \<Rightarrow> string \<Rightarrow> error + 'a" where
  "parseJsonb enforce schema v location =
    (if \<not> schema v \<and> enforce then Inl (Plain_error location) else Inr v)"

definition readPricingRules :: "pricing_env \<Rightarrow> pricing_rule list \<Rightarrow> error + pricing_rule list" where
  "readPricingRules env rules =
    parseJsonb (px_enforce env) (StoredPricingRulesSchema (px_uuid env)) rules ''event_pricing.rules''"

definition readFormSchema :: "pricing_env \<Rightarrow> form_schema \<Rightarrow> error + form_schema" where
  "readFormSchema env schema = parseJsonb (px_enforce env) (px_formOk env) schema ''forms.schema''"

section \<open>Queries\<close>

definition pricing_of :: "pricing_db \<Rightarrow> string \<Rightarrow> pricing_row option" where
  "pricing_of s eventId = row_of ep_eventId eventId (pd_pricing s)"

definition getEventPricing :: "pricing_env \<Rightarrow> pricing_db \<Rightarrow> string \<Rightarrow> error + pricing_row option" where
  "getEventPricing env s eventId =
    (case pricing_of s eventId of None \<Rightarrow> Inr None
     | Some row \<Rightarrow> sbind (readPricingRules env (ep_rules row)) (\<lambda>_. Inr (Some row)))"

record pricing_gate =
  pg_status :: event_status
  pg_clientActive :: bool
  pg_enabledModules :: "string list option"
  pg_currentCurrency :: "string option"

definition getEventPricingGate :: "pricing_db \<Rightarrow> string \<Rightarrow> pricing_gate option" where
  "getEventPricingGate s eventId =
    map_option (\<lambda>e. \<lparr>pg_status = pe_status e, pg_clientActive = pe_clientActive e,
        pg_enabledModules = pe_enabledModules e,
        pg_currentCurrency = map_option ep_currency (pricing_of s eventId)\<rparr>)
      (row_of pe_id eventId (pd_events s))"

definition countRegistrations :: "pricing_db \<Rightarrow> string \<Rightarrow> nat" where
  "countRegistrations s eventId = length (filter (\<lambda>r. rg_eventId r = eventId) (pd_registrations s))"

definition findEventAccessByIds :: "pricing_db \<Rightarrow> string \<Rightarrow> string list \<Rightarrow> priced_access list" where
  "findEventAccessByIds s eventId accessIds =
    filter (\<lambda>a. pa_id a \<in> set accessIds \<and> pa_eventId a = eventId) (pd_access s)"

definition findPendingSponsorshipsByCodes :: "pricing_db \<Rightarrow> string \<Rightarrow> string list \<Rightarrow> sponsorship_row list" where
  "findPendingSponsorshipsByCodes s eventId upperCodes =
    filter (\<lambda>r. sp_eventId r = eventId \<and> sp_code r \<in> set upperCodes \<and> sp_status r = Sp_pending
      \<and> sp_targetRegistrationId r = None) (pd_sponsorships s)"

definition findRegistrationFormSchema :: "pricing_env \<Rightarrow> pricing_db \<Rightarrow> string \<Rightarrow> error + form_schema option" where
  "findRegistrationFormSchema env s eventId =
    (case find (\<lambda>f. fm_eventId f = eventId \<and> fm_type f = ''REGISTRATION'') (pd_forms s) of
       None \<Rightarrow> Inr None
     | Some f \<Rightarrow> sbind (readFormSchema env (fm_schema f)) (\<lambda>schema. Inr (Some schema)))"

text \<open>The columns a write sets; the payment columns are named as in the request.\<close>

record payment_patch =
  pp_onlinePaymentEnabled :: "bool option"
  pp_onlinePaymentUrl :: "string option option"
  pp_cashPaymentEnabled :: "bool option"
  pp_bankName :: "string option option"
  pp_bankAccountName :: "string option option"
  pp_bankAccountNumber :: "string option option"

record pricing_set =
  ps_basePrice :: "money option"
  ps_isFree :: "bool option"
  ps_autoAccept :: "bool option"
  ps_currency :: "string option"
  ps_rules :: "pricing_rule list option"
  ps_payment :: "payment_patch option"

definition set_or :: "'a option \<Rightarrow> 'a \<Rightarrow> 'a" where
  "set_or a b = (case a of None \<Rightarrow> b | Some x \<Rightarrow> x)"

definition apply_payment :: "payment_patch option \<Rightarrow> pricing_row \<Rightarrow> pricing_row" where
  "apply_payment p row =
    (case p of None \<Rightarrow> row
     | Some f \<Rightarrow> row\<lparr>
        ep_onlinePaymentEnabled := set_or (pp_onlinePaymentEnabled f) (ep_onlinePaymentEnabled row),
        ep_onlinePaymentUrl := set_or (pp_onlinePaymentUrl f) (ep_onlinePaymentUrl row),
        ep_cashPaymentEnabled := set_or (pp_cashPaymentEnabled f) (ep_cashPaymentEnabled row),
        ep_bankName := set_or (pp_bankName f) (ep_bankName row),
        ep_bankAccountName := set_or (pp_bankAccountName f) (ep_bankAccountName row),
        ep_bankAccountNumber := set_or (pp_bankAccountNumber f) (ep_bankAccountNumber row)\<rparr>)"

definition apply_set :: "pricing_set \<Rightarrow> pricing_row \<Rightarrow> pricing_row" where
  "apply_set c row =
    apply_payment (ps_payment c)
     (row\<lparr>ep_basePrice := set_or (ps_basePrice c) (ep_basePrice row),
        ep_isFree := set_or (ps_isFree c) (ep_isFree row),
        ep_autoAccept := set_or (ps_autoAccept c) (ep_autoAccept row),
        ep_currency := set_or (ps_currency c) (ep_currency row),
        ep_rules := set_or (ps_rules c) (ep_rules row)\<rparr>)"

text \<open>The column defaults of an inserted row.\<close>

definition default_pricing :: "string \<Rightarrow> pricing_row" where
  "default_pricing eventId = \<lparr>ep_eventId = eventId, ep_basePrice = 0, ep_isFree = False, ep_autoAccept = False,
     ep_currency = ''TND'', ep_rules = [], ep_onlinePaymentEnabled = False, ep_onlinePaymentUrl = None,
     ep_cashPaymentEnabled = False, ep_bankName = None, ep_bankAccountName = None, ep_bankAccountNumber = None\<rparr>"

definition upsertEventPricing :: "pricing_db \<Rightarrow> string \<Rightarrow> pricing_set \<Rightarrow> pricing_set \<Rightarrow> pricing_row \<times> pricing_db" where
  "upsertEventPricing s eventId createData updateData =
    (case pricing_of s eventId of
       None \<Rightarrow> (let row = apply_set createData (default_pricing eventId)
                in (row, s\<lparr>pd_pricing := pd_pricing s @ [row]\<rparr>))
     | Some row \<Rightarrow> (apply_set updateData row,
         s\<lparr>pd_pricing := update_rows (\<lambda>r. ep_eventId r = eventId) (apply_set updateData) (pd_pricing s)\<rparr>))"

end
