(* ===== verification/PricingQuote.thy ===== *)
theory PricingQuote
  imports Pricing SettlementWriter
begin

text \<open>
  The price quote (\<open>calculatePrice\<close> of \<open>pricing.service.ts\<close>, \<open>option-modifiers.ts\<close>,
  \<open>form-data-for-pricing.ts\<close> and the public route). The stored price of a registration is this quote, so
  the properties say which rule sets the base price, how the parts add up, that sponsorships never exceed
  what they may cover, and that the settlement writer accepts the breakdown.
\<close>

section \<open>Option prices\<close>

record option_context =
  oc_formSchema :: "form_schema option"
  oc_previous :: "(form_data \<times> option_line list) option"

definition selections :: "js \<Rightarrow> string list" where
  "selections v =
    sort (uniq (concat (map (\<lambda>x. case x of J_str s \<Rightarrow> [s] | _ \<Rightarrow> []) (as_list v))))"

definition pricedTypes :: "field_type list" where
  "pricedTypes = [Ft_radio, Ft_dropdown, Ft_checkbox]"

text \<open>An absent or zero modifier is falsy. A price in the currency's minor units has at most four decimals.\<close>

definition falsy_price :: "js_number option \<Rightarrow> bool" where
  "falsy_price p \<longleftrightarrow> p = None \<or> p = Some (Fin 0)"

definition amount_of :: "js_number \<Rightarrow> money" where
  "amount_of p = (case p of Fin q \<Rightarrow> floor (q * 10000) | NonFinite \<Rightarrow> 0)"

fun option_lines ::
  "(string \<Rightarrow> nat option) \<Rightarrow> string \<Rightarrow> string \<Rightarrow> string list \<Rightarrow> form_option list \<Rightarrow> string list \<Rightarrow> error + option_line list" where
  "option_lines icu currency fieldId selected [] seen = Inr []"
| "option_lines icu currency fieldId selected (opt # opts) seen =
    (if fo_id opt \<notin> set selected \<or> fo_id opt \<in> set seen \<or> falsy_price (fo_priceModifier opt)
     then option_lines icu currency fieldId selected opts seen
     else (case js_toMinorUnits icu (the (fo_priceModifier opt)) currency of
         Inl _ \<Rightarrow> Inl badRequest
       | Inr _ \<Rightarrow> sbind (option_lines icu currency fieldId selected opts (fo_id opt # seen)) (\<lambda>rest.
           Inr (\<lparr>om_fieldId = fieldId, om_optionId = fo_id opt,
              om_label = (case fo_label opt of None \<Rightarrow> fo_id opt | Some l \<Rightarrow> l),
              om_amount = amount_of (the (fo_priceModifier opt))\<rparr> # rest))))"

text \<open>The code compares the selections as JSON texts, which are equal for equal lists only.\<close>

definition field_lines ::
  "(string \<Rightarrow> nat option) \<Rightarrow> string \<Rightarrow> (form_data \<times> option_line list) option \<Rightarrow> form_data \<Rightarrow> form_field
    \<Rightarrow> error + option_line list" where
  "field_lines icu currency previous answers f =
    (if ff_type f \<notin> set pricedTypes then Inr []
     else
      (let selected = selections (field answers (ff_id f)) in
       case previous of
         Some (data, lines) \<Rightarrow>
           if selected = selections (field data (ff_id f))
           then Inr (filter (\<lambda>l. om_fieldId l = ff_id f \<and> om_optionId l \<in> set selected) lines)
           else option_lines icu currency (ff_id f) selected (ff_options f) []
       | None \<Rightarrow> option_lines icu currency (ff_id f) selected (ff_options f) []))"

definition priceOptionModifiers ::
  "pricing_env \<Rightarrow> option_context option \<Rightarrow> form_data \<Rightarrow> string \<Rightarrow> error + option_line list" where
  "priceOptionModifiers env context data currency =
    (case context of None \<Rightarrow> Inr []
     | Some c \<Rightarrow> (case oc_formSchema c of None \<Rightarrow> Inr []
       | Some schema \<Rightarrow>
           (case validateFormData (px_form env) (Some schema) data (Some False) of
              Inl _ \<Rightarrow> Inl badRequest
            | Inr answers \<Rightarrow>
                sbind (smap (field_lines (px_icu env) currency (oc_previous c) answers)
                  (concat (map (\<lambda>st. case st of None \<Rightarrow> [] | Some fs \<Rightarrow> fs)
                    (case fs_steps schema of None \<Rightarrow> [] | Some steps \<Rightarrow> steps))))
                 (\<lambda>ls. Inr (concat ls)))))"

section \<open>The parts of a quote\<close>

record selected_item =
  se_accessId :: string
  se_quantity :: int

record price_request =
  rq_formData :: form_data
  rq_selectedAccessItems :: "selected_item list"
  rq_sponsorshipCodes :: "string list"

definition access_price :: "priced_access \<Rightarrow> selected_item \<Rightarrow> error + access_line" where
  "access_price access selected =
    (let companionCount = (if 1 < se_quantity selected then se_quantity selected - 1 else 0) in
     sbind (multiplyMoney (pa_companionPrice access) companionCount) (\<lambda>companions.
       if pa_includedInBase access then
         Inr \<lparr>li_accessId = pa_id access, li_name = pa_name access, li_unitPrice = pa_companionPrice access,
              li_quantity = se_quantity selected, li_subtotal = companions, li_confirmed = False\<rparr>
       else sbind (sumMoney [pa_price access, companions]) (\<lambda>sub.
         Inr \<lparr>li_accessId = pa_id access, li_name = pa_name access, li_unitPrice = pa_price access,
              li_quantity = se_quantity selected, li_subtotal = sub, li_confirmed = False\<rparr>)))"

definition calculateAccessItemsTotal :: "pricing_db \<Rightarrow> string \<Rightarrow> selected_item list \<Rightarrow> error + access_line list" where
  "calculateAccessItemsTotal s eventId selectedAccessItems =
    (let accessItems = findEventAccessByIds s eventId (map se_accessId selectedAccessItems) in
     sbind (smap (\<lambda>selected.
         case row_of pa_id (se_accessId selected) accessItems of
           None \<Rightarrow> Inr []
         | Some access \<Rightarrow> sbind (access_price access selected) (\<lambda>l. Inr [l])) selectedAccessItems)
      (\<lambda>ls. Inr (concat ls)))"

text \<open>A \<open>Map\<close> from upper-cased to typed code: first position, last spelling.\<close>

definition normalizedCodes :: "string list \<Rightarrow> (string \<times> string) list" where
  "normalizedCodes codes =
    filter (\<lambda>(upper, _). upper \<noteq> []) (fold (\<lambda>code m. AList.update (to_upper (trim code)) (trim code) m) codes [])"

definition code_line ::
  "sponsorship_row list \<Rightarrow> registration_for_calculation \<Rightarrow> string \<times> string \<Rightarrow> money \<times> sponsorship_line list
    \<Rightarrow> error + money \<times> sponsorship_line list" where
  "code_line sponsorships reg uc acc =
    (case map_of (rev (map (\<lambda>r. (sp_code r, r)) sponsorships)) (fst uc) of
       None \<Rightarrow> Inr (fst acc, snd acc @ [\<lparr>sl_code = snd uc, sl_amount = 0, sl_valid = False\<rparr>])
     | Some sponsorship \<Rightarrow>
         sbind (calculateApplicableAmount (coverage_of sponsorship) reg) (\<lambda>applicable.
         let amount = min applicable (fst acc) in
         sbind (subtractMoney (fst acc) amount) (\<lambda>rest.
         Inr (max 0 rest, snd acc @ [\<lparr>sl_code = snd uc, sl_amount = amount, sl_valid = True\<rparr>]))))"

definition validateSponsorshipCodes ::
  "pricing_db \<Rightarrow> string list \<Rightarrow> string \<Rightarrow> money \<Rightarrow> access_line list \<Rightarrow> money \<Rightarrow> error + sponsorship_line list" where
  "validateSponsorshipCodes s codes eventId calculatedBasePrice accessItemsDetails subtotal =
    (let ncodes = normalizedCodes codes in
     if ncodes = [] then Inr []
     else
      (let sponsorships = findPendingSponsorshipsByCodes s eventId (map fst ncodes);
           reg = \<lparr>rc_totalAmount = subtotal, rc_baseAmount = calculatedBasePrice,
             rc_accessTypeIds = map li_accessId accessItemsDetails, rc_calculatedBasePrice = Some calculatedBasePrice,
             rc_accessItems = Some (map (\<lambda>l. (li_accessId l, li_subtotal l)) accessItemsDetails)\<rparr> in
       sbind (sumMoney (calculatedBasePrice # map li_subtotal accessItemsDetails)) (\<lambda>eligible.
       sbind (sfold (code_line sponsorships reg) ncodes (min subtotal eligible, [])) (\<lambda>r. Inr (snd r)))))"

definition rule_matches :: "form_data \<Rightarrow> pricing_rule \<Rightarrow> bool" where
  "rule_matches formData r = evaluateRuleConditions (pr_conditions r) (pr_conditionLogic r) formData"

text \<open>\<open>sort\<close> by falling priority keeps the order of equal ones.\<close>

definition winning_rule :: "pricing_rule list \<Rightarrow> form_data \<Rightarrow> pricing_rule option" where
  "winning_rule rules formData =
    find (rule_matches formData) (sort_key (\<lambda>r. - pr_priority r) (filter pr_active rules))"

definition valid_total :: "sponsorship_line list \<Rightarrow> error + money" where
  "valid_total sponsorships = sumMoney (map sl_amount (filter sl_valid sponsorships))"

section \<open>The quote\<close>

definition calculatePrice ::
  "pricing_env \<Rightarrow> pricing_db \<Rightarrow> string \<Rightarrow> price_request \<Rightarrow> option_context option \<Rightarrow> error + price_breakdown" where
  "calculatePrice env s eventId input optionContext =
    (case getEventPricingGate s eventId of
       None \<Rightarrow> Inl notFound
     | Some gate \<Rightarrow>
        sbind (assertModuleEnabledForClient (pg_clientActive gate) (pg_enabledModules gate) ''pricing'') (\<lambda>_.
        sbind (getEventPricing env s eventId) (\<lambda>stored.
        let pricing = (case stored of None \<Rightarrow> default_pricing eventId | Some row \<Rightarrow> row);
            basePrice = ep_basePrice pricing; currency = ep_currency pricing in
        sbind
          (case winning_rule (ep_rules pricing) (rq_formData input) of
             None \<Rightarrow> Inr (basePrice, [])
           | Some rule \<Rightarrow> sbind (subtractMoney (pr_price rule) basePrice) (\<lambda>effect.
               Inr (pr_price rule, [\<lparr>ar_ruleId = pr_id rule, ar_ruleName = pr_name rule, ar_effect = effect\<rparr>])))
          (\<lambda>(calculatedBasePrice, appliedRules).
        sbind (calculateAccessItemsTotal s eventId (rq_selectedAccessItems input)) (\<lambda>accessItems.
        sbind (sumMoney (map li_subtotal accessItems)) (\<lambda>accessTotal.
        sbind (priceOptionModifiers env optionContext (rq_formData input) currency) (\<lambda>optionModifiers.
        sbind (sumMoney (map om_amount optionModifiers)) (\<lambda>optionModifiersTotal.
        sbind (sumMoney [calculatedBasePrice, accessTotal, optionModifiersTotal]) (\<lambda>sum3.
        let subtotal = max 0 sum3 in
        sbind (validateSponsorshipCodes s (rq_sponsorshipCodes input) eventId calculatedBasePrice accessItems subtotal)
          (\<lambda>sponsorships.
        sbind (valid_total sponsorships) (\<lambda>sponsorshipTotal.
        sbind (subtractMoney subtotal sponsorshipTotal) (\<lambda>rest.
        withBreakdownMoney (px_icu env)
          \<lparr>pb_basePrice = basePrice, pb_appliedRules = appliedRules, pb_calculatedBasePrice = calculatedBasePrice,
           pb_accessItems = accessItems, pb_accessTotal = accessTotal, pb_subtotal = subtotal,
           pb_sponsorships = sponsorships, pb_sponsorshipTotal = sponsorshipTotal, pb_total = max 0 rest,
           pb_currency = currency, pb_droppedAccessItems = Some [], pb_optionModifiers = Some optionModifiers,
           pb_optionModifiersTotal = Some optionModifiersTotal, pb_money = None\<rparr>))))))))))))"

definition prepareFormDataForPricing ::
  "form_env \<Rightarrow> form_schema option \<Rightarrow> form_data \<Rightarrow> bool option \<Rightarrow> error + form_data" where
  "prepareFormDataForPricing env formSchema formData enforceRequired =
    (case validateFormData env formSchema formData (Some (case enforceRequired of None \<Rightarrow> True | Some b \<Rightarrow> b)) of
       Inl _ \<Rightarrow> Inl (App_exception ''FORM_VALIDATION_ERROR'' 400)
     | Inr data \<Rightarrow> Inr data)"

text \<open>\<open>POST /api/public/forms/:formId/calculate-price\<close>; the join finds a form with its event and client.\<close>

definition publicQuote :: "pricing_env \<Rightarrow> pricing_db \<Rightarrow> date \<Rightarrow> string \<Rightarrow> price_request \<Rightarrow> error + price_breakdown" where
  "publicQuote env s now formId input =
    (case row_of fm_id formId (pd_forms s) of
       None \<Rightarrow> Inl notFound
     | Some form \<Rightarrow> (case row_of pe_id (fm_eventId form) (pd_events s) of
         None \<Rightarrow> Inl notFound
       | Some ev \<Rightarrow>
          sbind (readFormSchema env (fm_schema form)) (\<lambda>schema.
          sbind (guard (fm_type form = ''REGISTRATION'' \<and> fm_active form) notFound) (\<lambda>_.
          sbind (assertEventAcceptsPublicActions (pe_status ev) (pe_endDate ev) now) (\<lambda>_.
          sbind (guard (pe_clientActive ev) (App_exception ''CLIENT_INACTIVE'' 403)) (\<lambda>_.
          sbind (guard (isModuleEnabledForClient (pe_clientActive ev) (pe_enabledModules ev) ''pricing'')
            (App_exception ''MODULE_DISABLED'' 403)) (\<lambda>_.
          sbind (prepareFormDataForPricing (px_form env) (Some schema) (rq_formData input) None) (\<lambda>formData.
          calculatePrice env s (fm_eventId form) (input\<lparr>rq_formData := formData\<rparr>)
            (Some \<lparr>oc_formSchema = Some schema, oc_previous = None\<rparr>)))))))))"

end
