(* ===== verification/PricingWrite.thy ===== *)
theory PricingWrite
  imports Pricing
begin

text \<open>
  The writes of \<open>pricing.service.ts\<close>: the PATCH of an event's pricing, the addition, change and deletion
  of a rule, and the checks they share (\<open>pricing-rule-validation.ts\<close>,
  \<open>packages/contracts/src/condition-option-validation.ts\<close>). Each runs in a serializable transaction: a step
  of the model, whose error leaves the tables as they were.
\<close>

section \<open>Option ids in conditions\<close>

record field_option_info =
  fi_fieldLabel :: string
  fi_optionIds :: "string list"
  fi_exampleOptionIds :: "string list"

definition MAX_EXAMPLE_OPTION_IDS :: nat where
  "MAX_EXAMPLE_OPTION_IDS = 3"

definition buildFieldOptionIndex :: "form_schema option \<Rightarrow> (string \<times> field_option_info) list" where
  "buildFieldOptionIndex schema =
    (case schema of None \<Rightarrow> []
     | Some sch \<Rightarrow> (case fs_steps sch of None \<Rightarrow> []
       | Some steps \<Rightarrow>
           fold (\<lambda>f index.
               if ff_id f = [] \<or> ff_options f = [] then index
               else (let optionIds = filter (\<lambda>i. i \<noteq> []) (option_ids f)
                 in AList.update (ff_id f)
                   \<lparr>fi_fieldLabel = (case ff_label f of None \<Rightarrow> ff_id f | Some l \<Rightarrow> l), fi_optionIds = optionIds,
                    fi_exampleOptionIds = take MAX_EXAMPLE_OPTION_IDS optionIds\<rparr> index))
             (concat (map (\<lambda>st. case st of None \<Rightarrow> [] | Some fs \<Rightarrow> fs) steps)) []))"

record invalid_option =
  io_fieldId :: string
  io_fieldLabel :: string
  io_operator :: string
  io_value :: js
  io_exampleOptionIds :: "string list"

definition invalid_option_of :: "(string \<times> field_option_info) list \<Rightarrow> condition \<Rightarrow> invalid_option option" where
  "invalid_option_of index c =
    (case map_of index (cn_fieldId c) of
       None \<Rightarrow> None
     | Some info \<Rightarrow>
        (let bad = (\<lambda>v. \<lparr>io_fieldId = cn_fieldId c, io_fieldLabel = fi_fieldLabel info, io_operator = cn_operator c,
               io_value = v, io_exampleOptionIds = fi_exampleOptionIds info\<rparr>)
         in if cn_operator c = ''equals'' \<or> cn_operator c = ''not_equals'' then
              (case cn_value c of
                 J_str s \<Rightarrow> if s \<noteq> [] \<and> s \<notin> set (fi_optionIds info) then Some (bad (J_str s)) else None
               | _ \<Rightarrow> None)
            else if cn_operator c = ''in'' then
              (case cn_value c of
                 J_arr xs \<Rightarrow>
                   map_option bad
                     (find (\<lambda>v. case v of J_str s \<Rightarrow> s \<notin> set (fi_optionIds info) | _ \<Rightarrow> False) xs)
               | _ \<Rightarrow> None)
            else None))"

definition findInvalidOptionConditions ::
  "condition list \<Rightarrow> (string \<times> field_option_info) list \<Rightarrow> invalid_option list" where
  "findInvalidOptionConditions conditions index =
    concat (map (\<lambda>c. case invalid_option_of index c of None \<Rightarrow> [] | Some i \<Rightarrow> [i]) conditions)"

section \<open>Grandfathering\<close>

text \<open>The stored fingerprints by rule id; of two stored rules with one id the last counts.\<close>

definition storedSignatures :: "pricing_rule list \<Rightarrow> string \<Rightarrow> string option" where
  "storedSignatures storedRules =
    map_of (rev (map (\<lambda>r. (pr_id r, conditionSetSignature (pr_conditions r) (pr_conditionLogic r))) storedRules))"

definition rulesToValidate :: "pricing_rule list \<Rightarrow> pricing_rule list \<Rightarrow> pricing_rule list" where
  "rulesToValidate rulesWithIds storedRules =
    filter (\<lambda>r. storedSignatures storedRules (pr_id r)
        \<noteq> Some (conditionSetSignature (pr_conditions r) (pr_conditionLogic r))) rulesWithIds"

definition unsatisfiable :: error where
  "unsatisfiable = App_exception ''PRICING_RULE_UNSATISFIABLE'' 400"

definition invalid_option_error :: error where
  "invalid_option_error = App_exception ''PRICING_CONDITION_INVALID_OPTION'' 400"

definition validateChangedPricingRules ::
  "pricing_env \<Rightarrow> pricing_db \<Rightarrow> string \<Rightarrow> pricing_rule list \<Rightarrow> pricing_rule list \<Rightarrow> error + unit" where
  "validateChangedPricingRules env s eventId rulesWithIds storedRules =
    (let changed = rulesToValidate rulesWithIds storedRules in
     sbind (smap (\<lambda>r. guard (findConditionConflicts (pr_conditions r) (pr_conditionLogic r) None = []) unsatisfiable)
       changed) (\<lambda>_.
     if changed = [] then Inr ()
     else sbind (findRegistrationFormSchema env s eventId) (\<lambda>form.
       case form of None \<Rightarrow> Inr ()
       | Some schema \<Rightarrow>
           sbind (smap (\<lambda>r. guard (findInvalidOptionConditions (pr_conditions r) (buildFieldOptionIndex (Some schema)) = [])
             invalid_option_error) changed) (\<lambda>_. Inr ()))))"

section \<open>The PATCH\<close>

record pricing_input =
  pi_basePrice :: "money option option"
  pi_currency :: "string option"
  pi_rules :: "pricing_rule list option"
  pi_isFree :: "bool option"
  pi_autoAccept :: "bool option"
  pi_payment :: "payment_patch option"

definition or_else :: "'a option \<Rightarrow> 'a option \<Rightarrow> 'a option" where
  "or_else a b = (case a of None \<Rightarrow> b | Some x \<Rightarrow> Some x)"

definition resolveFreeEventFlags ::
  "bool option \<Rightarrow> bool option \<Rightarrow> pricing_row option \<Rightarrow> error + bool \<times> bool" where
  "resolveFreeEventFlags inFree inAccept stored =
    (let isFree = set_or (or_else inFree (map_option ep_isFree stored)) False
     in if inAccept = Some True \<and> \<not> isFree then Inl (App_exception ''AUTO_ACCEPT_REQUIRES_FREE_EVENT'' 400)
        else Inr (isFree, isFree \<and> set_or (or_else inAccept (map_option ep_autoAccept stored)) False))"

definition flag_sets ::
  "pricing_env \<Rightarrow> pricing_db \<Rightarrow> string \<Rightarrow> pricing_input \<Rightarrow> pricing_set \<times> pricing_set \<Rightarrow> error + pricing_set \<times> pricing_set" where
  "flag_sets env s eventId input sets =
    (if pi_isFree input = None \<and> pi_autoAccept input = None \<and> pi_basePrice input = None then Inr sets
     else sbind (getEventPricing env s eventId) (\<lambda>stored.
       sbind (resolveFreeEventFlags (pi_isFree input) (pi_autoAccept input) stored) (\<lambda>(isFree, autoAccept).
         let priced = (if isFree then (\<lambda>c. c\<lparr>ps_basePrice := Some 0\<rparr>) else (\<lambda>c. c));
             flagged = (if pi_isFree input \<noteq> None \<or> pi_autoAccept input \<noteq> None
               then (\<lambda>c. c\<lparr>ps_isFree := Some isFree, ps_autoAccept := Some autoAccept\<rparr>) else (\<lambda>c. c))
         in Inr (flagged (priced (fst sets)), flagged (priced (snd sets))))))"

definition currency_set ::
  "pricing_env \<Rightarrow> pricing_db \<Rightarrow> string \<Rightarrow> pricing_gate \<Rightarrow> pricing_input \<Rightarrow> pricing_set \<Rightarrow> error + pricing_set" where
  "currency_set env s eventId gate input updateData =
    (case pi_currency input of None \<Rightarrow> Inr updateData
     | Some currency \<Rightarrow>
         sbind
          (if currency \<noteq> set_or (pg_currentCurrency gate) ''TND'' then
             sbind (guard (countRegistrations s eventId = 0) (App_exception ''CURRENCY_LOCKED'' 400)) (\<lambda>_.
             sbind (getEventPricing env s eventId) (\<lambda>stored.
               assertMoneyPrecision (px_icu env) currency
                 (or_else (set_or (pi_basePrice input) None) (map_option ep_basePrice stored)
                  # map (\<lambda>r. Some (pr_price r)) (set_or (or_else (pi_rules input) (map_option ep_rules stored)) []))))
           else Inr ()) (\<lambda>_. Inr (updateData\<lparr>ps_currency := Some currency\<rparr>)))"

definition rule_sets ::
  "pricing_env \<Rightarrow> pricing_db \<Rightarrow> string \<Rightarrow> pricing_input \<Rightarrow> pricing_rule list option \<Rightarrow> pricing_set \<times> pricing_set
    \<Rightarrow> error + pricing_set \<times> pricing_set" where
  "rule_sets env s eventId input knownStoredRules sets =
    (case pi_rules input of None \<Rightarrow> Inr sets
     | Some rules \<Rightarrow>
         sbind (case knownStoredRules of Some rs \<Rightarrow> Inr rs
           | None \<Rightarrow> sbind (getEventPricing env s eventId) (\<lambda>stored. Inr (set_or (map_option ep_rules stored) [])))
          (\<lambda>storedRules.
         sbind (validateChangedPricingRules env s eventId rules storedRules) (\<lambda>_.
         Inr ((fst sets)\<lparr>ps_rules := Some rules\<rparr>, (snd sets)\<lparr>ps_rules := Some rules\<rparr>))))"

text \<open>The request schema gives every rule an id, so no id is generated here.\<close>

definition updatePricingCore ::
  "pricing_env \<Rightarrow> string \<Rightarrow> pricing_input \<Rightarrow> pricing_rule list option \<Rightarrow> pricing_db
    \<Rightarrow> error + pricing_row \<times> pricing_db" where
  "updatePricingCore env eventId input knownStoredRules s =
    (case getEventPricingGate s eventId of
       None \<Rightarrow> Inl notFound
     | Some gate \<Rightarrow>
        sbind (assertEventWritable (pg_status gate)) (\<lambda>_.
        sbind (assertModuleEnabledForClient (pg_clientActive gate) (pg_enabledModules gate) ''pricing'') (\<lambda>_.
        sbind (assertMoneyPrecision (px_icu env) (set_or (or_else (pi_currency input) (pg_currentCurrency gate)) ''TND'')
          (set_or (pi_basePrice input) None # map (\<lambda>r. Some (pr_price r)) (set_or (pi_rules input) []))) (\<lambda>_.
        let empty = \<lparr>ps_basePrice = None, ps_isFree = None, ps_autoAccept = None, ps_currency = None, ps_rules = None,
              ps_payment = pi_payment input\<rparr>;
            createData = empty\<lparr>ps_basePrice := Some (set_or (set_or (pi_basePrice input) None) 0),
              ps_currency := Some (set_or (pi_currency input) ''TND'')\<rparr>;
            updateData = empty\<lparr>ps_basePrice := map_option (\<lambda>b. set_or b 0) (pi_basePrice input)\<rparr>
        in
        sbind (flag_sets env s eventId input (createData, updateData)) (\<lambda>(create1, update1).
        sbind (currency_set env s eventId gate input update1) (\<lambda>update2.
        sbind (rule_sets env s eventId input knownStoredRules (create1, update2)) (\<lambda>(create3, update3).
        Inr (upsertEventPricing s eventId create3 update3))))))))"

definition updateEventPricing :: "pricing_env \<Rightarrow> string \<Rightarrow> pricing_input \<Rightarrow> pricing_db \<Rightarrow> error + pricing_row \<times> pricing_db" where
  "updateEventPricing env eventId input s = updatePricingCore env eventId input None s"

section \<open>Single rules\<close>

definition MAX_PRICING_RULES :: nat where
  "MAX_PRICING_RULES = 10"

record create_rule =
  cr_name :: string
  cr_description :: "string option"
  cr_priority :: "int option"
  cr_conditions :: "condition list"
  cr_conditionLogic :: "string option"
  cr_price :: money
  cr_active :: "bool option"

record update_rule =
  ur_name :: "string option"
  ur_description :: "string option option"
  ur_priority :: "int option"
  ur_conditions :: "condition list option"
  ur_conditionLogic :: "string option"
  ur_price :: "money option"
  ur_active :: "bool option"

definition no_input :: pricing_input where
  "no_input = \<lparr>pi_basePrice = None, pi_currency = None, pi_rules = None, pi_isFree = None, pi_autoAccept = None, pi_payment = None\<rparr>"

definition mutatePricingRules ::
  "pricing_env \<Rightarrow> string \<Rightarrow> (pricing_rule list \<Rightarrow> error + pricing_rule list) \<Rightarrow> pricing_db \<Rightarrow> error + pricing_row \<times> pricing_db" where
  "mutatePricingRules env eventId mutate s =
    sbind (getEventPricing env s eventId) (\<lambda>pricing.
      case pricing of None \<Rightarrow> Inl (App_exception ''PRICING_NOT_FOUND'' 404)
      | Some row \<Rightarrow> sbind (mutate (ep_rules row)) (\<lambda>rules.
          updatePricingCore env eventId (no_input\<lparr>pi_rules := Some rules\<rparr>) (Some (ep_rules row)) s))"

text \<open>\<open>newId()\<close> takes the next of the ids to come, whether or not the transaction commits.\<close>

definition addPricingRule :: "pricing_env \<Rightarrow> string \<Rightarrow> create_rule \<Rightarrow> pricing_db \<Rightarrow> error + pricing_row \<times> pricing_db" where
  "addPricingRule env eventId rule s =
    (case pd_ids s of [] \<Rightarrow> Inl (Plain_error ''newId'')
     | i # ids \<Rightarrow>
        mutatePricingRules env eventId (\<lambda>rules.
          if MAX_PRICING_RULES \<le> length rules then Inl badRequest
          else Inr (rules @ [\<lparr>pr_id = i, pr_name = cr_name rule, pr_description = cr_description rule,
            pr_priority = set_or (cr_priority rule) 0, pr_conditions = cr_conditions rule,
            pr_conditionLogic = set_or (cr_conditionLogic rule) ''AND'', pr_price = cr_price rule,
            pr_active = set_or (cr_active rule) True\<rparr>])) (s\<lparr>pd_ids := ids\<rparr>))"

definition merge_rule :: "update_rule \<Rightarrow> pricing_rule \<Rightarrow> pricing_rule" where
  "merge_rule u r = r\<lparr>pr_name := set_or (ur_name u) (pr_name r), pr_description := set_or (ur_description u) (pr_description r),
     pr_priority := set_or (ur_priority u) (pr_priority r), pr_conditions := set_or (ur_conditions u) (pr_conditions r),
     pr_conditionLogic := set_or (ur_conditionLogic u) (pr_conditionLogic r), pr_price := set_or (ur_price u) (pr_price r),
     pr_active := set_or (ur_active u) (pr_active r)\<rparr>"

text \<open>The first rule with the id is the one changed.\<close>

fun update_first :: "string \<Rightarrow> (pricing_rule \<Rightarrow> pricing_rule) \<Rightarrow> pricing_rule list \<Rightarrow> pricing_rule list" where
  "update_first i f [] = []"
| "update_first i f (r # rs) = (if pr_id r = i then f r # rs else r # update_first i f rs)"

definition updatePricingRule :: "pricing_env \<Rightarrow> string \<Rightarrow> string \<Rightarrow> update_rule \<Rightarrow> pricing_db \<Rightarrow> error + pricing_row \<times> pricing_db" where
  "updatePricingRule env eventId ruleId updates s =
    mutatePricingRules env eventId (\<lambda>rules.
      if ruleId \<notin> pr_id ` set rules then Inl notFound
      else Inr (update_first ruleId (merge_rule updates) rules)) s"

definition deletePricingRule :: "pricing_env \<Rightarrow> string \<Rightarrow> string \<Rightarrow> pricing_db \<Rightarrow> error + pricing_row \<times> pricing_db" where
  "deletePricingRule env eventId ruleId s =
    mutatePricingRules env eventId (\<lambda>rules.
      if ruleId \<notin> pr_id ` set rules then Inl notFound
      else Inr (filter (\<lambda>r. pr_id r \<noteq> ruleId) rules)) s"

end
