(* ===== verification/PricingRules.thy ===== *)
theory PricingRules
  imports PricingWrite
begin

text \<open>
  What the pricing writes guarantee: the row a PATCH stores, the invariant of every stored price list
  and that each write of the service keeps it, and the currency that cannot change under existing registrations.
\<close>

section \<open>The row a write stores\<close>

definition current_row :: "pricing_db \<Rightarrow> string \<Rightarrow> pricing_row" where
  "current_row s eventId = set_or (pricing_of s eventId) (default_pricing eventId)"

text \<open>
  The merge a PATCH makes: an omitted field keeps its value, a free event has base price 0 and only a free
  event accepts registrations by itself.
\<close>

definition patched :: "pricing_input \<Rightarrow> pricing_row \<Rightarrow> pricing_row" where
  "patched input row =
    (let touched = pi_isFree input \<noteq> None \<or> pi_autoAccept input \<noteq> None;
         free = set_or (pi_isFree input) (ep_isFree row)
     in apply_payment (pi_payment input) (row\<lparr>
          ep_basePrice := (if (touched \<or> pi_basePrice input \<noteq> None) \<and> free then 0
             else set_or (map_option (\<lambda>b. set_or b 0) (pi_basePrice input)) (ep_basePrice row)),
          ep_isFree := free,
          ep_autoAccept := (if touched then free \<and> set_or (pi_autoAccept input) (ep_autoAccept row) else ep_autoAccept row),
          ep_currency := set_or (pi_currency input) (ep_currency row),
          ep_rules := set_or (pi_rules input) (ep_rules row)\<rparr>))"

lemma set_or_simps [simp]: "set_or None b = b" "set_or (Some a) b = a"
  by (simp_all add: set_or_def)

lemma or_else_simps [simp]: "or_else None b = b" "or_else (Some a) b = Some a"
  by (simp_all add: or_else_def)

lemma set_or_or_else: "set_or (or_else a (map_option f r)) d = set_or a (set_or (map_option f r) d)"
  by (cases a) simp_all

lemma getEventPricing_Inr: "getEventPricing env s e = Inr r \<Longrightarrow> r = pricing_of s e"
  by (auto simp: getEventPricing_def sbind_Inr_iff split: option.splits)

lemma default_pricing_sel [simp]:
  "ep_eventId (default_pricing e) = e" "ep_basePrice (default_pricing e) = 0" "ep_isFree (default_pricing e) = False"
  "ep_autoAccept (default_pricing e) = False" "ep_currency (default_pricing e) = ''TND''" "ep_rules (default_pricing e) = []"
  by (simp_all add: default_pricing_def)

lemma apply_payment_sel [simp]:
  "ep_eventId (apply_payment p r) = ep_eventId r" "ep_basePrice (apply_payment p r) = ep_basePrice r"
  "ep_isFree (apply_payment p r) = ep_isFree r" "ep_autoAccept (apply_payment p r) = ep_autoAccept r"
  "ep_currency (apply_payment p r) = ep_currency r" "ep_rules (apply_payment p r) = ep_rules r"
  by (simp_all add: apply_payment_def split: option.split)

text \<open>The effect of the flags on the columns to set.\<close>

definition flagged :: "bool \<Rightarrow> bool \<Rightarrow> bool \<Rightarrow> bool \<Rightarrow> pricing_set \<Rightarrow> pricing_set" where
  "flagged touched priced free accepts c =
    (if touched then (\<lambda>c. c\<lparr>ps_isFree := Some free, ps_autoAccept := Some accepts\<rparr>) else (\<lambda>c. c))
      ((if priced \<and> free then (\<lambda>c. c\<lparr>ps_basePrice := Some 0\<rparr>) else (\<lambda>c. c)) c)"

lemma flagged_sel:
  "ps_basePrice (flagged t p f a c) = (if p \<and> f then Some 0 else ps_basePrice c)"
  "ps_isFree (flagged t p f a c) = (if t then Some f else ps_isFree c)"
  "ps_autoAccept (flagged t p f a c) = (if t then Some a else ps_autoAccept c)"
  "ps_currency (flagged t p f a c) = ps_currency c" "ps_rules (flagged t p f a c) = ps_rules c"
  "ps_payment (flagged t p f a c) = ps_payment c"
  by (simp_all add: flagged_def)

lemma flag_sets_Inr:
  assumes "flag_sets env s e input (c, u) = Inr (c', u')"
  defines "touched \<equiv> pi_isFree input \<noteq> None \<or> pi_autoAccept input \<noteq> None"
    and "free \<equiv> set_or (pi_isFree input) (ep_isFree (current_row s e))"
  defines "f \<equiv> flagged touched (touched \<or> pi_basePrice input \<noteq> None) free
      (free \<and> set_or (pi_autoAccept input) (ep_autoAccept (current_row s e)))"
  shows "c' = f c \<and> u' = f u"
proof (cases "pi_isFree input = None \<and> pi_autoAccept input = None \<and> pi_basePrice input = None")
  case True
  then show ?thesis using assms(1) by (simp add: flag_sets_def f_def flagged_def touched_def)
next
  case False
  obtain stored where st: "getEventPricing env s e = Inr stored"
    and m: "sbind (resolveFreeEventFlags (pi_isFree input) (pi_autoAccept input) stored) (\<lambda>(fr, acc).
         let priced = (if fr then (\<lambda>c. c\<lparr>ps_basePrice := Some 0\<rparr>) else (\<lambda>c. c));
             flagged = (if pi_isFree input \<noteq> None \<or> pi_autoAccept input \<noteq> None
               then (\<lambda>c. c\<lparr>ps_isFree := Some fr, ps_autoAccept := Some acc\<rparr>) else (\<lambda>c. c))
         in Inr (flagged (priced c), flagged (priced u))) = Inr (c', u')"
    using assms(1) unfolding flag_sets_def if_not_P[OF False] fst_conv snd_conv by (rule sbind_InrE)
  obtain p where rp: "resolveFreeEventFlags (pi_isFree input) (pi_autoAccept input) stored = Inr p"
    and r0: "(\<lambda>(fr, acc).
         let priced = (if fr then (\<lambda>c. c\<lparr>ps_basePrice := Some 0\<rparr>) else (\<lambda>c. c));
             flagged = (if pi_isFree input \<noteq> None \<or> pi_autoAccept input \<noteq> None
               then (\<lambda>c. c\<lparr>ps_isFree := Some fr, ps_autoAccept := Some acc\<rparr>) else (\<lambda>c. c))
         in Inr (flagged (priced c), flagged (priced u))) p = (Inr (c', u') :: error + _)"
    using m by (rule sbind_InrE)
  obtain fr acc where p: "p = (fr, acc)" by force
  have fl: "resolveFreeEventFlags (pi_isFree input) (pi_autoAccept input) stored = Inr (fr, acc)" using rp p by simp
  have r: "c' = (if touched then (\<lambda>c. c\<lparr>ps_isFree := Some fr, ps_autoAccept := Some acc\<rparr>) else (\<lambda>c. c))
        ((if fr then (\<lambda>c. c\<lparr>ps_basePrice := Some 0\<rparr>) else (\<lambda>c. c)) c)"
      "u' = (if touched then (\<lambda>c. c\<lparr>ps_isFree := Some fr, ps_autoAccept := Some acc\<rparr>) else (\<lambda>c. c))
        ((if fr then (\<lambda>c. c\<lparr>ps_basePrice := Some 0\<rparr>) else (\<lambda>c. c)) u)"
    using r0 unfolding p Let_def touched_def by (simp_all only: prod.case sum.inject prod.inject)
  have sp: "stored = pricing_of s e" using getEventPricing_Inr[OF st] .
  have fr: "fr = free" and acc: "acc = (free \<and> set_or (pi_autoAccept input) (ep_autoAccept (current_row s e)))"
    using fl unfolding resolveFreeEventFlags_def Let_def set_or_or_else sp free_def current_row_def
    by (cases "pricing_of s e"; auto split: if_split_asm)+
  have t: "(touched \<or> pi_basePrice input \<noteq> None) = True" using False by (auto simp: touched_def)
  show ?thesis unfolding r fr acc f_def t flagged_def by simp
qed

lemma currency_set_Inr:
  assumes "currency_set env s e gate input u = Inr u'"
  shows "u' = u\<lparr>ps_currency := or_else (pi_currency input) (ps_currency u)\<rparr>"
  using assms by (cases "pi_currency input") (auto simp: currency_set_def sbind_Inr_iff)

lemma rule_sets_Inr:
  assumes "rule_sets env s e input known (c, u) = Inr (c', u')"
  shows "c' = c\<lparr>ps_rules := or_else (pi_rules input) (ps_rules c)\<rparr> \<and> u' = u\<lparr>ps_rules := or_else (pi_rules input) (ps_rules u)\<rparr>"
  using assms by (cases "pi_rules input") (auto simp: rule_sets_def sbind_Inr_iff)

definition amounts_exact :: "(string \<Rightarrow> nat option) \<Rightarrow> string \<Rightarrow> money option list \<Rightarrow> bool" where
  "amounts_exact icu currency amounts \<longleftrightarrow> (\<forall>v. Some v \<in> set amounts \<longrightarrow> (\<exists>m. toMinorUnits icu v currency = Inr m))"

lemma smap_Inr_ex: "(\<exists>ys. smap f xs = Inr ys) \<longleftrightarrow> (\<forall>x \<in> set xs. \<exists>y. f x = Inr y)"
  by (induction xs) (auto simp: sbind_Inr_iff)

lemma assertMoneyPrecision_Inr: "assertMoneyPrecision icu currency amounts = Inr u \<longleftrightarrow> amounts_exact icu currency amounts"
proof -
  have "(\<exists>ys. smap (\<lambda>a. case a of None \<Rightarrow> Inr 0 | Some v \<Rightarrow> toMinorUnits icu v currency) amounts = Inr ys)
      \<longleftrightarrow> amounts_exact icu currency amounts"
    unfolding smap_Inr_ex amounts_exact_def by (auto split: option.splits; metis option.exhaust)
  then show ?thesis unfolding assertMoneyPrecision_def by (auto split: sum.split)
qed

text \<open>What the code has checked when a write commits.\<close>

definition write_allowed :: "pricing_env \<Rightarrow> string \<Rightarrow> pricing_input \<Rightarrow> pricing_rule list \<Rightarrow> pricing_db \<Rightarrow> bool" where
  "write_allowed env e input storedRules s \<longleftrightarrow>
    (\<exists>ev. row_of pe_id e (pd_events s) = Some ev \<and> pe_status ev \<noteq> Ev_archived
       \<and> isModuleEnabledForClient (pe_clientActive ev) (pe_enabledModules ev) ''pricing'')
  \<and> amounts_exact (px_icu env) (set_or (pi_currency input) (ep_currency (current_row s e)))
      (set_or (pi_basePrice input) None # map (\<lambda>r. Some (pr_price r)) (set_or (pi_rules input) []))
  \<and> (pi_autoAccept input = Some True \<longrightarrow> set_or (pi_isFree input) (ep_isFree (current_row s e)))
  \<and> (\<forall>c. pi_currency input = Some c \<longrightarrow> c \<noteq> ep_currency (current_row s e) \<longrightarrow> countRegistrations s e = 0
       \<and> amounts_exact (px_icu env) c
           (or_else (set_or (pi_basePrice input) None) (map_option ep_basePrice (pricing_of s e))
            # map (\<lambda>r. Some (pr_price r)) (set_or (pi_rules input) (ep_rules (current_row s e)))))
  \<and> (\<forall>rules. pi_rules input = Some rules \<longrightarrow> validateChangedPricingRules env s e rules storedRules = Inr ())"

lemma gate_facts:
  assumes "getEventPricingGate s e = Some gate"
  shows "set_or (or_else a (pg_currentCurrency gate)) ''TND'' = set_or a (ep_currency (current_row s e))"
    and "set_or (pg_currentCurrency gate) ''TND'' = ep_currency (current_row s e)"
    and "\<exists>ev. row_of pe_id e (pd_events s) = Some ev \<and> pg_status gate = pe_status ev
      \<and> pg_clientActive gate = pe_clientActive ev \<and> pg_enabledModules gate = pe_enabledModules ev"
proof -
  obtain ev where ev: "row_of pe_id e (pd_events s) = Some ev"
    and g: "gate = \<lparr>pg_status = pe_status ev, pg_clientActive = pe_clientActive ev,
      pg_enabledModules = pe_enabledModules ev, pg_currentCurrency = map_option ep_currency (pricing_of s e)\<rparr>"
    using assms unfolding getEventPricingGate_def by blast
  have c: "set_or (map_option ep_currency (pricing_of s e)) ''TND'' = ep_currency (current_row s e)"
    by (cases "pricing_of s e") (simp_all add: current_row_def)
  show "set_or (or_else a (pg_currentCurrency gate)) ''TND'' = set_or a (ep_currency (current_row s e))"
    unfolding g pricing_gate.simps set_or_or_else c ..
  show "set_or (pg_currentCurrency gate) ''TND'' = ep_currency (current_row s e)"
    unfolding g pricing_gate.simps c ..
  show "\<exists>ev. row_of pe_id e (pd_events s) = Some ev \<and> pg_status gate = pe_status ev
      \<and> pg_clientActive gate = pe_clientActive ev \<and> pg_enabledModules gate = pe_enabledModules ev"
    using ev unfolding g by simp
qed

lemma module_guard: "assertModuleEnabledForClient a ms m = Inr u \<Longrightarrow> isModuleEnabledForClient a ms m"
  by (auto simp: assertModuleEnabledForClient_def isModuleEnabledForClient_def sbind_Inr_iff)

lemma currency_set_guard:
  assumes "currency_set env s e gate input u = Inr u'" "getEventPricingGate s e = Some gate"
    "pi_currency input = Some c" "c \<noteq> ep_currency (current_row s e)"
  shows "countRegistrations s e = 0 \<and> amounts_exact (px_icu env) c
           (or_else (set_or (pi_basePrice input) None) (map_option ep_basePrice (pricing_of s e))
            # map (\<lambda>r. Some (pr_price r)) (set_or (pi_rules input) (ep_rules (current_row s e))))"
proof -
  obtain stored where st: "countRegistrations s e = 0" "getEventPricing env s e = Inr stored"
    "assertMoneyPrecision (px_icu env) c
       (or_else (set_or (pi_basePrice input) None) (map_option ep_basePrice stored)
        # map (\<lambda>r. Some (pr_price r)) (set_or (or_else (pi_rules input) (map_option ep_rules stored)) [])) = Inr ()"
    using assms gate_facts(2)[OF assms(2)] by (auto simp: currency_set_def sbind_Inr_iff)
  have e: "stored = pricing_of s e" using getEventPricing_Inr[OF st(2)] .
  have r: "set_or (map_option ep_rules (pricing_of s e)) [] = ep_rules (current_row s e)"
    by (cases "pricing_of s e") (simp_all add: current_row_def)
  show ?thesis using st(1,3) unfolding assertMoneyPrecision_Inr e set_or_or_else r by blast
qed

lemma rule_sets_guard:
  assumes "rule_sets env s e input known sets = Inr sets'" "pi_rules input = Some rules"
    "known = None \<or> known = Some (ep_rules (current_row s e))"
  shows "validateChangedPricingRules env s e rules (ep_rules (current_row s e)) = Inr ()"
proof -
  have r: "set_or (map_option ep_rules (pricing_of s e)) [] = ep_rules (current_row s e)"
    by (cases "pricing_of s e") (simp_all add: current_row_def)
  show ?thesis
    using assms r by (auto simp: rule_sets_def sbind_Inr_iff dest!: getEventPricing_Inr)
qed

lemma flag_sets_guard:
  assumes "flag_sets env s e input sets = Inr sets'" "pi_autoAccept input = Some True"
  shows "set_or (pi_isFree input) (ep_isFree (current_row s e))"
proof -
  obtain stored fr where st: "getEventPricing env s e = Inr stored"
    and fl: "resolveFreeEventFlags (pi_isFree input) (Some True) stored = Inr fr"
    using assms by (auto simp: flag_sets_def sbind_Inr_iff split: if_split_asm)
  show ?thesis
    using fl unfolding resolveFreeEventFlags_def Let_def set_or_or_else getEventPricing_Inr[OF st] current_row_def
    by (cases "pricing_of s e") (auto split: if_split_asm)
qed

text \<open>The stages of a committed write.\<close>

lemma core_stages:
  assumes "updatePricingCore env e input known s = Inr (row, s')"
  obtains gate create1 update1 update2 create3 update3 where
    "getEventPricingGate s e = Some gate" "assertEventWritable (pg_status gate) = Inr ()"
    "assertModuleEnabledForClient (pg_clientActive gate) (pg_enabledModules gate) ''pricing'' = Inr ()"
    "assertMoneyPrecision (px_icu env) (set_or (or_else (pi_currency input) (pg_currentCurrency gate)) ''TND'')
       (set_or (pi_basePrice input) None # map (\<lambda>r. Some (pr_price r)) (set_or (pi_rules input) [])) = Inr ()"
    "flag_sets env s e input
       (\<lparr>ps_basePrice = Some (set_or (set_or (pi_basePrice input) None) 0), ps_isFree = None, ps_autoAccept = None,
         ps_currency = Some (set_or (pi_currency input) ''TND''), ps_rules = None, ps_payment = pi_payment input\<rparr>,
        \<lparr>ps_basePrice = map_option (\<lambda>b. set_or b 0) (pi_basePrice input), ps_isFree = None, ps_autoAccept = None,
         ps_currency = None, ps_rules = None, ps_payment = pi_payment input\<rparr>) = Inr (create1, update1)"
    "currency_set env s e gate input update1 = Inr update2"
    "rule_sets env s e input known (create1, update2) = Inr (create3, update3)"
    "upsertEventPricing s e create3 update3 = (row, s')"
  using assms unfolding updatePricingCore_def Let_def
  by (auto split: option.split_asm simp: sbind_Inr_iff)

lemma updatePricingCore_allowed:
  assumes "updatePricingCore env e input known s = Inr (row, s')"
    "known = None \<or> known = Some (ep_rules (current_row s e))"
  shows "write_allowed env e input (ep_rules (current_row s e)) s"
proof -
  obtain gate create1 update1 update2 create3 update3 sets0 where
    g: "getEventPricingGate s e = Some gate" and w: "assertEventWritable (pg_status gate) = Inr ()"
    and m: "assertModuleEnabledForClient (pg_clientActive gate) (pg_enabledModules gate) ''pricing'' = Inr ()"
    and p: "assertMoneyPrecision (px_icu env) (set_or (or_else (pi_currency input) (pg_currentCurrency gate)) ''TND'')
       (set_or (pi_basePrice input) None # map (\<lambda>r. Some (pr_price r)) (set_or (pi_rules input) [])) = Inr ()"
    and f: "flag_sets env s e input sets0 = Inr (create1, update1)"
    and c: "currency_set env s e gate input update1 = Inr update2"
    and r: "rule_sets env s e input known (create1, update2) = Inr (create3, update3)"
    by (rule core_stages[OF assms(1)]) blast
  show ?thesis
    unfolding write_allowed_def
    using gate_facts[OF g] w module_guard[OF m] p[unfolded assertMoneyPrecision_Inr]
      flag_sets_guard[OF f] currency_set_guard[OF c g] rule_sets_guard[OF r _ assms(2)]
    by (auto simp: assertEventWritable_def)
qed

lemma pricing_of_key: "pricing_of s e = Some r \<Longrightarrow> ep_eventId r = e"
  by (auto simp: pricing_of_def dest: row_of_Some)

lemma row_of_snoc: "row_of key k (t @ [r]) = (case row_of key k t of None \<Rightarrow> if key r = k then Some r else None | Some x \<Rightarrow> Some x)"
  by (induction t) (auto simp: row_of_def)

lemma updatePricingCore_row:
  assumes "updatePricingCore env e input known s = Inr (row, s')"
  shows "row = patched input (current_row s e) \<and> pricing_of s' e = Some row
    \<and> (\<forall>e'. e' \<noteq> e \<longrightarrow> pricing_of s' e' = pricing_of s e') \<and> s' = s\<lparr>pd_pricing := pd_pricing s'\<rparr>"
proof -
  obtain gate create1 update1 update2 create3 update3 where
    f: "flag_sets env s e input
       (\<lparr>ps_basePrice = Some (set_or (set_or (pi_basePrice input) None) 0), ps_isFree = None, ps_autoAccept = None,
         ps_currency = Some (set_or (pi_currency input) ''TND''), ps_rules = None, ps_payment = pi_payment input\<rparr>,
        \<lparr>ps_basePrice = map_option (\<lambda>b. set_or b 0) (pi_basePrice input), ps_isFree = None, ps_autoAccept = None,
         ps_currency = None, ps_rules = None, ps_payment = pi_payment input\<rparr>) = Inr (create1, update1)"
    and c: "currency_set env s e gate input update1 = Inr update2"
    and r: "rule_sets env s e input known (create1, update2) = Inr (create3, update3)"
    and u: "upsertEventPricing s e create3 update3 = (row, s')"
    by (rule core_stages[OF assms]) blast
  note fl = flag_sets_Inr[OF f]
  note rl = rule_sets_Inr[OF r]
  have set: "set_or (or_else x None) d = set_or x d" for x and d by (cases x) simp_all
  have upd: "update3 = update1\<lparr>ps_currency := or_else (pi_currency input) (ps_currency update1),
      ps_rules := or_else (pi_rules input) (ps_rules update1)\<rparr>"
    using rl currency_set_Inr[OF c] by simp
  show ?thesis
  proof (cases "pricing_of s e")
    case None
    have cur: "current_row s e = default_pricing e" by (simp add: current_row_def None)
    have row: "row = apply_set create3 (default_pricing e)" and s': "s' = s\<lparr>pd_pricing := pd_pricing s @ [row]\<rparr>"
      using u None by (auto simp: upsertEventPricing_def Let_def)
    have b: "set_or (set_or (pi_basePrice input) None) 0 = set_or (map_option (\<lambda>b. set_or b 0) (pi_basePrice input)) 0"
      by (cases "pi_basePrice input") simp_all
    have "row = patched input (current_row s e)"
      unfolding row patched_def Let_def apply_set_def conjunct1[OF rl] conjunct1[OF fl] cur
      by (simp add: flagged_sel set default_pricing_def b)
    moreover have "pricing_of s' e = Some row" "pricing_of s' e' = pricing_of s e'" if "e' \<noteq> e" for e'
      using None that by (auto simp: pricing_of_def s' row row_of_snoc apply_set_def split: option.split)
    ultimately show ?thesis using s' by (auto simp: None)
  next
    case (Some old)
    have cur: "current_row s e = old" by (simp add: current_row_def Some)
    have row: "row = apply_set update3 old"
      and s': "s' = s\<lparr>pd_pricing := update_rows (\<lambda>r. ep_eventId r = e) (apply_set update3) (pd_pricing s)\<rparr>"
      using u Some by (auto simp: upsertEventPricing_def)
    have "row = patched input (current_row s e)"
      unfolding row patched_def Let_def apply_set_def upd conjunct2[OF fl] cur
      by (simp add: flagged_sel set)
    moreover have "pricing_of s' e = Some row" "\<forall>e'. e' \<noteq> e \<longrightarrow> pricing_of s' e' = pricing_of s e'"
      using Some by (auto simp: pricing_of_def s' row row_of_update_key apply_set_def)
    ultimately show ?thesis using s' by auto
  qed
qed

section \<open>Every stored price list\<close>

text \<open>
  Free events have base price 0, only they accept by themselves, there are at most
  \<open>MAX_PRICING_RULES\<close> rules, and every price is a whole number of the currency's minor units.
\<close>

definition exact_in :: "(string \<Rightarrow> nat option) \<Rightarrow> string \<Rightarrow> money \<Rightarrow> bool" where
  "exact_in icu currency v \<longleftrightarrow> v = 0 \<or> (\<exists>m. toMinorUnits icu v currency = Inr m)"

definition pricing_ok :: "(string \<Rightarrow> nat option) \<Rightarrow> pricing_row \<Rightarrow> bool" where
  "pricing_ok icu row \<longleftrightarrow>
     (ep_isFree row \<longrightarrow> ep_basePrice row = 0) \<and> (ep_autoAccept row \<longrightarrow> ep_isFree row)
   \<and> length (ep_rules row) \<le> MAX_PRICING_RULES
   \<and> exact_in icu (ep_currency row) (ep_basePrice row)
   \<and> (\<forall>r \<in> set (ep_rules row). exact_in icu (ep_currency row) (pr_price r))"

definition rules_bounded :: "pricing_input \<Rightarrow> bool" where
  "rules_bounded input \<longleftrightarrow> (case pi_rules input of None \<Rightarrow> True | Some rules \<Rightarrow> length rules \<le> MAX_PRICING_RULES)"

lemma amounts_exact_Cons: "amounts_exact icu c (a # as) \<longleftrightarrow>
    (\<forall>v. a = Some v \<longrightarrow> (\<exists>m. toMinorUnits icu v c = Inr m)) \<and> amounts_exact icu c as"
  by (auto simp: amounts_exact_def)

lemma amounts_exact_rules: "amounts_exact icu c (map (\<lambda>r. Some (pr_price r)) rules) \<Longrightarrow> r \<in> set rules \<Longrightarrow> exact_in icu c (pr_price r)"
  by (auto simp: amounts_exact_def exact_in_def)

lemma patched_sel:
  "ep_currency (patched input row) = set_or (pi_currency input) (ep_currency row)"
  "ep_rules (patched input row) = set_or (pi_rules input) (ep_rules row)"
  "ep_isFree (patched input row) = set_or (pi_isFree input) (ep_isFree row)"
  "ep_autoAccept (patched input row) = (if pi_isFree input \<noteq> None \<or> pi_autoAccept input \<noteq> None
     then set_or (pi_isFree input) (ep_isFree row) \<and> set_or (pi_autoAccept input) (ep_autoAccept row) else ep_autoAccept row)"
  "ep_basePrice (patched input row) =
     (if (pi_isFree input \<noteq> None \<or> pi_autoAccept input \<noteq> None \<or> pi_basePrice input \<noteq> None) \<and> set_or (pi_isFree input) (ep_isFree row)
      then 0 else set_or (map_option (\<lambda>b. set_or b 0) (pi_basePrice input)) (ep_basePrice row))"
  "ep_eventId (patched input row) = ep_eventId row"
  by (simp_all add: patched_def Let_def)

lemma patched_exact:
  assumes ok: "pricing_ok (px_icu env) (current_row s e)" and al: "write_allowed env e input rs s"
    and st: "\<And>b. map_option ep_basePrice (pricing_of s e) = None \<Longrightarrow> ep_basePrice (current_row s e) = 0"
  shows "exact_in (px_icu env) (set_or (pi_currency input) (ep_currency (current_row s e)))
      (set_or (map_option (\<lambda>b. set_or b 0) (pi_basePrice input)) (ep_basePrice (current_row s e)))
    \<and> (\<forall>r \<in> set (set_or (pi_rules input) (ep_rules (current_row s e))).
        exact_in (px_icu env) (set_or (pi_currency input) (ep_currency (current_row s e))) (pr_price r))"
proof -
  let ?row = "current_row s e" and ?icu = "px_icu env"
  let ?c = "set_or (pi_currency input) (ep_currency ?row)"
  have given: "amounts_exact ?icu ?c (set_or (pi_basePrice input) None # map (\<lambda>r. Some (pr_price r)) (set_or (pi_rules input) []))"
    using al by (simp add: write_allowed_def)
  have moved: "amounts_exact ?icu ?c
           (or_else (set_or (pi_basePrice input) None) (map_option ep_basePrice (pricing_of s e))
            # map (\<lambda>r. Some (pr_price r)) (set_or (pi_rules input) (ep_rules ?row)))" if "?c \<noteq> ep_currency ?row"
    using al that unfolding write_allowed_def by (cases "pi_currency input") auto
  have kept: "exact_in ?icu ?c (ep_basePrice ?row)" if "pi_basePrice input = None"
  proof (cases "?c = ep_currency ?row")
    case True
    then show ?thesis using ok by (simp add: pricing_ok_def)
  next
    case False
    show ?thesis
      using moved[OF False] that st unfolding amounts_exact_Cons
      by (cases "pricing_of s e") (auto simp: exact_in_def current_row_def)
  qed
  have base: "exact_in ?icu ?c (set_or (map_option (\<lambda>b. set_or b 0) (pi_basePrice input)) (ep_basePrice ?row))"
  proof (cases "pi_basePrice input")
    case None
    with kept show ?thesis by simp
  next
    case (Some b)
    then show ?thesis using given unfolding amounts_exact_Cons by (cases b) (auto simp: exact_in_def)
  qed
  have rules: "exact_in ?icu ?c (pr_price r)" if r: "r \<in> set (set_or (pi_rules input) (ep_rules ?row))" for r
  proof (cases "pi_rules input")
    case (Some rules)
    then show ?thesis using given r unfolding amounts_exact_Cons by (auto intro: amounts_exact_rules)
  next
    case None
    show ?thesis
    proof (cases "?c = ep_currency ?row")
      case True
      then show ?thesis using ok r None by (simp add: pricing_ok_def)
    next
      case False
      show ?thesis using moved[OF False] r None unfolding amounts_exact_Cons by (auto intro: amounts_exact_rules)
    qed
  qed
  show ?thesis using base rules by blast
qed

lemma default_pricing_ok: "pricing_ok icu (default_pricing e)"
  by (simp add: pricing_ok_def exact_in_def)

lemma updatePricingCore_ok:
  assumes "updatePricingCore env e input known s = Inr (row, s')"
    "known = None \<or> known = Some (ep_rules (current_row s e))" "pricing_ok (px_icu env) (current_row s e)"
    "rules_bounded input"
  shows "pricing_ok (px_icu env) row"
proof -
  let ?row = "current_row s e"
  have al: "write_allowed env e input (ep_rules ?row) s" using updatePricingCore_allowed[OF assms(1,2)] .
  have row: "row = patched input ?row" using updatePricingCore_row[OF assms(1)] by blast
  have st: "map_option ep_basePrice (pricing_of s e) = None \<Longrightarrow> ep_basePrice ?row = 0" by (simp add: current_row_def)
  have ex: "exact_in icu c 0" for icu c by (simp add: exact_in_def)
  have acc: "pi_autoAccept input = Some True \<longrightarrow> set_or (pi_isFree input) (ep_isFree ?row)"
    using al by (simp add: write_allowed_def)
  have len: "length (set_or (pi_rules input) (ep_rules ?row)) \<le> MAX_PRICING_RULES"
    using assms(3,4) by (cases "pi_rules input") (auto simp: rules_bounded_def pricing_ok_def)
  show ?thesis
    unfolding pricing_ok_def row patched_sel
    using patched_exact[OF assms(3) al st] assms(3) acc len ex
    by (auto simp: pricing_ok_def)
qed

section \<open>The invariant of the table\<close>

text \<open>What the request schema of a PATCH bounds: the number of rules, and the length of a currency code.\<close>

definition patch_schema :: "pricing_input \<Rightarrow> bool" where
  "patch_schema input \<longleftrightarrow> rules_bounded input \<and>
    (case pi_currency input of None \<Rightarrow> True | Some c \<Rightarrow> length c = 3)"

definition pricing_inv :: "pricing_env \<Rightarrow> pricing_db \<Rightarrow> bool" where
  "pricing_inv env s \<longleftrightarrow> distinct (map ep_eventId (pd_pricing s)) \<and> 
    (\<forall>row \<in> set (pd_pricing s). pricing_ok (px_icu env) row \<and> length (ep_currency row) = 3)"

lemma pricing_inv_current:
  "pricing_inv env s \<Longrightarrow> pricing_ok (px_icu env) (current_row s e) \<and> length (ep_currency (current_row s e)) = 3"
  by (cases "pricing_of s e")
    (auto simp: current_row_def default_pricing_ok pricing_inv_def pricing_of_def dest: row_of_Some)

lemma upsert_distinct:
  assumes "distinct (map ep_eventId (pd_pricing s))" "upsertEventPricing s e c u = (row, s')"
  shows "distinct (map ep_eventId (pd_pricing s'))"
proof (cases "pricing_of s e")
  case None
  then have "e \<notin> ep_eventId ` set (pd_pricing s)" by (simp add: pricing_of_def row_of_None)
  with assms None show ?thesis by (auto simp: upsertEventPricing_def Let_def apply_set_def)
next
  case (Some r)
  have "map ep_eventId (update_rows (\<lambda>r. ep_eventId r = e) (apply_set u) (pd_pricing s)) = map ep_eventId (pd_pricing s)"
    by (rule keys_update_rows) (simp add: apply_set_def)
  with assms Some show ?thesis by (auto simp: upsertEventPricing_def)
qed

lemma core_inv:
  assumes "pricing_inv env s" "updatePricingCore env e input known s = Inr (row, s')"
    "known = None \<or> known = Some (ep_rules (current_row s e))" "patch_schema input"
  shows "pricing_inv env s'"
proof -
  have d: "distinct (map ep_eventId (pd_pricing s'))"
    using core_stages[OF assms(2)] upsert_distinct assms(1) unfolding pricing_inv_def by metis
  have "pricing_ok (px_icu env) r \<and> length (ep_currency r) = 3" if "r \<in> set (pd_pricing s')" for r
  proof -
    have r: "pricing_of s' (ep_eventId r) = Some r" unfolding pricing_of_def by (rule row_of_distinct[OF d that])
    show ?thesis
    proof (cases "ep_eventId r = e")
      case True
      then have "r = row" using updatePricingCore_row[OF assms(2)] r by simp
      moreover have "length (ep_currency row) = 3"
        using updatePricingCore_row[OF assms(2)] pricing_inv_current[OF assms(1), of e] assms(4)
        by (cases "pi_currency input") (simp_all add: patched_sel patch_schema_def)
      ultimately show ?thesis
        using updatePricingCore_ok[OF assms(2,3)] pricing_inv_current[OF assms(1), of e] assms(4) by (simp add: patch_schema_def)
    next
      case False
      then have "pricing_of s (ep_eventId r) = Some r" using updatePricingCore_row[OF assms(2)] r by simp
      then show ?thesis using assms(1) by (auto simp: pricing_inv_def pricing_of_def dest: row_of_Some)
    qed
  qed
  with d show ?thesis by (simp add: pricing_inv_def)
qed

lemma mutate_core:
  assumes "mutatePricingRules env e mutate s = Inr (row, s')"
  obtains old rules where "pricing_of s e = Some old" "mutate (ep_rules old) = Inr rules"
    "updatePricingCore env e (no_input\<lparr>pi_rules := Some rules\<rparr>) (Some (ep_rules (current_row s e))) s = Inr (row, s')"
proof -
  obtain old rules where g: "getEventPricing env s e = Inr (Some old)" and m: "mutate (ep_rules old) = Inr rules"
    and c: "updatePricingCore env e (no_input\<lparr>pi_rules := Some rules\<rparr>) (Some (ep_rules old)) s = Inr (row, s')"
    using assms unfolding mutatePricingRules_def by (auto simp: sbind_Inr_iff split: option.splits)
  have p: "pricing_of s e = Some old" using getEventPricing_Inr[OF g] by simp
  show thesis using that[OF p m] c by (simp add: current_row_def p)
qed

lemma mutate_inv:
  assumes "pricing_inv env s" "mutatePricingRules env e mutate s = Inr (row, s')"
    "\<And>rs rs'. mutate rs = Inr rs' \<Longrightarrow> length rs \<le> MAX_PRICING_RULES \<Longrightarrow> length rs' \<le> MAX_PRICING_RULES"
  shows "pricing_inv env s'"
proof -
  obtain old rules where m: "pricing_of s e = Some old" "mutate (ep_rules old) = Inr rules"
    and c: "updatePricingCore env e (no_input\<lparr>pi_rules := Some rules\<rparr>) (Some (ep_rules (current_row s e))) s = Inr (row, s')"
    using mutate_core[OF assms(2)] by blast
  have "length (ep_rules old) \<le> MAX_PRICING_RULES"
    using pricing_inv_current[OF assms(1), of e] m(1) by (simp add: current_row_def pricing_ok_def)
  then have "patch_schema (no_input\<lparr>pi_rules := Some rules\<rparr>)"
    using assms(3)[OF m(2)] by (simp add: patch_schema_def rules_bounded_def no_input_def)
  then show ?thesis using core_inv[OF assms(1) c] by blast
qed

lemma length_update_first [simp]: "length (update_first i f rs) = length rs"
  by (induction rs) simp_all

lemma add_rule_inv:
  assumes "addPricingRule env e rule s = Inr (row, s')" "pricing_inv env s"
  shows "pricing_inv env s'"
proof -
  obtain i ids where i: "pd_ids s = i # ids" using assms(1) by (cases "pd_ids s") (auto simp: addPricingRule_def)
  have "pricing_inv env (s\<lparr>pd_ids := ids\<rparr>)" using assms(2) by (simp add: pricing_inv_def)
  then show ?thesis
    by (rule mutate_inv) (use assms(1) i in \<open>auto simp: addPricingRule_def split: if_split_asm\<close>)
qed

lemma change_rule_inv: "updatePricingRule env e i upd s = Inr (row, s') \<Longrightarrow> pricing_inv env s \<Longrightarrow> pricing_inv env s'"
  unfolding updatePricingRule_def by (rule mutate_inv) (auto split: if_split_asm)

lemma delete_rule_inv: "deletePricingRule env e i s = Inr (row, s') \<Longrightarrow> pricing_inv env s \<Longrightarrow> pricing_inv env s'"
  unfolding deletePricingRule_def by (rule mutate_inv) (auto split: if_split_asm intro: le_trans[OF length_filter_le])

definition demo_event :: pricing_event where
  "demo_event = \<lparr>pe_id = ''e'', pe_status = Ev_open, pe_endDate = 0, pe_clientActive = True, pe_enabledModules = Some [''pricing'']\<rparr>"

definition demo_pricing_env :: pricing_env where
  "demo_pricing_env = \<lparr>px_icu = (\<lambda>c. if c = ''TND'' then Some 3 else Some 2), px_uuid = (\<lambda>s. True), px_enforce = True,
     px_formOk = (\<lambda>f. True), px_form = demo_env\<rparr>"

definition demo_pricing_db :: pricing_db where
  "demo_pricing_db = \<lparr>pd_events = [demo_event], pd_pricing = [], pd_registrations = [], pd_access = [],
     pd_sponsorships = [], pd_forms = [], pd_ids = [''r1'']\<rparr>"

text \<open>A paid price list in dinars, then made free.\<close>

definition demo_patch :: pricing_input where
  "demo_patch = no_input\<lparr>pi_basePrice := Some (Some 500000), pi_currency := Some ''TND''\<rparr>"

definition demo_row :: pricing_row where
  "demo_row = (default_pricing ''e'')\<lparr>ep_basePrice := 500000\<rparr>"

lemma demo_patch_ok: "updateEventPricing demo_pricing_env ''e'' demo_patch demo_pricing_db
    = Inr (demo_row, demo_pricing_db\<lparr>pd_pricing := [demo_row]\<rparr>)"
  by code_simp

lemma demo_free_ok: "updateEventPricing demo_pricing_env ''e'' (no_input\<lparr>pi_isFree := Some True, pi_autoAccept := Some True\<rparr>)
    (demo_pricing_db\<lparr>pd_pricing := [demo_row]\<rparr>)
    = Inr (demo_row\<lparr>ep_basePrice := 0, ep_isFree := True, ep_autoAccept := True\<rparr>,
       demo_pricing_db\<lparr>pd_pricing := [demo_row\<lparr>ep_basePrice := 0, ep_isFree := True, ep_autoAccept := True\<rparr>]\<rparr>)"
  by code_simp

text \<open>
  The currency of an event with registrations cannot change: no pricing write that commits while a
  registration exists stores a price list in another currency.
\<close>

theorem currency_locked:
  assumes "updatePricingCore env e input known s = Inr (row, s')" "0 < countRegistrations s e"
  shows "ep_currency row = ep_currency (current_row s e) \<and> ep_currency (current_row s' e) = ep_currency (current_row s e)"
proof -
  obtain gate create1 update1 update2 create3 update3 where
    g: "getEventPricingGate s e = Some gate" and c: "currency_set env s e gate input update1 = Inr update2"
    by (rule core_stages[OF assms(1)]) blast
  have row: "row = patched input (current_row s e)" "pricing_of s' e = Some row"
    using updatePricingCore_row[OF assms(1)] by blast+
  have "set_or (pi_currency input) (ep_currency (current_row s e)) = ep_currency (current_row s e)"
    using currency_set_guard[OF c g] assms(2) by (cases "pi_currency input") auto
  with row show ?thesis by (simp add: patched_sel current_row_def[of s'])
qed

definition demo_registration :: registration_row where
  "demo_registration = \<lparr>rg_id = ''g'', rg_eventId = ''e'', rg_email = ''a@b'', rg_firstName = None, rg_lastName = None,
     rg_paymentStatus = PENDING, rg_paidAt = None, rg_paidAmount = 0, rg_totalAmount = 500000, rg_sponsorshipAmount = 0,
     rg_priceBreakdown = \<lparr>pb_basePrice = 500000, pb_appliedRules = [], pb_calculatedBasePrice = 500000, pb_accessItems = [],
       pb_accessTotal = 0, pb_subtotal = 500000, pb_sponsorships = [], pb_sponsorshipTotal = 0, pb_total = 500000,
       pb_currency = ''TND'', pb_droppedAccessItems = None, pb_optionModifiers = None, pb_optionModifiersTotal = None, pb_money = None\<rparr>,
     rg_baseAmount = 500000, rg_accessAmount = 0, rg_discountAmount = 0, rg_paymentMethod = None, rg_sponsorshipCode = None,
     rg_accessTypeIds = None, rg_droppedAccessIds = None, rg_createdAt = 0, rg_updatedAt = 0, rg_formId = ''form'', rg_formData = [], rg_formSchemaVersion = 1, rg_networkingOptIn = None,
    rg_submittedAt = 0, rg_phone = None, rg_referenceNumber = None, rg_currency = ''TND'', rg_paymentReference = None,
    rg_paymentProofUrl = None, rg_labName = None, rg_lastEditedAt = None, rg_editToken = None, rg_linkBaseUrl = None,
    rg_idempotencyKey = None, rg_note = None, rg_role = PARTICIPANT,
    rg_checkedInAt = None, rg_checkedInBy = None\<rparr>"

theorem currency_locked_witness:
  "ep_currency (demo_row\<lparr>ep_basePrice := 600000\<rparr>) = ''TND''"
proof -
  let ?s = "demo_pricing_db\<lparr>pd_pricing := [demo_row], pd_registrations := [demo_registration]\<rparr>"
  have c: "updatePricingCore demo_pricing_env ''e'' (no_input\<lparr>pi_basePrice := Some (Some 600000)\<rparr>) None ?s
      = Inr (demo_row\<lparr>ep_basePrice := 600000\<rparr>, ?s\<lparr>pd_pricing := [demo_row\<lparr>ep_basePrice := 600000\<rparr>]\<rparr>)"
    by code_simp
  have "0 < countRegistrations ?s ''e''" by code_simp
  moreover have "ep_currency (current_row ?s ''e'') = ''TND''" by code_simp
  ultimately show ?thesis using currency_locked[OF c] by simp
qed

text \<open>
  A committed PATCH of the rules either left a rule alone or checked it: every stored rule either has the
  fingerprint of the old rule with its id, and so selects exactly the registrations the old one did, or it
  is free of contradictions. The conditions are of the kinds their type allows.
\<close>

definition typed_rule :: "pricing_rule \<Rightarrow> bool" where
  "typed_rule r \<longleftrightarrow> (\<forall>c \<in> set (pr_conditions r). condition_value_type (cn_value c))"

lemma storedSignatures_Some: "storedSignatures rs i = Some g \<Longrightarrow>
    \<exists>r \<in> set rs. pr_id r = i \<and> g = conditionSetSignature (pr_conditions r) (pr_conditionLogic r)"
  unfolding storedSignatures_def by (drule map_of_SomeD) auto

theorem committed_rules_checked:
  assumes "updateEventPricing env e input s = Inr (row, s')" "pi_rules input = Some rules" "r \<in> set (ep_rules row)"
    "\<forall>r \<in> set rules. typed_rule r" "\<forall>r \<in> set (ep_rules (current_row s e)). typed_rule r"
  shows "findConditionConflicts (pr_conditions r) (pr_conditionLogic r) None = []
    \<or> (\<exists>old \<in> set (ep_rules (current_row s e)). pr_id old = pr_id r
        \<and> (\<forall>data. evaluateRuleConditions (pr_conditions r) (pr_conditionLogic r) data
              = evaluateRuleConditions (pr_conditions old) (pr_conditionLogic old) data))"
proof -
  let ?old = "ep_rules (current_row s e)"
  have core: "updatePricingCore env e input None s = Inr (row, s')" using assms(1) by (simp add: updateEventPricing_def)
  have r: "r \<in> set rules"
    using updatePricingCore_row[OF core] assms(2,3) by (simp add: patched_sel)
  have v: "validateChangedPricingRules env s e rules ?old = Inr ()"
    using updatePricingCore_allowed[OF core] assms(2) by (simp add: write_allowed_def)
  show ?thesis
  proof (cases "r \<in> set (rulesToValidate rules ?old)")
    case True
    have "\<exists>ys. smap (\<lambda>r. guard (findConditionConflicts (pr_conditions r) (pr_conditionLogic r) None = []) unsatisfiable)
        (rulesToValidate rules ?old) = Inr ys"
      using v by (auto simp: validateChangedPricingRules_def Let_def sbind_Inr_iff)
    with True show ?thesis unfolding smap_Inr_ex by auto
  next
    case False
    then have "storedSignatures ?old (pr_id r) = Some (conditionSetSignature (pr_conditions r) (pr_conditionLogic r))"
      using r by (simp add: rulesToValidate_def)
    then obtain old where old: "old \<in> set ?old" "pr_id old = pr_id r"
      and sg: "conditionSetSignature (pr_conditions r) (pr_conditionLogic r) = conditionSetSignature (pr_conditions old) (pr_conditionLogic old)"
      using storedSignatures_Some by blast
    have "\<forall>c \<in> set (pr_conditions r) \<union> set (pr_conditions old). condition_value_type (cn_value c)"
      using assms(4,5) r old(1) by (auto simp: typed_rule_def)
    with equal_signatures_evaluate[OF sg] old show ?thesis by blast
  qed
qed

definition demo_rule :: pricing_rule where
  "demo_rule = \<lparr>pr_id = ''p'', pr_name = ''Student'', pr_description = None, pr_priority = 1,
     pr_conditions = [\<lparr>cn_fieldId = ''kind'', cn_operator = ''equals'', cn_value = J_str ''student''\<rparr>],
     pr_conditionLogic = ''AND'', pr_price = 100000, pr_active = True\<rparr>"

theorem committed_rules_checked_witness:
  "findConditionConflicts (pr_conditions demo_rule) (pr_conditionLogic demo_rule) None = []"
proof -
  let ?in = "no_input\<lparr>pi_rules := Some [demo_rule]\<rparr>" and ?s = "demo_pricing_db\<lparr>pd_pricing := [demo_row]\<rparr>"
  have c: "updateEventPricing demo_pricing_env ''e'' ?in ?s
      = Inr (demo_row\<lparr>ep_rules := [demo_rule]\<rparr>, demo_pricing_db\<lparr>pd_pricing := [demo_row\<lparr>ep_rules := [demo_rule]\<rparr>]\<rparr>)"
    by code_simp
  have t: "typed_rule demo_rule" by (simp add: typed_rule_def demo_rule_def condition_value_type_def)
  have o: "ep_rules (current_row ?s ''e'') = []" by code_simp
  show ?thesis
    using committed_rules_checked[OF c, of "[demo_rule]" demo_rule] t o by (simp add: no_input_def)
qed

end
