(* ===== verification/PricingProps.thy ===== *)
theory PricingProps
  imports PricingQuote PricingRules
begin

text \<open>Properties of the price quote.\<close>

section \<open>Which rule sets the base price\<close>

lemma find_hd_filter: "find P xs = (if filter P xs = [] then None else Some (hd (filter P xs)))"
  by (induction xs) auto

lemma hd_sort_key_min:
  assumes "xs \<noteq> []"
  shows "\<forall>x \<in> set xs. f (hd (sort_key f xs)) \<le> f x"
proof -
  obtain y ys where y: "sort_key f xs = y # ys" using assms by (cases "sort_key f xs") (auto dest: arg_cong[where f = length])
  have "sorted (map f (y # ys))" using sorted_sort_key[of f xs] y by simp
  moreover have "set xs = set (y # ys)" using set_sort[of f xs] y by simp
  ultimately show ?thesis using y by auto
qed

lemma hd_sort_key_stable:
  assumes "xs \<noteq> []"
  shows "hd (sort_key f xs) = hd (filter (\<lambda>x. f x = Min (f ` set xs)) xs)"
proof -
  let ?h = "hd (sort_key f xs)"
  have ne: "sort_key f xs \<noteq> []" using assms by (metis length_0_conv length_sort)
  have h: "?h \<in> set xs" using ne hd_in_set[of "sort_key f xs"] by simp
  have m: "f ?h = Min (f ` set xs)"
    using hd_sort_key_min[OF assms, of f] h by (intro Min_eqI[symmetric]) auto
  have "filter (\<lambda>x. f x = f ?h) (sort_key f xs) = filter (\<lambda>x. f x = f ?h) xs" by (rule sort_key_stable)
  moreover have "hd (filter (\<lambda>x. f x = f ?h) (sort_key f xs)) = ?h" using ne by (cases "sort_key f xs") auto
  ultimately show ?thesis using m by simp
qed

definition matching_rules :: "pricing_rule list \<Rightarrow> form_data \<Rightarrow> pricing_rule list" where
  "matching_rules rules formData = filter (\<lambda>r. pr_active r \<and> rule_matches formData r) rules"

text \<open>
  The rule that sets the base price is the first of those with the highest priority among the active
  rules whose conditions the answers satisfy; with no such rule the base price stands.
\<close>

theorem winning_rule_highest:
  "winning_rule rules formData =
    (if matching_rules rules formData = [] then None
     else Some (hd (filter (\<lambda>r. pr_priority r = Max (pr_priority ` set (matching_rules rules formData)))
       (matching_rules rules formData))))"
proof -
  let ?k = "\<lambda>r. - pr_priority r"
  let ?ms = "filter (rule_matches formData) (filter pr_active rules)"
  have ms: "?ms = matching_rules rules formData" by (simp add: matching_rules_def conj_commute)
  have w: "winning_rule rules formData = (if ?ms = [] then None else Some (hd (sort_key ?k ?ms)))"
  proof -
    have f: "filter (rule_matches formData) (sort_key ?k (filter pr_active rules)) = sort_key ?k ?ms" by (rule filter_sort)
    have "sort_key ?k ?ms = [] \<longleftrightarrow> ?ms = []" by (metis length_0_conv length_sort)
    then show ?thesis unfolding winning_rule_def find_hd_filter f by simp
  qed
  have mm: "Min (?k ` set ms) = - Max (pr_priority ` set ms)" if "ms \<noteq> []" for ms :: "pricing_rule list"
  proof (rule Min_eqI)
    have "Max (pr_priority ` set ms) \<in> pr_priority ` set ms" using that by (intro Max_in) auto
    then show "- Max (pr_priority ` set ms) \<in> ?k ` set ms" by auto
  qed auto
  show ?thesis
  proof (cases "matching_rules rules formData = []")
    case True
    then show ?thesis unfolding w ms by simp
  next
    case False
    have "hd (sort_key ?k (matching_rules rules formData))
        = hd (filter (\<lambda>r. pr_priority r = Max (pr_priority ` set (matching_rules rules formData))) (matching_rules rules formData))"
      unfolding hd_sort_key_stable[OF False] mm[OF False] neg_equal_iff_equal ..
    with False show ?thesis unfolding w ms by simp
  qed
qed

section \<open>The parts are non-negative\<close>

definition prices_nonneg :: "pricing_db \<Rightarrow> string \<Rightarrow> bool" where
  "prices_nonneg s e \<longleftrightarrow>
    (\<forall>row. pricing_of s e = Some row \<longrightarrow> 0 \<le> ep_basePrice row \<and> (\<forall>r \<in> set (ep_rules row). 0 \<le> pr_price r))
  \<and> (\<forall>a \<in> set (pd_access s). 0 \<le> pa_price a \<and> 0 \<le> pa_companionPrice a)
  \<and> (\<forall>r \<in> set (pd_sponsorships s). 0 \<le> sp_totalAmount r)"

lemma smap_elem: "smap f xs = Inr ys \<Longrightarrow> y \<in> set ys \<Longrightarrow> \<exists>x \<in> set xs. f x = Inr y"
  by (induction xs arbitrary: ys) (auto simp: sbind_Inr_iff)

lemma access_price_nonneg:
  assumes "access_price a se = Inr l" "0 \<le> pa_price a" "0 \<le> pa_companionPrice a"
  shows "0 \<le> li_subtotal l"
  using assms unfolding access_price_def Let_def
  by (auto simp: sbind_Inr_iff sumMoney_Inr_iff split: if_split_asm dest!: multiplyMoney_Inr)

lemma access_lines_nonneg:
  assumes "calculateAccessItemsTotal s e items = Inr ls" "\<forall>a \<in> set (pd_access s). 0 \<le> pa_price a \<and> 0 \<le> pa_companionPrice a"
    "l \<in> set ls"
  shows "0 \<le> li_subtotal l"
proof -
  let ?acc = "findEventAccessByIds s e (map se_accessId items)"
  let ?f = "\<lambda>selected. case row_of pa_id (se_accessId selected) ?acc of
           None \<Rightarrow> Inr [] | Some access \<Rightarrow> sbind (access_price access selected) (\<lambda>l. Inr [l])"
  obtain ys where ys: "smap ?f items = Inr ys" "ls = concat ys"
    using assms(1) unfolding calculateAccessItemsTotal_def Let_def by (auto simp: sbind_Inr_iff)
  obtain y where y: "y \<in> set ys" "l \<in> set y" using assms(3) ys(2) by auto
  obtain se where "?f se = Inr y" using smap_elem[OF ys(1) y(1)] by blast
  then obtain a where a: "row_of pa_id (se_accessId se) ?acc = Some a" "access_price a se = Inr l"
    using y(2) by (auto simp: sbind_Inr_iff split: option.splits)
  have "a \<in> set (pd_access s)" using row_of_Some[OF a(1)] by (simp add: findEventAccessByIds_def)
  with assms(2) access_price_nonneg[OF a(2)] show ?thesis by blast
qed

section \<open>Sponsorship codes\<close>

lemma covered_amount_nonneg:
  assumes "rc_calculatedBasePrice r = Some b" "0 \<le> b" "rc_accessItems r = Some items" "\<forall>(k, v) \<in> set items. 0 \<le> v"
  shows "0 \<le> covered_amount c r"
proof -
  have "0 \<le> line_subtotal items k" for k
    using assms(4) by (auto simp: line_subtotal_def split: option.splits dest!: find_SomeD)
  then have "0 \<le> sum_list (map (line_subtotal items) ks)" for ks by (intro sum_list_nonneg) auto
  with assms(1-3) show ?thesis by (simp add: covered_amount_def)
qed

definition lines_total :: "sponsorship_line list \<Rightarrow> money" where
  "lines_total ls = sum_list (map sl_amount (filter sl_valid ls))"

lemma code_line_step:
  assumes "code_line sps reg uc acc = Inr acc'" "0 \<le> fst acc" "\<forall>r \<in> set sps. 0 \<le> sp_totalAmount r"
    "0 \<le> rc_totalAmount reg" "\<And>c. 0 \<le> covered_amount c reg" "\<forall>l \<in> set (snd acc). 0 \<le> sl_amount l"
  shows "0 \<le> fst acc' \<and> (\<forall>l \<in> set (snd acc'). 0 \<le> sl_amount l)
    \<and> fst acc' + lines_total (snd acc') = fst acc + lines_total (snd acc)"
proof (cases "map_of (rev (map (\<lambda>r. (sp_code r, r)) sps)) (fst uc)")
  case None
  with assms show ?thesis by (auto simp: code_line_def lines_total_def)
next
  case (Some sp)
  obtain ap rest where ap: "calculateApplicableAmount (coverage_of sp) reg = Inr ap"
    and r: "subtractMoney (fst acc) (min ap (fst acc)) = Inr rest"
    and acc': "acc' = (max 0 rest, snd acc @ [\<lparr>sl_code = snd uc, sl_amount = min ap (fst acc), sl_valid = True\<rparr>])"
    using assms(1) Some by (auto simp: code_line_def Let_def sbind_Inr_iff)
  have "sp \<in> set sps" using map_of_SomeD[OF Some] by auto
  then have "0 \<le> ap"
    using calculateApplicableAmount_Inr[OF ap] assms(3-5) by (simp add: coverage_of_def)
  moreover have "rest = fst acc - min ap (fst acc)" using subtractMoney_Inr[OF r] .
  ultimately show ?thesis using assms(2,6) unfolding acc' by (auto simp: lines_total_def)
qed

lemma code_lines_total:
  assumes "sfold (code_line sps reg) ncodes acc = Inr acc'" "0 \<le> fst acc" "\<forall>r \<in> set sps. 0 \<le> sp_totalAmount r"
    "0 \<le> rc_totalAmount reg" "\<And>c. 0 \<le> covered_amount c reg" "\<forall>l \<in> set (snd acc). 0 \<le> sl_amount l"
  shows "0 \<le> fst acc' \<and> (\<forall>l \<in> set (snd acc'). 0 \<le> sl_amount l)
    \<and> fst acc' + lines_total (snd acc') = fst acc + lines_total (snd acc)"
  using assms(1,2,6)
proof (induction ncodes arbitrary: acc)
  case (Cons uc ncodes)
  obtain t where t: "code_line sps reg uc acc = Inr t" "sfold (code_line sps reg) ncodes t = Inr acc'"
    using Cons.prems(1) by (auto simp: sbind_Inr_iff)
  note st = code_line_step[OF t(1) Cons.prems(2) assms(3-5) Cons.prems(3)]
  from Cons.IH[OF t(2)] st show ?case by auto
qed simp

lemma validateSponsorshipCodes_bound:
  assumes "validateSponsorshipCodes s codes e base items subtotal = Inr ls"
    and sp: "\<forall>r \<in> set (pd_sponsorships s). 0 \<le> sp_totalAmount r"
    and nn: "0 \<le> base" "\<forall>l \<in> set items. 0 \<le> li_subtotal l" "0 \<le> subtotal"
  shows "(\<forall>l \<in> set ls. 0 \<le> sl_amount l) \<and> lines_total ls \<le> min subtotal (base + sum_list (map li_subtotal items))"
proof (cases "normalizedCodes codes = []")
  case True
  have "0 \<le> sum_list (map li_subtotal items)" using nn(2) by (intro sum_list_nonneg) auto
  with True assms show ?thesis by (simp add: validateSponsorshipCodes_def lines_total_def)
next
  case False
  let ?sps = "findPendingSponsorshipsByCodes s e (map fst (normalizedCodes codes))"
  let ?reg = "\<lparr>rc_totalAmount = subtotal, rc_baseAmount = base, rc_accessTypeIds = map li_accessId items,
    rc_calculatedBasePrice = Some base, rc_accessItems = Some (map (\<lambda>l. (li_accessId l, li_subtotal l)) items)\<rparr>"
  obtain el acc where el: "sumMoney (base # map li_subtotal items) = Inr el"
    and f: "sfold (code_line ?sps ?reg) (normalizedCodes codes) (min subtotal el, []) = Inr acc" and ls: "ls = snd acc"
    using assms(1) False unfolding validateSponsorshipCodes_def Let_def by (auto simp: sbind_Inr_iff)
  have sum: "0 \<le> sum_list (map li_subtotal items)" using nn(2) by (intro sum_list_nonneg) auto
  have e: "el = base + sum_list (map li_subtotal items)" using sumMoney_Inr[OF el] by simp
  have cov: "0 \<le> covered_amount c ?reg" for c
    by (rule covered_amount_nonneg[where b = base and items = "map (\<lambda>l. (li_accessId l, li_subtotal l)) items"]) (use nn in auto)
  have spn: "\<forall>r \<in> set ?sps. 0 \<le> sp_totalAmount r" using sp by (simp add: findPendingSponsorshipsByCodes_def)
  have start: "0 \<le> fst (min subtotal el, [] :: sponsorship_line list)" using e sum nn by simp
  have tot: "0 \<le> rc_totalAmount ?reg" using nn(3) by simp
  have "0 \<le> fst acc \<and> (\<forall>l \<in> set (snd acc). 0 \<le> sl_amount l)
    \<and> fst acc + lines_total (snd acc) = fst (min subtotal el, [] :: sponsorship_line list) + lines_total (snd (min subtotal el, []))"
    by (rule code_lines_total[OF f start spn tot cov]) simp
  then have p: "0 \<le> fst acc" "\<forall>l \<in> set ls. 0 \<le> sl_amount l" and t: "fst acc + lines_total ls = min subtotal el"
    by (simp_all add: ls lines_total_def)
  from p(1) t have "lines_total ls \<le> min subtotal el" by linarith
  with p(2) show ?thesis unfolding e by blast
qed

section \<open>The quote\<close>

text \<open>What every returned quote is made of.\<close>

lemma calculatePrice_parts:
  assumes "calculatePrice env s e input ctx = Inr q"
  obtains gate pricing rest m where
    "getEventPricingGate s e = Some gate" "pricing = set_or (pricing_of s e) (default_pricing e)"
    "pb_calculatedBasePrice q = (case winning_rule (ep_rules pricing) (rq_formData input) of
        None \<Rightarrow> ep_basePrice pricing | Some r \<Rightarrow> pr_price r)"
    "pb_basePrice q = ep_basePrice pricing" "pb_currency q = ep_currency pricing"
    "calculateAccessItemsTotal s e (rq_selectedAccessItems input) = Inr (pb_accessItems q)"
    "sumMoney (map li_subtotal (pb_accessItems q)) = Inr (pb_accessTotal q)"
    "priceOptionModifiers env ctx (rq_formData input) (pb_currency q) = Inr (the (pb_optionModifiers q))"
    "pb_optionModifiers q \<noteq> None"
    "pb_optionModifiersTotal q = Some (sum_list (map om_amount (the (pb_optionModifiers q))))"
    "\<exists>t. sumMoney [pb_calculatedBasePrice q, pb_accessTotal q, optionModifiersTotal_of q] = Inr t \<and> pb_subtotal q = max 0 t"
    "validateSponsorshipCodes s (rq_sponsorshipCodes input) e (pb_calculatedBasePrice q) (pb_accessItems q) (pb_subtotal q)
      = Inr (pb_sponsorships q)"
    "pb_sponsorshipTotal q = lines_total (pb_sponsorships q)"
    "subtractMoney (pb_subtotal q) (pb_sponsorshipTotal q) = Inr rest" "pb_total q = max 0 rest" "pb_money q = Some m"
proof (cases "getEventPricingGate s e")
  case None
  with assms show thesis by (simp add: calculatePrice_def)
next
  case (Some gate)
  let ?pr = "\<lambda>stored. case stored of None \<Rightarrow> default_pricing e | Some row \<Rightarrow> row"
  let ?w = "\<lambda>stored. case winning_rule (ep_rules (?pr stored)) (rq_formData input) of
      None \<Rightarrow> Inr (ep_basePrice (?pr stored), [])
    | Some rule \<Rightarrow> sbind (subtractMoney (pr_price rule) (ep_basePrice (?pr stored))) (\<lambda>effect.
        Inr (pr_price rule, [\<lparr>ar_ruleId = pr_id rule, ar_ruleName = pr_name rule, ar_effect = effect\<rparr>]))"
  obtain stored p acc tot om omt t sps spt rest where
    pr: "getEventPricing env s e = Inr stored" and w: "?w stored = Inr p"
    and acc: "calculateAccessItemsTotal s e (rq_selectedAccessItems input) = Inr acc"
    and tot: "sumMoney (map li_subtotal acc) = Inr tot"
    and om: "priceOptionModifiers env ctx (rq_formData input) (ep_currency (?pr stored)) = Inr om"
    and omt: "sumMoney (map om_amount om) = Inr omt" and t: "sumMoney [fst p, tot, omt] = Inr t"
    and sps: "validateSponsorshipCodes s (rq_sponsorshipCodes input) e (fst p) acc (max 0 t) = Inr sps"
    and spt: "valid_total sps = Inr spt" and rest: "subtractMoney (max 0 t) spt = Inr rest"
    and q: "withBreakdownMoney (px_icu env)
          \<lparr>pb_basePrice = ep_basePrice (?pr stored), pb_appliedRules = snd p, pb_calculatedBasePrice = fst p,
           pb_accessItems = acc, pb_accessTotal = tot, pb_subtotal = max 0 t, pb_sponsorships = sps,
           pb_sponsorshipTotal = spt, pb_total = max 0 rest, pb_currency = ep_currency (?pr stored),
           pb_droppedAccessItems = Some [], pb_optionModifiers = Some om, pb_optionModifiersTotal = Some omt,
           pb_money = None\<rparr> = Inr q"
    using assms unfolding calculatePrice_def Let_def case_prod_beta Some option.case
    by (elim sbind_InrE) blast
  obtain m where qm: "q = \<lparr>pb_basePrice = ep_basePrice (?pr stored), pb_appliedRules = snd p, pb_calculatedBasePrice = fst p,
           pb_accessItems = acc, pb_accessTotal = tot, pb_subtotal = max 0 t, pb_sponsorships = sps,
           pb_sponsorshipTotal = spt, pb_total = max 0 rest, pb_currency = ep_currency (?pr stored),
           pb_droppedAccessItems = Some [], pb_optionModifiers = Some om, pb_optionModifiersTotal = Some omt,
           pb_money = Some m\<rparr>"
    using withBreakdownMoney_Inr[OF q] by auto
  have st: "?pr stored = set_or (pricing_of s e) (default_pricing e)"
    using getEventPricing_Inr[OF pr] by (simp add: set_or_def split: option.split)
  have cb: "fst p = (case winning_rule (ep_rules (?pr stored)) (rq_formData input) of
      None \<Rightarrow> ep_basePrice (?pr stored) | Some r \<Rightarrow> pr_price r)"
    using w by (auto simp: sbind_Inr_iff split: option.splits)
  have lt: "spt = lines_total sps" using sumMoney_Inr[OF spt[unfolded valid_total_def]] by (simp add: lines_total_def)
  show thesis
  proof (rule that[OF Some refl, where rest = rest and m = m])
    show "pb_calculatedBasePrice q = (case winning_rule (ep_rules (set_or (pricing_of s e) (default_pricing e))) (rq_formData input) of
        None \<Rightarrow> ep_basePrice (set_or (pricing_of s e) (default_pricing e)) | Some r \<Rightarrow> pr_price r)"
      unfolding qm price_breakdown.simps cb st ..
  qed (use acc tot om omt t sps lt rest st sumMoney_Inr[OF omt] in \<open>simp_all add: qm optionModifiersTotal_of_def\<close>)
qed

lemma set_or_mem: "set_or x d = d \<or> x = Some (set_or x d)"
  by (cases x) simp_all

lemma base_nonneg:
  assumes "prices_nonneg s e" "pricing = set_or (pricing_of s e) (default_pricing e)"
  shows "0 \<le> (case winning_rule (ep_rules pricing) data of None \<Rightarrow> ep_basePrice pricing | Some r \<Rightarrow> pr_price r)"
proof -
  have "0 \<le> ep_basePrice pricing \<and> (\<forall>r \<in> set (ep_rules pricing). 0 \<le> pr_price r)"
    using assms by (cases "pricing_of s e") (auto simp: prices_nonneg_def)
  moreover have "r \<in> set (ep_rules pricing)" if "winning_rule (ep_rules pricing) data = Some r" for r
    using find_SomeD[OF that[unfolded winning_rule_def]] by simp
  ultimately show ?thesis by (auto split: option.split)
qed

lemma lines_total_nonneg: "\<forall>l \<in> set ls. 0 \<le> sl_amount l \<Longrightarrow> 0 \<le> lines_total ls"
  unfolding lines_total_def by (intro sum_list_nonneg) auto

lemma quote_sums:
  assumes "calculatePrice env s e input ctx = Inr q" "prices_nonneg s e"
  shows "pb_accessTotal q = sum_list (map li_subtotal (pb_accessItems q))"
    and "pb_optionModifiersTotal q = Some (sum_list (map om_amount (the (pb_optionModifiers q))))"
    and "pb_subtotal q = max 0 (pb_calculatedBasePrice q + pb_accessTotal q + the (pb_optionModifiersTotal q))"
    and "pb_sponsorshipTotal q = lines_total (pb_sponsorships q)"
    and "\<forall>l \<in> set (pb_sponsorships q). 0 \<le> sl_amount l"
    and "0 \<le> pb_sponsorshipTotal q"
    and "pb_sponsorshipTotal q \<le> min (pb_subtotal q) (pb_calculatedBasePrice q + pb_accessTotal q)"
    and "pb_total q = pb_subtotal q - pb_sponsorshipTotal q \<and> 0 \<le> pb_total q"
proof -
  obtain gate pricing rest m where
    pr: "pricing = set_or (pricing_of s e) (default_pricing e)"
    and cb: "pb_calculatedBasePrice q = (case winning_rule (ep_rules pricing) (rq_formData input) of
        None \<Rightarrow> ep_basePrice pricing | Some r \<Rightarrow> pr_price r)"
    and acc: "calculateAccessItemsTotal s e (rq_selectedAccessItems input) = Inr (pb_accessItems q)"
    and tot: "sumMoney (map li_subtotal (pb_accessItems q)) = Inr (pb_accessTotal q)"
    and om: "pb_optionModifiersTotal q = Some (sum_list (map om_amount (the (pb_optionModifiers q))))"
    and sub: "\<exists>t. sumMoney [pb_calculatedBasePrice q, pb_accessTotal q, optionModifiersTotal_of q] = Inr t \<and> pb_subtotal q = max 0 t"
    and v: "validateSponsorshipCodes s (rq_sponsorshipCodes input) e (pb_calculatedBasePrice q) (pb_accessItems q) (pb_subtotal q)
      = Inr (pb_sponsorships q)"
    and spt: "pb_sponsorshipTotal q = lines_total (pb_sponsorships q)"
    and rest: "subtractMoney (pb_subtotal q) (pb_sponsorshipTotal q) = Inr rest" and total: "pb_total q = max 0 rest"
    by (rule calculatePrice_parts[OF assms(1)]) blast
  have items: "\<forall>l \<in> set (pb_accessItems q). 0 \<le> li_subtotal l"
    using access_lines_nonneg[OF acc] assms(2) by (auto simp: prices_nonneg_def)
  have t: "pb_accessTotal q = sum_list (map li_subtotal (pb_accessItems q))" and safe: "in_safe_range (pb_accessTotal q)"
    using tot by (auto simp: sumMoney_Inr_iff)
  have t0: "0 \<le> pb_accessTotal q" unfolding t using items by (intro sum_list_nonneg) auto
  have s: "pb_subtotal q = max 0 (pb_calculatedBasePrice q + pb_accessTotal q + the (pb_optionModifiersTotal q))"
    using sub by (auto simp: optionModifiersTotal_of_def om dest!: sumMoney_Inr)
  have b0: "0 \<le> pb_calculatedBasePrice q" unfolding cb by (rule base_nonneg[OF assms(2) pr])
  have sp0: "\<forall>r \<in> set (pd_sponsorships s). 0 \<le> sp_totalAmount r" using assms(2) by (simp add: prices_nonneg_def)
  have s0: "0 \<le> pb_subtotal q" using s by simp
  note bd = validateSponsorshipCodes_bound[OF v sp0 b0 items s0]
  have le: "pb_sponsorshipTotal q \<le> min (pb_subtotal q) (pb_calculatedBasePrice q + pb_accessTotal q)"
    using bd unfolding spt t by blast
  have "pb_total q = pb_subtotal q - pb_sponsorshipTotal q"
    using total subtractMoney_Inr[OF rest] le by simp
  then have "pb_total q = pb_subtotal q - pb_sponsorshipTotal q \<and> 0 \<le> pb_total q" using le by simp
  moreover have "0 \<le> pb_sponsorshipTotal q" unfolding spt using bd by (intro lines_total_nonneg) blast
  moreover note bd
  ultimately show "pb_accessTotal q = sum_list (map li_subtotal (pb_accessItems q))"
    and "pb_optionModifiersTotal q = Some (sum_list (map om_amount (the (pb_optionModifiers q))))"
    and "pb_subtotal q = max 0 (pb_calculatedBasePrice q + pb_accessTotal q + the (pb_optionModifiersTotal q))"
    and "pb_sponsorshipTotal q = lines_total (pb_sponsorships q)"
    and "\<forall>l \<in> set (pb_sponsorships q). 0 \<le> sl_amount l"
    and "0 \<le> pb_sponsorshipTotal q"
    and "pb_sponsorshipTotal q \<le> min (pb_subtotal q) (pb_calculatedBasePrice q + pb_accessTotal q)"
    and "pb_total q = pb_subtotal q - pb_sponsorshipTotal q \<and> 0 \<le> pb_total q"
    using t om s spt le by blast+
qed

text \<open>
  C20: A quote adds up: the access total is the sum of its lines, the subtotal the base price, access and
  option prices (never below zero), and the total what remains after the sponsorships. Sponsorships are
  never negative and together never cover more than the subtotal, nor more than the base and access prices,
  so option prices are never sponsored. Stored prices and sponsorship amounts are not negative.
\<close>

theorem calculatePrice_adds_up:
  assumes "calculatePrice env s e input ctx = Inr q" "prices_nonneg s e"
  shows "pb_accessTotal q = sum_list (map li_subtotal (pb_accessItems q))
    \<and> pb_optionModifiersTotal q = Some (sum_list (map om_amount (the (pb_optionModifiers q))))
    \<and> pb_subtotal q = max 0 (pb_calculatedBasePrice q + pb_accessTotal q + the (pb_optionModifiersTotal q))
    \<and> pb_sponsorshipTotal q = sum_list (map sl_amount (filter sl_valid (pb_sponsorships q)))
    \<and> (\<forall>l \<in> set (pb_sponsorships q). 0 \<le> sl_amount l)
    \<and> 0 \<le> pb_sponsorshipTotal q
    \<and> pb_sponsorshipTotal q \<le> min (pb_subtotal q) (pb_calculatedBasePrice q + pb_accessTotal q)
    \<and> pb_total q = pb_subtotal q - pb_sponsorshipTotal q \<and> 0 \<le> pb_total q"
  using quote_sums[OF assms] unfolding lines_total_def by blast

text \<open>A demo price list: base 50, students 10, an access item of 20 and a sponsorship of the base price.\<close>

definition quote_db :: pricing_db where
  "quote_db = \<lparr>pd_events = [demo_event], pd_pricing = [demo_row\<lparr>ep_rules := [demo_rule]\<rparr>], pd_registrations = [],
     pd_access = [\<lparr>pa_id = ''a'', pa_eventId = ''e'', pa_name = ''Dinner'', pa_price = 200000, pa_companionPrice = 50000, pa_includedInBase = False\<rparr>],
     pd_sponsorships = [\<lparr>sp_id = ''s'', sp_eventId = ''e'', sp_code = ''SP1'', sp_status = Sp_pending, sp_targetRegistrationId = None,
        sp_totalAmount = 400000, sp_coversBasePrice = True, sp_coveredAccessIds = None,
    sp_batchId = ''b1'', sp_beneficiaryName = ''Ada'', sp_beneficiaryEmail = ''ada@x.org'',
    sp_beneficiaryPhone = None, sp_beneficiaryAddress = None, sp_createdAt = 0\<rparr>],
     pd_forms = [], pd_ids = []\<rparr>"

definition quote_request :: price_request where
  "quote_request = \<lparr>rq_formData = [(''kind'', J_str ''student'')],
     rq_selectedAccessItems = [\<lparr>se_accessId = ''a'', se_quantity = 2\<rparr>], rq_sponsorshipCodes = ['' sp1 '']\<rparr>"

definition quote_result :: price_breakdown where
  "quote_result = \<lparr>pb_basePrice = 500000,
     pb_appliedRules = [\<lparr>ar_ruleId = ''p'', ar_ruleName = ''Student'', ar_effect = -400000\<rparr>], pb_calculatedBasePrice = 100000,
     pb_accessItems = [\<lparr>li_accessId = ''a'', li_name = ''Dinner'', li_unitPrice = 200000, li_quantity = 2, li_subtotal = 250000, li_confirmed = False\<rparr>],
     pb_accessTotal = 250000, pb_subtotal = 350000,
     pb_sponsorships = [\<lparr>sl_code = ''sp1'', sl_amount = 100000, sl_valid = True\<rparr>], pb_sponsorshipTotal = 100000,
     pb_total = 250000, pb_currency = ''TND'', pb_droppedAccessItems = Some [], pb_optionModifiers = Some [],
     pb_optionModifiersTotal = Some 0,
     pb_money = Some \<lparr>ms_currency = ''TND'', ms_scale = 3, ms_amountsMinor = [(''basePrice'', 50000), (''calculatedBasePrice'', 10000),
       (''accessTotal'', 25000), (''optionModifiersTotal'', 0), (''subtotal'', 35000), (''sponsorshipTotal'', 10000), (''total'', 25000)]\<rparr>\<rparr>"

lemma quote_example: "calculatePrice demo_pricing_env quote_db ''e'' quote_request None = Inr quote_result"
  by code_simp

lemma quote_db_nonneg: "prices_nonneg quote_db ''e''"
  by (simp add: prices_nonneg_def quote_db_def pricing_of_def row_of_def demo_row_def demo_rule_def default_pricing_def)

theorem calculatePrice_adds_up_witness:
  "pb_total quote_result = pb_subtotal quote_result - pb_sponsorshipTotal quote_result"
  using calculatePrice_adds_up[OF quote_example quote_db_nonneg] by blast

text \<open>
  C21: The settlement writer never refuses a quote: stored as a registration's breakdown, with the quote's
  subtotal and sponsorship as the row's, it passes every check of the writer. The amounts are within the
  range of a stored amount.
\<close>

theorem quote_passes_writer:
  assumes "calculatePrice env s e input ctx = Inr q" "prices_nonneg s e"
    "isAmount (pb_calculatedBasePrice q)" "isAmount (pb_accessTotal q)" "isAmount (pb_subtotal q)"
  shows "breakdownViolations (pb_subtotal q) (pb_sponsorshipTotal q) q = Inr []"
proof -
  note qs = quote_sums[OF assms(1,2)]
  have le: "pb_sponsorshipTotal q \<le> pb_subtotal q" using qs(7) by simp
  have am: "isAmount (pb_sponsorshipTotal q)" "isAmount (pb_total q)"
    using assms(5) qs(6,8) le by (auto simp: isAmount_def)
  have acc: "sumMoney (map li_subtotal (pb_accessItems q)) = Inr (pb_accessTotal q)"
    by (rule calculatePrice_parts[OF assms(1)])
  obtain t where t: "sumMoney [pb_calculatedBasePrice q, pb_accessTotal q, optionModifiersTotal_of q] = Inr t"
    "pb_subtotal q = max 0 t"
    by (rule calculatePrice_parts[OF assms(1)]) blast
  obtain rest where r: "subtractMoney (pb_subtotal q) (pb_sponsorshipTotal q) = Inr rest" "pb_total q = max 0 rest"
    by (rule calculatePrice_parts[OF assms(1)]) blast
  have rest: "rest = pb_subtotal q - pb_sponsorshipTotal q" using subtractMoney_Inr[OF r(1)] .
  show ?thesis
    unfolding breakdownViolations_def Let_def using assms(3-5) am acc t r(1) rest le qs(8) by (auto simp: max_def split: if_split_asm)
qed

theorem quote_passes_writer_witness: "breakdownViolations 350000 100000 quote_result = Inr []"
  using quote_passes_writer[OF quote_example quote_db_nonneg]
  by (simp add: quote_result_def isAmount_def)

section \<open>Saved option prices\<close>

definition priced_fields :: "form_schema \<Rightarrow> form_field list" where
  "priced_fields schema = filter (\<lambda>f. ff_type f \<in> set pricedTypes)
     (concat (map (\<lambda>st. case st of None \<Rightarrow> [] | Some fs \<Rightarrow> fs) (case fs_steps schema of None \<Rightarrow> [] | Some steps \<Rightarrow> steps)))"

lemma smap_priced:
  "sbind (smap (field_lines icu cur prev answers) fs) (\<lambda>ls. Inr (concat ls))
    = sbind (smap (field_lines icu cur prev answers) (filter (\<lambda>f. ff_type f \<in> set pricedTypes) fs)) (\<lambda>ls. Inr (concat ls))"
proof (induction fs)
  case (Cons f fs)
  show ?case
  proof (cases "ff_type f \<in> set pricedTypes")
    case True
    have "sbind (sbind m (\<lambda>ys. Inr (y # ys))) (\<lambda>ls. Inr (concat ls)) = sbind (sbind m (\<lambda>ls. Inr (concat ls))) (\<lambda>r. Inr (y @ r))"
      for m :: "error + option_line list list" and y by (cases m) simp_all
    with Cons True show ?thesis by (cases "field_lines icu cur prev answers f") simp_all
  next
    case False
    then have "field_lines icu cur prev answers f = Inr []" by (simp add: field_lines_def)
    moreover have "sbind (sbind m (\<lambda>ys. Inr ([] # ys))) (\<lambda>ls. Inr (concat ls)) = sbind m (\<lambda>ls. Inr (concat ls))"
      for m :: "error + option_line list list" by (cases m) simp_all
    ultimately show ?thesis using Cons False by simp
  qed
qed simp

lemma priceOptionModifiers_priced:
  assumes "validateFormData (px_form env) (Some schema) data (Some False) = Inr answers"
  shows "priceOptionModifiers env (Some \<lparr>oc_formSchema = Some schema, oc_previous = prev\<rparr>) data cur
    = sbind (smap (field_lines (px_icu env) cur prev answers) (priced_fields schema)) (\<lambda>ls. Inr (concat ls))"
  unfolding priced_fields_def smap_priced[symmetric] using assms by (simp add: priceOptionModifiers_def)

lemma option_lines_of:
  "option_lines icu cur fid selected opts seen = Inr ls \<Longrightarrow> l \<in> set ls \<Longrightarrow> om_fieldId l = fid \<and> om_optionId l \<in> set selected"
  by (induction icu cur fid selected opts seen arbitrary: ls rule: option_lines.induct)
    (auto simp: sbind_Inr_iff split: if_split_asm sum.split_asm)

lemma filter_own_lines:
  assumes "distinct (map ff_id fs)" "f \<in> set fs"
    "\<And>g l. g \<in> set fs \<Longrightarrow> l \<in> set (G g) \<Longrightarrow> om_fieldId l = ff_id g \<and> om_optionId l \<in> S g"
  shows "filter (\<lambda>l. om_fieldId l = ff_id f \<and> om_optionId l \<in> S f) (concat (map G fs)) = G f"
proof -
  obtain xs ys where fs: "fs = xs @ f # ys" using split_list[OF assms(2)] by blast
  have other: "filter (\<lambda>l. om_fieldId l = ff_id f \<and> om_optionId l \<in> S f) (G g) = []" if "g \<in> set fs" "ff_id g \<noteq> ff_id f" for g
    using assms(3)[OF that(1)] that(2) by (auto simp: filter_empty_conv)
  have "filter (\<lambda>l. om_fieldId l = ff_id f \<and> om_optionId l \<in> S f) (concat (map G gs)) = []"
    if "\<forall>g \<in> set gs. g \<in> set fs \<and> ff_id g \<noteq> ff_id f" for gs using that other by (induction gs) auto
  moreover have "\<forall>g \<in> set xs. g \<in> set fs \<and> ff_id g \<noteq> ff_id f" "\<forall>g \<in> set ys. g \<in> set fs \<and> ff_id g \<noteq> ff_id f"
    using assms(1) fs by (auto simp: image_iff)
  moreover have "filter (\<lambda>l. om_fieldId l = ff_id f \<and> om_optionId l \<in> S f) (G f) = G f"
    using assms(2,3) by (auto simp: filter_id_conv)
  ultimately show ?thesis by (simp add: fs)
qed

lemma smap_map: "smap f xs = Inr ys \<Longrightarrow> ys = map (\<lambda>x. case f x of Inr y \<Rightarrow> y) xs"
  by (induction xs arbitrary: ys) (auto simp: sbind_Inr_iff)

lemma smap_Inr_map: "(\<And>x. x \<in> set xs \<Longrightarrow> f x = Inr (g x)) \<Longrightarrow> smap f xs = Inr (map g xs)"
  by (induction xs) auto

text \<open>
  Option prices are charged as they were when the option was chosen: repricing a registration whose
  choices did not change gives exactly the saved option lines, whatever the form's option prices are by then. The
  old and the new form have the same priced fields, with distinct ids.
\<close>

theorem saved_option_prices_kept:
  assumes "priceOptionModifiers env (Some \<lparr>oc_formSchema = Some schema, oc_previous = None\<rparr>) data currency = Inr saved"
    and "validateFormData (px_form env) (Some schema) data (Some False) = Inr answers"
    and "validateFormData (px_form env) (Some schema') data' (Some False) = Inr answers'"
    and "map ff_id (priced_fields schema') = map ff_id (priced_fields schema)" "distinct (map ff_id (priced_fields schema))"
    and "\<forall>f \<in> set (priced_fields schema). selections (field answers (ff_id f)) = selections (field old (ff_id f))
      \<and> selections (field answers' (ff_id f)) = selections (field old (ff_id f))"
  shows "priceOptionModifiers env (Some \<lparr>oc_formSchema = Some schema', oc_previous = Some (old, saved)\<rparr>) data' currency' = Inr saved"
proof -
  let ?fs = "priced_fields schema" and ?fs' = "priced_fields schema'" and ?icu = "px_icu env"
  let ?run = "field_lines ?icu currency None answers"
  define G where "G = (\<lambda>f. case ?run f of Inr y \<Rightarrow> y)"
  define S where "S = (\<lambda>f :: form_field. set (selections (field answers (ff_id f))))"
  obtain ys where ys: "smap ?run ?fs = Inr ys" and saved: "saved = concat ys"
    using assms(1) unfolding priceOptionModifiers_priced[OF assms(2)] by (auto simp: sbind_Inr_iff)
  have saved: "saved = concat (map G ?fs)" unfolding saved G_def using smap_map[OF ys] by simp
  have G: "om_fieldId l = ff_id g \<and> om_optionId l \<in> S g" if "g \<in> set ?fs" "l \<in> set (G g)" for g l
  proof -
    have "\<exists>y. ?run g = Inr y" using ys that(1) smap_Inr_ex[of ?run ?fs] by blast
    then obtain y where y: "?run g = Inr y" by blast
    then have "option_lines ?icu currency (ff_id g) (selections (field answers (ff_id g))) (ff_options g) [] = Inr y"
      using that(1) by (auto simp: field_lines_def priced_fields_def Let_def)
    with option_lines_of that(2) y show ?thesis by (auto simp: G_def S_def)
  qed
  have len: "length ?fs' = length ?fs" using arg_cong[OF assms(4), of length] by simp
  have same: "field_lines ?icu currency' (Some (old, saved)) answers' (?fs' ! i) = Inr (G (?fs ! i))" if i: "i < length ?fs" for i
  proof -
    let ?f = "?fs ! i" and ?f' = "?fs' ! i"
    have f: "?f \<in> set ?fs" "?f' \<in> set ?fs'" using i len by auto
    have idn: "ff_id ?f' = ff_id ?f" using arg_cong[OF assms(4), of "\<lambda>l. l ! i"] i len by simp
    have sel: "selections (field answers' (ff_id ?f)) = selections (field old (ff_id ?f))"
      "S ?f = set (selections (field old (ff_id ?f)))"
      using assms(6) f(1) by (auto simp: S_def)
    have "filter (\<lambda>l. om_fieldId l = ff_id ?f \<and> om_optionId l \<in> S ?f) saved = G ?f"
      unfolding saved by (rule filter_own_lines[OF assms(5) f(1) G])
    moreover have "ff_type ?f' \<in> set pricedTypes" using f(2) unfolding priced_fields_def by simp
    ultimately show ?thesis by (simp add: field_lines_def Let_def idn sel)
  qed
  have "smap (field_lines ?icu currency' (Some (old, saved)) answers') ?fs' = Inr (map G ?fs)"
  proof -
    have "smap (field_lines ?icu currency' (Some (old, saved)) answers') ?fs'
        = Inr (map (\<lambda>f'. case field_lines ?icu currency' (Some (old, saved)) answers' f' of Inr y \<Rightarrow> y) ?fs')"
    proof (rule smap_Inr_map)
      fix f' assume "f' \<in> set ?fs'"
      then obtain i where "i < length ?fs" "f' = ?fs' ! i" using len by (auto simp: in_set_conv_nth)
      then show "field_lines ?icu currency' (Some (old, saved)) answers' f'
        = Inr (case field_lines ?icu currency' (Some (old, saved)) answers' f' of Inr y \<Rightarrow> y)" using same by simp
    qed
    also have "map (\<lambda>f'. case field_lines ?icu currency' (Some (old, saved)) answers' f' of Inr y \<Rightarrow> y) ?fs' = map G ?fs"
      by (rule nth_equalityI) (use len same in auto)
    finally show ?thesis .
  qed
  then show ?thesis unfolding priceOptionModifiers_priced[OF assms(3)] by (simp add: saved)
qed

definition choice_form :: "rat \<Rightarrow> form_schema" where
  "choice_form price = \<lparr>fs_steps = Some [Some
     [(demo_field ''meal'' Ft_radio False)\<lparr>ff_options := [\<lparr>fo_id = ''fish'', fo_label = Some ''Fish'', fo_priceModifier = Some (Fin price)\<rparr>]\<rparr>]],
     fs_sponsorSteps = None, fs_beneficiarySteps = None, fs_accessSelectionRequired = None\<rparr>"

definition fish_line :: option_line where
  "fish_line = \<lparr>om_fieldId = ''meal'', om_optionId = ''fish'', om_label = ''Fish'', om_amount = 100000\<rparr>"

definition choice_data :: form_data where
  "choice_data = [(''meal'', J_str ''fish'')]"

lemma choice_valid: "validateFormData (px_form demo_pricing_env) (Some (choice_form p)) choice_data (Some False) = Inr choice_data"
  by (simp add: validateFormData_def extractSchemaFields_def extractSchemaSteps_def choice_form_def demo_field_def choice_data_def
      validate_field_def isDisplayOnly_def isFieldVisible_def evaluateConditions_def field_def isBlankAnswer_def buildFieldSchema_def
      buildDropdownSchema_def option_ids_def optional_or_blank_def on_text_def no_validation_def Let_def)

theorem saved_option_prices_kept_witness:
  "priceOptionModifiers demo_pricing_env
     (Some \<lparr>oc_formSchema = Some (choice_form 25), oc_previous = Some (choice_data, [fish_line])\<rparr>) choice_data ''TND'' = Inr [fish_line]"
proof (rule saved_option_prices_kept[OF _ choice_valid choice_valid])
  show "priceOptionModifiers demo_pricing_env (Some \<lparr>oc_formSchema = Some (choice_form 10), oc_previous = None\<rparr>) choice_data ''TND''
      = Inr [fish_line]"
    by code_simp
  show "map ff_id (priced_fields (choice_form 25)) = map ff_id (priced_fields (choice_form 10))"
    "distinct (map ff_id (priced_fields (choice_form 10)))"
    by (simp_all add: priced_fields_def choice_form_def demo_field_def pricedTypes_def)
qed simp

section \<open>An option that is stored and not charged\<close>

text \<open>
  The stored answers are the visible ones, and option prices are computed after checking the stored answers
  once more. A question shown because of an answer to a hidden question is stored, and hidden at the
  second check: its option price is not charged.
\<close>

definition hidden_form :: form_schema where
  "hidden_form = \<lparr>fs_steps = Some [Some
     [(demo_field ''member'' Ft_text False)\<lparr>ff_conditions :=
        Some [\<lparr>fc_fieldId = ''kind'', fc_operator = ''equals'', fc_value = J_str ''local''\<rparr>]\<rparr>,
      (demo_field ''meal'' Ft_radio False)\<lparr>
        ff_options := [\<lparr>fo_id = ''fish'', fo_label = Some ''Fish'', fo_priceModifier = Some (Fin 10)\<rparr>],
        ff_conditions := Some [\<lparr>fc_fieldId = ''member'', fc_operator = ''equals'', fc_value = J_str ''yes''\<rparr>]\<rparr>]],
     fs_sponsorSteps = None, fs_beneficiarySteps = None, fs_accessSelectionRequired = None\<rparr>"

lemma hidden_answer_option_unpriced:
  "prepareFormDataForPricing demo_env (Some hidden_form)
      [(''kind'', J_str ''visitor''), (''member'', J_str ''yes''), (''meal'', J_str ''fish'')] None
    = Inr [(''meal'', J_str ''fish'')]
   \<and> priceOptionModifiers demo_pricing_env (Some \<lparr>oc_formSchema = Some hidden_form, oc_previous = None\<rparr>)
      [(''meal'', J_str ''fish'')] ''TND'' = Inr []"
proof
  show "prepareFormDataForPricing demo_env (Some hidden_form)
      [(''kind'', J_str ''visitor''), (''member'', J_str ''yes''), (''meal'', J_str ''fish'')] None
    = Inr [(''meal'', J_str ''fish'')]" by code_simp
  show "priceOptionModifiers demo_pricing_env (Some \<lparr>oc_formSchema = Some hidden_form, oc_previous = None\<rparr>)
      [(''meal'', J_str ''fish'')] ''TND'' = Inr []" by code_simp
qed

end
