(* ===== verification/Access.thy ===== *)
theory Access
  imports PricingWrite "HOL-Library.Product_Lexorder"
begin

text \<open>
  The access items of an event (\<open>apps/api/src/modules/access/access.service.ts\<close>): their tables and queries
  (\<open>packages/db/src/queries/access.ts\<close>), the request schemas (\<open>packages/contracts/src/access.ts\<close>) and the
  checks made before a write. A row of \<open>event_access\<close> extends the columns the settlement reads; the other
  components' tables are views of this state.
\<close>

section \<open>Rows\<close>

datatype access_type =
  WORKSHOP | DINNER | SESSION | NETWORKING | ACCOMMODATION | TRANSPORT | OTHER | ADDON

record event_access = access_row +
  ax_type :: access_type
  ax_description :: "string option"
  ax_location :: "string option"
  ax_startsAt :: "date option"
  ax_endsAt :: "date option"
  ax_price :: money
  ax_currency :: string
  ax_availableFrom :: "date option"
  ax_availableTo :: "date option"
  ax_conditions :: "condition list option"
  ax_conditionLogic :: string
  ax_sortOrder :: int
  ax_groupLabel :: "string option"
  ax_allowCompanion :: bool
  ax_includedInBase :: bool
  ax_companionPrice :: money
  ax_createdAt :: date
  ax_updatedAt :: date

text \<open>A row with the ids of its prerequisites, as grouping and validation read it.\<close>

record access_with_prereqs = event_access +
  ax_requiredAccess :: "string list"

record access_event = pricing_event +
  ae_startDate :: date
  ae_slug :: string
  ae_clientId :: string
  ae_maxCapacity :: "int option"
  ae_registeredCount :: int
  ae_name :: string
  ae_description :: "string option"
  ae_location :: "string option"

text \<open>
  \<open>ad_edges\<close> is the table \<open>_AccessPrerequisites\<close>: a row (a, b) says that b requires a. \<open>ad_settle\<close> holds
  the settlement tables other than \<open>events\<close> and \<open>event_access\<close>.
\<close>

record access_db =
  ad_events :: "access_event list"
  ad_items :: "event_access list"
  ad_edges :: "(string \<times> string) list"
  ad_pricing :: "pricing_row list"
  ad_forms :: "form_row list"
  ad_settle :: db

definition settle_view :: "access_db \<Rightarrow> db" where
  "settle_view s = (ad_settle s)\<lparr>
     db_events := map (\<lambda>e. \<lparr>ev_id = pe_id e, ev_clientId = ae_clientId e\<rparr>) (ad_events s),
     db_accesses := map access_row.truncate (ad_items s)\<rparr>"

definition priced_of :: "event_access \<Rightarrow> priced_access" where
  "priced_of r = \<lparr>pa_id = ea_id r, pa_eventId = ea_eventId r, pa_name = ea_name r, pa_price = ax_price r,
     pa_companionPrice = ax_companionPrice r, pa_includedInBase = ax_includedInBase r\<rparr>"

definition pricing_view :: "access_db \<Rightarrow> pricing_db" where
  "pricing_view s = \<lparr>pd_events = map pricing_event.truncate (ad_events s), pd_pricing = ad_pricing s,
     pd_registrations = db_registrations (ad_settle s), pd_access = map priced_of (ad_items s),
     pd_sponsorships = db_sponsorships (ad_settle s), pd_forms = ad_forms s, pd_ids = db_ids (ad_settle s)\<rparr>"

section \<open>Requests\<close>

record access_input =
  ci_eventId :: string
  ci_type :: "access_type option"
  ci_name :: string
  ci_description :: "string option"
  ci_location :: "string option"
  ci_startsAt :: "date option"
  ci_endsAt :: "date option"
  ci_price :: "money option"
  ci_currency :: "string option"
  ci_maxCapacity :: "int option"
  ci_availableFrom :: "date option"
  ci_availableTo :: "date option"
  ci_conditions :: "condition list option"
  ci_conditionLogic :: "string option"
  ci_requiredAccessIds :: "string list option"
  ci_sortOrder :: "int option"
  ci_active :: "bool option"
  ci_groupLabel :: "string option"
  ci_allowCompanion :: "bool option"
  ci_includedInBase :: "bool option"
  ci_companionPrice :: "money option"

text \<open>In a PATCH an omitted field is \<open>None\<close>; a nullable field sent as null is \<open>Some None\<close>.\<close>

record access_patch =
  up_type :: "access_type option"
  up_name :: "string option"
  up_description :: "string option option"
  up_location :: "string option option"
  up_startsAt :: "date option option"
  up_endsAt :: "date option option"
  up_price :: "money option"
  up_currency :: "string option"
  up_maxCapacity :: "int option option"
  up_availableFrom :: "date option option"
  up_availableTo :: "date option option"
  up_conditions :: "condition list option option"
  up_conditionLogic :: "string option"
  up_requiredAccessIds :: "string list option"
  up_sortOrder :: "int option"
  up_active :: "bool option"
  up_groupLabel :: "string option option"
  up_allowCompanion :: "bool option"
  up_includedInBase :: "bool option"
  up_companionPrice :: "money option"

record access_selection =
  as_accessId :: string
  as_quantity :: int

definition endsAfterStarts :: "date option \<Rightarrow> date option \<Rightarrow> bool" where
  "endsAfterStarts startsAt endsAt =
    (case (startsAt, endsAt) of (Some a, Some b) \<Rightarrow> a \<le> b | _ \<Rightarrow> True)"

definition opt_all :: "('a \<Rightarrow> bool) \<Rightarrow> 'a option \<Rightarrow> bool" where
  "opt_all p v = (case v of None \<Rightarrow> True | Some x \<Rightarrow> p x)"

definition CreateEventAccessSchema :: "(string \<Rightarrow> bool) \<Rightarrow> access_input \<Rightarrow> bool" where
  "CreateEventAccessSchema uuid i \<longleftrightarrow>
     uuid (ci_eventId i) \<and> 1 \<le> length (ci_name i) \<and> length (ci_name i) \<le> 200
   \<and> opt_all (\<lambda>d. length d \<le> 1000) (ci_description i) \<and> opt_all (\<lambda>d. length d \<le> 500) (ci_location i)
   \<and> opt_all MoneyAmountSchema (ci_price i) \<and> opt_all (\<lambda>c. length c = 3) (ci_currency i)
   \<and> opt_all (\<lambda>c. 0 < c) (ci_maxCapacity i) \<and> opt_all (list_all ConditionSchema) (ci_conditions i)
   \<and> opt_all (\<lambda>l. l = ''AND'' \<or> l = ''OR'') (ci_conditionLogic i)
   \<and> opt_all (list_all uuid) (ci_requiredAccessIds i) \<and> opt_all (\<lambda>d. length d \<le> 100) (ci_groupLabel i)
   \<and> opt_all MoneyAmountSchema (ci_companionPrice i) \<and> endsAfterStarts (ci_startsAt i) (ci_endsAt i)"

text \<open>A PATCH without any field is refused (\<open>hasUpdateField\<close>).\<close>

definition empty_patch :: access_patch where
  "empty_patch = \<lparr>up_type = None, up_name = None, up_description = None, up_location = None, up_startsAt = None,
     up_endsAt = None, up_price = None, up_currency = None, up_maxCapacity = None, up_availableFrom = None,
     up_availableTo = None, up_conditions = None, up_conditionLogic = None, up_requiredAccessIds = None,
     up_sortOrder = None, up_active = None, up_groupLabel = None, up_allowCompanion = None,
     up_includedInBase = None, up_companionPrice = None\<rparr>"

definition UpdateEventAccessSchema :: "(string \<Rightarrow> bool) \<Rightarrow> access_patch \<Rightarrow> bool" where
  "UpdateEventAccessSchema uuid i \<longleftrightarrow>
     i \<noteq> empty_patch
   \<and> opt_all (\<lambda>n. 1 \<le> length n \<and> length n \<le> 200) (up_name i)
   \<and> opt_all (opt_all (\<lambda>d. length d \<le> 1000)) (up_description i)
   \<and> opt_all (opt_all (\<lambda>d. length d \<le> 500)) (up_location i)
   \<and> opt_all MoneyAmountSchema (up_price i) \<and> opt_all (\<lambda>c. length c = 3) (up_currency i)
   \<and> opt_all (opt_all (\<lambda>c. 0 < c)) (up_maxCapacity i)
   \<and> opt_all (opt_all (list_all ConditionSchema)) (up_conditions i)
   \<and> opt_all (\<lambda>l. l = ''AND'' \<or> l = ''OR'') (up_conditionLogic i)
   \<and> opt_all (list_all uuid) (up_requiredAccessIds i) \<and> opt_all (opt_all (\<lambda>d. length d \<le> 100)) (up_groupLabel i)
   \<and> opt_all MoneyAmountSchema (up_companionPrice i)
   \<and> endsAfterStarts (set_or (up_startsAt i) None) (set_or (up_endsAt i) None)"

definition AccessSelectionSchema :: "(string \<Rightarrow> bool) \<Rightarrow> access_selection \<Rightarrow> bool" where
  "AccessSelectionSchema uuid sel \<longleftrightarrow> uuid (as_accessId sel) \<and> 1 \<le> as_quantity sel"

definition hasUniqueValues :: "string list \<Rightarrow> bool" where
  "hasUniqueValues xs \<longleftrightarrow> length (uniq xs) = length xs"

definition hasUniqueAccessSelections :: "access_selection list \<Rightarrow> bool" where
  "hasUniqueAccessSelections sels = hasUniqueValues (map as_accessId sels)"

section \<open>Reads\<close>

definition item_of :: "access_db \<Rightarrow> string \<Rightarrow> event_access option" where
  "item_of s i = row_of ea_id i (ad_items s)"

definition event_of :: "access_db \<Rightarrow> string \<Rightarrow> access_event option" where
  "event_of s i = row_of pe_id i (ad_events s)"

text \<open>The edges of one owner joined with the required items, as (id, name).\<close>

definition loadRequiredAccess :: "access_db \<Rightarrow> string \<Rightarrow> (string \<times> string) list" where
  "loadRequiredAccess s owner =
    concat (map (\<lambda>(a, b). if b = owner
        then (case item_of s a of None \<Rightarrow> [] | Some r \<Rightarrow> [(ea_id r, ea_name r)]) else []) (ad_edges s))"

definition with_prereqs :: "access_db \<Rightarrow> event_access \<Rightarrow> access_with_prereqs" where
  "with_prereqs s r = event_access.extend r \<lparr>ax_requiredAccess = map fst (loadRequiredAccess s (ea_id r))\<rparr>"

definition getEventDatesForAccess :: "access_db \<Rightarrow> string \<Rightarrow> (date \<times> date \<times> string) option" where
  "getEventDatesForAccess s eventId =
    map_option (\<lambda>e. (ae_startDate e, pe_endDate e,
        set_or (map_option ep_currency (row_of ep_eventId eventId (ad_pricing s))) ''TND'')) (event_of s eventId)"

definition getEventAccessById :: "access_db \<Rightarrow> string \<Rightarrow> (event_access \<times> (string \<times> string) list) option" where
  "getEventAccessById s i = map_option (\<lambda>r. (r, loadRequiredAccess s i)) (item_of s i)"

definition getEventAccessForUpdate :: "access_db \<Rightarrow> string \<Rightarrow> (event_access \<times> date \<times> date) option" where
  "getEventAccessForUpdate s i =
    (case item_of s i of None \<Rightarrow> None
     | Some r \<Rightarrow> map_option (\<lambda>e. (r, ae_startDate e, pe_endDate e)) (event_of s (ea_eventId r)))"

text \<open>\<open>sort_order asc, starts_at asc nulls last, created_at asc\<close>.\<close>

definition list_order :: "event_access \<Rightarrow> int \<times> bool \<times> date \<times> date" where
  "list_order r = (ax_sortOrder r, ax_startsAt r = None, set_or (ax_startsAt r) 0, ax_createdAt r)"

definition listEventAccessRows ::
  "access_db \<Rightarrow> string \<Rightarrow> bool option \<Rightarrow> access_type option \<Rightarrow> (event_access \<times> (string \<times> string) list) list" where
  "listEventAccessRows s eventId active type =
    map (\<lambda>r. (r, loadRequiredAccess s (ea_id r)))
      (sort_key list_order (filter (\<lambda>r. ea_eventId r = eventId \<and> opt_all (\<lambda>a. ea_active r = a) active
         \<and> opt_all (\<lambda>t. ax_type r = t) type) (ad_items s)))"

definition findExistingAccessIdsInEvent :: "access_db \<Rightarrow> string list \<Rightarrow> string \<Rightarrow> string list" where
  "findExistingAccessIdsInEvent s ids eventId =
    map ea_id (filter (\<lambda>r. ea_id r \<in> set ids \<and> ea_eventId r = eventId) (ad_items s))"

definition listEventAccessIds :: "access_db \<Rightarrow> string \<Rightarrow> string list" where
  "listEventAccessIds s eventId = map ea_id (filter (\<lambda>r. ea_eventId r = eventId) (ad_items s))"

text \<open>The edges whose owner is an item of the event, as (owner, required).\<close>

definition getEventPrereqEdges :: "access_db \<Rightarrow> string \<Rightarrow> (string \<times> string) list" where
  "getEventPrereqEdges s eventId =
    map (\<lambda>(a, b). (b, a))
      (filter (\<lambda>(a, b). case item_of s b of None \<Rightarrow> False | Some r \<Rightarrow> ea_eventId r = eventId) (ad_edges s))"

definition getActiveAccessForGrouping :: "access_db \<Rightarrow> string \<Rightarrow> access_with_prereqs list" where
  "getActiveAccessForGrouping s eventId =
    map (with_prereqs s)
      (sort_key list_order (filter (\<lambda>r. ea_eventId r = eventId \<and> ea_active r) (ad_items s)))"

definition getAccessByIdsForValidation :: "access_db \<Rightarrow> string list \<Rightarrow> string \<Rightarrow> access_with_prereqs list" where
  "getAccessByIdsForValidation s ids eventId =
    map (with_prereqs s) (filter (\<lambda>r. ea_id r \<in> set ids \<and> ea_eventId r = eventId) (ad_items s))"

definition getIncludedInBaseAccess :: "access_db \<Rightarrow> string \<Rightarrow> event_access list" where
  "getIncludedInBaseAccess s eventId =
    filter (\<lambda>r. ea_eventId r = eventId \<and> ea_active r \<and> ax_includedInBase r) (ad_items s)"

definition countRegistrationsWithAccess :: "access_db \<Rightarrow> string \<Rightarrow> nat" where
  "countRegistrationsWithAccess s accessId =
    length (filter (\<lambda>r. case rg_accessTypeIds r of None \<Rightarrow> False | Some ids \<Rightarrow> accessId \<in> set ids)
      (db_registrations (ad_settle s)))"

definition countActiveSponsorshipsWithAccess :: "access_db \<Rightarrow> string \<Rightarrow> nat" where
  "countActiveSponsorshipsWithAccess s accessId =
    length (filter (\<lambda>r. (case sp_coveredAccessIds r of None \<Rightarrow> False | Some ids \<Rightarrow> accessId \<in> set ids)
        \<and> sp_status r \<noteq> Sp_cancelled) (db_sponsorships (ad_settle s)))"

definition getAccessDependentIds :: "access_db \<Rightarrow> string \<Rightarrow> string list" where
  "getAccessDependentIds s accessId = map snd (filter (\<lambda>(a, b). a = accessId) (ad_edges s))"

section \<open>Writes\<close>

text \<open>
  \<open>foreign_ok\<close> and the distinctness test are the table's constraints: both columns reference
  \<open>event_access\<close>, and a pair occurs once.
\<close>

definition foreign_ok :: "access_db \<Rightarrow> (string \<times> string) list \<Rightarrow> bool" where
  "foreign_ok s edges \<longleftrightarrow> list_all (\<lambda>(a, b). item_of s a \<noteq> None \<and> item_of s b \<noteq> None) edges"

definition insertEdges :: "string \<Rightarrow> string list \<Rightarrow> access_db \<Rightarrow> error + access_db" where
  "insertEdges owner requiredIds s =
    (let edges = map (\<lambda>r. (r, owner)) requiredIds in
     sbind (guard (foreign_ok s edges) (Plain_error ''foreign key'')) (\<lambda>_.
     sbind (guard (distinct edges \<and> (\<forall>e \<in> set edges. e \<notin> set (ad_edges s))) (Unique_violation ''_AccessPrerequisites_AB_unique'')) (\<lambda>_.
     Inr (s\<lparr>ad_edges := ad_edges s @ edges\<rparr>))))"

definition insertEventAccess ::
  "event_access \<Rightarrow> string list \<Rightarrow> access_db \<Rightarrow> error + (event_access \<times> (string \<times> string) list) \<times> access_db" where
  "insertEventAccess row requiredAccessIds s =
    (case db_ids (ad_settle s) of
       [] \<Rightarrow> Inl (Plain_error ''newId'')
     | i # ids \<Rightarrow>
        sbind (guard (event_of s (ea_eventId row) \<noteq> None) (Plain_error ''foreign key'')) (\<lambda>_.
        let r = row\<lparr>ea_id := i\<rparr>;
            s1 = s\<lparr>ad_items := ad_items s @ [r], ad_settle := (ad_settle s)\<lparr>db_ids := ids\<rparr>\<rparr>
        in sbind (if requiredAccessIds = [] then Inr s1 else insertEdges i requiredAccessIds s1) (\<lambda>s2.
           Inr ((r, loadRequiredAccess s2 i), s2))))"

text \<open>The columns of a PATCH; an update without columns still sets \<open>updated_at\<close>.\<close>

definition patch_item :: "access_patch \<Rightarrow> date \<Rightarrow> event_access \<Rightarrow> event_access" where
  "patch_item p now r = r\<lparr>ea_name := set_or (up_name p) (ea_name r),
     ea_active := set_or (up_active p) (ea_active r), ea_maxCapacity := set_or (up_maxCapacity p) (ea_maxCapacity r),
     ax_type := set_or (up_type p) (ax_type r), ax_description := set_or (up_description p) (ax_description r),
     ax_location := set_or (up_location p) (ax_location r), ax_startsAt := set_or (up_startsAt p) (ax_startsAt r),
     ax_endsAt := set_or (up_endsAt p) (ax_endsAt r), ax_price := set_or (up_price p) (ax_price r),
     ax_currency := set_or (up_currency p) (ax_currency r),
     ax_availableFrom := set_or (up_availableFrom p) (ax_availableFrom r),
     ax_availableTo := set_or (up_availableTo p) (ax_availableTo r),
     ax_conditions := set_or (up_conditions p) (ax_conditions r),
     ax_conditionLogic := set_or (up_conditionLogic p) (ax_conditionLogic r),
     ax_sortOrder := set_or (up_sortOrder p) (ax_sortOrder r), ax_groupLabel := set_or (up_groupLabel p) (ax_groupLabel r),
     ax_allowCompanion := set_or (up_allowCompanion p) (ax_allowCompanion r),
     ax_includedInBase := set_or (up_includedInBase p) (ax_includedInBase r),
     ax_companionPrice := set_or (up_companionPrice p) (ax_companionPrice r), ax_updatedAt := now\<rparr>"

definition updateEventAccessRow :: "string \<Rightarrow> access_patch \<Rightarrow> date \<Rightarrow> access_db \<Rightarrow> access_db" where
  "updateEventAccessRow i p now s =
    s\<lparr>ad_items := update_rows (\<lambda>r. ea_id r = i) (patch_item p now) (ad_items s)\<rparr>"

definition setAccessPrerequisites :: "string \<Rightarrow> string list \<Rightarrow> access_db \<Rightarrow> error + access_db" where
  "setAccessPrerequisites ownerId requiredIds s =
    (let s1 = s\<lparr>ad_edges := filter (\<lambda>(a, b). b \<noteq> ownerId) (ad_edges s)\<rparr>
     in if requiredIds = [] then Inr s1 else insertEdges ownerId requiredIds s1)"

definition removePrerequisiteEdge :: "string \<Rightarrow> string \<Rightarrow> access_db \<Rightarrow> access_db" where
  "removePrerequisiteEdge ownerId requiredId s =
    s\<lparr>ad_edges := filter (\<lambda>(a, b). \<not> (a = requiredId \<and> b = ownerId)) (ad_edges s)\<rparr>"

text \<open>Both references of an edge cascade.\<close>

definition deleteEventAccessById :: "string \<Rightarrow> access_db \<Rightarrow> access_db" where
  "deleteEventAccessById i s =
    s\<lparr>ad_items := filter (\<lambda>r. ea_id r \<noteq> i) (ad_items s),
      ad_edges := filter (\<lambda>(a, b). a \<noteq> i \<and> b \<noteq> i) (ad_edges s)\<rparr>"

definition lockEventAccessRowsForUpdate :: "access_db \<Rightarrow> string list \<Rightarrow> string list" where
  "lockEventAccessRowsForUpdate s ids = lockRowsForUpdate ea_id (ad_items s) ids"

text \<open>A statement on the settlement tables, with the access columns it reads.\<close>

definition on_settle :: "(db \<Rightarrow> 'a \<times> db) \<Rightarrow> access_db \<Rightarrow> 'a \<times> access_db" where
  "on_settle f s = (case f (settle_view s) of (x, d) \<Rightarrow> (x, s\<lparr>ad_settle := d\<lparr>db_events := [], db_accesses := []\<rparr>\<rparr>))"

section \<open>Checks before a write\<close>

datatype date_boundary = Starts_at | Ends_at | Available_from | Available_to

text \<open>\<open>setUTCHours(23, 59, 59, 999)\<close>.\<close>

definition end_of_day :: "date \<Rightarrow> date" where
  "end_of_day t = t - t mod day_ms + (day_ms - 1)"

definition validateAccessDatesAgainstEvent ::
  "(date_boundary \<times> date option) list \<Rightarrow> date \<Rightarrow> date \<Rightarrow> date_boundary list" where
  "validateAccessDatesAgainstEvent accessDates startDate eventEnd =
    (let endDate = end_of_day eventEnd in
     concat (map (\<lambda>(b, date). case date of None \<Rightarrow> []
       | Some t \<Rightarrow> if t < startDate \<or> t > endDate then [b] else []) accessDates))"

definition date_error :: error where
  "date_error = App_exception ''ACCESS_DATE_OUT_OF_BOUNDS'' 400"

definition assertValidOptionConditions ::
  "pricing_env \<Rightarrow> access_db \<Rightarrow> string \<Rightarrow> condition list option \<Rightarrow> error + unit" where
  "assertValidOptionConditions env s eventId conditions =
    (case conditions of None \<Rightarrow> Inr ()
     | Some cs \<Rightarrow>
        if cs = [] then Inr ()
        else sbind (findRegistrationFormSchema env (pricing_view s) eventId) (\<lambda>form.
          case form of None \<Rightarrow> Inr ()
          | Some schema \<Rightarrow>
             guard (findInvalidOptionConditions cs (buildFieldOptionIndex (Some schema)) = [])
               (App_exception ''ACCESS_CONDITION_INVALID_OPTION'' 400)))"

text \<open>The paid-count errors of the settlement, as the API reports them.\<close>

definition toAccessAppException :: "error \<Rightarrow> error" where
  "toAccessAppException err =
    (case err of AccessNotFound _ \<Rightarrow> App_exception ''ACCESS_NOT_FOUND'' 404
     | AccessCapacityExceeded _ _ _ _ \<Rightarrow> App_exception ''ACCESS_CAPACITY_EXCEEDED'' 409
     | AccessPaidCountUnderflow _ _ _ \<Rightarrow> App_exception ''VALIDATION_ERROR'' 409
     | e \<Rightarrow> e)"

definition access_not_found :: error where
  "access_not_found = App_exception ''ACCESS_NOT_FOUND'' 404"

end
