(* ===== verification/Events.thy ===== *)
theory Events
  imports PricingRules Access
begin

text \<open>
  Events (\<open>apps/api/src/modules/events/events.service.ts\<close>, \<open>event-status.ts\<close>,
  \<open>packages/db/src/queries/events.ts\<close>): creation, update and deletion, with the price list each event carries. An
  update runs in a serializable transaction; a creation reads first (state \<open>s0\<close>) and inserts in the state it finds.
  Banner files and the storage cleanup of a deletion are left out.
\<close>

section \<open>Requests\<close>

text \<open>The client's row, as the module gate of its events reads it.\<close>

record client_row =
  cw_id :: string
  cw_active :: bool
  cw_enabledModules :: "string list option"

record event_input =
  ei_clientId :: string
  ei_name :: string
  ei_slug :: string
  ei_description :: "string option"
  ei_maxCapacity :: "int option"
  ei_startDate :: date
  ei_endDate :: date
  ei_location :: "string option"
  ei_basePrice :: "money option"
  ei_currency :: "string option"

text \<open>An omitted field is \<open>None\<close>; a nullable field sent as null is \<open>Some None\<close>.\<close>

record event_patch =
  eu_name :: "string option"
  eu_slug :: "string option"
  eu_description :: "string option option"
  eu_maxCapacity :: "int option option"
  eu_startDate :: "date option"
  eu_endDate :: "date option"
  eu_location :: "string option option"
  eu_status :: "event_status option"
  eu_basePrice :: "money option option"
  eu_currency :: "string option"

definition no_event_patch :: event_patch where
  "no_event_patch = \<lparr>eu_name = None, eu_slug = None, eu_description = None, eu_maxCapacity = None, eu_startDate = None,
     eu_endDate = None, eu_location = None, eu_status = None, eu_basePrice = None, eu_currency = None\<rparr>"

definition hasEventData :: "event_patch \<Rightarrow> bool" where
  "hasEventData input \<longleftrightarrow> input\<lparr>eu_basePrice := None, eu_currency := None\<rparr> \<noteq> no_event_patch"

definition normalizeBasePrice :: "money option \<Rightarrow> money" where
  "normalizeBasePrice basePrice = set_or basePrice 0"

definition normalizeCurrency :: "string option \<Rightarrow> string" where
  "normalizeCurrency currency = (case currency of None \<Rightarrow> ''TND'' | Some c \<Rightarrow> to_upper (trim c))"

text \<open>CLOSED to OPEN to ARCHIVED, and an OPEN event can be closed again.\<close>

fun VALID_STATUS_TRANSITIONS :: "event_status \<Rightarrow> event_status list" where
  "VALID_STATUS_TRANSITIONS Ev_closed = [Ev_open]"
| "VALID_STATUS_TRANSITIONS Ev_open = [Ev_closed, Ev_archived]"
| "VALID_STATUS_TRANSITIONS Ev_archived = []"

section \<open>Queries\<close>

definition getEventIdBySlugTx :: "access_db \<Rightarrow> string \<Rightarrow> string option" where
  "getEventIdBySlugTx s slug = map_option pe_id (find (\<lambda>e. ae_slug e = slug) (ad_events s))"

definition countRegistrationsTx :: "access_db \<Rightarrow> string \<Rightarrow> nat" where
  "countRegistrationsTx s eventId = countRegistrations (pricing_view s) eventId"

definition events_slug_key :: error where
  "events_slug_key = Unique_violation ''events_slug_key''"

text \<open>The insert meets the primary key and the unique slug.\<close>

definition insertEventTx :: "access_event \<Rightarrow> access_db \<Rightarrow> error + access_event \<times> access_db" where
  "insertEventTx values s =
    (case db_ids (ad_settle s) of
       [] \<Rightarrow> Inl (Plain_error ''newId'')
     | i # ids \<Rightarrow>
        sbind (guard (event_of s i = None) (Unique_violation ''events_pkey'')) (\<lambda>_.
        sbind (guard (getEventIdBySlugTx s (ae_slug values) = None) events_slug_key) (\<lambda>_.
        let row = values\<lparr>pe_id := i\<rparr>
        in Inr (row, s\<lparr>ad_events := ad_events s @ [row], ad_settle := (ad_settle s)\<lparr>db_ids := ids\<rparr>\<rparr>))))"

text \<open>One price list per event.\<close>

definition insertEventPricingTx :: "string \<Rightarrow> money \<Rightarrow> string \<Rightarrow> access_db \<Rightarrow> error + pricing_row \<times> access_db" where
  "insertEventPricingTx eventId basePrice currency s =
    sbind (guard (pricing_of (pricing_view s) eventId = None) (Unique_violation ''event_pricing_event_id_key'')) (\<lambda>_.
    let row = (default_pricing eventId)\<lparr>ep_basePrice := basePrice, ep_currency := currency\<rparr>
    in Inr (row, s\<lparr>ad_pricing := ad_pricing s @ [row]\<rparr>))"

definition patch_event :: "event_patch \<Rightarrow> access_event \<Rightarrow> access_event" where
  "patch_event input e = e\<lparr>ae_name := set_or (eu_name input) (ae_name e), ae_slug := set_or (eu_slug input) (ae_slug e),
     ae_description := set_or (eu_description input) (ae_description e),
     ae_maxCapacity := set_or (eu_maxCapacity input) (ae_maxCapacity e),
     ae_startDate := set_or (eu_startDate input) (ae_startDate e), pe_endDate := set_or (eu_endDate input) (pe_endDate e),
     ae_location := set_or (eu_location input) (ae_location e), pe_status := set_or (eu_status input) (pe_status e)\<rparr>"

definition updateEventTx :: "string \<Rightarrow> event_patch \<Rightarrow> access_db \<Rightarrow> error + access_db" where
  "updateEventTx i input s =
    sbind (guard (case eu_slug input of None \<Rightarrow> True
        | Some slug \<Rightarrow> list_all (\<lambda>e. pe_id e = i \<or> ae_slug e \<noteq> slug) (ad_events s)) events_slug_key) (\<lambda>_.
    Inr (s\<lparr>ad_events := update_rows (\<lambda>e. pe_id e = i) (patch_event input) (ad_events s)\<rparr>))"

text \<open>Upsert keyed by the event: an omitted column keeps its value, or takes its default in a new row.\<close>

definition upsertEventPricingTx :: "string \<Rightarrow> money option \<Rightarrow> string option \<Rightarrow> access_db \<Rightarrow> access_db" where
  "upsertEventPricingTx eventId basePrice currency s =
    (let columns = \<lparr>ps_basePrice = basePrice, ps_isFree = None, ps_autoAccept = None, ps_currency = currency,
           ps_rules = None, ps_payment = None\<rparr>
     in s\<lparr>ad_pricing := pd_pricing (snd (upsertEventPricing (pricing_view s) eventId
          (columns\<lparr>ps_basePrice := Some (set_or basePrice 0), ps_currency := Some (set_or currency ''TND'')\<rparr>) columns))\<rparr>)"

section \<open>Operations\<close>

definition new_event :: "client_row \<Rightarrow> event_input \<Rightarrow> access_event" where
  "new_event c input = \<lparr>pe_id = [], pe_status = Ev_closed, pe_endDate = ei_endDate input, pe_clientActive = cw_active c,
     pe_enabledModules = cw_enabledModules c, ae_startDate = ei_startDate input, ae_slug = ei_slug input,
     ae_clientId = ei_clientId input, ae_maxCapacity = ei_maxCapacity input, ae_registeredCount = 0,
     ae_name = ei_name input, ae_description = ei_description input, ae_location = ei_location input\<rparr>"

definition createEvent ::
  "pricing_env \<Rightarrow> client_row list \<Rightarrow> event_input \<Rightarrow> access_db \<Rightarrow> access_db
    \<Rightarrow> error + (access_event \<times> pricing_row) \<times> access_db" where
  "createEvent env clients input s0 s =
    sbind (assertMoneyPrecision (px_icu env) (normalizeCurrency (ei_currency input)) [ei_basePrice input]) (\<lambda>_.
    case row_of cw_id (ei_clientId input) clients of
      None \<Rightarrow> Inl notFound
    | Some client \<Rightarrow>
        sbind (guard (getEventIdBySlugTx s0 (ei_slug input) = None) (App_exception ''CONFLICT'' 409)) (\<lambda>_.
        sbind (insertEventTx (new_event client input) s) (\<lambda>(event, s1).
        sbind (insertEventPricingTx (pe_id event) (normalizeBasePrice (ei_basePrice input))
          (normalizeCurrency (ei_currency input)) s1) (\<lambda>(pricing, s2).
        Inr ((event, pricing), s2)))))"

text \<open>The guard of a currency: it cannot change under registrations, and the stored prices must be exact in it.\<close>

definition event_currency_check ::
  "pricing_env \<Rightarrow> access_db \<Rightarrow> string \<Rightarrow> pricing_row option \<Rightarrow> event_patch \<Rightarrow> error + unit" where
  "event_currency_check env s i stored input =
    (case eu_currency input of None \<Rightarrow> Inr ()
     | Some c \<Rightarrow>
        (let normalizedCurrency = normalizeCurrency (Some c) in
         if normalizedCurrency \<noteq> set_or (map_option ep_currency stored) ''TND'' then
           sbind (guard (countRegistrationsTx s i = 0) (App_exception ''CURRENCY_LOCKED'' 400)) (\<lambda>_.
           assertMoneyPrecision (px_icu env) normalizedCurrency
             (or_else (set_or (eu_basePrice input) None) (map_option ep_basePrice stored)
              # map (\<lambda>r. Some (pr_price r)) (set_or (map_option ep_rules stored) [])))
         else Inr ()))"

definition update_event_checks ::
  "pricing_env \<Rightarrow> access_db \<Rightarrow> access_event \<Rightarrow> pricing_row option \<Rightarrow> event_patch \<Rightarrow> error + unit" where
  "update_event_checks env s e stored input =
    sbind (guard (case eu_status input of None \<Rightarrow> True
        | Some st \<Rightarrow> st = pe_status e \<or> st \<in> set (VALID_STATUS_TRANSITIONS (pe_status e)))
      (App_exception ''INVALID_STATUS_TRANSITION'' 400)) (\<lambda>_.
    sbind (assertEventWritable (pe_status e)) (\<lambda>_.
    sbind (assertMoneyPrecision (px_icu env) (normalizeCurrency (or_else (eu_currency input) (map_option ep_currency stored)))
      [set_or (eu_basePrice input) None]) (\<lambda>_.
    sbind (guard (set_or (eu_startDate input) (ae_startDate e) \<le> set_or (eu_endDate input) (pe_endDate e)) badRequest) (\<lambda>_.
    sbind (guard (case eu_maxCapacity input of Some (Some c) \<Rightarrow> ae_registeredCount e \<le> c | _ \<Rightarrow> True) badRequest) (\<lambda>_.
    sbind (guard (case eu_slug input of None \<Rightarrow> True
        | Some slug \<Rightarrow> slug = [] \<or> slug = ae_slug e \<or>
            (case getEventIdBySlugTx s slug of None \<Rightarrow> True | Some existingId \<Rightarrow> existingId = []))
      (App_exception ''CONFLICT'' 409)) (\<lambda>_.
    event_currency_check env s (pe_id e) stored input))))))"

definition updateEvent :: "pricing_env \<Rightarrow> string \<Rightarrow> event_patch \<Rightarrow> access_db \<Rightarrow> error + unit \<times> access_db" where
  "updateEvent env i input s =
    (if input = no_event_patch then Inl badRequest
     else case event_of s i of
       None \<Rightarrow> Inl notFound
     | Some e \<Rightarrow>
        sbind (getEventPricing env (pricing_view s) i) (\<lambda>stored.
        sbind (update_event_checks env s e stored input) (\<lambda>_.
        sbind (if hasEventData input then updateEventTx i input s else Inr s) (\<lambda>s1.
        Inr ((),
          if eu_basePrice input \<noteq> None \<or> eu_currency input \<noteq> None
          then upsertEventPricingTx i
            (map_option (\<lambda>b. if set_or (map_option ep_isFree stored) False then 0 else normalizeBasePrice b) (eu_basePrice input))
            (map_option (\<lambda>c. normalizeCurrency (Some c)) (eu_currency input)) s1
          else s1)))))"

text \<open>
  A deletion. The price list, the access items with their prerequisites, the forms and the sponsorships with
  their usages go with the event; a registration forbids it, counted first or met by the foreign key.
\<close>

definition event_has_registrations :: error where
  "event_has_registrations = App_exception ''EVENT_HAS_REGISTRATIONS'' 409"

definition deleteEventTx :: "string \<Rightarrow> access_db \<Rightarrow> access_db" where
  "deleteEventTx i s =
    (let items = map ea_id (filter (\<lambda>r. ea_eventId r = i) (ad_items s));
         sponsorships = map sp_id (filter (\<lambda>r. sp_eventId r = i) (db_sponsorships (ad_settle s)))
     in \<lparr>ad_events = filter (\<lambda>e. pe_id e \<noteq> i) (ad_events s),
         ad_items = filter (\<lambda>r. ea_eventId r \<noteq> i) (ad_items s),
         ad_edges = filter (\<lambda>(a, b). a \<notin> set items \<and> b \<notin> set items) (ad_edges s),
         ad_pricing = filter (\<lambda>r. ep_eventId r \<noteq> i) (ad_pricing s),
         ad_forms = filter (\<lambda>f. fm_eventId f \<noteq> i) (ad_forms s),
         ad_settle = (ad_settle s)\<lparr>db_networking := filter (\<lambda>e. e \<noteq> i) (db_networking (ad_settle s)),
           db_sponsorships := filter (\<lambda>r. sp_eventId r \<noteq> i) (db_sponsorships (ad_settle s)),
           db_usages := filter (\<lambda>u. us_sponsorshipId u \<notin> set sponsorships) (db_usages (ad_settle s))\<rparr>\<rparr>)"

definition deleteEvent :: "string \<Rightarrow> access_db \<Rightarrow> access_db \<Rightarrow> error + unit \<times> access_db" where
  "deleteEvent i s0 s =
    (case event_of s0 i of
       None \<Rightarrow> Inl notFound
     | Some e \<Rightarrow>
        sbind (guard (countRegistrationsTx s0 i = 0) event_has_registrations) (\<lambda>_.
        sbind (guard (countRegistrationsTx s i = 0) event_has_registrations) (\<lambda>_.
        sbind (guard (list_all (\<lambda>r. \<not> list_ex (\<lambda>f. fm_id f = rg_formId r \<and> fm_eventId f = i) (ad_forms s))
            (db_registrations (ad_settle s))) (Plain_error ''foreign key'')) (\<lambda>_.
        Inr ((), deleteEventTx i s)))))"

section \<open>Currency codes\<close>

text \<open>\<open>Intl.NumberFormat\<close> accepts codes of three letters only.\<close>

definition icu_codes :: "(string \<Rightarrow> nat option) \<Rightarrow> bool" where
  "icu_codes icu \<longleftrightarrow> (\<forall>c d. icu c = Some d \<longrightarrow> length c = 3)"

text \<open>A currency that the request schema of an event has accepted.\<close>

definition currency_given :: "string option \<Rightarrow> bool" where
  "currency_given currency \<longleftrightarrow> (\<forall>c. currency = Some c \<longrightarrow> length (normalizeCurrency (Some c)) = 3)"

lemma normalizeCurrency_None [simp]: "normalizeCurrency None = ''TND''"
  by (simp add: normalizeCurrency_def)

lemma normalizeCurrency_TND [simp]: "normalizeCurrency (Some ''TND'') = ''TND''"
  by code_simp

lemma trim_same: "length (trim s) = length s \<Longrightarrow> trim s = s"
proof -
  have same: "length (dropWhile p xs) = length xs \<Longrightarrow> dropWhile p xs = xs" for p and xs :: string
    by (cases xs) (auto split: if_splits, metis Suc_n_not_le_n length_dropWhile_le)
  assume l: "length (trim s) = length s"
  have le: "length (dropWhile is_space (rev (dropWhile is_space s))) \<le> length (dropWhile is_space s)"
    by (metis length_dropWhile_le length_rev)
  have "length (dropWhile is_space s) \<le> length s" by (rule length_dropWhile_le)
  with l le have "length (dropWhile is_space s) = length s"
    "length (dropWhile is_space (rev (dropWhile is_space s))) = length (rev (dropWhile is_space s))"
    by (simp_all add: trim_def)
  from same[OF this(1)] same[OF this(2)] show "trim s = s" by (simp add: trim_def)
qed

lemma to_upper_length [simp]: "length (to_upper s) = length s"
  by (simp add: to_upper_def)

lemma normalized_exact:
  assumes icu: "icu_codes icu" and len: "length c = 3" and m: "toMinorUnits icu v (normalizeCurrency (Some c)) = Inr m"
  shows "exact_in icu c v"
proof -
  have "icu (to_upper (trim c)) \<noteq> None"
    using m by (auto simp: toMinorUnits_def currencyScale_def normalizeCurrency_def sbind_Inr_iff split: option.splits)
  then have "length (trim c) = 3" using icu by (auto simp: icu_codes_def)
  then have "trim c = c" using trim_same len by simp
  then have "toMinorUnits icu v c = Inr m" using m by (simp add: toMinorUnits_def currencyScale_def normalizeCurrency_def)
  then show ?thesis by (auto simp: exact_in_def)
qed

section \<open>The price list an event's writes leave\<close>

lemma pricing_inv_cong: "pd_pricing s = pd_pricing t \<Longrightarrow> pricing_inv env s = pricing_inv env t"
  by (simp add: pricing_inv_def)

lemma pd_pricing_view [simp]: "pd_pricing (pricing_view s) = ad_pricing s"
  by (simp add: pricing_view_def)

lemma pricing_inv_snoc:
  assumes "pricing_inv env s" "pricing_of s (ep_eventId row) = None" "pricing_ok (px_icu env) row" "length (ep_currency row) = 3"
    "pd_pricing t = pd_pricing s @ [row]"
  shows "pricing_inv env t"
  using assms by (auto simp: pricing_inv_def pricing_of_def row_of_None)

text \<open>A row replaced by a consistent one of the same event.\<close>

lemma pricing_inv_replace:
  assumes inv: "pricing_inv env s" and old: "pricing_of s i = Some old"
    and new: "pricing_ok (px_icu env) (f old)" "length (ep_currency (f old)) = 3" "\<And>r. ep_eventId (f r) = ep_eventId r"
    and t: "pd_pricing t = update_rows (\<lambda>r. ep_eventId r = i) f (pd_pricing s)"
  shows "pricing_inv env t"
proof -
  have d: "distinct (map ep_eventId (pd_pricing s))" using inv by (simp add: pricing_inv_def)
  have keys: "map ep_eventId (pd_pricing t) = map ep_eventId (pd_pricing s)"
    unfolding t by (rule keys_update_rows) (rule new(3))
  have "pricing_ok (px_icu env) r \<and> length (ep_currency r) = 3" if mem: "r \<in> set (pd_pricing t)" for r
  proof -
    obtain x where x: "x \<in> set (pd_pricing s)" "r = (if ep_eventId x = i then f x else x)"
      using mem unfolding t update_rows_def set_map by (elim imageE) blast
    have "x = old" if "ep_eventId x = i"
      using old row_of_distinct[OF d x(1)] that by (simp add: pricing_of_def)
    with x inv new show ?thesis by (auto simp: pricing_inv_def)
  qed
  with d keys show ?thesis by (simp add: pricing_inv_def)
qed

lemma createEvent_inv:
  assumes run: "createEvent env clients input s0 s = Inr (x, s')" and inv: "pricing_inv env (pricing_view s)"
    and cur: "currency_given (ei_currency input)"
  shows "pricing_inv env (pricing_view s')"
proof -
  let ?c = "normalizeCurrency (ei_currency input)" and ?b = "normalizeBasePrice (ei_basePrice input)"
  from run obtain client event s1 pricing where m: "assertMoneyPrecision (px_icu env) ?c [ei_basePrice input] = Inr ()"
    and e: "insertEventTx (new_event client input) s = Inr (event, s1)"
    and p: "insertEventPricingTx (pe_id event) ?b ?c s1 = Inr (pricing, s')"
    unfolding createEvent_def by (auto elim!: sbind_InrE split: option.split_asm)
  have s1: "ad_pricing s1 = ad_pricing s"
    using e by (auto simp: insertEventTx_def Let_def elim!: sbind_InrE split: list.split_asm)
  let ?row = "(default_pricing (pe_id event))\<lparr>ep_basePrice := ?b, ep_currency := ?c\<rparr>"
  from p have none: "pricing_of (pricing_view s1) (pe_id event) = None" and s': "ad_pricing s' = ad_pricing s1 @ [?row]"
    by (auto simp: insertEventPricingTx_def Let_def elim!: sbind_InrE)
  have "exact_in (px_icu env) ?c ?b"
    using m by (cases "ei_basePrice input")
      (auto simp: assertMoneyPrecision_Inr amounts_exact_Cons exact_in_def normalizeBasePrice_def)
  then have ok: "pricing_ok (px_icu env) ?row" by (simp add: pricing_ok_def)
  have len: "length (ep_currency ?row) = 3" using cur by (cases "ei_currency input") (simp_all add: currency_given_def)
  have "pricing_inv env (pricing_view s1)" using inv pricing_inv_cong[of "pricing_view s1" "pricing_view s"] s1 by simp
  from pricing_inv_snoc[OF this _ ok len] none s' show ?thesis by simp
qed

text \<open>The row an update of the event stores in its price list.\<close>

definition repriced :: "event_patch \<Rightarrow> pricing_row \<Rightarrow> pricing_row" where
  "repriced input row = row\<lparr>
     ep_basePrice := set_or (map_option (\<lambda>b. if ep_isFree row then 0 else normalizeBasePrice b) (eu_basePrice input)) (ep_basePrice row),
     ep_currency := set_or (map_option (\<lambda>c. normalizeCurrency (Some c)) (eu_currency input)) (ep_currency row)\<rparr>"

lemma repriced_ok:
  assumes icu: "icu_codes (px_icu env)" and ok: "pricing_ok (px_icu env) row" and len: "length (ep_currency row) = 3"
    and row: "row = set_or stored (default_pricing i)" and chk: "update_event_checks env s e stored input = Inr ()"
    and cur: "currency_given (eu_currency input)"
  shows "pricing_ok (px_icu env) (repriced input row) \<and> length (ep_currency (repriced input row)) = 3"
proof -
  let ?icu = "px_icu env" and ?c = "ep_currency (repriced input row)"
  from chk have m: "amounts_exact ?icu (normalizeCurrency (or_else (eu_currency input) (map_option ep_currency stored)))
      [set_or (eu_basePrice input) None]" and cc: "event_currency_check env s (pe_id e) stored input = Inr ()"
    unfolding update_event_checks_def by (auto simp: sbind_Inr_iff assertMoneyPrecision_Inr)
  have c3: "length ?c = 3" using cur len by (cases "eu_currency input") (simp_all add: repriced_def currency_given_def)
  have stc: "set_or (map_option ep_currency stored) ''TND'' = ep_currency row" and
    str: "set_or (map_option ep_rules stored) [] = ep_rules row"
    using row by (cases stored; simp)+
  have moved: "amounts_exact ?icu ?c (or_else (set_or (eu_basePrice input) None) (map_option ep_basePrice stored)
      # map (\<lambda>r. Some (pr_price r)) (ep_rules row))" if "?c \<noteq> ep_currency row"
    using cc that unfolding event_currency_check_def stc str
    by (cases "eu_currency input") (auto simp: repriced_def sbind_Inr_iff assertMoneyPrecision_Inr)
  have given: "exact_in ?icu ?c v" if v: "eu_basePrice input = Some (Some v)" for v
  proof (cases "eu_currency input")
    case (Some c)
    then show ?thesis using m v by (auto simp: amounts_exact_Cons exact_in_def repriced_def)
  next
    case None
    then have c: "?c = ep_currency row" by (simp add: repriced_def)
    have "\<exists>x. toMinorUnits ?icu v (normalizeCurrency (Some (ep_currency row))) = Inr x"
      using m v None row by (cases stored) (auto simp: amounts_exact_Cons)
    then show ?thesis using normalized_exact[OF icu len] c by auto
  qed
  have kept: "exact_in ?icu ?c (ep_basePrice row)" if "eu_basePrice input = None"
  proof (cases "?c = ep_currency row")
    case True
    then show ?thesis using ok by (simp add: pricing_ok_def)
  next
    case False
    from moved[OF False] that row show ?thesis by (cases stored) (auto simp: amounts_exact_Cons exact_in_def)
  qed
  have zero: "exact_in ?icu ?c 0" by (simp add: exact_in_def)
  have base: "exact_in ?icu ?c (ep_basePrice (repriced input row))"
  proof (cases "eu_basePrice input")
    case None
    with kept show ?thesis by (simp add: repriced_def)
  next
    case (Some b)
    with given zero show ?thesis by (cases b) (simp_all add: repriced_def normalizeBasePrice_def)
  qed
  have rules: "exact_in ?icu ?c (pr_price r)" if r: "r \<in> set (ep_rules row)" for r
  proof (cases "?c = ep_currency row")
    case True
    with ok r show ?thesis by (simp add: pricing_ok_def)
  next
    case False
    from moved[OF False] r show ?thesis by (auto simp: amounts_exact_Cons intro: amounts_exact_rules)
  qed
  have free: "ep_isFree row \<longrightarrow> ep_basePrice (repriced input row) = 0"
    using ok by (cases "eu_basePrice input") (simp_all add: repriced_def pricing_ok_def)
  show ?thesis
    using ok base rules free c3 by (simp add: pricing_ok_def repriced_def)
qed

lemma upsert_inv:
  assumes inv: "pricing_inv env (pricing_view s)" and st: "pricing_of (pricing_view s) i = stored"
    and ok: "pricing_ok (px_icu env) (repriced input (set_or stored (default_pricing i))) \<and>
      length (ep_currency (repriced input (set_or stored (default_pricing i)))) = 3"
  shows "pricing_inv env (pricing_view (upsertEventPricingTx i
      (map_option (\<lambda>b. if set_or (map_option ep_isFree stored) False then 0 else normalizeBasePrice b) (eu_basePrice input))
      (map_option (\<lambda>c. normalizeCurrency (Some c)) (eu_currency input)) s))" (is "pricing_inv env (pricing_view ?t)")
proof (cases stored)
  case None
  have "ad_pricing ?t = ad_pricing s @ [repriced input (default_pricing i)]"
    using None st by (cases "eu_basePrice input"; cases "eu_currency input")
      (simp_all add: upsertEventPricingTx_def upsertEventPricing_def Let_def apply_set_def repriced_def default_pricing_def apply_payment_def)
  then show ?thesis
    by (intro pricing_inv_snoc[OF inv]) (use ok None st in \<open>simp_all add: repriced_def\<close>)
next
  case (Some old)
  define f where "f r = r\<lparr>ep_basePrice := set_or (map_option (\<lambda>b. if ep_isFree old then 0 else normalizeBasePrice b) (eu_basePrice input)) (ep_basePrice r),
     ep_currency := set_or (map_option (\<lambda>c. normalizeCurrency (Some c)) (eu_currency input)) (ep_currency r)\<rparr>" for r :: pricing_row
  have f: "f old = repriced input old" by (simp add: f_def repriced_def)
  have "apply_set \<lparr>ps_basePrice = map_option (\<lambda>b. if ep_isFree old then 0 else normalizeBasePrice b) (eu_basePrice input),
      ps_isFree = None, ps_autoAccept = None, ps_currency = map_option (\<lambda>c. normalizeCurrency (Some c)) (eu_currency input),
      ps_rules = None, ps_payment = None\<rparr> = f"
    by (intro ext) (simp add: apply_set_def apply_payment_def f_def)
  then have "ad_pricing ?t = update_rows (\<lambda>r. ep_eventId r = i) f (ad_pricing s)"
    using Some st by (simp add: upsertEventPricingTx_def upsertEventPricing_def Let_def)
  then show ?thesis
    by (intro pricing_inv_replace[OF inv, where f = f and old = old and i = i]) (use ok Some st f in \<open>simp_all add: f_def\<close>)
qed

text \<open>The stages of a committed update.\<close>

lemma updateEvent_stages:
  assumes "updateEvent env i p s = Inr (u, s')"
  obtains e stored s1 where "event_of s i = Some e" "getEventPricing env (pricing_view s) i = Inr stored"
    "update_event_checks env s e stored p = Inr ()" "(if hasEventData p then updateEventTx i p s else Inr s) = Inr s1"
    "s' = (if eu_basePrice p \<noteq> None \<or> eu_currency p \<noteq> None
      then upsertEventPricingTx i
        (map_option (\<lambda>b. if set_or (map_option ep_isFree stored) False then 0 else normalizeBasePrice b) (eu_basePrice p))
        (map_option (\<lambda>c. normalizeCurrency (Some c)) (eu_currency p)) s1
      else s1)"
proof -
  have ne: "p \<noteq> no_event_patch" using assms by (auto simp: updateEvent_def)
  obtain e where e: "event_of s i = Some e" using assms ne by (auto simp: updateEvent_def split: option.split_asm)
  show thesis
    using assms unfolding updateEvent_def if_not_P[OF ne] e option.case
    by (elim sbind_InrE) (rule that[OF e], assumption, simp, assumption, simp only: sum.inject prod.inject)
qed

lemma updateEventTx_Inr:
  "updateEventTx i p s = Inr t \<Longrightarrow> t = s\<lparr>ad_events := update_rows (\<lambda>e. pe_id e = i) (patch_event p) (ad_events s)\<rparr>"
  by (auto simp: updateEventTx_def elim!: sbind_InrE)

lemma updateEvent_inv:
  assumes run: "updateEvent env i input s = Inr (x, s')" and inv: "pricing_inv env (pricing_view s)"
    and icu: "icu_codes (px_icu env)" and cur: "currency_given (eu_currency input)"
  shows "pricing_inv env (pricing_view s')"
proof -
  obtain e stored s1 where st: "getEventPricing env (pricing_view s) i = Inr stored"
    and chk: "update_event_checks env s e stored input = Inr ()"
    and tx: "(if hasEventData input then updateEventTx i input s else Inr s) = Inr s1"
    and s': "s' = (if eu_basePrice input \<noteq> None \<or> eu_currency input \<noteq> None
          then upsertEventPricingTx i
            (map_option (\<lambda>b. if set_or (map_option ep_isFree stored) False then 0 else normalizeBasePrice b) (eu_basePrice input))
            (map_option (\<lambda>c. normalizeCurrency (Some c)) (eu_currency input)) s1
          else s1)"
    by (rule updateEvent_stages[OF run]) blast
  have p1: "ad_pricing s1 = ad_pricing s" using tx by (auto dest: updateEventTx_Inr split: if_split_asm)
  have so: "stored = pricing_of (pricing_view s) i" by (rule getEventPricing_Inr[OF st])
  have cr: "current_row (pricing_view s) i = set_or stored (default_pricing i)" by (simp add: current_row_def so)
  have inv1: "pricing_inv env (pricing_view s1)" using inv pricing_inv_cong[of "pricing_view s1" "pricing_view s"] p1 by simp
  have so1: "pricing_of (pricing_view s1) i = stored" by (simp add: so pricing_of_def p1)
  have "pricing_ok (px_icu env) (repriced input (set_or stored (default_pricing i))) \<and>
      length (ep_currency (repriced input (set_or stored (default_pricing i)))) = 3"
    by (rule repriced_ok[OF icu _ _ refl chk cur]) (use pricing_inv_current[OF inv, of i] cr in simp_all)
  from upsert_inv[OF inv1 so1 this] inv1 show ?thesis by (simp add: s')
qed

lemma deleteEvent_inv:
  assumes "deleteEvent i s0 s = Inr (x, s')" and "pricing_inv env (pricing_view s)"
  shows "pricing_inv env (pricing_view s')"
proof -
  have "ad_pricing s' = filter (\<lambda>r. ep_eventId r \<noteq> i) (ad_pricing s)"
    using assms(1) by (auto simp: deleteEvent_def deleteEventTx_def Let_def elim!: sbind_InrE split: option.split_asm)
  with assms(2) show ?thesis by (simp add: pricing_inv_def distinct_map_filter)
qed

section \<open>All sequences of writes\<close>

text \<open>
  The writes of the price lists: the pricing service's and the events service's. \<open>other\<close> is any write of other
  code, which leaves the table as it is.
\<close>

definition put_pricing :: "pricing_db \<Rightarrow> access_db \<Rightarrow> access_db" where
  "put_pricing v s = s\<lparr>ad_pricing := pd_pricing v, ad_settle := (ad_settle s)\<lparr>db_ids := pd_ids v\<rparr>\<rparr>"

inductive pricing_step :: "pricing_env \<Rightarrow> access_db \<Rightarrow> access_db \<Rightarrow> bool" for env where
  patch: "updateEventPricing env e input (pricing_view s) = Inr (row, v) \<Longrightarrow> patch_schema input \<Longrightarrow>
    pricing_step env s (put_pricing v s)"
| add: "addPricingRule env e rule (pricing_view s) = Inr (row, v) \<Longrightarrow> pricing_step env s (put_pricing v s)"
| change: "updatePricingRule env e i upd (pricing_view s) = Inr (row, v) \<Longrightarrow> pricing_step env s (put_pricing v s)"
| delete: "deletePricingRule env e i (pricing_view s) = Inr (row, v) \<Longrightarrow> pricing_step env s (put_pricing v s)"
| create_event: "createEvent env clients given s0 s = Inr (created, s') \<Longrightarrow> currency_given (ei_currency given) \<Longrightarrow>
    pricing_step env s s'"
| update_event: "updateEvent env i changes s = Inr (u, s') \<Longrightarrow> currency_given (eu_currency changes) \<Longrightarrow>
    pricing_step env s s'"
| delete_event: "deleteEvent i s0 s = Inr (u, s') \<Longrightarrow> pricing_step env s s'"
| other: "ad_pricing s' = ad_pricing s \<Longrightarrow> pricing_step env s s'"

lemma put_pricing_inv: "pricing_inv env v \<Longrightarrow> pricing_inv env (pricing_view (put_pricing v s))"
  by (simp add: pricing_inv_def put_pricing_def)

lemma pricing_step_inv:
  "pricing_step env s s' \<Longrightarrow> icu_codes (px_icu env) \<Longrightarrow> pricing_inv env (pricing_view s) \<Longrightarrow> pricing_inv env (pricing_view s')"
proof (induction rule: pricing_step.induct)
  case (patch e input s row v)
  then show ?case using core_inv put_pricing_inv unfolding updateEventPricing_def by blast
next
  case (add e rule s row v)
  then show ?case using add_rule_inv put_pricing_inv by blast
next
  case (change e i upd s row v)
  then show ?case using change_rule_inv put_pricing_inv by blast
next
  case (delete e i s row v)
  then show ?case using delete_rule_inv put_pricing_inv by blast
next
  case (create_event clients given s0 s created s')
  then show ?case using createEvent_inv by blast
next
  case (update_event i changes s u s')
  then show ?case using updateEvent_inv by blast
next
  case (delete_event i s0 s u s')
  then show ?case using deleteEvent_inv by blast
next
  case (other s' s)
  then show ?case using pricing_inv_cong[of "pricing_view s'" "pricing_view s"] by simp
qed

text \<open>
  C22: Whatever sequence of writes of price lists runs from an empty table, accepted or refused (the price lists and
  rules of the pricing service, the events created, updated and deleted with theirs), an event has at most one price
  list and every stored one stays consistent: a free event has base price 0, only a free event accepts
  registrations by itself, there are at most ten rules, and every price is exact in the event's currency. Other
  writes may come between; requests have passed their schemas, and a currency code has three letters.
\<close>

theorem reachable_pricing_ok:
  assumes "(pricing_step env)\<^sup>*\<^sup>* s s'" and "ad_pricing s = []" and "icu_codes (px_icu env)"
  shows "distinct (map ep_eventId (ad_pricing s')) \<and> (\<forall>row \<in> set (ad_pricing s'). pricing_ok (px_icu env) row)"
proof -
  have "pricing_inv env (pricing_view s)" using assms(2) by (simp add: pricing_inv_def)
  with assms(1) have "pricing_inv env (pricing_view s')"
    by (induction rule: rtranclp_induct) (auto intro: pricing_step_inv[OF _ assms(3)])
  then show ?thesis by (simp add: pricing_inv_def)
qed

section \<open>A concrete event\<close>

definition demo_events_env :: pricing_env where
  "demo_events_env = demo_pricing_env\<lparr>px_icu := (\<lambda>c. if c = ''TND'' then Some 3 else if c = ''EUR'' then Some 2 else None)\<rparr>"

definition demo_empty :: access_db where
  "demo_empty = \<lparr>ad_events = [], ad_items = [], ad_edges = [], ad_pricing = [], ad_forms = [],
     ad_settle = \<lparr>db_events = [], db_networking = [], db_accesses = [], db_registrations = [], db_sponsorships = [],
       db_usages = [], db_outbox = [], db_audit = [], db_realtimeDisabled = False, db_clock = 0, db_ids = [''e'']\<rparr>\<rparr>"

definition demo_event_input :: event_input where
  "demo_event_input = \<lparr>ei_clientId = ''cl'', ei_name = ''Congress'', ei_slug = ''congress'', ei_description = None,
     ei_maxCapacity = Some 100, ei_startDate = 0, ei_endDate = 0, ei_location = None, ei_basePrice = Some 500000,
     ei_currency = Some ''TND''\<rparr>"

text \<open>An event priced 50 dinars, priced 60.5 euros in the same request that opens it, then made free.\<close>

definition demo_changes :: event_patch where
  "demo_changes = no_event_patch\<lparr>eu_status := Some Ev_open, eu_basePrice := Some (Some 605000), eu_currency := Some ''eur''\<rparr>"

definition demo_free :: pricing_input where
  "demo_free = no_input\<lparr>pi_isFree := Some True, pi_autoAccept := Some True\<rparr>"

definition demo_clients :: "client_row list" where
  "demo_clients = [\<lparr>cw_id = ''cl'', cw_active = True, cw_enabledModules = Some [''pricing'']\<rparr>]"

definition demo_made_free :: "error + pricing_row \<times> pricing_db \<Rightarrow> bool" where
  "demo_made_free res = (case res of
     Inl e \<Rightarrow> False
   | Inr (row, v) \<Rightarrow> map (\<lambda>r. (ep_eventId r, ep_basePrice r, ep_autoAccept r)) (pd_pricing v) = [(''e'', 0, True)])"

definition demo_repriced :: "error + unit \<times> access_db \<Rightarrow> bool" where
  "demo_repriced res = (case res of
     Inl e \<Rightarrow> False
   | Inr (u, s) \<Rightarrow> map (\<lambda>r. (ep_basePrice r, ep_currency r)) (ad_pricing s) = [(605000, ''EUR'')]
       \<and> demo_made_free (updateEventPricing demo_events_env ''e'' demo_free (pricing_view s)))"

definition demo_created :: "error + (access_event \<times> pricing_row) \<times> access_db \<Rightarrow> bool" where
  "demo_created res = (case res of
     Inl e \<Rightarrow> False | Inr (created, s) \<Rightarrow> demo_repriced (updateEvent demo_events_env ''e'' demo_changes s))"

lemma demo_event_run: "demo_created (createEvent demo_events_env demo_clients demo_event_input demo_empty demo_empty)"
  by code_simp

theorem reachable_pricing_ok_witness:
  "\<exists>s row. (pricing_step demo_events_env)\<^sup>*\<^sup>* demo_empty s \<and> ad_pricing s = [row] \<and> ep_autoAccept row \<and>
    pricing_ok (px_icu demo_events_env) row"
proof -
  obtain created s1 where c: "createEvent demo_events_env demo_clients demo_event_input demo_empty demo_empty = Inr (created, s1)"
    and r1: "demo_repriced (updateEvent demo_events_env ''e'' demo_changes s1)"
    using demo_event_run unfolding demo_created_def by (auto split: sum.split_asm)
  obtain u s2 where u: "updateEvent demo_events_env ''e'' demo_changes s1 = Inr (u, s2)"
    and r2: "demo_made_free (updateEventPricing demo_events_env ''e'' demo_free (pricing_view s2))"
    using r1 unfolding demo_repriced_def by (auto split: sum.split_asm)
  obtain row v where p: "updateEventPricing demo_events_env ''e'' demo_free (pricing_view s2) = Inr (row, v)"
    and v: "map (\<lambda>r. (ep_eventId r, ep_basePrice r, ep_autoAccept r)) (pd_pricing v) = [(''e'', 0, True)]"
    using r2 unfolding demo_made_free_def by (auto split: sum.split_asm)
  have g: "currency_given (ei_currency demo_event_input)" "currency_given (eu_currency demo_changes)" "patch_schema demo_free"
    unfolding currency_given_def demo_event_input_def demo_changes_def demo_free_def patch_schema_def rules_bounded_def
    by (simp_all add: no_input_def no_event_patch_def) code_simp+
  have a: "pricing_step demo_events_env demo_empty s1" by (rule create_event[OF c g(1)])
  have b: "pricing_step demo_events_env s1 s2" by (rule update_event[OF u g(2)])
  have d: "pricing_step demo_events_env s2 (put_pricing v s2)" by (rule patch[OF p g(3)])
  have steps: "(pricing_step demo_events_env)\<^sup>*\<^sup>* demo_empty (put_pricing v s2)"
    using a b d by (meson converse_rtranclp_into_rtranclp rtranclp.rtrancl_refl)
  obtain r where r: "pd_pricing v = [r]" "ep_autoAccept r" using v by (auto simp: map_eq_Cons_conv)
  have "icu_codes (px_icu demo_events_env)" by (simp add: icu_codes_def demo_events_env_def)
  moreover have "ad_pricing demo_empty = []" by (simp add: demo_empty_def)
  ultimately have "\<forall>row \<in> set (ad_pricing (put_pricing v s2)). pricing_ok (px_icu demo_events_env) row"
    using reachable_pricing_ok[OF steps] by blast
  with r steps show ?thesis by (intro exI[of _ "put_pricing v s2"] exI[of _ r]) (simp add: put_pricing_def)
qed

end
