(* ===== verification/AccessGraph.thy ===== *)
theory AccessGraph
  imports Access
begin

text \<open>
  \<open>detectCircularPrerequisites\<close> of \<open>access.service.ts\<close>: a depth-first search over the prerequisite graph of an
  event with the sets \<open>visited\<close> and \<open>inStack\<close>. It terminates, and it finds a cycle exactly when one can be
  reached from the item.
\<close>

section \<open>The search\<close>

type_synonym dfs_state = "string set \<times> string set"

text \<open>
  \<open>hasCycle\<close> on one node and its loop over the node's dependencies; the sets are the state the closure
  mutates. The first argument bounds the depth of the recursion; \<open>None\<close> says it did not suffice.
\<close>

function (sequential) hasCycle :: "nat \<Rightarrow> (string \<Rightarrow> string list) \<Rightarrow> string \<Rightarrow> dfs_state \<Rightarrow> (bool \<times> dfs_state) option"
  and anyCycle :: "nat \<Rightarrow> (string \<Rightarrow> string list) \<Rightarrow> string list \<Rightarrow> dfs_state \<Rightarrow> (bool \<times> dfs_state) option" where
  "hasCycle 0 g n st = None"
| "hasCycle (Suc k) g n st =
    (if n \<in> snd st then Some (True, st)
     else if n \<in> fst st then Some (False, st)
     else (case anyCycle k g (g n) (insert n (fst st), insert n (snd st)) of
         None \<Rightarrow> None
       | Some (b, st') \<Rightarrow> Some (b, if b then st' else (fst st', snd st' - {n}))))"
| "anyCycle k g [] st = Some (False, st)"
| "anyCycle k g (d # ds) st =
    (case hasCycle k g d st of
       None \<Rightarrow> None
     | Some (b, st') \<Rightarrow> if b then Some (True, st') else anyCycle k g ds st')"
  by pat_completeness auto

termination
  by (relation "measures [\<lambda>x. case x of Inl (k, _) \<Rightarrow> k | Inr (k, _) \<Rightarrow> k,
        \<lambda>x. case x of Inl _ \<Rightarrow> 0 | Inr (_, _, ds, _) \<Rightarrow> Suc (length ds)]") auto

text \<open>\<open>graph.get(node) ?? []\<close> once the item's proposed prerequisites are set.\<close>

definition prereq_graph :: "(string \<times> string) list \<Rightarrow> string \<Rightarrow> string list \<Rightarrow> string \<Rightarrow> string list" where
  "prereq_graph edges accessId newRequiredIds n =
    (if n = accessId then newRequiredIds else map snd (filter (\<lambda>(owner, required). owner = n) edges))"

definition detectCircularPrerequisites :: "access_db \<Rightarrow> string \<Rightarrow> string \<Rightarrow> string list \<Rightarrow> bool option" where
  "detectCircularPrerequisites s eventId accessId newRequiredIds =
    (let edges = getEventPrereqEdges s eventId in
     map_option fst (hasCycle (length newRequiredIds + length edges + 3)
       (prereq_graph edges accessId newRequiredIds) accessId ({}, {})))"

section \<open>Cycles\<close>

definition edge_rel :: "(string \<Rightarrow> string list) \<Rightarrow> (string \<times> string) set" where
  "edge_rel g = {(n, d). d \<in> set (g n)}"

definition reaches_cycle :: "(string \<Rightarrow> string list) \<Rightarrow> string \<Rightarrow> bool" where
  "reaches_cycle g n \<longleftrightarrow> (\<exists>w. (n, w) \<in> (edge_rel g)\<^sup>* \<and> (w, w) \<in> (edge_rel g)\<^sup>+)"

lemma reaches_cycle_step: "d \<in> set (g n) \<Longrightarrow> reaches_cycle g d \<Longrightarrow> reaches_cycle g n"
  unfolding reaches_cycle_def edge_rel_def by (blast intro: converse_rtrancl_into_rtrancl)

lemma reaches_cycle_self: "(n, n) \<in> (edge_rel g)\<^sup>+ \<Longrightarrow> reaches_cycle g n"
  unfolding reaches_cycle_def by blast

lemma reaches_cycle_cases:
  assumes "reaches_cycle g n"
  obtains d where "d \<in> set (g n)" "reaches_cycle g d"
proof -
  obtain w where w: "(n, w) \<in> (edge_rel g)\<^sup>*" "(w, w) \<in> (edge_rel g)\<^sup>+"
    using assms unfolding reaches_cycle_def by blast
  have "(n, w) \<in> (edge_rel g)\<^sup>+" using w by (rule rtrancl_trancl_trancl)
  then obtain d where "(n, d) \<in> edge_rel g" "(d, w) \<in> (edge_rel g)\<^sup>*" by (blast dest: tranclD)
  then show ?thesis using that w(2) unfolding reaches_cycle_def edge_rel_def by blast
qed

section \<open>Termination\<close>

definition state_in :: "string set \<Rightarrow> dfs_state \<Rightarrow> bool" where
  "state_in U st \<longleftrightarrow> fst st \<subseteq> U"

text \<open>The unvisited nodes bound the depth: every call that goes deeper visits one more.\<close>

lemma hasCycle_terminates:
  assumes "finite U" and "\<And>n. n \<in> U \<Longrightarrow> set (g n) \<subseteq> U"
  shows "n \<in> U \<Longrightarrow> state_in U st \<Longrightarrow> card (U - fst st) < k
      \<Longrightarrow> \<exists>b st'. hasCycle k g n st = Some (b, st') \<and> fst st \<subseteq> fst st' \<and> state_in U st'"
    and "set ds \<subseteq> U \<Longrightarrow> state_in U st \<Longrightarrow> card (U - fst st) < k
      \<Longrightarrow> \<exists>b st'. anyCycle k g ds st = Some (b, st') \<and> fst st \<subseteq> fst st' \<and> state_in U st'"
  using assms(2)
proof (induction k g n st and k g ds st rule: hasCycle_anyCycle.induct)
  case (1 g n st)
  then show ?case by simp
next
  case (2 k g n st)
  show ?case
  proof (cases "n \<in> snd st \<or> n \<in> fst st")
    case True
    then show ?thesis using 2(3) by (cases st) auto
  next
    case False
    have "card (U - insert n (fst st)) < card (U - fst st)"
      by (rule psubset_card_mono) (use assms(1) 2(2) False in auto)
    then have c: "card (U - fst (insert n (fst st), insert n (snd st))) < k" using 2(4) by simp
    have i: "state_in U (insert n (fst st), insert n (snd st))" using 2(2,3) by (simp add: state_in_def)
    obtain b st' where "anyCycle k g (g n) (insert n (fst st), insert n (snd st)) = Some (b, st')"
      "insert n (fst st) \<subseteq> fst st'" "state_in U st'"
      using 2(1)[OF _ _ _ i c 2(5)] False 2(5)[OF 2(2)] by auto
    then show ?thesis using False by (auto simp: state_in_def)
  qed
next
  case (3 k g st)
  then show ?case by (intro exI[of _ False] exI[of _ st] conjI) simp_all
next
  case (4 k g d ds st)
  obtain b st1 where h: "hasCycle k g d st = Some (b, st1)" "fst st \<subseteq> fst st1" "state_in U st1"
    using 4(1)[OF _ 4(4,5,6)] 4(3) by auto
  have "card (U - fst st1) \<le> card (U - fst st)" by (rule card_mono) (use assms(1) h(2) in auto)
  then have c: "card (U - fst st1) < k" using 4(5) by simp
  show ?case
  proof (cases b)
    case True
    then show ?thesis using h by auto
  next
    case False
    then show ?thesis using 4(2)[OF h(1) refl False _ h(3) c 4(6)] 4(3) h by fastforce
  qed
qed

section \<open>Correctness\<close>

text \<open>
  A visited node that is no longer on the stack reaches no cycle; every node on the stack is an ancestor of
  the node the search stands at.
\<close>

definition cleared :: "(string \<Rightarrow> string list) \<Rightarrow> dfs_state \<Rightarrow> bool" where
  "cleared g st \<longleftrightarrow> snd st \<subseteq> fst st \<and> (\<forall>v \<in> fst st - snd st. \<not> reaches_cycle g v)"

lemma hasCycle_correct:
  shows "hasCycle k g n st = Some (b, st') \<Longrightarrow> cleared g st \<Longrightarrow> (\<forall>a \<in> snd st. (a, n) \<in> (edge_rel g)\<^sup>+)
      \<Longrightarrow> (b \<longrightarrow> reaches_cycle g n)
        \<and> (\<not> b \<longrightarrow> cleared g st' \<and> snd st' = snd st \<and> n \<in> fst st' - snd st' \<and> fst st \<subseteq> fst st')"
    and "anyCycle k g ds st = Some (b, st') \<Longrightarrow> cleared g st
      \<Longrightarrow> (\<forall>d \<in> set ds. \<forall>a \<in> snd st. (a, d) \<in> (edge_rel g)\<^sup>+)
      \<Longrightarrow> (b \<longrightarrow> (\<exists>d \<in> set ds. reaches_cycle g d))
        \<and> (\<not> b \<longrightarrow> cleared g st' \<and> snd st' = snd st \<and> set ds \<subseteq> fst st' - snd st' \<and> fst st \<subseteq> fst st')"
proof (induction k g n st and k g ds st arbitrary: b st' and b st' rule: hasCycle_anyCycle.induct)
  case (1 g n st)
  then show ?case by simp
next
  case (2 k g n st)
  show ?case
  proof (cases "n \<in> snd st \<or> n \<in> fst st")
    case True
    then show ?thesis using 2(2-) reaches_cycle_self by (auto split: if_splits)
  next
    case False
    let ?st = "(insert n (fst st), insert n (snd st))"
    obtain st1 where a: "anyCycle k g (g n) ?st = Some (b, st1)"
      and st': "st' = (if b then st1 else (fst st1, snd st1 - {n}))"
      using 2(2) False by (auto split: option.splits)
    have cl: "cleared g ?st" using 2(3) by (auto simp: cleared_def)
    have anc: "\<forall>d \<in> set (g n). \<forall>a \<in> snd ?st. (a, d) \<in> (edge_rel g)\<^sup>+"
      using 2(4) by (auto simp: edge_rel_def intro: trancl_into_trancl)
    have ih: "(b \<longrightarrow> (\<exists>d \<in> set (g n). reaches_cycle g d))
        \<and> (\<not> b \<longrightarrow> cleared g st1 \<and> snd st1 = snd ?st \<and> set (g n) \<subseteq> fst st1 - snd st1 \<and> fst ?st \<subseteq> fst st1)"
      using 2(1)[OF _ _ a cl anc] False by blast
    have nostack: "n \<notin> snd st" using False by simp
    show ?thesis
    proof (intro conjI impI)
      assume b
      then show "reaches_cycle g n" using ih reaches_cycle_step by blast
    next
      assume nb: "\<not> b"
      then have s1: "cleared g st1" "snd st1 = insert n (snd st)" "set (g n) \<subseteq> fst st1 - snd st1"
        "insert n (fst st) \<subseteq> fst st1" using ih by auto
      have nn: "\<not> reaches_cycle g n"
        using s1(1,3) reaches_cycle_cases[of g n] unfolding cleared_def by blast
      show "cleared g st'" "snd st' = snd st" "n \<in> fst st' - snd st'" "fst st \<subseteq> fst st'"
        using s1 nn nb nostack by (auto simp: st' cleared_def)
    qed
  qed
next
  case (3 k g st)
  then show ?case by simp
next
  case (4 k g d ds st)
  obtain b1 st1 where h: "hasCycle k g d st = Some (b1, st1)"
    and r: "(if b1 then Some (True, st1) else anyCycle k g ds st1) = Some (b, st')"
    using 4(3) by (auto split: option.splits)
  have d: "(b1 \<longrightarrow> reaches_cycle g d)
        \<and> (\<not> b1 \<longrightarrow> cleared g st1 \<and> snd st1 = snd st \<and> d \<in> fst st1 - snd st1 \<and> fst st \<subseteq> fst st1)"
    using 4(1)[OF h 4(4)] 4(5) by fastforce
  show ?case
  proof (cases b1)
    case True
    then show ?thesis using d r by auto
  next
    case False
    then have s1: "cleared g st1" "snd st1 = snd st" "d \<in> fst st1 - snd st1" "fst st \<subseteq> fst st1"
      and rest: "anyCycle k g ds st1 = Some (b, st')" using d r by auto
    have "(b \<longrightarrow> (\<exists>x \<in> set ds. reaches_cycle g x))
        \<and> (\<not> b \<longrightarrow> cleared g st' \<and> snd st' = snd st1 \<and> set ds \<subseteq> fst st' - snd st' \<and> fst st1 \<subseteq> fst st')"
      using 4(2)[OF h refl False rest s1(1)] 4(5) s1(2) by fastforce
    then show ?thesis using s1 by auto
  qed
qed

lemma prereq_nodes:
  fixes newIds :: "string list" and edges :: "(string \<times> string) list" and i :: string
  defines "U \<equiv> insert i (set newIds \<union> snd ` set edges)"
  shows "finite U" "n \<in> U \<Longrightarrow> set (prereq_graph edges i newIds n) \<subseteq> U" "card U \<le> length newIds + length edges + 1"
proof -
  show "finite U" by (simp add: U_def)
  show "n \<in> U \<Longrightarrow> set (prereq_graph edges i newIds n) \<subseteq> U" by (auto simp: U_def prereq_graph_def image_iff)
  have "card (snd ` set edges) \<le> length edges"
    using card_image_le[of "set edges" snd] card_length[of edges] by simp
  moreover have "card (set newIds \<union> snd ` set edges) \<le> card (set newIds) + card (snd ` set edges)" by (rule card_Un_le)
  moreover have "card (set newIds) \<le> length newIds" by (rule card_length)
  moreover have "card U \<le> Suc (card (set newIds \<union> snd ` set edges))" unfolding U_def by (simp add: card_insert_if)
  ultimately show "card U \<le> length newIds + length edges + 1" by simp
qed

lemma hasCycle_total:
  "\<exists>b st. hasCycle (length newIds + length edges + 3) (prereq_graph edges i newIds) i ({}, {}) = Some (b, st)
    \<and> (b \<longleftrightarrow> reaches_cycle (prereq_graph edges i newIds) i)"
proof -
  let ?U = "insert i (set newIds \<union> snd ` set edges)" and ?g = "prereq_graph edges i newIds"
  obtain b st where h: "hasCycle (length newIds + length edges + 3) ?g i ({}, {}) = Some (b, st)"
    using hasCycle_terminates(1)[OF prereq_nodes(1), of i newIds edges ?g i "({}, {})" "length newIds + length edges + 3"]
      prereq_nodes(2)[of _ i newIds edges] prereq_nodes(3)[of i newIds edges] by (auto simp: state_in_def)
  have "cleared ?g ({}, {})" by (simp add: cleared_def)
  note c = hasCycle_correct(1)[OF h this]
  have "b \<longleftrightarrow> reaches_cycle ?g i" using c by (auto simp: cleared_def)
  then show ?thesis using h by blast
qed

lemma detectCircular_exact:
  "detectCircularPrerequisites s eventId i newIds =
    Some (reaches_cycle (prereq_graph (getEventPrereqEdges s eventId) i newIds) i)"
  using hasCycle_total[of newIds "getEventPrereqEdges s eventId" i]
  unfolding detectCircularPrerequisites_def Let_def by (elim exE conjE) (simp only: option.map fst_conv)

end
