(* ===== verification/AccessWrite.thy ===== *)
theory AccessWrite
  imports AccessGraph SettlementSystem
begin

text \<open>
  The writes of \<open>access.service.ts\<close>. A call reads first (state \<open>s0\<close>) and then runs one transaction on the
  state it finds (\<open>s\<close>), which another call may have changed in between; a throw leaves the tables of \<open>s\<close>.
\<close>

section \<open>Operations\<close>

definition new_item :: "access_input \<Rightarrow> string \<Rightarrow> date \<Rightarrow> event_access" where
  "new_item i currency now = \<lparr>ea_id = [], ea_eventId = ci_eventId i, ea_name = ci_name i,
     ea_active = set_or (ci_active i) True, ea_maxCapacity = ci_maxCapacity i, ea_paidCount = 0, ea_registeredCount = 0,
     ax_type = set_or (ci_type i) OTHER, ax_description = ci_description i, ax_location = ci_location i,
     ax_startsAt = ci_startsAt i, ax_endsAt = ci_endsAt i, ax_price = set_or (ci_price i) 0, ax_currency = currency,
     ax_availableFrom = ci_availableFrom i, ax_availableTo = ci_availableTo i, ax_conditions = ci_conditions i,
     ax_conditionLogic = set_or (ci_conditionLogic i) ''AND'', ax_sortOrder = set_or (ci_sortOrder i) 0,
     ax_groupLabel = ci_groupLabel i, ax_allowCompanion = set_or (ci_allowCompanion i) False,
     ax_includedInBase = set_or (ci_includedInBase i) False, ax_companionPrice = set_or (ci_companionPrice i) 0,
     ax_createdAt = now, ax_updatedAt = now\<rparr>"

definition create_checks :: "pricing_env \<Rightarrow> access_input \<Rightarrow> access_db \<Rightarrow> error + string" where
  "create_checks env input s0 =
    (case getEventDatesForAccess s0 (ci_eventId input) of
       None \<Rightarrow> Inl notFound
     | Some (startDate, endDate, eventCurrency) \<Rightarrow>
        sbind (guard (validateAccessDatesAgainstEvent [(Starts_at, ci_startsAt input), (Ends_at, ci_endsAt input),
            (Available_from, ci_availableFrom input), (Available_to, ci_availableTo input)] startDate endDate = []) date_error) (\<lambda>_.
        let requiredIds = set_or (ci_requiredAccessIds input) [] in
        sbind (guard (requiredIds = []
            \<or> length (findExistingAccessIdsInEvent s0 requiredIds (ci_eventId input)) = length requiredIds)
          (App_exception ''BAD_REQUEST'' 400)) (\<lambda>_.
        sbind (assertValidOptionConditions env s0 (ci_eventId input) (ci_conditions input)) (\<lambda>_.
        let currency = set_or (ci_currency input) eventCurrency in
        sbind (assertMoneyPrecision (px_icu env) currency [ci_price input, ci_companionPrice input]) (\<lambda>_.
        Inr currency)))))"

definition createEventAccess ::
  "pricing_env \<Rightarrow> access_input \<Rightarrow> date \<Rightarrow> access_db \<Rightarrow> access_db
    \<Rightarrow> error + (event_access \<times> (string \<times> string) list) \<times> access_db" where
  "createEventAccess env input now s0 s =
    sbind (create_checks env input s0) (\<lambda>currency.
      insertEventAccess (new_item input currency now) (set_or (ci_requiredAccessIds input) []) s)"

definition update_checks :: "pricing_env \<Rightarrow> string \<Rightarrow> access_patch \<Rightarrow> access_db \<Rightarrow> error + string" where
  "update_checks env i input s0 =
    (case getEventAccessForUpdate s0 i of
       None \<Rightarrow> Inl access_not_found
     | Some (access, startDate, endDate) \<Rightarrow>
        let startsAt = set_or (up_startsAt input) (ax_startsAt access);
            endsAt = set_or (up_endsAt input) (ax_endsAt access);
            availableFrom = set_or (up_availableFrom input) (ax_availableFrom access);
            availableTo = set_or (up_availableTo input) (ax_availableTo access) in
        sbind (guard (validateAccessDatesAgainstEvent [(Starts_at, startsAt), (Ends_at, endsAt),
            (Available_from, availableFrom), (Available_to, availableTo)] startDate endDate = []) date_error) (\<lambda>_.
        sbind (guard (endsAfterStarts startsAt endsAt) badRequest) (\<lambda>_.
        sbind (assertValidOptionConditions env s0 (ea_eventId access) (set_or (up_conditions input) None)) (\<lambda>_.
        sbind (assertMoneyPrecision (px_icu env) (set_or (up_currency input) (ax_currency access))
            [up_price input, up_companionPrice input]) (\<lambda>_.
        Inr (ea_eventId access))))))"

text \<open>
  The prerequisite checks of the transaction, on the rows it has locked. An item whose event is gone is
  found by neither read.
\<close>

definition prerequisite_checks :: "string \<Rightarrow> string \<Rightarrow> string list option \<Rightarrow> access_db \<Rightarrow> error + unit" where
  "prerequisite_checks eventId i required s =
    (case required of None \<Rightarrow> Inr ()
     | Some requiredAccessIds \<Rightarrow>
        if requiredAccessIds = [] then Inr ()
        else
          sbind (guard (length (findExistingAccessIdsInEvent s requiredAccessIds eventId) = length requiredAccessIds)
            (App_exception ''BAD_REQUEST'' 400)) (\<lambda>_.
          case detectCircularPrerequisites s eventId i requiredAccessIds of
            None \<Rightarrow> Inl (RangeError ''stack'')
          | Some found \<Rightarrow> guard (\<not> found) (App_exception ''ACCESS_CIRCULAR_DEPENDENCY'' 400)))"

definition handleCapacityReached :: "string \<Rightarrow> string list \<Rightarrow> db \<Rightarrow> nat \<times> db" where
  "handleCapacityReached eventId accessIds s =
    (case enqueueAccessDrops eventId accessIds Capacity_reached s of (ids, t) \<Rightarrow> (length ids, t))"

definition update_txn ::
  "string \<Rightarrow> string \<Rightarrow> access_patch \<Rightarrow> date \<Rightarrow> access_db \<Rightarrow> error + (event_access \<times> (string \<times> string) list) \<times> access_db" where
  "update_txn eventId i input now s =
    (let setsPrerequisites = (up_requiredAccessIds input \<noteq> None \<and> up_requiredAccessIds input \<noteq> Some []);
         lockIds = (if setsPrerequisites then listEventAccessIds s eventId else []);
         locked = lockEventAccessRowsForUpdate s (i # lockIds) in
     case (if i \<in> set locked then getEventAccessForUpdate s i else None) of
       None \<Rightarrow> Inl access_not_found
     | Some (current, _) \<Rightarrow>
        sbind (prerequisite_checks eventId i (up_requiredAccessIds input) s) (\<lambda>_.
        sbind (guard (case up_maxCapacity input of Some (Some c) \<Rightarrow> ea_paidCount current \<le> c | _ \<Rightarrow> True)
          (App_exception ''ACCESS_CAPACITY_EXCEEDED'' 409)) (\<lambda>_.
        let isCapacityChanging = (up_maxCapacity input \<noteq> None \<and> up_maxCapacity input \<noteq> Some (ea_maxCapacity current));
            isBeingDeactivated = (up_active input = Some False \<and> ea_active current);
            s1 = updateEventAccessRow i input now s in
        sbind (case up_requiredAccessIds input of None \<Rightarrow> Inr s1
               | Some ids \<Rightarrow> setAccessPrerequisites i ids s1) (\<lambda>s2.
        let s3 = (if isBeingDeactivated then snd (on_settle (enqueueAccessDrops eventId [i] Deactivated) s2)
                  else if isCapacityChanging \<and> up_maxCapacity input \<noteq> Some None
                    \<and> Some (Some (ea_paidCount current)) = up_maxCapacity input
                  then snd (on_settle (handleCapacityReached eventId [i]) s2)
                  else s2)
        in case getEventAccessById s3 i of
             None \<Rightarrow> Inl (Plain_error ''null'')
           | Some result \<Rightarrow> Inr (result, s3)))))"

definition updateEventAccess ::
  "pricing_env \<Rightarrow> string \<Rightarrow> access_patch \<Rightarrow> date \<Rightarrow> access_db \<Rightarrow> access_db
    \<Rightarrow> error + (event_access \<times> (string \<times> string) list) \<times> access_db" where
  "updateEventAccess env i input now s0 s =
    sbind (update_checks env i input s0) (\<lambda>eventId. update_txn eventId i input now s)"

definition delete_checks :: "string \<Rightarrow> access_db \<Rightarrow> error + string list" where
  "delete_checks i s0 =
    (case getEventAccessById s0 i of
       None \<Rightarrow> Inl access_not_found
     | Some _ \<Rightarrow>
        sbind (guard (countRegistrationsWithAccess s0 i = 0) (App_exception ''ACCESS_HAS_REGISTRATIONS'' 409)) (\<lambda>_.
        sbind (guard (countActiveSponsorshipsWithAccess s0 i = 0) (App_exception ''ACCESS_HAS_SPONSORSHIPS'' 409)) (\<lambda>_.
        Inr (getAccessDependentIds s0 i))))"

definition deleteEventAccess :: "string \<Rightarrow> access_db \<Rightarrow> access_db \<Rightarrow> error + access_db" where
  "deleteEventAccess i s0 s =
    sbind (delete_checks i s0) (\<lambda>dependents.
      Inr (deleteEventAccessById i (fold (\<lambda>d t. removePrerequisiteEdge d i t) dependents s)))"

section \<open>Counters\<close>

definition incrementAccessRegisteredCountTx :: "string \<Rightarrow> int \<Rightarrow> db \<Rightarrow> error + db" where
  "incrementAccessRegisteredCountTx accessId quantity s =
    (case casIncrementAccessRegisteredCount accessId quantity s of (hit, t) \<Rightarrow>
      if hit then Inr t
      else case getAccessCapacityInfo s accessId of
        None \<Rightarrow> Inl access_not_found
      | Some _ \<Rightarrow> Inl (App_exception ''ACCESS_CAPACITY_EXCEEDED'' 409))"

definition decrementAccessRegisteredCountTx :: "string \<Rightarrow> int \<Rightarrow> db \<Rightarrow> error + db" where
  "decrementAccessRegisteredCountTx accessId quantity s =
    (case casDecrementAccessRegisteredCount accessId quantity s of (hit, t) \<Rightarrow>
      if hit then Inr t
      else case access_of s accessId of
        None \<Rightarrow> Inl access_not_found
      | Some _ \<Rightarrow> Inl (App_exception ''VALIDATION_ERROR'' 409))"

definition syncPaidCountDelta :: "string \<Rightarrow> paid_access_state \<Rightarrow> paid_access_state \<Rightarrow> db \<Rightarrow> error + db" where
  "syncPaidCountDelta eventId oldState newState s =
    (case applyPaidAccessDelta oldState newState s of
       Inl err \<Rightarrow> Inl (toAccessAppException err)
     | Inr (moves, t) \<Rightarrow>
         Inr (if pm_incremented moves = [] then t else snd (handleCapacityReached eventId (pm_incremented moves) t)))"

text \<open>The access ids covered by the sponsorships linked to a registration, one sponsorship left out.\<close>

definition getRegistrationCoveredAccessIds :: "db \<Rightarrow> string \<Rightarrow> string option \<Rightarrow> string list" where
  "getRegistrationCoveredAccessIds s registrationId excludeSponsorshipId =
    concat (map (\<lambda>u. case sponsorship_of s (us_sponsorshipId u) of None \<Rightarrow> [] | Some r \<Rightarrow> covered_ids r)
      (filter (\<lambda>u. us_registrationId u = Some registrationId
        \<and> (case excludeSponsorshipId of None \<Rightarrow> True | Some x \<Rightarrow> x = [] \<or> us_sponsorshipId u \<noteq> x)) (db_usages s)))"

definition getAlreadyCoveredAccessIds :: "db \<Rightarrow> string \<Rightarrow> string option \<Rightarrow> string set" where
  "getAlreadyCoveredAccessIds s registrationId excludeSponsorshipId =
    set (getRegistrationCoveredAccessIds s registrationId excludeSponsorshipId)"

section \<open>The public list\<close>

definition hasAccessConditions :: "'a event_access_scheme \<Rightarrow> bool" where
  "hasAccessConditions item = (case ax_conditions item of None \<Rightarrow> False | Some cs \<Rightarrow> 0 < length cs)"

definition isPublicVisibleAccess :: "'a event_access_scheme \<Rightarrow> string \<Rightarrow> date \<Rightarrow> bool" where
  "isPublicVisibleAccess item eventId now \<longleftrightarrow>
     ea_eventId item = eventId \<and> ea_active item
   \<and> (case ax_availableFrom item of None \<Rightarrow> True | Some t \<Rightarrow> \<not> t > now)
   \<and> (case ax_availableTo item of None \<Rightarrow> True | Some t \<Rightarrow> \<not> t < now)
   \<and> \<not> hasAccessConditions item"

definition listActive :: "access_db \<Rightarrow> string \<Rightarrow> date \<Rightarrow> (event_access \<times> (string \<times> string) list) list" where
  "listActive s eventId now =
    filter (\<lambda>(item, _). isPublicVisibleAccess item eventId now) (listEventAccessRows s eventId (Some True) None)"

end
