(* ===== verification/AccessSelect.thy ===== *)
theory AccessSelect
  imports AccessWrite "HOL-Library.Multiset"
begin

text \<open>
  What a participant may select: the validation of a selection (\<open>access-validation.ts\<close>), the grouping of the
  items on offer into days, slots and options (\<open>access-grouping.ts\<close>), the rules both share
  (\<open>packages/shared/src/access-rules.ts\<close>) and the requirement that something is selected. The formatting of
  days is the runtime's (\<open>Intl\<close>), a parameter of the model.
\<close>

section \<open>Shared rules\<close>

datatype exclusivity_key = Key_type access_type | Key_other string

definition getExclusivityKey :: "'a event_access_scheme \<Rightarrow> exclusivity_key" where
  "getExclusivityKey access =
    (if ax_type access = OTHER then Key_other (set_or (ax_groupLabel access) '''') else Key_type (ax_type access))"

definition timeRangesOverlap :: "date \<Rightarrow> date \<Rightarrow> date \<Rightarrow> date \<Rightarrow> bool" where
  "timeRangesOverlap aStart aEnd bStart bEnd \<longleftrightarrow> \<not> (aEnd \<le> bStart \<or> bEnd \<le> aStart)"

definition matchesAccessConditions :: "'a event_access_scheme \<Rightarrow> form_data \<Rightarrow> bool" where
  "matchesAccessConditions access formData =
    (case ax_conditions access of None \<Rightarrow> True
     | Some cs \<Rightarrow> cs = [] \<or> evaluateRuleConditions cs (ax_conditionLogic access) formData)"

text \<open>A Map of lists filled in order: \<open>if (!m.has(k)) m.set(k, []); m.get(k)!.push(x)\<close>.\<close>

definition push_bucket :: "('a \<Rightarrow> 'k) \<Rightarrow> 'a \<Rightarrow> ('k \<times> 'a list) list \<Rightarrow> ('k \<times> 'a list) list" where
  "push_bucket key x m = AList.update (key x) (set_or (map_of m (key x)) [] @ [x]) m"

definition buckets :: "('a \<Rightarrow> 'k) \<Rightarrow> 'a list \<Rightarrow> ('k \<times> 'a list) list" where
  "buckets key xs = fold (push_bucket key) xs []"

section \<open>Validating a selection\<close>

datatype selection_error =
  Selected_twice
| Included_missing string
| Item_not_found string
| No_companions string
| Item_inactive string
| Time_conflict string string
| Only_one_of string string
| Needs_prerequisite string
| Not_yet_available string
| No_longer_available string
| Not_for_answers string
| Item_full string

definition is_existing :: "string list option \<Rightarrow> string \<Rightarrow> bool" where
  "is_existing existing i = (case existing of None \<Rightarrow> False | Some ids \<Rightarrow> i \<in> set ids)"

definition selection_map :: "access_with_prereqs list \<Rightarrow> string \<Rightarrow> access_with_prereqs option" where
  "selection_map items = map_of (rev (map (\<lambda>a. (ea_id a, a)) items))"

definition included_errors :: "event_access list \<Rightarrow> string list \<Rightarrow> form_data \<Rightarrow> selection_error list" where
  "included_errors included ids formData =
    concat (map (\<lambda>a. if \<not> matchesAccessConditions a formData then []
      else if ea_id a \<notin> set ids then [Included_missing (ea_name a)] else []) included)"

definition existence_errors ::
  "(string \<Rightarrow> access_with_prereqs option) \<Rightarrow> string list option \<Rightarrow> access_selection \<Rightarrow> selection_error list" where
  "existence_errors accessMap existing sel =
    (case accessMap (as_accessId sel) of
       None \<Rightarrow> [Item_not_found (as_accessId sel)]
     | Some access \<Rightarrow>
        if \<not> ax_allowCompanion access \<and> 1 < as_quantity sel then [No_companions (ea_name access)]
        else if \<not> ea_active access \<and> \<not> is_existing existing (as_accessId sel) then [Item_inactive (as_accessId sel)]
        else [])"

definition pair_errors ::
  "string list option \<Rightarrow> 'a event_access_scheme \<Rightarrow> 'a event_access_scheme \<Rightarrow> selection_error list" where
  "pair_errors existing a b =
    (case (ax_startsAt a, ax_endsAt a, ax_startsAt b, ax_endsAt b) of
       (Some s1, Some e1, Some s2, Some e2) \<Rightarrow>
         if timeRangesOverlap s1 e1 s2 e2 then [Time_conflict (ea_name a) (ea_name b)] else []
     | _ \<Rightarrow> [])
    @ (if ax_type a \<noteq> ADDON \<and> ax_startsAt a = None \<and> ax_startsAt b = None
          \<and> \<not> ax_includedInBase a \<and> \<not> ax_includedInBase b
          \<and> \<not> (is_existing existing (ea_id a) \<and> is_existing existing (ea_id b))
       then [Only_one_of (ea_name a) (ea_name b)] else [])"

text \<open>The pairs (i, j) with i < j, the outer loop first.\<close>

fun later_pairs :: "'a list \<Rightarrow> ('a \<times> 'a) list" where
  "later_pairs [] = []"
| "later_pairs (x # xs) = map (Pair x) xs @ later_pairs xs"

definition prerequisite_errors :: "string list \<Rightarrow> access_with_prereqs \<Rightarrow> selection_error list" where
  "prerequisite_errors ids access =
    concat (map (\<lambda>req. if req \<notin> set ids then [Needs_prerequisite (ea_name access)] else []) (ax_requiredAccess access))"

definition availability_errors ::
  "string list option \<Rightarrow> form_data \<Rightarrow> date \<Rightarrow> 'a event_access_scheme \<Rightarrow> string \<Rightarrow> selection_error list" where
  "availability_errors existing formData now access accessId =
    (if is_existing existing accessId then []
     else (case ax_availableFrom access of None \<Rightarrow> []
           | Some t \<Rightarrow> if t > now then [Not_yet_available (ea_name access)] else [])
        @ (case ax_availableTo access of None \<Rightarrow> []
           | Some t \<Rightarrow> if t < now then [No_longer_available (ea_name access)] else []))
    @ (if \<not> matchesAccessConditions access formData then [Not_for_answers (ea_name access)] else [])"

definition capacity_errors ::
  "string list option \<Rightarrow> 'a event_access_scheme \<Rightarrow> access_selection \<Rightarrow> selection_error list" where
  "capacity_errors existing access sel =
    (if is_existing existing (as_accessId sel) then []
     else case ea_maxCapacity access of None \<Rightarrow> []
       | Some c \<Rightarrow> if c - ea_paidCount access < as_quantity sel then [Item_full (ea_name access)] else [])"

definition validateSelections ::
  "access_with_prereqs list \<Rightarrow> event_access list \<Rightarrow> access_selection list \<Rightarrow> form_data \<Rightarrow> string list option \<Rightarrow> date
    \<Rightarrow> bool \<times> selection_error list" where
  "validateSelections selectedItems includedAccesses sels formData existing now =
    (let ids = map as_accessId sels;
         errors0 = (if length (uniq ids) \<noteq> length ids then [Selected_twice] else [])
           @ included_errors includedAccesses ids formData in
     if sels = [] then (errors0 = [], errors0)
     else
      (let accessMap = selection_map selectedItems;
           errors1 = errors0 @ concat (map (existence_errors accessMap existing) sels) in
       if errors1 \<noteq> [] then (False, errors1)
       else
        (let chosen = concat (map (\<lambda>sel. case accessMap (as_accessId sel) of None \<Rightarrow> [] | Some a \<Rightarrow> [(a, sel)]) sels);
             errors = concat (map (\<lambda>(_, typeItems).
                 concat (map (\<lambda>(x, y). pair_errors existing (fst x) (fst y)) (later_pairs typeItems)))
               (buckets (getExclusivityKey \<circ> fst) chosen))
             @ concat (map (\<lambda>(a, _). prerequisite_errors ids a) chosen)
             @ concat (map (\<lambda>(a, sel). availability_errors existing formData now a (as_accessId sel)) chosen)
             @ concat (map (\<lambda>(a, sel). capacity_errors existing a sel) chosen)
         in (errors = [], errors))))"

definition validateAccessSelections ::
  "access_db \<Rightarrow> string \<Rightarrow> access_selection list \<Rightarrow> form_data \<Rightarrow> string list option \<Rightarrow> date \<Rightarrow> bool \<times> selection_error list" where
  "validateAccessSelections s eventId sels formData existing now =
    validateSelections
      (if sels = [] then [] else getAccessByIdsForValidation s (map as_accessId sels) eventId)
      (getIncludedInBaseAccess s eventId) sels formData existing now"

section \<open>Grouping the items on offer\<close>

record enriched_access = access_with_prereqs +
  en_spotsRemaining :: "int option"
  en_isFull :: bool

datatype selection_type = Single | Multiple

record time_slot =
  ts_startsAt :: "date option"
  ts_endsAt :: "date option"
  ts_selectionType :: selection_type
  ts_items :: "enriched_access list"

record date_group =
  dg_dateKey :: string
  dg_label :: string
  dg_slots :: "time_slot list"

record grouped_access =
  gr_groups :: "date_group list"
  gr_addonGroup :: "time_slot list option"

text \<open>
  The event's local day of a time, the French name of a day key, and the time \<open>new Date(key)\<close> denotes.
\<close>

record day_format =
  df_localDay :: "date \<Rightarrow> string"
  df_longDate :: "string \<Rightarrow> string"
  df_time :: "string \<Rightarrow> date"

definition by_order :: "'a event_access_scheme \<Rightarrow> int \<times> date" where
  "by_order a = (ax_sortOrder a, ax_createdAt a)"

definition enrich :: "access_with_prereqs \<Rightarrow> enriched_access" where
  "enrich a =
    (let spotsRemaining = (case ea_maxCapacity a of None \<Rightarrow> None
           | Some c \<Rightarrow> if c = 0 then None else Some (c - ea_paidCount a))
     in access_with_prereqs.extend a
       \<lparr>en_spotsRemaining = spotsRemaining,
        en_isFull = (case spotsRemaining of None \<Rightarrow> False | Some n \<Rightarrow> n \<le> 0)\<rparr>)"

definition access_available :: "form_data \<Rightarrow> string list \<Rightarrow> date \<Rightarrow> access_with_prereqs \<Rightarrow> bool" where
  "access_available formData selectedIds now a \<longleftrightarrow>
     (case ax_availableFrom a of None \<Rightarrow> True | Some t \<Rightarrow> \<not> t > now)
   \<and> (case ax_availableTo a of None \<Rightarrow> True | Some t \<Rightarrow> \<not> t < now)
   \<and> matchesAccessConditions a formData
   \<and> list_all (\<lambda>req. req \<in> set selectedIds) (ax_requiredAccess a)"

definition toSlot :: "enriched_access list \<Rightarrow> selection_type option \<Rightarrow> time_slot" where
  "toSlot items selectionType =
    (let sorted = sort_key by_order items in
     \<lparr>ts_startsAt = (case sorted of [] \<Rightarrow> None | a # _ \<Rightarrow> ax_startsAt a),
      ts_endsAt = (case sorted of [] \<Rightarrow> None | a # _ \<Rightarrow> ax_endsAt a),
      ts_selectionType = set_or selectionType (if 1 < length sorted then Single else Multiple),
      ts_items = sorted\<rparr>)"

definition slot_order :: "time_slot \<Rightarrow> int \<times> date" where
  "slot_order sl = (case ts_items sl of [] \<Rightarrow> (0, 0) | a # _ \<Rightarrow> by_order a)"

definition buildAddonGroup :: "enriched_access list \<Rightarrow> time_slot list option" where
  "buildAddonGroup optionItems =
    (if optionItems = [] then None
     else
      (let addonItems = filter (\<lambda>a. ax_type a = ADDON) optionItems;
           includedItems = filter (\<lambda>a. ax_type a \<noteq> ADDON \<and> ax_includedInBase a) optionItems;
           exclusiveBuckets = buckets getExclusivityKey
             (filter (\<lambda>a. ax_type a \<noteq> ADDON \<and> \<not> ax_includedInBase a) optionItems);
           slots = (if addonItems \<noteq> []
                then [(toSlot addonItems (Some Multiple))\<lparr>ts_startsAt := None, ts_endsAt := None\<rparr>] else [])
             @ map (\<lambda>a. toSlot [a] (Some Multiple)) includedItems
             @ map (\<lambda>(_, bucket). toSlot bucket None) exclusiveBuckets
       in Some (sort_key slot_order slots)))"

definition capitalize :: "string \<Rightarrow> string" where
  "capitalize t = to_upper (take 1 t) @ drop 1 t"

definition day_group :: "day_format \<Rightarrow> string \<times> enriched_access list \<Rightarrow> date_group" where
  "day_group fmt day =
    \<lparr>dg_dateKey = fst day, dg_label = capitalize (df_longDate fmt (fst day)),
     dg_slots = sort_key (\<lambda>sl. set_or (ts_startsAt sl) 0)
       (map (\<lambda>(_, items). toSlot items None) (buckets ax_startsAt (snd day)))\<rparr>"

definition groupAccess ::
  "day_format \<Rightarrow> access_with_prereqs list \<Rightarrow> form_data \<Rightarrow> string list \<Rightarrow> date \<Rightarrow> grouped_access" where
  "groupAccess fmt allAccess formData selectedIds now =
    (let enriched = map enrich (filter (access_available formData selectedIds now) allAccess);
         optionItems = filter (\<lambda>a. ax_type a = ADDON \<or> ax_startsAt a = None) enriched;
         scheduledItems = filter (\<lambda>a. ax_type a \<noteq> ADDON \<and> ax_startsAt a \<noteq> None) enriched;
         days = buckets (\<lambda>a. df_localDay fmt (set_or (ax_startsAt a) 0)) scheduledItems
     in \<lparr>gr_groups = sort_key (\<lambda>g. df_time fmt (dg_dateKey g)) (map (day_group fmt) days),
         gr_addonGroup = buildAddonGroup optionItems\<rparr>)"

definition getGroupedAccess ::
  "day_format \<Rightarrow> access_db \<Rightarrow> string \<Rightarrow> form_data \<Rightarrow> string list \<Rightarrow> date \<Rightarrow> grouped_access" where
  "getGroupedAccess fmt s eventId formData selectedIds now =
    groupAccess fmt (getActiveAccessForGrouping s eventId) formData selectedIds now"

section \<open>The selection requirement\<close>

definition grouped_items :: "grouped_access \<Rightarrow> enriched_access list" where
  "grouped_items g =
    concat (map (\<lambda>d. concat (map ts_items (dg_slots d))) (gr_groups g))
    @ (case gr_addonGroup g of None \<Rightarrow> [] | Some slots \<Rightarrow> concat (map ts_items slots))"

definition assertAccessSelectionRequirement ::
  "day_format \<Rightarrow> access_db \<Rightarrow> string \<Rightarrow> form_data \<Rightarrow> access_selection list \<Rightarrow> bool option \<Rightarrow> date \<Rightarrow> error + unit" where
  "assertAccessSelectionRequirement fmt s eventId formData sels required now =
    (if required \<noteq> Some True then Inr ()
     else
      (let ids = map as_accessId (filter (\<lambda>sel. 0 < as_quantity sel) sels) in
       if ids \<noteq> [] \<and> list_ex (\<lambda>a. \<not> ax_includedInBase a) (getAccessByIdsForValidation s ids eventId) then Inr ()
       else guard (\<not> list_ex (\<lambda>a. \<not> ax_includedInBase a \<and> \<not> en_isFull a)
              (grouped_items (getGroupedAccess fmt s eventId formData ids now)))
            (App_exception ''ACCESS_SELECTION_REQUIRED'' 400)))"

section \<open>The public routes\<close>

definition assertPublicAccessEnabled :: "access_db \<Rightarrow> string \<Rightarrow> date \<Rightarrow> error + unit" where
  "assertPublicAccessEnabled s eventId now =
    (case event_of s eventId of
       None \<Rightarrow> Inl notFound
     | Some e \<Rightarrow> sbind (assertEventAcceptsPublicActions (pe_status e) (pe_endDate e) now) (\<lambda>_.
         assertModuleEnabledForClient (pe_clientActive e) (pe_enabledModules e) ''registrations''))"

definition visibleAnswers :: "pricing_env \<Rightarrow> access_db \<Rightarrow> string \<Rightarrow> form_data \<Rightarrow> error + form_data" where
  "visibleAnswers env s eventId formData =
    sbind (findRegistrationFormSchema env (pricing_view s) eventId) (\<lambda>schema.
      Inr (visibleFormAnswers (px_form env) schema formData))"

definition publicGrouped ::
  "pricing_env \<Rightarrow> day_format \<Rightarrow> access_db \<Rightarrow> string \<Rightarrow> form_data \<Rightarrow> string list \<Rightarrow> date \<Rightarrow> error + grouped_access" where
  "publicGrouped env fmt s eventId formData selectedIds now =
    sbind (assertPublicAccessEnabled s eventId now) (\<lambda>_.
    sbind (visibleAnswers env s eventId formData) (\<lambda>answers.
    Inr (getGroupedAccess fmt s eventId answers selectedIds now)))"

definition publicValidate ::
  "pricing_env \<Rightarrow> access_db \<Rightarrow> string \<Rightarrow> access_selection list \<Rightarrow> form_data \<Rightarrow> date \<Rightarrow> error + bool \<times> selection_error list" where
  "publicValidate env s eventId sels formData now =
    sbind (assertPublicAccessEnabled s eventId now) (\<lambda>_.
    sbind (visibleAnswers env s eventId formData) (\<lambda>answers.
    Inr (validateAccessSelections s eventId sels answers None now)))"

definition publicListActive ::
  "access_db \<Rightarrow> string \<Rightarrow> date \<Rightarrow> error + (event_access \<times> (string \<times> string) list) list" where
  "publicListActive s eventId now =
    sbind (assertPublicAccessEnabled s eventId now) (\<lambda>_. Inr (listActive s eventId now))"

definition publicGetOne ::
  "access_db \<Rightarrow> string \<Rightarrow> string \<Rightarrow> date \<Rightarrow> error + event_access \<times> (string \<times> string) list" where
  "publicGetOne s eventId accessId now =
    sbind (assertPublicAccessEnabled s eventId now) (\<lambda>_.
      case getEventAccessById s accessId of
        None \<Rightarrow> Inl access_not_found
      | Some (item, required) \<Rightarrow>
          if isPublicVisibleAccess item eventId now then Inr (item, required) else Inl access_not_found)"

end
