(* ===== verification/AccessProps.thy ===== *)
theory AccessProps
  imports AccessSelect
begin

text \<open>
  What the writes of access items keep: the prerequisites of an event stay free of cycles over all sequences of
  calls and interleavings of their reads, and an edit keeps the paid counters of the settlement within capacity.
\<close>

section \<open>The effect of the writes\<close>

definition requires_rel :: "access_db \<Rightarrow> (string \<times> string) set" where
  "requires_rel s = {(b, a). (a, b) \<in> set (ad_edges s)}"

lemma insertEdges_Inr:
  "insertEdges owner ids s = Inr s' \<longleftrightarrow>
    foreign_ok s (map (\<lambda>r. (r, owner)) ids) \<and> distinct ids \<and> (\<forall>r \<in> set ids. (r, owner) \<notin> set (ad_edges s))
    \<and> s' = s\<lparr>ad_edges := ad_edges s @ map (\<lambda>r. (r, owner)) ids\<rparr>"
  by (auto simp: insertEdges_def Let_def sbind_Inr_iff distinct_map inj_on_def)

lemma foreign_ok_owner:
  "foreign_ok s (map (\<lambda>r. (r, owner)) ids) \<longleftrightarrow> (\<forall>r \<in> set ids. item_of s r \<noteq> None \<and> item_of s owner \<noteq> None)"
  by (auto simp: foreign_ok_def list_all_iff)

lemma insertEventAccess_Inr:
  assumes "insertEventAccess row ids s = Inr (r, s')"
  obtains i rest where "db_ids (ad_settle s) = i # rest" "ad_items s' = ad_items s @ [row\<lparr>ea_id := i\<rparr>]"
    "ad_edges s' = ad_edges s @ map (\<lambda>r. (r, i)) ids" "db_ids (ad_settle s') = rest"
    "\<forall>r \<in> set ids. r = i \<or> item_of s r \<noteq> None"
proof -
  obtain i rest where i: "db_ids (ad_settle s) = i # rest"
    using assms by (auto simp: insertEventAccess_def split: list.splits)
  let ?s1 = "s\<lparr>ad_items := ad_items s @ [row\<lparr>ea_id := i\<rparr>], ad_settle := (ad_settle s)\<lparr>db_ids := rest\<rparr>\<rparr>"
  have "s' = ?s1 \<and> ids = [] \<or> insertEdges i ids ?s1 = Inr s'"
    using assms by (auto simp: insertEventAccess_def i Let_def sbind_Inr_iff split: if_split_asm)
  then have s': "s' = ?s1\<lparr>ad_edges := ad_edges s @ map (\<lambda>r. (r, i)) ids\<rparr>"
    and f: "\<forall>r \<in> set ids. item_of ?s1 r \<noteq> None"
    by (auto simp: insertEdges_Inr foreign_ok_owner)
  have "\<forall>r \<in> set ids. r = i \<or> item_of s r \<noteq> None"
    using f by (auto simp: item_of_def row_of_None)
  then show ?thesis using that i s' by simp
qed

lemma patch_item_sel [simp]:
  "ea_id (patch_item p now r) = ea_id r" "ea_eventId (patch_item p now r) = ea_eventId r"
  "ea_paidCount (patch_item p now r) = ea_paidCount r"
  "ea_maxCapacity (patch_item p now r) = set_or (up_maxCapacity p) (ea_maxCapacity r)"
  by (simp_all add: patch_item_def)

lemma on_settle_sel [simp]:
  "ad_items (snd (on_settle f s)) = ad_items s" "ad_edges (snd (on_settle f s)) = ad_edges s"
  "ad_events (snd (on_settle f s)) = ad_events s"
  "ad_settle (snd (on_settle f s)) = (snd (f (settle_view s)))\<lparr>db_events := [], db_accesses := []\<rparr>"
  by (simp_all add: on_settle_def split: prod.split)

lemma snd_handleCapacityReached:
  "snd (handleCapacityReached e ids s) = snd (enqueueAccessDrops e ids Capacity_reached s)"
  by (simp add: handleCapacityReached_def split: prod.split)

definition new_edges :: "string \<Rightarrow> string list option \<Rightarrow> (string \<times> string) list \<Rightarrow> (string \<times> string) list" where
  "new_edges i required edges =
    (case required of None \<Rightarrow> edges | Some ids \<Rightarrow> filter (\<lambda>(a, b). b \<noteq> i) edges @ map (\<lambda>r. (r, i)) ids)"

lemma setAccessPrerequisites_Inr:
  assumes "setAccessPrerequisites i ids s = Inr s'"
  shows "s' = s\<lparr>ad_edges := new_edges i (Some ids) (ad_edges s)\<rparr>"
  using assms by (auto simp: setAccessPrerequisites_def Let_def insertEdges_Inr new_edges_def split: if_split_asm)

text \<open>The drop an edit enqueues: the item was deactivated, or its new capacity is its paid count.\<close>

definition drop_reason_of :: "access_patch \<Rightarrow> event_access \<Rightarrow> drop_reason option" where
  "drop_reason_of p current =
    (if up_active p = Some False \<and> ea_active current then Some Deactivated
     else if up_maxCapacity p = Some (Some (ea_paidCount current)) \<and> ea_maxCapacity current \<noteq> Some (ea_paidCount current)
     then Some Capacity_reached else None)"

lemma update_txn_Inr:
  assumes "update_txn eventId i p now s = Inr (r, s')"
  obtains current where "item_of s i = Some current"
    "prerequisite_checks eventId i (up_requiredAccessIds p) s = Inr ()"
    "case up_maxCapacity p of Some (Some c) \<Rightarrow> ea_paidCount current \<le> c | _ \<Rightarrow> True"
    "ad_items s' = update_rows (\<lambda>r. ea_id r = i) (patch_item p now) (ad_items s)"
    "ad_edges s' = new_edges i (up_requiredAccessIds p) (ad_edges s)"
    "ad_settle s' = (case drop_reason_of p current of None \<Rightarrow> ad_settle s
       | Some reason \<Rightarrow> (snd (enqueueAccessDrops eventId [i] reason
           ((settle_view s)\<lparr>db_accesses := map access_row.truncate (ad_items s')\<rparr>)))\<lparr>db_events := [], db_accesses := []\<rparr>)"
    "ad_events s' = ad_events s"
proof -
  let ?s1 = "updateEventAccessRow i p now s"
  obtain current ds where g: "getEventAccessForUpdate s i = Some (current, ds)"
    and r: "sbind (prerequisite_checks eventId i (up_requiredAccessIds p) s) (\<lambda>_.
        sbind (guard (case up_maxCapacity p of Some (Some c) \<Rightarrow> ea_paidCount current \<le> c | _ \<Rightarrow> True)
          (App_exception ''ACCESS_CAPACITY_EXCEEDED'' 409)) (\<lambda>_.
        let isCapacityChanging = (up_maxCapacity p \<noteq> None \<and> up_maxCapacity p \<noteq> Some (ea_maxCapacity current));
            isBeingDeactivated = (up_active p = Some False \<and> ea_active current);
            s1 = ?s1 in
        sbind (case up_requiredAccessIds p of None \<Rightarrow> Inr s1
               | Some ids \<Rightarrow> setAccessPrerequisites i ids s1) (\<lambda>s2.
        let s3 = (if isBeingDeactivated then snd (on_settle (enqueueAccessDrops eventId [i] Deactivated) s2)
                  else if isCapacityChanging \<and> up_maxCapacity p \<noteq> Some None
                    \<and> Some (Some (ea_paidCount current)) = up_maxCapacity p
                  then snd (on_settle (handleCapacityReached eventId [i]) s2)
                  else s2)
        in case getEventAccessById s3 i of
             None \<Rightarrow> Inl (Plain_error ''null'')
           | Some result \<Rightarrow> Inr (result, s3)))) = Inr (r, s')"
    using assms unfolding update_txn_def Let_def by (auto split: option.splits if_split_asm prod.splits)
  have cur: "item_of s i = Some current"
    using g by (auto simp: getEventAccessForUpdate_def split: option.splits)
  obtain s2 where pre: "prerequisite_checks eventId i (up_requiredAccessIds p) s = Inr ()"
    and cap: "case up_maxCapacity p of Some (Some c) \<Rightarrow> ea_paidCount current \<le> c | _ \<Rightarrow> True"
    and s2: "(case up_requiredAccessIds p of None \<Rightarrow> Inr ?s1 | Some ids \<Rightarrow> setAccessPrerequisites i ids ?s1) = Inr s2"
    and s3: "s' = (if up_active p = Some False \<and> ea_active current
          then snd (on_settle (enqueueAccessDrops eventId [i] Deactivated) s2)
        else if (up_maxCapacity p \<noteq> None \<and> up_maxCapacity p \<noteq> Some (ea_maxCapacity current))
            \<and> up_maxCapacity p \<noteq> Some None \<and> Some (Some (ea_paidCount current)) = up_maxCapacity p
        then snd (on_settle (handleCapacityReached eventId [i]) s2) else s2)"
    using r unfolding Let_def by (elim sbind_InrE) (auto split: option.splits)
  have e2: "s2 = ?s1\<lparr>ad_edges := new_edges i (up_requiredAccessIds p) (ad_edges s)\<rparr>"
    using s2 setAccessPrerequisites_Inr[of i _ ?s1 s2]
    by (cases "up_requiredAccessIds p") (auto simp: new_edges_def updateEventAccessRow_def)
  have s2f: "ad_items s2 = update_rows (\<lambda>r. ea_id r = i) (patch_item p now) (ad_items s)"
    "ad_edges s2 = new_edges i (up_requiredAccessIds p) (ad_edges s)" "ad_settle s2 = ad_settle s"
    "ad_events s2 = ad_events s"
    by (simp_all add: e2 updateEventAccessRow_def)
  have view: "settle_view s2 = (settle_view s)\<lparr>db_accesses := map access_row.truncate (ad_items s2)\<rparr>"
    by (simp add: settle_view_def s2f)
  have items: "ad_items s' = ad_items s2" "ad_edges s' = ad_edges s2" "ad_events s' = ad_events s2" by (simp_all add: s3)
  have settle: "ad_settle s' = (case drop_reason_of p current of None \<Rightarrow> ad_settle s
       | Some reason \<Rightarrow> (snd (enqueueAccessDrops eventId [i] reason
           ((settle_view s)\<lparr>db_accesses := map access_row.truncate (ad_items s2)\<rparr>)))\<lparr>db_events := [], db_accesses := []\<rparr>)"
    by (auto simp: s3 drop_reason_of_def snd_handleCapacityReached view s2f)
  show ?thesis by (rule that[OF cur pre cap _ _ settle[folded items(1)]]) (simp_all add: items s2f)
qed

section \<open>Capacity\<close>

lemma map_truncate: "map ea_id (map access_row.truncate (items :: event_access list)) = map ea_id items"
  by (simp add: access_row.truncate_def)

lemma truncate_sel [simp]:
  "ea_id (access_row.truncate (r :: event_access)) = ea_id r"
  "ea_paidCount (access_row.truncate r) = ea_paidCount r"
  "ea_maxCapacity (access_row.truncate r) = ea_maxCapacity r"
  by (simp_all add: access_row.truncate_def)

lemma enqueueAccessDrops_accesses:
  "snd (enqueueAccessDrops e ids reason d) = d\<lparr>db_outbox := db_outbox (snd (enqueueAccessDrops e ids reason d)),
     db_audit := db_audit (snd (enqueueAccessDrops e ids reason d))\<rparr>"
  using same_store_drops[of d e ids reason] by (simp only: same_store_def)

lemma paid_count_items:
  "paid_count (d\<lparr>db_accesses := map access_row.truncate (items :: event_access list)\<rparr>) k =
    (case row_of ea_id k items of None \<Rightarrow> 0 | Some r \<Rightarrow> ea_paidCount r)"
  by (induction items) (auto simp: paid_count_def access_of_def)

lemma update_items_paid:
  "(case row_of ea_id k (update_rows (\<lambda>r. ea_id r = i) (patch_item p now) items) of None \<Rightarrow> 0 | Some r \<Rightarrow> ea_paidCount r) =
    (case row_of ea_id k items of None \<Rightarrow> 0 | Some r \<Rightarrow> ea_paidCount r)"
  by (induction items) auto

lemma update_txn_view:
  assumes "update_txn eventId i p now s = Inr (r, s')"
  shows "\<exists>outbox audit. settle_view s' = (settle_view s)\<lparr>
      db_accesses := map access_row.truncate (update_rows (\<lambda>r. ea_id r = i) (patch_item p now) (ad_items s)),
      db_outbox := outbox, db_audit := audit\<rparr>"
  using assms
proof (rule update_txn_Inr)
  fix current
  assume items: "ad_items s' = update_rows (\<lambda>r. ea_id r = i) (patch_item p now) (ad_items s)"
    and st: "ad_settle s' = (case drop_reason_of p current of None \<Rightarrow> ad_settle s
       | Some reason \<Rightarrow> (snd (enqueueAccessDrops eventId [i] reason
           ((settle_view s)\<lparr>db_accesses := map access_row.truncate (ad_items s')\<rparr>)))\<lparr>db_events := [], db_accesses := []\<rparr>)"
    and ev: "ad_events s' = ad_events s"
  show ?thesis
  proof (cases "drop_reason_of p current")
    case None
    then show ?thesis using st
      by (intro exI[of _ "db_outbox (ad_settle s)"] exI[of _ "db_audit (ad_settle s)"]) (simp add: settle_view_def items ev)
  next
    case (Some reason)
    let ?d = "(settle_view s)\<lparr>db_accesses := map access_row.truncate (ad_items s')\<rparr>"
    let ?q = "snd (enqueueAccessDrops eventId [i] reason ?d)"
    have q: "?q = ?d\<lparr>db_outbox := db_outbox ?q, db_audit := db_audit ?q\<rparr>" by (rule enqueueAccessDrops_accesses)
    have "db_events ?q = db_events ?d" by (subst q) simp
    then have "settle_view s' = ?q\<lparr>db_accesses := map access_row.truncate (ad_items s')\<rparr>"
      using st Some by (simp add: settle_view_def ev)
    moreover note q
    ultimately have "settle_view s' = ?d\<lparr>db_outbox := db_outbox ?q, db_audit := db_audit ?q,
        db_accesses := map access_row.truncate (ad_items s')\<rparr>" by metis
    then show ?thesis
      by (intro exI[of _ "db_outbox ?q"] exI[of _ "db_audit ?q"]) (simp add: items)
  qed
qed

lemma update_txn_preserved:
  assumes "update_txn eventId i p now s = Inr (r, s')" and "store_ok (settle_view s)"
  shows "preserved (settle_view s) (settle_view s')"
proof -
  let ?items = "update_rows (\<lambda>r. ea_id r = i) (patch_item p now) (ad_items s)"
  obtain ob au where v: "settle_view s' = (settle_view s)\<lparr>db_accesses := map access_row.truncate ?items,
      db_outbox := ob, db_audit := au\<rparr>" using update_txn_view[OF assms(1)] by blast
  have ids: "map ea_id (map access_row.truncate ?items) = map ea_id (db_accesses (settle_view s))"
    by (simp add: map_truncate keys_update_rows settle_view_def)
  have dist: "distinct (map ea_id (ad_items s))"
    using assms(2) by (simp add: store_ok_def accesses_ok_def settle_view_def map_truncate[unfolded map_map] comp_def)
  have rows: "\<forall>r \<in> set (ad_items s). access_row_ok (access_row.truncate r)"
    using assms(2) by (simp add: store_ok_def accesses_ok_def settle_view_def)
  have ok: "\<forall>r \<in> set ?items. access_row_ok (access_row.truncate r)"
    using assms(1)
  proof (rule update_txn_Inr)
    fix current
    assume c: "item_of s i = Some current"
      and cap: "case up_maxCapacity p of Some (Some c) \<Rightarrow> ea_paidCount current \<le> c | _ \<Rightarrow> True"
    have "x = current" if "x \<in> set (ad_items s)" "ea_id x = i" for x
      using row_of_distinct[OF dist that(1)] c that(2) by (simp add: item_of_def)
    then show ?thesis using rows cap
      by (auto simp: set_update_rows access_row_ok_def split: option.splits; force simp: set_or_def)
  qed
  have disc: "discrepancy (settle_view s') k = discrepancy (settle_view s) k" for k
  proof -
    have "paid_count (settle_view s') k = paid_count (settle_view s) k"
      using update_items_paid[of k i p now "ad_items s"] paid_count_items[of _ "ad_settle s" k]
      unfolding v by (simp add: paid_count_def access_of_def settle_view_def)
    then show ?thesis
      by (simp add: discrepancy_def places_held_def registration_state_def coveredAccessIdsOf_coverages v
          coverages_tables[of "settle_view s'" "settle_view s", unfolded v, simplified])
  qed
  show ?thesis
    using assms(2) ids ok disc
    by (simp add: preserved_def store_ok_def db_wf_def accesses_ok_def accesses_wf_def v same_owners_rows usages_known_iff)
qed


text \<open>The edited row is full exactly when its drop for capacity is enqueued.\<close>

lemma drop_enqueued:
  assumes "item_of s i = Some current" and "ad_items s' = update_rows (\<lambda>r. ea_id r = i) (patch_item p now) (ad_items s)"
    and "case up_maxCapacity p of Some (Some c) \<Rightarrow> ea_paidCount current \<le> c | _ \<Rightarrow> True"
    and "drop_reason_of p current = Some reason"
  shows "db_outbox (snd (enqueueAccessDrops e [i] reason ((settle_view s)\<lparr>db_accesses := map access_row.truncate (ad_items s')\<rparr>)))
    = db_outbox (ad_settle s) @ [\<lparr>oe_dedupeKey = None, oe_payload = Access_capacityReached e i reason, oe_maxAttempts = 10\<rparr>]"
proof -
  have mem: "patch_item p now current \<in> set (ad_items s')"
    using row_of_Some[OF assms(1)[unfolded item_of_def]] by (auto simp: assms(2) set_update_rows)
  have id: "ea_id current = i" using row_of_Some[OF assms(1)[unfolded item_of_def]] by simp
  have full: "reason = Capacity_reached \<Longrightarrow> row_full (access_row.truncate (patch_item p now current))"
    using assms(4) by (auto simp: drop_reason_of_def row_full_def set_or_def split: if_split_asm)
  have hit: "reason = Capacity_reached \<Longrightarrow> i \<in> ea_id ` {r \<in> access_row.truncate ` set (ad_items s'). ea_id r = i \<and> row_full r}"
    using mem id full by (auto intro!: image_eqI[of _ _ "access_row.truncate (patch_item p now current)"])
  show ?thesis
    using hit by (cases reason)
      (auto simp: enqueueAccessDrops_def Let_def uniq_def enqueueOutboxEvent_def getAccessCapacityRowsByIds_def settle_view_def image_iff)
qed

text \<open>
  C25: A committed edit of an access item leaves the settlement's counters as they were and every item within
  its new capacity, so the settlement keeps its invariant from there on (C1); it enqueues the drop of the item
  exactly when the edit deactivates it or sets its capacity to the places already paid, and touches no other
  item.
\<close>

theorem updateEventAccess_capacity:
  assumes "updateEventAccess env i p now s0 s = Inr (r, s')"
    and "store_ok (settle_view s)" and "conserved (settle_view s)"
  shows "store_ok (settle_view s') \<and> conserved (settle_view s')
    \<and> (\<forall>j. j \<noteq> i \<longrightarrow> item_of s' j = item_of s j)
    \<and> (\<exists>eventId current. item_of s i = Some current \<and> item_of s' i = Some (patch_item p now current)
        \<and> opt_all (\<lambda>c. ea_paidCount current \<le> c) (set_or (up_maxCapacity p) None)
        \<and> db_outbox (ad_settle s') = db_outbox (ad_settle s)
          @ (case drop_reason_of p current of None \<Rightarrow> []
             | Some reason \<Rightarrow> [\<lparr>oe_dedupeKey = None, oe_payload = Access_capacityReached eventId i reason, oe_maxAttempts = 10\<rparr>]))"
proof -
  obtain eventId where t: "update_txn eventId i p now s = Inr (r, s')"
    using assms(1) by (auto simp: updateEventAccess_def sbind_Inr_iff)
  have pres: "preserved (settle_view s) (settle_view s')" by (rule update_txn_preserved[OF t assms(2)])
  then have ok: "store_ok (settle_view s')" "conserved (settle_view s')"
    using preserved_conserved[OF _ assms(3)] by (simp_all add: preserved_def)
  from t show ?thesis
  proof (rule update_txn_Inr)
    fix current
    assume cur: "item_of s i = Some current"
      and cap: "case up_maxCapacity p of Some (Some c) \<Rightarrow> ea_paidCount current \<le> c | _ \<Rightarrow> True"
      and items: "ad_items s' = update_rows (\<lambda>r. ea_id r = i) (patch_item p now) (ad_items s)"
      and st: "ad_settle s' = (case drop_reason_of p current of None \<Rightarrow> ad_settle s
         | Some reason \<Rightarrow> (snd (enqueueAccessDrops eventId [i] reason
             ((settle_view s)\<lparr>db_accesses := map access_row.truncate (ad_items s')\<rparr>)))\<lparr>db_events := [], db_accesses := []\<rparr>)"
    have it: "item_of s' j = (if j = i then Some (patch_item p now current) else item_of s j)" for j
      using cur by (simp add: item_of_def items row_of_update_key)
    have ob: "db_outbox (ad_settle s') = db_outbox (ad_settle s)
          @ (case drop_reason_of p current of None \<Rightarrow> []
             | Some reason \<Rightarrow> [\<lparr>oe_dedupeKey = None, oe_payload = Access_capacityReached eventId i reason, oe_maxAttempts = 10\<rparr>])"
      using drop_enqueued[OF cur items cap] st by (auto split: option.splits)
    show ?thesis
      using ok it cur cap ob by (auto simp: opt_all_def set_or_def split: option.splits)
  qed
qed


section \<open>Prerequisites\<close>

text \<open>
  The access tables over time: the states seen so far and the current one. A call may have read any earlier
  state before its transaction runs. Other code changes counters, columns and other tables, and takes ids.
\<close>

inductive access_step :: "pricing_env \<Rightarrow> access_db list \<times> access_db \<Rightarrow> access_db list \<times> access_db \<Rightarrow> bool" for env where
  as_create: "s0 \<in> set (s # H) \<Longrightarrow> createEventAccess env input now s0 s = Inr (r, s') \<Longrightarrow> access_step env (H, s) (s # H, s')"
| as_update: "s0 \<in> set (s # H) \<Longrightarrow> updateEventAccess env i p now s0 s = Inr (r, s') \<Longrightarrow> access_step env (H, s) (s # H, s')"
| as_delete: "s0 \<in> set (s # H) \<Longrightarrow> deleteEventAccess i s0 s = Inr s' \<Longrightarrow> access_step env (H, s) (s # H, s')"
| as_other: "map (\<lambda>r. (ea_id r, ea_eventId r)) (ad_items s') = map (\<lambda>r. (ea_id r, ea_eventId r)) (ad_items s)
    \<Longrightarrow> ad_edges s' = ad_edges s \<Longrightarrow> set (db_ids (ad_settle s')) \<subseteq> set (db_ids (ad_settle s))
    \<Longrightarrow> distinct (db_ids (ad_settle s')) \<Longrightarrow> access_step env (H, s) (s # H, s')"

text \<open>Ids are used once, an item's event never changes, and an edge joins two items of one event.\<close>

definition event_ids :: "access_db \<Rightarrow> (string \<times> string) set" where
  "event_ids s = (\<lambda>r. (ea_id r, ea_eventId r)) ` set (ad_items s)"

definition edges_ok :: "access_db \<Rightarrow> bool" where
  "edges_ok s \<longleftrightarrow> (\<forall>(a, b) \<in> set (ad_edges s). \<exists>e. (a, e) \<in> event_ids s \<and> (b, e) \<in> event_ids s)"

definition history_ok :: "access_db list \<times> access_db \<Rightarrow> bool" where
  "history_ok st \<longleftrightarrow> (case st of (H, s) \<Rightarrow>
     distinct (db_ids (ad_settle s))
   \<and> (\<forall>t \<in> set (s # H). distinct (map ea_id (ad_items t))
      \<and> (\<forall>i e. (i, e) \<in> event_ids t \<longrightarrow> i \<notin> set (db_ids (ad_settle s)) \<and> (\<forall>f. (i, f) \<in> event_ids s \<longrightarrow> e = f))))"

definition access_inv :: "access_db list \<times> access_db \<Rightarrow> bool" where
  "access_inv st \<longleftrightarrow> history_ok st \<and> edges_ok (snd st) \<and> acyclic (requires_rel (snd st))"

text \<open>A cycle made by new edges out of one item runs through that item.\<close>

lemma trancl_through:
  assumes "(x, y) \<in> R'\<^sup>+" and "\<And>u v. (u, v) \<in> R' \<Longrightarrow> u \<noteq> i \<Longrightarrow> (u, v) \<in> R"
  shows "(x, y) \<in> R\<^sup>+ \<or> ((x, i) \<in> R'\<^sup>* \<and> (i, y) \<in> R'\<^sup>+)"
  using assms(1)
proof (induction rule: trancl_induct)
  case (base y)
  then show ?case using assms(2) by (cases "x = i") auto
next
  case (step y z)
  show ?case
  proof (cases "y = i")
    case True
    then show ?thesis using step(1,2) by (auto intro: trancl_into_rtrancl)
  next
    case False
    then show ?thesis using step assms(2) by (meson trancl.trancl_into_trancl)
  qed
qed

lemma acyclic_new_edges:
  assumes "acyclic R" and "\<And>u v. (u, v) \<in> R' \<Longrightarrow> u \<noteq> i \<Longrightarrow> (u, v) \<in> R" and "(i, i) \<notin> R'\<^sup>+"
  shows "acyclic R'"
proof (rule acyclicI, intro allI notI)
  fix x
  assume "(x, x) \<in> R'\<^sup>+"
  then have "(x, x) \<in> R\<^sup>+ \<or> ((x, i) \<in> R'\<^sup>* \<and> (i, x) \<in> R'\<^sup>+)" by (rule trancl_through) (rule assms(2))
  then show False using assms(1,3) unfolding acyclic_def by (meson trancl_rtrancl_trancl)
qed

lemma acyclic_fewer: "acyclic R \<Longrightarrow> R' \<subseteq> R \<Longrightarrow> acyclic R'"
  by (rule acyclic_subset)

text \<open>The existence check counts rows, so it also refuses an id given twice.\<close>

lemma found_all:
  assumes "distinct (map ea_id (ad_items s))"
    and "length (findExistingAccessIdsInEvent s ids e) = length ids"
  shows "\<forall>r \<in> set ids. (r, e) \<in> event_ids s"
proof -
  let ?F = "findExistingAccessIdsInEvent s ids e"
  have d: "distinct ?F" using assms(1) by (simp add: findExistingAccessIdsInEvent_def distinct_map_filter)
  have sub: "set ?F \<subseteq> set ids" by (auto simp: findExistingAccessIdsInEvent_def)
  have "card (set ids) \<le> card (set ?F)"
    using card_length[of ids] distinct_card[OF d] assms(2) by simp
  then have "set ?F = set ids" using card_seteq[OF _ sub] by simp
  then show ?thesis by (auto simp: findExistingAccessIdsInEvent_def event_ids_def image_iff)
qed

lemma event_ids_item: "(i, e) \<in> event_ids s \<Longrightarrow> distinct (map ea_id (ad_items s))
    \<Longrightarrow> \<exists>r. item_of s i = Some r \<and> ea_eventId r = e"
  unfolding event_ids_def item_of_def by (auto simp: row_of_distinct)

lemma event_ids_unique: "(i, e) \<in> event_ids s \<Longrightarrow> (i, f) \<in> event_ids s \<Longrightarrow> distinct (map ea_id (ad_items s)) \<Longrightarrow> e = f"
  using event_ids_item[of i e s] event_ids_item[of i f s] by auto

lemma event_ids_update:
  "ad_items s' = update_rows (\<lambda>r. ea_id r = i) (patch_item p now) (ad_items s) \<Longrightarrow> event_ids s' = event_ids s"
  using arg_cong[OF keys_update_rows[of "\<lambda>r. (ea_id r, ea_eventId r)" "patch_item p now" "\<lambda>r. ea_id r = i" "ad_items s"], of set]
  by (simp add: event_ids_def)

section \<open>Steps keep the invariant\<close>

lemma update_keeps_acyclic:
  assumes "update_txn e i p now s = Inr (r, s')" and dist: "distinct (map ea_id (ad_items s))"
    and ok: "edges_ok s" and acyc: "acyclic (requires_rel s)" and ev: "(i, e) \<in> event_ids s"
  shows "edges_ok s' \<and> acyclic (requires_rel s')"
  using assms(1)
proof (rule update_txn_Inr)
  fix current
  assume pre: "prerequisite_checks e i (up_requiredAccessIds p) s = Inr ()"
    and items: "ad_items s' = update_rows (\<lambda>r. ea_id r = i) (patch_item p now) (ad_items s)"
    and edges: "ad_edges s' = new_edges i (up_requiredAccessIds p) (ad_edges s)"
  note ids = event_ids_update[OF items]
  show ?thesis
  proof (cases "up_requiredAccessIds p = None \<or> up_requiredAccessIds p = Some []")
    case True
    then have "set (ad_edges s') \<subseteq> set (ad_edges s)" using edges by (auto simp: new_edges_def)
    then have "edges_ok s'" "requires_rel s' \<subseteq> requires_rel s" using ok ids by (auto simp: edges_ok_def requires_rel_def)
    then show ?thesis using acyclic_fewer[OF acyc] by blast
  next
    case False
    then obtain new where new: "up_requiredAccessIds p = Some new" "new \<noteq> []" by auto
    have len: "length (findExistingAccessIdsInEvent s new e) = length new"
      and det: "detectCircularPrerequisites s e i new = Some False"
      using pre new by (auto simp: prerequisite_checks_def sbind_Inr_iff split: option.splits)
    have found: "\<forall>r \<in> set new. (r, e) \<in> event_ids s" by (rule found_all[OF dist len])
    let ?g = "prereq_graph (getEventPrereqEdges s e) i new"
    have nocyc: "\<not> reaches_cycle ?g i" using det by (simp add: detectCircular_exact)
    have E': "set (ad_edges s') = {(a, b) \<in> set (ad_edges s). b \<noteq> i} \<union> (\<lambda>r. (r, i)) ` set new"
      using edges new by (auto simp: new_edges_def)
    have "edges_ok s'" using ok found ev ids by (fastforce simp: edges_ok_def E')
    moreover have "acyclic (requires_rel s')"
    proof (rule acyclic_new_edges[OF acyc])
      show "(u, v) \<in> requires_rel s' \<Longrightarrow> u \<noteq> i \<Longrightarrow> (u, v) \<in> requires_rel s" for u v
        by (auto simp: requires_rel_def E')
      have edge: "(u, v) \<in> edge_rel ?g \<and> (v, e) \<in> event_ids s"
        if "(u, v) \<in> requires_rel s'" "(u, e) \<in> event_ids s" for u v
      proof (cases "u = i")
        case True
        then show ?thesis using that found by (auto simp: requires_rel_def E' edge_rel_def prereq_graph_def)
      next
        case ne: False
        then have old: "(v, u) \<in> set (ad_edges s)" using that by (auto simp: requires_rel_def E')
        have "(v, e) \<in> event_ids s"
          using ok old event_ids_unique[OF that(2) _ dist] unfolding edges_ok_def by blast
        moreover have "(u, v) \<in> set (getEventPrereqEdges s e)"
          using old event_ids_item[OF that(2) dist] by (force simp: getEventPrereqEdges_def)
        ultimately show ?thesis using ne by (force simp: edge_rel_def prereq_graph_def)
      qed
      have "(i, w) \<in> (edge_rel ?g)\<^sup>+ \<and> (w, e) \<in> event_ids s" if "(i, w) \<in> (requires_rel s')\<^sup>+" for w
        using that
      proof (induction rule: trancl_induct)
        case (base y)
        then show ?case using edge[OF base ev] by auto
      next
        case (step y z)
        then show ?case using edge[OF step(2)] by (auto intro: trancl_into_trancl)
      qed
      then show "(i, i) \<notin> (requires_rel s')\<^sup>+" using nocyc reaches_cycle_self by blast
    qed
    ultimately show ?thesis by blast
  qed
qed

lemma history_past:
  assumes "history_ok (H, s)" and "t \<in> set (s # H)"
  shows "distinct (map ea_id (ad_items t))" "(i, e) \<in> event_ids t \<Longrightarrow> i \<notin> set (db_ids (ad_settle s))"
    "(i, e) \<in> event_ids t \<Longrightarrow> (i, f) \<in> event_ids s \<Longrightarrow> e = f"
  using assms unfolding history_ok_def prod.case by blast+

lemma history_now:
  assumes "history_ok (H, s)"
  shows "distinct (map ea_id (ad_items s))" "distinct (db_ids (ad_settle s))"
    "(i, e) \<in> event_ids s \<Longrightarrow> i \<notin> set (db_ids (ad_settle s))"
  using history_past(1,2)[OF assms, of s] assms by (simp_all add: history_ok_def)

lemma history_step:
  assumes h: "history_ok (H, s)" and "distinct (map ea_id (ad_items s'))" and "distinct (db_ids (ad_settle s'))"
    and sub: "set (db_ids (ad_settle s')) \<subseteq> set (db_ids (ad_settle s))"
    and new: "\<And>i e. (i, e) \<in> event_ids s' \<Longrightarrow>
        (i, e) \<in> event_ids s \<or> (i \<in> set (db_ids (ad_settle s)) \<and> i \<notin> set (db_ids (ad_settle s')))"
  shows "history_ok (s # H, s')"
  unfolding history_ok_def prod.case
proof (intro conjI ballI allI impI)
  fix t
  assume t: "t \<in> set (s' # s # H)"
  show "distinct (map ea_id (ad_items t))" using t history_past(1)[OF h, of t] assms(2) by auto
  fix i e
  assume i: "(i, e) \<in> event_ids t"
  show "i \<notin> set (db_ids (ad_settle s'))"
    using t i history_past(2)[OF h, of t i e] history_now(3)[OF h, of i e] new[of i e] sub by auto
  fix f
  assume f: "(i, f) \<in> event_ids s'"
  show "e = f"
  proof (cases "t = s'")
    case True
    then show ?thesis using event_ids_unique[OF i _ assms(2)[folded True]] f by simp
  next
    case False
    then have t': "t \<in> set (s # H)" using t by simp
    have "(i, f) \<in> event_ids s" using new[OF f] history_past(2)[OF h t' i] by blast
    then show ?thesis by (rule history_past(3)[OF h t' i])
  qed
qed (rule assms(3))

lemma create_keeps:
  assumes inv: "access_inv (H, s)" and s0: "s0 \<in> set (s # H)"
    and c: "createEventAccess env input now s0 s = Inr (r, s')"
  shows "access_inv (s # H, s')"
proof -
  have h: "history_ok (H, s)" "edges_ok s" "acyclic (requires_rel s)" using inv by (simp_all add: access_inv_def)
  let ?ids = "set_or (ci_requiredAccessIds input) []"
  obtain currency where chk: "create_checks env input s0 = Inr currency"
    and ins: "insertEventAccess (new_item input currency now) ?ids s = Inr (r, s')"
    using c by (auto simp: createEventAccess_def sbind_Inr_iff)
  obtain i rest where i: "db_ids (ad_settle s) = i # rest"
    and items: "ad_items s' = ad_items s @ [(new_item input currency now)\<lparr>ea_id := i\<rparr>]"
    and edges: "ad_edges s' = ad_edges s @ map (\<lambda>r. (r, i)) ?ids" and rest: "db_ids (ad_settle s') = rest"
    and req: "\<forall>r \<in> set ?ids. r = i \<or> item_of s r \<noteq> None"
    using insertEventAccess_Inr[OF ins] by blast
  let ?e = "ci_eventId input"
  have ev': "event_ids s' = insert (i, ?e) (event_ids s)"
    by (auto simp: event_ids_def items new_item_def)
  have "(i, b) \<notin> event_ids s" for b using history_now(3)[OF h(1), of i b] i by auto
  then have i_new: "i \<notin> fst ` event_ids s" "i \<notin> set rest" "distinct rest"
    using history_now(2)[OF h(1)] i by auto
  have dist': "distinct (map ea_id (ad_items s'))"
    using history_now(1)[OF h(1)] i_new(1) by (auto simp: items event_ids_def image_image)
  have hist: "history_ok (s # H, s')"
    by (rule history_step[OF h(1) dist']) (use i_new in \<open>auto simp: rest i ev'\<close>)
  have "?ids = [] \<or> length (findExistingAccessIdsInEvent s0 ?ids ?e) = length ?ids"
    using chk unfolding create_checks_def Let_def by (auto simp: sbind_Inr_iff split: option.splits prod.splits)
  then have in0: "\<forall>r \<in> set ?ids. (r, ?e) \<in> event_ids s0"
    using found_all[OF history_past(1)[OF h(1) s0]] by (cases "?ids = []") auto
  have found: "(r, ?e) \<in> event_ids s" if mem: "r \<in> set ?ids" for r
  proof -
    have r0: "(r, ?e) \<in> event_ids s0" using in0 that by blast
    then have "r \<noteq> i" using history_past(2)[OF h(1) s0] i by auto
    then obtain x where "item_of s r = Some x" using req mem by auto
    then have "(r, ea_eventId x) \<in> event_ids s"
      using row_of_Some[of ea_id r "ad_items s" x] by (force simp: item_of_def event_ids_def)
    then show ?thesis using history_past(3)[OF h(1) s0 r0] by metis
  qed
  have not_i: "i \<notin> set ?ids" using found i_new(1) by force
  have "edges_ok s'" using h(2) found unfolding edges_ok_def ev' edges by fastforce
  moreover have "acyclic (requires_rel s')"
  proof (rule acyclic_new_edges[OF h(3)])
    show "(u, v) \<in> requires_rel s' \<Longrightarrow> u \<noteq> i \<Longrightarrow> (u, v) \<in> requires_rel s" for u v
      by (auto simp: requires_rel_def edges)
    have "(u, i) \<notin> requires_rel s'" for u
      using h(2) i_new(1) not_i by (force simp: requires_rel_def edges edges_ok_def)
    then show "(i, i) \<notin> (requires_rel s')\<^sup>+" by (meson tranclD2)
  qed
  ultimately show ?thesis using hist by (simp add: access_inv_def)
qed

lemma update_keeps:
  assumes inv: "access_inv (H, s)" and s0: "s0 \<in> set (s # H)"
    and c: "updateEventAccess env i p now s0 s = Inr (r, s')"
  shows "access_inv (s # H, s')"
proof -
  have h: "history_ok (H, s)" "edges_ok s" "acyclic (requires_rel s)" using inv by (simp_all add: access_inv_def)
  obtain e where chk: "update_checks env i p s0 = Inr e" and t: "update_txn e i p now s = Inr (r, s')"
    using c by (auto simp: updateEventAccess_def sbind_Inr_iff)
  obtain x d where g: "getEventAccessForUpdate s0 i = Some (x, d)" and e: "e = ea_eventId x"
    using chk unfolding update_checks_def Let_def by (auto simp: sbind_Inr_iff split: option.splits prod.splits)
  have e0: "(i, e) \<in> event_ids s0"
    using g e row_of_Some[of ea_id i "ad_items s0"]
    by (auto simp: getEventAccessForUpdate_def item_of_def event_ids_def split: option.splits)
  obtain current where cur: "item_of s i = Some current"
    and items: "ad_items s' = update_rows (\<lambda>r. ea_id r = i) (patch_item p now) (ad_items s)"
    using update_txn_Inr[OF t] by blast
  have ev: "(i, e) \<in> event_ids s"
  proof -
    have "(i, ea_eventId current) \<in> event_ids s"
      using cur row_of_Some[of ea_id i "ad_items s" current] by (force simp: item_of_def event_ids_def)
    then show ?thesis using history_past(3)[OF h(1) s0 e0] by metis
  qed
  have ids: "event_ids s' = event_ids s" by (rule event_ids_update[OF items])
  have dbids: "db_ids (ad_settle s') = db_ids (ad_settle s)"
  proof -
    have "db_ids (settle_view s') = db_ids (settle_view s)" using update_txn_view[OF t] by auto
    then show ?thesis by (simp add: settle_view_def)
  qed
  have "distinct (map ea_id (ad_items s'))"
    using history_now(1)[OF h(1)] by (simp add: items keys_update_rows)
  then have "history_ok (s # H, s')"
    using history_now(2,3)[OF h(1)] by (intro history_step[OF h(1)]) (auto simp: ids dbids)
  then show ?thesis
    using update_keeps_acyclic[OF t history_now(1)[OF h(1)] h(2,3) ev] by (simp add: access_inv_def)
qed

lemma fold_remove_edge:
  "ad_items (fold (\<lambda>d t. removePrerequisiteEdge d i t) ds s) = ad_items s
    \<and> ad_settle (fold (\<lambda>d t. removePrerequisiteEdge d i t) ds s) = ad_settle s
    \<and> set (ad_edges (fold (\<lambda>d t. removePrerequisiteEdge d i t) ds s)) \<subseteq> set (ad_edges s)"
proof (induction ds arbitrary: s)
  case (Cons d ds)
  show ?case using Cons.IH[of "removePrerequisiteEdge d i s"] by (auto simp: removePrerequisiteEdge_def)
qed simp

lemma delete_keeps:
  assumes inv: "access_inv (H, s)" and c: "deleteEventAccess i s0 s = Inr s'"
  shows "access_inv (s # H, s')"
proof -
  have h: "history_ok (H, s)" "edges_ok s" "acyclic (requires_rel s)" using inv by (simp_all add: access_inv_def)
  obtain ds where s': "s' = deleteEventAccessById i (fold (\<lambda>d t. removePrerequisiteEdge d i t) ds s)"
    using c by (auto simp: deleteEventAccess_def sbind_Inr_iff)
  have f: "ad_items s' = filter (\<lambda>r. ea_id r \<noteq> i) (ad_items s)" "ad_settle s' = ad_settle s"
    "set (ad_edges s') \<subseteq> {(a, b) \<in> set (ad_edges s). a \<noteq> i \<and> b \<noteq> i}"
    using fold_remove_edge[of i ds s] by (auto simp: s' deleteEventAccessById_def)
  have ids: "event_ids s' = {(a, e) \<in> event_ids s. a \<noteq> i}" by (auto simp: event_ids_def f(1))
  have "distinct (map ea_id (ad_items s'))"
    using history_now(1)[OF h(1)] by (simp add: f(1) distinct_map_filter)
  then have "history_ok (s # H, s')"
    using history_now(2,3)[OF h(1)] by (intro history_step[OF h(1)]) (auto simp: ids f(2))
  moreover have "edges_ok s'" using h(2) f(3) unfolding edges_ok_def ids by fastforce
  moreover have "acyclic (requires_rel s')"
    by (rule acyclic_fewer[OF h(3)]) (use f(3) in \<open>auto simp: requires_rel_def\<close>)
  ultimately show ?thesis by (simp add: access_inv_def)
qed

lemma other_keeps:
  assumes inv: "access_inv (H, s)"
    and m: "map (\<lambda>r. (ea_id r, ea_eventId r)) (ad_items s') = map (\<lambda>r. (ea_id r, ea_eventId r)) (ad_items s)"
    and e: "ad_edges s' = ad_edges s" and d: "set (db_ids (ad_settle s')) \<subseteq> set (db_ids (ad_settle s))"
    "distinct (db_ids (ad_settle s'))"
  shows "access_inv (s # H, s')"
proof -
  have h: "history_ok (H, s)" "edges_ok s" "acyclic (requires_rel s)" using inv by (simp_all add: access_inv_def)
  have ids: "event_ids s' = event_ids s"
    using arg_cong[OF m, of set] by (simp add: event_ids_def)
  have "map ea_id (ad_items s') = map ea_id (ad_items s)"
    using arg_cong[OF m, of "map fst"] by (simp add: comp_def)
  then have "history_ok (s # H, s')"
    using history_now[OF h(1)] d by (intro history_step[OF h(1)]) (auto simp: ids)
  then show ?thesis using h by (simp add: access_inv_def edges_ok_def requires_rel_def ids e)
qed

lemma access_step_inv: "access_step env st st' \<Longrightarrow> access_inv st \<Longrightarrow> access_inv st'"
  by (induction rule: access_step.induct) (blast intro: create_keeps update_keeps delete_keeps other_keeps)+

text \<open>
  C24: Over all sequences of created, edited and deleted access items, each call with first reads as old as one
  likes, the prerequisites stored for the items never form a cycle and always join items of one event: every
  item can be selected together with everything it requires.
\<close>

theorem prerequisites_acyclic:
  assumes "(access_step env)\<^sup>*\<^sup>* ([], s0) (H, s)" and "access_inv ([], s0)"
  shows "acyclic (requires_rel s) \<and> edges_ok s"
proof -
  have "access_inv (H, s)" using assms by (induction rule: rtranclp_induct) (auto intro: access_step_inv)
  then show ?thesis by (simp add: access_inv_def)
qed

text \<open>
  C26: The search for circular prerequisites ends on every graph, and finds a cycle exactly when the graph with the
  proposed prerequisites has one that can be reached from the item.
\<close>

theorem detectCircularPrerequisites_exact:
  "detectCircularPrerequisites s eventId i requiredIds =
    Some (reaches_cycle (prereq_graph (getEventPrereqEdges s eventId) i requiredIds) i)"
  by (rule detectCircular_exact)

section \<open>Examples\<close>

lemma two_steps: "r a b \<Longrightarrow> r b c \<Longrightarrow> r\<^sup>*\<^sup>* a c"
  by (rule rtranclp.rtrancl_into_rtrancl[OF r_into_rtranclp[of r]])

definition demo_access_env :: pricing_env where
  "demo_access_env = \<lparr>px_icu = (\<lambda>c. Some 3), px_uuid = (\<lambda>s. True), px_enforce = True, px_formOk = (\<lambda>f. True),
     px_form = \<lparr>fe_email = (\<lambda>s. True), fe_pattern = (\<lambda>p. None), fe_date = (\<lambda>s. None)\<rparr>\<rparr>"

definition demo_access_db :: access_db where
  "demo_access_db = \<lparr>ad_events = [\<lparr>pe_id = ''e'', pe_status = Ev_open, pe_endDate = 1000, pe_clientActive = True,
       pe_enabledModules = None, ae_startDate = 0, ae_slug = ''ev'', ae_clientId = ''cl'',
       ae_maxCapacity = None, ae_registeredCount = 0,
       ae_name = ''Congress'', ae_description = None, ae_location = None\<rparr>],
     ad_items = [], ad_edges = [], ad_pricing = [], ad_forms = [],
     ad_settle = \<lparr>db_events = [], db_networking = [], db_accesses = [], db_registrations = [], db_sponsorships = [],
       db_usages = [], db_outbox = [], db_audit = [], db_realtimeDisabled = False, db_clock = 0, db_ids = [''a'', ''b'']\<rparr>\<rparr>"

definition demo_access_input :: "string list option \<Rightarrow> access_input" where
  "demo_access_input required = \<lparr>ci_eventId = ''e'', ci_type = Some WORKSHOP, ci_name = ''W'', ci_description = None, ci_location = None,
     ci_startsAt = None, ci_endsAt = None, ci_price = None, ci_currency = None, ci_maxCapacity = Some 10,
     ci_availableFrom = None, ci_availableTo = None, ci_conditions = None, ci_conditionLogic = None,
     ci_requiredAccessIds = required, ci_sortOrder = None, ci_active = None, ci_groupLabel = None,
     ci_allowCompanion = None, ci_includedInBase = None, ci_companionPrice = None\<rparr>"

definition demo_with_items :: "event_access list \<Rightarrow> (string \<times> string) list \<Rightarrow> string list \<Rightarrow> access_db" where
  "demo_with_items items edges ids = demo_access_db\<lparr>ad_items := items, ad_edges := edges,
     ad_settle := (ad_settle demo_access_db)\<lparr>db_ids := ids\<rparr>\<rparr>"

definition demo_access_row :: "string \<Rightarrow> string list option \<Rightarrow> event_access" where
  "demo_access_row i required = (new_item (demo_access_input required) ''TND'' 0)\<lparr>ea_id := i\<rparr>"

text \<open>A second item that requires the first; then the first cannot be made to require the second.\<close>

theorem prerequisites_acyclic_witness:
  "acyclic (requires_rel (demo_with_items [demo_access_row ''a'' None, demo_access_row ''b'' (Some [''a''])] [(''a'', ''b'')] []))
    \<and> detectCircularPrerequisites
        (demo_with_items [demo_access_row ''a'' None, demo_access_row ''b'' (Some [''a''])] [(''a'', ''b'')] []) ''e'' ''a'' [''b''] = Some True"
proof -
  let ?s0 = demo_access_db
  let ?s1 = "demo_with_items [demo_access_row ''a'' None] [] [''b'']"
  let ?s2 = "demo_with_items [demo_access_row ''a'' None, demo_access_row ''b'' (Some [''a''])] [(''a'', ''b'')] []"
  have c1: "createEventAccess demo_access_env (demo_access_input None) 0 ?s0 ?s0 = Inr ((demo_access_row ''a'' None, []), ?s1)" by code_simp
  have c2: "createEventAccess demo_access_env (demo_access_input (Some [''a''])) 0 ?s1 ?s1
      = Inr ((demo_access_row ''b'' (Some [''a'']), [(''a'', ''W'')]), ?s2)" by code_simp
  have a1: "access_step demo_access_env ([], ?s0) ([?s0], ?s1)" by (rule as_create[OF _ c1]) simp
  have a2: "access_step demo_access_env ([?s0], ?s1) ([?s1, ?s0], ?s2)" by (rule as_create[OF _ c2]) simp
  have run: "(access_step demo_access_env)\<^sup>*\<^sup>* ([], ?s0) ([?s1, ?s0], ?s2)" by (rule two_steps[where r = "access_step demo_access_env", OF a1 a2])
  have "access_inv ([], ?s0)"
    by (simp add: access_inv_def history_ok_def edges_ok_def event_ids_def requires_rel_def demo_access_db_def acyclic_def)
  moreover have "detectCircularPrerequisites ?s2 ''e'' ''a'' [''b''] = Some True" by code_simp
  ultimately show ?thesis using prerequisites_acyclic[OF run] by blast
qed

theorem updateEventAccess_capacity_witness:
  "\<exists>s'. updateEventAccess demo_access_env ''a'' (empty_patch\<lparr>up_active := Some False\<rparr>) 5
      (demo_with_items [demo_access_row ''a'' None] [] [''b'']) (demo_with_items [demo_access_row ''a'' None] [] [''b''])
      = Inr ((patch_item (empty_patch\<lparr>up_active := Some False\<rparr>) 5 (demo_access_row ''a'' None), []), s')
    \<and> db_outbox (ad_settle s') \<noteq> [] \<and> store_ok (settle_view s')"
proof -
  let ?s = "demo_with_items [demo_access_row ''a'' None] [] [''b'']" and ?p = "empty_patch\<lparr>up_active := Some False\<rparr>"
  let ?s' = "demo_with_items [patch_item ?p 5 (demo_access_row ''a'' None)] [] [''b'']"
  let ?d = "\<lparr>oe_dedupeKey = None, oe_payload = Access_capacityReached ''e'' ''a'' Deactivated, oe_maxAttempts = 10\<rparr>"
  have u: "updateEventAccess demo_access_env ''a'' ?p 5 ?s ?s = Inr ((patch_item ?p 5 (demo_access_row ''a'' None), []),
      ?s'\<lparr>ad_settle := (ad_settle ?s')\<lparr>db_outbox := [?d]\<rparr>\<rparr>)" by code_simp
  have ok: "store_ok (settle_view ?s)" by code_simp
  have c: "conserved (settle_view ?s)" unfolding conserved_def by code_simp
  from updateEventAccess_capacity[OF u ok c] show ?thesis using u by auto
qed

end
