(* ===== verification/SelectProps.thy ===== *)
theory SelectProps
  imports AccessProps
begin

text \<open>
  What selection and grouping guarantee: the validator accepts exactly the admissible selections, every item on
  offer is listed once, and the radio groups of the options are the pairs the validator refuses.
\<close>

section \<open>Buckets\<close>

lemma uniq_snoc: "uniq (xs @ [x]) = (if x \<in> set xs then uniq xs else uniq xs @ [x])"
  by (simp add: uniq_def)

lemma update_keyed:
  "distinct ks \<Longrightarrow> AList.update k v (map (\<lambda>c. (c, f c)) ks) =
    map (\<lambda>c. (c, (f(k := v)) c)) ks @ (if k \<in> set ks then [] else [(k, v)])"
  by (induction ks) auto

lemma map_of_keyed: "map_of (map (\<lambda>c. (c, f c)) ks) k = (if k \<in> set ks then Some (f k) else None)"
  by (induction ks) auto

lemma buckets_eq: "buckets key xs = map (\<lambda>k. (k, filter (\<lambda>x. key x = k) xs)) (uniq (map key xs))"
proof (induction xs rule: rev_induct)
  case Nil
  then show ?case by (simp add: buckets_def)
next
  case (snoc x xs)
  let ?F = "\<lambda>k. filter (\<lambda>y. key y = k) xs"
  have old: "set_or (if key x \<in> set (map key xs) then Some (?F (key x)) else None) [] = ?F (key x)"
    by (cases "key x \<in> key ` set xs") (simp_all add: set_or_def, metis (mono_tags, lifting) filter_False image_eqI)
  have "buckets key (xs @ [x]) = push_bucket key x (map (\<lambda>k. (k, ?F k)) (uniq (map key xs)))"
    using snoc by (simp add: buckets_def)
  also have "\<dots> = map (\<lambda>k. (k, (?F(key x := ?F (key x) @ [x])) k)) (uniq (map key xs))
      @ (if key x \<in> set (map key xs) then [] else [(key x, ?F (key x) @ [x])])"
    unfolding push_bucket_def map_of_keyed set_uniq old update_keyed[OF distinct_uniq] ..
  also have "\<dots> = map (\<lambda>k. (k, filter (\<lambda>y. key y = k) (xs @ [x]))) (uniq (map key (xs @ [x])))"
    by (auto simp: uniq_snoc)
  finally show ?case .
qed

lemma buckets_mem: "(k, b) \<in> set (buckets key xs) \<longleftrightarrow> k \<in> key ` set xs \<and> b = filter (\<lambda>x. key x = k) xs"
  by (auto simp: buckets_eq)

lemma mset_concat_perm: "mset xs = mset ys \<Longrightarrow> mset (concat (map f xs)) = mset (concat (map f ys))"
  by (simp only: mset_concat map_map sum_mset_sum_list[symmetric] mset_map)

lemma mset_filter_keys:
  "distinct ks \<Longrightarrow> key ` set xs \<subseteq> set ks \<Longrightarrow> mset (concat (map (\<lambda>k. filter (\<lambda>x. key x = k) xs) ks)) = mset xs"
proof (induction ks arbitrary: xs)
  case (Cons k ks)
  have e: "map (\<lambda>c. filter (\<lambda>x. key x = c) xs) ks = map (\<lambda>c. filter (\<lambda>x. key x = c) (filter (\<lambda>x. key x \<noteq> k) xs)) ks"
    using Cons.prems(1) by (auto intro!: map_cong filter_cong)
  have "mset (concat (map (\<lambda>c. filter (\<lambda>x. key x = c) (filter (\<lambda>x. key x \<noteq> k) xs)) ks)) = mset (filter (\<lambda>x. key x \<noteq> k) xs)"
    by (rule Cons.IH) (use Cons.prems in auto)
  then show ?case unfolding list.map concat.simps mset_append e
    by (simp add: multiset_partition[of "mset xs" "\<lambda>x. key x = k", symmetric])
qed simp

lemma mset_buckets: "mset (concat (map snd (buckets key xs))) = mset xs"
  using mset_filter_keys[of "uniq (map key xs)" key xs] by (simp add: buckets_eq comp_def)

section \<open>The validator\<close>

lemma later_pairs_set: "(x, y) \<in> set (later_pairs xs) \<longleftrightarrow> (\<exists>i j. i < j \<and> j < length xs \<and> xs ! i = x \<and> xs ! j = y)"
proof (induction xs)
  case (Cons a xs)
  have "(\<exists>i j. i < j \<and> j < length (a # xs) \<and> (a # xs) ! i = x \<and> (a # xs) ! j = y) \<longleftrightarrow>
      (a = x \<and> y \<in> set xs) \<or> (\<exists>i j. i < j \<and> j < length xs \<and> xs ! i = x \<and> xs ! j = y)" (is "?L \<longleftrightarrow> ?R")
  proof
    assume ?L
    then obtain i j where ij: "i < j" "j < length (a # xs)" "(a # xs) ! i = x" "(a # xs) ! j = y" by blast
    then obtain j' where j: "j = Suc j'" by (cases j) auto
    show ?R
    proof (cases i)
      case 0
      then show ?thesis using ij j by auto
    next
      case (Suc i')
      then have "i' < j' \<and> j' < length xs \<and> xs ! i' = x \<and> xs ! j' = y" using ij j by simp
      then show ?thesis by blast
    qed
  next
    assume ?R
    then show ?L
    proof (elim disjE conjE exE)
      assume "a = x" "y \<in> set xs"
      then obtain j where "j < length xs" "xs ! j = y" by (auto simp: in_set_conv_nth)
      then show ?L using \<open>a = x\<close> by (intro exI[of _ 0] exI[of _ "Suc j"]) simp
    next
      fix i j
      assume "i < j" "j < length xs" "xs ! i = x" "xs ! j = y"
      then show ?L by (intro exI[of _ "Suc i"] exI[of _ "Suc j"]) simp
    qed
  qed
  then show ?case using Cons by auto
qed simp

lemma later_pairs_distinct:
  assumes "distinct xs" and "\<And>x y. P x y \<longleftrightarrow> P y x"
  shows "(\<forall>(x, y) \<in> set (later_pairs xs). P x y) \<longleftrightarrow> (\<forall>x \<in> set xs. \<forall>y \<in> set xs. x \<noteq> y \<longrightarrow> P x y)"
proof
  assume L: "\<forall>(x, y) \<in> set (later_pairs xs). P x y"
  show "\<forall>x \<in> set xs. \<forall>y \<in> set xs. x \<noteq> y \<longrightarrow> P x y"
  proof (intro ballI impI)
    fix x y
    assume "x \<in> set xs" "y \<in> set xs" "x \<noteq> y"
    then obtain i j where "i < length xs" "j < length xs" "xs ! i = x" "xs ! j = y" "i \<noteq> j"
      by (auto simp: in_set_conv_nth)
    then have "(x, y) \<in> set (later_pairs xs) \<or> (y, x) \<in> set (later_pairs xs)"
      unfolding later_pairs_set using nat_neq_iff by blast
    then show "P x y" using L assms(2) by blast
  qed
next
  assume R: "\<forall>x \<in> set xs. \<forall>y \<in> set xs. x \<noteq> y \<longrightarrow> P x y"
  show "\<forall>(x, y) \<in> set (later_pairs xs). P x y"
    using R assms(1) by (auto simp: later_pairs_set nth_eq_iff_index_eq)
qed

lemma pair_errors_sym:
  "ax_type a = ax_type b \<Longrightarrow> pair_errors ex a b = [] \<longleftrightarrow> pair_errors ex b a = []"
  by (auto simp: pair_errors_def timeRangesOverlap_def split: option.split)

lemma exclusivity_type: "getExclusivityKey a = getExclusivityKey b \<Longrightarrow> ax_type a = ax_type b"
  by (auto simp: getExclusivityKey_def split: if_split_asm)

text \<open>An admissible selection, read off the rules.\<close>

definition item_ok ::
  "string list option \<Rightarrow> form_data \<Rightarrow> date \<Rightarrow> string list \<Rightarrow> access_with_prereqs \<Rightarrow> access_selection \<Rightarrow> bool" where
  "item_ok existing formData now ids a sel \<longleftrightarrow>
     (ax_allowCompanion a \<or> as_quantity sel \<le> 1)
   \<and> (is_existing existing (as_accessId sel)
      \<or> (ea_active a \<and> opt_all (\<lambda>t. t \<le> now) (ax_availableFrom a) \<and> opt_all (\<lambda>t. now \<le> t) (ax_availableTo a)
         \<and> opt_all (\<lambda>c. ea_paidCount a + as_quantity sel \<le> c) (ea_maxCapacity a)))
   \<and> matchesAccessConditions a formData
   \<and> set (ax_requiredAccess a) \<subseteq> set ids"

definition exclusive :: "string list option \<Rightarrow> access_with_prereqs \<Rightarrow> access_with_prereqs \<Rightarrow> bool" where
  "exclusive existing a b \<longleftrightarrow> getExclusivityKey a = getExclusivityKey b \<and>
     ((\<exists>s1 e1 s2 e2. ax_startsAt a = Some s1 \<and> ax_endsAt a = Some e1 \<and> ax_startsAt b = Some s2 \<and> ax_endsAt b = Some e2
         \<and> s2 < e1 \<and> s1 < e2)
      \<or> (ax_type a \<noteq> ADDON \<and> ax_startsAt a = None \<and> ax_startsAt b = None \<and> \<not> ax_includedInBase a
         \<and> \<not> ax_includedInBase b \<and> \<not> (is_existing existing (ea_id a) \<and> is_existing existing (ea_id b))))"

definition admissible ::
  "access_with_prereqs list \<Rightarrow> event_access list \<Rightarrow> access_selection list \<Rightarrow> form_data \<Rightarrow> string list option \<Rightarrow> date \<Rightarrow> bool" where
  "admissible items included sels formData existing now \<longleftrightarrow>
     (let ids = map as_accessId sels in
      distinct ids
    \<and> (\<forall>a \<in> set included. matchesAccessConditions a formData \<longrightarrow> ea_id a \<in> set ids)
    \<and> (\<forall>sel \<in> set sels. \<exists>a. selection_map items (as_accessId sel) = Some a \<and> item_ok existing formData now ids a sel)
    \<and> (\<forall>x \<in> set sels. \<forall>y \<in> set sels. \<forall>a b. x \<noteq> y \<longrightarrow> selection_map items (as_accessId x) = Some a
        \<longrightarrow> selection_map items (as_accessId y) = Some b \<longrightarrow> \<not> exclusive existing a b))"

lemma pair_errors_exclusive:
  "getExclusivityKey a = getExclusivityKey b \<Longrightarrow> pair_errors ex a b = [] \<longleftrightarrow> \<not> exclusive ex a b"
  by (cases "ax_startsAt a"; cases "ax_endsAt a"; cases "ax_startsAt b"; cases "ax_endsAt b")
    (auto simp: pair_errors_def exclusive_def timeRangesOverlap_def not_le)

lemma concat_map_Nil: "concat (map f xs) = [] \<longleftrightarrow> (\<forall>x \<in> set xs. f x = [])"
  by auto

lemma uniq_length: "length (uniq xs) = length xs \<longleftrightarrow> distinct xs"
  by (auto simp: uniq_def length_remdups_card_conv distinct_card card_distinct)

text \<open>The errors of the selected items, once all were found.\<close>

lemma chosen_pairs:
  assumes "distinct chosen"
  shows "(\<forall>(k, t) \<in> set (buckets (getExclusivityKey \<circ> fst) chosen).
      \<forall>(x, y) \<in> set (later_pairs t). pair_errors ex (fst x) (fst y) = [])
    \<longleftrightarrow> (\<forall>x \<in> set chosen. \<forall>y \<in> set chosen. x \<noteq> y \<longrightarrow> \<not> exclusive ex (fst x) (fst y))"
proof -
  let ?k = "getExclusivityKey \<circ> fst"
  have one: "(\<forall>(x, y) \<in> set (later_pairs t). pair_errors ex (fst x) (fst y) = [])
      \<longleftrightarrow> (\<forall>x \<in> set t. \<forall>y \<in> set t. x \<noteq> y \<longrightarrow> \<not> exclusive ex (fst x) (fst y))"
    if t: "t = filter (\<lambda>x. ?k x = k) chosen" for k t
  proof -
    let ?P = "\<lambda>x y. ?k x = ?k y \<longrightarrow> pair_errors ex (fst x) (fst y) = []"
    have sym: "?P x y \<longleftrightarrow> ?P y x" for x y
      using pair_errors_sym[OF exclusivity_type, of "fst x" "fst y" ex] by auto
    have keys: "?k x = ?k y" if "x \<in> set t" "y \<in> set t" for x y using that t by auto
    have mem: "x \<in> set t \<and> y \<in> set t" if "(x, y) \<in> set (later_pairs t)" for x y
      using that by (auto simp: later_pairs_set)
    have "(\<forall>(x, y) \<in> set (later_pairs t). pair_errors ex (fst x) (fst y) = []) \<longleftrightarrow> (\<forall>(x, y) \<in> set (later_pairs t). ?P x y)"
      using mem keys by blast
    also have "\<dots> \<longleftrightarrow> (\<forall>x \<in> set t. \<forall>y \<in> set t. x \<noteq> y \<longrightarrow> ?P x y)"
      by (rule later_pairs_distinct[OF _ sym]) (use assms t in simp)
    also have "\<dots> \<longleftrightarrow> (\<forall>x \<in> set t. \<forall>y \<in> set t. x \<noteq> y \<longrightarrow> \<not> exclusive ex (fst x) (fst y))"
      using keys pair_errors_exclusive by (metis comp_apply)
    finally show ?thesis .
  qed
  have diff: "exclusive ex (fst x) (fst y) \<Longrightarrow> ?k x = ?k y" for x y by (simp add: exclusive_def)
  show ?thesis
  proof (intro iffI ballI impI notI)
    fix x y
    assume L: "\<forall>(k, t) \<in> set (buckets ?k chosen). \<forall>(x, y) \<in> set (later_pairs t). pair_errors ex (fst x) (fst y) = []"
      and xy: "x \<in> set chosen" "y \<in> set chosen" "x \<noteq> y" and ex: "exclusive ex (fst x) (fst y)"
    let ?t = "filter (\<lambda>z. ?k z = ?k x) chosen"
    have "(?k x, ?t) \<in> set (buckets ?k chosen)" using xy(1) by (simp add: buckets_mem)
    then have "\<forall>(x, y) \<in> set (later_pairs ?t). pair_errors ex (fst x) (fst y) = []" using L by blast
    moreover have "x \<in> set ?t" "y \<in> set ?t" using xy diff[OF ex] by simp_all
    ultimately show False using one[of ?t "?k x"] xy(3) ex by blast
  next
    fix kt
    assume R: "\<forall>x \<in> set chosen. \<forall>y \<in> set chosen. x \<noteq> y \<longrightarrow> \<not> exclusive ex (fst x) (fst y)"
      and kt: "kt \<in> set (buckets ?k chosen)"
    obtain k t where p: "kt = (k, t)" by force
    then have t: "t = filter (\<lambda>x. ?k x = k) chosen" using kt by (simp add: buckets_mem)
    then have "\<forall>x \<in> set t. \<forall>y \<in> set t. x \<noteq> y \<longrightarrow> \<not> exclusive ex (fst x) (fst y)" using R by simp
    then show "case kt of (k, t) \<Rightarrow> \<forall>(x, y) \<in> set (later_pairs t). pair_errors ex (fst x) (fst y) = []"
      using one[OF t] unfolding p prod.case by blast
  qed
qed


definition chosen_items ::
  "(string \<Rightarrow> access_with_prereqs option) \<Rightarrow> access_selection list \<Rightarrow> (access_with_prereqs \<times> access_selection) list" where
  "chosen_items m sels = concat (map (\<lambda>sel. case m (as_accessId sel) of None \<Rightarrow> [] | Some a \<Rightarrow> [(a, sel)]) sels)"

lemma chosen_items_mem: "(a, sel) \<in> set (chosen_items m sels) \<longleftrightarrow> sel \<in> set sels \<and> m (as_accessId sel) = Some a"
  by (auto simp: chosen_items_def split: option.splits)

lemma chosen_items_distinct: "distinct sels \<Longrightarrow> distinct (chosen_items m sels)"
  by (induction sels) (auto simp: chosen_items_def split: option.splits)

lemma existence_errors_Nil:
  "existence_errors m ex sel = [] \<longleftrightarrow> (\<exists>a. m (as_accessId sel) = Some a \<and> (ax_allowCompanion a \<or> as_quantity sel \<le> 1)
     \<and> (is_existing ex (as_accessId sel) \<or> ea_active a))"
  by (auto simp: existence_errors_def split: option.splits)

lemma item_errors_Nil:
  "prerequisite_errors ids a = [] \<and> availability_errors ex fd now a (as_accessId sel) = [] \<and> capacity_errors ex a sel = []
     \<and> (ax_allowCompanion a \<or> as_quantity sel \<le> 1) \<and> (is_existing ex (as_accessId sel) \<or> ea_active a)
   \<longleftrightarrow> item_ok ex fd now ids a sel"
  by (auto simp: prerequisite_errors_def availability_errors_def capacity_errors_def item_ok_def opt_all_def not_less
      split: option.splits)

lemma included_errors_Nil:
  "included_errors inc ids fd = [] \<longleftrightarrow> (\<forall>a \<in> set inc. matchesAccessConditions a fd \<longrightarrow> ea_id a \<in> set ids)"
  by (auto simp: included_errors_def)

lemma chosen_errors_Nil:
  "concat (map (\<lambda>(_, t). concat (map (\<lambda>(x, y). pair_errors ex (fst x) (fst y)) (later_pairs t))) bs)
      @ concat (map (\<lambda>(a, _). prerequisite_errors ids a) c)
      @ concat (map (\<lambda>(a, sel). availability_errors ex fd now a (as_accessId sel)) c)
      @ concat (map (\<lambda>(a, sel). capacity_errors ex a sel) c) = []
   \<longleftrightarrow> (\<forall>(k, t) \<in> set bs. \<forall>(x, y) \<in> set (later_pairs t). pair_errors ex (fst x) (fst y) = [])
     \<and> (\<forall>(a, sel) \<in> set c. prerequisite_errors ids a = [] \<and> availability_errors ex fd now a (as_accessId sel) = []
        \<and> capacity_errors ex a sel = [])"
  unfolding append_is_Nil_conv concat_map_Nil split_beta by blast

text \<open>
  C27: The validator accepts a selection exactly when it is admissible: no item twice, every mandatory item whose
  conditions hold selected, every selected item existing, available, allowed by the answers, with its
  prerequisites selected and room for the quantity (items the registration already holds keep their place), and
  no two items that exclude each other by time or by kind.
\<close>

theorem validateSelections_admissible:
  "fst (validateSelections items included sels formData existing now) =
    admissible items included sels formData existing now"
proof -
  let ?ids = "map as_accessId sels" and ?m = "selection_map items"
  let ?e0 = "(if length (uniq ?ids) \<noteq> length ?ids then [Selected_twice] else []) @ included_errors included ?ids formData"
  let ?e1 = "?e0 @ concat (map (existence_errors ?m existing) sels)"
  let ?c = "chosen_items ?m sels"
  let ?es = "concat (map (\<lambda>(_, t). concat (map (\<lambda>(x, y). pair_errors existing (fst x) (fst y)) (later_pairs t)))
               (buckets (getExclusivityKey \<circ> fst) ?c))
             @ concat (map (\<lambda>(a, _). prerequisite_errors ?ids a) ?c)
             @ concat (map (\<lambda>(a, sel). availability_errors existing formData now a (as_accessId sel)) ?c)
             @ concat (map (\<lambda>(a, sel). capacity_errors existing a sel) ?c)"
  let ?D = "distinct ?ids" and ?I = "\<forall>a \<in> set included. matchesAccessConditions a formData \<longrightarrow> ea_id a \<in> set ?ids"
  let ?X = "\<forall>sel \<in> set sels. \<exists>a. ?m (as_accessId sel) = Some a \<and> (ax_allowCompanion a \<or> as_quantity sel \<le> 1)
     \<and> (is_existing existing (as_accessId sel) \<or> ea_active a)"
  let ?P = "\<forall>x \<in> set ?c. \<forall>y \<in> set ?c. x \<noteq> y \<longrightarrow> \<not> exclusive existing (fst x) (fst y)"
  let ?O = "\<forall>(a, sel) \<in> set ?c. prerequisite_errors ?ids a = [] \<and> availability_errors existing formData now a (as_accessId sel) = []
        \<and> capacity_errors existing a sel = []"
  have run: "fst (validateSelections items included sels formData existing now) =
      (if sels = [] then ?e0 = [] else ?e1 = [] \<and> ?es = [])"
    by (simp add: validateSelections_def Let_def chosen_items_def)
  have e0: "?e0 = [] \<longleftrightarrow> ?D \<and> ?I" by (simp add: uniq_length[of ?ids, simplified] included_errors_Nil)
  have e1: "?e1 = [] \<longleftrightarrow> ?D \<and> ?I \<and> ?X" unfolding append_is_Nil_conv[of ?e0] e0 concat_map_Nil existence_errors_Nil by blast
  have "?es = [] \<longleftrightarrow> ?P \<and> ?O" if ?D
  proof -
    have "distinct sels" using that by (simp add: distinct_map)
    show ?thesis unfolding chosen_errors_Nil chosen_pairs[OF chosen_items_distinct[OF \<open>distinct sels\<close>]] ..
  qed
  then have es: "?e1 = [] \<and> ?es = [] \<longleftrightarrow> ?D \<and> ?I \<and> ?X \<and> ?P \<and> ?O" unfolding e1 by blast
  have items: "?X \<and> ?O \<longleftrightarrow> (\<forall>sel \<in> set sels. \<exists>a. ?m (as_accessId sel) = Some a \<and> item_ok existing formData now ?ids a sel)"
    (is "_ \<longleftrightarrow> ?R")
  proof (intro iffI ballI conjI)
    fix sel
    assume XO: "?X \<and> ?O" and sel: "sel \<in> set sels"
    then obtain a where a: "?m (as_accessId sel) = Some a" "ax_allowCompanion a \<or> as_quantity sel \<le> 1"
      "is_existing existing (as_accessId sel) \<or> ea_active a" by blast
    then have "(a, sel) \<in> set ?c" using sel by (simp add: chosen_items_mem)
    then have "item_ok existing formData now ?ids a sel"
      unfolding item_errors_Nil[symmetric] using XO a(2,3) by blast
    then show "\<exists>a. ?m (as_accessId sel) = Some a \<and> item_ok existing formData now ?ids a sel" using a(1) by blast
  next
    fix sel
    assume R: ?R and sel: "sel \<in> set sels"
    then show "\<exists>a. ?m (as_accessId sel) = Some a \<and> (ax_allowCompanion a \<or> as_quantity sel \<le> 1)
       \<and> (is_existing existing (as_accessId sel) \<or> ea_active a)"
      unfolding item_errors_Nil[symmetric] by blast
  next
    fix x
    assume R: ?R and x: "x \<in> set ?c"
    obtain a sel where p: "x = (a, sel)" by force
    have "sel \<in> set sels" "?m (as_accessId sel) = Some a" using x by (simp_all add: p chosen_items_mem)
    then have "item_ok existing formData now ?ids a sel" using R by fastforce
    then show "case x of (a, sel) \<Rightarrow> prerequisite_errors ?ids a = []
        \<and> availability_errors existing formData now a (as_accessId sel) = [] \<and> capacity_errors existing a sel = []"
      unfolding item_errors_Nil[symmetric] p prod.case by blast
  qed
  have pairs: "?P \<longleftrightarrow> (\<forall>x \<in> set sels. \<forall>y \<in> set sels. \<forall>a b. x \<noteq> y \<longrightarrow> ?m (as_accessId x) = Some a
        \<longrightarrow> ?m (as_accessId y) = Some b \<longrightarrow> \<not> exclusive existing a b)"
    (is "_ \<longleftrightarrow> ?Q")
  proof (intro iffI ballI allI impI)
    fix x y a b
    assume P: ?P and xy: "x \<in> set sels" "y \<in> set sels" "x \<noteq> y" and m: "?m (as_accessId x) = Some a" "?m (as_accessId y) = Some b"
    have "(a, x) \<in> set ?c" "(b, y) \<in> set ?c" using xy m by (simp_all add: chosen_items_mem)
    then show "\<not> exclusive existing a b" using P xy(3) by fastforce
  next
    fix x y
    assume Q: ?Q and xy: "x \<in> set ?c" "y \<in> set ?c" "x \<noteq> y"
    obtain a u b v where p: "x = (a, u)" "y = (b, v)" by (cases x, cases y) blast
    have m: "u \<in> set sels" "v \<in> set sels" "?m (as_accessId u) = Some a" "?m (as_accessId v) = Some b"
      using xy(1,2) by (simp_all add: p chosen_items_mem)
    have "u \<noteq> v" using m xy(3) p by auto
    then show "\<not> exclusive existing (fst x) (fst y)" using Q m by (simp add: p)
  qed
  show ?thesis
  proof (cases "sels = []")
    case True
    then show ?thesis using e0 run by (simp add: admissible_def)
  next
    case False
    then have "fst (validateSelections items included sels formData existing now) \<longleftrightarrow> ?D \<and> ?I \<and> (?X \<and> ?O) \<and> ?P"
      using run es by auto
    then show ?thesis unfolding items pairs admissible_def Let_def by blast
  qed
qed

section \<open>The listing\<close>

lemma mset_items_toSlot [simp]: "mset (ts_items (toSlot items t)) = mset items"
  by (simp add: toSlot_def Let_def)

lemma mset_slots: "mset (concat (map ts_items (map (\<lambda>(k, b). toSlot b None) (buckets key xs)))) = mset xs"
proof -
  have "mset (concat (map ts_items (map (\<lambda>(k, b). toSlot b None) bs))) = mset (concat (map snd bs))" for bs :: "('a \<times> enriched_access list) list"
    by (induction bs) auto
  then show ?thesis by (simp only: mset_buckets)
qed

lemma mset_day: "mset (concat (map ts_items (dg_slots (day_group fmt d)))) = mset (snd d)"
  unfolding day_group_def date_group.simps
  by (subst mset_concat_perm[OF mset_sort]) (rule mset_slots)

lemma mset_addon:
  "mset (case buildAddonGroup xs of None \<Rightarrow> [] | Some slots \<Rightarrow> concat (map ts_items slots)) = mset xs"
proof (cases "xs = []")
  case False
  let ?A = "filter (\<lambda>a. ax_type a = ADDON) xs"
  let ?I = "filter (\<lambda>a. ax_type a \<noteq> ADDON \<and> ax_includedInBase a) xs"
  let ?X = "filter (\<lambda>a. ax_type a \<noteq> ADDON \<and> \<not> ax_includedInBase a) xs"
  let ?s = "(if ?A \<noteq> [] then [(toSlot ?A (Some Multiple))\<lparr>ts_startsAt := None, ts_endsAt := None\<rparr>] else [])
     @ map (\<lambda>a. toSlot [a] (Some Multiple)) ?I @ map (\<lambda>(k, b). toSlot b None) (buckets getExclusivityKey ?X)"
  have i: "mset (concat (map ts_items (map (\<lambda>a. toSlot [a] (Some Multiple)) ys))) = mset ys" for ys
    by (induction ys) auto
  have "mset (concat (map ts_items ?s)) = mset ?A + mset ?I + mset ?X"
    unfolding map_append concat_append mset_append i mset_slots by (auto simp: filter_empty_conv)
  also have "\<dots> = mset xs" by (induction xs) auto
  finally have "mset (concat (map ts_items ?s)) = mset xs" .
  then show ?thesis using False unfolding buildAddonGroup_def Let_def
    by (simp only: if_False option.case mset_concat_perm[OF mset_sort])
qed (simp add: buildAddonGroup_def)

text \<open>
  The grouped listing shows every item on offer exactly once: the items of all days and of the options
  together are the active items that are available, allowed by the answers and whose prerequisites are
  selected, each with its remaining places.
\<close>

theorem groupAccess_complete:
  "mset (grouped_items (groupAccess fmt allAccess formData selectedIds now)) =
    image_mset enrich (mset (filter (access_available formData selectedIds now) allAccess))"
proof -
  let ?E = "map enrich (filter (access_available formData selectedIds now) allAccess)"
  let ?O = "filter (\<lambda>a. ax_type a = ADDON \<or> ax_startsAt a = None) ?E"
  let ?S = "filter (\<lambda>a. ax_type a \<noteq> ADDON \<and> ax_startsAt a \<noteq> None) ?E"
  let ?d = "buckets (\<lambda>a. df_localDay fmt (set_or (ax_startsAt a) 0)) ?S"
  have days: "mset (concat (map (\<lambda>d. concat (map ts_items (dg_slots d))) (map (day_group fmt) ds))) = mset (concat (map snd ds))" for ds
    by (induction ds) (simp_all add: mset_day)
  have "mset (grouped_items (groupAccess fmt allAccess formData selectedIds now)) = mset ?S + mset ?O"
    unfolding grouped_items_def groupAccess_def Let_def grouped_access.simps mset_append mset_addon
    by (subst mset_concat_perm[OF mset_sort]) (simp only: days mset_buckets)
  also have "\<dots> = mset ?E" by (induction ?E) auto
  finally show ?thesis by simp
qed


section \<open>Radio groups\<close>

lemma addon_slots_single:
  assumes "buildAddonGroup xs = Some slots"
  shows "(\<exists>slot \<in> set slots. ts_selectionType slot = Single \<and> P (set (ts_items slot))) \<longleftrightarrow>
    (\<exists>b. b \<in> snd ` set (buckets getExclusivityKey (filter (\<lambda>a. ax_type a \<noteq> ADDON \<and> \<not> ax_includedInBase a) xs))
      \<and> 1 < length b \<and> P (set b))"
proof -
  have single: "ts_selectionType (toSlot b t) = Single \<longleftrightarrow> t = Some Single \<or> (t = None \<and> 1 < length b)" for b t
    by (cases t) (simp_all add: toSlot_def Let_def set_or_def)
  have items: "set (ts_items (toSlot b t)) = set b" for b t by (simp add: toSlot_def Let_def)
  let ?A = "filter (\<lambda>a. ax_type a = ADDON) xs"
  let ?B = "buckets getExclusivityKey (filter (\<lambda>a. ax_type a \<noteq> ADDON \<and> \<not> ax_includedInBase a) xs)"
  let ?a = "if ?A \<noteq> [] then [(toSlot ?A (Some Multiple))\<lparr>ts_startsAt := None, ts_endsAt := None\<rparr>] else []"
  let ?i = "map (\<lambda>a. toSlot [a] (Some Multiple)) (filter (\<lambda>a. ax_type a \<noteq> ADDON \<and> ax_includedInBase a) xs)"
  let ?b = "map (\<lambda>(k, b). toSlot b None) ?B" and ?Q = "\<lambda>slot. ts_selectionType slot = Single \<and> P (set (ts_items slot))"
  have ne: "xs \<noteq> []" using assms by (auto simp: buildAddonGroup_def)
  have "slots = sort_key slot_order (?a @ ?i @ ?b)"
    using assms unfolding buildAddonGroup_def Let_def if_not_P[OF ne] option.inject by (rule sym)
  then have set: "set slots = set ?a \<union> set ?i \<union> set ?b" by (simp only: set_sort set_append Un_assoc)
  have a: "\<not> (\<exists>slot \<in> set ?a. ?Q slot)" and i: "\<not> (\<exists>slot \<in> set ?i. ?Q slot)" by (auto simp: single)
  have "(\<exists>slot \<in> set ?b. ?Q slot) \<longleftrightarrow> (\<exists>b. b \<in> snd ` set ?B \<and> 1 < length b \<and> P (set b))"
    unfolding set_map bex_simps(7) by (auto simp: split_beta single items image_iff)
  then show ?thesis unfolding set bex_Un using a i by blast
qed

text \<open>
  The options form offers two undated items as alternatives of one radio group exactly when the validator
  refuses to select both: the page a participant sees and the check of the submission agree.
\<close>

theorem radio_groups_exclusive:
  assumes "gr_addonGroup (groupAccess fmt allAccess formData selectedIds now) = Some slots"
    and "x \<in> set (concat (map ts_items slots))" and "y \<in> set (concat (map ts_items slots))" and "x \<noteq> y"
    and "ax_type x \<noteq> ADDON" and "ax_type y \<noteq> ADDON"
  shows "(\<exists>slot \<in> set slots. ts_selectionType slot = Single \<and> {x, y} \<subseteq> set (ts_items slot)) \<longleftrightarrow>
    getExclusivityKey x = getExclusivityKey y \<and> Only_one_of (ea_name x) (ea_name y) \<in> set (pair_errors None x y)"
proof -
  let ?E = "map enrich (filter (access_available formData selectedIds now) allAccess)"
  let ?O = "filter (\<lambda>a. ax_type a = ADDON \<or> ax_startsAt a = None) ?E"
  let ?X = "filter (\<lambda>a. ax_type a \<noteq> ADDON \<and> \<not> ax_includedInBase a) ?O"
  have g: "buildAddonGroup ?O = Some slots"
    using assms(1) unfolding groupAccess_def Let_def by simp
  have "mset (concat (map ts_items slots)) = mset ?O" using mset_addon[of ?O] unfolding g option.case .
  then have O: "set (concat (map ts_items slots)) = set ?O" by (rule mset_eq_setD)
  have x: "x \<in> set ?O" "ax_startsAt x = None" and y: "y \<in> set ?O" "ax_startsAt y = None"
    using assms(2,3,5,6) unfolding O by auto
  have one: "Only_one_of (ea_name x) (ea_name y) \<in> set (pair_errors None x y) \<longleftrightarrow> \<not> ax_includedInBase x \<and> \<not> ax_includedInBase y"
    using x y assms(5) by (auto simp: pair_errors_def is_existing_def)
  have "(\<exists>b. b \<in> snd ` set (buckets getExclusivityKey ?X) \<and> 1 < length b \<and> {x, y} \<subseteq> set b) \<longleftrightarrow>
      getExclusivityKey x = getExclusivityKey y \<and> \<not> ax_includedInBase x \<and> \<not> ax_includedInBase y" (is "?L \<longleftrightarrow> ?R")
  proof
    assume ?L
    then obtain k b where b: "(k, b) \<in> set (buckets getExclusivityKey ?X)" "{x, y} \<subseteq> set b" by force
    then have "b = filter (\<lambda>a. getExclusivityKey a = k) ?X" by (simp add: buckets_mem)
    then show ?R using b(2) by auto
  next
    assume R: ?R
    let ?b = "filter (\<lambda>a. getExclusivityKey a = getExclusivityKey x) ?X"
    have xX: "x \<in> set ?X" "y \<in> set ?X" using R x y assms(5,6) unfolding set_filter by blast+
    then have b: "(getExclusivityKey x, ?b) \<in> set (buckets getExclusivityKey ?X)"
      unfolding buckets_mem using imageI[OF xX(1)] by blast
    have xy: "{x, y} \<subseteq> set ?b" using xX R by auto
    have "card {x, y} \<le> card (set ?b)" by (rule card_mono[OF finite_set xy])
    then have "1 < length ?b" using assms(4) card_length[of ?b] by simp
    then show ?L using b xy by force
  qed
  then show ?thesis unfolding addon_slots_single[OF g] one .
qed

definition demo_item :: "string \<Rightarrow> string \<Rightarrow> event_access" where
  "demo_item i name = \<lparr>ea_id = i, ea_eventId = ''e'', ea_name = name, ea_active = True, ea_maxCapacity = Some 10,
     ea_paidCount = 0, ea_registeredCount = 0, ax_type = WORKSHOP, ax_description = None, ax_location = None,
     ax_startsAt = None, ax_endsAt = None, ax_price = 0, ax_currency = ''TND'', ax_availableFrom = None,
     ax_availableTo = None, ax_conditions = None, ax_conditionLogic = ''AND'', ax_sortOrder = 0, ax_groupLabel = None,
     ax_allowCompanion = False, ax_includedInBase = False, ax_companionPrice = 0, ax_createdAt = 0, ax_updatedAt = 0\<rparr>"

definition demo_offer :: "string \<Rightarrow> string \<Rightarrow> access_with_prereqs" where
  "demo_offer i name = event_access.extend (demo_item i name) \<lparr>ax_requiredAccess = []\<rparr>"

definition demo_days :: day_format where
  "demo_days = \<lparr>df_localDay = (\<lambda>_. ''d''), df_longDate = (\<lambda>_. ''lundi''), df_time = (\<lambda>_. 0)\<rparr>"

theorem radio_groups_exclusive_witness:
  "\<exists>slots. gr_addonGroup (groupAccess demo_days [demo_offer ''a'' ''A'', demo_offer ''b'' ''B''] [] [] 0) = Some slots
    \<and> (\<exists>slot \<in> set slots. ts_selectionType slot = Single
        \<and> {enrich (demo_offer ''a'' ''A''), enrich (demo_offer ''b'' ''B'')} \<subseteq> set (ts_items slot))"
proof -
  let ?x = "enrich (demo_offer ''a'' ''A'')" and ?y = "enrich (demo_offer ''b'' ''B'')"
  have g: "gr_addonGroup (groupAccess demo_days [demo_offer ''a'' ''A'', demo_offer ''b'' ''B''] [] [] 0)
      = Some [toSlot [?x, ?y] None]" by code_simp
  have i: "set (concat (map ts_items [toSlot [?x, ?y] None])) = {?x, ?y}" by (auto simp: toSlot_def Let_def)
  have "?x \<noteq> ?y" "ax_type ?x \<noteq> ADDON" "ax_type ?y \<noteq> ADDON" "getExclusivityKey ?x = getExclusivityKey ?y"
    "Only_one_of (ea_name ?x) (ea_name ?y) \<in> set (pair_errors None ?x ?y)" by code_simp+
  then show ?thesis using radio_groups_exclusive[OF g, of ?x ?y] g i by blast
qed

end
