(* ===== verification/RegistrationRules.thy ===== *)
theory RegistrationRules
  imports SelectProps
begin

text \<open>
  The rules of the registration services that read no table: the payment transitions
  (\<open>apps/api/src/modules/registrations/payment-transitions.ts\<close>), what a registrant may edit
  (\<open>edit-policy.ts\<close>) and the amount guards (\<open>registrations.guards.ts\<close>).
\<close>

section \<open>Payment transitions\<close>

definition ALLOWED_TRANSITIONS :: "payment_status \<Rightarrow> payment_status list" where
  "ALLOWED_TRANSITIONS st = (case st of
      PENDING \<Rightarrow> [VERIFYING, PARTIAL, PAID, SPONSORED, WAIVED, REFUNDED]
    | VERIFYING \<Rightarrow> [PAID, PARTIAL, PENDING, REFUNDED]
    | PARTIAL \<Rightarrow> [VERIFYING, PAID, SPONSORED, REFUNDED]
    | PAID \<Rightarrow> [REFUNDED]
    | SPONSORED \<Rightarrow> [PARTIAL, REFUNDED]
    | WAIVED \<Rightarrow> [PENDING, REFUNDED]
    | REFUNDED \<Rightarrow> [])"

definition ADMIN_OVERRIDE_TRANSITIONS :: "payment_status \<Rightarrow> payment_status list" where
  "ADMIN_OVERRIDE_TRANSITIONS st = (case st of
      PENDING \<Rightarrow> [VERIFYING, PARTIAL, PAID, SPONSORED, WAIVED, REFUNDED]
    | VERIFYING \<Rightarrow> [PENDING, PARTIAL, PAID, SPONSORED, WAIVED, REFUNDED]
    | PARTIAL \<Rightarrow> [PENDING, VERIFYING, PAID, SPONSORED, WAIVED, REFUNDED]
    | PAID \<Rightarrow> [PENDING, VERIFYING, PARTIAL, SPONSORED, WAIVED, REFUNDED]
    | SPONSORED \<Rightarrow> [PENDING, VERIFYING, PARTIAL, PAID, WAIVED, REFUNDED]
    | WAIVED \<Rightarrow> [PENDING, VERIFYING, PARTIAL, PAID, SPONSORED, REFUNDED]
    | REFUNDED \<Rightarrow> [])"

definition assertTransition ::
  "(payment_status \<Rightarrow> payment_status list) \<Rightarrow> payment_status \<Rightarrow> payment_status \<Rightarrow> error + unit" where
  "assertTransition table current target =
    (if current = target then Inr ()
     else guard (target \<in> set (table current)) (App_exception ''INVALID_PAYMENT_TRANSITION'' 400))"

definition validatePaymentTransition :: "payment_status \<Rightarrow> payment_status \<Rightarrow> error + unit" where
  "validatePaymentTransition current target = assertTransition ALLOWED_TRANSITIONS current target"

definition validateAdminPaymentOverride :: "payment_status \<Rightarrow> payment_status \<Rightarrow> error + unit" where
  "validateAdminPaymentOverride current target = assertTransition ADMIN_OVERRIDE_TRANSITIONS current target"

text \<open>Every payment transition is open to an administrator, and nothing leaves REFUNDED.\<close>

lemma assertTransition_Inr:
  "assertTransition table c n = Inr u \<longleftrightarrow> c = n \<or> n \<in> set (table c)"
  by (cases "n \<in> set (table c)") (simp_all add: assertTransition_def)

lemma validatePaymentTransition_override:
  "validatePaymentTransition c n = Inr u \<Longrightarrow> validateAdminPaymentOverride c n = Inr u"
  by (cases c; cases n)
    (simp_all add: validatePaymentTransition_def validateAdminPaymentOverride_def assertTransition_Inr
      ALLOWED_TRANSITIONS_def ADMIN_OVERRIDE_TRANSITIONS_def)

lemma validateAdminPaymentOverride_refunded:
  "validateAdminPaymentOverride REFUNDED n = Inr u \<longleftrightarrow> n = REFUNDED"
  by (auto simp: validateAdminPaymentOverride_def assertTransition_Inr ADMIN_OVERRIDE_TRANSITIONS_def)

lemma validatePaymentTransition_refunded:
  "validatePaymentTransition REFUNDED n = Inr u \<longleftrightarrow> n = REFUNDED"
  by (auto simp: validatePaymentTransition_def assertTransition_Inr ALLOWED_TRANSITIONS_def)

lemma validateAdminPaymentOverride_total:
  "c \<noteq> REFUNDED \<Longrightarrow> validateAdminPaymentOverride c n = Inr ()"
  by (cases c; cases n) (simp_all add: validateAdminPaymentOverride_def assertTransition_def ADMIN_OVERRIDE_TRANSITIONS_def)

section \<open>Edit policy\<close>

datatype edit_block = Block_refunded | Block_event_closed | Block_registrations_disabled | Block_pricing_disabled

datatype access_edit_block = Access_verifying | Access_waived | Access_fully_sponsored

text \<open>A reason shown to the registrant: the text of a block, or that items cannot be removed.\<close>

datatype restriction = Edit_reason edit_block | Access_reason access_edit_block | Removal_reason

record edit_policy_input =
  ei_paymentStatus :: payment_status
  ei_paidAmount :: money
  ei_totalAmount :: money
  ei_sponsorshipAmount :: money
  ei_eventStatus :: event_status
  ei_endDate :: date
  ei_clientActive :: bool
  ei_enabledModules :: "string list option"
  ei_now :: date

record edit_policy =
  pl_canEdit :: bool
  pl_canEditPersonalInfo :: bool
  pl_canEditAccess :: bool
  pl_canAddAccess :: bool
  pl_canRemoveAccess :: bool
  pl_isFullySponsored :: bool
  pl_paymentReceived :: bool
  pl_editBlocks :: "edit_block list"
  pl_accessBlocks :: "access_edit_block list"
  pl_restrictions :: "restriction list"

definition evaluateEditPolicy :: "edit_policy_input \<Rightarrow> edit_policy" where
  "evaluateEditPolicy i =
    (let editBlocks =
           (if ei_paymentStatus i = REFUNDED then [Block_refunded] else [])
         @ (if \<not> eventAcceptsPublicActions (ei_eventStatus i) (ei_endDate i) (ei_now i)
            then [Block_event_closed] else [])
         @ (if \<not> isModuleEnabledForClient (ei_clientActive i) (ei_enabledModules i) ''registrations''
            then [Block_registrations_disabled] else [])
         @ (if \<not> isModuleEnabledForClient (ei_clientActive i) (ei_enabledModules i) ''pricing''
            then [Block_pricing_disabled] else []);
         isFullySponsored = (0 < ei_totalAmount i \<and> ei_totalAmount i \<le> ei_sponsorshipAmount i);
         accessBlocks =
           (if ei_paymentStatus i = VERIFYING then [Access_verifying] else [])
         @ (if ei_paymentStatus i = WAIVED then [Access_waived] else [])
         @ (if isFullySponsored then [Access_fully_sponsored] else []);
         paymentReceived = (ei_paymentStatus i = PAID \<or> ei_paymentStatus i = SPONSORED \<or> 0 < ei_paidAmount i);
         canEdit = (length editBlocks = 0);
         canEditAccess = (canEdit \<and> length accessBlocks = 0);
         restrictions = map Edit_reason editBlocks
           @ (if Access_verifying \<in> set accessBlocks then [Access_reason Access_verifying] else [])
           @ (if paymentReceived then [Removal_reason] else [])
           @ map Access_reason (filter (\<lambda>b. b \<noteq> Access_verifying) accessBlocks)
     in \<lparr>pl_canEdit = canEdit, pl_canEditPersonalInfo = canEdit, pl_canEditAccess = canEditAccess,
         pl_canAddAccess = canEditAccess, pl_canRemoveAccess = (canEditAccess \<and> \<not> paymentReceived),
         pl_isFullySponsored = isFullySponsored, pl_paymentReceived = paymentReceived,
         pl_editBlocks = editBlocks, pl_accessBlocks = accessBlocks, pl_restrictions = restrictions\<rparr>)"

definition edit_block_error :: "bool \<Rightarrow> string list option \<Rightarrow> edit_block \<Rightarrow> error + unit" where
  "edit_block_error active enabledModules block = (case block of
      Block_refunded \<Rightarrow> Inl (App_exception ''REGISTRATION_REFUNDED'' 400)
    | Block_event_closed \<Rightarrow> Inl (App_exception ''REGISTRATION_EDIT_FORBIDDEN'' 400)
    | Block_registrations_disabled \<Rightarrow> assertModuleEnabledForClient active enabledModules ''registrations''
    | Block_pricing_disabled \<Rightarrow> assertModuleEnabledForClient active enabledModules ''pricing'')"

definition access_block_error :: "access_edit_block \<Rightarrow> error" where
  "access_block_error block = (case block of
      Access_verifying \<Rightarrow> App_exception ''REGISTRATION_VERIFYING_BLOCKED'' 400
    | Access_waived \<Rightarrow> App_exception ''REGISTRATION_WAIVED_ACCESS_BLOCKED'' 400
    | Access_fully_sponsored \<Rightarrow> App_exception ''REGISTRATION_FULLY_SPONSORED_BLOCKED'' 400)"

definition assertSelfEditAllowed ::
  "edit_policy \<Rightarrow> bool \<Rightarrow> string list option \<Rightarrow> bool \<Rightarrow> string list \<Rightarrow> error + unit" where
  "assertSelfEditAllowed policy active enabledModules changesAccess removedAccessIds =
    sbind (smap (edit_block_error active enabledModules) (pl_editBlocks policy)) (\<lambda>_.
    sbind (if changesAccess then smap (\<lambda>b. Inl (access_block_error b) :: error + unit) (pl_accessBlocks policy) else Inr []) (\<lambda>_.
    guard (\<not> (pl_paymentReceived policy \<and> 0 < length removedAccessIds))
      (App_exception ''REGISTRATION_ACCESS_REMOVAL_BLOCKED'' 400)))"

lemma smap_Inl_Inr: "smap (\<lambda>b. Inl (e b)) xs = Inr ys \<longleftrightarrow> xs = [] \<and> ys = []"
  by (cases xs) auto

lemma module_assert_iff:
  "assertModuleEnabledForClient a ms m = Inr u \<longleftrightarrow> isModuleEnabledForClient a ms m"
  by (cases a; cases ms) (auto simp: assertModuleEnabledForClient_def isModuleEnabledForClient_def guard_def)

lemma edit_blocks_allowed:
  "(\<exists>us. smap (edit_block_error (ei_clientActive i) (ei_enabledModules i)) (pl_editBlocks (evaluateEditPolicy i)) = Inr us)
    \<longleftrightarrow> pl_canEdit (evaluateEditPolicy i)"
  by (auto simp: evaluateEditPolicy_def Let_def edit_block_error_def module_assert_iff sbind_Inr_iff)

text \<open>
  C35: The edit enforces exactly the policy shown to the registrant: an attempt goes through exactly when
  the policy allows editing, allows editing the access items if the attempt changes them, and allows
  removing them if it removes any. An attempt that removes items changes the selections.
\<close>

theorem assertSelfEditAllowed_policy:
  assumes "removedAccessIds \<noteq> [] \<longrightarrow> changesAccess"
  shows "assertSelfEditAllowed (evaluateEditPolicy i) (ei_clientActive i) (ei_enabledModules i) changesAccess
      removedAccessIds = Inr () \<longleftrightarrow>
    pl_canEdit (evaluateEditPolicy i)
    \<and> (changesAccess \<longrightarrow> pl_canEditAccess (evaluateEditPolicy i))
    \<and> (removedAccessIds \<noteq> [] \<longrightarrow> pl_canRemoveAccess (evaluateEditPolicy i))"
proof -
  let ?p = "evaluateEditPolicy i"
  have p: "pl_canEditAccess ?p \<longleftrightarrow> pl_canEdit ?p \<and> pl_accessBlocks ?p = []"
    "pl_canRemoveAccess ?p \<longleftrightarrow> pl_canEditAccess ?p \<and> \<not> pl_paymentReceived ?p"
    by (simp_all add: evaluateEditPolicy_def Let_def)
  have "assertSelfEditAllowed ?p (ei_clientActive i) (ei_enabledModules i) changesAccess removedAccessIds = Inr () \<longleftrightarrow>
      pl_canEdit ?p \<and> (changesAccess \<longrightarrow> pl_accessBlocks ?p = []) \<and> \<not> (pl_paymentReceived ?p \<and> removedAccessIds \<noteq> [])"
    unfolding edit_blocks_allowed[symmetric] assertSelfEditAllowed_def
    by (auto simp: sbind_Inr_iff smap_Inl_Inr guard_def)
  with assms p show ?thesis by blast
qed

definition demo_edit_input :: edit_policy_input where
  "demo_edit_input = \<lparr>ei_paymentStatus = PARTIAL, ei_paidAmount = 500000, ei_totalAmount = 1000000,
     ei_sponsorshipAmount = 0, ei_eventStatus = Ev_open, ei_endDate = 0, ei_clientActive = True,
     ei_enabledModules = Some [''registrations'', ''pricing''], ei_now = 1000\<rparr>"

theorem assertSelfEditAllowed_policy_witness:
  "assertSelfEditAllowed (evaluateEditPolicy demo_edit_input) True (Some [''registrations'', ''pricing'']) True [''ws'']
    \<noteq> Inr () \<and>
   assertSelfEditAllowed (evaluateEditPolicy demo_edit_input) True (Some [''registrations'', ''pricing'']) True [] = Inr ()"
proof -
  have c: "pl_canEditAccess (evaluateEditPolicy demo_edit_input)" "pl_canEdit (evaluateEditPolicy demo_edit_input)"
    "\<not> pl_canRemoveAccess (evaluateEditPolicy demo_edit_input)"
    by code_simp+
  have e: "ei_clientActive demo_edit_input = True"
    "ei_enabledModules demo_edit_input = Some [''registrations'', ''pricing'']"
    by (simp_all add: demo_edit_input_def)
  show ?thesis
    using assertSelfEditAllowed_policy[of "[''ws'']" True demo_edit_input]
      assertSelfEditAllowed_policy[of "[]" True demo_edit_input] c
    unfolding e by simp
qed

section \<open>Amount guards\<close>

definition netOf :: "money \<Rightarrow> money \<Rightarrow> error + money" where
  "netOf totalAmount sponsorshipAmount =
    sbind (subtractMoney totalAmount sponsorshipAmount) (\<lambda>d. Inr (max 0 d))"

definition assertPaidAmountWithinNet :: "money \<Rightarrow> money \<Rightarrow> error + unit" where
  "assertPaidAmountWithinNet paidAmount net = guard (\<not> net < paidAmount) (App_exception ''BAD_REQUEST'' 400)"

definition assertPaidInFull :: "money \<Rightarrow> money \<Rightarrow> error + unit" where
  "assertPaidInFull paidAmount net = guard (\<not> paidAmount < net) (App_exception ''PAID_AMOUNT_BELOW_DUE'' 400)"

definition assertLabSponsorshipAllowed :: "string list option \<Rightarrow> payment_method option \<Rightarrow> error + unit" where
  "assertLabSponsorshipAllowed enabledModules paymentMethod =
    guard (\<not> (paymentMethod = Some LAB_SPONSORSHIP
        \<and> ''sponsorships'' \<in> set (case enabledModules of None \<Rightarrow> [] | Some ms \<Rightarrow> ms)))
      (App_exception ''BAD_REQUEST'' 400)"

definition registrationAlreadyExists :: error where
  "registrationAlreadyExists = App_exception ''REGISTRATION_ALREADY_EXISTS'' 409"

definition registration_not_found :: error where
  "registration_not_found = App_exception ''REGISTRATION_NOT_FOUND'' 404"

definition assertValidSelections ::
  "access_db \<Rightarrow> string \<Rightarrow> access_selection list \<Rightarrow> form_data \<Rightarrow> string list option \<Rightarrow> date \<Rightarrow> error + unit" where
  "assertValidSelections s eventId selections formData existingAccessIds now =
    guard (fst (validateAccessSelections s eventId selections formData existingAccessIds now))
      (App_exception ''BAD_REQUEST'' 400)"

text \<open>The settlement's net amount, and the guards as order facts.\<close>

lemma calculateSettlement_net:
  "calculateSettlement t p sp = Inr a \<Longrightarrow> netOf t sp = Inr (sa_netAmount a)"
  by (auto simp: calculateSettlement_def netOf_def sbind_Inr_iff Let_def)

lemma assertPaid_iff [simp]:
  "assertPaidAmountWithinNet p n = Inr u \<longleftrightarrow> p \<le> n" "assertPaidInFull p n = Inr u \<longleftrightarrow> n \<le> p"
  by (auto simp: assertPaidAmountWithinNet_def assertPaidInFull_def guard_def)

end
