(* ===== verification/RegistrationPayments.thy ===== *)
theory RegistrationPayments
  imports RegistrationRules
begin

text \<open>
  The payment writes on an existing registration: the administrator's partial update, the confirmation of a
  payment and the choice of a payment method (\<open>registrations.payments.service.ts\<close>), and the upload of a
  payment proof (\<open>registrations.payment-proof.service.ts\<close>), with the row loaders
  (\<open>registrations.loaders.ts\<close>) and what a write does beside its own row
  (\<open>registrations.side-effects.ts\<close>). Each is one locking transaction; the file of a proof is a parameter.
\<close>

section \<open>Rows read with their event and form\<close>

record registration_for_mutation =
  rm_row :: registration_row
  rm_clientId :: string
  rm_status :: event_status
  rm_clientActive :: bool
  rm_enabledModules :: "string list option"

record registration_for_edit = registration_for_mutation +
  re_formSchema :: form_schema
  re_endDate :: date
  re_slug :: string

definition mutation_of :: "registration_row \<Rightarrow> access_event \<Rightarrow> registration_for_mutation" where
  "mutation_of r e = \<lparr>rm_row = r, rm_clientId = ae_clientId e, rm_status = pe_status e,
     rm_clientActive = pe_clientActive e, rm_enabledModules = pe_enabledModules e\<rparr>"

definition findRegistrationForMutation :: "access_db \<Rightarrow> string \<Rightarrow> registration_for_mutation option" where
  "findRegistrationForMutation s i =
    (case registration_of (ad_settle s) i of None \<Rightarrow> None
     | Some r \<Rightarrow> map_option (mutation_of r) (event_of s (rg_eventId r)))"

text \<open>The inner joins with the form and the event; the stored form schema is checked as it is read.\<close>

definition form_of :: "access_db \<Rightarrow> string \<Rightarrow> form_row option" where
  "form_of s i = row_of fm_id i (ad_forms s)"

definition findRegistrationWithFormEvent ::
  "pricing_env \<Rightarrow> access_db \<Rightarrow> string \<Rightarrow> error + registration_for_edit option" where
  "findRegistrationWithFormEvent env s i =
    (case registration_of (ad_settle s) i of None \<Rightarrow> Inr None
     | Some r \<Rightarrow>
       (case (form_of s (rg_formId r), event_of s (rg_eventId r)) of
          (Some f, Some e) \<Rightarrow>
            sbind (readFormSchema env (fm_schema f)) (\<lambda>schema.
            Inr (Some (registration_for_mutation.extend (mutation_of r e)
              \<lparr>re_formSchema = schema, re_endDate = pe_endDate e, re_slug = ae_slug e\<rparr>)))
        | _ \<Rightarrow> Inr None))"

definition requireRegistration :: "'a option \<Rightarrow> error + 'a" where
  "requireRegistration r = (case r of None \<Rightarrow> Inl registration_not_found | Some x \<Rightarrow> Inr x)"

definition lockRegistrationForMutation :: "string \<Rightarrow> access_db \<Rightarrow> error + registration_for_mutation" where
  "lockRegistrationForMutation i s =
    requireRegistration
      (if lockRegistrationForUpdate (ad_settle s) i then findRegistrationForMutation s i else None)"

definition loadRegistrationForPublicAction ::
  "pricing_env \<Rightarrow> string \<Rightarrow> access_db \<Rightarrow> error + registration_for_edit" where
  "loadRegistrationForPublicAction env i s =
    sbind (findRegistrationWithFormEvent env s i) requireRegistration"

definition lockRegistrationForPublicAction ::
  "pricing_env \<Rightarrow> string \<Rightarrow> access_db \<Rightarrow> error + registration_for_edit" where
  "lockRegistrationForPublicAction env i s =
    (if lockRegistrationForUpdate (ad_settle s) i
     then sbind (findRegistrationWithFormEvent env s i) requireRegistration
     else requireRegistration None)"

section \<open>Writing through the settlement tables\<close>

text \<open>
  The settlement's statements run on the view of its tables; \<open>put_settle\<close> stores what they leave, the
  counters of the access items included.
\<close>

definition put_settle :: "db \<Rightarrow> access_db \<Rightarrow> access_db" where
  "put_settle d s = s\<lparr>
     ad_items := map2 (\<lambda>a r. access_row.extend a (access_row.more r)) (db_accesses d) (ad_items s),
     ad_settle := d\<lparr>db_events := [], db_accesses := []\<rparr>\<rparr>"

definition in_settle :: "(db \<Rightarrow> error + 'a \<times> db) \<Rightarrow> access_db \<Rightarrow> error + 'a \<times> access_db" where
  "in_settle f s = sbind (f (settle_view s)) (\<lambda>(x, d). Inr (x, put_settle d s))"

section \<open>Side effects\<close>

definition syncPaidCount ::
  "string \<Rightarrow> string \<Rightarrow> price_breakdown \<Rightarrow> payment_status \<Rightarrow> payment_status \<Rightarrow> db \<Rightarrow> error + db" where
  "syncPaidCount i eventId pb oldStatus newStatus s =
    (let hasSponsoredSeats = list_ex (\<lambda>st. st = PARTIAL \<or> st = VERIFYING) [oldStatus, newStatus];
         covered = (if hasSponsoredSeats then uniq (getRegistrationCoveredAccessIds s i None) else [])
     in syncPaidCountDelta eventId
          \<lparr>ps_status = oldStatus, ps_priceBreakdown = pb, ps_coveredAccessIds = covered\<rparr>
          \<lparr>ps_status = newStatus, ps_priceBreakdown = pb, ps_coveredAccessIds = covered\<rparr> s)"

definition audit :: "string \<Rightarrow> string \<Rightarrow> audit_change list \<Rightarrow> string option \<Rightarrow> db \<Rightarrow> db" where
  "audit entityId action changes performedBy s =
    insertAuditLog \<lparr>au_entityType = ''Registration'', au_entityId = entityId, au_action = action,
      au_changes = changes, au_performedBy = performedBy, au_ipAddress = None\<rparr> s"

fun text_value :: "string option \<Rightarrow> audit_value" where
  "text_value None = Av_null"
| "text_value (Some t) = Av_text t"

section \<open>Partial update\<close>

record update_registration_input =
  ui_paymentStatus :: "payment_status option"
  ui_paidAmount :: "money option"
  ui_paymentMethod :: "payment_method option"
  ui_paymentReference :: "string option"
  ui_paymentProofUrl :: "string option"
  ui_note :: "string option option"
  ui_role :: "registration_role option"

definition empty_update :: update_registration_input where
  "empty_update = \<lparr>ui_paymentStatus = None, ui_paidAmount = None, ui_paymentMethod = None,
     ui_paymentReference = None, ui_paymentProofUrl = None, ui_note = None, ui_role = None\<rparr>"

text \<open>The amount to write: the one given, else for PAID the net; checked against the currency and the net.\<close>

definition update_paid_amount ::
  "(string \<Rightarrow> nat option) \<Rightarrow> update_registration_input \<Rightarrow> registration_row \<Rightarrow> error + money option" where
  "update_paid_amount icu input r =
    (let net = sbind (calculateSettlement (rg_totalAmount r) (rg_paidAmount r) (rg_sponsorshipAmount r))
           (\<lambda>a. Inr (sa_netAmount a)) in
     sbind (case ui_paidAmount input of
         Some v \<Rightarrow> Inr (Some v)
       | None \<Rightarrow> if ui_paymentStatus input = Some PAID then sbind net (\<lambda>n. Inr (Some n)) else Inr None) (\<lambda>paidAmount.
     case paidAmount of
       None \<Rightarrow> Inr None
     | Some v \<Rightarrow>
         sbind (assertMoneyPrecision icu (rg_currency r) [Some v]) (\<lambda>_.
         sbind net (\<lambda>n.
         sbind (assertPaidAmountWithinNet v n) (\<lambda>_.
         Inr (Some v))))))"

definition update_settlement ::
  "(string \<Rightarrow> nat option) \<Rightarrow> update_registration_input \<Rightarrow> registration_row \<Rightarrow> date \<Rightarrow> error + settlement_write" where
  "update_settlement icu input r now =
    sbind (case ui_paymentStatus input of None \<Rightarrow> Inr ()
       | Some st \<Rightarrow> validatePaymentTransition (rg_paymentStatus r) st) (\<lambda>_.
    sbind (update_paid_amount icu input r) (\<lambda>paidAmount.
    Inr (no_settlement\<lparr>sw_paymentStatus := ui_paymentStatus input,
      sw_paidAt := (if isFullySettled (ui_paymentStatus input) \<and> rg_paidAt r = None then Some (Some now) else None),
      sw_paidAmount := paidAmount\<rparr>)))"

definition update_fields :: "update_registration_input \<Rightarrow> fields_patch" where
  "update_fields input = no_fields\<lparr>
     fp_paymentMethod := map_option Some (ui_paymentMethod input),
     fp_paymentReference := map_option Some (ui_paymentReference input),
     fp_paymentProofUrl := map_option Some (ui_paymentProofUrl input),
     fp_note := ui_note input, fp_role := ui_role input\<rparr>"

text \<open>One entry per field given with another value than the stored one.\<close>

definition change_of :: "string \<Rightarrow> ('a \<Rightarrow> audit_value) \<Rightarrow> 'a option \<Rightarrow> 'a \<Rightarrow> audit_change list" where
  "change_of name value given stored =
    (case given of None \<Rightarrow> []
     | Some v \<Rightarrow> if v \<noteq> stored then [Changed name (value stored) (value v)] else [])"

definition update_changes ::
  "update_registration_input \<Rightarrow> settlement_write \<Rightarrow> registration_row \<Rightarrow> audit_change list" where
  "update_changes input settlement r =
     change_of ''note'' text_value (ui_note input) (rg_note r)
   @ change_of ''paymentStatus'' Av_status (ui_paymentStatus input) (rg_paymentStatus r)
   @ change_of ''paidAmount'' Av_money (sw_paidAmount settlement) (rg_paidAmount r)
   @ change_of ''paymentMethod'' Av_method (map_option Some (ui_paymentMethod input)) (rg_paymentMethod r)
   @ change_of ''role'' Av_role (ui_role input) (rg_role r)"

definition status_changed :: "payment_status option \<Rightarrow> registration_row \<Rightarrow> bool" where
  "status_changed st r \<longleftrightarrow> st \<noteq> None \<and> st \<noteq> Some (rg_paymentStatus r)"

text \<open>The statements after the checks, on the settlement tables.\<close>

definition update_statements ::
  "string \<Rightarrow> update_registration_input \<Rightarrow> settlement_write \<Rightarrow> string option \<Rightarrow> registration_for_mutation
    \<Rightarrow> db \<Rightarrow> error + unit \<times> db" where
  "update_statements i input settlement performedBy m d =
    (let r = rm_row m; changed = status_changed (ui_paymentStatus input) r;
         changes = update_changes input settlement r in
     sbind (applyRegistrationSettlement i settlement (update_fields input) None d) (\<lambda>(_, d1).
     sbind (if changed then syncPaidCount i (rg_eventId r) (rg_priceBreakdown r) (rg_paymentStatus r)
              (the (ui_paymentStatus input)) d1
            else Inr d1) (\<lambda>d2.
     let d3 = (if 0 < length changes then audit i ''UPDATE'' changes performedBy d2 else d2)
     in Inr ((), emitSettlementEvents (settlementEventPair i (rg_eventId r) (rm_clientId m) (rg_paymentStatus r)
          (ui_paymentStatus input) changed []) d3))))"

text \<open>The read behind the answer of an empty request: the row joined with its form and event.\<close>

definition getRegistrationByIdRow :: "access_db \<Rightarrow> string \<Rightarrow> registration_row option" where
  "getRegistrationByIdRow s i =
    (case registration_of (ad_settle s) i of None \<Rightarrow> None
     | Some r \<Rightarrow> if form_of s (rg_formId r) \<noteq> None \<and> event_of s (rg_eventId r) \<noteq> None then Some r else None)"

definition updateRegistration ::
  "pricing_env \<Rightarrow> string \<Rightarrow> update_registration_input \<Rightarrow> string option \<Rightarrow> access_db \<Rightarrow> error + unit \<times> access_db" where
  "updateRegistration env i input performedBy s =
    (if input = empty_update
     then (case getRegistrationByIdRow s i of None \<Rightarrow> Inl registration_not_found | Some _ \<Rightarrow> Inr ((), s))
     else
       sbind (lockRegistrationForMutation i s) (\<lambda>m.
       sbind (assertEventWritable (rm_status m)) (\<lambda>_.
       sbind (assertModuleEnabledForClient (rm_clientActive m) (rm_enabledModules m) ''registrations'') (\<lambda>_.
       sbind (update_settlement (px_icu env) input (rm_row m) (db_clock (ad_settle s))) (\<lambda>settlement.
       in_settle (update_statements i input settlement performedBy m) s)))))"

section \<open>Confirmation of a payment\<close>

record update_payment_input =
  yi_paymentStatus :: payment_status
  yi_paidAmount :: "money option"
  yi_paymentMethod :: "payment_method option"
  yi_paymentReference :: "string option"
  yi_paymentProofUrl :: "string option"

definition confirm_decision ::
  "(string \<Rightarrow> nat option) \<Rightarrow> update_payment_input \<Rightarrow> string \<Rightarrow> date \<Rightarrow> settlement_decision_input
    \<Rightarrow> error + settlement_decision option" where
  "confirm_decision icu input currency now state =
    (let net = di_net state; paidAmount = set_or (yi_paidAmount input) net in
     sbind (assertMoneyPrecision icu currency [Some paidAmount]) (\<lambda>_.
     sbind (assertPaidAmountWithinNet paidAmount net) (\<lambda>_.
     sbind (if yi_paymentStatus input = PAID then assertPaidInFull paidAmount net else Inr ()) (\<lambda>_.
     Inr (Some \<lparr>sd_paymentStatus = Some (yi_paymentStatus input), sd_paidAmount = Some paidAmount,
       sd_paidAt = (if isFullySettled (Some (yi_paymentStatus input)) then Some (Some now) else None)\<rparr>)))))"

definition given_or :: "'a option \<Rightarrow> 'a option \<Rightarrow> 'a option" where
  "given_or v stored = (case v of None \<Rightarrow> stored | Some x \<Rightarrow> Some x)"

definition confirm_options ::
  "(string \<Rightarrow> nat option) \<Rightarrow> update_payment_input \<Rightarrow> registration_row \<Rightarrow> date \<Rightarrow> settle_options" where
  "confirm_options icu input r now = no_options\<lparr>
     so_decide := Some (confirm_decision icu input (rg_currency r) now),
     so_fields := no_fields\<lparr>
       fp_paymentMethod := Some (given_or (yi_paymentMethod input) (rg_paymentMethod r)),
       fp_paymentReference := Some (given_or (yi_paymentReference input) (rg_paymentReference r)),
       fp_paymentProofUrl := Some (given_or (yi_paymentProofUrl input) (rg_paymentProofUrl r))\<rparr>\<rparr>"

definition catch_access :: "error + 'a \<Rightarrow> error + 'a" where
  "catch_access x = (case x of Inl e \<Rightarrow> Inl (toAccessAppException e) | Inr y \<Rightarrow> Inr y)"

definition confirm_events ::
  "string \<Rightarrow> update_payment_input \<Rightarrow> registration_for_mutation \<Rightarrow> settle_result \<Rightarrow> app_event list" where
  "confirm_events i input m settled =
    (let r = rm_row m; st = yi_paymentStatus input;
         wasSettled = isFullySettled (Some (rg_paymentStatus r)); isSettled = isFullySettled (Some st);
         moved = pm_incremented (sr_paidAccess settled) @ pm_decremented (sr_paidAccess settled)
     in (if \<not> wasSettled \<and> isSettled then Registration_paymentConfirmed (rm_clientId m) (rg_eventId r) i st
         else Registration_updated (rm_clientId m) (rg_eventId r) i st)
        # (if wasSettled \<noteq> isSettled \<or> 0 < length moved
           then [EventAccess_countsChanged (rm_clientId m) (rg_eventId r)
             (uniq (map li_accessId (pb_accessItems (rg_priceBreakdown r)) @ moved))]
           else []))"

definition confirm_effects ::
  "string \<Rightarrow> update_payment_input \<Rightarrow> string option \<Rightarrow> string option \<Rightarrow> registration_for_mutation \<Rightarrow> settle_result
    \<Rightarrow> db \<Rightarrow> db" where
  "confirm_effects i input performedBy ipAddress m settled d1 =
    (let r = rm_row m;
         d2 = snd (handleCapacityReached (rg_eventId r) (pm_incremented (sr_paidAccess settled)) d1);
         d3 = insertAuditLog \<lparr>au_entityType = ''Registration'', au_entityId = i,
           au_action = ''PAYMENT_CONFIRMED'',
           au_changes = [Changed ''paymentStatus'' (Av_status (rg_paymentStatus r)) (Av_status (yi_paymentStatus input)),
             Changed ''paidAmount'' (Av_money (rg_paidAmount r)) (Av_money (ss_paidAmount (sr_after settled))),
             Changed ''paymentMethod'' (Av_method (rg_paymentMethod r))
               (Av_method (given_or (yi_paymentMethod input) (rg_paymentMethod r)))],
           au_performedBy = performedBy, au_ipAddress = ipAddress\<rparr> d2;
         d4 = emitSettlementEvents (confirm_events i input m settled) d3
     in (if yi_paymentStatus input = PAID \<and> rg_paymentStatus r \<noteq> PAID
         then snd (enqueueTriggeredEmailOutbox ''PAYMENT_CONFIRMED'' (rg_eventId r) i
           (''email:triggered:PAYMENT_CONFIRMED:'' @ i) d4)
         else d4))"

definition confirm_statements ::
  "(string \<Rightarrow> nat option) \<Rightarrow> string \<Rightarrow> update_payment_input \<Rightarrow> string option \<Rightarrow> string option
    \<Rightarrow> registration_for_mutation \<Rightarrow> db \<Rightarrow> error + unit \<times> db" where
  "confirm_statements icu i input performedBy ipAddress m d =
    sbind (catch_access (settleRegistrationTxn icu i (confirm_options icu input (rm_row m) (db_clock d)) d))
      (\<lambda>(settled, d1).
    case settled of
      None \<Rightarrow> Inl registration_not_found
    | Some res \<Rightarrow> Inr ((), confirm_effects i input performedBy ipAddress m res d1))"

definition confirmPayment ::
  "pricing_env \<Rightarrow> string \<Rightarrow> update_payment_input \<Rightarrow> string option \<Rightarrow> string option \<Rightarrow> access_db
    \<Rightarrow> error + unit \<times> access_db" where
  "confirmPayment env i input performedBy ipAddress s =
    sbind (lockRegistrationForMutation i s) (\<lambda>m.
    sbind (assertEventWritable (rm_status m)) (\<lambda>_.
    sbind (assertModuleEnabledForClient (rm_clientActive m) (rm_enabledModules m) ''registrations'') (\<lambda>_.
    sbind (validatePaymentTransition (rg_paymentStatus (rm_row m)) (yi_paymentStatus input)) (\<lambda>_.
    in_settle (confirm_statements (px_icu env) i input performedBy ipAddress m) s))))"

section \<open>Choice of a payment method\<close>

text \<open>The public request can name CASH only; a laboratory left from an earlier method is cleared.\<close>

definition SelectPaymentMethodSchema :: "payment_method \<Rightarrow> bool" where
  "SelectPaymentMethodSchema m \<longleftrightarrow> m = CASH"

definition select_statements ::
  "string \<Rightarrow> payment_method \<Rightarrow> registration_row \<Rightarrow> db \<Rightarrow> error + unit \<times> db" where
  "select_statements i paymentMethod r d =
    sbind (applyRegistrationSettlement i (no_settlement\<lparr>sw_paymentStatus := Some (rg_paymentStatus r)\<rparr>)
        (no_fields\<lparr>fp_paymentMethod := Some (Some paymentMethod), fp_labName := Some None\<rparr>) None d) (\<lambda>(_, d1).
    Inr ((), audit i ''PAYMENT_METHOD_SELECTED''
      (Changed ''paymentMethod'' (Av_method (rg_paymentMethod r)) (Av_method (Some paymentMethod))
       # (if rg_labName r \<noteq> None then [Changed ''labName'' (text_value (rg_labName r)) Av_null] else []))
      (Some ''PUBLIC'') d1))"

definition selectPaymentMethod ::
  "pricing_env \<Rightarrow> string \<Rightarrow> payment_method \<Rightarrow> access_db \<Rightarrow> error + unit \<times> access_db" where
  "selectPaymentMethod env i paymentMethod s =
    sbind (lockRegistrationForPublicAction env i s) (\<lambda>m.
    sbind (assertEventAcceptsPublicActions (rm_status m) (re_endDate m) (db_clock (ad_settle s))) (\<lambda>_.
    sbind (assertModuleEnabledForClient (rm_clientActive m) (rm_enabledModules m) ''registrations'') (\<lambda>_.
    sbind (guard (rg_paymentStatus (rm_row m) = PENDING \<or> rg_paymentStatus (rm_row m) = PARTIAL)
      (App_exception ''REGISTRATION_INVALID_STATUS'' 400)) (\<lambda>_.
    in_settle (select_statements i paymentMethod (rm_row m)) s))))"

section \<open>Payment proof\<close>

definition ALLOWED_MIME_TYPES :: "string list" where
  "ALLOWED_MIME_TYPES = [''image/png'', ''image/jpeg'', ''image/webp'', ''application/pdf'']"

definition MAX_FILE_SIZE :: nat where
  "MAX_FILE_SIZE = 10 * 1024 * 1024"

text \<open>
  A file: the type its sender names, the type its bytes show (\<open>file-type\<close>), its size, the key of the object
  it is stored under, and the address the object store returns, None when the upload fails. \<open>owned\<close> is
  the key of an address that lies under the registration's own prefix.
\<close>

record proof_file =
  pf_mimetype :: string
  pf_detected :: "string option"
  pf_length :: nat
  pf_key :: string
  pf_fileUrl :: "string option"

definition proof_type_checks :: "proof_file \<Rightarrow> error + unit" where
  "proof_type_checks f =
    sbind (guard (pf_mimetype f \<in> set ALLOWED_MIME_TYPES) (App_exception ''INVALID_FILE_TYPE'' 400)) (\<lambda>_.
    sbind (case pf_detected f of None \<Rightarrow> Inl (App_exception ''INVALID_FILE_TYPE'' 400)
       | Some t \<Rightarrow> guard (t \<in> set ALLOWED_MIME_TYPES) (App_exception ''INVALID_FILE_TYPE'' 400)) (\<lambda>_.
    guard (\<not> MAX_FILE_SIZE < pf_length f) (App_exception ''FILE_TOO_LARGE'' 400)))"

definition proof_state_checks :: "date \<Rightarrow> registration_for_edit \<Rightarrow> error + unit" where
  "proof_state_checks now m =
    sbind (assertEventAcceptsPublicActions (rm_status m) (re_endDate m) now) (\<lambda>_.
    sbind (assertModuleEnabledForClient (rm_clientActive m) (rm_enabledModules m) ''registrations'') (\<lambda>_.
    validatePaymentTransition (rg_paymentStatus (rm_row m)) VERIFYING))"

definition proof_statements :: "string \<Rightarrow> string \<Rightarrow> string \<Rightarrow> registration_row \<Rightarrow> db \<Rightarrow> error + unit \<times> db" where
  "proof_statements i eventId fileUrl r d =
    sbind (applyRegistrationSettlement i (no_settlement\<lparr>sw_paymentStatus := Some VERIFYING\<rparr>)
        (no_fields\<lparr>fp_paymentProofUrl := Some (Some fileUrl), fp_paymentMethod := Some (Some BANK_TRANSFER)\<rparr>)
        None d) (\<lambda>(_, d1).
    let d2 = audit i ''PAYMENT_PROOF_UPLOADED''
      [Changed ''paymentStatus'' (Av_status (rg_paymentStatus r)) (Av_status VERIFYING),
       Changed ''paymentProofUrl'' (text_value (rg_paymentProofUrl r)) (Av_text fileUrl)] (Some ''PUBLIC'') d1
    in Inr ((), snd (enqueueTriggeredEmailOutbox ''PAYMENT_PROOF_SUBMITTED'' eventId i
         (''email:triggered:PAYMENT_PROOF_SUBMITTED:'' @ i) d2)))"

text \<open>The second transaction; its result is the address the new proof replaces.\<close>

definition proof_txn ::
  "pricing_env \<Rightarrow> string \<Rightarrow> string \<Rightarrow> string \<Rightarrow> access_db \<Rightarrow> error + string option \<times> access_db" where
  "proof_txn env i eventId fileUrl s =
    sbind (lockRegistrationForPublicAction env i s) (\<lambda>m.
    sbind (proof_state_checks (db_clock (ad_settle s)) m) (\<lambda>_.
    sbind (in_settle (proof_statements i eventId fileUrl (rm_row m)) s) (\<lambda>(_, s').
    Inr (rg_paymentProofUrl (rm_row m), s'))))"

text \<open>The answer, the tables, and the keys of the objects deleted from the store.\<close>

definition uploadPaymentProof ::
  "pricing_env \<Rightarrow> (string \<Rightarrow> string option) \<Rightarrow> string \<Rightarrow> proof_file \<Rightarrow> access_db \<Rightarrow> access_db
    \<Rightarrow> (error + string) \<times> access_db \<times> string list" where
  "uploadPaymentProof env owned i f s0 s =
    (case sbind (proof_type_checks f) (\<lambda>_.
          sbind (loadRegistrationForPublicAction env i s0) (\<lambda>m.
          sbind (proof_state_checks (db_clock (ad_settle s0)) m) (\<lambda>_.
          case pf_fileUrl f of None \<Rightarrow> Inl (App_exception ''INTERNAL_ERROR'' 500)
          | Some url \<Rightarrow> Inr (rg_eventId (rm_row m), url)))) of
       Inl e \<Rightarrow> (Inl e, s, [])
     | Inr (eventId, fileUrl) \<Rightarrow>
        (case proof_txn env i eventId fileUrl s of
           Inl e \<Rightarrow> (Inl e, s, [pf_key f])
         | Inr (replaced, s') \<Rightarrow>
             (Inr fileUrl, s',
              (case replaced of None \<Rightarrow> []
               | Some url \<Rightarrow> if url \<noteq> [] \<and> url \<noteq> fileUrl
                   then (case owned url of None \<Rightarrow> [] | Some key \<Rightarrow> [key]) else []))))"

end
