(* ===== verification/RegistrationKept.thy ===== *)
theory RegistrationKept
  imports RegistrationPayments
begin

text \<open>
  What the statements of a registration write keep: the settlement invariant of theory Conservation, the
  other registrations, and the tables the settlement does not write.
\<close>

section \<open>The view of the settlement tables\<close>

lemma truncate_extend [simp]: "access_row.truncate (access_row.extend a m) = (a :: access_row)"
  by (simp add: access_row.truncate_def access_row.extend_def)

lemma truncate_put: "length A = length I \<Longrightarrow>
    map access_row.truncate (map2 (\<lambda>a r. access_row.extend a (access_row.more r)) A I) = A"
  by (induction A I rule: list_induct2) simp_all

lemma settle_view_put:
  assumes "length (db_accesses d) = length (ad_items s)" and "db_events d = db_events (settle_view s)"
  shows "settle_view (put_settle d s) = d"
  using assms truncate_put[OF assms(1)] by (simp add: settle_view_def put_settle_def)

definition kept :: "db \<Rightarrow> db \<Rightarrow> bool" where
  "kept d d' \<longleftrightarrow> preserved d d' \<and> db_events d' = db_events d"

lemma kept_refl: "store_ok d \<Longrightarrow> kept d d"
  by (simp add: kept_def preserved_refl)

lemma kept_trans: "kept d t \<Longrightarrow> kept t u \<Longrightarrow> kept d u"
  using preserved_trans by (auto simp: kept_def)

lemma kept_ok: "kept d d' \<Longrightarrow> store_ok d'"
  by (simp add: kept_def preserved_def)

lemma same_store_kept: "store_ok d \<Longrightarrow> same_store d d' \<Longrightarrow> kept d d'"
  using same_store_preserved same_store_fields by (auto simp: kept_def)

lemma same_store_capacity [simp]: "same_store d (snd (handleCapacityReached e ids d))"
  using snd_handleCapacityReached[of e ids d] same_store_drops[of d e ids Capacity_reached] by (simp only:)

lemma same_store_reg_audit [simp]: "same_store d (audit i a cs who d)"
  by (simp add: audit_def)

lemma registrations_view [simp]:
  "db_registrations (settle_view s) = db_registrations (ad_settle s)"
  "registration_of (settle_view s) i = registration_of (ad_settle s) i"
  "db_clock (settle_view s) = db_clock (ad_settle s)"
  by (simp_all add: settle_view_def registration_of_def)

lemma in_settle_Inr:
  assumes "in_settle f s = Inr (x, s')"
    and "\<And>d. f (settle_view s) = Inr (x, d) \<Longrightarrow> kept (settle_view s) d"
  obtains d where "f (settle_view s) = Inr (x, d)" "settle_view s' = d" "kept (settle_view s) d"
    "db_registrations (ad_settle s') = db_registrations d"
    "ad_events s' = ad_events s" "ad_forms s' = ad_forms s" "ad_edges s' = ad_edges s" "ad_pricing s' = ad_pricing s"
proof -
  from assms(1) obtain d where d: "f (settle_view s) = Inr (x, d)" and s': "s' = put_settle d s"
    by (auto simp: in_settle_def sbind_Inr_iff split: prod.splits)
  note k = assms(2)[OF d]
  have "map ea_id (db_accesses d) = map ea_id (db_accesses (settle_view s))" using k by (simp add: kept_def preserved_def)
  then have "length (db_accesses d) = length (db_accesses (settle_view s))" by (metis length_map)
  then have "settle_view s' = d"
    unfolding s' using k by (intro settle_view_put) (simp_all add: kept_def settle_view_def)
  with d k show ?thesis
    by (intro that[OF d]) (simp_all add: s' put_settle_def)
qed

section \<open>A write without a breakdown\<close>

lemma set_columns_amounts:
  "build_set w f = Inr c \<Longrightarrow> sw_priceBreakdown w = None \<Longrightarrow>
    rg_priceBreakdown (set_columns c now r) = rg_priceBreakdown r \<and>
    rg_paymentStatus (set_columns c now r) = or_stored (sw_paymentStatus w) (rg_paymentStatus r) \<and>
    rg_paidAmount (set_columns c now r) = or_stored (sw_paidAmount w) (rg_paidAmount r) \<and>
    rg_totalAmount (set_columns c now r) = or_stored (sw_totalAmount w) (rg_totalAmount r) \<and>
    rg_sponsorshipAmount (set_columns c now r) = or_stored (sw_sponsorshipAmount w) (rg_sponsorshipAmount r) \<and>
    rg_eventId (set_columns c now r) = rg_eventId r"
  by (auto simp: build_set_def set_columns_def Let_def or_stored_def)

definition with_status :: "payment_status \<Rightarrow> paid_access_state \<Rightarrow> paid_access_state" where
  "with_status st p = p\<lparr>ps_status := st\<rparr>"

text \<open>A write of the row of \<open>i\<close>: what it was, what it is, and what the counters are off by since.\<close>

definition written :: "string \<Rightarrow> settlement_write \<Rightarrow> db \<Rightarrow> db \<Rightarrow> registration_row \<Rightarrow> registration_row \<Rightarrow> bool" where
  "written i w d d' r r' \<longleftrightarrow> registration_of d i = Some r \<and> registration_of d' i = Some r' \<and>
    rg_paymentStatus r' = or_stored (sw_paymentStatus w) (rg_paymentStatus r) \<and>
    rg_paidAmount r' = or_stored (sw_paidAmount w) (rg_paidAmount r) \<and>
    rg_totalAmount r' = or_stored (sw_totalAmount w) (rg_totalAmount r) \<and>
    rg_sponsorshipAmount r' = or_stored (sw_sponsorshipAmount w) (rg_sponsorshipAmount r) \<and>
    rg_priceBreakdown r' = rg_priceBreakdown r \<and> rg_eventId r' = rg_eventId r \<and>
    (sw_paidAmount w \<noteq> None \<longrightarrow> rg_paidAmount r' \<le> max 0 (rg_totalAmount r' - rg_sponsorshipAmount r')) \<and>
    (\<forall>j. j \<noteq> i \<longrightarrow> registration_of d' j = registration_of d j) \<and>
    d' = d\<lparr>db_registrations := db_registrations d'\<rparr> \<and>
    map rg_id (db_registrations d') = map rg_id (db_registrations d) \<and>
    (\<forall>k. discrepancy d' k = discrepancy d k + held (registration_state d r) k
      - held (with_status (rg_paymentStatus r') (registration_state d r)) k)"

lemma writtenD:
  assumes "written i w d d' r r'"
  shows "registration_of d i = Some r" "registration_of d' i = Some r'"
    "rg_paymentStatus r' = or_stored (sw_paymentStatus w) (rg_paymentStatus r)"
    "rg_paidAmount r' = or_stored (sw_paidAmount w) (rg_paidAmount r)"
    "rg_totalAmount r' = or_stored (sw_totalAmount w) (rg_totalAmount r)"
    "rg_sponsorshipAmount r' = or_stored (sw_sponsorshipAmount w) (rg_sponsorshipAmount r)"
    "rg_priceBreakdown r' = rg_priceBreakdown r" "rg_eventId r' = rg_eventId r"
    "sw_paidAmount w \<noteq> None \<Longrightarrow> rg_paidAmount r' \<le> max 0 (rg_totalAmount r' - rg_sponsorshipAmount r')"
    "j \<noteq> i \<Longrightarrow> registration_of d' j = registration_of d j"
    "map rg_id (db_registrations d') = map rg_id (db_registrations d)"
    "discrepancy d' k = discrepancy d k + held (registration_state d r) k
      - held (with_status (rg_paymentStatus r') (registration_state d r)) k"
  using assms unfolding written_def by blast+

lemma write_row:
  assumes ok: "store_ok d" and run: "applyRegistrationSettlement i w f None d = Inr (b, d')"
    and pb: "sw_priceBreakdown w = None" and ex: "registration_of d i \<noteq> None"
  obtains r r' where "written i w d d' r r'"
proof -
  have "b" using applyRegistrationSettlement_missing[of i w f d d'] run ex by (cases b) auto
  then have run: "applyRegistrationSettlement i w f None d = Inr (True, d')" using run by simp
  have dist: "distinct (map rg_id (db_registrations d))" using ok by (simp add: store_ok_def db_wf_def)
  obtain c r where c: "build_set w f = Inr c" and r: "registration_of d i = Some r"
    and r': "registration_of d' i = Some (set_columns c (db_clock d) r)"
    and oth: "\<And>j. j \<noteq> i \<Longrightarrow> registration_of d' j = registration_of d j"
    and regs: "db_registrations d' = update_rows (row_hit i None) (set_columns c (db_clock d)) (db_registrations d)"
    and d': "d' = d\<lparr>db_registrations := db_registrations d'\<rparr>"
    and inv: "settlementInvariantViolations (set_columns c (db_clock d) r)
        (filter (column_written c) SETTLEMENT_COLUMNS) = Inr []"
    by (rule applyRegistrationSettlement_row[OF dist run]) blast
  let ?r' = "set_columns c (db_clock d) r"
  note am = set_columns_amounts[OF c pb]
  have cw: "cs_settlement c = w" using c by (auto simp: build_set_def sbind_Inr_iff)
  have paid: "sw_paidAmount w \<noteq> None \<longrightarrow> rg_paidAmount ?r' \<le> max 0 (rg_totalAmount ?r' - rg_sponsorshipAmount ?r')"
    using settlementInvariantViolations_Nil[OF inv] cw by simp
  have cov: "coverages d' j = coverages d j" for j
    by (rule coverages_tables) (subst d', simp)+
  have paid_same: "paid_count d' k = paid_count d k" for k
    by (subst d') (simp add: paid_count_def access_of_def)
  have st: "registration_state d' x = registration_state d x" for x
    by (simp add: registration_state_def coveredAccessIdsOf_coverages cov)
  have idr: "rg_id r = i" by (rule registration_of_key[OF r])
  have new: "held (registration_state d ?r') k = held (with_status (rg_paymentStatus ?r') (registration_state d r)) k" for k
    by (simp add: registration_state_def with_status_def am idr)
  have "places_held d' k = places_held d k + held (registration_state d ?r') k - held (registration_state d r) k" for k
    unfolding places_held_def st regs row_hit_None
    by (rule sum_update_rows[where key = rg_id]) (use dist r in \<open>simp_all add: registration_of_def\<close>)
  then have disc: "discrepancy d' k = discrepancy d k + held (registration_state d r) k
      - held (with_status (rg_paymentStatus ?r') (registration_state d r)) k" for k
    by (simp add: discrepancy_def paid_same new)
  have keys: "map rg_id (db_registrations d') = map rg_id (db_registrations d)"
    by (simp add: regs keys_update_rows)
  show ?thesis
    by (rule that[of r ?r']) (use paid in \<open>simp add: written_def r r' am oth d'[symmetric] keys disc\<close>)
qed

lemma written_store:
  assumes "store_ok d" and "written i w d d' r r'"
  shows "store_ok d' \<and> map ea_id (db_accesses d') = map ea_id (db_accesses d) \<and>
    map sp_id (db_sponsorships d') = map sp_id (db_sponsorships d) \<and> db_events d' = db_events d \<and>
    (\<forall>j. coverages d' j = coverages d j) \<and> same_owners d d' \<and> usages_known d' = usages_known d"
proof -
  have d': "d' = d\<lparr>db_registrations := db_registrations d'\<rparr>"
    and keys: "map rg_id (db_registrations d') = map rg_id (db_registrations d)"
    using assms(2) by (simp_all add: written_def)
  have f: "db_accesses d' = db_accesses d" "db_usages d' = db_usages d" "db_sponsorships d' = db_sponsorships d"
    "db_ids d' = db_ids d" "db_events d' = db_events d" by (subst d', simp)+
  have "coverages d' j = coverages d j" for j by (rule coverages_tables[OF f(2,3)])
  moreover have "store_ok d'"
    using assms(1) by (simp add: store_ok_def db_wf_def accesses_ok_def accesses_wf_def f keys)
  moreover have "same_owners d d'"
    by (rule same_owners_one[of i]) (use assms(2) in \<open>simp_all add: written_def\<close>)
  moreover have "usages_known d' = usages_known d" by (rule usages_known_tables[OF keys f(2)])
  ultimately show ?thesis by (simp add: f)
qed

text \<open>A write that leaves the status keeps the counters true.\<close>

lemma written_same_status:
  assumes "store_ok d" and "written i w d d' r r'" and "rg_paymentStatus r' = rg_paymentStatus r"
  shows "kept d d'"
proof -
  have "with_status (rg_paymentStatus r') (registration_state d r) = registration_state d r"
    by (simp add: with_status_def registration_state_def assms(3))
  then show ?thesis
    using written_store[OF assms(1,2)] assms(2) by (simp add: kept_def preserved_def written_def)
qed

section \<open>The paid places of a status change\<close>

lemma covered_ids_set:
  "set (getRegistrationCoveredAccessIds d i None) = set (coveredAccessIdsOf d i)"
  unfolding getRegistrationCoveredAccessIds_def coveredAccessIdsOf_def covered_by_def findRegistrationUsagesForRecalc_def
  by (force simp: coverage_of_def split: option.splits)

lemma syncPaidCount_Inr:
  assumes "syncPaidCount i e pb old new d = Inr d'" and ok: "accesses_ok d"
  shows "\<exists>t. same_store (d\<lparr>db_accesses := t\<rparr>) d' \<and> map ea_id t = map ea_id (db_accesses d) \<and>
    accesses_ok (d\<lparr>db_accesses := t\<rparr>) \<and>
    (\<forall>k. paid_count (d\<lparr>db_accesses := t\<rparr>) k = paid_count d k
      + held \<lparr>ps_status = new, ps_priceBreakdown = pb, ps_coveredAccessIds = coveredAccessIdsOf d i\<rparr> k
      - held \<lparr>ps_status = old, ps_priceBreakdown = pb, ps_coveredAccessIds = coveredAccessIdsOf d i\<rparr> k)"
proof -
  let ?cov = "if list_ex (\<lambda>st. st = PARTIAL \<or> st = VERIFYING) [old, new]
    then uniq (getRegistrationCoveredAccessIds d i None) else []"
  let ?p = "\<lambda>st c. \<lparr>ps_status = st, ps_priceBreakdown = pb, ps_coveredAccessIds = c\<rparr>"
  from assms(1) obtain moves d1 where
    run: "applyPaidAccessDelta (?p old ?cov) (?p new ?cov) d = Inr (moves, d1)"
    and d': "d' = (if pm_incremented moves = [] then d1 else snd (handleCapacityReached e (pm_incremented moves) d1))"
    unfolding syncPaidCount_def syncPaidCountDelta_def Let_def by (auto split: sum.splits prod.splits)
  obtain t where t: "d1 = d\<lparr>db_accesses := t\<rparr>" "map ea_id t = map ea_id (db_accesses d)"
    using applyPaidAccessDelta_frame[OF run] by blast
  note pd = paid_access_delta[OF ok run]
  have held_cov: "held (?p st ?cov) k = held (?p st (coveredAccessIdsOf d i)) k" if "st = old \<or> st = new" for st k
    using that covered_ids_set[of d i] by (auto simp: held_def holds_place_def)
  have "same_store d1 d'" by (simp add: d')
  then show ?thesis
    using pd held_cov t by (intro exI[of _ t]) auto
qed

text \<open>A status change: the row is written, then the paid places follow.\<close>

lemma write_then_sync:
  assumes ok: "store_ok d" and w: "written i w d d1 r r'" 
    and sync: "syncPaidCount i e (rg_priceBreakdown r) (rg_paymentStatus r) (rg_paymentStatus r') d1 = Inr d2"
  shows "kept d d2 \<and> db_registrations d2 = db_registrations d1"
proof -
  note ws = written_store[OF ok w]
  have ok1: "accesses_ok d1" using ws by (simp add: store_ok_def)
  have cov: "coveredAccessIdsOf d1 i = coveredAccessIdsOf d i"
    using ws by (simp add: coveredAccessIdsOf_coverages)
  have idr: "rg_id r = i" using w registration_of_key by (force simp: written_def)
  obtain t where s2: "same_store (d1\<lparr>db_accesses := t\<rparr>) d2" and ids: "map ea_id t = map ea_id (db_accesses d1)"
    and acc: "accesses_ok (d1\<lparr>db_accesses := t\<rparr>)"
    and pc: "\<And>k. paid_count (d1\<lparr>db_accesses := t\<rparr>) k = paid_count d1 k
      + held (with_status (rg_paymentStatus r') (registration_state d r)) k - held (registration_state d r) k"
    using syncPaidCount_Inr[OF sync ok1]
    by (auto simp: cov registration_state_def with_status_def idr)
  let ?d = "d1\<lparr>db_accesses := t\<rparr>"
  have ok2: "store_ok ?d"
    using conjunct1[OF ws] acc by (simp add: store_ok_def db_wf_def accesses_ok_def accesses_wf_def ids)
  have ph: "places_held ?d k = places_held d1 k" for k
    by (simp add: places_held_def registration_state_def coveredAccessIdsOf_coverages
        coverages_tables[of ?d d1])
  have wd: "discrepancy d1 k = discrepancy d k + held (registration_state d r) k
      - held (with_status (rg_paymentStatus r') (registration_state d r)) k" for k
    using w unfolding written_def by blast
  have disc: "discrepancy ?d k = discrepancy d k" for k
    using pc[of k] wd[of k] ph[of k] by (simp add: discrepancy_def)
  have "kept d ?d"
    using ws w ids ok2 disc same_owners_trans[OF _ same_owners_rows[of ?d d1]]
    by (simp add: kept_def preserved_def written_def usages_known_iff)
  from kept_trans[OF this same_store_kept[OF ok2 s2]] show ?thesis
    using same_store_fields[OF s2] by simp
qed

section \<open>A settlement\<close>

lemma settle_kept:
  assumes ok: "store_ok d" and run: "settleRegistrationTxn icu i o' d = Inr (Some res, d')"
    and plain: "so_coveredAccessIdsBefore o' = None" and upd: "so_expectedUpdatedAt o' = None"
  shows "kept d d'"
proof -
  have w: "sr_written res" by (rule settle_written[OF run upd])
  have "db_wf d" using ok by (simp add: store_ok_def)
  then obtain row f a u where "d' = d\<lparr>db_registrations := update_rows (\<lambda>r. rg_id r = i) f (db_registrations d),
      db_accesses := a, db_usages := map u (db_usages d)\<rparr>"
    by (rule settle_effect[OF _ run w]) blast
  then have "db_events d' = db_events d" by simp
  with settle_plain_preserved[OF ok run plain] show ?thesis by (simp add: kept_def)
qed

text \<open>The row a settlement with a decision stores, and what the decision was made on.\<close>

lemma settle_decided:
  assumes ok: "store_ok d" and run: "settleRegistrationTxn icu i o' d = Inr (Some res, d')"
    and upd: "so_expectedUpdatedAt o' = None" and dec: "so_decide o' = Some decide"
  obtains r r' chosen where "registration_of d i = Some r" "registration_of d' i = Some r'"
    "rg_eventId r' = rg_eventId r" "stores r' (sr_after res)" "sr_before res = readSettlementRow r"
    "\<And>j. j \<noteq> i \<Longrightarrow> registration_of d' j = registration_of d j"
    "chosen_decision o' \<lparr>di_before = readSettlementRow r, di_gross = rg_totalAmount r',
      di_sponsorship = rg_sponsorshipAmount r',
      di_net = max 0 (rg_totalAmount r' - rg_sponsorshipAmount r')\<rparr> = Inr chosen"
    "rg_paidAmount r' = or_stored (sd_paidAmount chosen) (rg_paidAmount r)"
    "decided_status chosen (readSettlementRow r) (rg_totalAmount r') (rg_sponsorshipAmount r') (rg_paidAmount r')
      (or_stored (so_now o') (db_clock d)) = Inr (rg_paymentStatus r', rg_paidAt r')"
proof -
  have w: "sr_written res" by (rule settle_written[OF run upd])
  have wf: "db_wf d" using ok by (simp add: store_ok_def)
  obtain row f a u where row: "registration_of d i = Some row" and bef: "sr_before res = readSettlementRow row"
    and f: "\<And>r. rg_id (f r) = rg_id r" and st: "stores (f row) (sr_after res)"
    and r': "registration_of d' i = Some (f row)" and ev: "rg_eventId (f row) = rg_eventId row"
    and d': "d' = d\<lparr>db_registrations := update_rows (\<lambda>r. rg_id r = i) f (db_registrations d),
      db_accesses := a, db_usages := map u (db_usages d)\<rparr>"
    by (rule settle_effect[OF wf run w]) blast
  have oth: "registration_of d' j = registration_of d j" if "j \<noteq> i" for j
    using row_of_update_other[of rg_id f j i] f that by (simp add: registration_of_def d')
  obtain row2 sp cov s1 pb net chosen s2 wr where row2: "registration_of d i = Some row2"
    and rec: "recomputeRegistrationSponsorship i (or_stored (so_priceBreakdown o') (rg_priceBreakdown row2))
      (or_stored (so_keepUnlinkedSponsorship o') True) d = Inr ((sp, cov), s1)"
    and sp: "ss_sponsorshipAmount (sr_after res) = sp"
    and net: "so_decide o' \<noteq> None \<longrightarrow> net = ss_totalAmount (sr_after res) - sp"
    and ch: "chosen_decision o' \<lparr>di_before = sr_before res, di_gross = ss_totalAmount (sr_after res),
      di_sponsorship = sp, di_net = max 0 net\<rparr> = Inr chosen"
    and pa: "ss_paidAmount (sr_after res) = or_stored (sd_paidAmount chosen) (rg_paidAmount row2)"
    and de: "decided_status chosen (sr_before res) (ss_totalAmount (sr_after res)) sp
      (ss_paidAmount (sr_after res)) (or_stored (so_now o') (db_clock s1))
      = Inr (ss_paymentStatus (sr_after res), ss_paidAt (sr_after res))"
    by (rule settle_InrE[OF run w]) blast
  have same: "row2 = row" using row row2 by simp
  have "distinct (map us_id (db_usages d))" using wf by (simp add: db_wf_def)
  from recompute_Inr[OF this rec] have clock: "db_clock s1 = db_clock d" by simp
  note sel = st[unfolded stores_def]
  show ?thesis
    by (rule that[OF row r' ev st bef oth, of chosen])
      (use ch pa de net dec sel in \<open>simp_all add: same bef sp clock\<close>)
qed

end
