(* ===== verification/RegistrationPaid.thy ===== *)
theory RegistrationPaid
  imports RegistrationKept
begin

text \<open>
  What a committed payment write leaves: the transition it made was allowed, the counters of theory
  Conservation are kept, no other registration moved, and a confirmed PAID registration is paid in full.
\<close>

section \<open>The shape of a write\<close>

text \<open>
  From \<open>s\<close> to \<open>s'\<close> only the registration \<open>i\<close> moved, from \<open>r\<close> to \<open>r'\<close>; the other tables are those of \<open>s\<close> up
  to outbox, audit log, usage amounts and counters.
\<close>

definition moved_row :: "string \<Rightarrow> access_db \<Rightarrow> access_db \<Rightarrow> registration_row \<Rightarrow> registration_row \<Rightarrow> bool" where
  "moved_row i s s' r r' \<longleftrightarrow> registration_of (ad_settle s) i = Some r \<and> registration_of (ad_settle s') i = Some r' \<and>
    rg_eventId r' = rg_eventId r \<and>
    (\<forall>j. j \<noteq> i \<longrightarrow> registration_of (ad_settle s') j = registration_of (ad_settle s) j) \<and>
    kept (settle_view s) (settle_view s') \<and>
    ad_events s' = ad_events s \<and> ad_forms s' = ad_forms s \<and> ad_edges s' = ad_edges s \<and> ad_pricing s' = ad_pricing s"

lemma requireRegistration_Inr: "requireRegistration x = Inr y \<longleftrightarrow> x = Some y"
  by (cases x) (simp_all add: requireRegistration_def)

lemma lockForMutation_Inr:
  assumes "lockRegistrationForMutation i s = Inr m"
  shows "registration_of (ad_settle s) i = Some (rm_row m)"
  using assms
  by (auto simp: lockRegistrationForMutation_def requireRegistration_Inr findRegistrationForMutation_def mutation_of_def
      split: if_splits option.splits)

lemma extend_mutation_sel [simp]:
  "rm_row (registration_for_mutation.extend m x) = rm_row m"
  "rm_status (registration_for_mutation.extend m x) = rm_status m"
  by (simp_all add: registration_for_mutation.extend_def)

lemma lockForPublic_Inr:
  assumes "lockRegistrationForPublicAction env i s = Inr m"
  shows "registration_of (ad_settle s) i = Some (rm_row m)"
  using assms
  by (auto simp: lockRegistrationForPublicAction_def requireRegistration_Inr findRegistrationWithFormEvent_def
      mutation_of_def sbind_Inr_iff split: if_splits option.splits)

lemma same_store_row:
  assumes "same_store d d'"
  shows "registration_of d' i = registration_of d i"
  using same_store_fields[OF assms] by (simp add: registration_of_def)

text \<open>Statements that write the row without a breakdown and then touch only outbox and audit log.\<close>

lemma write_statements_moved:
  assumes run: "in_settle f s = Inr (x, s')" and ok: "store_ok (settle_view s)"
    and f: "\<And>d. f (settle_view s) = Inr (x, d) \<Longrightarrow> \<exists>r r' d1. written i w (settle_view s) d1 r r' \<and>
      kept (settle_view s) d \<and> db_registrations d = db_registrations d1"
  shows "\<exists>r r' d1. moved_row i s s' r r' \<and> written i w (settle_view s) d1 r r'"
proof -
  from f have k: "\<And>d. f (settle_view s) = Inr (x, d) \<Longrightarrow> kept (settle_view s) d" by blast
  obtain d where d: "f (settle_view s) = Inr (x, d)" and v: "settle_view s' = d" "kept (settle_view s) d"
    and regs: "db_registrations (ad_settle s') = db_registrations d"
    and tabs: "ad_events s' = ad_events s" "ad_forms s' = ad_forms s" "ad_edges s' = ad_edges s" "ad_pricing s' = ad_pricing s"
    by (rule in_settle_Inr[OF run k]) blast
  obtain r r' d1 where w: "written i w (settle_view s) d1 r r'" and dd: "db_registrations d = db_registrations d1"
    using f[OF d] by blast
  have sel: "registration_of (ad_settle s') j = registration_of d1 j" for j
    by (simp add: registration_of_def regs dd)
  have "moved_row i s s' r r'"
    using writtenD(1,2,8,10)[OF w] v tabs by (simp add: moved_row_def sel)
  with w show ?thesis by blast
qed

section \<open>Partial update\<close>

lemma update_statements_written:
  assumes ok: "store_ok d" and run: "update_statements i input w who m d = Inr (u, d')"
    and row: "registration_of d i = Some (rm_row m)" and st: "sw_paymentStatus w = ui_paymentStatus input"
    and pb: "sw_priceBreakdown w = None"
  shows "\<exists>r r' d1. written i w d d1 r r' \<and> kept d d' \<and> db_registrations d' = db_registrations d1"
proof -
  let ?r = "rm_row m" and ?changed = "status_changed (ui_paymentStatus input) (rm_row m)"
  from run obtain b d1 d2 where a: "applyRegistrationSettlement i w (update_fields input) None d = Inr (b, d1)"
    and sy: "(if ?changed then syncPaidCount i (rg_eventId ?r) (rg_priceBreakdown ?r) (rg_paymentStatus ?r)
              (the (ui_paymentStatus input)) d1 else Inr d1) = Inr d2"
    and "d' = emitSettlementEvents (settlementEventPair i (rg_eventId ?r) (rm_clientId m) (rg_paymentStatus ?r)
          (ui_paymentStatus input) ?changed [])
        (if 0 < length (update_changes input w ?r) then audit i ''UPDATE'' (update_changes input w ?r) who d2 else d2)"
    unfolding update_statements_def Let_def by (elim sbind_InrE) (auto simp: sbind_Inr_iff)
  then have d': "same_store d2 d'"
    by (auto intro: same_store_trans[OF same_store_reg_audit same_store_events])
  obtain r r' where w: "written i w d d1 r r'" using write_row[OF ok a pb] row by auto
  have r: "r = ?r" using writtenD(1)[OF w] row by simp
  have ws: "store_ok d1" using written_store[OF ok w] by simp
  have "kept d d2 \<and> db_registrations d2 = db_registrations d1"
  proof (cases ?changed)
    case True
    then have "the (ui_paymentStatus input) = rg_paymentStatus r'"
      using writtenD(3)[OF w] st by (auto simp: status_changed_def or_stored_def)
    with sy True r have "syncPaidCount i (rg_eventId ?r) (rg_priceBreakdown r) (rg_paymentStatus r) (rg_paymentStatus r') d1 = Inr d2"
      by simp
    from write_then_sync[OF ok w this] show ?thesis .
  next
    case False
    then have "rg_paymentStatus r' = rg_paymentStatus r"
      using writtenD(3)[OF w] st r by (auto simp: status_changed_def or_stored_def)
    from written_same_status[OF ok w this] show ?thesis using sy False by simp
  qed
  then have "kept d d'" "db_registrations d' = db_registrations d1"
    using kept_trans[OF _ same_store_kept[OF kept_ok d']] same_store_fields[OF d'] by auto
  with w show ?thesis by blast
qed

lemma update_settlement_Inr:
  assumes "update_settlement icu input r now = Inr w"
  shows "sw_paymentStatus w = ui_paymentStatus input \<and> sw_priceBreakdown w = None \<and>
    sw_totalAmount w = None \<and> sw_sponsorshipAmount w = None \<and>
    (ui_paidAmount input \<noteq> None \<or> ui_paymentStatus input = Some PAID \<longrightarrow> sw_paidAmount w \<noteq> None) \<and>
    (ui_paidAmount input \<noteq> None \<longrightarrow> sw_paidAmount w = ui_paidAmount input) \<and>
    (case ui_paymentStatus input of None \<Rightarrow> True
     | Some st \<Rightarrow> validatePaymentTransition (rg_paymentStatus r) st = Inr ())"
  using assms
  by (auto simp: update_settlement_def update_paid_amount_def no_settlement_def sbind_Inr_iff Let_def
      split: option.splits if_splits)

lemma updateRegistration_moved:
  assumes ok: "store_ok (settle_view s)" and run: "updateRegistration env i input who s = Inr (u, s')"
    and ne: "input \<noteq> empty_update"
  shows "\<exists>r r'. moved_row i s s' r r' \<and>
    rg_paymentStatus r' = or_stored (ui_paymentStatus input) (rg_paymentStatus r) \<and>
    validatePaymentTransition (rg_paymentStatus r) (rg_paymentStatus r') = Inr () \<and>
    rg_totalAmount r' = rg_totalAmount r \<and> rg_sponsorshipAmount r' = rg_sponsorshipAmount r \<and>
    (ui_paidAmount input \<noteq> None \<or> ui_paymentStatus input = Some PAID \<longrightarrow>
      rg_paidAmount r' \<le> max 0 (rg_totalAmount r' - rg_sponsorshipAmount r'))"
proof -
  from run ne obtain m w where lock: "lockRegistrationForMutation i s = Inr m"
    and w: "update_settlement (px_icu env) input (rm_row m) (db_clock (ad_settle s)) = Inr w"
    and st: "in_settle (update_statements i input w who m) s = Inr (u, s')"
    unfolding updateRegistration_def by (auto elim!: sbind_InrE)
  note row = lockForMutation_Inr[OF lock]
  note wi = update_settlement_Inr[OF w]
  have "\<exists>r r' d1. moved_row i s s' r r' \<and> written i w (settle_view s) d1 r r'"
    by (rule write_statements_moved[OF st ok])
      (use update_statements_written[OF ok] row wi in \<open>simp add: registrations_view\<close>)
  then obtain r r' d1 where mv: "moved_row i s s' r r'" and wr: "written i w (settle_view s) d1 r r'" by blast
  have r: "r = rm_row m" using mv row by (simp add: moved_row_def)
  have same: "validatePaymentTransition (rg_paymentStatus r) (rg_paymentStatus r) = Inr ()"
    by (simp add: validatePaymentTransition_def assertTransition_def)
  show ?thesis
    using mv writtenD(3-6,9)[OF wr] wi r same
    by (intro exI[of _ r] exI[of _ r']) (auto simp: or_stored_def split: option.splits)
qed

section \<open>Method and proof\<close>

lemma select_statements_written:
  assumes ok: "store_ok d" and run: "select_statements i pm r d = Inr (u, d')" and row: "registration_of d i = Some r"
  shows "\<exists>r0 r' d1. written i (no_settlement\<lparr>sw_paymentStatus := Some (rg_paymentStatus r)\<rparr>) d d1 r0 r' \<and>
    kept d d' \<and> db_registrations d' = db_registrations d1"
proof -
  let ?w = "no_settlement\<lparr>sw_paymentStatus := Some (rg_paymentStatus r)\<rparr>"
  from run obtain b d1 f where a: "applyRegistrationSettlement i ?w f None d = Inr (b, d1)" and d': "same_store d1 d'"
    unfolding select_statements_def by (auto elim!: sbind_InrE)
  obtain r0 r' where w: "written i ?w d d1 r0 r'"
    using write_row[OF ok a] row by (auto simp: no_settlement_def)
  have "rg_paymentStatus r' = rg_paymentStatus r0" using writtenD(1,3)[OF w] row by (simp add: or_stored_def)
  from written_same_status[OF ok w this] have k: "kept d d1" .
  from w kept_trans[OF k same_store_kept[OF kept_ok[OF k] d']] same_store_fields(1)[OF d'] show ?thesis by blast
qed

lemma selectPaymentMethod_moved:
  assumes ok: "store_ok (settle_view s)" and run: "selectPaymentMethod env i pm s = Inr (u, s')"
  shows "\<exists>r r'. moved_row i s s' r r' \<and> rg_paymentStatus r' = rg_paymentStatus r \<and>
    (rg_paymentStatus r = PENDING \<or> rg_paymentStatus r = PARTIAL) \<and> rg_paidAmount r' = rg_paidAmount r \<and>
    rg_totalAmount r' = rg_totalAmount r \<and> rg_sponsorshipAmount r' = rg_sponsorshipAmount r"
proof -
  from run obtain m where lock: "lockRegistrationForPublicAction env i s = Inr m"
    and p: "rg_paymentStatus (rm_row m) = PENDING \<or> rg_paymentStatus (rm_row m) = PARTIAL"
    and st: "in_settle (select_statements i pm (rm_row m)) s = Inr (u, s')"
    unfolding selectPaymentMethod_def by (auto elim!: sbind_InrE simp: guard_def split: if_splits)
  note row = lockForPublic_Inr[OF lock]
  let ?w = "no_settlement\<lparr>sw_paymentStatus := Some (rg_paymentStatus (rm_row m))\<rparr>"
  have "\<exists>r r' d1. moved_row i s s' r r' \<and> written i ?w (settle_view s) d1 r r'"
    by (rule write_statements_moved[OF st ok])
      (use select_statements_written[OF ok] row in \<open>simp add: registrations_view\<close>)
  then obtain r r' d1 where mv: "moved_row i s s' r r'" and wr: "written i ?w (settle_view s) d1 r r'" by blast
  have "r = rm_row m" using mv row by (simp add: moved_row_def)
  then show ?thesis
    using mv p writtenD(3-6)[OF wr] by (intro exI[of _ r] exI[of _ r']) (simp add: or_stored_def no_settlement_def)
qed

text \<open>Every status a proof may be sent in holds the places it held before.\<close>

lemma verifying_held:
  "validatePaymentTransition st VERIFYING = Inr u \<Longrightarrow> \<not> isFullySettled (Some st)"
  by (cases st) (simp_all add: validatePaymentTransition_def assertTransition_Inr ALLOWED_TRANSITIONS_def)

lemma proof_txn_moved:
  assumes ok: "store_ok (settle_view s)" and run: "proof_txn env i e url s = Inr (x, s')"
  shows "\<exists>r r' w d1. written i w (settle_view s) d1 r r' \<and> w = no_settlement\<lparr>sw_paymentStatus := Some VERIFYING\<rparr> \<and>
    validatePaymentTransition (rg_paymentStatus r) VERIFYING = Inr () \<and> rg_paymentStatus r' = VERIFYING"
proof -
  let ?w = "no_settlement\<lparr>sw_paymentStatus := Some VERIFYING\<rparr>"
  from run obtain m s1 u where lock: "lockRegistrationForPublicAction env i s = Inr m"
    and c: "proof_state_checks (db_clock (ad_settle s)) m = Inr ()"
    and st: "in_settle (proof_statements i e url (rm_row m)) s = Inr (u, s1)"
    unfolding proof_txn_def by (auto elim!: sbind_InrE)
  note row = lockForPublic_Inr[OF lock]
  from st obtain b d1 f where "applyRegistrationSettlement i ?w f None (settle_view s) = Inr (b, d1)"
    unfolding in_settle_def proof_statements_def by (auto elim!: sbind_InrE)
  then obtain r r' where w: "written i ?w (settle_view s) d1 r r'"
    by (rule write_row[OF ok]) (use row in \<open>simp_all add: no_settlement_def\<close>)
  have "validatePaymentTransition (rg_paymentStatus (rm_row m)) VERIFYING = Inr ()"
    using c by (auto simp: proof_state_checks_def sbind_Inr_iff)
  then show ?thesis using w row
    using writtenD(1,3)[OF w]
    by (intro exI[of _ r] exI[of _ r'] exI[of _ ?w] exI[of _ d1]) (auto simp: or_stored_def)
qed

section \<open>Confirmation\<close>

lemma confirm_decision_Inr:
  "confirm_decision icu input cur now state = Inr d \<longleftrightarrow>
    (assertMoneyPrecision icu cur [Some (set_or (yi_paidAmount input) (di_net state))] = Inr () \<and>
     set_or (yi_paidAmount input) (di_net state) \<le> di_net state \<and>
     (yi_paymentStatus input = PAID \<longrightarrow> di_net state \<le> set_or (yi_paidAmount input) (di_net state)) \<and>
     d = Some \<lparr>sd_paymentStatus = Some (yi_paymentStatus input),
       sd_paidAmount = Some (set_or (yi_paidAmount input) (di_net state)),
       sd_paidAt = (if isFullySettled (Some (yi_paymentStatus input)) then Some (Some now) else None)\<rparr>)"
  unfolding confirm_decision_def Let_def by (auto simp: sbind_Inr_iff)

lemma catch_access_Inr [simp]: "catch_access x = Inr y \<longleftrightarrow> x = Inr y"
  by (cases x) (simp_all add: catch_access_def)

lemma same_store_confirm: "same_store d (confirm_effects i input who ip m res d)"
  unfolding confirm_effects_def Let_def
  by (auto intro!: same_store_trans[OF same_store_trans[OF same_store_trans[OF same_store_capacity same_store_audit]
        same_store_events] same_store_email]
      same_store_trans[OF same_store_trans[OF same_store_capacity same_store_audit] same_store_events])

lemma emitted_dedupe:
  "x \<in> set (db_outbox s) \<Longrightarrow> x \<in> set (db_outbox (emitSettlementEvents evs s))"
proof -
  have enq: "x \<in> set (db_outbox t) \<Longrightarrow> x \<in> set (db_outbox (snd (enqueueOutboxEvent p k m t)))" for t p k m
    by (simp add: enqueueOutboxEvent_def)
  have fold_keeps: "(\<And>y t. x \<in> set (db_outbox t) \<Longrightarrow> x \<in> set (db_outbox (f y t))) \<Longrightarrow>
      x \<in> set (db_outbox t) \<Longrightarrow> x \<in> set (db_outbox (fold f ys t))" for f and ys :: "'z list" and t
    by (induction ys arbitrary: t) simp_all
  show "x \<in> set (db_outbox s) \<Longrightarrow> x \<in> set (db_outbox (emitSettlementEvents evs s))"
    unfolding emitSettlementEvents_def enqueueRealtimeOutboxEvent_def enqueueNetworkingRegistrationSyncs_def Let_def
    by (auto intro!: fold_keeps enq split: prod.split)
qed

lemma email_enqueued:
  "Some k \<in> oe_dedupeKey ` set (db_outbox (snd (enqueueTriggeredEmailOutbox tr e i k s)))"
  by (auto simp: enqueueTriggeredEmailOutbox_def enqueueOutboxEvent_def)

lemma confirmPayment_moved:
  assumes ok: "store_ok (settle_view s)" and run: "confirmPayment env i input who ip s = Inr (u, s')"
  shows "\<exists>r r'. moved_row i s s' r r' \<and> rg_paymentStatus r' = yi_paymentStatus input \<and>
    validatePaymentTransition (rg_paymentStatus r) (rg_paymentStatus r') = Inr () \<and>
    rg_paidAmount r' = set_or (yi_paidAmount input) (max 0 (rg_totalAmount r' - rg_sponsorshipAmount r')) \<and>
    rg_paidAmount r' \<le> max 0 (rg_totalAmount r' - rg_sponsorshipAmount r') \<and>
    (rg_paymentStatus r' = PAID \<longrightarrow> rg_paidAmount r' = max 0 (rg_totalAmount r' - rg_sponsorshipAmount r')) \<and>
    (rg_paymentStatus r' = PAID \<and> rg_paymentStatus r \<noteq> PAID \<longrightarrow>
      Some (''email:triggered:PAYMENT_CONFIRMED:'' @ i) \<in> oe_dedupeKey ` set (db_outbox (settle_view s')))"
proof -
  let ?d = "settle_view s"
  from run obtain m where lock: "lockRegistrationForMutation i s = Inr m"
    and tr: "validatePaymentTransition (rg_paymentStatus (rm_row m)) (yi_paymentStatus input) = Inr ()"
    and st: "in_settle (confirm_statements (px_icu env) i input who ip m) s = Inr (u, s')"
    unfolding confirmPayment_def by (auto elim!: sbind_InrE)
  note row = lockForMutation_Inr[OF lock]
  have stm: "\<exists>res d1. settleRegistrationTxn (px_icu env) i (confirm_options (px_icu env) input (rm_row m) (db_clock ?d)) ?d
      = Inr (Some res, d1) \<and> d = confirm_effects i input who ip m res d1"
    if "confirm_statements (px_icu env) i input who ip m ?d = Inr (u, d)" for d
    using that unfolding confirm_statements_def by (auto elim!: sbind_InrE split: option.splits prod.splits)
  have plain: "so_coveredAccessIdsBefore (confirm_options (px_icu env) input (rm_row m) (db_clock ?d)) = None"
    "so_expectedUpdatedAt (confirm_options (px_icu env) input (rm_row m) (db_clock ?d)) = None"
    by (simp_all add: confirm_options_def no_options_def)
  have kp: "kept ?d d1" if "settleRegistrationTxn (px_icu env) i
      (confirm_options (px_icu env) input (rm_row m) (db_clock ?d)) ?d = Inr (Some res, d1)" for res d1
    by (rule settle_kept[OF ok that plain])
  have kd: "kept ?d d" if "confirm_statements (px_icu env) i input who ip m ?d = Inr (u, d)" for d
    using stm[OF that] kp kept_trans[OF _ same_store_kept[OF kept_ok same_store_confirm]] by blast
  obtain d where d: "confirm_statements (px_icu env) i input who ip m ?d = Inr (u, d)" "settle_view s' = d" "kept ?d d"
    and regs: "db_registrations (ad_settle s') = db_registrations d"
    and tabs: "ad_events s' = ad_events s" "ad_forms s' = ad_forms s" "ad_edges s' = ad_edges s" "ad_pricing s' = ad_pricing s"
    by (rule in_settle_Inr[OF st kd]) blast
  obtain res d1 where run1: "settleRegistrationTxn (px_icu env) i
      (confirm_options (px_icu env) input (rm_row m) (db_clock ?d)) ?d = Inr (Some res, d1)"
    and eff: "d = confirm_effects i input who ip m res d1" using stm[OF d(1)] by blast
  obtain r r' chosen where r: "registration_of ?d i = Some r" and r': "registration_of d1 i = Some r'"
    and ev: "rg_eventId r' = rg_eventId r" and oth: "\<And>j. j \<noteq> i \<Longrightarrow> registration_of d1 j = registration_of ?d j"
    and ch: "chosen_decision (confirm_options (px_icu env) input (rm_row m) (db_clock ?d))
      \<lparr>di_before = readSettlementRow r, di_gross = rg_totalAmount r', di_sponsorship = rg_sponsorshipAmount r',
        di_net = max 0 (rg_totalAmount r' - rg_sponsorshipAmount r')\<rparr> = Inr chosen"
    and pa: "rg_paidAmount r' = or_stored (sd_paidAmount chosen) (rg_paidAmount r)"
    and de: "decided_status chosen (readSettlementRow r) (rg_totalAmount r') (rg_sponsorshipAmount r') (rg_paidAmount r')
      (or_stored (so_now (confirm_options (px_icu env) input (rm_row m) (db_clock ?d))) (db_clock ?d))
      = Inr (rg_paymentStatus r', rg_paidAt r')"
    by (rule settle_decided[OF ok run1 plain(2)]) (simp add: confirm_options_def, blast)
  have same: "r = rm_row m" using r row by simp
  note cd = ch[unfolded chosen_decision_def confirm_options_def, simplified, unfolded sbind_Inr_iff confirm_decision_Inr]
  have stat: "rg_paymentStatus r' = yi_paymentStatus input"
    using cd de by (auto simp: decided_status_def)
  have row': "registration_of (ad_settle s') j = registration_of d1 j" for j
    using same_store_fields(1)[OF same_store_confirm[of d1 i input who ip m res]]
    by (simp add: registration_of_def regs eff)
  have mv: "moved_row i s s' r r'"
    using r r' ev oth d(2,3) tabs by (simp add: moved_row_def row')
  have mail: "yi_paymentStatus input = PAID \<and> rg_paymentStatus r \<noteq> PAID \<longrightarrow>
      Some (''email:triggered:PAYMENT_CONFIRMED:'' @ i) \<in> oe_dedupeKey ` set (db_outbox (settle_view s'))"
    using email_enqueued by (simp add: d(2) eff confirm_effects_def Let_def same)
  show ?thesis
    using mv tr stat cd pa mail by (intro exI[of _ r] exI[of _ r']) (auto simp: same or_stored_def)
qed

end
