(* ===== verification/PaymentProps.thy ===== *)
theory PaymentProps
  imports RegistrationPaid
begin

text \<open>
  The properties of the payment writes: a confirmed PAID registration is paid in full, and what the upload
  of a payment proof does to the paid counters.
\<close>

section \<open>Payment claims\<close>

text \<open>
  C33: A committed confirmation makes an allowed transition to the requested status, touches no other
  registration, keeps the paid counters true, and never stores more than the net. A PAID registration has paid
  exactly its net, counted with the sponsorship recomputed by the confirmation; when it was not PAID before,
  its confirmation email is in the outbox.
\<close>

theorem confirmPayment_paid_in_full:
  assumes "store_ok (settle_view s)" and "confirmPayment env i input who ip s = Inr (u, s')"
  shows "\<exists>r r'. moved_row i s s' r r' \<and> rg_paymentStatus r' = yi_paymentStatus input \<and>
    validatePaymentTransition (rg_paymentStatus r) (rg_paymentStatus r') = Inr () \<and>
    rg_paidAmount r' = set_or (yi_paidAmount input) (max 0 (rg_totalAmount r' - rg_sponsorshipAmount r')) \<and>
    rg_paidAmount r' \<le> max 0 (rg_totalAmount r' - rg_sponsorshipAmount r') \<and>
    (rg_paymentStatus r' = PAID \<longrightarrow> rg_paidAmount r' = max 0 (rg_totalAmount r' - rg_sponsorshipAmount r')) \<and>
    (rg_paymentStatus r' = PAID \<and> rg_paymentStatus r \<noteq> PAID \<longrightarrow>
      Some (''email:triggered:PAYMENT_CONFIRMED:'' @ i) \<in> oe_dedupeKey ` set (db_outbox (settle_view s')))"
  using assms by (rule confirmPayment_moved)

text \<open>A registration with a sponsorship that covers its workshop, at the given status and paid count.\<close>

definition demo_registration_db :: "payment_status \<Rightarrow> int \<Rightarrow> access_db" where
  "demo_registration_db st n = demo_access_db\<lparr>
     ad_events := [\<lparr>pe_id = ''ev'', pe_status = Ev_open, pe_endDate = 0, pe_clientActive = True,
       pe_enabledModules = Some [''registrations'', ''pricing''], ae_startDate = 0, ae_slug = ''congress'',
       ae_clientId = ''cl'', ae_maxCapacity = Some 10, ae_registeredCount = 1,
       ae_name = ''Congress'', ae_description = None, ae_location = None\<rparr>],
     ad_items := [access_row.extend (ex_access n) (access_row.more (demo_access_row ''ws'' None))],
     ad_forms := [\<lparr>fm_id = ''form'', fm_eventId = ''ev'', fm_type = ''REGISTRATION'', fm_active = True,
       fm_schema = \<lparr>fs_steps = Some [], fs_sponsorSteps = None, fs_beneficiarySteps = None, fs_accessSelectionRequired = None\<rparr>, fm_schemaVersion = 1\<rparr>],
     ad_settle := (ex_db [ex_reg\<lparr>rg_paymentStatus := st, rg_sponsorshipAmount := 50000,
         rg_priceBreakdown := ex_breakdown\<lparr>pb_sponsorshipTotal := 50000, pb_total := 100000\<rparr>\<rparr>] n)
       \<lparr>db_events := [], db_accesses := [], db_sponsorships := [ex_sponsorship ''s1'' Sp_used],
        db_usages := [ex_usage 50000]\<rparr>\<rparr>"

lemma demo_registration_ok:
  "store_ok (settle_view (demo_registration_db st 0))" "store_ok (settle_view (demo_registration_db st 2))"
  by (simp_all add: demo_registration_db_def settle_view_def demo_access_db_def ex_db_def ex_access_def store_ok_def
      db_wf_def accesses_wf_def accesses_ok_def access_row_ok_def ex_reg_def ex_usage_def ex_sponsorship_def)

definition demo_confirm :: update_payment_input where
  "demo_confirm = \<lparr>yi_paymentStatus = PAID, yi_paidAmount = None, yi_paymentMethod = Some CASH,
     yi_paymentReference = None, yi_paymentProofUrl = None\<rparr>"

lemma demo_confirm_run:
  "case confirmPayment demo_access_env ''r1'' demo_confirm (Some ''admin'') None (demo_registration_db PARTIAL 2) of
     Inl e \<Rightarrow> False
   | Inr ((), s') \<Rightarrow> map (\<lambda>r. (rg_paymentStatus r, rg_paidAmount r)) (db_registrations (ad_settle s')) = [(PAID, 100000)]
       \<and> map ea_paidCount (ad_items s') = [2]"
  by code_simp

theorem confirmPayment_paid_in_full_witness:
  "\<exists>s' r'. confirmPayment demo_access_env ''r1'' demo_confirm (Some ''admin'') None (demo_registration_db PARTIAL 2)
      = Inr ((), s') \<and> registration_of (ad_settle s') ''r1'' = Some r' \<and> rg_paymentStatus r' = PAID \<and>
    rg_paidAmount r' = max 0 (rg_totalAmount r' - rg_sponsorshipAmount r')"
proof -
  obtain s' where run: "confirmPayment demo_access_env ''r1'' demo_confirm (Some ''admin'') None
      (demo_registration_db PARTIAL 2) = Inr ((), s')"
    using demo_confirm_run by (auto split: sum.split_asm)
  from confirmPayment_paid_in_full[OF demo_registration_ok(2) run] run show ?thesis
    by (force simp: moved_row_def demo_confirm_def)
qed

section \<open>Proofs and counters\<close>

text \<open>An accepted proof: the row it puts under review, and all that stays.\<close>

definition under_review :: "string \<Rightarrow> access_db \<Rightarrow> access_db \<Rightarrow> registration_row \<Rightarrow> registration_row \<Rightarrow> bool" where
  "under_review i s s' r r' \<longleftrightarrow>
    registration_of (ad_settle s) i = Some r \<and> registration_of (ad_settle s') i = Some r' \<and>
    validatePaymentTransition (rg_paymentStatus r) VERIFYING = Inr () \<and> rg_paymentStatus r' = VERIFYING \<and>
    rg_paidAmount r' = rg_paidAmount r \<and> rg_totalAmount r' = rg_totalAmount r \<and>
    rg_sponsorshipAmount r' = rg_sponsorshipAmount r \<and>
    (\<forall>j. j \<noteq> i \<longrightarrow> registration_of (ad_settle s') j = registration_of (ad_settle s) j) \<and>
    store_ok (settle_view s') \<and> map ea_id (db_accesses (settle_view s')) = map ea_id (db_accesses (settle_view s)) \<and>
    map rg_id (db_registrations (settle_view s')) = map rg_id (db_registrations (settle_view s)) \<and>
    same_owners (settle_view s) (settle_view s') \<and> usages_known (settle_view s') = usages_known (settle_view s) \<and>
    ad_events s' = ad_events s \<and> ad_forms s' = ad_forms s"

lemma proof_txn_counts:
  assumes ok: "store_ok (settle_view s)" and run: "proof_txn env i e url s = Inr (x, s')"
  shows "\<exists>r r'. under_review i s s' r r' \<and>
    (\<forall>k. discrepancy (settle_view s') k = discrepancy (settle_view s) k
      + held (registration_state (settle_view s) r) k
      - held (with_status VERIFYING (registration_state (settle_view s) r)) k)"
proof -
  let ?d = "settle_view s" and ?w = "no_settlement\<lparr>sw_paymentStatus := Some VERIFYING\<rparr>"
  from run obtain m s1 u where lock: "lockRegistrationForPublicAction env i s = Inr m"
    and c: "proof_state_checks (db_clock (ad_settle s)) m = Inr ()"
    and "in_settle (proof_statements i e url (rm_row m)) s = Inr (u, s1)" and s': "s' = s1"
    unfolding proof_txn_def by (auto elim!: sbind_InrE)
  then obtain d where d: "proof_statements i e url (rm_row m) ?d = Inr (u, d)" and put: "s' = put_settle d s"
    unfolding in_settle_def by (auto elim!: sbind_InrE)
  from d obtain b d1 f where a: "applyRegistrationSettlement i ?w f None ?d = Inr (b, d1)" and sm: "same_store d1 d"
    unfolding proof_statements_def Let_def
    by (auto elim!: sbind_InrE intro: same_store_trans[OF same_store_reg_audit same_store_email])
  note row = lockForPublic_Inr[OF lock]
  obtain r r' where w: "written i ?w ?d d1 r r'"
    by (rule write_row[OF ok a]) (use row in \<open>simp_all add: no_settlement_def\<close>)
  have r: "r = rm_row m" using writtenD(1)[OF w] row by simp
  note ws = written_store[OF ok w] and f = same_store_fields[OF sm]
  have "length (db_accesses d) = length (db_accesses ?d)" using ws f(2) by (metis length_map)
  then have v: "settle_view s' = d"
    unfolding put using ws f by (intro settle_view_put) (simp_all add: settle_view_def)
  have sel: "registration_of (ad_settle s') j = registration_of d1 j" for j
    by (simp add: registration_of_def put put_settle_def f)
  have disc: "discrepancy d k = discrepancy d1 k" for k
    by (rule discrepancy_same) (simp_all add: f coverages_tables[OF f(3,4)])
  have ok1: "store_ok d1" using ws by blast
  have p: "preserved d1 d" by (rule same_store_preserved[OF ok1 sm])
  have own: "same_owners ?d d" using ws f(1) by (simp add: same_owners_def registration_of_def)
  have kn: "usages_known d = usages_known d1" by (rule usages_known_tables) (simp_all add: f)
  have tables: "store_ok d \<and> map ea_id (db_accesses d) = map ea_id (db_accesses ?d) \<and>
      map rg_id (db_registrations d) = map rg_id (db_registrations ?d) \<and> same_owners ?d d \<and> usages_known d = usages_known ?d"
    using ws p own kn writtenD(11)[OF w] by (simp add: preserved_def)
  have "validatePaymentTransition (rg_paymentStatus r) VERIFYING = Inr ()"
    using c by (auto simp: proof_state_checks_def sbind_Inr_iff r)
  then have "under_review i s s' r r'"
    unfolding under_review_def v using writtenD(1-6,10)[OF w] tables
    by (simp add: sel or_stored_def no_settlement_def) (simp add: put put_settle_def)
  moreover have "discrepancy (settle_view s') k = discrepancy ?d k + held (registration_state ?d r) k
      - held (with_status VERIFYING (registration_state ?d r)) k" for k
    using writtenD(3,12)[OF w] by (simp add: v disc or_stored_def no_settlement_def)
  ultimately show ?thesis by blast
qed

text \<open>What an accepted proof of the registration leaves uncounted of the item.\<close>

definition proof_shortfall :: "access_db \<Rightarrow> string \<Rightarrow> string \<Rightarrow> int" where
  "proof_shortfall s i k =
    (case registration_of (ad_settle s) i of
       None \<Rightarrow> 0
     | Some r \<Rightarrow> if rg_paymentStatus r = PENDING \<and> k \<in> set (coveredAccessIdsOf (settle_view s) i)
         then quantity_of (rg_priceBreakdown r) k else 0)"

lemma upload_reviewed:
  assumes ok: "store_ok (settle_view s)" and "uploadPaymentProof env owned i f s0 s = (Inr url, s', keys)"
  shows "\<exists>r r'. under_review i s s' r r' \<and>
    (\<forall>k. discrepancy (settle_view s') k = discrepancy (settle_view s) k - proof_shortfall s i k)"
proof -
  obtain e x where run: "proof_txn env i e url s = Inr (x, s')"
    using assms(2) unfolding uploadPaymentProof_def by (auto split: sum.splits prod.splits)
  obtain r r' where u: "under_review i s s' r r'"
    and disc: "\<And>k. discrepancy (settle_view s') k = discrepancy (settle_view s) k
      + held (registration_state (settle_view s) r) k
      - held (with_status VERIFYING (registration_state (settle_view s) r)) k"
    using proof_txn_counts[OF ok run] by blast
  have r: "registration_of (ad_settle s) i = Some r"
    and tr: "validatePaymentTransition (rg_paymentStatus r) VERIFYING = Inr ()" using u by (simp_all add: under_review_def)
  have idr: "rg_id r = i" by (rule registration_of_key[OF r])
  have "rg_paymentStatus r = PENDING \<or> rg_paymentStatus r = PARTIAL \<or> rg_paymentStatus r = VERIFYING"
    using tr by (cases "rg_paymentStatus r") (simp_all add: validatePaymentTransition_def assertTransition_Inr ALLOWED_TRANSITIONS_def)
  then have "held (with_status VERIFYING (registration_state (settle_view s) r)) k
      - held (registration_state (settle_view s) r) k = proof_shortfall s i k" for k
    by (auto simp: held_def holds_place_def with_status_def registration_state_def idr proof_shortfall_def r)
  then have "discrepancy (settle_view s') k = discrepancy (settle_view s) k - proof_shortfall s i k" for k
    using disc[of k] by (metis add_diff_eq diff_diff_eq2)
  with u show ?thesis by blast
qed

text \<open>
  C34: An accepted payment proof puts the registration under review without touching its amounts or any other
  registration. The paid counters stay true of a PARTIAL or VERIFYING registration. Of a PENDING one they fall
  behind by exactly the places its linked sponsorships cover, which VERIFYING holds and PENDING does not:
  the upload takes no place.
\<close>

theorem uploadPaymentProof_counts:
  assumes "store_ok (settle_view s)" and "uploadPaymentProof env owned i f s0 s = (Inr url, s', keys)"
  shows "\<exists>r r'. registration_of (ad_settle s) i = Some r \<and> registration_of (ad_settle s') i = Some r' \<and>
    rg_paymentStatus r' = VERIFYING \<and> rg_paidAmount r' = rg_paidAmount r \<and>
    rg_totalAmount r' = rg_totalAmount r \<and> rg_sponsorshipAmount r' = rg_sponsorshipAmount r \<and>
    (\<forall>j. j \<noteq> i \<longrightarrow> registration_of (ad_settle s') j = registration_of (ad_settle s) j) \<and>
    (\<forall>k. discrepancy (settle_view s') k = discrepancy (settle_view s) k -
      (if rg_paymentStatus r = PENDING \<and> k \<in> set (coveredAccessIdsOf (settle_view s) i)
       then quantity_of (rg_priceBreakdown r) k else 0))"
proof -
  obtain r r' where u: "under_review i s s' r r'"
    and disc: "\<forall>k. discrepancy (settle_view s') k = discrepancy (settle_view s) k - proof_shortfall s i k"
    using upload_reviewed[OF assms] by blast
  from u have r: "registration_of (ad_settle s) i = Some r" by (simp add: under_review_def)
  show ?thesis
    using u disc by (intro exI[of _ r] exI[of _ r']) (simp add: under_review_def proof_shortfall_def r)
qed

text \<open>
  A proof under review is rejected (VERIFYING to PENDING, which releases the covered workshop) and sent again:
  the registration holds two places of the workshop that its counter no longer counts.
\<close>

definition demo_proof :: proof_file where
  "demo_proof = \<lparr>pf_mimetype = ''image/png'', pf_detected = Some ''image/png'', pf_length = 1000,
     pf_key = ''ev/r1/proof-2.webp'', pf_fileUrl = Some ''https://files/ev/r1/proof-2.webp''\<rparr>"

definition demo_reg_row :: "payment_status \<Rightarrow> registration_row" where
  "demo_reg_row st = hd (db_registrations (ad_settle (demo_registration_db st 0)))"

definition demo_reject :: update_registration_input where
  "demo_reject = empty_update\<lparr>ui_paymentStatus := Some PENDING\<rparr>"

definition demo_pending_view :: "int \<Rightarrow> db" where
  "demo_pending_view n = (settle_view (demo_registration_db PENDING n))\<lparr>
     db_registrations := [(demo_reg_row PENDING)\<lparr>rg_updatedAt := 1000\<rparr>]\<rparr>"

lemma demo_reject_steps:
  "lockRegistrationForMutation ''r1'' (demo_registration_db VERIFYING 2) =
    Inr (mutation_of (demo_reg_row VERIFYING) (hd (ad_events (demo_registration_db VERIFYING 2))))"
  "update_settlement (px_icu demo_access_env) demo_reject (demo_reg_row VERIFYING) 1000 =
    Inr (no_settlement\<lparr>sw_paymentStatus := Some PENDING\<rparr>)"
  "applyRegistrationSettlement ''r1'' (no_settlement\<lparr>sw_paymentStatus := Some PENDING\<rparr>) (update_fields demo_reject) None
      (settle_view (demo_registration_db VERIFYING 2)) = Inr (True, demo_pending_view 2)"
  "syncPaidCount ''r1'' ''ev'' (rg_priceBreakdown (demo_reg_row VERIFYING)) VERIFYING PENDING (demo_pending_view 2)
    = Inr (demo_pending_view 0)"
  by code_simp+

lemma update_committed:
  assumes "input \<noteq> empty_update" and "lockRegistrationForMutation i s = Inr m"
    and "assertEventWritable (rm_status m) = Inr ()"
    and "assertModuleEnabledForClient (rm_clientActive m) (rm_enabledModules m) ''registrations'' = Inr ()"
    and "update_settlement (px_icu env) input (rm_row m) (db_clock (ad_settle s)) = Inr w"
    and "applyRegistrationSettlement i w (update_fields input) None (settle_view s) = Inr (True, d1)"
    and "status_changed (ui_paymentStatus input) (rm_row m)"
    and "syncPaidCount i (rg_eventId (rm_row m)) (rg_priceBreakdown (rm_row m)) (rg_paymentStatus (rm_row m))
      (the (ui_paymentStatus input)) d1 = Inr d2"
  shows "\<exists>d. updateRegistration env i input who s = Inr ((), put_settle d s) \<and> same_store d2 d"
proof -
  have "\<exists>d. update_statements i input w who m (settle_view s) = Inr ((), d) \<and> same_store d2 d"
    unfolding update_statements_def Let_def assms(6) sbind_simps prod.case if_P[OF assms(7)] assms(8)
    by (auto intro: same_store_trans[OF same_store_reg_audit same_store_events])
  then show ?thesis
    using assms(1-5) by (auto simp: updateRegistration_def in_settle_def)
qed

lemma demo_rejected_run:
  "\<exists>s'. updateRegistration demo_access_env ''r1'' demo_reject (Some ''admin'') (demo_registration_db VERIFYING 2) = Inr ((), s')
    \<and> map rg_paymentStatus (db_registrations (ad_settle s')) = [PENDING] \<and> map ea_paidCount (ad_items s') = [0]"
proof -
  let ?s = "demo_registration_db VERIFYING 2"
  let ?m = "mutation_of (demo_reg_row VERIFYING) (hd (ad_events ?s))"
  have c: "assertEventWritable (rm_status ?m) = Inr ()"
    "assertModuleEnabledForClient (rm_clientActive ?m) (rm_enabledModules ?m) ''registrations'' = Inr ()"
    "status_changed (ui_paymentStatus demo_reject) (rm_row ?m)" "rg_eventId (demo_reg_row VERIFYING) = ''ev''"
    "rg_paymentStatus (demo_reg_row VERIFYING) = VERIFYING" "the (ui_paymentStatus demo_reject) = PENDING"
    "db_clock (ad_settle ?s) = 1000" "rm_row ?m = demo_reg_row VERIFYING" "demo_reject \<noteq> empty_update"
    by code_simp+
  obtain d where run: "updateRegistration demo_access_env ''r1'' demo_reject (Some ''admin'') ?s = Inr ((), put_settle d ?s)"
    and "same_store (demo_pending_view 0) d"
    using update_committed[OF c(9) demo_reject_steps(1) c(1,2) _ demo_reject_steps(3) c(3),
        unfolded c(4-8), OF demo_reject_steps(2) demo_reject_steps(4)] by blast
  note f = same_store_fields(1,2)[OF this(2)]
  have v: "map rg_paymentStatus (db_registrations (demo_pending_view 0)) = [PENDING]"
    "map ea_paidCount (db_accesses (demo_pending_view 0)) = [0]" "length (ad_items ?s) = 1"
    by code_simp+
  then obtain a i where "db_accesses (demo_pending_view 0) = [a]" "ad_items ?s = [i]" "ea_paidCount a = 0"
    by (auto simp: length_Suc_conv)
  with run v(1) f show ?thesis
    by (intro exI[of _ "put_settle d ?s"]) (simp add: put_settle_def access_row.extend_def)
qed

lemma proof_committed:
  assumes "proof_type_checks f = Inr ()" and "pf_fileUrl f = Some url"
    and "lockRegistrationForPublicAction env i s = Inr m" and "proof_state_checks (db_clock (ad_settle s)) m = Inr ()"
    and "applyRegistrationSettlement i (no_settlement\<lparr>sw_paymentStatus := Some VERIFYING\<rparr>)
        (no_fields\<lparr>fp_paymentProofUrl := Some (Some url), fp_paymentMethod := Some (Some BANK_TRANSFER)\<rparr>)
        None (settle_view s) = Inr (True, d1)"
  shows "\<exists>s' keys. uploadPaymentProof env owned i f s s = (Inr url, s', keys)"
proof -
  have "loadRegistrationForPublicAction env i s = Inr m"
    using assms(3) by (auto simp: lockRegistrationForPublicAction_def loadRegistrationForPublicAction_def
        requireRegistration_Inr split: if_splits)
  then show ?thesis
    using assms by (simp add: uploadPaymentProof_def proof_txn_def in_settle_def proof_statements_def Let_def)
qed

definition demo_public_row :: registration_for_edit where
  "demo_public_row = registration_for_mutation.extend
     (mutation_of (demo_reg_row PENDING) (hd (ad_events (demo_registration_db PENDING 0))))
     \<lparr>re_formSchema = \<lparr>fs_steps = Some [], fs_sponsorSteps = None, fs_beneficiarySteps = None, fs_accessSelectionRequired = None\<rparr>, re_endDate = 0,
      re_slug = ''congress''\<rparr>"

lemma demo_proof_run:
  "\<exists>s' keys. uploadPaymentProof demo_access_env (\<lambda>u. None) ''r1'' demo_proof (demo_registration_db PENDING 0)
      (demo_registration_db PENDING 0) = (Inr ''https://files/ev/r1/proof-2.webp'', s', keys)"
proof -
  let ?s = "demo_registration_db PENDING 0"
  let ?e = "hd (ad_events ?s)" and ?f = "hd (ad_forms ?s)"
  have r: "lockRegistrationForUpdate (ad_settle ?s) ''r1''" "registration_of (ad_settle ?s) ''r1'' = Some (demo_reg_row PENDING)"
    "rg_formId (demo_reg_row PENDING) = ''form''" "rg_eventId (demo_reg_row PENDING) = ''ev''"
    by code_simp+
  have r2: "form_of ?s ''form'' = Some ?f" "event_of ?s ''ev'' = Some ?e"
    "fm_schema ?f = \<lparr>fs_steps = Some [], fs_sponsorSteps = None, fs_beneficiarySteps = None, fs_accessSelectionRequired = None\<rparr>"
    "pe_endDate ?e = 0" "ae_slug ?e = ''congress''"
    by (simp_all add: demo_registration_db_def form_of_def event_of_def)
  have "readFormSchema demo_access_env x = Inr x" for x
    by (simp add: readFormSchema_def parseJsonb_def demo_access_env_def)
  then have c: "proof_type_checks demo_proof = Inr ()"
    "pf_fileUrl demo_proof = Some ''https://files/ev/r1/proof-2.webp''"
    "lockRegistrationForPublicAction demo_access_env ''r1'' ?s = Inr demo_public_row"
    "proof_state_checks (db_clock (ad_settle ?s)) demo_public_row = Inr ()"
  proof -
    assume rd: "\<And>x. readFormSchema demo_access_env x = Inr x"
    show "lockRegistrationForPublicAction demo_access_env ''r1'' ?s = Inr demo_public_row"
      unfolding lockRegistrationForPublicAction_def findRegistrationWithFormEvent_def if_P[OF r(1)] r r2 rd
        option.case prod.case sbind_simps requireRegistration_def demo_public_row_def ..
    show "proof_type_checks demo_proof = Inr ()" "pf_fileUrl demo_proof = Some ''https://files/ev/r1/proof-2.webp''"
      by (simp_all add: proof_type_checks_def demo_proof_def ALLOWED_MIME_TYPES_def MAX_FILE_SIZE_def)
  qed code_simp
  have a: "case applyRegistrationSettlement ''r1'' (no_settlement\<lparr>sw_paymentStatus := Some VERIFYING\<rparr>)
        (no_fields\<lparr>fp_paymentProofUrl := Some (Some ''https://files/ev/r1/proof-2.webp''),
          fp_paymentMethod := Some (Some BANK_TRANSFER)\<rparr>) None (settle_view ?s) of
       Inl e \<Rightarrow> False | Inr (b, d) \<Rightarrow> b"
    by code_simp
  then obtain d where a: "applyRegistrationSettlement ''r1'' (no_settlement\<lparr>sw_paymentStatus := Some VERIFYING\<rparr>)
        (no_fields\<lparr>fp_paymentProofUrl := Some (Some ''https://files/ev/r1/proof-2.webp''),
          fp_paymentMethod := Some (Some BANK_TRANSFER)\<rparr>) None (settle_view ?s) = Inr (True, d)"
    by (auto split: sum.split_asm)
  from proof_committed[OF c a] show ?thesis .
qed

lemma demo_pending_conserved: "conserved (settle_view (demo_registration_db PENDING 0))"
  by code_simp

theorem uploadPaymentProof_counts_witness:
  "\<exists>s'. uploadPaymentProof demo_access_env (\<lambda>u. None) ''r1'' demo_proof (demo_registration_db PENDING 0)
      (demo_registration_db PENDING 0) = (Inr ''https://files/ev/r1/proof-2.webp'', s') \<and>
    conserved (settle_view (demo_registration_db PENDING 0)) \<and>
    discrepancy (settle_view (fst s')) ''ws'' = - 2"
proof -
  let ?s = "demo_registration_db PENDING 0"
  obtain s' keys where run: "uploadPaymentProof demo_access_env (\<lambda>u. None) ''r1'' demo_proof ?s ?s
      = (Inr ''https://files/ev/r1/proof-2.webp'', s', keys)"
    using demo_proof_run by blast
  have c: "registration_of (ad_settle ?s) ''r1'' = Some (hd (db_registrations (ad_settle ?s)))"
    "rg_paymentStatus (hd (db_registrations (ad_settle ?s))) = PENDING"
    "''ws'' \<in> set (coveredAccessIdsOf (settle_view ?s) ''r1'')"
    "quantity_of (rg_priceBreakdown (hd (db_registrations (ad_settle ?s)))) ''ws'' = 2"
    "discrepancy (settle_view ?s) ''ws'' = 0"
    by code_simp+
  have "discrepancy (settle_view s') ''ws'' = - 2"
    using uploadPaymentProof_counts[OF demo_registration_ok(1) run] c by auto
  with run demo_pending_conserved show ?thesis by auto
qed

end
