(* ===== verification/ReferenceNumber.thy ===== *)
theory ReferenceNumber
  imports Access NumberText
begin

text \<open>
  Reference numbers of registrations (\<open>packages/db/src/queries/registrations.ts\<close>): one counter row per prefix
  of the year and the slug, and the LIKE patterns the queries build (\<open>packages/db/src/like.ts\<close>).
\<close>

section \<open>LIKE\<close>

text \<open>
  \<open>s LIKE p ESCAPE e\<close> of SQL. A pattern that ends in the escape character is an error of the database; no
  pattern here does, and the definition refuses the match.
\<close>

fun sql_like :: "char \<Rightarrow> string \<Rightarrow> string \<Rightarrow> bool" where
  "sql_like e [] s = (s = [])"
| "sql_like e [c] s =
    (if c = e then False
     else if c = CHR ''%'' then True
     else if c = CHR ''_'' then length s = 1
     else s = [c])"
| "sql_like e (c # d # p) s =
    (if c = e then (case s of [] \<Rightarrow> False | y # s' \<Rightarrow> y = d \<and> sql_like e p s')
     else if c = CHR ''%'' then sql_like e (d # p) s \<or> (case s of [] \<Rightarrow> False | _ # s' \<Rightarrow> sql_like e (c # d # p) s')
     else if c = CHR ''_'' then (case s of [] \<Rightarrow> False | _ # s' \<Rightarrow> sql_like e (d # p) s')
     else (case s of [] \<Rightarrow> False | y # s' \<Rightarrow> y = c \<and> sql_like e (d # p) s'))"

definition BACKSLASH :: char where
  "BACKSLASH = CHR 0x5C"

definition like_special :: "char \<Rightarrow> bool" where
  "like_special c \<longleftrightarrow> c = BACKSLASH \<or> c = CHR ''%'' \<or> c = CHR ''_''"

definition escapeLike :: "string \<Rightarrow> string" where
  "escapeLike s = concat (map (\<lambda>c. if like_special c then [BACKSLASH, c] else [c]) s)"

text \<open>\<open>column ILIKE '%term%' ESCAPE '\'\<close>, on ASCII text.\<close>

definition ilikeContains :: "string \<Rightarrow> string \<Rightarrow> bool" where
  "ilikeContains column term' =
    sql_like BACKSLASH (to_lower ([CHR ''%''] @ escapeLike term' @ [CHR ''%''])) (to_lower column)"

lemma escapeLike_simps [simp]: "escapeLike [] = []"
  "escapeLike (c # s) = (if like_special c then BACKSLASH # c # escapeLike s else c # escapeLike s)"
  by (simp_all add: escapeLike_def)

lemma like_char_facts [simp]: "BACKSLASH \<noteq> CHR ''%''" "BACKSLASH \<noteq> CHR ''_''"
  "CHR ''%'' \<noteq> BACKSLASH" "CHR ''_'' \<noteq> BACKSLASH"
  "lower_char BACKSLASH = BACKSLASH" "lower_char (CHR ''%'') = CHR ''%''" "lower_char (CHR ''_'') = CHR ''_''"
  by (simp_all add: BACKSLASH_def lower_char_def)

lemma sql_like_cons:
  assumes "c \<noteq> e" "c \<noteq> CHR ''%''" "c \<noteq> CHR ''_''"
  shows "sql_like e (c # p) s = (\<exists>s'. s = c # s' \<and> sql_like e p s')"
  using assms by (cases p) (auto split: list.split)

lemma sql_like_escaped: "sql_like e (e # d # p) s = (\<exists>s'. s = d # s' \<and> sql_like e p s')"
  by (auto split: list.split)

lemma sql_like_percent: "e \<noteq> CHR ''%'' \<Longrightarrow> sql_like e [CHR ''%''] s"
  by simp

lemma sql_like_literal:
  "sql_like BACKSLASH (escapeLike t @ p) s = (\<exists>s'. s = t @ s' \<and> sql_like BACKSLASH p s')"
proof (induction t arbitrary: s)
  case Nil
  then show ?case by simp
next
  case (Cons c t)
  then show ?case
    by (cases "like_special c") (auto simp: sql_like_escaped sql_like_cons like_special_def split: list.splits)
qed

lemma starts_with_iff: "starts_with p s = (\<exists>b. s = p @ b)"
  unfolding starts_with_def by (metis append_eq_conv_conj append_take_drop_id)

lemma sql_like_prefix: "sql_like BACKSLASH (escapeLike p @ [CHR ''%'']) s = starts_with p s"
  unfolding starts_with_iff sql_like_literal by simp

lemma sql_like_anywhere:
  assumes "p \<noteq> []" and "e \<noteq> CHR ''%''"
  shows "sql_like e (CHR ''%'' # p) s = (\<exists>a b. s = a @ b \<and> sql_like e p b)"
proof -
  obtain d q where p: "p = d # q" using assms(1) by (cases p) auto
  show ?thesis unfolding p
  proof (induction s)
    case Nil
    then show ?case using assms(2) by simp
  next
    case (Cons c s)
    have "(\<exists>a b. c # s = a @ b \<and> sql_like e (d # q) b) =
        (sql_like e (d # q) (c # s) \<or> (\<exists>a b. s = a @ b \<and> sql_like e (d # q) b))"
      by (auto simp: Cons_eq_append_conv)
    then show ?case using Cons assms(2) by simp
  qed
qed

lemma like_special_code: "like_special c \<longleftrightarrow> (of_char c :: nat) \<in> {92, 37, 95}"
proof -
  have eq: "c = d \<longleftrightarrow> of_char c = (of_char d :: nat)" for d by simp
  show ?thesis unfolding like_special_def BACKSLASH_def eq by simp
qed

lemma lower_char_code:
  "(of_char (lower_char c) :: nat) =
    (if 65 \<le> (of_char c :: nat) \<and> (of_char c :: nat) \<le> 90 then of_char c + 32 else of_char c)"
  by (simp add: lower_char_def Let_def of_char_of)

lemma like_special_lower: "like_special (lower_char c) = like_special c"
  unfolding like_special_code lower_char_code by auto

lemma escapeLike_lower: "to_lower (escapeLike t) = escapeLike (to_lower t)"
proof (induction t)
  case Nil
  then show ?case by (simp add: to_lower_def)
next
  case (Cons c t)
  have "like_special c \<Longrightarrow> lower_char c = c" by (auto simp: like_special_def)
  with Cons like_special_lower show ?case by (auto simp: to_lower_def)
qed

lemma ilikeContains_literal: "ilikeContains column t = is_infix (to_lower t) (to_lower column)"
proof -
  have "ilikeContains column t =
      sql_like BACKSLASH (CHR ''%'' # (escapeLike (to_lower t) @ [CHR ''%''])) (to_lower column)"
    by (simp add: ilikeContains_def escapeLike_lower[symmetric]) (simp add: to_lower_def)
  also have "\<dots> = (\<exists>a b. to_lower column = a @ b \<and> (\<exists>c. b = to_lower t @ c))"
    by (subst sql_like_anywhere) (simp_all add: sql_like_literal)
  finally show ?thesis by (auto simp: is_infix_iff)
qed

section \<open>The year of a date, in UTC\<close>

definition DayFromYear :: "int \<Rightarrow> int" where
  "DayFromYear y = 365 * (y - 1970) + (y - 1969) div 4 - (y - 1901) div 100 + (y - 1601) div 400"

definition day_of :: "date \<Rightarrow> int" where
  "day_of t = t div 86400000"

text \<open>The year whose days hold the date: an estimate by the mean year, off by at most one.\<close>

definition getUTCFullYear :: "date \<Rightarrow> int" where
  "getUTCFullYear t =
    (let y = 1970 + 400 * day_of t div 146097
     in if day_of t < DayFromYear y then y - 1
        else if DayFromYear (y + 1) \<le> day_of t then y + 1 else y)"

lemma div_bounds:
  fixes a m :: int
  assumes "0 < m"
  shows "a div m * m \<le> a" "a < a div m * m + m"
  using pos_mod_sign[OF assms, of a] pos_mod_bound[OF assms, of a] div_mult_mod_eq[of a m] by linarith+

lemma DayFromYear_estimate:
  "146097 * k - 506 \<le> 400 * DayFromYear (1970 + k)" "400 * DayFromYear (1970 + k) \<le> 146097 * k + 589"
proof -
  have linear: "146097 * k - 506 \<le> 400 * (365 * k + a - b + c) \<and> 400 * (365 * k + a - b + c) \<le> 146097 * k + 589"
    if "a * 4 \<le> k + 1" "k + 1 < a * 4 + 4" "b * 100 \<le> k + 69" "k + 69 < b * 100 + 100"
      "c * 400 \<le> k + 369" "k + 369 < c * 400 + 400" for a b c
    using that by (simp add: algebra_simps)
  have "DayFromYear (1970 + k) = 365 * k + (k + 1) div 4 - (k + 69) div 100 + (k + 369) div 400"
    by (simp add: DayFromYear_def algebra_simps)
  then show "146097 * k - 506 \<le> 400 * DayFromYear (1970 + k)" "400 * DayFromYear (1970 + k) \<le> 146097 * k + 589"
    using linear[of "(k + 1) div 4" "(k + 69) div 100" "(k + 369) div 400"] div_bounds[of 4 "k + 1"]
      div_bounds[of 100 "k + 69"] div_bounds[of 400 "k + 369"] by auto
qed

lemma getUTCFullYear_days:
  "DayFromYear (getUTCFullYear t) \<le> day_of t \<and> day_of t < DayFromYear (getUTCFullYear t + 1)"
proof -
  define d where "d = day_of t"
  define k where "k = 400 * d div 146097"
  have k: "146097 * k \<le> 400 * d" "400 * d < 146097 * k + 146097"
    using div_bounds[of 146097 "400 * d"] by (simp_all add: k_def)
  have down: "DayFromYear (1970 + k - 1) \<le> d"
    using DayFromYear_estimate(2)[of "k - 1"] k by (simp add: algebra_simps)
  have up: "d < DayFromYear (1970 + k + 1 + 1)"
    using DayFromYear_estimate(1)[of "k + 2"] k by (simp add: algebra_simps)
  have "getUTCFullYear t =
      (if d < DayFromYear (1970 + k) then 1970 + k - 1
       else if DayFromYear (1970 + k + 1) \<le> d then 1970 + k + 1 else 1970 + k)"
    by (simp add: getUTCFullYear_def Let_def d_def k_def)
  then show ?thesis using down up unfolding d_def[symmetric] by auto
qed

section \<open>Prefixes and numbers\<close>

definition int_string :: "int \<Rightarrow> string" where
  "int_string n = (if n < 0 then CHR ''-'' # show_nat (nat (- n)) else show_nat (nat n))"

definition lastChars :: "nat \<Rightarrow> string \<Rightarrow> string" where
  "lastChars k s = drop (length s - k) s"

definition referenceNumberPrefix :: "string \<Rightarrow> date \<Rightarrow> string" where
  "referenceNumberPrefix slug startDate =
    (let year = lastChars 2 (int_string (getUTCFullYear startDate));
         code = take 12 (to_upper (map (\<lambda>c. if c = CHR ''.'' \<or> c = CHR ''_'' then CHR ''-'' else c) slug))
     in year @ [CHR ''-''] @ code @ [CHR ''-''])"

definition padStart3 :: "string \<Rightarrow> string" where
  "padStart3 s = replicate (3 - length s) (CHR ''0'') @ s"

definition formatReferenceNumber :: "string \<Rightarrow> nat \<Rightarrow> string" where
  "formatReferenceNumber prefix n = prefix @ padStart3 (show_nat n)"

text \<open>The suffix a row contributes to the maximum under \<open>prefix\<close>: digits only, read as a decimal.\<close>

definition suffix_under :: "string \<Rightarrow> string \<Rightarrow> nat option" where
  "suffix_under prefix r =
    (if sql_like BACKSLASH (escapeLike prefix @ [CHR ''%'']) r
     then let digits = drop (length prefix) r
          in if digits \<noteq> [] \<and> list_all is_digit digits then Some (digits_value digits) else None
     else None)"

section \<open>The numbers read back\<close>

lemma digits_before_dash:
  assumes "list_all is_digit a" "list_all is_digit b" "xs @ CHR ''-'' # a = ys @ CHR ''-'' # b"
  shows "a = b \<and> xs = ys"
proof -
  have tw: "takeWhile is_digit (rev (zs @ CHR ''-'' # c)) = rev c" if "list_all is_digit c" for zs c
    using that by (simp add: takeWhile_digits)
  have "rev a = rev b" using tw[OF assms(1), of xs] tw[OF assms(2), of ys] assms(3) by simp
  with assms(3) show ?thesis by simp
qed

lemma padStart3_digits: "list_all is_digit (padStart3 (show_nat n)) \<and> padStart3 (show_nat n) \<noteq> []
    \<and> digits_value (padStart3 (show_nat n)) = n"
  using show_nat_props[of n] by (auto simp: padStart3_def digits_value_leading list_all_iff)

lemma prefix_dash: obtains xs where "referenceNumberPrefix slug start = xs @ [CHR ''-'']"
  by (simp add: referenceNumberPrefix_def Let_def)

lemma suffix_under_iff:
  "suffix_under p r = Some n \<longleftrightarrow> (\<exists>d. r = p @ d \<and> d \<noteq> [] \<and> list_all is_digit d \<and> digits_value d = n)"
  by (auto simp: suffix_under_def sql_like_prefix starts_with_iff Let_def)

lemma suffix_under_format:
  "suffix_under (referenceNumberPrefix slug start) (formatReferenceNumber (referenceNumberPrefix slug' start') n) =
    (if referenceNumberPrefix slug start = referenceNumberPrefix slug' start' then Some n else None)"
proof -
  let ?p = "referenceNumberPrefix slug start" and ?q = "referenceNumberPrefix slug' start'"
  obtain xs ys where x: "?p = xs @ [CHR ''-'']" and y: "?q = ys @ [CHR ''-'']"
    using prefix_dash by metis
  show ?thesis
  proof (cases "?p = ?q")
    case True
    have "suffix_under ?q (formatReferenceNumber ?q n) = Some n"
      unfolding suffix_under_iff formatReferenceNumber_def using padStart3_digits[of n] by blast
    with True show ?thesis by simp
  next
    case False
    have "suffix_under ?p (formatReferenceNumber ?q n) \<noteq> Some m" for m
    proof
      assume "suffix_under ?p (formatReferenceNumber ?q n) = Some m"
      then obtain d where d: "list_all is_digit d" "formatReferenceNumber ?q n = ?p @ d"
        unfolding suffix_under_iff by blast
      have "ys @ CHR ''-'' # padStart3 (show_nat n) = xs @ CHR ''-'' # d"
        using d(2) by (simp add: formatReferenceNumber_def x y)
      then have "ys = xs" using digits_before_dash[of "padStart3 (show_nat n)" d ys xs] padStart3_digits d(1) by simp
      with x y False show False by simp
    qed
    with False show ?thesis by (cases "suffix_under ?p (formatReferenceNumber ?q n)") auto
  qed
qed

lemma format_inj:
  assumes "formatReferenceNumber (referenceNumberPrefix slug start) n =
    formatReferenceNumber (referenceNumberPrefix slug' start') n'"
  shows "referenceNumberPrefix slug start = referenceNumberPrefix slug' start' \<and> n = n'"
  using suffix_under_format[of slug start slug' start' n'] suffix_under_format[of slug start slug start n] assms
  by (auto split: if_splits)

lemma prefix_length: "length (referenceNumberPrefix slug start) \<le> 16"
  by (simp add: referenceNumberPrefix_def Let_def lastChars_def)

lemma show_nat_length: "length (show_nat n) \<le> k \<longleftrightarrow> n < 10 ^ k" if "0 < k"
  using that
proof (induction k arbitrary: n)
  case 0
  then show ?case by simp
next
  case (Suc k)
  show ?case
  proof (cases "n < 10")
    case True
    have "(1::nat) \<le> 10 ^ k" by simp
    with True have "n < 10 ^ Suc k" unfolding power_Suc by linarith
    with True show ?thesis by (subst show_nat.simps) simp
  next
    case False
    then have k: "length (show_nat n) = Suc (length (show_nat (n div 10)))" by (subst show_nat.simps) simp
    show ?thesis
    proof (cases "k = 0")
      case True
      with False k show ?thesis using show_nat_props[of "n div 10"] by simp
    next
      case 2: False
      with Suc.IH[of "n div 10"] k show ?thesis by (auto simp: less_mult_imp_div_less div_less_iff_less_mult mult.commute)
    qed
  qed
qed

section \<open>Allocation\<close>

text \<open>
  The tables of a registration write: those of theory Access and \<open>registration_reference_counters\<close>.
  \<open>rd_intMax\<close> is the largest INTEGER of the server (its width differs between the supported servers). No statement writes a negative counter.
\<close>

record reg_db =
  rd_tables :: access_db
  rd_refCounters :: "(string \<times> nat) list"
  rd_intMax :: nat

definition stored_numbers :: "reg_db \<Rightarrow> string list" where
  "stored_numbers s = List.map_filter rg_referenceNumber (db_registrations (ad_settle (rd_tables s)))"

definition MAX_SAFE_INTEGER :: nat where
  "MAX_SAFE_INTEGER = 9007199254740991"

definition maxReferenceSuffix :: "reg_db \<Rightarrow> string \<Rightarrow> nat" where
  "maxReferenceSuffix s prefix =
    (let value = foldr max (List.map_filter (suffix_under prefix) (stored_numbers s)) 0
     in if value \<le> MAX_SAFE_INTEGER \<and> 0 < value then value else 0)"

text \<open>A value for the INTEGER column.\<close>

definition integer :: "reg_db \<Rightarrow> nat \<Rightarrow> error + nat" where
  "integer s n = (if n \<le> rd_intMax s then Inr n else Inl (Plain_error ''integer out of range''))"

definition set_counter :: "string \<Rightarrow> nat \<Rightarrow> reg_db \<Rightarrow> reg_db" where
  "set_counter prefix n s = s\<lparr>rd_refCounters := AList.update prefix n (rd_refCounters s)\<rparr>"

text \<open>\<open>UPDATE \<dots> SET last_value = last_value + 1 \<dots> RETURNING last_value\<close>: \<open>None\<close> when no row matched.\<close>

definition bump_counter :: "string \<Rightarrow> reg_db \<Rightarrow> error + (nat option \<times> reg_db)" where
  "bump_counter prefix s =
    (case map_of (rd_refCounters s) prefix of
      None \<Rightarrow> Inr (None, s)
    | Some v \<Rightarrow> sbind (integer s (v + 1)) (\<lambda>n. Inr (Some n, set_counter prefix n s)))"

definition insert_counter :: "string \<Rightarrow> nat \<Rightarrow> reg_db \<Rightarrow> error + (nat \<times> reg_db)" where
  "insert_counter prefix seed s =
    sbind (integer s (case map_of (rd_refCounters s) prefix of None \<Rightarrow> seed + 1 | Some v \<Rightarrow> v + 1))
      (\<lambda>n. Inr (n, set_counter prefix n s))"

text \<open>
  The update, the read of the seed and the insert are statements of their own: the insert may meet a row that
  another transaction committed in between, so its state is a second argument.
\<close>

definition nextReferenceSequence :: "string \<Rightarrow> reg_db \<Rightarrow> reg_db \<Rightarrow> error + (nat \<times> reg_db)" where
  "nextReferenceSequence prefix s0 s =
    sbind (bump_counter prefix s0) (\<lambda>r.
      case r of
        (Some n, s') \<Rightarrow> Inr (n, s')
      | (None, _) \<Rightarrow> insert_counter prefix (maxReferenceSuffix s0 prefix) s)"

definition referenceNumberTaken :: "reg_db \<Rightarrow> string \<Rightarrow> bool" where
  "referenceNumberTaken s r \<longleftrightarrow> r \<in> set (stored_numbers s)"

definition move_counter :: "string \<Rightarrow> nat \<Rightarrow> reg_db \<Rightarrow> error + (nat \<times> reg_db)" where
  "move_counter prefix stored s =
    sbind (integer s stored) (\<lambda>stored.
      (case map_of (rd_refCounters s) prefix of
        None \<Rightarrow> Inl (Plain_error ''TypeError'')
      | Some v \<Rightarrow> sbind (integer s (max v stored + 1)) (\<lambda>n. Inr (n, set_counter prefix n s))))"

fun digit36 :: "nat \<Rightarrow> char" where
  "digit36 n = (if n < 10 then char_of (48 + n) else char_of (87 + n))"

fun base36 :: "nat \<Rightarrow> string" where
  "base36 n = (if n < 36 then [digit36 n] else base36 (n div 36) @ [digit36 (n mod 36)])"

declare base36.simps [simp del]

text \<open>\<open>s0\<close> is the state of the update and the seed, \<open>s\<close> of the rest; equal when the update matched its row.\<close>

definition allocateReferenceNumber :: "string \<Rightarrow> reg_db \<Rightarrow> reg_db \<Rightarrow> error + (string \<times> reg_db)" where
  "allocateReferenceNumber eventId s0 s =
    (case row_of pe_id eventId (ad_events (rd_tables s0)) of
      None \<Rightarrow> Inr (''REG-'' @ to_upper (base36 (nat (db_clock (ad_settle (rd_tables s0))))), s0)
    | Some event \<Rightarrow>
        let prefix = referenceNumberPrefix (ae_slug event) (ae_startDate event)
        in sbind (nextReferenceSequence prefix s0 s) (\<lambda>(sequence, s).
             if \<not> referenceNumberTaken s (formatReferenceNumber prefix sequence)
             then Inr (formatReferenceNumber prefix sequence, s)
             else sbind (move_counter prefix (maxReferenceSuffix s prefix) s) (\<lambda>(moved, s).
               Inr (formatReferenceNumber prefix moved, s))))"

end
