(* ===== verification/ReferenceProps.thy ===== *)
theory ReferenceProps
  imports ReferenceNumber AccessProps
begin

text \<open>
  What reference numbers promise: a number reads back to its prefix and sequence, it is never issued twice, not
  even after its registration is gone, and it is not one that is already stored.
\<close>

section \<open>One allocation\<close>

lemma integer_Inr [simp]: "integer s n = Inr m \<longleftrightarrow> m = n \<and> n \<le> rd_intMax s"
  by (auto simp: integer_def)

lemma set_counter_simps [simp]: "rd_tables (set_counter p n s) = rd_tables s"
  "rd_intMax (set_counter p n s) = rd_intMax s"
  "map_of (rd_refCounters (set_counter p n s)) = (map_of (rd_refCounters s))(p \<mapsto> n)"
  by (simp_all add: set_counter_def update_conv')

lemma stored_numbers_set_counter [simp]: "stored_numbers (set_counter p n s) = stored_numbers s"
  by (simp add: stored_numbers_def)

lemma maxReferenceSuffix_set_counter [simp]:
  "maxReferenceSuffix (set_counter p n s) q = maxReferenceSuffix s q"
  by (simp add: maxReferenceSuffix_def)

text \<open>A counter moved up: its new value is above the old one, and nothing else changed.\<close>

definition counted :: "string \<Rightarrow> nat \<Rightarrow> reg_db \<Rightarrow> reg_db \<Rightarrow> bool" where
  "counted p n s s' \<longleftrightarrow> rd_tables s' = rd_tables s \<and> rd_intMax s' = rd_intMax s
     \<and> map_of (rd_refCounters s') = (map_of (rd_refCounters s))(p \<mapsto> n)
     \<and> 0 < n \<and> n \<le> rd_intMax s \<and> (\<forall>v. map_of (rd_refCounters s) p = Some v \<longrightarrow> v < n)"

lemma counted_trans: "counted p m s t \<Longrightarrow> counted p n t u \<Longrightarrow> counted p n s u"
  unfolding counted_def by (cases "map_of (rd_refCounters s) p") auto

lemma counted_numbers: "counted p n s s' \<Longrightarrow> stored_numbers s' = stored_numbers s"
  by (simp add: counted_def stored_numbers_def)

lemma insert_counter_counted: "insert_counter p seed s = Inr (n, s') \<Longrightarrow> counted p n s s'"
  by (auto simp: insert_counter_def counted_def sbind_Inr_iff split: option.splits)

lemma bump_counter_counted: "bump_counter p s = Inr (Some n, s') \<Longrightarrow> counted p n s s'"
  by (auto simp: bump_counter_def counted_def sbind_Inr_iff split: option.splits)

lemma bump_counter_None: "bump_counter p s = Inr (None, s') \<Longrightarrow> map_of (rd_refCounters s) p = None"
  by (auto simp: bump_counter_def sbind_Inr_iff split: option.splits)

lemma bump_counter_missing: "map_of (rd_refCounters s) p = None \<Longrightarrow> bump_counter p s = Inr (None, s)"
  by (simp add: bump_counter_def)

lemma move_counter_counted:
  "move_counter p stored s = Inr (n, s') \<Longrightarrow> counted p n s s' \<and> stored < n"
  by (auto simp: move_counter_def counted_def sbind_Inr_iff split: option.splits)

lemma nextReferenceSequence_counted:
  assumes "nextReferenceSequence p s0 s = Inr (n, s')" and "s0 = s \<or> map_of (rd_refCounters s0) p = None"
  shows "counted p n s s'"
proof (cases "map_of (rd_refCounters s0) p")
  case None
  with assms(1) show ?thesis
    by (simp add: nextReferenceSequence_def bump_counter_missing insert_counter_counted)
next
  case (Some v)
  with assms obtain r t where r: "bump_counter p s = Inr (r, t)"
      and "(case r of Some m \<Rightarrow> Inr (m, t) | None \<Rightarrow> insert_counter p (maxReferenceSuffix s p) s) = Inr (n, s')"
    by (auto simp: nextReferenceSequence_def elim!: sbind_InrE split: prod.splits option.splits)
  with Some assms(2) show ?thesis
    by (cases r) (auto dest: bump_counter_counted bump_counter_None)
qed

lemma foldr_max_ge: "x \<in> set xs \<Longrightarrow> (x::nat) \<le> foldr max xs 0"
  by (induction xs) auto

definition stored_safe :: "reg_db \<Rightarrow> bool" where
  "stored_safe s \<longleftrightarrow> (\<forall>r \<in> set (stored_numbers s). \<forall>p n. suffix_under p r = Some n \<longrightarrow> n \<le> MAX_SAFE_INTEGER)"

lemma foldr_max_le: "(\<And>x. x \<in> set xs \<Longrightarrow> x \<le> m) \<Longrightarrow> foldr max xs (0::nat) \<le> m"
  by (induction xs) auto

lemma maxReferenceSuffix_ge:
  assumes "stored_safe s" and "r \<in> set (stored_numbers s)" and "suffix_under p r = Some n"
  shows "n \<le> maxReferenceSuffix s p"
proof -
  define ns where "ns = List.map_filter (suffix_under p) (stored_numbers s)"
  have "n \<in> set ns" using assms(2,3) by (force simp: ns_def map_filter_def)
  moreover have "foldr max ns 0 \<le> MAX_SAFE_INTEGER"
    using assms(1) by (intro foldr_max_le) (auto simp: ns_def map_filter_def stored_safe_def)
  ultimately show ?thesis
    using foldr_max_ge[of n ns] by (auto simp: maxReferenceSuffix_def ns_def[symmetric] Let_def)
qed

lemma allocated:
  assumes "allocateReferenceNumber ev s0 s = Inr (r, s')"
    and "row_of pe_id ev (ad_events (rd_tables s0)) = Some e"
    and "p = referenceNumberPrefix (ae_slug e) (ae_startDate e)"
    and "s0 = s \<or> map_of (rd_refCounters s0) p = None"
  obtains n where "r = formatReferenceNumber p n" and "counted p n s s'"
    and "stored_safe s \<longrightarrow> r \<notin> set (stored_numbers s)"
proof -
  obtain m t where m: "nextReferenceSequence p s0 s = Inr (m, t)"
    and rest: "(if \<not> referenceNumberTaken t (formatReferenceNumber p m) then Inr (formatReferenceNumber p m, t)
      else sbind (move_counter p (maxReferenceSuffix t p) t) (\<lambda>(n, u). Inr (formatReferenceNumber p n, u))) = Inr (r, s')"
    using assms(1,2,3) by (auto simp: allocateReferenceNumber_def Let_def elim!: sbind_InrE)
  have c: "counted p m s t" by (rule nextReferenceSequence_counted[OF m assms(4)])
  show ?thesis
  proof (cases "referenceNumberTaken t (formatReferenceNumber p m)")
    case False
    with rest c that show ?thesis by (auto simp: referenceNumberTaken_def counted_numbers)
  next
    case True
    with rest obtain n u where n: "move_counter p (maxReferenceSuffix t p) t = Inr (n, u)"
      and r: "r = formatReferenceNumber p n" "s' = u"
      by (auto elim!: sbind_InrE)
    from move_counter_counted[OF n] have n: "counted p n t s'" "maxReferenceSuffix t p < n" using r(2) by auto
    have "r \<notin> set (stored_numbers s)" if "stored_safe s"
    proof
      assume "r \<in> set (stored_numbers s)"
      moreover have "suffix_under p r = Some n"
        using suffix_under_format[of "ae_slug e" "ae_startDate e" "ae_slug e" "ae_startDate e" n]
        by (simp add: r(1) assms(3))
      moreover have "maxReferenceSuffix t p = maxReferenceSuffix s p"
        by (simp add: maxReferenceSuffix_def counted_numbers[OF c])
      ultimately show False using maxReferenceSuffix_ge[OF that] n(2) by fastforce
    qed
    with that r(1) counted_trans[OF c n(1)] show ?thesis by blast
  qed
qed

section \<open>Numbering over time\<close>

text \<open>
  A transaction that finds its counter row holds it until it commits, with the registration it numbers: one
  step. One that finds none reads the seed and inserts later, when others may have committed in between: its
  read is a state kept in \<open>rs_reads\<close>. \<open>rs_issued\<close> are the numbers committed so far. Whatever else happens to
  the tables (registrations deleted or inserted by hand, events renamed) leaves the counters alone.
\<close>

record ref_state =
  rs_db :: reg_db
  rs_reads :: "(string \<times> reg_db) list"
  rs_issued :: "string list"

definition event_prefix :: "reg_db \<Rightarrow> string \<Rightarrow> string option" where
  "event_prefix s ev =
    map_option (\<lambda>e. referenceNumberPrefix (ae_slug e) (ae_startDate e)) (row_of pe_id ev (ad_events (rd_tables s)))"

definition insert_numbered :: "registration_row \<Rightarrow> reg_db \<Rightarrow> reg_db" where
  "insert_numbered row s = s\<lparr>rd_tables := (rd_tables s)\<lparr>ad_settle := (ad_settle (rd_tables s))
     \<lparr>db_registrations := db_registrations (ad_settle (rd_tables s)) @ [row]\<rparr>\<rparr>\<rparr>"

inductive ref_step :: "ref_state \<Rightarrow> ref_state \<Rightarrow> bool" where
  ref_number: "event_prefix (rs_db s) ev \<noteq> None \<Longrightarrow>
    allocateReferenceNumber ev (rs_db s) (rs_db s) = Inr (r, d) \<Longrightarrow> rg_referenceNumber row = Some r \<Longrightarrow>
    ref_step s (s\<lparr>rs_db := insert_numbered row d, rs_issued := rs_issued s @ [r]\<rparr>)"
| ref_read: "event_prefix (rs_db s) ev = Some p \<Longrightarrow> map_of (rd_refCounters (rs_db s)) p = None \<Longrightarrow>
    ref_step s (s\<lparr>rs_reads := (ev, rs_db s) # rs_reads s\<rparr>)"
| ref_late: "(ev, d0) \<in> set (rs_reads s) \<Longrightarrow>
    allocateReferenceNumber ev d0 (rs_db s) = Inr (r, d) \<Longrightarrow> rg_referenceNumber row = Some r \<Longrightarrow>
    ref_step s (s\<lparr>rs_db := insert_numbered row d, rs_issued := rs_issued s @ [r]\<rparr>)"
| ref_other: "rd_refCounters d = rd_refCounters (rs_db s) \<Longrightarrow> ref_step s (s\<lparr>rs_db := d\<rparr>)"

definition ref_start :: "ref_state \<Rightarrow> bool" where
  "ref_start s \<longleftrightarrow> rs_reads s = [] \<and> rs_issued s = []"

definition issued_below :: "ref_state \<Rightarrow> string \<Rightarrow> bool" where
  "issued_below s r \<longleftrightarrow> (\<exists>slug start n v. r = formatReferenceNumber (referenceNumberPrefix slug start) n \<and>
     map_of (rd_refCounters (rs_db s)) (referenceNumberPrefix slug start) = Some v \<and> n \<le> v)"

definition ref_ok :: "ref_state \<Rightarrow> bool" where
  "ref_ok s \<longleftrightarrow> distinct (rs_issued s) \<and> (\<forall>r \<in> set (rs_issued s). issued_below s r) \<and>
     (\<forall>(ev, d) \<in> set (rs_reads s). \<exists>p. event_prefix d ev = Some p \<and> map_of (rd_refCounters d) p = None)"

lemma counters_insert_numbered [simp]: "rd_refCounters (insert_numbered row d) = rd_refCounters d"
  by (simp add: insert_numbered_def)

lemma issue_ok:
  assumes "ref_ok s" and a: "allocateReferenceNumber ev d0 (rs_db s) = Inr (r, d)" and p: "event_prefix d0 ev = Some p"
    and "d0 = rs_db s \<or> map_of (rd_refCounters d0) p = None"
  shows "ref_ok (s\<lparr>rs_db := insert_numbered row d, rs_issued := rs_issued s @ [r]\<rparr>)"
proof -
  let ?s = "s\<lparr>rs_db := insert_numbered row d, rs_issued := rs_issued s @ [r]\<rparr>"
  obtain e where e: "row_of pe_id ev (ad_events (rd_tables d0)) = Some e"
    "p = referenceNumberPrefix (ae_slug e) (ae_startDate e)"
    using p by (auto simp: event_prefix_def)
  obtain n where r: "r = formatReferenceNumber p n" and c: "counted p n (rs_db s) d"
    using allocated[OF a e assms(4)] by blast
  have up: "issued_below ?s q" if "issued_below s q" for q
    using that c unfolding issued_below_def counted_def by (fastforce split: if_splits)
  have below: "issued_below ?s r"
    using c unfolding issued_below_def counted_def r e(2) by auto
  have new: "r \<notin> set (rs_issued s)"
  proof
    assume "r \<in> set (rs_issued s)"
    then obtain slug start m v where m: "r = formatReferenceNumber (referenceNumberPrefix slug start) m"
      "map_of (rd_refCounters (rs_db s)) (referenceNumberPrefix slug start) = Some v" "m \<le> v"
      using assms(1) unfolding ref_ok_def issued_below_def by blast
    then have "p = referenceNumberPrefix slug start" "n = m"
      using format_inj[of "ae_slug e" "ae_startDate e" n slug start m] r e(2) by auto
    with m c show False by (auto simp: counted_def)
  qed
  show ?thesis using assms(1) up below new unfolding ref_ok_def by auto
qed

lemma ref_step_ok: "ref_step s s' \<Longrightarrow> ref_ok s \<Longrightarrow> ref_ok s'"
proof (induction rule: ref_step.induct)
  case (ref_number s ev r d row)
  then show ?case using issue_ok[of s ev "rs_db s" r d _ row] by auto
next
  case (ref_read s ev p)
  then show ?case by (auto simp: ref_ok_def issued_below_def)
next
  case (ref_late ev d0 s r d row)
  then obtain p where "event_prefix d0 ev = Some p" "map_of (rd_refCounters d0) p = None"
    unfolding ref_ok_def by blast
  with ref_late show ?case using issue_ok[of s ev d0 r d p row] by simp
next
  case (ref_other d s)
  then show ?case by (auto simp: ref_ok_def issued_below_def)
qed

lemma ref_reachable_ok: "ref_step\<^sup>*\<^sup>* s0 s \<Longrightarrow> ref_start s0 \<Longrightarrow> ref_ok s"
proof (induction rule: rtranclp_induct)
  case base
  then show ?case by (simp add: ref_start_def ref_ok_def)
next
  case (step s s')
  then show ?case using ref_step_ok by blast
qed

section \<open>Properties\<close>

text \<open>
  C38: no reference number is issued twice: under every interleaving of numbering transactions, with events
  that share a prefix, first allocations that race for the counter row, registrations deleted or numbered by
  hand and renamed events, the numbers committed are distinct.
\<close>

theorem issued_once: "ref_start s0 \<Longrightarrow> ref_step\<^sup>*\<^sup>* s0 s \<Longrightarrow> distinct (rs_issued s)"
  using ref_reachable_ok by (auto simp: ref_ok_def)

text \<open>
  An allocated number is not the number of a stored registration, when the suffixes stored are safe
  integers of JavaScript.
\<close>

theorem allocated_unused:
  "event_prefix s ev \<noteq> None \<Longrightarrow> stored_safe s \<Longrightarrow> allocateReferenceNumber ev s s = Inr (r, s') \<Longrightarrow>
    r \<notin> set (stored_numbers s)"
  by (auto simp: event_prefix_def elim: allocated)

text \<open>
  C39: A formatted number reads back, by the query of the largest stored suffix, as the sequence it was made
  from under its own prefix, and as nothing under the prefix of any other year or slug, even one it starts with.
\<close>

theorem reference_number_reads_back:
  "suffix_under (referenceNumberPrefix slug start) (formatReferenceNumber (referenceNumberPrefix slug' start') n) =
    (if referenceNumberPrefix slug start = referenceNumberPrefix slug' start' then Some n else None)"
  by (rule suffix_under_format)

lemma number_length:
  assumes "event_prefix s ev \<noteq> None" "rd_intMax s \<le> 2147483647" "allocateReferenceNumber ev s s = Inr (r, s')"
  shows "length r \<le> 26"
proof -
  obtain e where e: "row_of pe_id ev (ad_events (rd_tables s)) = Some e"
    using assms(1) by (auto simp: event_prefix_def)
  obtain n where r: "r = formatReferenceNumber (referenceNumberPrefix (ae_slug e) (ae_startDate e)) n"
    and n: "counted (referenceNumberPrefix (ae_slug e) (ae_startDate e)) n s s'"
    using allocated[OF assms(3) e refl] by blast
  have "n < 10 ^ 10" using n assms(2) by (simp add: counted_def)
  then have "length (show_nat n) \<le> 10" by (simp add: show_nat_length)
  then show ?thesis
    using prefix_length[of "ae_slug e" "ae_startDate e"] by (simp add: r formatReferenceNumber_def padStart3_def)
qed

text \<open>
  C40: with 32-bit counters an allocated number has at most 26 characters, whatever the slug and the year, and
  it is not the number of a stored registration when the suffixes stored are safe integers of JavaScript. A
  counter that would pass the largest INTEGER is an error, not a longer or a reused number.
\<close>

theorem allocated_number_bounds:
  "event_prefix s ev \<noteq> None \<Longrightarrow> rd_intMax s \<le> 2147483647 \<Longrightarrow> stored_safe s \<Longrightarrow>
    allocateReferenceNumber ev s s = Inr (r, s') \<Longrightarrow> length r \<le> 26 \<and> r \<notin> set (stored_numbers s)"
  using number_length allocated_unused by blast

section \<open>Examples\<close>

definition demo_numbers :: "(string \<times> nat) list \<Rightarrow> registration_row list \<Rightarrow> reg_db" where
  "demo_numbers counters rows = \<lparr>rd_tables = demo_access_db\<lparr>ad_settle := (ad_settle demo_access_db)
     \<lparr>db_registrations := rows\<rparr>\<rparr>, rd_refCounters = counters, rd_intMax = 999\<rparr>"

definition demo_numbered :: "string \<Rightarrow> registration_row" where
  "demo_numbered r = ex_reg\<lparr>rg_referenceNumber := Some r\<rparr>"

lemma demo_number_texts: "referenceNumberPrefix ''ev'' 0 = ''70-EV-''"
  "formatReferenceNumber ''70-EV-'' 1 = ''70-EV-001''" "formatReferenceNumber ''70-EV-'' (Suc 0) = ''70-EV-001''"
  "formatReferenceNumber ''70-EV-'' 2 = ''70-EV-002''" "formatReferenceNumber ''70-EV-'' (Suc (Suc 0)) = ''70-EV-002''"
  "formatReferenceNumber ''70-EV-'' (Suc (Suc (Suc 0))) = ''70-EV-003''"
  "suffix_under ''70-EV-'' ''70-EV-001'' = Some 1" "suffix_under ''70-EV-'' ''70-EV-002'' = Some 2"
  by code_simp+

lemma demo_number_tables: "ad_events (rd_tables (demo_numbers c rows)) = ad_events demo_access_db"
  "row_of pe_id ''e'' (ad_events demo_access_db) = Some (hd (ad_events demo_access_db))"
  "ae_slug (hd (ad_events demo_access_db)) = ''ev''" "ae_startDate (hd (ad_events demo_access_db)) = 0"
  "stored_numbers (demo_numbers c []) = []" "stored_numbers (demo_numbers c [demo_numbered r]) = [r]"
  "rd_refCounters (demo_numbers c rows) = c" "rd_intMax (demo_numbers c rows) = 999"
  "set_counter p n (demo_numbers c rows) = demo_numbers (AList.update p n c) rows"
  "insert_numbered row (demo_numbers c rows) = demo_numbers c (rows @ [row])"
  "rg_referenceNumber (demo_numbered r) = Some r"
  by (simp_all add: demo_numbers_def demo_access_db_def stored_numbers_def map_filter_def demo_numbered_def
      set_counter_def insert_numbered_def)

lemmas demo_number_defs = demo_number_texts demo_number_tables allocateReferenceNumber_def nextReferenceSequence_def
  bump_counter_def insert_counter_def move_counter_def referenceNumberTaken_def maxReferenceSuffix_def integer_def
  event_prefix_def MAX_SAFE_INTEGER_def Let_def map_filter_def

lemma three_steps: "r a b \<Longrightarrow> r b c \<Longrightarrow> r c d \<Longrightarrow> r\<^sup>*\<^sup>* a d"
  by (rule rtranclp.rtrancl_into_rtrancl[OF two_steps[of r]])

text \<open>Two first allocations race: both read before the counter exists, and they commit 001 and 002.\<close>

theorem issued_once_witness:
  "\<exists>s. ref_step\<^sup>*\<^sup>* \<lparr>rs_db = demo_numbers [] [], rs_reads = [], rs_issued = []\<rparr> s
    \<and> rs_issued s = [''70-EV-001'', ''70-EV-002''] \<and> distinct (rs_issued s)"
proof -
  let ?d0 = "demo_numbers [] []" and ?d1 = "demo_numbers [(''70-EV-'', 1)] [demo_numbered ''70-EV-001'']"
  let ?d2 = "demo_numbers [(''70-EV-'', 2)] [demo_numbered ''70-EV-001'', demo_numbered ''70-EV-002'']"
  let ?s0 = "\<lparr>rs_db = ?d0, rs_reads = [], rs_issued = []\<rparr>"
  let ?s1 = "\<lparr>rs_db = ?d0, rs_reads = [(''e'', ?d0)], rs_issued = []\<rparr>"
  let ?s2 = "\<lparr>rs_db = ?d1, rs_reads = [(''e'', ?d0)], rs_issued = [''70-EV-001'']\<rparr>"
  let ?s3 = "\<lparr>rs_db = ?d2, rs_reads = [(''e'', ?d0)], rs_issued = [''70-EV-001'', ''70-EV-002'']\<rparr>"
  have a1: "ref_step ?s0 ?s1"
    using ref_read[of ?s0 "''e''" "''70-EV-''"] by (simp add: demo_number_defs)
  have a2: "ref_step ?s1 ?s2"
    using ref_number[of ?s1 "''e''" "''70-EV-001''" "demo_numbers [(''70-EV-'', 1)] []" "demo_numbered ''70-EV-001''"]
    by (simp add: demo_number_defs)
  have a3: "ref_step ?s2 ?s3"
    using ref_late[of "''e''" ?d0 ?s2 "''70-EV-002''" "demo_numbers [(''70-EV-'', 2)] [demo_numbered ''70-EV-001'']"
        "demo_numbered ''70-EV-002''"]
    by (simp add: demo_number_defs numeral_2_eq_2)
  have run: "ref_step\<^sup>*\<^sup>* ?s0 ?s3"
    by (rule three_steps[where r = ref_step, OF a1 a2 a3])
  have "ref_start ?s0" by (simp add: ref_start_def)
  with issued_once[OF _ run] run show ?thesis by (intro exI[of _ ?s3]) simp
qed

text \<open>A number stored by hand is passed over.\<close>

theorem allocated_number_bounds_witness:
  "allocateReferenceNumber ''e'' (demo_numbers [(''70-EV-'', 1)] [demo_numbered ''70-EV-002''])
      (demo_numbers [(''70-EV-'', 1)] [demo_numbered ''70-EV-002''])
    = Inr (''70-EV-003'', demo_numbers [(''70-EV-'', 3)] [demo_numbered ''70-EV-002''])
   \<and> length ''70-EV-003'' \<le> 26 \<and> ''70-EV-003'' \<notin> set (stored_numbers (demo_numbers [(''70-EV-'', 1)] [demo_numbered ''70-EV-002'']))"
proof -
  let ?s = "demo_numbers [(''70-EV-'', 1)] [demo_numbered ''70-EV-002'']"
  have a: "allocateReferenceNumber ''e'' ?s ?s = Inr (''70-EV-003'', demo_numbers [(''70-EV-'', 3)] [demo_numbered ''70-EV-002''])"
    by (simp add: demo_number_defs numeral_3_eq_3)
  have "n \<le> MAX_SAFE_INTEGER" if h: "suffix_under p ''70-EV-002'' = Some n" for p n
  proof -
    obtain d where "''70-EV-002'' = p @ d" "list_all is_digit d" "digits_value d = n"
      using h unfolding suffix_under_iff by blast
    then show ?thesis
      by (auto simp: Cons_eq_append_conv is_digit_def digits_value_def digit_value_def MAX_SAFE_INTEGER_def)
  qed
  then have safe: "stored_safe ?s" by (simp add: stored_safe_def demo_number_tables)
  have "event_prefix ?s ''e'' \<noteq> None" "rd_intMax ?s \<le> 2147483647" by (simp_all add: demo_number_defs)
  from allocated_number_bounds[OF this safe a] a show ?thesis by simp
qed

end
