(* ===== verification/RegistrationEdit.thy ===== *)
theory RegistrationEdit
  imports RegistrationPaid PricingProps
begin

text \<open>
  The edits of a registration that may change its price (\<open>registrations.repricer.ts\<close>): the administrator's edit
  and the public self-edit, both through \<open>repriceRegistration\<close> in one locking transaction. The day formats of
  the grouped listing are a parameter.
\<close>

section \<open>What changes\<close>

text \<open>Per item the change of its selected quantity: summed, unchanged items left out, in ascending id order.\<close>

definition add_quantity :: "int \<Rightarrow> string \<times> int \<Rightarrow> (string \<times> int) list \<Rightarrow> (string \<times> int) list" where
  "add_quantity sign item deltas = AList.update (fst item) (count_of deltas (fst item) + sign * snd item) deltas"

definition accessQuantityDeltas :: "(string \<times> int) list \<Rightarrow> (string \<times> int) list \<Rightarrow> (string \<times> int) list" where
  "accessQuantityDeltas before after =
    sort_key fst (filter (\<lambda>(_, delta). delta \<noteq> 0)
      (fold (add_quantity 1) after (fold (add_quantity (- 1)) before [])))"

text \<open>\<open>isDeepStrictEqual\<close> on JSON values: the order of an object's keys does not matter.\<close>

fun deep_equal :: "js \<Rightarrow> js \<Rightarrow> bool" where
  "deep_equal (J_num a) (J_num b) = (num_eq a b \<or> a = Js_nan \<and> b = Js_nan)"
| "deep_equal (J_arr xs) (J_arr ys) = list_all2 deep_equal xs ys"
| "deep_equal (J_obj m) (J_obj n) = (length m = length n \<and>
    list_all (\<lambda>(k, v). case map_of n k of None \<Rightarrow> False | Some w \<Rightarrow> deep_equal v w) m)"
| "deep_equal a b = (a = b)"

definition item_quantities :: "access_line list \<Rightarrow> (string \<times> int) list" where
  "item_quantities items = map (\<lambda>l. (li_accessId l, li_quantity l)) items"

definition selections_of :: "(string \<times> int) list \<Rightarrow> access_selection list" where
  "selections_of = map (\<lambda>(i, n). \<lparr>as_accessId = i, as_quantity = n\<rparr>)"

section \<open>Repricing\<close>

text \<open>The schema behind the option prices: the form joined with its event.\<close>

definition getFormForPriceQuote :: "pricing_env \<Rightarrow> access_db \<Rightarrow> string \<Rightarrow> error + form_schema option" where
  "getFormForPriceQuote env s formId =
    (case form_of s formId of None \<Rightarrow> Inr None
     | Some f \<Rightarrow> (case event_of s (fm_eventId f) of None \<Rightarrow> Inr None
        | Some _ \<Rightarrow> sbind (readFormSchema env (fm_schema f)) (\<lambda>schema. Inr (Some schema))))"

definition move_registered :: "(string \<times> int) list \<Rightarrow> db \<Rightarrow> error + db" where
  "move_registered deltas =
    sfold (\<lambda>(i, delta). if 0 < delta then incrementAccessRegisteredCountTx i delta
        else decrementAccessRegisteredCountTx i (- delta)) deltas"

definition reprice_statements ::
  "(string \<Rightarrow> nat option) \<Rightarrow> registration_row \<Rightarrow> settle_options \<Rightarrow> (string \<times> int) list \<Rightarrow> db
    \<Rightarrow> error + settle_result \<times> db" where
  "reprice_statements icu r options deltas d =
    sbind (move_registered deltas d) (\<lambda>d1.
    sbind (catch_access (settleRegistrationTxn icu (rg_id r) options d1)) (\<lambda>(settled, d2).
    case settled of
      None \<Rightarrow> Inl registration_not_found
    | Some res \<Rightarrow> Inr (res, snd (handleCapacityReached (rg_eventId r) (pm_incremented (sr_paidAccess res)) d2))))"

record reprice_input =
  ri_formData :: form_data
  ri_accessSelections :: "(string \<times> int) list"
  ri_keepHigherTotal :: bool
  ri_decide :: "settlement_decision_input \<Rightarrow> error + settlement_decision option"
  ri_fields :: fields_patch

definition reprice_options :: "registration_row \<Rightarrow> price_breakdown \<Rightarrow> reprice_input \<Rightarrow> settle_options" where
  "reprice_options r priced input = no_options\<lparr>
     so_priceBreakdown := Some (priced\<lparr>pb_sponsorships := pb_sponsorships (rg_priceBreakdown r),
       pb_sponsorshipTotal := rg_sponsorshipAmount r\<rparr>),
     so_totalAmount := Some (if ri_keepHigherTotal input then max (rg_totalAmount r) (pb_subtotal priced)
       else pb_subtotal priced),
     so_decide := Some (ri_decide input), so_fields := ri_fields input\<rparr>"

definition price_again ::
  "pricing_env \<Rightarrow> registration_row \<Rightarrow> reprice_input \<Rightarrow> access_db \<Rightarrow> error + price_breakdown" where
  "price_again env r input s =
    sbind (getFormForPriceQuote env s (rg_formId r)) (\<lambda>schema.
    calculatePrice env (pricing_view s) (rg_eventId r)
      \<lparr>rq_formData = ri_formData input,
       rq_selectedAccessItems = map (\<lambda>(i, n). \<lparr>se_accessId = i, se_quantity = n\<rparr>) (ri_accessSelections input),
       rq_sponsorshipCodes = []\<rparr>
      (Some \<lparr>oc_formSchema = schema, oc_previous = Some (rg_formData r,
        case pb_optionModifiers (rg_priceBreakdown r) of None \<Rightarrow> [] | Some ms \<Rightarrow> ms)\<rparr>))"

definition repriceRegistration ::
  "pricing_env \<Rightarrow> registration_row \<Rightarrow> reprice_input \<Rightarrow> access_db
    \<Rightarrow> error + (settle_result \<times> (string \<times> int) list) \<times> access_db" where
  "repriceRegistration env r input s =
    sbind (price_again env r input s) (\<lambda>priced.
    let deltas = accessQuantityDeltas (item_quantities (pb_accessItems (rg_priceBreakdown r))) (ri_accessSelections input) in
    sbind (in_settle (reprice_statements (px_icu env) r (reprice_options r priced input) deltas) s) (\<lambda>(settled, s').
    Inr ((settled, deltas), s')))"

section \<open>The administrator's edit\<close>

record admin_edit_input =
  ed_email :: "string option"
  ed_firstName :: "string option"
  ed_lastName :: "string option"
  ed_phone :: "string option option"
  ed_formData :: "form_data option"
  ed_role :: "registration_role option"
  ed_accessSelections :: "(string \<times> int) list option"
  ed_paymentStatus :: "payment_status option"
  ed_paidAmount :: "money option"
  ed_paymentMethod :: "payment_method option option"
  ed_paymentReference :: "string option option"
  ed_paymentProofUrl :: "string option option"
  ed_note :: "string option option"
  ed_labName :: "string option option"

definition normalizeEmail :: "string \<Rightarrow> string" where
  "normalizeEmail email = to_lower (trim email)"

definition registrationExistsByEmailForm :: "db \<Rightarrow> string \<Rightarrow> string \<Rightarrow> string option \<Rightarrow> bool" where
  "registrationExistsByEmailForm d email formId excludeId =
    list_ex (\<lambda>r. to_lower (rg_email r) = to_lower email \<and> rg_formId r = formId \<and> excludeId \<noteq> Some (rg_id r))
      (db_registrations d)"

text \<open>A field given with another value than the stored one.\<close>

definition changed_field :: "'a option \<Rightarrow> 'a \<Rightarrow> 'a option" where
  "changed_field given stored = (case given of None \<Rightarrow> None | Some v \<Rightarrow> if v \<noteq> stored then Some v else None)"

definition edit_email :: "admin_edit_input \<Rightarrow> registration_row \<Rightarrow> db \<Rightarrow> error + string option" where
  "edit_email input r d =
    (case changed_field (map_option normalizeEmail (ed_email input)) (rg_email r) of
       None \<Rightarrow> Inr None
     | Some e \<Rightarrow> sbind (guard (\<not> registrationExistsByEmailForm d e (rg_formId r) (Some (rg_id r)))
         registrationAlreadyExists) (\<lambda>_. Inr (Some e)))"

definition edit_formData ::
  "pricing_env \<Rightarrow> access_db \<Rightarrow> string \<Rightarrow> admin_edit_input \<Rightarrow> error + form_data option" where
  "edit_formData env s eventId input =
    (case ed_formData input of None \<Rightarrow> Inr None
     | Some data \<Rightarrow>
        sbind (findRegistrationFormSchema env (pricing_view s) eventId) (\<lambda>schema.
        sbind (prepareFormDataForPricing (px_form env) schema data (Some False)) (\<lambda>answers. Inr (Some answers))))"

definition edit_fields ::
  "admin_edit_input \<Rightarrow> registration_row \<Rightarrow> string option \<Rightarrow> form_data option \<Rightarrow> date \<Rightarrow> fields_patch" where
  "edit_fields input r email formData now = no_fields\<lparr>
     fp_email := email,
     fp_firstName := changed_field (map_option Some (ed_firstName input)) (rg_firstName r),
     fp_lastName := changed_field (map_option Some (ed_lastName input)) (rg_lastName r),
     fp_phone := changed_field (ed_phone input) (rg_phone r),
     fp_formData := formData,
     fp_role := changed_field (ed_role input) (rg_role r),
     fp_note := changed_field (ed_note input) (rg_note r),
     fp_paymentMethod := changed_field (ed_paymentMethod input) (rg_paymentMethod r),
     fp_paymentReference := ed_paymentReference input,
     fp_paymentProofUrl := ed_paymentProofUrl input,
     fp_labName := ed_labName input,
     fp_lastEditedAt := Some (Some now)\<rparr>"

definition edit_changes ::
  "admin_edit_input \<Rightarrow> registration_row \<Rightarrow> string option \<Rightarrow> payment_status option \<Rightarrow> audit_change list" where
  "edit_changes input r email statusChange =
     (case email of None \<Rightarrow> [] | Some e \<Rightarrow> [Changed ''email'' (Av_text (rg_email r)) (Av_text e)])
   @ change_of ''firstName'' text_value (map_option Some (ed_firstName input)) (rg_firstName r)
   @ change_of ''lastName'' text_value (map_option Some (ed_lastName input)) (rg_lastName r)
   @ change_of ''phone'' text_value (ed_phone input) (rg_phone r)
   @ (if ed_formData input \<noteq> None then [Changed ''formData'' (Av_text ''(previous)'') (Av_text ''(updated)'')] else [])
   @ change_of ''role'' Av_role (ed_role input) (rg_role r)
   @ change_of ''note'' text_value (ed_note input) (rg_note r)
   @ (case statusChange of None \<Rightarrow> [] | Some st \<Rightarrow> [Changed ''paymentStatus'' (Av_status (rg_paymentStatus r)) (Av_status st)])
   @ change_of ''paymentMethod'' Av_method (ed_paymentMethod input) (rg_paymentMethod r)"

text \<open>What the administrator's edit decides on the new net: a PAID price that moves must be answered.\<close>

definition admin_decide ::
  "admin_edit_input \<Rightarrow> date option \<Rightarrow> settlement_decision_input \<Rightarrow> error + settlement_decision option" where
  "admin_decide input statusPaidAt state =
    (let before = di_before state; net = di_net state in
     sbind (netOf (ss_totalAmount before) (ss_sponsorshipAmount before)) (\<lambda>currentNet.
     let netChanged = (net \<noteq> currentNet) in
     sbind (guard (\<not> (ss_paymentStatus before = PAID \<and> netChanged \<and> ed_paymentStatus input = None
         \<and> ed_paidAmount input = None)) (App_exception ''PAYMENT_ADJUSTMENT_REQUIRED'' 409)) (\<lambda>_.
     let paidAmount = (case ed_paidAmount input of Some v \<Rightarrow> Some v
           | None \<Rightarrow> if ed_paymentStatus input = Some PAID then Some net else None);
         nextPaid = or_stored paidAmount (ss_paidAmount before) in
     sbind (assertPaidAmountWithinNet nextPaid net) (\<lambda>_.
     let staysPaid = (or_stored (ed_paymentStatus input) (ss_paymentStatus before) = PAID) in
     sbind (if ss_paymentStatus before = PAID \<and> netChanged \<and> staysPaid then assertPaidInFull nextPaid net else Inr ()) (\<lambda>_.
     Inr (Some \<lparr>sd_paymentStatus = ed_paymentStatus input, sd_paidAmount = paidAmount,
       sd_paidAt = map_option Some statusPaidAt\<rparr>))))))"

text \<open>The edit that leaves the price: the status and amount given, checked against the stored net.\<close>

definition edit_settlement ::
  "admin_edit_input \<Rightarrow> registration_row \<Rightarrow> payment_status option \<Rightarrow> date option \<Rightarrow> error + settlement_write" where
  "edit_settlement input r statusChange statusPaidAt =
    sbind (calculateSettlement (rg_totalAmount r) (rg_paidAmount r) (rg_sponsorshipAmount r)) (\<lambda>amounts.
    let net = sa_netAmount amounts;
        paidAmount = (case ed_paidAmount input of
            Some v \<Rightarrow> if v \<noteq> rg_paidAmount r then Some v else None
          | None \<Rightarrow> if ed_paymentStatus input = Some PAID then Some net else None) in
    sbind (case paidAmount of None \<Rightarrow> Inr () | Some v \<Rightarrow> assertPaidAmountWithinNet v net) (\<lambda>_.
    Inr (no_settlement\<lparr>sw_paymentStatus := statusChange, sw_paidAt := map_option Some statusPaidAt,
      sw_paidAmount := paidAmount\<rparr>)))"

definition edit_finish ::
  "string \<Rightarrow> string option \<Rightarrow> audit_change list \<Rightarrow> registration_for_mutation \<Rightarrow> payment_status \<Rightarrow> string list \<Rightarrow> db \<Rightarrow> db" where
  "edit_finish i performedBy changes m newStatus movedIds d =
    (let r = rm_row m;
         d1 = (if 0 < length changes then audit i ''UPDATE'' changes performedBy d else d)
     in emitSettlementEvents (settlementEventPair i (rg_eventId r) (rm_clientId m) (rg_paymentStatus r) (Some newStatus)
          (newStatus \<noteq> rg_paymentStatus r \<or> 0 < length movedIds) (uniq movedIds)) d1)"

definition payment_edit_statements ::
  "string \<Rightarrow> settlement_write \<Rightarrow> fields_patch \<Rightarrow> payment_status option \<Rightarrow> audit_change list \<Rightarrow> string option
    \<Rightarrow> registration_for_mutation \<Rightarrow> db \<Rightarrow> error + unit \<times> db" where
  "payment_edit_statements i settlement patch statusChange changes performedBy m d =
    (let r = rm_row m in
     sbind (applyRegistrationSettlement i settlement patch None d) (\<lambda>(_, d1).
     sbind (case statusChange of None \<Rightarrow> Inr d1
       | Some st \<Rightarrow> syncPaidCount i (rg_eventId r) (rg_priceBreakdown r) (rg_paymentStatus r) st d1) (\<lambda>d2.
     Inr ((), edit_finish i performedBy changes m (or_stored statusChange (rg_paymentStatus r)) [] d2))))"

definition price_edit_changes ::
  "admin_edit_input \<Rightarrow> registration_row \<Rightarrow> payment_status option \<Rightarrow> string list \<Rightarrow> settle_result \<Rightarrow> audit_change list" where
  "price_edit_changes input r statusChange ids settled =
    (let before = sr_before settled; after = sr_after settled in
     (if ss_paymentStatus after \<noteq> ss_paymentStatus before \<and> statusChange = None
      then [Changed ''paymentStatus'' (Av_status (ss_paymentStatus before)) (Av_status (ss_paymentStatus after))] else [])
   @ (if ss_paidAmount after \<noteq> ss_paidAmount before
      then [Changed ''paidAmount'' (Av_money (ss_paidAmount before)) (Av_money (ss_paidAmount after))] else [])
   @ (if ed_accessSelections input \<noteq> None
      then [Changed ''accessSelections'' (Av_ids (case rg_accessTypeIds r of None \<Rightarrow> [] | Some xs \<Rightarrow> xs)) (Av_ids ids)] else [])
   @ [Changed ''totalAmount'' (Av_money (ss_totalAmount before)) (Av_money (ss_totalAmount after))])"

definition moved_ids :: "(string \<times> int) list \<Rightarrow> paid_moves \<Rightarrow> string list" where
  "moved_ids deltas moves = map fst deltas @ pm_incremented moves @ pm_decremented moves"

definition price_edit ::
  "pricing_env \<Rightarrow> string \<Rightarrow> string \<Rightarrow> admin_edit_input \<Rightarrow> fields_patch \<Rightarrow> payment_status option \<Rightarrow> date option
    \<Rightarrow> audit_change list \<Rightarrow> form_data option \<Rightarrow> string option \<Rightarrow> registration_for_mutation \<Rightarrow> access_db
    \<Rightarrow> error + unit \<times> access_db" where
  "price_edit env eventId i input patch statusChange statusPaidAt changes editedFormData performedBy m s =
    (let r = rm_row m; formData = or_stored editedFormData (rg_formData r);
         old = item_quantities (pb_accessItems (rg_priceBreakdown r));
         sels = or_stored (ed_accessSelections input) old; ids = map fst sels in
     sbind (assertModuleEnabledForClient (rm_clientActive m) (rm_enabledModules m) ''pricing'') (\<lambda>_.
     sbind (if ed_accessSelections input \<noteq> None \<and> 0 < length sels
         then assertValidSelections s eventId (selections_of sels) formData
           (Some (case rg_accessTypeIds r of None \<Rightarrow> [] | Some xs \<Rightarrow> xs)) (db_clock (ad_settle s))
         else Inr ()) (\<lambda>_.
     sbind (repriceRegistration env r
         \<lparr>ri_formData = formData, ri_accessSelections = sels, ri_keepHigherTotal = False,
          ri_decide = admin_decide input statusPaidAt, ri_fields = patch\<lparr>fp_accessTypeIds := Some (Some ids)\<rparr>\<rparr> s)
       (\<lambda>((settled, deltas), s1).
     in_settle (\<lambda>d. Inr ((), edit_finish i performedBy (changes @ price_edit_changes input r statusChange ids settled) m
       (ss_paymentStatus (sr_after settled)) (moved_ids deltas (sr_paidAccess settled)) d)) s1))))"

definition adminEditRegistration ::
  "pricing_env \<Rightarrow> string \<Rightarrow> string \<Rightarrow> admin_edit_input \<Rightarrow> string option \<Rightarrow> access_db \<Rightarrow> error + unit \<times> access_db" where
  "adminEditRegistration env eventId i input performedBy s =
    sbind (lockRegistrationForMutation i s) (\<lambda>m.
    let r = rm_row m; now = db_clock (ad_settle s) in
    sbind (guard (rg_eventId r = eventId) (App_exception ''CHECKIN_EVENT_MISMATCH'' 400)) (\<lambda>_.
    sbind (assertEventWritable (rm_status m)) (\<lambda>_.
    sbind (assertMoneyPrecision (px_icu env) (rg_currency r) [ed_paidAmount input]) (\<lambda>_.
    sbind (assertModuleEnabledForClient (rm_clientActive m) (rm_enabledModules m) ''registrations'') (\<lambda>_.
    sbind (edit_email input r (ad_settle s)) (\<lambda>email.
    sbind (edit_formData env s eventId input) (\<lambda>editedFormData.
    let statusChange = changed_field (ed_paymentStatus input) (rg_paymentStatus r);
        statusPaidAt = (if statusChange \<noteq> None \<and> isFullySettled statusChange \<and> rg_paidAt r = None
          then Some now else None);
        patch = edit_fields input r email editedFormData now;
        changes = edit_changes input r email statusChange in
    sbind (case statusChange of None \<Rightarrow> Inr () | Some st \<Rightarrow> validateAdminPaymentOverride (rg_paymentStatus r) st) (\<lambda>_.
    if ed_accessSelections input \<noteq> None \<or> ed_formData input \<noteq> None
    then price_edit env eventId i input patch statusChange statusPaidAt changes editedFormData performedBy m s
    else
      sbind (edit_settlement input r statusChange statusPaidAt) (\<lambda>settlement.
      let changes = changes @ (case sw_paidAmount settlement of None \<Rightarrow> []
            | Some v \<Rightarrow> if v \<noteq> rg_paidAmount r then [Changed ''paidAmount'' (Av_money (rg_paidAmount r)) (Av_money v)] else []) in
      in_settle (payment_edit_statements i settlement patch statusChange changes performedBy m) s)))))))))"

section \<open>The public self-edit\<close>

text \<open>\<open>ve_expectedUpdatedAt\<close> is None when the text denotes no date.\<close>

record public_edit_input =
  ve_expectedUpdatedAt :: "date option"
  ve_formData :: "form_data option"
  ve_firstName :: "string option"
  ve_lastName :: "string option"
  ve_phone :: "string option"
  ve_accessSelections :: "(string \<times> int) list option"

definition edit_policy_of :: "registration_for_edit \<Rightarrow> date \<Rightarrow> edit_policy" where
  "edit_policy_of m now = (let r = rm_row m in evaluateEditPolicy
     \<lparr>ei_paymentStatus = rg_paymentStatus r, ei_paidAmount = rg_paidAmount r, ei_totalAmount = rg_totalAmount r,
      ei_sponsorshipAmount = rg_sponsorshipAmount r, ei_eventStatus = rm_status m, ei_endDate = re_endDate m,
      ei_clientActive = rm_clientActive m, ei_enabledModules = rm_enabledModules m, ei_now = now\<rparr>)"

text \<open>PAID means paid in full: a self-edit may not change the price.\<close>

definition public_decide :: "settlement_decision_input \<Rightarrow> error + settlement_decision option" where
  "public_decide state =
    (let before = di_before state in
     sbind (netOf (ss_totalAmount before) (ss_sponsorshipAmount before)) (\<lambda>currentNet.
     sbind (guard (\<not> (ss_paymentStatus before = PAID \<and> di_net state \<noteq> currentNet))
       (App_exception ''REGISTRATION_PRICE_LOCKED'' 409)) (\<lambda>_.
     Inr None)))"

definition public_fields ::
  "public_edit_input \<Rightarrow> registration_row \<Rightarrow> form_data \<Rightarrow> string list \<Rightarrow> date \<Rightarrow> fields_patch" where
  "public_fields input r formData ids now = no_fields\<lparr>
     fp_formData := Some formData,
     fp_firstName := Some (given_or (ve_firstName input) (rg_firstName r)),
     fp_lastName := Some (given_or (ve_lastName input) (rg_lastName r)),
     fp_phone := Some (given_or (ve_phone input) (rg_phone r)),
     fp_accessTypeIds := Some (Some ids),
     fp_lastEditedAt := Some (Some now)\<rparr>"

definition public_changes ::
  "public_edit_input \<Rightarrow> registration_row \<Rightarrow> form_data option \<Rightarrow> (string \<times> int) list \<Rightarrow> (string \<times> int) list
    \<Rightarrow> audit_change list" where
  "public_changes input r changedData sels deltas =
     (case changedData of None \<Rightarrow> [] | Some data \<Rightarrow> [Changed ''formData'' (Av_data (rg_formData r)) (Av_data data)])
   @ change_of ''firstName'' text_value (map_option Some (ve_firstName input)) (rg_firstName r)
   @ change_of ''lastName'' text_value (map_option Some (ve_lastName input)) (rg_lastName r)
   @ change_of ''phone'' text_value (map_option Some (ve_phone input)) (rg_phone r)
   @ (if 0 < length deltas then [Changed ''accessSelections''
        (Av_items (item_quantities (pb_accessItems (rg_priceBreakdown r)))) (Av_items sels)] else [])"

definition public_finish ::
  "string \<Rightarrow> audit_change list \<Rightarrow> registration_for_edit \<Rightarrow> payment_status \<Rightarrow> string list \<Rightarrow> db \<Rightarrow> db" where
  "public_finish i changes m status countsChanged d =
    (let r = rm_row m;
         d1 = (if 0 < length changes then audit i ''UPDATE'' changes (Some ''PUBLIC'') d else d)
     in emitSettlementEvents (Registration_updated (rm_clientId m) (rg_eventId r) i status
          # (if 0 < length countsChanged then [EventAccess_countsChanged (rm_clientId m) (rg_eventId r) countsChanged] else []))
        d1)"

definition public_form_data :: "pricing_env \<Rightarrow> public_edit_input \<Rightarrow> registration_for_edit \<Rightarrow> error + form_data" where
  "public_form_data env input m =
    (case ve_formData input of None \<Rightarrow> Inr (rg_formData (rm_row m))
     | Some data \<Rightarrow> prepareFormDataForPricing (px_form env) (Some (re_formSchema m))
         (fold (\<lambda>(k, v) fd. AList.update k v fd) data (rg_formData (rm_row m))) None)"

text \<open>The write: repriced under the policy's answer to \<open>keepHigherTotal\<close>, or the fields alone.\<close>

definition public_write ::
  "pricing_env \<Rightarrow> string \<Rightarrow> registration_for_edit \<Rightarrow> fields_patch \<Rightarrow> audit_change list \<Rightarrow> bool \<Rightarrow> form_data
    \<Rightarrow> (string \<times> int) list \<Rightarrow> (string \<times> int) list \<Rightarrow> bool \<Rightarrow> access_db \<Rightarrow> error + price_breakdown \<times> access_db" where
  "public_write env i m patch changes reprice formData sels deltas keepHigherTotal s =
    (let r = rm_row m in
     if reprice
     then
       sbind (repriceRegistration env r
         \<lparr>ri_formData = formData, ri_accessSelections = sels, ri_keepHigherTotal = keepHigherTotal,
          ri_decide = public_decide, ri_fields = patch\<rparr> s) (\<lambda>((settled, _), s1).
       in_settle (\<lambda>d. Inr (ss_priceBreakdown (sr_after settled), public_finish i changes m
         (ss_paymentStatus (sr_after settled)) (uniq (moved_ids deltas (sr_paidAccess settled))) d)) s1)
     else
       in_settle (\<lambda>d. sbind (applyRegistrationSettlement i no_settlement patch None d) (\<lambda>(_, d1).
         Inr (rg_priceBreakdown r, public_finish i changes m (rg_paymentStatus r) [] d1))) s)"

definition editRegistrationPublic ::
  "pricing_env \<Rightarrow> day_format \<Rightarrow> string \<Rightarrow> public_edit_input \<Rightarrow> access_db \<Rightarrow> error + price_breakdown \<times> access_db" where
  "editRegistrationPublic env fmt i input s =
    sbind (guard (ve_expectedUpdatedAt input \<noteq> None) badRequest) (\<lambda>_.
    sbind (lockRegistrationForPublicAction env i s) (\<lambda>m.
    let r = rm_row m; now = db_clock (ad_settle s); eventId = rg_eventId r; pb = rg_priceBreakdown r;
        current = item_quantities (pb_accessItems pb);
        sels = or_stored (ve_accessSelections input) current;
        deltas = accessQuantityDeltas current sels;
        policy = edit_policy_of m now in
    sbind (assertSelfEditAllowed policy (rm_clientActive m) (rm_enabledModules m) (ve_accessSelections input \<noteq> None)
      (map fst (filter (\<lambda>(_, delta). delta < 0) deltas))) (\<lambda>_.
    sbind (public_form_data env input m) (\<lambda>formData.
    let formDataChanged = (ve_formData input \<noteq> None \<and> \<not> deep_equal (J_obj formData) (J_obj (rg_formData r)));
        reprice = (formDataChanged \<or> 0 < length deltas) in
    sbind (if \<not> reprice then Inr ()
       else sbind (assertValidSelections s eventId (selections_of sels) formData (Some (map fst current)) now) (\<lambda>_.
         assertAccessSelectionRequirement fmt s eventId formData (selections_of sels)
           (fs_accessSelectionRequired (re_formSchema m)) now)) (\<lambda>_.
    sbind (guard (ve_expectedUpdatedAt input = Some (rg_updatedAt r)) (App_exception ''CONCURRENT_MODIFICATION'' 409)) (\<lambda>_.
    let patch = public_fields input r formData (map fst sels) now;
        changes = public_changes input r (if formDataChanged then Some formData else None) sels deltas in
    public_write env i m patch changes reprice formData sels deltas (pl_paymentReceived policy) s))))))"

end
