(* ===== verification/RegistrationEdited.thy ===== *)
theory RegistrationEdited
  imports RegistrationEdit PaymentProps
begin

text \<open>
  What a committed edit leaves: the counters of theory Conservation are kept, no other registration moved, an
  administrator's status change is an allowed override, and a self-edit leaves the price of a PAID registration.
\<close>

section \<open>The registered counters\<close>

lemma registered_up_preserved:
  assumes "store_ok s"
  shows "preserved s (snd (casIncrementAccessRegisteredCount k n s))"
proof -
  define p :: "access_row \<Rightarrow> bool" where "p = (\<lambda>r. ea_id r = k \<and> (case ea_maxCapacity r of None \<Rightarrow> True | Some c \<Rightarrow> ea_paidCount r + n \<le> c))"
  define f :: "access_row \<Rightarrow> access_row" where "f = (\<lambda>r. r\<lparr>ea_registeredCount := ea_registeredCount r + n\<rparr>)"
  have f: "ea_id (f r) = ea_id r" "ea_paidCount (f r) = ea_paidCount r" "ea_maxCapacity (f r) = ea_maxCapacity r" for r
    by (simp_all add: f_def)
  have s': "snd (casIncrementAccessRegisteredCount k n s) = s\<lparr>db_accesses := update_rows p f (db_accesses s)\<rparr>"
    by (simp add: casIncrementAccessRegisteredCount_def Let_def p_def f_def)
  have rows: "map_option ea_paidCount (row_of ea_id j (update_rows p f t)) = map_option ea_paidCount (row_of ea_id j t)" for j t
    by (induction t) (auto simp: f)
  have paid: "paid_count (s\<lparr>db_accesses := update_rows p f (db_accesses s)\<rparr>) j = paid_count s j" for j
    using rows[of j "db_accesses s"] by (auto simp: paid_count_def access_of_def split: option.splits)
  have ids: "map ea_id (update_rows p f (db_accesses s)) = map ea_id (db_accesses s)"
    by (rule keys_update_rows) (simp add: f)
  have row_ok: "access_row_ok r \<Longrightarrow> access_row_ok (f r)" for r
    by (cases "ea_maxCapacity r") (simp_all add: access_row_ok_def f)
  have ok: "accesses_ok (s\<lparr>db_accesses := update_rows p f (db_accesses s)\<rparr>)"
    using assms row_ok by (auto simp: store_ok_def accesses_ok_def ids set_update_rows)
  have cov: "coverages (s\<lparr>db_accesses := update_rows p f (db_accesses s)\<rparr>) j = coverages s j" for j
    by (rule coverages_tables) simp_all
  have "discrepancy (s\<lparr>db_accesses := update_rows p f (db_accesses s)\<rparr>) j = discrepancy s j" for j
    by (simp add: discrepancy_def paid places_held_def registration_state_def coveredAccessIdsOf_coverages cov)
  then show ?thesis
    using assms ok unfolding s' by (simp add: preserved_def store_ok_def db_wf_def accesses_wf_def ids same_owners_rows usages_known_iff)
qed

text \<open>A step that writes only the access items.\<close>

definition only_accesses :: "db \<Rightarrow> db \<Rightarrow> bool" where
  "only_accesses d d' \<longleftrightarrow> d' = d\<lparr>db_accesses := db_accesses d'\<rparr>"

lemma only_accesses_refl [simp]: "only_accesses d d"
  by (simp add: only_accesses_def)

lemma only_accesses_trans: "only_accesses d t \<Longrightarrow> only_accesses t u \<Longrightarrow> only_accesses d u"
  unfolding only_accesses_def by (cases d; cases t; cases u) simp

lemma only_accesses_fields:
  assumes "only_accesses d d'"
  shows "db_registrations d' = db_registrations d" "db_events d' = db_events d" "db_clock d' = db_clock d"
    "db_usages d' = db_usages d" "db_sponsorships d' = db_sponsorships d" "db_ids d' = db_ids d"
    "db_outbox d' = db_outbox d"
  using arg_cong[OF assms[unfolded only_accesses_def], of db_registrations]
    arg_cong[OF assms[unfolded only_accesses_def], of db_events] arg_cong[OF assms[unfolded only_accesses_def], of db_clock]
    arg_cong[OF assms[unfolded only_accesses_def], of db_usages] arg_cong[OF assms[unfolded only_accesses_def], of db_sponsorships]
    arg_cong[OF assms[unfolded only_accesses_def], of db_ids] arg_cong[OF assms[unfolded only_accesses_def], of db_outbox]
  by simp_all

lemma increment_Inr:
  assumes "incrementAccessRegisteredCountTx k n d = Inr d'"
  shows "d' = snd (casIncrementAccessRegisteredCount k n d)"
  using assms by (auto simp: incrementAccessRegisteredCountTx_def split: prod.splits if_splits option.splits)

lemma decrement_Inr:
  assumes "decrementAccessRegisteredCountTx k n d = Inr d'"
  shows "d' = snd (casDecrementAccessRegisteredCount k n d)"
  using assms by (auto simp: decrementAccessRegisteredCountTx_def split: prod.splits if_splits option.splits)

lemma registered_moves:
  "store_ok d \<Longrightarrow> kept d (snd (casIncrementAccessRegisteredCount k n d)) \<and> only_accesses d (snd (casIncrementAccessRegisteredCount k n d))"
  "store_ok d \<Longrightarrow> kept d (snd (casDecrementAccessRegisteredCount k n d)) \<and> only_accesses d (snd (casDecrementAccessRegisteredCount k n d))"
  using registered_up_preserved[of d k n] registered_preserved[of d k n]
  by (simp_all add: kept_def casIncrementAccessRegisteredCount_def casDecrementAccessRegisteredCount_def Let_def only_accesses_def)

lemma move_registered_kept:
  assumes "store_ok d" and "move_registered deltas d = Inr d'"
  shows "kept d d' \<and> only_accesses d d'"
  using assms
proof (induction deltas arbitrary: d)
  case Nil
  then show ?case by (simp add: move_registered_def kept_refl)
next
  case (Cons x deltas)
  obtain i delta where x: "x = (i, delta)" by (cases x)
  from Cons.prems(2) obtain t where
    t: "(if 0 < delta then incrementAccessRegisteredCountTx i delta else decrementAccessRegisteredCountTx i (- delta)) d = Inr t"
    and rest: "move_registered deltas t = Inr d'"
    by (auto simp: move_registered_def x elim!: sbind_InrE)
  have k: "kept d t \<and> only_accesses d t"
    using t registered_moves[OF Cons.prems(1)] increment_Inr[of i delta d t] decrement_Inr[of i "- delta" d t]
    by (auto split: if_splits)
  with Cons.IH[OF kept_ok rest] show ?case
    using kept_trans only_accesses_trans by blast
qed

section \<open>Repricing\<close>

lemma moved_then_same:
  assumes mv: "moved_row i s s1 r r'" and run: "in_settle (\<lambda>d. Inr (x, g d)) s1 = Inr (y, s2)"
    and g: "\<And>d. same_store d (g d)"
  shows "moved_row i s s2 r r'"
proof -
  have ok: "store_ok (settle_view s1)" using mv by (auto simp: moved_row_def intro: kept_ok)
  have k: "\<And>d. Inr (x, g (settle_view s1)) = (Inr (y, d) :: error + _) \<Longrightarrow> kept (settle_view s1) d"
    using same_store_kept[OF ok g] by auto
  obtain d where d: "Inr (x, g (settle_view s1)) = (Inr (y, d) :: error + _)" "settle_view s2 = d" "kept (settle_view s1) d"
    "db_registrations (ad_settle s2) = db_registrations d"
    "ad_events s2 = ad_events s1" "ad_forms s2 = ad_forms s1" "ad_edges s2 = ad_edges s1" "ad_pricing s2 = ad_pricing s1"
    by (rule in_settle_Inr[OF run k]) blast
  have "db_registrations (ad_settle s2) = db_registrations (ad_settle s1)"
    using d(1,4) same_store_fields(1)[OF g, of "settle_view s1"] by simp
  then have "registration_of (ad_settle s2) j = registration_of (ad_settle s1) j" for j
    by (simp add: registration_of_def)
  with mv d kept_trans show ?thesis by (auto simp: moved_row_def)
qed

lemma reprice_moved:
  assumes ok: "store_ok (settle_view s)" and row: "registration_of (ad_settle s) (rg_id r) = Some r"
    and run: "repriceRegistration env r input s = Inr ((res, deltas), s1)"
  obtains r' chosen priced where "moved_row (rg_id r) s s1 r r'" "stores r' (sr_after res)"
    "sr_before res = readSettlementRow r"
    "rg_totalAmount r' = (if ri_keepHigherTotal input then max (rg_totalAmount r) (pb_subtotal priced) else pb_subtotal priced)"
    "chosen_decision (reprice_options r priced input) \<lparr>di_before = readSettlementRow r, di_gross = rg_totalAmount r',
      di_sponsorship = rg_sponsorshipAmount r',
      di_net = max 0 (rg_totalAmount r' - rg_sponsorshipAmount r')\<rparr> = Inr chosen"
    "rg_paidAmount r' = or_stored (sd_paidAmount chosen) (rg_paidAmount r)"
    "decided_status chosen (readSettlementRow r) (rg_totalAmount r') (rg_sponsorshipAmount r') (rg_paidAmount r')
      (db_clock (ad_settle s)) = Inr (rg_paymentStatus r', rg_paidAt r')"
proof -
  let ?d = "settle_view s" and ?i = "rg_id r"
  let ?deltas = "accessQuantityDeltas (item_quantities (pb_accessItems (rg_priceBreakdown r))) (ri_accessSelections input)"
  from run obtain priced where st: "in_settle (reprice_statements (px_icu env) r (reprice_options r priced input) ?deltas) s = Inr (res, s1)"
    unfolding repriceRegistration_def Let_def by (auto elim!: sbind_InrE)
  let ?o = "reprice_options r priced input"
  have plain: "so_coveredAccessIdsBefore ?o = None" "so_expectedUpdatedAt ?o = None" "so_now ?o = None"
    "so_decide ?o = Some (ri_decide input)" "so_totalAmount ?o \<noteq> None"
    by (simp_all add: reprice_options_def no_options_def)
  have parts: "\<exists>d1 d2. move_registered ?deltas ?d = Inr d1 \<and> settleRegistrationTxn (px_icu env) ?i ?o d1 = Inr (Some res, d2) \<and>
      d = snd (handleCapacityReached (rg_eventId r) (pm_incremented (sr_paidAccess res)) d2)"
    if "reprice_statements (px_icu env) r ?o ?deltas ?d = Inr (res, d)" for d
    using that unfolding reprice_statements_def by (auto elim!: sbind_InrE split: option.splits prod.splits)
  have kd: "kept ?d d" if h: "reprice_statements (px_icu env) r ?o ?deltas ?d = Inr (res, d)" for d
  proof -
    obtain d1 d2 where d: "move_registered ?deltas ?d = Inr d1" "settleRegistrationTxn (px_icu env) ?i ?o d1 = Inr (Some res, d2)"
      "d = snd (handleCapacityReached (rg_eventId r) (pm_incremented (sr_paidAccess res)) d2)" using parts[OF h] by blast
    have k1: "kept ?d d1" using move_registered_kept[OF ok d(1)] by blast
    have k2: "kept d1 d2" by (rule settle_kept[OF kept_ok[OF k1] d(2) plain(1,2)])
    have "kept d2 d" unfolding d(3) by (rule same_store_kept[OF kept_ok[OF k2] same_store_capacity])
    with k1 k2 show ?thesis using kept_trans by blast
  qed
  obtain d where d: "reprice_statements (px_icu env) r ?o ?deltas ?d = Inr (res, d)" "settle_view s1 = d" "kept ?d d"
    and regs: "db_registrations (ad_settle s1) = db_registrations d"
    and tabs: "ad_events s1 = ad_events s" "ad_forms s1 = ad_forms s" "ad_edges s1 = ad_edges s" "ad_pricing s1 = ad_pricing s"
    by (rule in_settle_Inr[OF st kd]) blast
  obtain d1 d2 where m: "move_registered ?deltas ?d = Inr d1" and se: "settleRegistrationTxn (px_icu env) ?i ?o d1 = Inr (Some res, d2)"
    and dd: "d = snd (handleCapacityReached (rg_eventId r) (pm_incremented (sr_paidAccess res)) d2)" using parts[OF d(1)] by blast
  note mk = move_registered_kept[OF ok m]
  note of = only_accesses_fields[OF conjunct2[OF mk]]
  have same1: "registration_of d1 j = registration_of ?d j" for j by (simp add: registration_of_def of)
  have same2: "registration_of (ad_settle s1) j = registration_of d2 j" for j
    using same_store_fields(1)[OF same_store_capacity[where d = d2]] by (simp add: registration_of_def regs dd)
  obtain r0 r' chosen where r0: "registration_of d1 ?i = Some r0" and r': "registration_of d2 ?i = Some r'"
    and ev: "rg_eventId r' = rg_eventId r0" and sto: "stores r' (sr_after res)" and bef: "sr_before res = readSettlementRow r0"
    and oth: "\<And>j. j \<noteq> ?i \<Longrightarrow> registration_of d2 j = registration_of d1 j"
    and ch: "chosen_decision ?o \<lparr>di_before = readSettlementRow r0, di_gross = rg_totalAmount r',
      di_sponsorship = rg_sponsorshipAmount r', di_net = max 0 (rg_totalAmount r' - rg_sponsorshipAmount r')\<rparr> = Inr chosen"
    and pa: "rg_paidAmount r' = or_stored (sd_paidAmount chosen) (rg_paidAmount r0)"
    and de: "decided_status chosen (readSettlementRow r0) (rg_totalAmount r') (rg_sponsorshipAmount r') (rg_paidAmount r')
      (or_stored (so_now ?o) (db_clock d1)) = Inr (rg_paymentStatus r', rg_paidAt r')"
    by (rule settle_decided[OF kept_ok[OF conjunct1[OF mk]] se plain(2,4)]) blast
  have eq: "r0 = r" using r0 row by (simp add: same1)
  have "ss_totalAmount (sr_after res) = (case so_totalAmount ?o of Some t \<Rightarrow> t | None \<Rightarrow>
      if so_priceBreakdown ?o \<noteq> None then pb_subtotal (ss_priceBreakdown (sr_after res)) else rg_totalAmount r)"
    using settle_InrE[OF se settle_written[OF se plain(2)]] r0 eq by (metis option.inject)
  then have tot: "rg_totalAmount r' = (if ri_keepHigherTotal input then max (rg_totalAmount r) (pb_subtotal priced) else pb_subtotal priced)"
    using sto by (simp add: stores_def reprice_options_def)
  have mv: "moved_row ?i s s1 r r'"
    using row r' ev oth d(2,3) tabs eq by (simp add: moved_row_def same2 same1)
  show ?thesis
    by (rule that[OF mv sto _ tot]) (use bef ch pa de eq of in \<open>simp_all add: or_stored_def plain\<close>)
qed

section \<open>Decisions\<close>

definition net_of :: "registration_row \<Rightarrow> money" where
  "net_of r = max 0 (rg_totalAmount r - rg_sponsorshipAmount r)"

lemma netOf_Inr: "netOf t sp = Inr n \<Longrightarrow> n = max 0 (t - sp)"
  by (auto simp: netOf_def sbind_Inr_iff dest: subtractMoney_Inr)

lemma before_amounts: "netOf (ss_totalAmount (readSettlementRow r)) (ss_sponsorshipAmount (readSettlementRow r)) = Inr n \<Longrightarrow> n = net_of r"
  by (auto simp: readSettlementRow_def net_of_def dest: netOf_Inr)

lemma decided_auto:
  assumes "decided_status c before t sp p now = Inr (st, pAt)" and "sd_paymentStatus c = None"
  shows "(st = ss_paymentStatus before \<or> st \<in> set (AUTO_TRANSITIONS (ss_paymentStatus before))) \<and>
    (isStickySettlementStatus (ss_paymentStatus before) \<longrightarrow> st = ss_paymentStatus before)"
proof -
  let ?i = "\<lparr>si_gross = t, si_sponsorship = sp, si_paid = p, si_currentStatus = ss_paymentStatus before,
    si_paidAt = ss_paidAt before, si_now = now\<rparr>"
  from assms obtain d where "deriveSettlement ?i = Inr d" "st = ds_status d"
    by (auto simp: decided_status_def elim!: sbind_InrE)
  then have "st = settled_status ?i" by (auto elim: deriveSettlement_InrE)
  then show ?thesis
    by (cases "ss_paymentStatus before") (auto simp: settled_status_def Let_def sticky_cases)
qed

lemma decided_given:
  "decided_status c before t sp p now = Inr (st, pAt) \<Longrightarrow> sd_paymentStatus c = Some x \<Longrightarrow> st = x"
  by (simp add: decided_status_def)

text \<open>The amount the administrator states: the one given, or the net with the status PAID.\<close>

definition admin_amount :: "admin_edit_input \<Rightarrow> money \<Rightarrow> money option" where
  "admin_amount input net = (case ed_paidAmount input of Some v \<Rightarrow> Some v
     | None \<Rightarrow> if ed_paymentStatus input = Some PAID then Some net else None)"

text \<open>A derivation finds a registration PAID only when the net is received, or when it was PAID.\<close>

lemma decided_paid:
  assumes "decided_status c before t sp p now = Inr (PAID, pAt)" and "sd_paymentStatus c = None"
    and "ss_paymentStatus before \<noteq> PAID"
  shows "max 0 (t - sp) \<le> p"
proof -
  let ?i = "\<lparr>si_gross = t, si_sponsorship = sp, si_paid = p, si_currentStatus = ss_paymentStatus before,
    si_paidAt = ss_paidAt before, si_now = now\<rparr>"
  from assms obtain d where "deriveSettlement ?i = Inr d" "PAID = ds_status d"
    by (auto simp: decided_status_def elim!: sbind_InrE)
  then have "settled_status ?i = PAID" by (auto elim: deriveSettlement_InrE)
  with assms(3) show ?thesis
    by (auto simp: settled_status_def Let_def sticky_cases split: if_splits)
qed

lemma admin_decide_Inr:
  assumes "admin_decide input paidAt \<lparr>di_before = readSettlementRow r, di_gross = g, di_sponsorship = sp, di_net = net\<rparr> = Inr d"
  shows "d = Some \<lparr>sd_paymentStatus = ed_paymentStatus input, sd_paidAmount = admin_amount input net,
      sd_paidAt = map_option Some paidAt\<rparr> \<and> or_stored (admin_amount input net) (rg_paidAmount r) \<le> net \<and>
    (rg_paymentStatus r = PAID \<and> net \<noteq> net_of r \<longrightarrow>
      (ed_paymentStatus input = None \<longrightarrow> ed_paidAmount input \<noteq> None) \<and>
      (or_stored (ed_paymentStatus input) (rg_paymentStatus r) = PAID \<longrightarrow>
        net \<le> or_stored (admin_amount input net) (rg_paidAmount r)))"
proof -
  have sel: "ss_paymentStatus (readSettlementRow r) = rg_paymentStatus r" "ss_paidAmount (readSettlementRow r) = rg_paidAmount r"
    by (simp_all add: readSettlementRow_def)
  obtain cur where cur: "netOf (ss_totalAmount (readSettlementRow r)) (ss_sponsorshipAmount (readSettlementRow r)) = Inr cur"
    using assms unfolding admin_decide_def Let_def by (auto elim!: sbind_InrE)
  have c: "cur = net_of r" by (rule before_amounts[OF cur])
  show ?thesis
    using assms unfolding admin_decide_def Let_def
    by (auto simp: cur c sel sbind_Inr_iff admin_amount_def split: if_splits option.splits)
qed

section \<open>The administrator's edit\<close>

lemma edit_settlement_Inr:
  assumes "edit_settlement input r st pAt = Inr w"
  shows "sw_paymentStatus w = st \<and> sw_priceBreakdown w = None \<and> sw_totalAmount w = None \<and> sw_sponsorshipAmount w = None \<and>
    or_stored (sw_paidAmount w) (rg_paidAmount r) = or_stored (admin_amount input (net_of r)) (rg_paidAmount r)"
proof -
  obtain amounts where a: "calculateSettlement (rg_totalAmount r) (rg_paidAmount r) (rg_sponsorshipAmount r) = Inr amounts"
    using assms unfolding edit_settlement_def by (rule sbind_InrE)
  have "sa_netAmount amounts = net_of r" using netOf_Inr[OF calculateSettlement_net[OF a]] by (simp add: net_of_def)
  with assms a show ?thesis
    by (auto simp: edit_settlement_def no_settlement_def sbind_Inr_iff Let_def or_stored_def admin_amount_def
        split: option.splits if_splits)
qed

lemma same_store_edit_finish: "same_store d (edit_finish i who cs m st ids d)"
  unfolding edit_finish_def Let_def
  by (auto intro: same_store_trans[OF same_store_reg_audit same_store_events])

lemma payment_edit_written:
  assumes ok: "store_ok d" and run: "payment_edit_statements i w f st cs who m d = Inr (u, d')"
    and row: "registration_of d i = Some (rm_row m)" and ws: "sw_paymentStatus w = st" "sw_priceBreakdown w = None"
  shows "\<exists>r r' d1. written i w d d1 r r' \<and> kept d d' \<and> db_registrations d' = db_registrations d1"
proof -
  let ?r = "rm_row m"
  from run obtain b d1 d2 where a: "applyRegistrationSettlement i w f None d = Inr (b, d1)"
    and sy: "(case st of None \<Rightarrow> Inr d1 | Some s \<Rightarrow> syncPaidCount i (rg_eventId ?r) (rg_priceBreakdown ?r) (rg_paymentStatus ?r) s d1) = Inr d2"
    and d': "same_store d2 d'"
    unfolding payment_edit_statements_def Let_def by (auto elim!: sbind_InrE simp: same_store_edit_finish)
  obtain r r' where w: "written i w d d1 r r'" by (rule write_row[OF ok a]) (use row ws in auto)
  have r: "r = ?r" using writtenD(1)[OF w] row by simp
  have "kept d d2 \<and> db_registrations d2 = db_registrations d1"
  proof (cases st)
    case None
    then have "rg_paymentStatus r' = rg_paymentStatus r" using writtenD(3)[OF w] ws by (simp add: or_stored_def)
    from written_same_status[OF ok w this] show ?thesis using sy None by simp
  next
    case (Some x)
    then have "rg_paymentStatus r' = x" using writtenD(3)[OF w] ws by (simp add: or_stored_def)
    with sy Some r have "syncPaidCount i (rg_eventId r) (rg_priceBreakdown r) (rg_paymentStatus r) (rg_paymentStatus r') d1 = Inr d2"
      by simp
    from write_then_sync[OF ok w this] show ?thesis .
  qed
  then have "kept d d'" "db_registrations d' = db_registrations d1"
    using kept_trans[OF _ same_store_kept[OF kept_ok d']] same_store_fields[OF d'] by auto
  with w show ?thesis by blast
qed

definition price_edited :: "admin_edit_input \<Rightarrow> bool" where
  "price_edited input \<longleftrightarrow> ed_accessSelections input \<noteq> None \<or> ed_formData input \<noteq> None"

lemma override_changed:
  assumes "(case changed_field given old of None \<Rightarrow> Inr () | Some st \<Rightarrow> validateAdminPaymentOverride old st) = Inr u"
    and "given = Some new"
  shows "validateAdminPaymentOverride old new = Inr ()"
  using assms by (auto simp: changed_field_def validateAdminPaymentOverride_def assertTransition_Inr split: if_splits)

lemma override_derived:
  assumes "isStickySettlementStatus old \<longrightarrow> new = old"
  shows "validateAdminPaymentOverride old new = Inr ()"
proof (cases "old = REFUNDED")
  case True
  then show ?thesis using assms by (simp add: sticky_cases validateAdminPaymentOverride_def assertTransition_Inr)
next
  case False
  then show ?thesis by (rule validateAdminPaymentOverride_total)
qed

lemma adminEdit_moved:
  assumes ok: "store_ok (settle_view s)" and run: "adminEditRegistration env eventId i input who s = Inr (u, s')"
  shows "\<exists>r r'. moved_row i s s' r r' \<and> rg_eventId r = eventId \<and>
    validateAdminPaymentOverride (rg_paymentStatus r) (rg_paymentStatus r') = Inr () \<and>
    rg_paidAmount r' = or_stored (admin_amount input (net_of r')) (rg_paidAmount r) \<and>
    (price_edited input \<longrightarrow> rg_paidAmount r' \<le> net_of r') \<and>
    (ed_paidAmount input = None \<and> rg_paymentStatus r' = PAID \<and>
      (rg_paymentStatus r = PAID \<longrightarrow> rg_paidAmount r = net_of r) \<longrightarrow> rg_paidAmount r' = net_of r') \<and>
    (rg_paymentStatus r = PAID \<and> rg_paymentStatus r' = PAID \<and> net_of r' \<noteq> net_of r \<longrightarrow> rg_paidAmount r' = net_of r')"
proof -
  let ?now = "db_clock (ad_settle s)"
  from run obtain m email data where lock: "lockRegistrationForMutation i s = Inr m"
    and ev: "rg_eventId (rm_row m) = eventId"
    and tr: "(case changed_field (ed_paymentStatus input) (rg_paymentStatus (rm_row m)) of None \<Rightarrow> Inr ()
      | Some st \<Rightarrow> validateAdminPaymentOverride (rg_paymentStatus (rm_row m)) st) = Inr ()"
    and rest: "(if price_edited input
      then price_edit env eventId i input (edit_fields input (rm_row m) email data ?now)
        (changed_field (ed_paymentStatus input) (rg_paymentStatus (rm_row m)))
        (if changed_field (ed_paymentStatus input) (rg_paymentStatus (rm_row m)) \<noteq> None
            \<and> isFullySettled (changed_field (ed_paymentStatus input) (rg_paymentStatus (rm_row m)))
            \<and> rg_paidAt (rm_row m) = None then Some ?now else None)
        (edit_changes input (rm_row m) email (changed_field (ed_paymentStatus input) (rg_paymentStatus (rm_row m)))) data who m s
      else sbind (edit_settlement input (rm_row m) (changed_field (ed_paymentStatus input) (rg_paymentStatus (rm_row m)))
          (if changed_field (ed_paymentStatus input) (rg_paymentStatus (rm_row m)) \<noteq> None
            \<and> isFullySettled (changed_field (ed_paymentStatus input) (rg_paymentStatus (rm_row m)))
            \<and> rg_paidAt (rm_row m) = None then Some ?now else None)) (\<lambda>w.
        in_settle (payment_edit_statements i w (edit_fields input (rm_row m) email data ?now)
          (changed_field (ed_paymentStatus input) (rg_paymentStatus (rm_row m)))
          (edit_changes input (rm_row m) email (changed_field (ed_paymentStatus input) (rg_paymentStatus (rm_row m)))
            @ (case sw_paidAmount w of None \<Rightarrow> []
               | Some v \<Rightarrow> if v \<noteq> rg_paidAmount (rm_row m) then [Changed ''paidAmount'' (Av_money (rg_paidAmount (rm_row m))) (Av_money v)] else []))
          who m) s)) = Inr (u, s')"
    unfolding adminEditRegistration_def Let_def price_edited_def by (auto elim!: sbind_InrE)
  let ?r = "rm_row m" and ?st = "changed_field (ed_paymentStatus input) (rg_paymentStatus (rm_row m))"
  note row = lockForMutation_Inr[OF lock]
  have idr: "rg_id ?r = i" by (rule registration_of_key[OF row])
  show ?thesis
  proof (cases "price_edited input")
    case True
    with rest obtain rin pAt res deltas s1 g where rp: "repriceRegistration env ?r rin s = Inr ((res, deltas), s1)"
      and dec: "ri_decide rin = admin_decide input pAt"
      and fin: "in_settle (\<lambda>d. Inr ((), g d)) s1 = Inr (u, s')" and g: "\<And>d. same_store d (g d)"
      unfolding price_edit_def Let_def by (auto elim!: sbind_InrE simp: same_store_edit_finish)
    obtain r' chosen priced where mv: "moved_row (rg_id ?r) s s1 ?r r'"
      and ch: "chosen_decision (reprice_options ?r priced rin) \<lparr>di_before = readSettlementRow ?r, di_gross = rg_totalAmount r',
        di_sponsorship = rg_sponsorshipAmount r',
        di_net = max 0 (rg_totalAmount r' - rg_sponsorshipAmount r')\<rparr> = Inr chosen"
      and pa: "rg_paidAmount r' = or_stored (sd_paidAmount chosen) (rg_paidAmount ?r)"
      and de: "decided_status chosen (readSettlementRow ?r) (rg_totalAmount r') (rg_sponsorshipAmount r') (rg_paidAmount r')
        ?now = Inr (rg_paymentStatus r', rg_paidAt r')"
      by (rule reprice_moved[OF ok _ rp]) (use row idr in blast)+
    from ch obtain d where ad: "admin_decide input pAt \<lparr>di_before = readSettlementRow ?r, di_gross = rg_totalAmount r',
        di_sponsorship = rg_sponsorshipAmount r', di_net = net_of r'\<rparr> = Inr d"
      and chd: "chosen = (case d of Some c \<Rightarrow> c | None \<Rightarrow> chosen)"
      by (auto simp: chosen_decision_def reprice_options_def dec net_of_def sbind_Inr_iff split: option.splits)
    note D = admin_decide_Inr[OF ad]
    let ?amount = "admin_amount input (net_of r')"
    have d: "chosen = \<lparr>sd_paymentStatus = ed_paymentStatus input, sd_paidAmount = ?amount, sd_paidAt = map_option Some pAt\<rparr>"
      using chd D by simp
    have paid: "rg_paidAmount r' = or_stored ?amount (rg_paidAmount ?r)" using pa by (simp add: d)
    have le: "rg_paidAmount r' \<le> net_of r'" using D by (simp add: paid)
    have status: "validateAdminPaymentOverride (rg_paymentStatus ?r) (rg_paymentStatus r') = Inr () \<and>
        (rg_paymentStatus ?r = PAID \<and> rg_paymentStatus r' = PAID \<longrightarrow> or_stored (ed_paymentStatus input) (rg_paymentStatus ?r) = PAID)"
    proof (cases "ed_paymentStatus input")
      case None
      have "isStickySettlementStatus (rg_paymentStatus ?r) \<longrightarrow> rg_paymentStatus r' = rg_paymentStatus ?r"
        using decided_auto[OF de] None by (simp add: d readSettlementRow_def)
      with None override_derived show ?thesis by (simp add: or_stored_def)
    next
      case (Some x)
      have "rg_paymentStatus r' = x" using decided_given[OF de] Some by (simp add: d)
      with override_changed[OF tr Some] Some show ?thesis by (simp add: or_stored_def)
    qed
    have moved: "rg_paidAmount r' = net_of r'"
      if "rg_paymentStatus ?r = PAID" "rg_paymentStatus r' = PAID" "net_of r' \<noteq> net_of ?r"
      using D status le that by (simp add: paid)
    have full: "rg_paidAmount r' = net_of r'" if given: "ed_paidAmount input = None" "rg_paymentStatus r' = PAID"
      and before: "rg_paymentStatus ?r = PAID \<longrightarrow> rg_paidAmount ?r = net_of ?r"
    proof (cases "ed_paymentStatus input")
      case (Some x)
      have "rg_paymentStatus r' = x" using decided_given[OF de] Some by (simp add: d)
      with Some given show ?thesis by (simp add: paid admin_amount_def or_stored_def)
    next
      case None
      then have same: "rg_paidAmount r' = rg_paidAmount ?r" using given by (simp add: paid admin_amount_def or_stored_def)
      show ?thesis
      proof (cases "rg_paymentStatus ?r = PAID")
        case True
        with same before moved given show ?thesis by metis
      next
        case False
        have "decided_status chosen (readSettlementRow ?r) (rg_totalAmount r') (rg_sponsorshipAmount r') (rg_paidAmount r')
            ?now = Inr (PAID, rg_paidAt r')" using de given by simp
        from decided_paid[OF this] False None have "net_of r' \<le> rg_paidAmount r'"
          by (simp add: d net_of_def readSettlementRow_def)
        with le show ?thesis by (rule antisym)
      qed
    qed
    have "moved_row i s s' ?r r'" using moved_then_same[OF mv fin g] idr by simp
    with status le paid moved full ev show ?thesis
      by (intro exI[of _ ?r] exI[of _ r']) blast
  next
    case False
    with rest obtain w pAt f cs where w: "edit_settlement input ?r ?st pAt = Inr w"
      and st: "in_settle (payment_edit_statements i w f ?st cs who m) s = Inr (u, s')"
      by (auto elim!: sbind_InrE)
    note wi = edit_settlement_Inr[OF w]
    have "\<exists>r r' d1. moved_row i s s' r r' \<and> written i w (settle_view s) d1 r r'"
      by (rule write_statements_moved[OF st ok])
        (use payment_edit_written[OF ok] row wi in \<open>simp add: registrations_view\<close>)
    then obtain r r' d1 where mv: "moved_row i s s' r r'" and wr: "written i w (settle_view s) d1 r r'" by blast
    have r: "r = ?r" using mv row by (simp add: moved_row_def)
    have "rg_paymentStatus r' = or_stored ?st (rg_paymentStatus r)" using writtenD(3)[OF wr] wi by simp
    then have "validateAdminPaymentOverride (rg_paymentStatus r) (rg_paymentStatus r') = Inr ()"
      using tr r by (cases ?st) (auto simp: or_stored_def validateAdminPaymentOverride_def assertTransition_Inr)
    moreover have net: "net_of r' = net_of r" using writtenD(5,6)[OF wr] wi by (simp add: net_of_def or_stored_def)
    moreover have paid: "rg_paidAmount r' = or_stored (admin_amount input (net_of r')) (rg_paidAmount r)"
      using writtenD(4)[OF wr] wi r net by simp
    moreover have "rg_paidAmount r' = net_of r'" if given: "ed_paidAmount input = None" "rg_paymentStatus r' = PAID"
      and before: "rg_paymentStatus r = PAID \<longrightarrow> rg_paidAmount r = net_of r"
    proof (cases "ed_paymentStatus input = Some PAID")
      case True
      with given show ?thesis by (simp add: paid admin_amount_def or_stored_def)
    next
      case False
      have "rg_paymentStatus r' = or_stored ?st (rg_paymentStatus r)" using writtenD(3)[OF wr] wi by simp
      then have "rg_paymentStatus r = PAID"
        using False given(2) r by (auto simp: changed_field_def or_stored_def split: option.splits if_splits)
      with False given before net show ?thesis by (simp add: paid admin_amount_def or_stored_def)
    qed
    ultimately show ?thesis using mv ev r False by (intro exI[of _ r] exI[of _ r']) simp
  qed
qed

section \<open>The public self-edit\<close>

lemma public_decide_Inr:
  assumes "public_decide \<lparr>di_before = readSettlementRow r, di_gross = g, di_sponsorship = sp, di_net = net\<rparr> = Inr d"
  shows "d = None \<and> (rg_paymentStatus r = PAID \<longrightarrow> net = net_of r)"
proof -
  obtain cur where cur: "netOf (ss_totalAmount (readSettlementRow r)) (ss_sponsorshipAmount (readSettlementRow r)) = Inr cur"
    using assms unfolding public_decide_def Let_def by (auto elim!: sbind_InrE)
  have "ss_paymentStatus (readSettlementRow r) = rg_paymentStatus r" by (simp add: readSettlementRow_def)
  with assms show ?thesis
    unfolding public_decide_def Let_def
    by (auto simp: cur before_amounts[OF cur] sbind_Inr_iff)
qed

lemma same_store_public_finish: "same_store d (public_finish i cs m st ids d)"
  unfolding public_finish_def Let_def
  by (auto intro: same_store_trans[OF same_store_reg_audit same_store_events])

lemma self_edit_not_refunded:
  assumes "assertSelfEditAllowed (edit_policy_of m now) (rm_clientActive m) (rm_enabledModules m) c rs = Inr u"
  shows "rg_paymentStatus (rm_row m) \<noteq> REFUNDED"
  using assms
  by (auto simp: assertSelfEditAllowed_def edit_policy_of_def evaluateEditPolicy_def Let_def edit_block_error_def
      elim!: sbind_InrE)

lemma payment_received:
  "pl_paymentReceived (edit_policy_of m now) \<longleftrightarrow>
    rg_paymentStatus (rm_row m) = PAID \<or> rg_paymentStatus (rm_row m) = SPONSORED \<or> 0 < rg_paidAmount (rm_row m)"
  by (simp add: edit_policy_of_def evaluateEditPolicy_def Let_def)

text \<open>What a committed self-edit did to the row.\<close>

definition self_edited :: "public_edit_input \<Rightarrow> registration_row \<Rightarrow> registration_row \<Rightarrow> bool" where
  "self_edited input r r' \<longleftrightarrow> ve_expectedUpdatedAt input = Some (rg_updatedAt r) \<and>
    rg_paymentStatus r \<noteq> REFUNDED \<and> rg_paidAmount r' = rg_paidAmount r \<and>
    (rg_paymentStatus r' = rg_paymentStatus r \<or> rg_paymentStatus r' \<in> set (AUTO_TRANSITIONS (rg_paymentStatus r))) \<and>
    (rg_paymentStatus r = PAID \<longrightarrow> net_of r' = net_of r) \<and>
    (rg_paymentStatus r = PAID \<or> rg_paymentStatus r = SPONSORED \<or> 0 < rg_paidAmount r \<longrightarrow>
      rg_totalAmount r \<le> rg_totalAmount r')"

lemma self_edit_repriced:
  assumes ok: "store_ok (settle_view s)" and row: "registration_of (ad_settle s) i = Some (rm_row m)"
    and rp: "repriceRegistration env (rm_row m) rin s = Inr ((res, deltas), s1)"
    and dec: "ri_decide rin = public_decide" and keep: "ri_keepHigherTotal rin = pl_paymentReceived (edit_policy_of m now)"
    and nr: "rg_paymentStatus (rm_row m) \<noteq> REFUNDED"
    and up: "ve_expectedUpdatedAt input = Some (rg_updatedAt (rm_row m))"
  shows "\<exists>r'. moved_row i s s1 (rm_row m) r' \<and> self_edited input (rm_row m) r'"
proof -
  let ?r = "rm_row m"
  have idr: "rg_id ?r = i" by (rule registration_of_key[OF row])
  obtain r' chosen priced where mv: "moved_row (rg_id ?r) s s1 ?r r'"
    and tot: "rg_totalAmount r' = (if ri_keepHigherTotal rin then max (rg_totalAmount ?r) (pb_subtotal priced) else pb_subtotal priced)"
    and ch: "chosen_decision (reprice_options ?r priced rin) \<lparr>di_before = readSettlementRow ?r, di_gross = rg_totalAmount r',
      di_sponsorship = rg_sponsorshipAmount r',
      di_net = max 0 (rg_totalAmount r' - rg_sponsorshipAmount r')\<rparr> = Inr chosen"
    and pa: "rg_paidAmount r' = or_stored (sd_paidAmount chosen) (rg_paidAmount ?r)"
    and de: "decided_status chosen (readSettlementRow ?r) (rg_totalAmount r') (rg_sponsorshipAmount r') (rg_paidAmount r')
      (db_clock (ad_settle s)) = Inr (rg_paymentStatus r', rg_paidAt r')"
    by (rule reprice_moved[OF ok _ rp]) (use row idr in blast)+
  from ch obtain d where pd: "public_decide \<lparr>di_before = readSettlementRow ?r, di_gross = rg_totalAmount r',
      di_sponsorship = rg_sponsorshipAmount r', di_net = net_of r'\<rparr> = Inr d"
    and chd: "chosen = (case d of Some c \<Rightarrow> c | None \<Rightarrow> \<lparr>sd_paymentStatus = None, sd_paidAmount = None, sd_paidAt = None\<rparr>)"
    by (auto simp: chosen_decision_def reprice_options_def no_options_def dec net_of_def sbind_Inr_iff split: option.splits)
  note D = public_decide_Inr[OF pd]
  have c: "sd_paymentStatus chosen = None" "sd_paidAmount chosen = None" using chd D by simp_all
  have st: "rg_paymentStatus r' = rg_paymentStatus ?r \<or> rg_paymentStatus r' \<in> set (AUTO_TRANSITIONS (rg_paymentStatus ?r))"
    using decided_auto[OF de c(1)] by (simp add: readSettlementRow_def)
  have "self_edited input ?r r'"
    unfolding self_edited_def using up nr pa c st D tot keep payment_received[of m now] by (auto simp: or_stored_def)
  with mv idr show ?thesis by auto
qed

lemma editRegistrationPublic_moved:
  assumes ok: "store_ok (settle_view s)" and run: "editRegistrationPublic env fmt i input s = Inr (pb, s')"
  shows "\<exists>r r'. moved_row i s s' r r' \<and> self_edited input r r'"
proof -
  let ?now = "db_clock (ad_settle s)"
  from run obtain m reprice fd sels deltas changes patch where lock: "lockRegistrationForPublicAction env i s = Inr m"
    and pol: "\<exists>c rs u. assertSelfEditAllowed (edit_policy_of m ?now) (rm_clientActive m) (rm_enabledModules m) c rs = Inr u"
    and up: "ve_expectedUpdatedAt input = Some (rg_updatedAt (rm_row m))"
    and rest: "public_write env i m patch changes reprice fd sels deltas (pl_paymentReceived (edit_policy_of m ?now)) s = Inr (pb, s')"
    unfolding editRegistrationPublic_def Let_def by (elim sbind_InrE) (simp only: guard_simps, blast)
  note row = lockForPublic_Inr[OF lock]
  have nr: "rg_paymentStatus (rm_row m) \<noteq> REFUNDED" using pol self_edit_not_refunded by blast
  show ?thesis
  proof (cases reprice)
    case True
    with rest obtain rin res ds s1 x g where rp: "repriceRegistration env (rm_row m) rin s = Inr ((res, ds), s1)"
      and rin: "ri_decide rin = public_decide" "ri_keepHigherTotal rin = pl_paymentReceived (edit_policy_of m ?now)"
      and fin: "in_settle (\<lambda>d. Inr (x, g d)) s1 = Inr (pb, s')" and g: "\<And>d. same_store d (g d)"
      unfolding public_write_def Let_def by (auto elim!: sbind_InrE simp: same_store_public_finish)
    obtain r' where "moved_row i s s1 (rm_row m) r'" "self_edited input (rm_row m) r'"
      using self_edit_repriced[OF ok row rp rin nr up] by blast
    with moved_then_same[OF _ fin g] show ?thesis by blast
  next
    case False
    let ?g = "\<lambda>d. sbind (applyRegistrationSettlement i no_settlement patch None d) (\<lambda>(_, d1).
      Inr (rg_priceBreakdown (rm_row m), public_finish i changes m (rg_paymentStatus (rm_row m)) [] d1)) :: error + price_breakdown \<times> db"
    from False rest have st: "in_settle ?g s = Inr (pb, s')" by (simp add: public_write_def Let_def)
    have wr: "\<exists>r r' d1. written i no_settlement (settle_view s) d1 r r' \<and> kept (settle_view s) d \<and>
        db_registrations d = db_registrations d1" if h: "?g (settle_view s) = Inr (pb, d)" for d
    proof -
      from h obtain b d1 where a: "applyRegistrationSettlement i no_settlement patch None (settle_view s) = Inr (b, d1)"
        and d: "same_store d1 d" by (auto elim!: sbind_InrE simp: same_store_public_finish)
      obtain r r' where w: "written i no_settlement (settle_view s) d1 r r'"
        by (rule write_row[OF ok a]) (use row in \<open>simp_all add: no_settlement_def\<close>)
      have "rg_paymentStatus r' = rg_paymentStatus r" using writtenD(3)[OF w] by (simp add: or_stored_def no_settlement_def)
      from written_same_status[OF ok w this] have k: "kept (settle_view s) d1" .
      from w kept_trans[OF k same_store_kept[OF kept_ok[OF k] d]] same_store_fields(1)[OF d] show ?thesis by blast
    qed
    obtain r r' d1 where mv: "moved_row i s s' r r'" and w: "written i no_settlement (settle_view s) d1 r r'"
      using write_statements_moved[OF st ok wr] by blast
    have r: "r = rm_row m" using mv row by (simp add: moved_row_def)
    have "self_edited input r r'"
      using writtenD(3-6)[OF w] up nr by (simp add: self_edited_def r or_stored_def no_settlement_def net_of_def)
    with mv show ?thesis by blast
  qed
qed

section \<open>Properties\<close>


text \<open>
  C37: a committed self-edit was made on the version the registrant saw, not on a refunded registration. It
  leaves the amount paid, the net of a PAID registration and every other registration, keeps the paid counters
  true, changes the status only as a derivation may, and never lowers the total once a payment was received.
\<close>

theorem editRegistrationPublic_settled:
  assumes "store_ok (settle_view s)" and "editRegistrationPublic env fmt i input s = Inr (pb, s')"
  shows "\<exists>r r'. moved_row i s s' r r' \<and> self_edited input r r'"
  using assms by (rule editRegistrationPublic_moved)

section \<open>Examples\<close>

definition no_admin_edit :: admin_edit_input where
  "no_admin_edit = \<lparr>ed_email = None, ed_firstName = None, ed_lastName = None, ed_phone = None, ed_formData = None,
     ed_role = None, ed_accessSelections = None, ed_paymentStatus = None, ed_paidAmount = None, ed_paymentMethod = None,
     ed_paymentReference = None, ed_paymentProofUrl = None, ed_note = None, ed_labName = None\<rparr>"

definition no_public_edit :: public_edit_input where
  "no_public_edit = \<lparr>ve_expectedUpdatedAt = Some 5, ve_formData = None, ve_firstName = None, ve_lastName = None,
     ve_phone = None, ve_accessSelections = None\<rparr>"

text \<open>An administrator removes the only paid item; a registrant gives back one of two places.\<close>

lemma demo_edit_runs:
  "case adminEditRegistration demo_access_env ''ev'' ''r1'' (no_admin_edit\<lparr>ed_accessSelections := Some []\<rparr>) (Some ''admin'')
      (demo_registration_db PARTIAL 2) of Inl e \<Rightarrow> False
   | Inr (u, s') \<Rightarrow> map ea_paidCount (ad_items s') = [0] \<and> map ea_registeredCount (ad_items s') = [0]"
  "case editRegistrationPublic demo_access_env demo_days ''r1'' (no_public_edit\<lparr>ve_accessSelections := Some [(''ws'', 1)]\<rparr>)
      (demo_registration_db PARTIAL 2) of Inl e \<Rightarrow> False
   | Inr (pb, s') \<Rightarrow> map ea_paidCount (ad_items s') = [0] \<and> map ea_registeredCount (ad_items s') = [1]"
  by code_simp+

text \<open>An administrator sets the amount paid of a PAID registration to 0: the row stays PAID and owes its net.\<close>

definition demo_underpaid :: "error + unit \<times> access_db \<Rightarrow> bool" where
  "demo_underpaid res = (case res of
     Inl e \<Rightarrow> False
   | Inr (u, s') \<Rightarrow> list_all (\<lambda>r. rg_paymentStatus r = PAID \<and> rg_paidAmount r = 0 \<and> 0 < net_of r) (db_registrations (ad_settle s'))
       \<and> length (db_registrations (ad_settle s')) = 1)"

lemma paid_edit_underpays:
  "demo_underpaid (adminEditRegistration demo_access_env ''ev'' ''r1'' (no_admin_edit\<lparr>ed_paidAmount := Some 0\<rparr>) (Some ''admin'')
     (demo_registration_db PAID 2))"
  by code_simp


theorem editRegistrationPublic_settled_witness:
  "\<exists>pb s' r r'. editRegistrationPublic demo_access_env demo_days ''r1'' (no_public_edit\<lparr>ve_accessSelections := Some [(''ws'', 1)]\<rparr>)
      (demo_registration_db PARTIAL 2) = Inr (pb, s') \<and> registration_of (ad_settle s') ''r1'' = Some r' \<and>
    self_edited (no_public_edit\<lparr>ve_accessSelections := Some [(''ws'', 1)]\<rparr>) r r' \<and> map ea_registeredCount (ad_items s') = [1]"
proof -
  obtain pb s' where run: "editRegistrationPublic demo_access_env demo_days ''r1''
      (no_public_edit\<lparr>ve_accessSelections := Some [(''ws'', 1)]\<rparr>) (demo_registration_db PARTIAL 2) = Inr (pb, s')"
    and c: "map ea_registeredCount (ad_items s') = [1]"
    using demo_edit_runs(2) by (auto split: sum.split_asm)
  from editRegistrationPublic_settled[OF demo_registration_ok(2) run] run c show ?thesis by (fastforce simp: moved_row_def)
qed

end
