(* ===== verification/RegistrationCreate.thy ===== *)
theory RegistrationCreate
  imports RegistrationEdited ReferenceProps
begin

text \<open>
  The creation of a registration: the public signup and the administrator's create
  (\<open>registrations.create.service.ts\<close>), with the rows they insert and the event's registered counter
  (\<open>packages/db/src/queries/registrations.ts\<close>, \<open>queries/events.ts\<close>). The reads before the transaction see an
  earlier state \<open>s0\<close>; the transaction is one step on \<open>s\<close>. Parameters: whether an address lies under an allowed
  origin, the edit token drawn, and which violated index the server names.
\<close>

section \<open>Writing through the tables\<close>

definition in_tables :: "(access_db \<Rightarrow> error + 'a \<times> access_db) \<Rightarrow> reg_db \<Rightarrow> error + 'a \<times> reg_db" where
  "in_tables f s = sbind (f (rd_tables s)) (\<lambda>(x, t). Inr (x, s\<lparr>rd_tables := t\<rparr>))"

definition in_rows :: "(db \<Rightarrow> error + 'a \<times> db) \<Rightarrow> reg_db \<Rightarrow> error + 'a \<times> reg_db" where
  "in_rows f = in_tables (in_settle f)"

text \<open>The unique indexes of \<open>registrations\<close>; NULL equals nothing.\<close>

definition same_key :: "string option \<Rightarrow> string option \<Rightarrow> bool" where
  "same_key a b \<longleftrightarrow> a \<noteq> None \<and> a = b"

definition registration_indexes :: "(string \<times> (registration_row \<Rightarrow> registration_row \<Rightarrow> bool)) list" where
  "registration_indexes =
    [(''registrations_pkey'', \<lambda>a b. rg_id a = rg_id b),
     (''registrations_reference_number_key'', \<lambda>a b. same_key (rg_referenceNumber a) (rg_referenceNumber b)),
     (''registrations_edit_token_key'', \<lambda>a b. same_key (rg_editToken a) (rg_editToken b)),
     (''registrations_idempotency_key_key'', \<lambda>a b. same_key (rg_idempotencyKey a) (rg_idempotencyKey b)),
     (''registrations_email_form_id_key'', \<lambda>a b. rg_email a = rg_email b \<and> rg_formId a = rg_formId b),
     (''registrations_event_id_sponsorship_code_key'', \<lambda>a b. rg_eventId a = rg_eventId b
        \<and> same_key (rg_sponsorshipCode a) (rg_sponsorshipCode b))]"

definition violated_indexes :: "registration_row \<Rightarrow> registration_row list \<Rightarrow> string list" where
  "violated_indexes r rows =
    map fst (filter (\<lambda>(_, same). list_ex (same r) rows) registration_indexes)"

definition insert_row :: "(string list \<Rightarrow> string) \<Rightarrow> registration_row \<Rightarrow> db \<Rightarrow> error + string \<times> db" where
  "insert_row reported values d =
    (case db_ids d of
       [] \<Rightarrow> Inl (Plain_error ''newId'')
     | i # ids \<Rightarrow>
        (let row = values\<lparr>rg_id := i\<rparr>; violated = violated_indexes row (db_registrations d) in
         if violated \<noteq> [] then Inl (Unique_violation (reported violated))
         else Inr (i, d\<lparr>db_ids := ids, db_registrations := db_registrations d @ [row]\<rparr>)))"

text \<open>The foreign keys ask for the row's form and event.\<close>

definition insertRegistrationRow ::
  "(string list \<Rightarrow> string) \<Rightarrow> registration_row \<Rightarrow> access_db \<Rightarrow> error + string \<times> access_db" where
  "insertRegistrationRow reported values s =
    sbind (guard (form_of s (rg_formId values) \<noteq> None \<and> event_of s (rg_eventId values) \<noteq> None)
      (Plain_error ''foreign key'')) (\<lambda>_.
    in_settle (insert_row reported values) s)"

section \<open>The event's registered counter\<close>

definition has_room :: "access_event \<Rightarrow> bool" where
  "has_room e \<longleftrightarrow> (case ae_maxCapacity e of None \<Rightarrow> True | Some c \<Rightarrow> ae_registeredCount e < c)"

definition casIncrementRegisteredTx :: "string \<Rightarrow> access_db \<Rightarrow> bool \<times> access_db" where
  "casIncrementRegisteredTx i s =
    (let p = (\<lambda>e. pe_id e = i \<and> pe_status e = Ev_open \<and> has_room e)
     in (list_ex p (ad_events s),
         s\<lparr>ad_events := update_rows p (\<lambda>e. e\<lparr>ae_registeredCount := ae_registeredCount e + 1\<rparr>) (ad_events s)\<rparr>))"

definition casDecrementRegisteredTx :: "string \<Rightarrow> access_db \<Rightarrow> bool \<times> access_db" where
  "casDecrementRegisteredTx i s =
    (let p = (\<lambda>e. pe_id e = i \<and> 0 < ae_registeredCount e)
     in (list_ex p (ad_events s),
         s\<lparr>ad_events := update_rows p (\<lambda>e. e\<lparr>ae_registeredCount := ae_registeredCount e - 1\<rparr>) (ad_events s)\<rparr>))"

definition event_full :: error where
  "event_full = App_exception ''EVENT_FULL'' 409"

definition event_not_open :: error where
  "event_not_open = App_exception ''EVENT_NOT_OPEN'' 400"

definition incrementEventRegistered :: "string \<Rightarrow> access_db \<Rightarrow> error + unit \<times> access_db" where
  "incrementEventRegistered eventId s =
    (case casIncrementRegisteredTx eventId s of (hit, t) \<Rightarrow>
      if hit then Inr ((), t)
      else case event_of s eventId of
        None \<Rightarrow> Inl notFound
      | Some info \<Rightarrow> if pe_status info \<noteq> Ev_open then Inl event_not_open else Inl event_full)"

definition decrementEventRegistered :: "string \<Rightarrow> access_db \<Rightarrow> error + unit \<times> access_db" where
  "decrementEventRegistered eventId s =
    (case casDecrementRegisteredTx eventId s of (hit, t) \<Rightarrow>
      if hit then Inr ((), t)
      else case event_of s eventId of None \<Rightarrow> Inl notFound | Some _ \<Rightarrow> Inl badRequest)"

section \<open>Requests and rows\<close>

record create_env =
  ce_pricing :: pricing_env
  ce_days :: day_format
  ce_linkAllowed :: "string \<Rightarrow> bool"
  ce_reported :: "string list \<Rightarrow> string"

record create_input =
  cr_formId :: string
  cr_formData :: form_data
  cr_email :: string
  cr_firstName :: "string option"
  cr_lastName :: "string option"
  cr_phone :: "string option"
  cr_accessSelections :: "(string \<times> int) list option"
  cr_paymentMethod :: "payment_method option"
  cr_labName :: "string option"
  cr_networkingOptIn :: "bool option"
  cr_sponsorshipCode :: "string option"
  cr_idempotencyKey :: "string option"
  cr_linkBaseUrl :: "string option"

definition sels_of :: "create_input \<Rightarrow> (string \<times> int) list" where
  "sels_of input = (case cr_accessSelections input of None \<Rightarrow> [] | Some xs \<Rightarrow> xs)"

definition gross_of :: "price_breakdown \<Rightarrow> price_breakdown" where
  "gross_of pb = pb\<lparr>pb_sponsorships := [], pb_sponsorshipTotal := 0, pb_total := pb_subtotal pb\<rparr>"

definition lab_name :: "payment_method option \<Rightarrow> string option \<Rightarrow> string option" where
  "lab_name paymentMethod labName = (if paymentMethod = Some LAB_SPONSORSHIP then labName else None)"

text \<open>A row with the columns of the price and the defaults of the table; the insert names its id.\<close>

definition priced_row ::
  "string \<Rightarrow> form_row \<Rightarrow> form_data \<Rightarrow> price_breakdown \<Rightarrow> money \<Rightarrow> string \<Rightarrow> string list \<Rightarrow> date \<Rightarrow> registration_row" where
  "priced_row email form formData pb discount referenceNumber accessIds now =
    \<lparr>rg_id = [], rg_eventId = fm_eventId form, rg_email = email, rg_firstName = None, rg_lastName = None,
     rg_paymentStatus = PENDING, rg_paidAt = None, rg_paidAmount = 0, rg_totalAmount = pb_subtotal pb,
     rg_sponsorshipAmount = 0, rg_priceBreakdown = pb, rg_baseAmount = pb_calculatedBasePrice pb,
     rg_accessAmount = pb_accessTotal pb, rg_discountAmount = discount, rg_paymentMethod = None,
     rg_sponsorshipCode = None, rg_accessTypeIds = Some accessIds, rg_droppedAccessIds = Some [],
     rg_createdAt = now, rg_updatedAt = now, rg_formId = fm_id form, rg_formData = formData,
     rg_formSchemaVersion = fm_schemaVersion form, rg_networkingOptIn = None, rg_submittedAt = now,
     rg_phone = None, rg_referenceNumber = Some referenceNumber, rg_currency = pb_currency pb,
     rg_paymentReference = None, rg_paymentProofUrl = None, rg_labName = None, rg_lastEditedAt = None,
     rg_editToken = None, rg_linkBaseUrl = None, rg_idempotencyKey = None, rg_note = None,
     rg_role = PARTICIPANT, rg_checkedInAt = None, rg_checkedInBy = None\<rparr>"

definition signup_row ::
  "create_input \<Rightarrow> string \<Rightarrow> form_row \<Rightarrow> price_breakdown \<Rightarrow> money \<Rightarrow> string option \<Rightarrow> string \<Rightarrow> string \<Rightarrow> date
    \<Rightarrow> registration_row" where
  "signup_row input email form gross discount code referenceNumber token now =
    (priced_row email form (cr_formData input) gross discount referenceNumber (map fst (sels_of input)) now)
     \<lparr>rg_networkingOptIn := cr_networkingOptIn input, rg_firstName := cr_firstName input,
      rg_lastName := cr_lastName input, rg_phone := cr_phone input, rg_paymentMethod := cr_paymentMethod input,
      rg_labName := lab_name (cr_paymentMethod input) (cr_labName input), rg_sponsorshipCode := code,
      rg_editToken := Some token, rg_linkBaseUrl := cr_linkBaseUrl input,
      rg_idempotencyKey := cr_idempotencyKey input\<rparr>"

section \<open>The steps of the transaction\<close>

definition claimSponsorshipCode :: "string \<Rightarrow> string \<Rightarrow> db \<Rightarrow> error + sponsorship_row" where
  "claimSponsorshipCode eventId code d =
    (case claimSponsorshipCodeTxn eventId code d of
       Claim_invalid \<Rightarrow> Inl (App_exception ''INVALID_SPONSORSHIP_CODE'' 400)
     | Claim_used _ _ \<Rightarrow> Inl (App_exception ''SPONSORSHIP_CODE_ALREADY_USED'' 409)
     | Claim_available sponsorship \<Rightarrow> Inr sponsorship)"

definition event_not_full :: "access_event \<Rightarrow> error + unit" where
  "event_not_full e = guard (has_room e) event_full"

definition signup_gate :: "string \<Rightarrow> payment_method option \<Rightarrow> access_db \<Rightarrow> error + access_event" where
  "signup_gate eventId paymentMethod s =
    (case event_of s eventId of
       None \<Rightarrow> Inl event_not_open
     | Some e \<Rightarrow>
        sbind (assertEventAcceptsPublicActions (pe_status e) (pe_endDate e) (db_clock (ad_settle s))) (\<lambda>_.
        sbind (assertModuleEnabledForClient (pe_clientActive e) (pe_enabledModules e) ''registrations'') (\<lambda>_.
        sbind (assertLabSponsorshipAllowed (pe_enabledModules e) paymentMethod) (\<lambda>_.
        sbind (event_not_full e) (\<lambda>_. Inr e)))))"

definition reserveAccessSelections :: "(string \<times> int) list \<Rightarrow> db \<Rightarrow> error + unit \<times> db" where
  "reserveAccessSelections sels d =
    sbind (sfold (\<lambda>(i, n). incrementAccessRegisteredCountTx i n) sels d) (\<lambda>d'. Inr ((), d'))"

text \<open>The settlement of a registration the transaction itself inserted.\<close>

definition settle_new ::
  "(string \<Rightarrow> nat option) \<Rightarrow> string \<Rightarrow> string \<Rightarrow> settle_options \<Rightarrow> db \<Rightarrow> error + settle_result \<times> db" where
  "settle_new icu eventId i options d =
    sbind (catch_access (settleRegistrationTxn icu i options d)) (\<lambda>(settled, d1).
    case settled of
      None \<Rightarrow> Inl (Plain_error ''vanished'')
    | Some res \<Rightarrow> Inr (res, snd (handleCapacityReached eventId (pm_incremented (sr_paidAccess res)) d1)))"

definition signup_options :: "price_breakdown \<Rightarrow> sponsorship_row \<Rightarrow> usage_row \<Rightarrow> settle_options" where
  "signup_options gross sponsorship usage = no_options\<lparr>
     so_priceBreakdown := Some (gross\<lparr>pb_sponsorships :=
       [\<lparr>sl_code = sp_code sponsorship, sl_amount = min (us_amountApplied usage) (pb_subtotal gross), sl_valid = True\<rparr>]\<rparr>),
     so_coveredAccessIdsBefore := Some []\<rparr>"

definition consumeSponsorshipAtSignup ::
  "(string \<Rightarrow> nat option) \<Rightarrow> sponsorship_row \<Rightarrow> string \<Rightarrow> string \<Rightarrow> price_breakdown \<Rightarrow> db
    \<Rightarrow> error + (usage_row \<times> settle_result) \<times> db" where
  "consumeSponsorshipAtSignup icu sponsorship i eventId gross d =
    sbind (linkSponsorshipUsageTxn sponsorship i gross ''PUBLIC'' d) (\<lambda>(usage, d1).
    sbind (settle_new icu eventId i (signup_options gross sponsorship usage) d1) (\<lambda>(settled, d2).
    Inr ((usage, settled), d2)))"

definition waive_options :: "date \<Rightarrow> settle_options" where
  "waive_options now = no_options\<lparr>so_decide := Some (\<lambda>_. Inr (Some
     \<lparr>sd_paymentStatus = Some WAIVED, sd_paidAmount = Some 0, sd_paidAt = Some (Some now)\<rparr>))\<rparr>"

definition autoAcceptFreeSignup ::
  "pricing_env \<Rightarrow> string \<Rightarrow> string \<Rightarrow> access_db \<Rightarrow> error + settle_result option \<times> access_db" where
  "autoAcceptFreeSignup env eventId i s =
    sbind (getEventPricing env (pricing_view s) eventId) (\<lambda>pricing.
    case pricing of
      None \<Rightarrow> Inr (None, s)
    | Some p \<Rightarrow>
        if \<not> (ep_isFree p \<and> ep_autoAccept p) then Inr (None, s)
        else sbind (in_settle (settle_new (px_icu env) eventId i (waive_options (db_clock (ad_settle s)))) s)
          (\<lambda>(settled, s'). Inr (Some settled, s')))"

text \<open>What the signup settled at once: by its code, else by a free event's automatic acceptance.\<close>

definition signup_settlement ::
  "pricing_env \<Rightarrow> string \<Rightarrow> string \<Rightarrow> sponsorship_row option \<Rightarrow> price_breakdown \<Rightarrow> access_db
    \<Rightarrow> error + ((sponsorship_row \<times> usage_row \<times> settle_result) option \<times> settle_result option) \<times> access_db" where
  "signup_settlement env eventId i sponsorship gross s =
    (case sponsorship of
       Some sp \<Rightarrow>
         sbind (in_settle (consumeSponsorshipAtSignup (px_icu env) sp i eventId gross) s) (\<lambda>((usage, settled), s1).
         Inr ((Some (sp, usage, settled), None), s1))
     | None \<Rightarrow>
         if pb_subtotal gross \<noteq> 0 then Inr ((None, None), s)
         else sbind (autoAcceptFreeSignup env eventId i s) (\<lambda>(accepted, s1). Inr ((None, accepted), s1)))"

section \<open>What else the signup writes\<close>

definition NETWORKING_REGISTRATION_SYNC_OUTBOX_TYPE :: string where
  "NETWORKING_REGISTRATION_SYNC_OUTBOX_TYPE = ''networking.registration.sync''"

definition enqueueNetworkingRegistrationCreatedSync :: "string \<Rightarrow> string \<Rightarrow> db \<Rightarrow> bool \<times> db" where
  "enqueueNetworkingRegistrationCreatedSync i eventId d =
    (if eventId \<in> set (db_networking d)
     then enqueueOutboxEvent (Networking_sync i eventId)
       (Some (NETWORKING_REGISTRATION_SYNC_OUTBOX_TYPE @ '':created:'' @ i)) 5 d
     else (False, d))"

definition queueRegistrationCreatedEmail :: "string \<Rightarrow> string \<Rightarrow> db \<Rightarrow> bool \<times> db" where
  "queueRegistrationCreatedEmail eventId i =
    enqueueTriggeredEmailOutbox ''REGISTRATION_CREATED'' eventId i (''email:triggered:REGISTRATION_CREATED:'' @ i)"

definition signup_changes ::
  "create_input \<Rightarrow> string \<Rightarrow> price_breakdown \<Rightarrow> string option \<Rightarrow> settle_result option \<Rightarrow> settle_result option
    \<Rightarrow> payment_status \<Rightarrow> audit_change list" where
  "signup_changes input email gross code linked accepted status =
     [Changed ''email'' Av_null (Av_text email), Changed ''firstName'' Av_null (text_value (cr_firstName input)),
      Changed ''lastName'' Av_null (text_value (cr_lastName input)),
      Changed ''totalAmount'' Av_null (Av_money (pb_subtotal gross))]
   @ (case linked of None \<Rightarrow> []
      | Some settled \<Rightarrow> [Changed ''sponsorshipCode'' Av_null (text_value code),
          Changed ''sponsorshipAmount'' Av_null (Av_money (ss_sponsorshipAmount (sr_after settled))),
          Changed ''paymentStatus'' Av_null (Av_status status)])
   @ (case accepted of None \<Rightarrow> []
      | Some _ \<Rightarrow> [Changed ''paymentStatus'' Av_null (Av_status status), Changed ''autoAccepted'' Av_null (Av_bool True)])"

definition link_audit :: "string \<Rightarrow> sponsorship_row \<Rightarrow> usage_row \<Rightarrow> settle_result \<Rightarrow> audit_entry" where
  "link_audit i sp usage settled =
    \<lparr>au_entityType = ''Sponsorship'', au_entityId = sp_id sp, au_action = ''LINK_TO_REGISTRATION'',
     au_changes = [Changed ''registrationId'' Av_null (Av_text i),
       Changed ''amountApplied'' (Av_money 0) (Av_money (us_amountApplied usage)),
       Changed ''sponsorshipAmount'' (Av_money 0) (Av_money (ss_sponsorshipAmount (sr_after settled))),
       Changed ''status'' (Av_text ''PENDING'') (Av_text ''USED'')],
     au_performedBy = Some ''PUBLIC'', au_ipAddress = None\<rparr>"

definition signup_events ::
  "access_event \<Rightarrow> string \<Rightarrow> string \<Rightarrow> payment_status \<Rightarrow> sponsorship_row option \<Rightarrow> string list \<Rightarrow> app_event list" where
  "signup_events e i email status linked accessIds =
     [Registration_created (ae_clientId e) (pe_id e) i email status]
   @ (case linked of None \<Rightarrow> [] | Some sp \<Rightarrow> [Sponsorship_linked (ae_clientId e) (pe_id e) (sp_id sp) i])
   @ (if 0 < length accessIds then [EventAccess_countsChanged (ae_clientId e) (pe_id e) accessIds] else [])"

definition signup_status ::
  "(sponsorship_row \<times> usage_row \<times> settle_result) option \<times> settle_result option \<Rightarrow> payment_status" where
  "signup_status outcome =
    (case outcome of
       (Some (_, _, settled), _) \<Rightarrow> ss_paymentStatus (sr_after settled)
     | (None, Some accepted) \<Rightarrow> ss_paymentStatus (sr_after accepted)
     | (None, None) \<Rightarrow> PENDING)"

definition signup_effects ::
  "create_input \<Rightarrow> string \<Rightarrow> price_breakdown \<Rightarrow> string option \<Rightarrow> access_event \<Rightarrow> string
    \<Rightarrow> (sponsorship_row \<times> usage_row \<times> settle_result) option \<times> settle_result option \<Rightarrow> db \<Rightarrow> db" where
  "signup_effects input email gross code e i outcome d =
    (let (linked, accepted) = outcome; status = signup_status outcome;
         d1 = audit i ''CREATE'' (signup_changes input email gross code (map_option (snd \<circ> snd) linked) accepted status)
           (Some ''PUBLIC'') d;
         d2 = (case linked of None \<Rightarrow> d1 | Some (sp, usage, settled) \<Rightarrow> insertAuditLog (link_audit i sp usage settled) d1);
         d3 = emitSettlementEvents (signup_events e i email status (map_option fst linked) (map fst (sels_of input))) d2;
         d4 = snd (enqueueNetworkingRegistrationCreatedSync i (pe_id e) d3)
     in snd (queueRegistrationCreatedEmail (pe_id e) i d4))"

section \<open>The public signup\<close>

text \<open>The statements after the insert.\<close>

definition signup_statements ::
  "create_env \<Rightarrow> create_input \<Rightarrow> string \<Rightarrow> price_breakdown \<Rightarrow> string option \<Rightarrow> sponsorship_row option \<Rightarrow> access_event
    \<Rightarrow> string \<Rightarrow> access_db \<Rightarrow> error + unit \<times> access_db" where
  "signup_statements env input email gross code sponsorship e i s =
    sbind (in_settle (reserveAccessSelections (sels_of input)) s) (\<lambda>(_, s1).
    sbind (incrementEventRegistered (pe_id e) s1) (\<lambda>(_, s2).
    sbind (signup_settlement (ce_pricing env) (pe_id e) i sponsorship gross s2) (\<lambda>(outcome, s3).
    in_settle (\<lambda>d. Inr ((), signup_effects input email gross code e i outcome d)) s3)))"

definition create_txn ::
  "create_env \<Rightarrow> create_input \<Rightarrow> string \<Rightarrow> form_row \<Rightarrow> price_breakdown \<Rightarrow> string option \<Rightarrow> string \<Rightarrow> reg_db
    \<Rightarrow> error + string \<times> reg_db" where
  "create_txn env input email form gross code token s =
    (let eventId = fm_eventId form; now = db_clock (ad_settle (rd_tables s)) in
     sbind (case code of None \<Rightarrow> Inr None
       | Some c \<Rightarrow> sbind (claimSponsorshipCode eventId c (ad_settle (rd_tables s))) (\<lambda>sp. Inr (Some sp))) (\<lambda>sponsorship.
     sbind (signup_gate eventId (cr_paymentMethod input) (rd_tables s)) (\<lambda>e.
     sbind (allocateReferenceNumber eventId s s) (\<lambda>(referenceNumber, s1).
     sbind (calculateDiscountAmount (pb_appliedRules gross)) (\<lambda>discount.
     sbind (in_tables (insertRegistrationRow (ce_reported env)
         (signup_row input email form gross discount code referenceNumber token now)) s1) (\<lambda>(i, s2).
     sbind (in_tables (signup_statements env input email gross code sponsorship e i) s2) (\<lambda>(_, s3).
     Inr (i, s3))))))))"

definition contains_text :: "string \<Rightarrow> string \<Rightarrow> bool" where
  "contains_text part s = is_infix part (to_lower s)"

definition translateCreateUniqueViolation :: "error \<Rightarrow> error" where
  "translateCreateUniqueViolation err =
    (case err of
       Unique_violation constraint \<Rightarrow>
         if contains_text ''idempotency'' constraint then err
         else if contains_text ''email'' constraint \<or> constraint = ''registrations_email_form_id_key''
         then registrationAlreadyExists
         else if contains_text ''sponsorship_code'' constraint then App_exception ''SPONSORSHIP_CODE_ALREADY_USED'' 409
         else App_exception ''CONFLICT'' 409
     | _ \<Rightarrow> err)"

definition translate_create :: "error + 'a \<Rightarrow> error + 'a" where
  "translate_create x = (case x of Inl e \<Rightarrow> Inl (translateCreateUniqueViolation e) | Inr y \<Rightarrow> Inr y)"

text \<open>The checks before the transaction; they return the form.\<close>

definition signup_checks :: "create_env \<Rightarrow> create_input \<Rightarrow> string \<Rightarrow> access_db \<Rightarrow> error + form_row" where
  "signup_checks env input email s0 =
    (let sels = sels_of input; now = db_clock (ad_settle s0) in
     sbind (case cr_linkBaseUrl input of None \<Rightarrow> Inr ()
       | Some u \<Rightarrow> if u = [] then Inr () else guard (ce_linkAllowed env u) (App_exception ''VALIDATION_ERROR'' 422)) (\<lambda>_.
     case form_of s0 (cr_formId input) of
       None \<Rightarrow> Inl notFound
     | Some form \<Rightarrow>
       sbind (readFormSchema (ce_pricing env) (fm_schema form)) (\<lambda>schema.
       sbind (guard (\<not> registrationExistsByEmailForm (ad_settle s0) email (fm_id form) None) registrationAlreadyExists) (\<lambda>_.
       sbind (if 0 < length sels
         then assertValidSelections s0 (fm_eventId form) (selections_of sels) (cr_formData input) None now else Inr ()) (\<lambda>_.
       sbind (assertAccessSelectionRequirement (ce_days env) s0 (fm_eventId form) (cr_formData input) (selections_of sels)
         (fs_accessSelectionRequired schema) now) (\<lambda>_.
       Inr form))))))"

definition getEnrichedRow :: "access_db \<Rightarrow> string \<Rightarrow> error + registration_row" where
  "getEnrichedRow s i = requireRegistration (getRegistrationByIdRow s i)"

definition createRegistration ::
  "create_env \<Rightarrow> create_input \<Rightarrow> price_breakdown \<Rightarrow> string \<Rightarrow> access_db \<Rightarrow> reg_db
    \<Rightarrow> error + registration_row \<times> reg_db" where
  "createRegistration env input pb token s0 s =
    (let email = normalizeEmail (cr_email input); code = normalizeSponsorshipCode (cr_sponsorshipCode input) in
     sbind (signup_checks env input email s0) (\<lambda>form.
     sbind (translate_create (create_txn env input email form (gross_of pb) code token s)) (\<lambda>(i, s').
     sbind (getEnrichedRow (rd_tables s') i) (\<lambda>row. Inr (row, s')))))"

definition getRegistrationByIdempotencyKey :: "access_db \<Rightarrow> string \<Rightarrow> registration_row option" where
  "getRegistrationByIdempotencyKey s key =
    (case find (\<lambda>r. rg_idempotencyKey r = Some key) (db_registrations (ad_settle s)) of None \<Rightarrow> None
     | Some r \<Rightarrow> if form_of s (rg_formId r) \<noteq> None \<and> event_of s (rg_eventId r) \<noteq> None then Some r else None)"

definition findActiveRegistrationFormById ::
  "pricing_env \<Rightarrow> access_db \<Rightarrow> string \<Rightarrow> error + (form_row \<times> form_schema \<times> access_event) option" where
  "findActiveRegistrationFormById env s i =
    (case form_of s i of None \<Rightarrow> Inr None
     | Some f \<Rightarrow> (case event_of s (fm_eventId f) of None \<Rightarrow> Inr None
        | Some e \<Rightarrow>
           if fm_type f = ''REGISTRATION'' \<and> fm_active f \<and> pe_status e = Ev_open \<and> db_clock (ad_settle s) \<le> pe_endDate e
           then sbind (readFormSchema env (fm_schema f)) (\<lambda>schema. Inr (Some (f, schema, e)))
           else Inr None))"

definition confirm_lines :: "price_breakdown \<Rightarrow> price_breakdown" where
  "confirm_lines pb = pb\<lparr>pb_accessItems := map (\<lambda>l. l\<lparr>li_confirmed := True\<rparr>) (pb_accessItems pb),
     pb_droppedAccessItems := Some []\<rparr>"

definition selected_items :: "(string \<times> int) list \<Rightarrow> selected_item list" where
  "selected_items = map (\<lambda>(i, n). \<lparr>se_accessId = i, se_quantity = n\<rparr>)"

definition replay_of :: "create_input \<Rightarrow> access_db \<Rightarrow> registration_row option" where
  "replay_of input s =
    (case cr_idempotencyKey input of None \<Rightarrow> None
     | Some key \<Rightarrow> if key = [] then None else getRegistrationByIdempotencyKey s key)"

text \<open>The answers as stored and their price.\<close>

definition signup_price :: "create_env \<Rightarrow> create_input \<Rightarrow> access_db \<Rightarrow> error + create_input \<times> price_breakdown" where
  "signup_price env input s0 =
    sbind (findActiveRegistrationFormById (ce_pricing env) s0 (cr_formId input)) (\<lambda>found.
    case found of
      None \<Rightarrow> Inl notFound
    | Some (f, schema, e) \<Rightarrow>
       sbind (assertModuleEnabledForClient (pe_clientActive e) (pe_enabledModules e) ''registrations'') (\<lambda>_.
       sbind (assertModuleEnabledForClient (pe_clientActive e) (pe_enabledModules e) ''pricing'') (\<lambda>_.
       sbind (prepareFormDataForPricing (px_form (ce_pricing env)) (Some schema) (cr_formData input) None) (\<lambda>answers.
       sbind (calculatePrice (ce_pricing env) (pricing_view s0) (fm_eventId f)
         \<lparr>rq_formData = answers, rq_selectedAccessItems = selected_items (sels_of input), rq_sponsorshipCodes = []\<rparr>
         (Some \<lparr>oc_formSchema = Some schema, oc_previous = None\<rparr>)) (\<lambda>priced.
       Inr (input\<lparr>cr_formData := answers\<rparr>, confirm_lines priced))))))"

text \<open>The answer: whether a row was created, and the row.\<close>

definition createPublicRegistration ::
  "create_env \<Rightarrow> create_input \<Rightarrow> string \<Rightarrow> access_db \<Rightarrow> reg_db \<Rightarrow> error + (bool \<times> registration_row) \<times> reg_db" where
  "createPublicRegistration env input token s0 s =
    (case replay_of input s0 of
       Some existing \<Rightarrow> Inr ((False, existing), s)
     | None \<Rightarrow>
        sbind (signup_price env input s0) (\<lambda>(input', pb).
        case createRegistration env input' pb token s0 s of
          Inr (row, s') \<Rightarrow> Inr ((True, row), s')
        | Inl (Unique_violation constraint) \<Rightarrow>
            if contains_text ''idempotency'' constraint
            then (case replay_of input' (rd_tables s) of
                    Some existing \<Rightarrow> Inr ((False, existing), s)
                  | None \<Rightarrow> Inl (Unique_violation constraint))
            else Inl (Unique_violation constraint)
        | Inl err \<Rightarrow> Inl err))"

end
