(* ===== verification/RegistrationRemove.thy ===== *)
theory RegistrationRemove
  imports RegistrationCreate
begin

text \<open>
  The administrator's create (\<open>registrations.create.service.ts\<close>) and the deletion of a registration
  (\<open>registrations.service.ts\<close>). The networking photo a deletion leaves to the object store is not modelled.
\<close>

section \<open>The administrator's create\<close>

record admin_create_input =
  ac_email :: string
  ac_firstName :: string
  ac_lastName :: string
  ac_phone :: "string option"
  ac_formData :: form_data
  ac_role :: registration_role
  ac_accessSelections :: "(string \<times> int) list option"
  ac_paymentMethod :: "payment_method option"
  ac_paymentStatus :: "payment_status option"
  ac_labName :: "string option"
  ac_sendEmail :: bool

definition admin_sels :: "admin_create_input \<Rightarrow> (string \<times> int) list" where
  "admin_sels input = (case ac_accessSelections input of None \<Rightarrow> [] | Some xs \<Rightarrow> xs)"

definition findRegistrationFormForEvent :: "access_db \<Rightarrow> string \<Rightarrow> form_row option" where
  "findRegistrationFormForEvent s eventId =
    find (\<lambda>f. fm_eventId f = eventId \<and> fm_type f = ''REGISTRATION'') (ad_forms s)"

definition admin_gate :: "string \<Rightarrow> payment_method option \<Rightarrow> access_db \<Rightarrow> error + access_event" where
  "admin_gate eventId paymentMethod s =
    (case event_of s eventId of
       None \<Rightarrow> Inl notFound
     | Some e \<Rightarrow>
        sbind (assertEventWritable (pe_status e)) (\<lambda>_.
        sbind (assertModuleEnabledForClient (pe_clientActive e) (pe_enabledModules e) ''registrations'') (\<lambda>_.
        sbind (assertLabSponsorshipAllowed (pe_enabledModules e) paymentMethod) (\<lambda>_.
        sbind (event_not_full e) (\<lambda>_. Inr e)))))"

text \<open>The amount an administrator's PAID registration has paid: the whole net of its price.\<close>

definition admin_paid :: "payment_status \<Rightarrow> price_breakdown \<Rightarrow> error + money" where
  "admin_paid status pb =
    (if status = PAID then sbind (calculateSettlement (pb_subtotal pb) 0 0) (\<lambda>a. Inr (sa_netAmount a)) else Inr 0)"

definition admin_row ::
  "admin_create_input \<Rightarrow> string \<Rightarrow> form_row \<Rightarrow> form_data \<Rightarrow> price_breakdown \<Rightarrow> money \<Rightarrow> money \<Rightarrow> payment_status
    \<Rightarrow> string \<Rightarrow> date \<Rightarrow> registration_row" where
  "admin_row input email form formData pb discount paid status referenceNumber now =
    (priced_row email form formData pb discount referenceNumber (map fst (admin_sels input)) now)
     \<lparr>rg_firstName := Some (ac_firstName input), rg_lastName := Some (ac_lastName input), rg_phone := ac_phone input,
      rg_role := ac_role input, rg_paymentStatus := status, rg_paidAmount := paid,
      rg_paidAt := (if isFullySettled (Some status) then Some now else None),
      rg_paymentMethod := ac_paymentMethod input,
      rg_labName := lab_name (ac_paymentMethod input) (ac_labName input)\<rparr>"

definition admin_effects :: "admin_create_input \<Rightarrow> string \<Rightarrow> string \<Rightarrow> price_breakdown \<Rightarrow> string \<Rightarrow> string \<Rightarrow> db \<Rightarrow> db" where
  "admin_effects input email eventId pb adminUserId i d =
    (let d1 = audit i ''CREATE''
           [Changed ''email'' Av_null (Av_text email), Changed ''firstName'' Av_null (Av_text (ac_firstName input)),
            Changed ''lastName'' Av_null (Av_text (ac_lastName input)), Changed ''role'' Av_null (Av_role (ac_role input)),
            Changed ''totalAmount'' Av_null (Av_money (pb_subtotal pb))] (Some adminUserId) d;
         d2 = snd (enqueueNetworkingRegistrationCreatedSync i eventId d1)
     in if ac_sendEmail input then snd (queueRegistrationCreatedEmail eventId i d2) else d2)"

definition take_admin_places ::
  "admin_create_input \<Rightarrow> string \<Rightarrow> price_breakdown \<Rightarrow> payment_status \<Rightarrow> string \<Rightarrow> db \<Rightarrow> error + unit \<times> db" where
  "take_admin_places input eventId pb status i d =
    sbind (reserveAccessSelections (admin_sels input) d) (\<lambda>(_, d1).
    sbind (if isFullySettled (Some status) then syncPaidCount i eventId pb PENDING status d1 else Inr d1) (\<lambda>d2.
    Inr ((), d2)))"

definition admin_statements ::
  "admin_create_input \<Rightarrow> string \<Rightarrow> string \<Rightarrow> price_breakdown \<Rightarrow> payment_status \<Rightarrow> string \<Rightarrow> string \<Rightarrow> access_db
    \<Rightarrow> error + unit \<times> access_db" where
  "admin_statements input email eventId pb status adminUserId i s =
    sbind (in_settle (take_admin_places input eventId pb status i) s) (\<lambda>(_, s1).
    sbind (incrementEventRegistered eventId s1) (\<lambda>(_, s2).
    in_settle (\<lambda>d. Inr ((), admin_effects input email eventId pb adminUserId i d)) s2))"

definition admin_create_txn ::
  "create_env \<Rightarrow> string \<Rightarrow> admin_create_input \<Rightarrow> string \<Rightarrow> form_row \<Rightarrow> form_data \<Rightarrow> price_breakdown \<Rightarrow> string \<Rightarrow> reg_db
    \<Rightarrow> error + string \<times> reg_db" where
  "admin_create_txn env eventId input email form formData pb adminUserId s =
    (let now = db_clock (ad_settle (rd_tables s)) in
     sbind (admin_gate eventId (ac_paymentMethod input) (rd_tables s)) (\<lambda>_.
     let status = (case ac_paymentStatus input of None \<Rightarrow> PENDING | Some st \<Rightarrow> st) in
     sbind (allocateReferenceNumber eventId s s) (\<lambda>(referenceNumber, s1).
     sbind (admin_paid status pb) (\<lambda>paid.
     sbind (calculateDiscountAmount (pb_appliedRules pb)) (\<lambda>discount.
     sbind (in_tables (insertRegistrationRow (ce_reported env)
         (admin_row input email form formData pb discount paid status referenceNumber now)) s1) (\<lambda>(i, s2).
     sbind (in_tables (admin_statements input email eventId pb status adminUserId i) s2) (\<lambda>(_, s3).
     Inr (i, s3))))))))"

text \<open>The reads before the transaction: the form, the answers and their price.\<close>

definition admin_checks ::
  "create_env \<Rightarrow> string \<Rightarrow> admin_create_input \<Rightarrow> string \<Rightarrow> access_db \<Rightarrow> error + form_row \<times> form_data \<times> price_breakdown" where
  "admin_checks env eventId input email s0 =
    (case findRegistrationFormForEvent s0 eventId of
       None \<Rightarrow> Inl notFound
     | Some form \<Rightarrow>
        sbind (findRegistrationFormSchema (ce_pricing env) (pricing_view s0) eventId) (\<lambda>schema.
        sbind (prepareFormDataForPricing (px_form (ce_pricing env)) schema (ac_formData input) (Some False)) (\<lambda>formData.
        sbind (guard (\<not> registrationExistsByEmailForm (ad_settle s0) email (fm_id form) None) registrationAlreadyExists) (\<lambda>_.
        sbind (if 0 < length (admin_sels input)
          then assertValidSelections s0 eventId (selections_of (admin_sels input)) formData None (db_clock (ad_settle s0))
          else Inr ()) (\<lambda>_.
        case event_of s0 eventId of
          None \<Rightarrow> Inl notFound
        | Some e \<Rightarrow>
          sbind (assertModuleEnabledForClient (pe_clientActive e) (pe_enabledModules e) ''pricing'') (\<lambda>_.
          sbind (calculatePrice (ce_pricing env) (pricing_view s0) eventId
            \<lparr>rq_formData = formData, rq_selectedAccessItems = selected_items (admin_sels input), rq_sponsorshipCodes = []\<rparr>
            (Some \<lparr>oc_formSchema = schema, oc_previous = None\<rparr>)) (\<lambda>pb.
          Inr (form, formData, pb))))))))"

definition createAdminRegistration ::
  "create_env \<Rightarrow> string \<Rightarrow> admin_create_input \<Rightarrow> string \<Rightarrow> access_db \<Rightarrow> reg_db \<Rightarrow> error + registration_row \<times> reg_db" where
  "createAdminRegistration env eventId input adminUserId s0 s =
    (let email = normalizeEmail (ac_email input) in
     sbind (admin_checks env eventId input email s0) (\<lambda>(form, formData, pb).
     sbind (translate_create (admin_create_txn env eventId input email form formData pb adminUserId s)) (\<lambda>(i, s').
     sbind (getEnrichedRow (rd_tables s') i) (\<lambda>row. Inr (row, s')))))"

section \<open>Deletion\<close>

definition deleteRegistrationRow :: "string \<Rightarrow> db \<Rightarrow> db" where
  "deleteRegistrationRow i d = d\<lparr>db_registrations := filter (\<lambda>r. rg_id r \<noteq> i) (db_registrations d)\<rparr>"

definition delete_changes :: "registration_row \<Rightarrow> bool \<Rightarrow> audit_change list" where
  "delete_changes r force =
     [Changed ''email'' (Av_text (rg_email r)) Av_null, Changed ''firstName'' (text_value (rg_firstName r)) Av_null,
      Changed ''lastName'' (text_value (rg_lastName r)) Av_null,
      Changed ''paymentStatus'' (Av_status (rg_paymentStatus r)) Av_null]
   @ (if force then [Changed ''forceDelete'' Av_null (Av_bool True)] else [])"

text \<open>The places and the usages the registration gives back.\<close>

definition give_back :: "string \<Rightarrow> registration_row \<Rightarrow> string option \<Rightarrow> bool \<Rightarrow> db \<Rightarrow> error + unit \<times> db" where
  "give_back i r performedBy force d =
    (let pb = rg_priceBreakdown r;
         ((coveredAccessIds, _), d1) =
           releaseRegistrationUsagesTxn i (audit i ''DELETE'' (delete_changes r force) performedBy d) in
     sbind (sfold (\<lambda>l. decrementAccessRegisteredCountTx (li_accessId l) (li_quantity l)) (pb_accessItems pb) d1) (\<lambda>d2.
     sbind (syncPaidCountDelta (rg_eventId r)
       \<lparr>ps_status = rg_paymentStatus r, ps_priceBreakdown = pb, ps_coveredAccessIds = uniq coveredAccessIds\<rparr>
       \<lparr>ps_status = PENDING, ps_priceBreakdown = pb, ps_coveredAccessIds = []\<rparr> d2) (\<lambda>d3.
     Inr ((), d3))))"

definition delete_finish :: "registration_for_mutation \<Rightarrow> db \<Rightarrow> db" where
  "delete_finish m d =
    (let r = rm_row m in
     emitSettlementEvents
       [Registration_deleted (rm_clientId m) (rg_eventId r) (rg_id r) (rg_email r),
        EventAccess_countsChanged (rm_clientId m) (rg_eventId r) (map li_accessId (pb_accessItems (rg_priceBreakdown r)))]
       (deleteRegistrationRow (rg_id r) d))"

definition delete_statements ::
  "string \<Rightarrow> registration_for_mutation \<Rightarrow> string option \<Rightarrow> bool \<Rightarrow> access_db \<Rightarrow> error + unit \<times> access_db" where
  "delete_statements i m performedBy force s =
    sbind (in_settle (give_back i (rm_row m) performedBy force) s) (\<lambda>(_, s1).
    sbind (decrementEventRegistered (rg_eventId (rm_row m)) s1) (\<lambda>(_, s2).
    in_settle (\<lambda>d. Inr ((), delete_finish m d)) s2))"

definition deleteRegistration ::
  "string \<Rightarrow> string option \<Rightarrow> bool \<Rightarrow> access_db \<Rightarrow> error + unit \<times> access_db" where
  "deleteRegistration i performedBy force s =
    sbind (lockRegistrationForMutation i s) (\<lambda>m.
    sbind (assertEventWritable (rm_status m)) (\<lambda>_.
    sbind (assertModuleEnabledForClient (rm_clientActive m) (rm_enabledModules m) ''registrations'') (\<lambda>_.
    sbind (guard (rg_paymentStatus (rm_row m) \<noteq> PAID \<or> force) (App_exception ''REGISTRATION_DELETE_BLOCKED'' 400)) (\<lambda>_.
    delete_statements i m performedBy force s))))"

end
