(* ===== verification/RegistrationBooks.thy ===== *)
theory RegistrationBooks
  imports RegistrationRemove
begin

text \<open>
  The books of the registrations: every access item's paid count is the number of places its registrations hold,
  every event's registered count the number of its registrations, both within their capacities. Creation and
  deletion change the set of registrations; this theory proves that they keep the books.
\<close>

section \<open>Balance\<close>

definition balanced :: "db \<Rightarrow> db \<Rightarrow> bool" where
  "balanced d d' \<longleftrightarrow> store_ok d' \<and> map ea_id (db_accesses d') = map ea_id (db_accesses d) \<and>
    (usages_known d \<longrightarrow> usages_known d') \<and> (\<forall>k. discrepancy d' k = discrepancy d k)"

lemma balanced_trans: "balanced d t \<Longrightarrow> balanced t u \<Longrightarrow> balanced d u"
  by (auto simp: balanced_def)

lemma preserved_balanced: "preserved d d' \<Longrightarrow> balanced d d'"
  by (simp add: preserved_def balanced_def)

lemma kept_balanced: "kept d d' \<Longrightarrow> balanced d d'"
  by (simp add: kept_def preserved_balanced)

text \<open>
  What the paid counters are off by: \<open>l k\<close> is the paid count of the item k less the places held. The books are
  exact when it is 0.
\<close>

definition owed :: "(string \<Rightarrow> int) \<Rightarrow> db \<Rightarrow> bool" where
  "owed l d \<longleftrightarrow> (\<forall>k \<in> ea_id ` set (db_accesses d). discrepancy d k = l k)"

lemma balanced_owed: "balanced d d' \<Longrightarrow> owed l d \<Longrightarrow> owed l d'"
proof -
  assume b: "balanced d d'" and c: "owed l d"
  have "ea_id ` set (db_accesses d') = ea_id ` set (db_accesses d)" using b by (metis balanced_def set_map)
  with b c show "owed l d'" by (simp add: owed_def balanced_def)
qed

definition registered_at :: "db \<Rightarrow> string \<Rightarrow> nat" where
  "registered_at d e = length (filter (\<lambda>r. rg_eventId r = e) (db_registrations d))"

lemma registered_at_events: "registered_at d e = length (filter (\<lambda>x. x = e) (map rg_eventId (db_registrations d)))"
  by (simp add: registered_at_def filter_map comp_def)

lemma owners_events:
  assumes "distinct (map rg_id (db_registrations d))" "map rg_id (db_registrations d') = map rg_id (db_registrations d)"
    "same_owners d d'"
  shows "map rg_eventId (db_registrations d') = map rg_eventId (db_registrations d)"
proof (rule nth_equalityI)
  show len: "length (map rg_eventId (db_registrations d')) = length (map rg_eventId (db_registrations d))"
    using map_eq_imp_length_eq[OF assms(2)] by simp
  fix n assume n: "n < length (map rg_eventId (db_registrations d'))"
  have dist': "distinct (map rg_id (db_registrations d'))" using assms(1,2) by simp
  have id: "rg_id (db_registrations d' ! n) = rg_id (db_registrations d ! n)"
    using arg_cong[OF assms(2), of "\<lambda>xs. xs ! n"] n len by simp
  have "registration_of d' (rg_id (db_registrations d' ! n)) = Some (db_registrations d' ! n)"
    unfolding registration_of_def by (rule row_of_distinct[OF dist']) (use n in simp)
  moreover have "registration_of d (rg_id (db_registrations d ! n)) = Some (db_registrations d ! n)"
    unfolding registration_of_def by (rule row_of_distinct[OF assms(1)]) (use n len in simp)
  ultimately show "map rg_eventId (db_registrations d') ! n = map rg_eventId (db_registrations d) ! n"
    using assms(3) n len id unfolding same_owners_def by (metis length_map nth_map option.inject option.map(2))
qed

lemma preserved_registered: "store_ok d \<Longrightarrow> preserved d d' \<Longrightarrow> registered_at d' e = registered_at d e"
  unfolding registered_at_events using owners_events[of d d'] by (simp add: preserved_def store_ok_def db_wf_def)

section \<open>Through the view\<close>

lemma in_settle_plain:
  assumes "in_settle f s = Inr (x, s')"
    and "\<And>d. f (settle_view s) = Inr (x, d) \<Longrightarrow>
      db_events d = db_events (settle_view s) \<and> map ea_id (db_accesses d) = map ea_id (db_accesses (settle_view s))"
  obtains d where "f (settle_view s) = Inr (x, d)" "settle_view s' = d"
    "ad_events s' = ad_events s" "ad_forms s' = ad_forms s" "ad_edges s' = ad_edges s" "ad_pricing s' = ad_pricing s"
proof -
  from assms(1) obtain d where d: "f (settle_view s) = Inr (x, d)" and s': "s' = put_settle d s"
    by (auto simp: in_settle_def elim!: sbind_InrE)
  have "length (db_accesses d) = length (ad_items s)"
    using assms(2)[OF d] map_eq_imp_length_eq[of ea_id "db_accesses d" ea_id "db_accesses (settle_view s)"]
    by (simp add: settle_view_def)
  then have "settle_view s' = d" unfolding s' using assms(2)[OF d] by (intro settle_view_put) auto
  with d show ?thesis by (intro that[of d]) (simp_all add: s' put_settle_def)
qed

text \<open>A step that keeps the counters and the registrations' events.\<close>

definition kept_books :: "access_db \<Rightarrow> access_db \<Rightarrow> bool" where
  "kept_books s s' \<longleftrightarrow> kept (settle_view s) (settle_view s') \<and> ad_events s' = ad_events s \<and> ad_forms s' = ad_forms s"

lemma kept_books_trans: "kept_books s t \<Longrightarrow> kept_books t u \<Longrightarrow> kept_books s u"
  using kept_trans by (auto simp: kept_books_def)

lemma kept_books_refl: "store_ok (settle_view s) \<Longrightarrow> kept_books s s"
  by (simp add: kept_books_def kept_refl)

lemma kept_books_ok: "kept_books s s' \<Longrightarrow> store_ok (settle_view s')"
  unfolding kept_books_def using kept_ok by blast

lemma in_settle_kept:
  assumes "in_settle f s = Inr (x, s')" and "\<And>d. f (settle_view s) = Inr (x, d) \<Longrightarrow> kept (settle_view s) d"
  shows "kept_books s s' \<and> f (settle_view s) = Inr (x, settle_view s')"
proof -
  obtain d where "f (settle_view s) = Inr (x, d)" "settle_view s' = d" "kept (settle_view s) d"
    "db_registrations (ad_settle s') = db_registrations d" "ad_events s' = ad_events s" "ad_forms s' = ad_forms s"
    "ad_edges s' = ad_edges s" "ad_pricing s' = ad_pricing s"
    by (rule in_settle_Inr[OF assms])
  then show ?thesis by (simp add: kept_books_def)
qed

lemma in_settle_effects:
  assumes "in_settle (\<lambda>d. Inr (x, g d)) s = Inr (y, s')" and "store_ok (settle_view s)"
    and "\<And>d. same_store d (g d)"
  shows "kept_books s s'"
  using in_settle_kept[OF assms(1)] same_store_kept[OF assms(2) assms(3)] by auto

section \<open>Inserting a row\<close>

lemma violated_Nil:
  assumes "violated_indexes r rows = []" and "x \<in> set rows"
  shows "rg_id x \<noteq> rg_id r \<and> \<not> same_key (rg_idempotencyKey r) (rg_idempotencyKey x)
    \<and> \<not> same_key (rg_referenceNumber r) (rg_referenceNumber x)
    \<and> \<not> (rg_email r = rg_email x \<and> rg_formId r = rg_formId x)
    \<and> \<not> (rg_eventId r = rg_eventId x \<and> same_key (rg_sponsorshipCode r) (rg_sponsorshipCode x))"
  using assms unfolding violated_indexes_def registration_indexes_def
  by (auto simp: list_ex_iff split: if_splits)

lemma insert_row_Inr:
  assumes "insert_row rep v d = Inr (i, d')"
  obtains ids where "db_ids d = i # ids" "violated_indexes (v\<lparr>rg_id := i\<rparr>) (db_registrations d) = []"
    "i \<notin> rg_id ` set (db_registrations d)"
    "d' = d\<lparr>db_ids := ids, db_registrations := db_registrations d @ [v\<lparr>rg_id := i\<rparr>]\<rparr>"
proof -
  from assms obtain ids where ids: "db_ids d = i # ids" and v: "violated_indexes (v\<lparr>rg_id := i\<rparr>) (db_registrations d) = []"
    and d': "d' = d\<lparr>db_ids := ids, db_registrations := db_registrations d @ [v\<lparr>rg_id := i\<rparr>]\<rparr>"
    unfolding insert_row_def Let_def by (auto split: list.splits if_splits)
  have "i \<notin> rg_id ` set (db_registrations d)" using violated_Nil[OF v] by force
  with that[OF ids v _ d'] show ?thesis .
qed

lemma unknown_uncovered:
  assumes "usages_known d" and "i \<notin> rg_id ` set (db_registrations d)"
  shows "coveredAccessIdsOf d i = []"
proof -
  have "filter (\<lambda>u. us_registrationId u = Some i) (db_usages d) = []"
    using assms by (auto simp: usages_known_iff filter_empty_conv)
  then show ?thesis by (simp add: coveredAccessIdsOf_coverages coverages_alt uniq_def)
qed

lemma insert_row_store:
  assumes ok: "store_ok d" and run: "insert_row rep v d = Inr (i, d')"
  shows "store_ok d' \<and> map ea_id (db_accesses d') = map ea_id (db_accesses d) \<and> db_events d' = db_events d \<and>
    (usages_known d \<longrightarrow> usages_known d') \<and> registration_of d' i = Some (v\<lparr>rg_id := i\<rparr>) \<and>
    (\<forall>j. j \<noteq> i \<longrightarrow> registration_of d' j = registration_of d j) \<and>
    (\<forall>k. discrepancy d' k = discrepancy d k - held (registration_state d (v\<lparr>rg_id := i\<rparr>)) k) \<and>
    (\<forall>e. registered_at d' e = registered_at d e + (if rg_eventId v = e then 1 else 0)) \<and>
    (\<forall>j. coverages d' j = coverages d j) \<and> i \<notin> rg_id ` set (db_registrations d)"
proof -
  obtain ids where ids: "db_ids d = i # ids" and fresh: "i \<notin> rg_id ` set (db_registrations d)"
    and d': "d' = d\<lparr>db_ids := ids, db_registrations := db_registrations d @ [v\<lparr>rg_id := i\<rparr>]\<rparr>"
    by (rule insert_row_Inr[OF run])
  have cov: "coverages d' j = coverages d j" for j by (rule coverages_tables) (simp_all add: d')
  have st: "registration_state d' r = registration_state d r" for r
    by (simp add: registration_state_def coveredAccessIdsOf_coverages cov)
  have disc: "discrepancy d' k = discrepancy d k - held (registration_state d (v\<lparr>rg_id := i\<rparr>)) k" for k
    by (simp add: discrepancy_def places_held_def st) (simp add: d' paid_count_def access_of_def)
  have app: "row_of rg_id j (xs @ [v\<lparr>rg_id := i\<rparr>]) =
      (case row_of rg_id j xs of None \<Rightarrow> if j = i then Some (v\<lparr>rg_id := i\<rparr>) else None | Some x \<Rightarrow> Some x)" for j xs
    by (induction xs) (auto simp: row_of_def)
  have none: "row_of rg_id i (db_registrations d) = None" using fresh by (simp add: row_of_None)
  have "store_ok d'" using ok ids fresh by (simp add: d' store_ok_def db_wf_def accesses_ok_def accesses_wf_def)
  moreover have "usages_known d'" if "usages_known d"
    using that by (auto simp: usages_known_iff d')
  moreover have "registration_of d' i = Some (v\<lparr>rg_id := i\<rparr>)" by (simp add: registration_of_def d' app none)
  moreover have "registration_of d' j = registration_of d j" if "j \<noteq> i" for j
    using that by (simp add: registration_of_def d' app split: option.splits)
  ultimately show ?thesis
    using disc cov fresh by (simp add: d' registered_at_def)
qed

section \<open>The event's counter\<close>

lemma event_of_key: "event_of s i = Some e \<Longrightarrow> pe_id e = i \<and> e \<in> set (ad_events s)"
  unfolding event_of_def by (drule row_of_Some) simp

definition counted_up :: "string \<Rightarrow> int \<Rightarrow> access_event list \<Rightarrow> access_event list" where
  "counted_up i n = update_rows (\<lambda>e. pe_id e = i) (\<lambda>e. e\<lparr>ae_registeredCount := ae_registeredCount e + n\<rparr>)"

lemma counted_up_view [simp]: "settle_view (s\<lparr>ad_events := counted_up i n (ad_events s)\<rparr>) = settle_view s"
  by (simp add: settle_view_def counted_up_def update_rows_def comp_def if_distrib[of pe_id] if_distrib[of ae_clientId]
      cong: if_cong)

lemma update_rows_cong: "(\<And>r. r \<in> set t \<Longrightarrow> p r = q r) \<Longrightarrow> update_rows p f t = update_rows q f t"
  by (simp add: update_rows_def)

lemma incrementEventRegistered_Inr:
  assumes run: "incrementEventRegistered i s = Inr (u, s')" and dist: "distinct (map pe_id (ad_events s))"
  obtains e where "e \<in> set (ad_events s)" "pe_id e = i" "pe_status e = Ev_open" "has_room e"
    "s' = s\<lparr>ad_events := counted_up i 1 (ad_events s)\<rparr>" "settle_view s' = settle_view s"
proof -
  let ?p = "\<lambda>e. pe_id e = i \<and> pe_status e = Ev_open \<and> has_room e"
  from run have hit: "list_ex ?p (ad_events s)"
    and s': "s' = s\<lparr>ad_events := update_rows ?p (\<lambda>e. e\<lparr>ae_registeredCount := ae_registeredCount e + 1\<rparr>) (ad_events s)\<rparr>"
    unfolding incrementEventRegistered_def casIncrementRegisteredTx_def Let_def by (auto split: if_splits option.splits)
  from hit obtain e where e: "e \<in> set (ad_events s)" "pe_id e = i" "pe_status e = Ev_open" "has_room e"
    by (auto simp: list_ex_iff)
  have "?p x = (pe_id x = i)" if "x \<in> set (ad_events s)" for x
    using that e dist by (auto simp: distinct_map dest: inj_onD)
  then have "update_rows ?p (\<lambda>e. e\<lparr>ae_registeredCount := ae_registeredCount e + 1\<rparr>) (ad_events s) = counted_up i 1 (ad_events s)"
    unfolding counted_up_def by (intro update_rows_cong)
  then show ?thesis using e s' by (intro that[of e]) auto
qed

lemma decrementEventRegistered_Inr:
  assumes run: "decrementEventRegistered i s = Inr (u, s')" and dist: "distinct (map pe_id (ad_events s))"
  shows "s' = s\<lparr>ad_events := counted_up i (- 1) (ad_events s)\<rparr> \<and> settle_view s' = settle_view s"
proof -
  let ?p = "\<lambda>e. pe_id e = i \<and> 0 < ae_registeredCount e"
  from run have hit: "list_ex ?p (ad_events s)"
    and s': "s' = s\<lparr>ad_events := update_rows ?p (\<lambda>e. e\<lparr>ae_registeredCount := ae_registeredCount e - 1\<rparr>) (ad_events s)\<rparr>"
    unfolding decrementEventRegistered_def casDecrementRegisteredTx_def Let_def by (auto split: if_splits option.splits)
  from hit obtain e where e: "e \<in> set (ad_events s)" "pe_id e = i" "0 < ae_registeredCount e"
    by (auto simp: list_ex_iff)
  have "?p x = (pe_id x = i)" if "x \<in> set (ad_events s)" for x
    using that e dist by (auto simp: distinct_map dest: inj_onD)
  then have "update_rows ?p (\<lambda>e. e\<lparr>ae_registeredCount := ae_registeredCount e - 1\<rparr>) (ad_events s) = counted_up i (- 1) (ad_events s)"
    unfolding counted_up_def by (simp add: update_rows_cong[of "ad_events s" ?p "\<lambda>e. pe_id e = i"])
  then show ?thesis using s' by simp
qed

definition event_ok :: "db \<Rightarrow> access_event \<Rightarrow> bool" where
  "event_ok d e \<longleftrightarrow> ae_registeredCount e = int (registered_at d (pe_id e)) \<and>
    (case ae_maxCapacity e of None \<Rightarrow> True | Some c \<Rightarrow> ae_registeredCount e \<le> c)"

definition events_ok :: "access_db \<Rightarrow> bool" where
  "events_ok s \<longleftrightarrow> distinct (map pe_id (ad_events s)) \<and> list_all (event_ok (settle_view s)) (ad_events s)"

definition books :: "(string \<Rightarrow> int) \<Rightarrow> access_db \<Rightarrow> bool" where
  "books l s \<longleftrightarrow> store_ok (settle_view s) \<and> owed l (settle_view s) \<and> usages_known (settle_view s) \<and> events_ok s"

lemma preserved_books:
  assumes p: "preserved (settle_view s) (settle_view s')" and "ad_events s' = ad_events s" and "books l s"
  shows "books l s'"
proof -
  have "store_ok (settle_view s)" using assms(3) by (simp add: books_def)
  then have "event_ok (settle_view s') = event_ok (settle_view s)"
    using preserved_registered[OF _ p] by (intro ext) (simp add: event_ok_def)
  with assms balanced_owed[OF preserved_balanced[OF p]] show ?thesis
    by (simp add: books_def events_ok_def preserved_def)
qed

lemma kept_books_books: "kept_books s s' \<Longrightarrow> books l s \<Longrightarrow> books l s'"
  by (rule preserved_books) (simp_all add: kept_books_def kept_def)

text \<open>A step that takes the registrations and the counter of one event from one number to the next.\<close>

lemma events_ok_step:
  assumes ok: "events_ok s" and ev: "ad_events s' = counted_up i n (ad_events s)"
    and regs: "\<And>e. int (registered_at (settle_view s') e) = int (registered_at (settle_view s) e) + (if i = e then n else 0)"
    and room: "n \<le> 0 \<or> n = 1 \<and> (\<forall>e \<in> set (ad_events s). pe_id e = i \<longrightarrow> has_room e)"
  shows "events_ok s'"
proof -
  have "map pe_id (ad_events s') = map pe_id (ad_events s)"
    unfolding ev counted_up_def by (rule keys_update_rows) simp
  moreover have "event_ok (settle_view s') e" if "e \<in> set (ad_events s')" for e
  proof -
    from that obtain e0 where e0: "e0 \<in> set (ad_events s)"
      "e = (if pe_id e0 = i then e0\<lparr>ae_registeredCount := ae_registeredCount e0 + n\<rparr> else e0)"
      unfolding ev counted_up_def by (auto simp: set_update_rows)
    have "event_ok (settle_view s) e0" using ok e0(1) by (simp add: events_ok_def list_all_iff)
    then show ?thesis
      using e0 regs[of "pe_id e0"] room by (auto simp: event_ok_def has_room_def split: option.splits if_splits)
  qed
  ultimately show ?thesis using ok by (simp add: events_ok_def list_all_iff)
qed

section \<open>The places of a new registration\<close>

lemma sfold_reserve:
  assumes "store_ok d" and "sfold (\<lambda>(i, n). incrementAccessRegisteredCountTx i n) sels d = Inr d'"
  shows "kept d d' \<and> only_accesses d d'"
  using assms
proof (induction sels arbitrary: d)
  case Nil
  then show ?case by (simp add: kept_refl)
next
  case (Cons x sels)
  obtain i n where x: "x = (i, n)" by (cases x)
  from Cons.prems(2) obtain t where t: "incrementAccessRegisteredCountTx i n d = Inr t"
    and rest: "sfold (\<lambda>(i, n). incrementAccessRegisteredCountTx i n) sels t = Inr d'"
    by (auto simp: x elim!: sbind_InrE)
  have k: "kept d t \<and> only_accesses d t"
    using registered_moves(1)[OF Cons.prems(1), of i n] increment_Inr[OF t] by simp
  with Cons.IH[OF kept_ok rest] show ?case using kept_trans only_accesses_trans by blast
qed

lemma reserve_kept:
  assumes "store_ok d" and "reserveAccessSelections sels d = Inr (u, d')"
  shows "kept d d' \<and> only_accesses d d'"
  using assms sfold_reserve[OF assms(1)] by (auto simp: reserveAccessSelections_def elim!: sbind_InrE)

lemma held_PENDING: "ps_status p = PENDING \<Longrightarrow> held p k = 0"
  by (simp add: held_def holds_place_def)

text \<open>A settlement of a PENDING row keeps the counters, whatever it is told was covered before.\<close>

lemma settle_pending_preserved:
  assumes ok: "store_ok s1" and regs: "db_registrations s1 = db_registrations s"
    and acc: "db_accesses s1 = db_accesses s" and sps: "map sp_id (db_sponsorships s1) = map sp_id (db_sponsorships s)"
    and others: "\<And>j. j \<noteq> i \<Longrightarrow> coverages s1 j = coverages s j"
    and known: "usages_known s \<Longrightarrow> usages_known s1"
    and run: "settleRegistrationTxn icu i o' s1 = Inr (Some res, s')" and upd: "so_expectedUpdatedAt o' = None"
    and pend: "registration_of s i = Some row" "rg_paymentStatus row = PENDING"
  shows "preserved s s'"
proof -
  have ok1: "db_wf s1" "accesses_ok s1" using ok by (simp_all add: store_ok_def)
  obtain row1 where m: "moved o' i row1 s1 s'"
    by (rule settle_discrepancy[OF ok1 run settle_written[OF run upd]])
  note own = moved_owners[OF m]
  note m = m[unfolded moved_def]
  have r1: "row1 = row" using m pend(1) regs by (simp add: registration_of_def)
  have dist: "distinct (map rg_id (db_registrations s))" using ok1 regs by (simp add: db_wf_def)
  have "held (paid_before o' (readSettlementRow row) cov) k = 0" "held (registration_state t row) k = 0" for cov t k
    using pend(2) by (simp_all add: held_PENDING paid_before_def registration_state_def readSettlementRow_def)
  then have "discrepancy s' k = discrepancy s k" for k
    using m discrepancy_usage_change[OF dist pend(1) regs acc others, of k] by (simp add: r1)
  moreover have "same_owners s s'" using same_owners_trans[OF same_owners_rows[OF regs]] own by blast
  ultimately show ?thesis using m ok own known by (simp add: preserved_def store_ok_def regs acc sps)
qed

lemma settle_new_Inr:
  assumes "settle_new icu e i opts d = Inr (res, d')"
  obtains d1 where "settleRegistrationTxn icu i opts d = Inr (Some res, d1)" "same_store d1 d'"
  using assms unfolding settle_new_def by (auto elim!: sbind_InrE split: option.splits)

lemma settle_events:
  assumes "store_ok d" and "settleRegistrationTxn icu i opts d = Inr (Some res, d')" and "so_expectedUpdatedAt opts = None"
  shows "db_events d' = db_events d"
proof -
  have "db_wf d" using assms(1) by (simp add: store_ok_def)
  then obtain row f a u where "d' = d\<lparr>db_registrations := update_rows (\<lambda>r. rg_id r = i) f (db_registrations d),
      db_accesses := a, db_usages := map u (db_usages d)\<rparr>"
    by (rule settle_effect[OF _ assms(2) settle_written[OF assms(2,3)]]) blast
  then show ?thesis by simp
qed

lemma consume_kept:
  assumes ok: "store_ok d" and run: "consumeSponsorshipAtSignup icu sp i e gross d = Inr (x, d')"
    and pend: "registration_of d i = Some row" "rg_paymentStatus row = PENDING"
  shows "kept d d'"
proof -
  from run obtain usage res d1 where lk: "linkSponsorshipUsageTxn sp i gross ''PUBLIC'' d = Inr (usage, d1)"
    and st: "settle_new icu e i (signup_options gross sp usage) d1 = Inr (res, d')"
    unfolding consumeSponsorshipAtSignup_def by (auto elim!: sbind_InrE)
  obtain d2 where s2: "settleRegistrationTxn icu i (signup_options gross sp usage) d1 = Inr (Some res, d2)"
    and same: "same_store d2 d'"
    by (rule settle_new_Inr[OF st])
  note ls = link_usage_store[OF ok lk]
  have upd: "so_expectedUpdatedAt (signup_options gross sp usage) = None" by (simp add: signup_options_def no_options_def)
  have "usages_known d1" if "usages_known d" using link_usage_known[OF lk that] pend by simp
  then have p: "preserved d d2" by (intro settle_pending_preserved[OF _ _ _ _ _ _ s2 upd pend]) (use ls in auto)
  have "db_events d1 = db_events d" using lk by (rule linkSponsorshipUsageTxn_Inr) simp
  with settle_events[OF _ s2 upd] ls have "db_events d2 = db_events d" by simp
  with p have "kept d d2" by (simp add: kept_def)
  from kept_trans[OF this same_store_kept[OF kept_ok[OF this] same]] show ?thesis .
qed

section \<open>What a signup adds\<close>

definition grown :: "access_db \<Rightarrow> access_db \<Rightarrow> string \<Rightarrow> bool" where
  "grown s t e \<longleftrightarrow> balanced (settle_view s) (settle_view t) \<and> ad_events t = ad_events s \<and> ad_forms t = ad_forms s \<and>
    (\<forall>x. registered_at (settle_view t) x = registered_at (settle_view s) x + (if e = x then 1 else 0))"

lemma grown_kept:
  assumes "grown s t e" and "kept_books t u"
  shows "grown s u e"
proof -
  have p: "preserved (settle_view t) (settle_view u)" using assms(2) by (simp add: kept_books_def kept_def)
  have "store_ok (settle_view t)" using assms(1) by (simp add: grown_def balanced_def)
  with assms p preserved_registered[OF _ p] balanced_trans[OF _ preserved_balanced[OF p]] show ?thesis
    by (auto simp: grown_def kept_books_def)
qed

lemma grown_books:
  assumes g: "grown s t e" and "books l s" and inc: "incrementEventRegistered e t = Inr (u, t')"
  shows "books l t'"
proof -
  have ev: "ad_events t = ad_events s" and b: "balanced (settle_view s) (settle_view t)" using g by (simp_all add: grown_def)
  have ok: "events_ok s" using assms(2) by (simp add: books_def)
  obtain x where x: "x \<in> set (ad_events t)" "pe_id x = e" "has_room x" "t' = t\<lparr>ad_events := counted_up e 1 (ad_events t)\<rparr>"
    and v: "settle_view t' = settle_view t"
    by (rule incrementEventRegistered_Inr[OF inc]) (use ok ev in \<open>simp_all add: events_ok_def\<close>)
  have "has_room y" if "y \<in> set (ad_events s)" "pe_id y = e" for y
    using that x ok ev by (auto simp: events_ok_def distinct_map dest: inj_onD)
  then have "events_ok t'"
    by (intro events_ok_step[OF ok, where i = e and n = 1]) (use g x v ev in \<open>auto simp: grown_def\<close>)
  with assms(2) b balanced_owed[OF b] v show ?thesis by (auto simp: books_def balanced_def)
qed

lemma insertRegistrationRow_Inr:
  assumes run: "insertRegistrationRow rep v s = Inr (i, s')" and ok: "store_ok (settle_view s)"
  shows "insert_row rep v (settle_view s) = Inr (i, settle_view s') \<and> ad_events s' = ad_events s \<and> ad_forms s' = ad_forms s \<and>
    form_of s (rg_formId v) \<noteq> None \<and> event_of s (rg_eventId v) \<noteq> None"
proof -
  from run have st: "in_settle (insert_row rep v) s = Inr (i, s')"
    and fk: "form_of s (rg_formId v) \<noteq> None" "event_of s (rg_eventId v) \<noteq> None"
    unfolding insertRegistrationRow_def by (auto elim!: sbind_InrE)
  obtain d where "insert_row rep v (settle_view s) = Inr (i, d)" "settle_view s' = d" "ad_events s' = ad_events s"
    "ad_forms s' = ad_forms s" "ad_edges s' = ad_edges s" "ad_pricing s' = ad_pricing s"
    by (rule in_settle_plain[OF st]) (use insert_row_store[OF ok] in \<open>auto simp del: registrations_view\<close>)
  with fk show ?thesis by simp
qed

lemma insert_grown:
  assumes run: "insertRegistrationRow rep v s = Inr (i, s')" and ok: "store_ok (settle_view s)"
    and none: "\<And>k. held (registration_state (settle_view s) (v\<lparr>rg_id := i\<rparr>)) k = 0"
  shows "grown s s' (rg_eventId v)"
  using insertRegistrationRow_Inr[OF run ok] insert_row_store[OF ok, of rep v i "settle_view s'"] none
  by (simp add: grown_def balanced_def)

lemma settlement_kept:
  assumes run: "signup_settlement env e i sp gross s = Inr (out, s')" and ok: "store_ok (settle_view s)"
    and pend: "registration_of (settle_view s) i = Some row" "rg_paymentStatus row = PENDING"
  shows "kept_books s s'"
proof (cases sp)
  case (Some p)
  with run obtain x where "in_settle (consumeSponsorshipAtSignup (px_icu env) p i e gross) s = Inr (x, s')"
    unfolding signup_settlement_def by (auto elim!: sbind_InrE)
  from in_settle_kept[OF this] consume_kept[OF ok _ pend] show ?thesis by blast
next
  case None
  with run consider "s' = s" | acc where "autoAcceptFreeSignup env e i s = Inr (acc, s')"
    unfolding signup_settlement_def by (auto elim!: sbind_InrE split: if_splits)
  then show ?thesis
  proof cases
    case 1
    then show ?thesis using kept_books_refl[OF ok] by simp
  next
    case 2
    then consider "s' = s" | now res where
      "in_settle (settle_new (px_icu env) e i (waive_options now)) s = Inr (res, s')"
      unfolding autoAcceptFreeSignup_def by (auto elim!: sbind_InrE split: option.splits if_splits)
    then show ?thesis
    proof cases
      case 1
      then show ?thesis using kept_books_refl[OF ok] by simp
    next
      case 2
      have "kept (settle_view s) d" if h: "settle_new (px_icu env) e i (waive_options now) (settle_view s) = Inr (res, d)" for d
      proof -
        obtain d1 where s1: "settleRegistrationTxn (px_icu env) i (waive_options now) (settle_view s) = Inr (Some res, d1)"
          and same: "same_store d1 d"
          by (rule settle_new_Inr[OF h])
        have "kept (settle_view s) d1" by (rule settle_kept[OF ok s1]) (simp_all add: waive_options_def no_options_def)
        from kept_trans[OF this same_store_kept[OF kept_ok[OF this] same]] show ?thesis .
      qed
      with in_settle_kept[OF 2] show ?thesis by blast
    qed
  qed
qed

lemma same_store_networking [simp]: "same_store d (snd (enqueueNetworkingRegistrationCreatedSync i e d))"
  by (simp add: enqueueNetworkingRegistrationCreatedSync_def)

lemma same_store_created_email [simp]: "same_store d (snd (queueRegistrationCreatedEmail e i d))"
  by (simp add: queueRegistrationCreatedEmail_def enqueueTriggeredEmailOutbox_def)

lemma same_store_log: "same_store d (insertAuditLog a d)"
  by (simp add: insertAuditLog_def same_store_def)

lemma same_store_signup [simp]: "same_store d (signup_effects input email gross code e i out d)"
proof -
  obtain linked accepted where out: "out = (linked, accepted)" by (cases out)
  have l: "same_store x (case linked of None \<Rightarrow> x | Some (sp, usage, settled) \<Rightarrow> insertAuditLog (link_audit i sp usage settled) x)" for x
    by (auto simp: same_store_log split: option.split)
  show ?thesis
    unfolding signup_effects_def Let_def out prod.case
    by (rule same_store_trans[OF _ same_store_created_email], rule same_store_trans[OF _ same_store_networking],
        rule same_store_trans[OF _ same_store_events], rule same_store_trans[OF same_store_reg_audit l])
qed

lemma signup_statements_books:
  assumes run: "signup_statements env input email gross code sp e i t = Inr (u, s')"
    and g: "grown s t (pe_id e)" and b: "books l s"
    and pend: "registration_of (settle_view t) i = Some row" "rg_paymentStatus row = PENDING"
  shows "books l s' \<and> ad_forms s' = ad_forms s"
proof -
  from run obtain s1 s2 s3 x y out where res: "in_settle (reserveAccessSelections (sels_of input)) t = Inr (x, s1)"
    and inc: "incrementEventRegistered (pe_id e) s1 = Inr (y, s2)"
    and st: "signup_settlement (ce_pricing env) (pe_id e) i sp gross s2 = Inr (out, s3)"
    and eff: "in_settle (\<lambda>d. Inr ((), signup_effects input email gross code e i out d)) s3 = Inr (u, s')"
    unfolding signup_statements_def by (auto elim!: sbind_InrE)
  have okt: "store_ok (settle_view t)" using g by (simp add: grown_def balanced_def)
  have k1: "kept_books t s1 \<and> reserveAccessSelections (sels_of input) (settle_view t) = Inr (x, settle_view s1)"
    by (rule in_settle_kept[OF res]) (use reserve_kept[OF okt] in blast)
  have oa: "only_accesses (settle_view t) (settle_view s1)" using reserve_kept[OF okt] k1 by blast
  note g1 = grown_kept[OF g conjunct1[OF k1]]
  have b2: "books l s2" by (rule grown_books[OF g1 b inc])
  have dist: "distinct (map pe_id (ad_events s1))" using b g1 by (simp add: grown_def books_def events_ok_def)
  have v2: "settle_view s2 = settle_view s1" "ad_forms s2 = ad_forms s1"
    by (rule incrementEventRegistered_Inr[OF inc dist]; simp)+
  have pend2: "registration_of (settle_view s2) i = Some row"
    using pend(1) only_accesses_fields(1)[OF oa] unfolding v2 registration_of_def by simp
  have ok2: "store_ok (settle_view s2)" using b2 by (simp add: books_def)
  have k3: "kept_books s2 s3" by (rule settlement_kept[OF st ok2 pend2 pend(2)])
  have k4: "kept_books s3 s'" by (rule in_settle_effects[OF eff kept_books_ok[OF k3] same_store_signup])
  from kept_books_books[OF kept_books_trans[OF k3 k4] b2] k3 k4 v2 g1 show ?thesis by (simp add: kept_books_def grown_def)
qed

lemma allocate_tables: "allocateReferenceNumber e s s = Inr (r, s') \<Longrightarrow> rd_tables s' = rd_tables s"
proof -
  assume run: "allocateReferenceNumber e s s = Inr (r, s')"
  show ?thesis
  proof (cases "row_of pe_id e (ad_events (rd_tables s))")
    case None
    with run show ?thesis by (simp add: allocateReferenceNumber_def)
  next
    case (Some x)
    obtain n where "r = formatReferenceNumber (referenceNumberPrefix (ae_slug x) (ae_startDate x)) n"
      and "counted (referenceNumberPrefix (ae_slug x) (ae_startDate x)) n s s'"
      and "stored_safe s \<longrightarrow> r \<notin> set (stored_numbers s)"
      by (rule allocated[OF run Some refl]) simp
    then show ?thesis by (simp add: counted_def)
  qed
qed

lemma in_tables_Inr:
  "in_tables f s = Inr (x, s') \<longleftrightarrow> (\<exists>t. f (rd_tables s) = Inr (x, t) \<and> s' = s\<lparr>rd_tables := t\<rparr>)"
  by (auto simp: in_tables_def sbind_Inr_iff)

text \<open>A committed signup: the row it inserted, and the statements that followed.\<close>

lemma create_txn_InrE:
  assumes "create_txn env input email form gross code token s = Inr (i, s')"
  obtains sp e refno discount t where
    "case code of None \<Rightarrow> sp = None | Some c \<Rightarrow> \<exists>x. sp = Some x \<and> claimSponsorshipCode (fm_eventId form) c (ad_settle (rd_tables s)) = Inr x"
    "signup_gate (fm_eventId form) (cr_paymentMethod input) (rd_tables s) = Inr e"
    "insertRegistrationRow (ce_reported env)
      (signup_row input email form gross discount code refno token (db_clock (ad_settle (rd_tables s)))) (rd_tables s) = Inr (i, t)"
    "signup_statements env input email gross code sp e i t = Inr ((), rd_tables s')"
proof -
  from assms obtain sp e refno s1 discount t u t' where
    "(case code of None \<Rightarrow> Inr None
       | Some c \<Rightarrow> sbind (claimSponsorshipCode (fm_eventId form) c (ad_settle (rd_tables s))) (\<lambda>sp. Inr (Some sp))) = Inr sp"
    and g: "signup_gate (fm_eventId form) (cr_paymentMethod input) (rd_tables s) = Inr e"
    and a: "allocateReferenceNumber (fm_eventId form) s s = Inr (refno, s1)"
    and i: "insertRegistrationRow (ce_reported env)
      (signup_row input email form gross discount code refno token (db_clock (ad_settle (rd_tables s)))) (rd_tables s1) = Inr (i, t)"
    and st: "signup_statements env input email gross code sp e i t = Inr (u, t')" "s' = s1\<lparr>rd_tables := t'\<rparr>"
    unfolding create_txn_def Let_def by (auto elim!: sbind_InrE simp: in_tables_Inr)
  then have "case code of None \<Rightarrow> sp = None
      | Some c \<Rightarrow> \<exists>x. sp = Some x \<and> claimSponsorshipCode (fm_eventId form) c (ad_settle (rd_tables s)) = Inr x"
    by (auto elim!: sbind_InrE split: option.splits)
  then show ?thesis
    by (rule that[OF _ g]) (use i st allocate_tables[OF a] in simp_all)
qed

lemma signup_row_fields [simp]:
  "rg_eventId (signup_row input email form gross discount code refno token now) = fm_eventId form"
  "rg_paymentStatus (signup_row input email form gross discount code refno token now) = PENDING"
  "rg_formId (signup_row input email form gross discount code refno token now) = fm_id form"
  "rg_idempotencyKey (signup_row input email form gross discount code refno token now) = cr_idempotencyKey input"
  "rg_sponsorshipCode (signup_row input email form gross discount code refno token now) = code"
  by (simp_all add: signup_row_def priced_row_def)

lemma signup_gate_event: "signup_gate e m s = Inr x \<Longrightarrow> event_of s e = Some x \<and> pe_id x = e"
  using event_of_key by (auto simp: signup_gate_def elim!: sbind_InrE split: option.splits)

lemma create_txn_books:
  assumes run: "create_txn env input email form gross code token s = Inr (i, s')" and b: "books l (rd_tables s)"
  shows "books l (rd_tables s') \<and> ad_forms (rd_tables s') = ad_forms (rd_tables s)"
proof -
  obtain sp e refno discount t where
    "case code of None \<Rightarrow> sp = None | Some c \<Rightarrow> \<exists>x. sp = Some x \<and> claimSponsorshipCode (fm_eventId form) c (ad_settle (rd_tables s)) = Inr x"
    and gate: "signup_gate (fm_eventId form) (cr_paymentMethod input) (rd_tables s) = Inr e"
    and ins: "insertRegistrationRow (ce_reported env)
      (signup_row input email form gross discount code refno token (db_clock (ad_settle (rd_tables s)))) (rd_tables s) = Inr (i, t)"
    and st: "signup_statements env input email gross code sp e i t = Inr ((), rd_tables s')"
    by (rule create_txn_InrE[OF run])
  have ok: "store_ok (settle_view (rd_tables s))" using b by (simp add: books_def)
  have "grown (rd_tables s) t (pe_id e)"
    using insert_grown[OF ins ok] signup_gate_event[OF gate] by (simp add: held_PENDING registration_state_def)
  moreover have "registration_of (settle_view t) i =
      Some ((signup_row input email form gross discount code refno token (db_clock (ad_settle (rd_tables s))))\<lparr>rg_id := i\<rparr>)"
    using insertRegistrationRow_Inr[OF ins ok] insert_row_store[OF ok] by blast
  ultimately show ?thesis using signup_statements_books[OF st _ b] by simp
qed

section \<open>The administrator's create\<close>

lemma held_settled: "isFullySettled (Some st) \<Longrightarrow>
  held \<lparr>ps_status = st, ps_priceBreakdown = pb, ps_coveredAccessIds = c\<rparr> k = held \<lparr>ps_status = st, ps_priceBreakdown = pb, ps_coveredAccessIds = c'\<rparr> k"
  by (simp add: held_def holds_place_def)

lemma held_uncovered: "\<not> isFullySettled (Some st) \<Longrightarrow>
  held \<lparr>ps_status = st, ps_priceBreakdown = pb, ps_coveredAccessIds = []\<rparr> k = 0"
  by (simp add: held_def holds_place_def)

lemma accesses_moved:
  assumes ok: "store_ok d" and t: "map ea_id t = map ea_id (db_accesses d)" and acc: "accesses_ok (d\<lparr>db_accesses := t\<rparr>)"
  shows "store_ok (d\<lparr>db_accesses := t\<rparr>) \<and> usages_known (d\<lparr>db_accesses := t\<rparr>) = usages_known d \<and>
    discrepancy (d\<lparr>db_accesses := t\<rparr>) k = discrepancy d k + paid_count (d\<lparr>db_accesses := t\<rparr>) k - paid_count d k"
proof -
  have "coverages (d\<lparr>db_accesses := t\<rparr>) j = coverages d j" for j by (rule coverages_tables) simp_all
  then have "places_held (d\<lparr>db_accesses := t\<rparr>) k = places_held d k"
    by (simp add: places_held_def registration_state_def coveredAccessIdsOf_coverages)
  then show ?thesis
    using ok acc by (simp add: store_ok_def db_wf_def accesses_wf_def accesses_ok_def t discrepancy_def usages_known_iff)
qed

lemma same_store_registered: "same_store d d' \<Longrightarrow> registered_at d' e = registered_at d e"
  by (simp add: registered_at_def same_store_fields)

text \<open>Taking the places of the row the transaction inserted makes up for what it was off by.\<close>

lemma take_admin_places_balanced:
  assumes ok: "store_ok d" and run: "take_admin_places input e pb st i d = Inr (u, d')"
    and off: "\<And>k. discrepancy d k = D k - held \<lparr>ps_status = st, ps_priceBreakdown = pb, ps_coveredAccessIds = []\<rparr> k"
  shows "store_ok d' \<and> map ea_id (db_accesses d') = map ea_id (db_accesses d) \<and> (usages_known d \<longrightarrow> usages_known d') \<and>
    (\<forall>k. discrepancy d' k = D k) \<and> db_events d' = db_events d \<and> (\<forall>x. registered_at d' x = registered_at d x)"
proof -
  from run obtain d1 v where res: "reserveAccessSelections (admin_sels input) d = Inr (v, d1)"
    and sync: "(if isFullySettled (Some st) then syncPaidCount i e pb PENDING st d1 else Inr d1) = Inr d'"
    unfolding take_admin_places_def by (auto elim!: sbind_InrE)
  have k: "kept d d1" "only_accesses d d1" using reserve_kept[OF ok res] by simp_all
  have p: "preserved d d1" using k(1) by (simp add: kept_def)
  have ok1: "store_ok d1" using p by (simp add: preserved_def)
  have ev1: "db_events d1 = db_events d" "\<And>x. registered_at d1 x = registered_at d x"
    using only_accesses_fields[OF k(2)] by (simp_all add: registered_at_def)
  have off1: "discrepancy d1 k = D k - held \<lparr>ps_status = st, ps_priceBreakdown = pb, ps_coveredAccessIds = []\<rparr> k" for k
    using p off[of k] by (simp add: preserved_def)
  show ?thesis
  proof (cases "isFullySettled (Some st)")
    case False
    with sync have "d' = d1" by simp
    with False p ev1 off1 show ?thesis by (simp add: preserved_def held_uncovered)
  next
    case True
    with sync have s: "syncPaidCount i e pb PENDING st d1 = Inr d'" by simp
    have a1: "accesses_ok d1" using ok1 by (simp add: store_ok_def)
    obtain t where same: "same_store (d1\<lparr>db_accesses := t\<rparr>) d'" and ids: "map ea_id t = map ea_id (db_accesses d1)"
      and acc: "accesses_ok (d1\<lparr>db_accesses := t\<rparr>)"
      and pc: "\<And>k. paid_count (d1\<lparr>db_accesses := t\<rparr>) k = paid_count d1 k
        + held \<lparr>ps_status = st, ps_priceBreakdown = pb, ps_coveredAccessIds = coveredAccessIdsOf d1 i\<rparr> k
        - held \<lparr>ps_status = PENDING, ps_priceBreakdown = pb, ps_coveredAccessIds = coveredAccessIdsOf d1 i\<rparr> k"
      using syncPaidCount_Inr[OF s a1] by blast
    note am = accesses_moved[OF ok1 ids acc]
    have sp: "preserved (d1\<lparr>db_accesses := t\<rparr>) d'" using same_store_preserved[OF _ same] am by blast
    have "discrepancy d' k = D k" for k
      using sp am[of k] off1[of k] pc[of k] held_settled[OF True, of pb "coveredAccessIdsOf d1 i" k "[]"]
      by (simp add: preserved_def held_PENDING)
    with sp am p ids ev1 same_store_fields[OF same] same_store_registered[OF same] show ?thesis
      by (simp add: preserved_def registered_at_def)
  qed
qed

lemma admin_row_fields [simp]:
  "rg_eventId (admin_row input email form formData pb discount paid st refno now) = fm_eventId form"
  "rg_paymentStatus (admin_row input email form formData pb discount paid st refno now) = st"
  "rg_priceBreakdown (admin_row input email form formData pb discount paid st refno now) = pb"
  "rg_formId (admin_row input email form formData pb discount paid st refno now) = fm_id form"
  "rg_paidAmount (admin_row input email form formData pb discount paid st refno now) = paid"
  "rg_totalAmount (admin_row input email form formData pb discount paid st refno now) = pb_subtotal pb"
  "rg_sponsorshipAmount (admin_row input email form formData pb discount paid st refno now) = 0"
  by (simp_all add: admin_row_def priced_row_def)

lemma same_store_admin [simp]: "same_store d (admin_effects input email e pb who i d)"
  unfolding admin_effects_def Let_def
  by (auto intro: same_store_trans[OF _ same_store_created_email] same_store_trans[OF same_store_reg_audit same_store_networking])

lemma admin_txn_InrE:
  assumes "admin_create_txn env eventId input email form formData pb who s = Inr (i, s')"
  obtains e refno paid discount t st where "admin_gate eventId (ac_paymentMethod input) (rd_tables s) = Inr e"
    "st = (case ac_paymentStatus input of None \<Rightarrow> PENDING | Some st \<Rightarrow> st)" "admin_paid st pb = Inr paid"
    "insertRegistrationRow (ce_reported env)
      (admin_row input email form formData pb discount paid st refno (db_clock (ad_settle (rd_tables s)))) (rd_tables s) = Inr (i, t)"
    "admin_statements input email eventId pb st who i t = Inr ((), rd_tables s')"
proof -
  define st where "st = (case ac_paymentStatus input of None \<Rightarrow> PENDING | Some st \<Rightarrow> st)"
  from assms obtain e refno s1 paid discount t u t' where
    g: "admin_gate eventId (ac_paymentMethod input) (rd_tables s) = Inr e"
    and a: "allocateReferenceNumber eventId s s = Inr (refno, s1)" and p: "admin_paid st pb = Inr paid"
    and i: "insertRegistrationRow (ce_reported env)
      (admin_row input email form formData pb discount paid st refno (db_clock (ad_settle (rd_tables s)))) (rd_tables s1) = Inr (i, t)"
    and st: "admin_statements input email eventId pb st who i t = Inr (u, t')" "s' = s1\<lparr>rd_tables := t'\<rparr>"
    unfolding admin_create_txn_def Let_def st_def[symmetric] by (auto elim!: sbind_InrE simp: in_tables_Inr)
  then show ?thesis
    by (intro that[OF g st_def p]) (use i st allocate_tables[OF a] in simp_all)
qed

lemma admin_create_books:
  assumes run: "admin_create_txn env eventId input email form formData pb who s = Inr (i, s')"
    and b: "books l (rd_tables s)" and form: "fm_eventId form = eventId"
  shows "books l (rd_tables s')"
proof -
  let ?s = "rd_tables s"
  obtain e refno paid discount t st where gate: "admin_gate eventId (ac_paymentMethod input) ?s = Inr e"
    and "st = (case ac_paymentStatus input of None \<Rightarrow> PENDING | Some st \<Rightarrow> st)" "admin_paid st pb = Inr paid"
    and ins: "insertRegistrationRow (ce_reported env)
      (admin_row input email form formData pb discount paid st refno (db_clock (ad_settle ?s))) ?s = Inr (i, t)"
    and sts: "admin_statements input email eventId pb st who i t = Inr ((), rd_tables s')"
    by (rule admin_txn_InrE[OF run])
  have ok: "store_ok (settle_view ?s)" and kn: "usages_known (settle_view ?s)" using b by (simp_all add: books_def)
  note I = insertRegistrationRow_Inr[OF ins ok]
  note S = insert_row_store[OF ok conjunct1[OF I]]
  have okt: "store_ok (settle_view t)" using S by simp
  have cov: "coveredAccessIdsOf (settle_view ?s) i = []" by (rule unknown_uncovered[OF kn]) (use S in simp)
  have off: "discrepancy (settle_view t) k = discrepancy (settle_view ?s) k
      - held \<lparr>ps_status = st, ps_priceBreakdown = pb, ps_coveredAccessIds = []\<rparr> k" for k
    using S by (simp add: registration_state_def cov)
  from sts obtain s1 s2 x y where tk: "in_settle (take_admin_places input eventId pb st i) t = Inr (x, s1)"
    and inc: "incrementEventRegistered eventId s1 = Inr (y, s2)"
    and eff: "in_settle (\<lambda>d. Inr ((), admin_effects input email eventId pb who i d)) s2 = Inr ((), rd_tables s')"
    unfolding admin_statements_def by (auto elim!: sbind_InrE)
  note T = take_admin_places_balanced[OF okt _ off]
  obtain d where d: "take_admin_places input eventId pb st i (settle_view t) = Inr (x, d)" "settle_view s1 = d"
    "ad_events s1 = ad_events t" "ad_forms s1 = ad_forms t" "ad_edges s1 = ad_edges t" "ad_pricing s1 = ad_pricing t"
    by (rule in_settle_plain[OF tk]) (use T in blast)
  have "grown ?s s1 eventId"
    using T[OF d(1)] d I S form by (simp add: grown_def balanced_def)
  from grown_books[OF this b inc] have b2: "books l s2" .
  then have "store_ok (settle_view s2)" by (simp add: books_def)
  from in_settle_effects[OF eff this same_store_admin] show ?thesis using kept_books_books b2 by blast
qed

section \<open>Deletion\<close>

text \<open>The statuses of the released sponsorships move, their coverage does not.\<close>

definition statuses_moved :: "db \<Rightarrow> db \<Rightarrow> bool" where
  "statuses_moved d d' \<longleftrightarrow> d' = d\<lparr>db_sponsorships := db_sponsorships d'\<rparr> \<and>
    map sp_id (db_sponsorships d') = map sp_id (db_sponsorships d) \<and>
    (\<forall>x. map_option coverage_of (sponsorship_of d' x) = map_option coverage_of (sponsorship_of d x))"

lemma statuses_moved_refl: "statuses_moved d d"
  by (simp add: statuses_moved_def)

lemma statuses_moved_trans: "statuses_moved d t \<Longrightarrow> statuses_moved t u \<Longrightarrow> statuses_moved d u"
  unfolding statuses_moved_def by (cases d; cases t; cases u) simp

lemma statuses_moved_fields:
  assumes "statuses_moved d d'"
  shows "db_registrations d' = db_registrations d" "db_accesses d' = db_accesses d" "db_usages d' = db_usages d"
    "db_ids d' = db_ids d" "db_events d' = db_events d" "coverages d' j = coverages d j"
proof -
  have d': "d' = d\<lparr>db_sponsorships := db_sponsorships d'\<rparr>" using assms by (simp add: statuses_moved_def)
  show f: "db_registrations d' = db_registrations d" "db_accesses d' = db_accesses d" "db_usages d' = db_usages d"
    "db_ids d' = db_ids d" "db_events d' = db_events d" by (subst d', simp)+
  show "coverages d' j = coverages d j" by (rule coverages_cong) (use assms f in \<open>simp_all add: statuses_moved_def\<close>)
qed

lemma settle_status_moved:
  assumes "settleSponsorshipStatusTxn x st d = (c, d')"
  shows "statuses_moved d d'"
proof -
  have "statuses_moved d (updateSponsorshipRow x (\<lambda>r. r\<lparr>sp_status := y\<rparr>) d)" for y
    by (simp add: statuses_moved_def updateSponsorshipRow_def keys_update_rows sponsorship_of_def coverage_update
        coverage_of_def covered_ids_def)
  then show ?thesis
    using assms by (auto simp: settleSponsorshipStatusTxn_def Let_def statuses_moved_refl split: if_splits)
qed

lemma release_status_moved: "fold release_status_step ids (acc, d) = (acc', d') \<Longrightarrow> statuses_moved d d'"
proof (induction ids arbitrary: acc d)
  case Nil
  then show ?case by (simp add: statuses_moved_refl)
next
  case (Cons i ids)
  obtain acc1 d1 where st: "release_status_step i (acc, d) = (acc1, d1)" by fastforce
  have "statuses_moved d d1"
    using st settle_status_moved by (auto simp: release_status_step_def statuses_moved_refl split: option.splits prod.splits)
  with Cons st statuses_moved_trans show ?case by (fastforce simp del: release_status_step_def)
qed

lemma releaseUsages_Inr:
  assumes "releaseRegistrationUsagesTxn i d = ((cov, sts), d')"
  shows "cov = coveredAccessIdsOf d i \<and> statuses_moved (deleteRegistrationUsages i d) d'"
proof -
  have none: "deleteRegistrationUsages i d = d" if "findRegistrationUsageLinks d i = []"
  proof -
    have "filter (\<lambda>u. us_registrationId u \<noteq> Some i) (db_usages d) = db_usages d"
      using that by (auto simp: findRegistrationUsageLinks_def filter_empty_conv intro: filter_True)
    then show ?thesis by (simp add: deleteRegistrationUsages_def)
  qed
  show ?thesis
    using assms none unfolding releaseRegistrationUsagesTxn_def Let_def
    by (auto split: prod.splits if_splits dest!: release_status_moved)
qed

lemma syncPaidCountDelta_Inr:
  assumes run: "syncPaidCountDelta e a b d = Inr d'" and ok: "accesses_ok d"
  obtains t where "same_store (d\<lparr>db_accesses := t\<rparr>) d'" "map ea_id t = map ea_id (db_accesses d)"
    "accesses_ok (d\<lparr>db_accesses := t\<rparr>)" "\<And>k. paid_count (d\<lparr>db_accesses := t\<rparr>) k = paid_count d k + held b k - held a k"
proof -
  from run obtain moves d1 where m: "applyPaidAccessDelta a b d = Inr (moves, d1)"
    and d': "d' = (if pm_incremented moves = [] then d1 else snd (handleCapacityReached e (pm_incremented moves) d1))"
    unfolding syncPaidCountDelta_def by (auto split: sum.splits prod.splits)
  obtain t where t: "d1 = d\<lparr>db_accesses := t\<rparr>" "map ea_id t = map ea_id (db_accesses d)"
    using applyPaidAccessDelta_frame[OF m] by blast
  have "same_store d1 d'" by (simp add: d')
  with paid_access_delta[OF ok m] t show ?thesis by (intro that[of t]) auto
qed

lemma sfold_give_up:
  assumes "store_ok d" and "sfold (\<lambda>l. decrementAccessRegisteredCountTx (li_accessId l) (li_quantity l)) ls d = Inr d'"
  shows "kept d d' \<and> only_accesses d d'"
  using assms
proof (induction ls arbitrary: d)
  case Nil
  then show ?case by (simp add: kept_refl)
next
  case (Cons l ls)
  from Cons.prems(2) obtain t where t: "decrementAccessRegisteredCountTx (li_accessId l) (li_quantity l) d = Inr t"
    and rest: "sfold (\<lambda>l. decrementAccessRegisteredCountTx (li_accessId l) (li_quantity l)) ls t = Inr d'"
    by (auto elim!: sbind_InrE)
  have k: "kept d t \<and> only_accesses d t"
    using registered_moves(2)[OF Cons.prems(1), of "li_accessId l" "li_quantity l"] decrement_Inr[OF t] by simp
  with Cons.IH[OF kept_ok rest] show ?case using kept_trans only_accesses_trans by blast
qed

text \<open>Giving back leaves the counters below the books by what the row holds without its sponsorships.\<close>

definition given_back :: "string \<Rightarrow> registration_row \<Rightarrow> db \<Rightarrow> db \<Rightarrow> bool" where
  "given_back i r d d' \<longleftrightarrow> store_ok d' \<and> map ea_id (db_accesses d') = map ea_id (db_accesses d) \<and>
    db_registrations d' = db_registrations d \<and> db_events d' = db_events d \<and> (usages_known d \<longrightarrow> usages_known d') \<and>
    (\<forall>u \<in> set (db_usages d'). us_registrationId u \<noteq> Some i) \<and> coverages d' i = [] \<and>
    (\<forall>k. discrepancy d' k = discrepancy d k
      - held \<lparr>ps_status = rg_paymentStatus r, ps_priceBreakdown = rg_priceBreakdown r, ps_coveredAccessIds = []\<rparr> k)"

lemma usages_deleted:
  assumes ok: "store_ok d" and r: "registration_of d i = Some r"
  shows "store_ok (deleteRegistrationUsages i d) \<and> coverages (deleteRegistrationUsages i d) i = [] \<and>
    (usages_known d \<longrightarrow> usages_known (deleteRegistrationUsages i d)) \<and>
    discrepancy (deleteRegistrationUsages i d) k = discrepancy d k + held (registration_state d r) k
      - held \<lparr>ps_status = rg_paymentStatus r, ps_priceBreakdown = rg_priceBreakdown r, ps_coveredAccessIds = []\<rparr> k"
proof -
  let ?d = "deleteRegistrationUsages i d"
  have others: "coverages ?d j = coverages d j" if "j \<noteq> i" for j
    by (rule coverages_cong) (use that in \<open>auto simp: deleteRegistrationUsages_def sponsorship_of_def filter_filter intro!: filter_cong\<close>)
  have mine: "coverages ?d i = []" by (simp add: coverages_alt deleteRegistrationUsages_def filter_filter filter_empty_conv)
  have idr: "rg_id r = i" by (rule registration_of_key[OF r])
  have st: "registration_state ?d r = \<lparr>ps_status = rg_paymentStatus r, ps_priceBreakdown = rg_priceBreakdown r, ps_coveredAccessIds = []\<rparr>"
    by (simp add: registration_state_def coveredAccessIdsOf_coverages idr mine uniq_def)
  have dist: "distinct (map rg_id (db_registrations d))" using ok by (simp add: store_ok_def db_wf_def)
  have "discrepancy ?d k = discrepancy d k + held (registration_state d r) k - held (registration_state ?d r) k"
    by (rule discrepancy_usage_change[OF dist r _ _ others]) (simp_all add: deleteRegistrationUsages_def)
  moreover have "store_ok ?d"
    using ok by (auto simp: store_ok_def db_wf_def accesses_ok_def accesses_wf_def deleteRegistrationUsages_def distinct_map_filter)
  moreover have "usages_known ?d" if "usages_known d"
    using that by (auto simp: usages_known_iff deleteRegistrationUsages_def)
  ultimately show ?thesis using mine st by simp
qed

lemma same_store_usages_known: "same_store d d' \<Longrightarrow> usages_known d' = usages_known d"
  by (intro usages_known_tables) (simp_all add: same_store_fields)

lemma give_back_Inr:
  assumes ok: "store_ok d" and r: "registration_of d i = Some r" and run: "give_back i r who force d = Inr (u, d')"
  shows "given_back i r d d'"
proof -
  let ?e = "\<lparr>ps_status = rg_paymentStatus r, ps_priceBreakdown = rg_priceBreakdown r, ps_coveredAccessIds = []\<rparr>"
  define dA where "dA = audit i ''DELETE'' (delete_changes r force) who d"
  define dU where "dU = deleteRegistrationUsages i dA"
  obtain cov sts d1 where rel: "releaseRegistrationUsagesTxn i dA = ((cov, sts), d1)" by (metis prod.collapse)
  from run obtain d2 where dec: "sfold (\<lambda>l. decrementAccessRegisteredCountTx (li_accessId l) (li_quantity l))
      (pb_accessItems (rg_priceBreakdown r)) d1 = Inr d2"
    and sync: "syncPaidCountDelta (rg_eventId r)
       \<lparr>ps_status = rg_paymentStatus r, ps_priceBreakdown = rg_priceBreakdown r, ps_coveredAccessIds = uniq cov\<rparr>
       \<lparr>ps_status = PENDING, ps_priceBreakdown = rg_priceBreakdown r, ps_coveredAccessIds = []\<rparr> d2 = Inr d'"
    unfolding give_back_def Let_def dA_def[symmetric] rel prod.case by (auto elim!: sbind_InrE)
  have sA: "same_store d dA" by (simp add: dA_def)
  have okA: "store_ok dA" and pA: "preserved d dA" using same_store_preserved[OF ok sA] by (simp_all add: preserved_def)
  note fA = same_store_fields[OF sA]
  have rA: "registration_of dA i = Some r" using r fA by (simp add: registration_of_def)
  note U = usages_deleted[OF okA rA, folded dU_def]
  have cov: "cov = coveredAccessIdsOf dA i" and sm: "statuses_moved dU d1"
    using releaseUsages_Inr[OF rel] by (simp_all add: dU_def)
  note f1 = statuses_moved_fields[OF sm]
  have ids1: "map sp_id (db_sponsorships d1) = map sp_id (db_sponsorships dU)" using sm by (simp add: statuses_moved_def)
  have ok1: "store_ok d1" using conjunct1[OF U]
    by (simp add: store_ok_def db_wf_def accesses_ok_def accesses_wf_def f1 ids1)
  have D1: "discrepancy d1 k = discrepancy dU k" for k by (rule discrepancy_same) (simp_all add: f1)
  have K: "kept d1 d2" "only_accesses d1 d2" using sfold_give_up[OF ok1 dec] by simp_all
  have ok2: "store_ok d2" using K(1) by (rule kept_ok)
  have p2: "preserved d1 d2" using K(1) by (simp add: kept_def)
  note f2 = only_accesses_fields[OF K(2)]
  have a2: "accesses_ok d2" using ok2 by (simp add: store_ok_def)
  obtain t where same: "same_store (d2\<lparr>db_accesses := t\<rparr>) d'" and ids: "map ea_id t = map ea_id (db_accesses d2)"
    and acc: "accesses_ok (d2\<lparr>db_accesses := t\<rparr>)" and pc: "\<And>k. paid_count (d2\<lparr>db_accesses := t\<rparr>) k = paid_count d2 k
      + held \<lparr>ps_status = PENDING, ps_priceBreakdown = rg_priceBreakdown r, ps_coveredAccessIds = []\<rparr> k
      - held \<lparr>ps_status = rg_paymentStatus r, ps_priceBreakdown = rg_priceBreakdown r, ps_coveredAccessIds = uniq cov\<rparr> k"
    by (rule syncPaidCountDelta_Inr[OF sync a2]) blast
  note am = accesses_moved[OF ok2 ids acc]
  note fs = same_store_fields[OF same]
  have p3: "preserved (d2\<lparr>db_accesses := t\<rparr>) d'" by (rule same_store_preserved[OF _ same]) (use am in blast)
  have idr: "rg_id r = i" by (rule registration_of_key[OF r])
  have hc: "held \<lparr>ps_status = rg_paymentStatus r, ps_priceBreakdown = rg_priceBreakdown r, ps_coveredAccessIds = uniq cov\<rparr> k
      = held (registration_state dA r) k" for k
    by (rule held_cong) (simp_all add: registration_state_def cov idr)
  have disc: "discrepancy d' k = discrepancy d k - held ?e k" for k
    using p3 am[of k] pc[of k] p2 D1[of k] U[of k] pA hc[of k] by (simp add: preserved_def held_PENDING)
  have us: "db_usages d' = db_usages dU" by (simp add: fs f2 f1)
  have regs: "db_registrations d' = db_registrations d" by (simp add: fs f2 f1 dU_def deleteRegistrationUsages_def fA)
  have eas: "map ea_id (db_accesses d') = map ea_id (db_accesses d)"
    using fs ids p2 f1 by (simp add: preserved_def dU_def deleteRegistrationUsages_def fA)
  have evs: "db_events d' = db_events d" by (simp add: fs f2 f1 dU_def deleteRegistrationUsages_def fA)
  have kn: "usages_known d'" if "usages_known d"
  proof -
    have "usages_known dU" using U that same_store_usages_known[OF sA] by simp
    then show ?thesis by (simp add: usages_known_iff us regs) (simp add: dU_def deleteRegistrationUsages_def fA)
  qed
  have none: "\<forall>u \<in> set (db_usages d'). us_registrationId u \<noteq> Some i" by (simp add: us dU_def deleteRegistrationUsages_def)
  then have "coverages d' i = []" by (simp add: coverages_alt filter_empty_conv)
  with p3 disc regs eas evs kn none show ?thesis by (simp add: given_back_def preserved_def)
qed

lemma delete_row_store:
  assumes g: "given_back i r d d'" and r: "registration_of d i = Some r" and known: "usages_known d"
  shows "balanced d (deleteRegistrationRow i d') \<and>
    (\<forall>e. int (registered_at (deleteRegistrationRow i d') e) = int (registered_at d e) - (if rg_eventId r = e then 1 else 0)) \<and>
    registration_of (deleteRegistrationRow i d') i = None"
proof -
  let ?d = "deleteRegistrationRow i d'"
  have ok: "store_ok d'" and regs: "db_registrations d' = db_registrations d" and kn: "usages_known d'"
    using g known by (simp_all add: given_back_def)
  have dist: "distinct (map rg_id (db_registrations d'))" using ok by (simp add: store_ok_def db_wf_def)
  have idr: "rg_id r = i" by (rule registration_of_key[OF r])
  have inr: "r \<in> set (db_registrations d')" using r regs by (auto simp: registration_of_def dest: row_of_Some)
  obtain xs ys where split: "db_registrations d' = xs @ r # ys" using inr by (metis split_list)
  have "i \<notin> rg_id ` set xs" "i \<notin> rg_id ` set ys" using dist idr unfolding split by auto
  then have no: "\<forall>x \<in> set xs \<union> set ys. rg_id x \<noteq> i" by blast
  then have "filter (\<lambda>r. rg_id r \<noteq> i) (db_registrations d') = xs @ ys"
    unfolding split by (simp add: idr filter_id_conv)
  then have regs': "db_registrations ?d = xs @ ys" by (simp add: deleteRegistrationRow_def)
  have cov: "coverages ?d j = coverages d' j" for j by (rule coverages_tables) (simp_all add: deleteRegistrationRow_def)
  have st: "registration_state ?d x = registration_state d' x" for x
    by (simp add: registration_state_def coveredAccessIdsOf_coverages cov)
  have e: "registration_state d' r = \<lparr>ps_status = rg_paymentStatus r, ps_priceBreakdown = rg_priceBreakdown r, ps_coveredAccessIds = []\<rparr>"
    using g by (simp add: registration_state_def coveredAccessIdsOf_coverages idr given_back_def uniq_def)
  have "places_held d' k = places_held ?d k + held (registration_state d' r) k" for k
    by (simp add: places_held_def st regs' split)
  moreover have "paid_count ?d k = paid_count d' k" for k by (simp add: deleteRegistrationRow_def paid_count_def access_of_def)
  ultimately have disc: "discrepancy ?d k = discrepancy d k" for k
    using g by (simp add: discrepancy_def given_back_def e)
  have "store_ok ?d"
    using ok by (auto simp: store_ok_def db_wf_def accesses_ok_def accesses_wf_def deleteRegistrationRow_def distinct_map_filter)
  moreover have "usages_known ?d"
    unfolding usages_known_iff
  proof (intro ballI allI impI)
    fix w j assume w: "w \<in> set (db_usages ?d)" "us_registrationId w = Some j"
    then have w': "w \<in> set (db_usages d')" by (simp add: deleteRegistrationRow_def)
    then have "j \<in> rg_id ` set (db_registrations d')" using kn w(2) by (simp add: usages_known_iff)
    moreover have "j \<noteq> i" using g w' w(2) by (auto simp: given_back_def)
    ultimately show "j \<in> rg_id ` set (db_registrations ?d)" by (auto simp: deleteRegistrationRow_def)
  qed
  moreover have "int (registered_at ?d e) = int (registered_at d e) - (if rg_eventId r = e then 1 else 0)" for e
    by (simp add: registered_at_def regs[symmetric] regs' split)
  moreover have "registration_of ?d i = None"
    by (auto simp: registration_of_def row_of_None deleteRegistrationRow_def)
  ultimately show ?thesis
    using disc g by (simp add: balanced_def given_back_def) (simp add: deleteRegistrationRow_def)
qed

lemma deleteRegistration_books:
  assumes run: "deleteRegistration i who force s = Inr (u, s')" and b: "books l s"
  shows "books l s' \<and> ad_forms s' = ad_forms s \<and> registration_of (ad_settle s') i = None \<and>
    (\<exists>r. registration_of (ad_settle s) i = Some r \<and> (rg_paymentStatus r = PAID \<longrightarrow> force))"
proof -
  from run obtain m x y s1 s2 where lock: "lockRegistrationForMutation i s = Inr m"
    and paid: "rg_paymentStatus (rm_row m) \<noteq> PAID \<or> force"
    and gb: "in_settle (give_back i (rm_row m) who force) s = Inr (x, s1)"
    and dec: "decrementEventRegistered (rg_eventId (rm_row m)) s1 = Inr (y, s2)"
    and fin: "in_settle (\<lambda>d. Inr ((), delete_finish m d)) s2 = Inr (u, s')"
    unfolding deleteRegistration_def delete_statements_def
    by (elim sbind_InrE) (auto simp only: guard_simps prod.case elim!: sbind_InrE)
  let ?r = "rm_row m" and ?d = "settle_view s"
  have row: "registration_of (ad_settle s) i = Some ?r" using lockForMutation_Inr[OF lock] by blast
  then have rowv: "registration_of ?d i = Some ?r" by simp
  have idr: "rg_id ?r = i" by (rule registration_of_key[OF row])
  have ok: "store_ok ?d" and kn: "usages_known ?d" and ev: "events_ok s" using b by (simp_all add: books_def)
  note G = give_back_Inr[OF ok rowv]
  obtain d where g: "give_back i ?r who force ?d = Inr (x, d)" and v1: "settle_view s1 = d"
    and e1: "ad_events s1 = ad_events s" "ad_forms s1 = ad_forms s" "ad_edges s1 = ad_edges s" "ad_pricing s1 = ad_pricing s"
    by (rule in_settle_plain[OF gb]) (use G in \<open>auto simp: given_back_def\<close>)
  have s2: "s2 = s1\<lparr>ad_events := counted_up (rg_eventId ?r) (- 1) (ad_events s1)\<rparr>" "settle_view s2 = d"
    using decrementEventRegistered_Inr[OF dec] ev e1(1) unfolding events_ok_def v1[symmetric] by auto
  note R = delete_row_store[OF G[OF g] rowv kn]
  let ?R = "deleteRegistrationRow i d"
  have okR: "store_ok ?R" using R by (simp add: balanced_def)
  have same: "same_store ?R (delete_finish m d)" by (simp add: delete_finish_def Let_def idr)
  note fs = same_store_fields[OF same]
  have p: "preserved ?R (delete_finish m d)" by (rule same_store_preserved[OF okR same])
  obtain d' where d': "Inr ((), delete_finish m (settle_view s2)) = (Inr (u, d') :: error + _)" "settle_view s' = d'"
    and e': "ad_events s' = ad_events s2" "ad_forms s' = ad_forms s2" "ad_edges s' = ad_edges s2" "ad_pricing s' = ad_pricing s2"
    by (rule in_settle_plain[OF fin]) (use s2 fs in \<open>auto simp: deleteRegistrationRow_def\<close>)
  have v': "settle_view s' = delete_finish m d" using d' s2 by simp
  have bal: "balanced ?d (settle_view s')" using balanced_trans[OF _ preserved_balanced[OF p]] R v' by simp
  have "events_ok s'"
    by (rule events_ok_step[OF ev, where i = "rg_eventId ?r" and n = "- 1"])
      (use R v' same_store_registered[OF same] e' s2 e1 in auto)
  moreover have "registration_of (settle_view s') i = None"
    using R fs(1) unfolding v' registration_of_def by simp
  ultimately show ?thesis
    using bal balanced_owed[OF bal] b kn row paid e' s2 e1 by (auto simp: books_def balanced_def)
qed

end
