(* ===== verification/RegistrationSystem.thy ===== *)
theory RegistrationSystem
  imports RegistrationBooks Events
begin

text \<open>
  The registration services as one state machine: signups, administrators' creates and edits, self-edits, payments,
  deletions, payment proofs, edits of events and of access items and the settlement's own operations, committed in any
  order over a fixed set of events and access items. What all of them but the payment proof promise is a locale; each
  operation interprets it on its model. A payment proof moves the books by an amount its run records.
\<close>

section \<open>The contract of an operation\<close>

locale reg_operation =
  fixes run :: "'i \<Rightarrow> reg_db \<Rightarrow> error + 'o \<times> reg_db"
  assumes keeps: "run x s = Inr (y, s') \<Longrightarrow> books l (rd_tables s) \<Longrightarrow> books l (rd_tables s')"
begin

text \<open>An attempt commits or leaves the state it found.\<close>

definition attempt :: "'i \<Rightarrow> reg_db \<Rightarrow> reg_db" where
  "attempt x s = (case run x s of Inl e \<Rightarrow> s | Inr (y, s') \<Rightarrow> s')"

lemma attempt_books: "books l (rd_tables s) \<Longrightarrow> books l (rd_tables (attempt x s))"
  using keeps by (auto simp: attempt_def split: sum.split prod.split)

lemma attempts_books: "books l (rd_tables s) \<Longrightarrow> books l (rd_tables (fold attempt xs s))"
  by (induction xs arbitrary: s) (simp_all add: attempt_books)

end

text \<open>An operation on one registration that stays where it is: every such operation fulfils the contract.\<close>

locale row_operation =
  fixes run :: "'i \<Rightarrow> access_db \<Rightarrow> error + 'o \<times> access_db" and target :: "'i \<Rightarrow> string"
  assumes moves: "run x s = Inr (y, s') \<Longrightarrow> store_ok (settle_view s) \<Longrightarrow> \<exists>r r'. moved_row (target x) s s' r r'"
begin

lemma run_books: "run x s = Inr (y, s') \<Longrightarrow> books l s \<Longrightarrow> books l s'"
proof -
  assume run: "run x s = Inr (y, s')" and b: "books l s"
  then have "store_ok (settle_view s)" by (simp add: books_def)
  with moves[OF run] have "kept_books s s'" by (auto simp: moved_row_def kept_books_def)
  then show ?thesis using b by (rule kept_books_books)
qed

end

sublocale row_operation \<subseteq> reg_operation "\<lambda>x. in_tables (run x)"
  by unfold_locales (auto simp: in_tables_Inr run_books)

section \<open>The operations\<close>

lemma row_read: "getRegistrationByIdRow s i = Some r \<Longrightarrow> registration_of (ad_settle s) i = Some r"
  by (simp add: getRegistrationByIdRow_def split: option.split_asm if_split_asm)

lemma updateRegistration_row:
  assumes "updateRegistration env i input who s = Inr (u, s')" and ok: "store_ok (settle_view s)"
  shows "\<exists>r r'. moved_row i s s' r r'"
proof (cases "input = empty_update")
  case True
  have "(case getRegistrationByIdRow s i of None \<Rightarrow> Inl registration_not_found | Some _ \<Rightarrow> Inr ((), s)) = Inr (u, s')"
    using assms(1) unfolding updateRegistration_def True by (simp only: if_True simp_thms)
  then have s': "s' = s" and "getRegistrationByIdRow s i \<noteq> None" by (simp_all split: option.split_asm)
  then obtain r where r: "getRegistrationByIdRow s i = Some r" by blast
  have "moved_row i s s r r" using row_read[OF r] kept_refl[OF ok] by (simp add: moved_row_def)
  then show ?thesis unfolding s' by blast
next
  case False
  from updateRegistration_moved[OF ok assms(1) False] show ?thesis by blast
qed

interpretation update: row_operation "\<lambda>(i, input, who). updateRegistration env i input who" fst for env
  by unfold_locales (auto simp: updateRegistration_row)

lemma confirm_row:
  "confirmPayment env i yinput who ip s = Inr (u, s') \<Longrightarrow> store_ok (settle_view s) \<Longrightarrow> \<exists>r r'. moved_row i s s' r r'"
  using confirmPayment_moved[of s env i yinput who ip u s'] by blast

lemma select_row:
  "selectPaymentMethod env i m s = Inr (u, s') \<Longrightarrow> store_ok (settle_view s) \<Longrightarrow> \<exists>r r'. moved_row i s s' r r'"
  using selectPaymentMethod_moved[of s env i m u s'] by blast

lemma admin_edit_row:
  "adminEditRegistration env eventId i einput who s = Inr (u, s') \<Longrightarrow> store_ok (settle_view s) \<Longrightarrow> \<exists>r r'. moved_row i s s' r r'"
  using adminEdit_moved[of s env eventId i einput who u s'] by blast

lemma self_edit_row:
  "editRegistrationPublic env fmt i pinput s = Inr (pb, s') \<Longrightarrow> store_ok (settle_view s) \<Longrightarrow> \<exists>r r'. moved_row i s s' r r'"
  using editRegistrationPublic_moved[of s env fmt i pinput pb s'] by blast

interpretation confirm: row_operation "\<lambda>(i, input, who, ip). confirmPayment env i input who ip" fst for env
  by unfold_locales (auto intro: confirm_row)

interpretation select: row_operation "\<lambda>(i, m). selectPaymentMethod env i m" fst for env
  by unfold_locales (auto intro: select_row)

interpretation admin_edit: row_operation "\<lambda>(i, eventId, input, who). adminEditRegistration env eventId i input who" fst for env
  by unfold_locales (auto intro: admin_edit_row)

interpretation self_edit: row_operation "\<lambda>(i, input). editRegistrationPublic env fmt i input" fst for env fmt
  by unfold_locales (auto intro: self_edit_row)

lemma translate_create_Inr: "translate_create x = Inr y \<longleftrightarrow> x = Inr y"
  by (cases x) (simp_all add: translate_create_def)

lemma createRegistration_InrE:
  assumes "createRegistration env input pb token s0 s = Inr (row, s')"
  obtains form i where "signup_checks env input (normalizeEmail (cr_email input)) s0 = Inr form"
    "create_txn env input (normalizeEmail (cr_email input)) form (gross_of pb)
      (normalizeSponsorshipCode (cr_sponsorshipCode input)) token s = Inr (i, s')"
    "registration_of (ad_settle (rd_tables s')) i = Some row"
  using assms unfolding createRegistration_def Let_def
  by (auto elim!: sbind_InrE simp: translate_create_Inr getEnrichedRow_def requireRegistration_Inr getRegistrationByIdRow_def
      split: option.splits if_splits)

text \<open>A public create replays a stored registration, or its signup committed.\<close>

lemma createPublic_cases:
  assumes "createPublicRegistration env input token s0 s = Inr ((created, row), s')"
  obtains (replayed) "\<not> created" "s' = s" "replay_of input s0 = Some row \<or> replay_of input (rd_tables s) = Some row"
  | (signed_up) input' pb where "created" "replay_of input s0 = None" "signup_price env input s0 = Inr (input', pb)"
      "createRegistration env input' pb token s0 s = Inr (row, s')"
proof (cases "replay_of input s0")
  case (Some r)
  then show ?thesis using assms replayed by (simp add: createPublicRegistration_def)
next
  case None
  with assms obtain input' pb where p: "signup_price env input s0 = Inr (input', pb)"
    and rest: "(case createRegistration env input' pb token s0 s of
          Inr (row, s') \<Rightarrow> Inr ((True, row), s')
        | Inl (Unique_violation constraint) \<Rightarrow>
            if contains_text ''idempotency'' constraint
            then (case replay_of input' (rd_tables s) of
                    Some existing \<Rightarrow> Inr ((False, existing), s)
                  | None \<Rightarrow> Inl (Unique_violation constraint))
            else Inl (Unique_violation constraint)
        | Inl err \<Rightarrow> Inl err) = Inr ((created, row), s')"
    unfolding createPublicRegistration_def by (auto elim!: sbind_InrE)
  have key: "replay_of input' t = replay_of input t" for t
    using p unfolding signup_price_def by (auto elim!: sbind_InrE simp: replay_of_def split: option.splits)
  show ?thesis
  proof (cases "createRegistration env input' pb token s0 s")
    case (Inl e)
    with rest key replayed show ?thesis by (cases e) (auto split: if_splits option.splits)
  next
    case (Inr x)
    obtain row' t where "x = (row', t)" by (cases x)
    with Inr rest signed_up[OF _ None p] show ?thesis by simp
  qed
qed

lemma signup_checks_form: "signup_checks env input email s0 = Inr form \<Longrightarrow> form_of s0 (cr_formId input) = Some form"
  unfolding signup_checks_def Let_def by (auto elim!: sbind_InrE split: option.splits)

interpretation signup: reg_operation "\<lambda>(input, token, s0). createPublicRegistration env input token s0" for env
proof unfold_locales
  fix x s y s' l
  assume run: "(\<lambda>(input, token, s0). createPublicRegistration env input token s0) x s = Inr (y, s')" and b: "books l (rd_tables s)"
  obtain input token s0 created row where x: "x = (input, token, s0)" "y = (created, row)" by (cases x; cases y) auto
  from run have "createPublicRegistration env input token s0 s = Inr ((created, row), s')" by (simp add: x)
  then show "books l (rd_tables s')"
  proof (cases rule: createPublic_cases)
    case replayed
    with b show ?thesis by simp
  next
    case (signed_up input' pb)
    obtain form i where "signup_checks env input' (normalizeEmail (cr_email input')) s0 = Inr form"
      and t: "create_txn env input' (normalizeEmail (cr_email input')) form (gross_of pb)
        (normalizeSponsorshipCode (cr_sponsorshipCode input')) token s = Inr (i, s')"
      by (rule createRegistration_InrE[OF signed_up(4)])
    from create_txn_books[OF t b] show ?thesis by blast
  qed
qed

lemma createAdmin_InrE:
  assumes "createAdminRegistration env eventId input who s0 s = Inr (row, s')"
  obtains form formData pb i where "fm_eventId form = eventId"
    "admin_create_txn env eventId input (normalizeEmail (ac_email input)) form formData pb who s = Inr (i, s')"
    "registration_of (ad_settle (rd_tables s')) i = Some row"
proof -
  from assms obtain form formData pb i where c: "admin_checks env eventId input (normalizeEmail (ac_email input)) s0 = Inr (form, formData, pb)"
    and t: "admin_create_txn env eventId input (normalizeEmail (ac_email input)) form formData pb who s = Inr (i, s')"
    and row: "registration_of (ad_settle (rd_tables s')) i = Some row"
    unfolding createAdminRegistration_def Let_def
    by (auto elim!: sbind_InrE simp: translate_create_Inr getEnrichedRow_def requireRegistration_Inr getRegistrationByIdRow_def
        split: option.splits if_splits)
  from c have "findRegistrationFormForEvent s0 eventId = Some form"
    unfolding admin_checks_def by (auto elim!: sbind_InrE split: option.splits)
  then have "fm_eventId form = eventId"
    unfolding findRegistrationFormForEvent_def by (drule_tac find_SomeD) simp
  from that[OF this t row] show ?thesis .
qed

interpretation admin_create: reg_operation "\<lambda>(eventId, input, who, s0). createAdminRegistration env eventId input who s0" for env
  by unfold_locales (auto elim!: createAdmin_InrE dest: admin_create_books)

interpretation deletion: reg_operation "\<lambda>(i, who, force). in_tables (deleteRegistration i who force)"
  by unfold_locales (clarsimp simp: in_tables_Inr, erule (1) conjunct1[OF deleteRegistration_books])

section \<open>The settlement and the access items\<close>

lemma preserved_put:
  assumes p: "preserved (settle_view s) d'" and b: "books l s"
  shows "books l (put_settle d' s)"
proof -
  let ?d = "d'\<lparr>db_events := db_events (settle_view s)\<rparr>"
  have len: "length (db_accesses ?d) = length (ad_items s)"
    using p map_eq_imp_length_eq[of ea_id "db_accesses d'" ea_id "db_accesses (settle_view s)"]
    by (simp add: preserved_def settle_view_def)
  have "put_settle d' s = put_settle ?d s" by (simp add: put_settle_def)
  then have v: "settle_view (put_settle d' s) = ?d" using settle_view_put[OF len] by simp
  have "coverages ?d j = coverages d' j" for j by (rule coverages_tables) simp_all
  then have "discrepancy ?d k = discrepancy d' k" for k by (intro discrepancy_same) simp_all
  moreover have "store_ok ?d = store_ok d'"
    by (simp add: store_ok_def db_wf_def accesses_ok_def accesses_wf_def)
  moreover have "usages_known ?d = usages_known d'" by (rule usages_known_tables) simp_all
  moreover have "same_owners (settle_view s) ?d = same_owners (settle_view s) d'"
    by (simp add: same_owners_def registration_of_def)
  ultimately have "preserved (settle_view s) ?d" using p unfolding preserved_def by simp
  with v have "kept_books s (put_settle d' s)" by (simp add: kept_books_def kept_def put_settle_def)
  then show ?thesis using b by (rule kept_books_books)
qed

lemma updateEventAccess_books:
  assumes "updateEventAccess env k p now t0 s = Inr (x, s')" and b: "books l s"
  shows "books l s'"
proof -
  obtain e where t: "update_txn e k p now s = Inr (x, s')" using assms(1) by (auto simp: updateEventAccess_def elim!: sbind_InrE)
  have "store_ok (settle_view s)" using b by (simp add: books_def)
  from update_txn_preserved[OF t this] have "preserved (settle_view s) (settle_view s')" .
  moreover have "ad_events s' = ad_events s" by (rule update_txn_Inr[OF t])
  ultimately show ?thesis using b by (rule preserved_books)
qed

interpretation access_edit: reg_operation "\<lambda>(k, p, now, t0). in_tables (updateEventAccess env k p now t0)" for env
  by unfold_locales (clarsimp simp: in_tables_Inr, erule (1) updateEventAccess_books)

text \<open>The update of an event moves its capacity, never below what it has registered.\<close>

lemma patch_event_sel [simp]:
  "pe_id (patch_event p e) = pe_id e" "ae_clientId (patch_event p e) = ae_clientId e"
  "ae_registeredCount (patch_event p e) = ae_registeredCount e"
  "ae_maxCapacity (patch_event p e) = set_or (eu_maxCapacity p) (ae_maxCapacity e)"
  by (simp_all add: patch_event_def)

lemma updateEvent_Inr:
  assumes "updateEvent env i p s = Inr (u, s')"
  obtains e where "event_of s i = Some e"
    "case eu_maxCapacity p of Some (Some c) \<Rightarrow> ae_registeredCount e \<le> c | _ \<Rightarrow> True"
    "ad_events s' = (if hasEventData p then update_rows (\<lambda>e. pe_id e = i) (patch_event p) (ad_events s) else ad_events s)"
    "ad_settle s' = ad_settle s" "ad_items s' = ad_items s" "ad_forms s' = ad_forms s"
proof -
  obtain e stored s1 where e: "event_of s i = Some e" and c: "update_event_checks env s e stored p = Inr ()"
    and tx: "(if hasEventData p then updateEventTx i p s else Inr s) = Inr s1"
    and s': "s' = (if eu_basePrice p \<noteq> None \<or> eu_currency p \<noteq> None
      then upsertEventPricingTx i
        (map_option (\<lambda>b. if set_or (map_option ep_isFree stored) False then 0 else normalizeBasePrice b) (eu_basePrice p))
        (map_option (\<lambda>c. normalizeCurrency (Some c)) (eu_currency p)) s1
      else s1)"
    by (rule updateEvent_stages[OF assms]) blast
  have "case eu_maxCapacity p of Some (Some c) \<Rightarrow> ae_registeredCount e \<le> c | _ \<Rightarrow> True"
    using c unfolding update_event_checks_def by (elim sbind_InrE) simp
  moreover have "s1 = (if hasEventData p then s\<lparr>ad_events := update_rows (\<lambda>e. pe_id e = i) (patch_event p) (ad_events s)\<rparr> else s)"
    using tx by (auto dest: updateEventTx_Inr split: if_split_asm)
  ultimately show ?thesis
    using s' by (intro that[OF e]) (simp_all add: upsertEventPricingTx_def Let_def)
qed

lemma event_ok_patched:
  assumes "event_ok d e" and "case eu_maxCapacity p of Some (Some c) \<Rightarrow> ae_registeredCount e \<le> c | _ \<Rightarrow> True"
  shows "event_ok d (patch_event p e)"
  using assms by (auto simp: event_ok_def split: option.splits)

lemma updateEvent_books:
  assumes run: "updateEvent env i p s = Inr (u, s')" and b: "books l s"
  shows "books l s'"
proof -
  obtain e where e: "event_of s i = Some e"
    and cap: "case eu_maxCapacity p of Some (Some c) \<Rightarrow> ae_registeredCount e \<le> c | _ \<Rightarrow> True"
    and ev: "ad_events s' = (if hasEventData p then update_rows (\<lambda>e. pe_id e = i) (patch_event p) (ad_events s) else ad_events s)"
    and rest: "ad_settle s' = ad_settle s" "ad_items s' = ad_items s" "ad_forms s' = ad_forms s"
    by (rule updateEvent_Inr[OF run])
  have view: "settle_view s' = settle_view s"
    by (simp add: settle_view_def rest ev update_rows_def comp_def if_distrib[of pe_id] if_distrib[of ae_clientId] cong: if_cong)
  have ids: "map pe_id (ad_events s') = map pe_id (ad_events s)"
    by (simp add: ev update_rows_def comp_def if_distrib[of pe_id] cong: if_cong)
  have eok: "events_ok s" using b by (simp add: books_def)
  then have dist: "distinct (map pe_id (ad_events s))" by (simp add: events_ok_def)
  have "event_ok (settle_view s) x" if x: "x \<in> set (ad_events s')" for x
  proof -
    from x obtain y where y: "y \<in> set (ad_events s)" "x = y \<or> (pe_id y = i \<and> x = patch_event p y)"
      by (auto simp: ev update_rows_def split: if_split_asm)
    have ok: "event_ok (settle_view s) y" using eok y(1) by (simp add: events_ok_def list_all_iff)
    have "y = e" if "pe_id y = i"
      using event_of_key[OF e] that y(1) dist by (auto simp: distinct_map dest: inj_onD)
    with y(2) ok event_ok_patched[OF _ cap] show ?thesis by auto
  qed
  with dist ids b show ?thesis by (simp add: books_def events_ok_def view list_all_iff)
qed

interpretation event_edit: reg_operation "\<lambda>(i, p). in_tables (updateEvent env i p)" for env
  by unfold_locales (clarsimp simp: in_tables_Inr, erule (1) updateEvent_books)

section \<open>Steps\<close>

inductive reg_step :: "create_env \<Rightarrow> reg_db \<Rightarrow> reg_db \<Rightarrow> bool" for env where
  st_signup: "createPublicRegistration env input token s0 s = Inr (out1, s') \<Longrightarrow> reg_step env s s'"
| st_admin_create: "createAdminRegistration env eventId ainput who s0 s = Inr (out2, s') \<Longrightarrow> reg_step env s s'"
| st_delete: "in_tables (deleteRegistration i who force) s = Inr (u1, s') \<Longrightarrow> reg_step env s s'"
| st_update: "in_tables (updateRegistration (ce_pricing env) i uinput who) s = Inr (u2, s') \<Longrightarrow> reg_step env s s'"
| st_confirm: "in_tables (confirmPayment (ce_pricing env) i yinput who ip) s = Inr (u3, s') \<Longrightarrow> reg_step env s s'"
| st_select: "in_tables (selectPaymentMethod (ce_pricing env) i m) s = Inr (u4, s') \<Longrightarrow> reg_step env s s'"
| st_admin_edit: "in_tables (adminEditRegistration (ce_pricing env) eventId i einput who) s = Inr (u5, s') \<Longrightarrow> reg_step env s s'"
| st_self_edit: "in_tables (editRegistrationPublic (ce_pricing env) (ce_days env) i pinput) s = Inr (out3, s') \<Longrightarrow> reg_step env s s'"
| st_settlement: "op_step (px_icu (ce_pricing env)) (settle_view (rd_tables s)) d \<Longrightarrow>
    reg_step env s (s\<lparr>rd_tables := put_settle d (rd_tables s)\<rparr>)"
| st_access_edit: "in_tables (updateEventAccess (ce_pricing env) k p now t0) s = Inr (out4, s') \<Longrightarrow> reg_step env s s'"
| st_event_edit: "in_tables (updateEvent (ce_pricing env) i patch) s = Inr (u6, s') \<Longrightarrow> reg_step env s s'"

inductive_cases reg_stepE: "reg_step env s s'"

lemma reg_step_books: "reg_step env s s' \<Longrightarrow> books l (rd_tables s) \<Longrightarrow> books l (rd_tables s')"
proof (induction rule: reg_step.induct)
  case (st_signup input token s0 s out1 s')
  then show ?case using signup.keeps[of env "(input, token, s0)" s out1 s'] by simp
next
  case (st_admin_create eventId ainput who s0 s out2 s')
  then show ?case using admin_create.keeps[of env "(eventId, ainput, who, s0)" s out2 s'] by simp
next
  case (st_delete i who force s u1 s')
  then show ?case using deletion.keeps[of "(i, who, force)" s u1 s'] by simp
next
  case (st_update i uinput who s u2 s')
  then show ?case using update.keeps[of "ce_pricing env" "(i, uinput, who)" s u2 s'] by simp
next
  case (st_confirm i yinput who ip s u3 s')
  then show ?case using confirm.keeps[of "ce_pricing env" "(i, yinput, who, ip)" s u3 s'] by simp
next
  case (st_select i m s u4 s')
  then show ?case using select.keeps[of "ce_pricing env" "(i, m)" s u4 s'] by simp
next
  case (st_admin_edit eventId i einput who s u5 s')
  then show ?case using admin_edit.keeps[of "ce_pricing env" "(i, eventId, einput, who)" s u5 s'] by simp
next
  case (st_self_edit i pinput s out3 s')
  then show ?case using self_edit.keeps[of "ce_pricing env" "ce_days env" "(i, pinput)" s out3 s'] by simp
next
  case (st_settlement s d)
  then have "preserved (settle_view (rd_tables s)) d" by (intro op_step_preserved) (auto simp: books_def)
  then show ?case using preserved_put st_settlement.prems by simp
next
  case (st_access_edit k p now t0 s out4 s')
  then show ?case using access_edit.keeps[of "ce_pricing env" "(k, p, now, t0)" s out4 s'] by simp
next
  case (st_event_edit i patch s u6 s')
  then show ?case using event_edit.keeps[of "ce_pricing env" "(i, patch)" s u6 s'] by simp
qed

section \<open>Runs\<close>

text \<open>
  A run of the services and what its payment proofs left uncounted: a proof accepted for a PENDING registration puts
  it under review with the places its sponsorships cover, and takes none of them
  (\<open>PaymentProps.proof_shortfall\<close>). Every other operation counts what it moves.
\<close>

inductive reg_run :: "create_env \<Rightarrow> reg_db \<Rightarrow> (string \<Rightarrow> int) \<Rightarrow> reg_db \<Rightarrow> bool" for env s0 where
  run_start: "reg_run env s0 (\<lambda>_. 0) s0"
| run_step: "reg_run env s0 short s \<Longrightarrow> reg_step env s s' \<Longrightarrow> reg_run env s0 short s'"
| run_proof: "reg_run env s0 short s \<Longrightarrow>
    uploadPaymentProof (ce_pricing env) owned i f t0 (rd_tables s) = (Inr url, t, keys) \<Longrightarrow>
    reg_run env s0 (\<lambda>k. short k + proof_shortfall (rd_tables s) i k) (s\<lparr>rd_tables := t\<rparr>)"

lemma proof_books:
  assumes run: "uploadPaymentProof env owned i f t0 s = (Inr url, t, keys)" and b: "books l s"
  shows "books (\<lambda>k. l k - proof_shortfall s i k) t"
proof -
  have ok: "store_ok (settle_view s)" using b by (simp add: books_def)
  obtain r r' where u: "under_review i s t r r'"
    and disc: "\<And>k. discrepancy (settle_view t) k = discrepancy (settle_view s) k - proof_shortfall s i k"
    using upload_reviewed[OF ok run] by blast
  have ids: "map ea_id (db_accesses (settle_view t)) = map ea_id (db_accesses (settle_view s))"
    and okt: "store_ok (settle_view t)" and kn: "usages_known (settle_view t) = usages_known (settle_view s)"
    and ev: "ad_events t = ad_events s" and regs: "map rg_id (db_registrations (settle_view t)) = map rg_id (db_registrations (settle_view s))"
    and own: "same_owners (settle_view s) (settle_view t)"
    using u by (simp_all add: under_review_def)
  have "ea_id ` set (db_accesses (settle_view t)) = ea_id ` set (db_accesses (settle_view s))" by (metis ids set_map)
  then have owed: "owed (\<lambda>k. l k - proof_shortfall s i k) (settle_view t)"
    using b by (simp add: books_def owed_def disc)
  have "registered_at (settle_view t) e = registered_at (settle_view s) e" for e
    unfolding registered_at_events
    using owners_events[of "settle_view s" "settle_view t"] ok regs own by (simp add: store_ok_def db_wf_def)
  then have "event_ok (settle_view t) = event_ok (settle_view s)" by (intro ext) (simp add: event_ok_def)
  then show ?thesis using b okt kn ev owed by (simp add: books_def events_ok_def)
qed

lemma run_keeps_books:
  "reg_run env s0 short s \<Longrightarrow> books (\<lambda>_. 0) (rd_tables s0) \<Longrightarrow> books (\<lambda>k. - short k) (rd_tables s)"
proof (induction rule: reg_run.induct)
  case run_start
  then show ?case by simp
next
  case (run_step short s s')
  then show ?case using reg_step_books by blast
next
  case (run_proof short s owned i f t0 url t keys)
  have "books (\<lambda>k. - short k) (rd_tables s)" using run_proof by blast
  from proof_books[OF run_proof.hyps(2) this] show ?case by simp
qed

text \<open>Without payment proofs nothing is left uncounted.\<close>

lemma steps_run: "(reg_step env)\<^sup>*\<^sup>* s0 s \<Longrightarrow> reg_run env s0 (\<lambda>_. 0) s"
  by (induction rule: rtranclp_induct) (auto intro: reg_run.intros)

end
