(* ===== verification/RegistrationProps.thy ===== *)
theory RegistrationProps
  imports RegistrationSystem
begin

text \<open>
  The properties of the registration services: the books in every reachable state, and a signup that commits once.
\<close>

section \<open>What identifies a registration\<close>

definition identity ::
  "registration_row \<Rightarrow> string \<times> string \<times> string \<times> string \<times> string option \<times> string option" where
  "identity r = (rg_id r, rg_eventId r, rg_formId r, rg_email r, rg_sponsorshipCode r, rg_idempotencyKey r)"

definition identities :: "db \<Rightarrow> (string \<times> string \<times> string \<times> string \<times> string option \<times> string option) list" where
  "identities d = map identity (db_registrations d)"

lemma identities_fields: "db_registrations d' = db_registrations d \<Longrightarrow> identities d' = identities d"
  by (simp add: identities_def)

lemma identities_view [simp]: "identities (settle_view s) = identities (ad_settle s)"
  by (rule identities_fields) simp

lemma set_columns_identity:
  assumes "fp_email (cs_fields c) = None" "fp_sponsorshipCode (cs_fields c) = None"
  shows "identity (set_columns c now r) = identity r"
  using assms by (simp add: set_columns_def identity_def Let_def or_stored_def)

lemma settle_identities:
  assumes wf: "db_wf s" and run: "settleRegistrationTxn icu i o' s = Inr (Some res, s')"
    and upd: "so_expectedUpdatedAt o' = None" and no: "so_fields o' = no_fields"
  shows "identities s' = identities s"
proof -
  have ids: "distinct (map us_id (db_usages s))" "distinct (map rg_id (db_registrations s))"
    using wf by (simp_all add: db_wf_def)
  obtain row sp cov s1 s2 w where row: "registration_of s i = Some row"
    and rec: "recomputeRegistrationSponsorship i (or_stored (so_priceBreakdown o') (rg_priceBreakdown row))
      (or_stored (so_keepUnlinkedSponsorship o') True) s = Inr ((sp, cov), s1)"
    and delta: "applyPaidAccessDelta (paid_before o' (sr_before res) cov) (paid_after (sr_after res) cov) s1
      = Inr (sr_paidAccess res, s2)"
    and wr: "empty_write w \<and> no_field_keys (so_fields o') \<and> s' = s2 \<or>
      (\<exists>b. applyRegistrationSettlement i w (so_fields o') None s2 = Inr (b, s'))"
    by (rule settle_InrE[OF run settle_written[OF run upd]]) blast
  have regs: "db_registrations s2 = db_registrations s"
    using recompute_Inr[OF ids(1) rec] applyPaidAccessDelta_frame[OF delta] by auto
  from wr show ?thesis
  proof
    assume "empty_write w \<and> no_field_keys (so_fields o') \<and> s' = s2"
    with regs show ?thesis by (simp add: identities_def)
  next
    assume "\<exists>b. applyRegistrationSettlement i w (so_fields o') None s2 = Inr (b, s')"
    then obtain b where ap: "applyRegistrationSettlement i w (so_fields o') None s2 = Inr (b, s')" ..
    have "registration_of s2 i = Some row" using row regs by (simp add: registration_of_def)
    then have b: "b" using ap applyRegistrationSettlement_missing[of i w "so_fields o'" s2 s'] by (cases b) auto
    have ids2: "distinct (map rg_id (db_registrations s2))" using ids regs by simp
    from ids2 ap[unfolded iffD2[OF eq_True b]] obtain c where c: "build_set w (so_fields o') = Inr c"
      and u: "db_registrations s' = update_rows (row_hit i None) (set_columns c (db_clock s2)) (db_registrations s2)"
      by (rule applyRegistrationSettlement_row) blast
    have "identity (set_columns c now r) = identity r" for now r
      by (rule set_columns_identity) (use build_set_Inr[OF c] in \<open>simp_all add: no no_fields_def\<close>)
    then show ?thesis unfolding identities_def u by (subst keys_update_rows) (simp_all add: regs)
  qed
qed


lemma in_settle_identities:
  assumes "in_settle f s = Inr (x, s')"
    and "\<And>d. f (settle_view s) = Inr (x, d) \<Longrightarrow> identities d = identities (settle_view s)"
  shows "identities (ad_settle s') = identities (ad_settle s)"
proof -
  from assms(1) obtain d where d: "f (settle_view s) = Inr (x, d)" and s': "s' = put_settle d s"
    by (auto simp: in_settle_def elim!: sbind_InrE)
  then show ?thesis using assms(2)[OF d] by (simp add: identities_def put_settle_def)
qed

lemma settle_new_identities:
  assumes "settle_new icu e i opts d = Inr (res, d')" and "db_wf d"
    and "so_expectedUpdatedAt opts = None" "so_fields opts = no_fields"
  shows "identities d' = identities d"
proof -
  obtain d1 where st: "settleRegistrationTxn icu i opts d = Inr (Some res, d1)" and same: "same_store d1 d'"
    by (rule settle_new_Inr[OF assms(1)])
  show ?thesis
    using settle_identities[OF assms(2) st assms(3,4)] same_store_fields[OF same] by (simp add: identities_def)
qed

lemma settlement_identities:
  assumes run: "signup_settlement env e i sp gross s = Inr (out, s')" and ok: "store_ok (settle_view s)"
  shows "identities (ad_settle s') = identities (ad_settle s)"
proof (cases sp)
  case (Some p)
  with run obtain x where "in_settle (consumeSponsorshipAtSignup (px_icu env) p i e gross) s = Inr (x, s')"
    unfolding signup_settlement_def by (auto elim!: sbind_InrE)
  then show ?thesis
  proof (rule in_settle_identities)
    fix d assume "consumeSponsorshipAtSignup (px_icu env) p i e gross (settle_view s) = Inr (x, d)"
    then obtain usage res d1 where lk: "linkSponsorshipUsageTxn p i gross ''PUBLIC'' (settle_view s) = Inr (usage, d1)"
      and st: "settle_new (px_icu env) e i (signup_options gross p usage) d1 = Inr (res, d)"
      unfolding consumeSponsorshipAtSignup_def by (auto elim!: sbind_InrE)
    have "db_registrations d1 = db_registrations (settle_view s)" "db_wf d1"
      using link_usage_store[OF ok lk] by (simp_all add: store_ok_def)
    then show "identities d = identities (settle_view s)"
      using settle_new_identities[OF st] by (simp add: identities_def signup_options_def no_options_def)
  qed
next
  case None
  with run consider "s' = s" | acc where "autoAcceptFreeSignup env e i s = Inr (acc, s')"
    unfolding signup_settlement_def by (auto elim!: sbind_InrE split: if_splits)
  then show ?thesis
  proof cases
    case 2
    then consider "s' = s" | now res where
      "in_settle (settle_new (px_icu env) e i (waive_options now)) s = Inr (res, s')"
      unfolding autoAcceptFreeSignup_def by (auto elim!: sbind_InrE split: option.splits if_splits)
    then show ?thesis
    proof cases
      case 2
      have "db_wf (settle_view s)" using ok by (simp add: store_ok_def)
      from 2 show ?thesis
        by (rule in_settle_identities) (erule settle_new_identities[OF _ \<open>db_wf (settle_view s)\<close>],
            simp_all add: waive_options_def no_options_def)
    qed simp
  qed simp
qed


lemma same_store_identities: "same_store d d' \<Longrightarrow> identities d' = identities d"
  by (rule identities_fields) (simp add: same_store_fields)

lemma statements_identities:
  assumes run: "signup_statements env input email gross code sp e i t = Inr (u, s')"
    and ok: "store_ok (settle_view t)" and dist: "distinct (map pe_id (ad_events t))"
  shows "identities (ad_settle s') = identities (ad_settle t) \<and> map pe_id (ad_events s') = map pe_id (ad_events t)"
proof -
  from run obtain s1 s2 s3 x y out where res: "in_settle (reserveAccessSelections (sels_of input)) t = Inr (x, s1)"
    and inc: "incrementEventRegistered (pe_id e) s1 = Inr (y, s2)"
    and st: "signup_settlement (ce_pricing env) (pe_id e) i sp gross s2 = Inr (out, s3)"
    and eff: "in_settle (\<lambda>d. Inr ((), signup_effects input email gross code e i out d)) s3 = Inr (u, s')"
    unfolding signup_statements_def by (auto elim!: sbind_InrE)
  have k1: "kept_books t s1" using in_settle_kept[OF res] reserve_kept[OF ok] by blast
  have i1: "identities (ad_settle s1) = identities (ad_settle t)"
    by (rule in_settle_identities[OF res], rule identities_fields)
      (use reserve_kept[OF ok] only_accesses_fields(1) in blast)
  have e1: "ad_events s1 = ad_events t" using k1 by (simp add: kept_books_def)
  have s2: "settle_view s2 = settle_view s1" "ad_events s2 = counted_up (pe_id e) 1 (ad_events s1)"
    by (rule incrementEventRegistered_Inr[OF inc]; simp add: e1 dist)+
  have i2: "identities (ad_settle s2) = identities (ad_settle s1)"
    using s2(1) identities_view[of s2] identities_view[of s1] by simp
  have ok2: "store_ok (settle_view s2)" using kept_books_ok[OF k1] s2 by simp
  have i3: "identities (ad_settle s3) = identities (ad_settle s2)" by (rule settlement_identities[OF st ok2])
  have i4: "identities (ad_settle s') = identities (ad_settle s3)"
    by (rule in_settle_identities[OF eff]) (auto simp: same_store_identities[OF same_store_signup])
  have "ad_events s3 = ad_events s2" "ad_events s' = ad_events s3"
    using st eff by (auto simp: signup_settlement_def autoAcceptFreeSignup_def in_settle_def put_settle_def
        elim!: sbind_InrE split: option.splits if_splits)
  then show ?thesis using i1 i2 i3 i4 s2 e1 by (simp add: counted_up_def keys_update_rows)
qed

lemma signup_row_identity:
  "identity ((signup_row input email form gross discount code refno token now)\<lparr>rg_id := i\<rparr>) =
    (i, fm_eventId form, fm_id form, email, code, cr_idempotencyKey input)"
  by (simp add: identity_def signup_row_def priced_row_def)

text \<open>A committed signup adds its own row; it clashes with none.\<close>

lemma create_txn_identities:
  assumes run: "create_txn env input email form gross code token s = Inr (i, s')" and b: "books l (rd_tables s)"
  shows "identities (ad_settle (rd_tables s')) = identities (ad_settle (rd_tables s))
      @ [(i, fm_eventId form, fm_id form, email, code, cr_idempotencyKey input)] \<and>
    map pe_id (ad_events (rd_tables s')) = map pe_id (ad_events (rd_tables s)) \<and>
    form_of (rd_tables s) (fm_id form) \<noteq> None \<and> event_of (rd_tables s) (fm_eventId form) \<noteq> None \<and>
    (\<forall>r \<in> set (db_registrations (ad_settle (rd_tables s))). rg_id r \<noteq> i \<and>
      \<not> same_key (cr_idempotencyKey input) (rg_idempotencyKey r) \<and> \<not> (email = rg_email r \<and> fm_id form = rg_formId r) \<and>
      \<not> (fm_eventId form = rg_eventId r \<and> same_key code (rg_sponsorshipCode r)))"
proof -
  obtain sp e refno discount t where
    "case code of None \<Rightarrow> sp = None | Some c \<Rightarrow> \<exists>x. sp = Some x \<and> claimSponsorshipCode (fm_eventId form) c (ad_settle (rd_tables s)) = Inr x"
    and "signup_gate (fm_eventId form) (cr_paymentMethod input) (rd_tables s) = Inr e"
    and ins: "insertRegistrationRow (ce_reported env)
      (signup_row input email form gross discount code refno token (db_clock (ad_settle (rd_tables s)))) (rd_tables s) = Inr (i, t)"
    and st: "signup_statements env input email gross code sp e i t = Inr ((), rd_tables s')"
    by (rule create_txn_InrE[OF run])
  let ?row = "signup_row input email form gross discount code refno token (db_clock (ad_settle (rd_tables s)))"
  have ok: "store_ok (settle_view (rd_tables s))" using b by (simp add: books_def)
  note I = insertRegistrationRow_Inr[OF ins ok]
  then have row: "insert_row (ce_reported env) ?row (settle_view (rd_tables s)) = Inr (i, settle_view t)" by blast
  obtain ids where v: "violated_indexes (?row\<lparr>rg_id := i\<rparr>) (db_registrations (settle_view (rd_tables s))) = []"
    and t: "settle_view t = (settle_view (rd_tables s))\<lparr>db_ids := ids,
      db_registrations := db_registrations (settle_view (rd_tables s)) @ [?row\<lparr>rg_id := i\<rparr>]\<rparr>"
    by (rule insert_row_Inr[OF row]) blast
  have it: "identities (ad_settle t) = identities (ad_settle (rd_tables s))
      @ [(i, fm_eventId form, fm_id form, email, code, cr_idempotencyKey input)]"
    using arg_cong[OF t, of identities] by (simp add: identities_def signup_row_identity)
  have okt: "store_ok (settle_view t)" using insert_row_store[OF ok row] by blast
  have dist: "distinct (map pe_id (ad_events t))" using b I by (simp add: books_def events_ok_def)
  have key: "identity (?row\<lparr>rg_id := i\<rparr>) = (i, fm_eventId form, fm_id form, email, code, cr_idempotencyKey input)"
    by (rule signup_row_identity)
  have "\<forall>r \<in> set (db_registrations (ad_settle (rd_tables s))). rg_id r \<noteq> i \<and>
      \<not> same_key (cr_idempotencyKey input) (rg_idempotencyKey r) \<and> \<not> (email = rg_email r \<and> fm_id form = rg_formId r) \<and>
      \<not> (fm_eventId form = rg_eventId r \<and> same_key code (rg_sponsorshipCode r))"
  proof
    fix r assume "r \<in> set (db_registrations (ad_settle (rd_tables s)))"
    with violated_Nil[OF v, of r] key show "rg_id r \<noteq> i \<and>
      \<not> same_key (cr_idempotencyKey input) (rg_idempotencyKey r) \<and> \<not> (email = rg_email r \<and> fm_id form = rg_formId r) \<and>
      \<not> (fm_eventId form = rg_eventId r \<and> same_key code (rg_sponsorshipCode r))"
      by (simp add: identity_def)
  qed
  with statements_identities[OF st okt dist] it I show ?thesis by simp
qed


section \<open>A signup commits once\<close>

text \<open>Two signups for the same registration: the same key, the same address and form, or the same code and event.\<close>

definition same_signup :: "access_db \<Rightarrow> create_input \<Rightarrow> create_input \<Rightarrow> bool" where
  "same_signup s a b \<longleftrightarrow> same_key (cr_idempotencyKey a) (cr_idempotencyKey b)
    \<or> normalizeEmail (cr_email a) = normalizeEmail (cr_email b) \<and> cr_formId a = cr_formId b
    \<or> map_option fm_eventId (form_of s (cr_formId a)) = map_option fm_eventId (form_of s (cr_formId b))
      \<and> same_key (normalizeSponsorshipCode (cr_sponsorshipCode a)) (normalizeSponsorshipCode (cr_sponsorshipCode b))"

text \<open>The signup that created a row, as one transaction.\<close>

lemma created_InrE:
  assumes "createPublicRegistration env input token s0 s = Inr ((True, row), s')"
  obtains input' form gross i where "form_of s0 (cr_formId input) = Some form"
    "create_txn env input' (normalizeEmail (cr_email input)) form gross
      (normalizeSponsorshipCode (cr_sponsorshipCode input)) token s = Inr (i, s')"
    "cr_idempotencyKey input' = cr_idempotencyKey input" "registration_of (ad_settle (rd_tables s')) i = Some row"
    "sels_of input' = sels_of input" "cr_paymentMethod input' = cr_paymentMethod input" "replay_of input s0 = None"
proof -
  from assms obtain input' pb where none: "replay_of input s0 = None" and p: "signup_price env input s0 = Inr (input', pb)"
    and c: "createRegistration env input' pb token s0 s = Inr (row, s')"
    by (rule createPublic_cases) auto
  from p obtain answers where i': "input' = input\<lparr>cr_formData := answers\<rparr>"
    unfolding signup_price_def by (auto elim!: sbind_InrE split: option.splits)
  obtain form i where chk: "signup_checks env input' (normalizeEmail (cr_email input')) s0 = Inr form"
    and t: "create_txn env input' (normalizeEmail (cr_email input')) form (gross_of pb)
      (normalizeSponsorshipCode (cr_sponsorshipCode input')) token s = Inr (i, s')"
    and r: "registration_of (ad_settle (rd_tables s')) i = Some row"
    by (rule createRegistration_InrE[OF c])
  from signup_checks_form[OF chk] show ?thesis
    by (intro that[of form input' "gross_of pb" i]) (use t r none in \<open>simp_all add: i' sels_of_def\<close>)
qed

lemma created_rows:
  assumes run: "createPublicRegistration env input token s0 s = Inr ((True, row), s')" and b: "books l (rd_tables s)"
    and forms: "ad_forms s0 = ad_forms (rd_tables s)"
  obtains form rows where "form_of (rd_tables s) (cr_formId input) = Some form"
    "db_registrations (ad_settle (rd_tables s')) = rows @ [row]"
    "identities (ad_settle (rd_tables s)) = map identity rows"
    "identity row = (rg_id row, fm_eventId form, fm_id form, normalizeEmail (cr_email input),
      normalizeSponsorshipCode (cr_sponsorshipCode input), cr_idempotencyKey input)"
    "\<forall>r \<in> set rows. \<not> same_key (cr_idempotencyKey input) (rg_idempotencyKey r)"
    "ad_forms (rd_tables s') = ad_forms (rd_tables s)" "books l (rd_tables s')"
    "map pe_id (ad_events (rd_tables s')) = map pe_id (ad_events (rd_tables s))"
    "event_of (rd_tables s) (fm_eventId form) \<noteq> None"
proof -
  obtain input' form gross i where form: "form_of s0 (cr_formId input) = Some form"
    and t: "create_txn env input' (normalizeEmail (cr_email input)) form gross
      (normalizeSponsorshipCode (cr_sponsorshipCode input)) token s = Inr (i, s')"
    and key: "cr_idempotencyKey input' = cr_idempotencyKey input"
    and row: "registration_of (ad_settle (rd_tables s')) i = Some row"
    by (rule created_InrE[OF run])
  note C = create_txn_identities[OF t b] and B = create_txn_books[OF t b]
  obtain rows r where regs: "db_registrations (ad_settle (rd_tables s')) = rows @ [r]"
    and rows: "map identity rows = identities (ad_settle (rd_tables s))"
    and r: "identity r = (i, fm_eventId form, fm_id form, normalizeEmail (cr_email input),
      normalizeSponsorshipCode (cr_sponsorshipCode input), cr_idempotencyKey input)"
    using C key by (auto simp: identities_def map_eq_append_conv)
  have old: "\<forall>x \<in> set rows. rg_id x \<noteq> i \<and> \<not> same_key (cr_idempotencyKey input) (rg_idempotencyKey x)"
  proof
    fix x assume "x \<in> set rows"
    then have "identity x \<in> set (identities (ad_settle (rd_tables s)))" using rows by (metis image_eqI set_map)
    then obtain y where y: "y \<in> set (db_registrations (ad_settle (rd_tables s)))" "identity y = identity x"
      unfolding identities_def by force
    from C y(1) have "rg_id y \<noteq> i \<and> \<not> same_key (cr_idempotencyKey input') (rg_idempotencyKey y)" by blast
    with y(2) key show "rg_id x \<noteq> i \<and> \<not> same_key (cr_idempotencyKey input) (rg_idempotencyKey x)"
      by (simp add: identity_def)
  qed
  have "row_of rg_id i (rows @ [r]) = Some r"
    using old r by (induction rows) (auto simp: row_of_def identity_def)
  with row have "r = row" by (simp add: registration_of_def regs)
  with that[of form rows] form forms regs rows r old B C show ?thesis
    by (simp add: form_of_def identity_def)
qed


lemma form_key: "form_of s i = Some f \<Longrightarrow> fm_id f = i"
  by (auto simp: form_of_def row_of_def dest: find_SomeD)

text \<open>No second signup for the same registration commits, whatever state its first reads saw.\<close>

lemma not_created_twice:
  assumes run: "createPublicRegistration env input token s0 s = Inr ((True, row), s')" and b: "books l (rd_tables s)"
    and forms: "ad_forms s0 = ad_forms (rd_tables s)" "ad_forms s1 = ad_forms (rd_tables s)"
    and same: "same_signup (rd_tables s) input input2"
  shows "createPublicRegistration env input2 token2 s1 s' \<noteq> Inr ((True, row2), s'')"
proof
  assume run2: "createPublicRegistration env input2 token2 s1 s' = Inr ((True, row2), s'')"
  obtain form rows where form: "form_of (rd_tables s) (cr_formId input) = Some form"
    and regs: "db_registrations (ad_settle (rd_tables s')) = rows @ [row]"
    and id1: "identity row = (rg_id row, fm_eventId form, fm_id form, normalizeEmail (cr_email input),
      normalizeSponsorshipCode (cr_sponsorshipCode input), cr_idempotencyKey input)"
    and b': "books l (rd_tables s')"
    by (rule created_rows[OF run b forms(1)]) blast
  obtain input' form2 gross i where form2: "form_of s1 (cr_formId input2) = Some form2"
    and t: "create_txn env input' (normalizeEmail (cr_email input2)) form2 gross
      (normalizeSponsorshipCode (cr_sponsorshipCode input2)) token2 s' = Inr (i, s'')"
    and key: "cr_idempotencyKey input' = cr_idempotencyKey input2"
    by (rule created_InrE[OF run2]) blast
  have "form_of (rd_tables s) (cr_formId input2) = Some form2" using form2 forms by (simp add: form_of_def)
  then have s: "same_key (cr_idempotencyKey input) (cr_idempotencyKey input2)
    \<or> normalizeEmail (cr_email input) = normalizeEmail (cr_email input2) \<and> fm_id form = fm_id form2
    \<or> fm_eventId form = fm_eventId form2
      \<and> same_key (normalizeSponsorshipCode (cr_sponsorshipCode input)) (normalizeSponsorshipCode (cr_sponsorshipCode input2))"
    using same form form_key[OF form] form_key[OF form2] by (auto simp: same_signup_def)
  have "row \<in> set (db_registrations (ad_settle (rd_tables s')))" by (simp add: regs)
  with create_txn_identities[OF t b'] have "\<not> same_key (cr_idempotencyKey input') (rg_idempotencyKey row)
      \<and> \<not> (normalizeEmail (cr_email input2) = rg_email row \<and> fm_id form2 = rg_formId row)
      \<and> \<not> (fm_eventId form2 = rg_eventId row
        \<and> same_key (normalizeSponsorshipCode (cr_sponsorshipCode input2)) (rg_sponsorshipCode row))" by blast
  with s id1 key show False by (auto simp: identity_def same_key_def)
qed

text \<open>The stored row answers a later request with its key.\<close>

lemma event_known: "event_of s i \<noteq> None \<longleftrightarrow> i \<in> set (map pe_id (ad_events s))"
  using row_of_None[of pe_id i "ad_events s"] by (simp add: event_of_def)

lemma find_last: "\<forall>x \<in> set xs. \<not> P x \<Longrightarrow> P y \<Longrightarrow> find P (xs @ [y]) = Some y"
  by (induction xs) auto

lemma created_replays:
  assumes run: "createPublicRegistration env input token s0 s = Inr ((True, row), s')" and b: "books l (rd_tables s)"
    and forms: "ad_forms s0 = ad_forms (rd_tables s)" and key: "cr_idempotencyKey input2 = cr_idempotencyKey input"
    and given: "cr_idempotencyKey input = Some k" "k \<noteq> []"
  shows "createPublicRegistration env input2 token2 (rd_tables s') t = Inr ((False, row), t)"
proof -
  obtain form rows where form: "form_of (rd_tables s) (cr_formId input) = Some form"
    and regs: "db_registrations (ad_settle (rd_tables s')) = rows @ [row]"
    and id1: "identity row = (rg_id row, fm_eventId form, fm_id form, normalizeEmail (cr_email input),
      normalizeSponsorshipCode (cr_sponsorshipCode input), cr_idempotencyKey input)"
    and old: "\<forall>r \<in> set rows. \<not> same_key (cr_idempotencyKey input) (rg_idempotencyKey r)"
    and f: "ad_forms (rd_tables s') = ad_forms (rd_tables s)"
    and ev: "map pe_id (ad_events (rd_tables s')) = map pe_id (ad_events (rd_tables s))" "event_of (rd_tables s) (fm_eventId form) \<noteq> None"
    by (rule created_rows[OF run b forms]) blast
  have old': "\<forall>r \<in> set rows. rg_idempotencyKey r \<noteq> Some k" using old given by (auto simp: same_key_def)
  have "rg_idempotencyKey row = Some k" using id1 given by (simp add: identity_def)
  then have "find (\<lambda>r. rg_idempotencyKey r = Some k) (rows @ [row]) = Some row" using old' by (intro find_last)
  moreover have "form_of (rd_tables s') (rg_formId row) \<noteq> None"
    using id1 form form_key[OF form] f by (simp add: identity_def form_of_def)
  moreover have "event_of (rd_tables s') (rg_eventId row) \<noteq> None"
    using id1 ev unfolding event_known by (simp add: identity_def)
  ultimately show ?thesis
    using key given by (simp add: createPublicRegistration_def replay_of_def getRegistrationByIdempotencyKey_def regs)
qed


section \<open>What the books say\<close>

lemma books_items:
  assumes "books l s" and "r \<in> set (db_accesses (settle_view s))"
  shows "ea_paidCount r = places_held (settle_view s) (ea_id r) + l (ea_id r) \<and>
    (\<forall>c. ea_maxCapacity r = Some c \<longrightarrow> ea_paidCount r \<le> c)"
proof -
  have ok: "accesses_ok (settle_view s)" and c: "owed l (settle_view s)"
    using assms(1) by (simp_all add: books_def store_ok_def)
  have "access_of (settle_view s) (ea_id r) = Some r"
    unfolding access_of_def by (rule row_of_distinct) (use ok assms(2) in \<open>simp_all add: accesses_ok_def\<close>)
  moreover have "discrepancy (settle_view s) (ea_id r) = l (ea_id r)" using c assms(2) by (simp add: owed_def)
  ultimately have "ea_paidCount r = places_held (settle_view s) (ea_id r) + l (ea_id r)"
    by (simp add: discrepancy_def paid_count_def)
  moreover have "access_row_ok r" using ok assms(2) by (simp add: accesses_ok_def)
  ultimately show ?thesis by (auto simp: access_row_ok_def)
qed

lemma books_events:
  assumes "books l s" and "e \<in> set (ad_events s)"
  shows "ae_registeredCount e = int (registered_at (settle_view s) (pe_id e)) \<and>
    (\<forall>c. ae_maxCapacity e = Some c \<longrightarrow> ae_registeredCount e \<le> c)"
  using assms by (auto simp: books_def events_ok_def list_all_iff event_ok_def split: option.splits)

section \<open>A concrete signup\<close>

definition demo_create_env :: create_env where
  "demo_create_env = \<lparr>ce_pricing = demo_access_env, ce_days = demo_days, ce_linkAllowed = (\<lambda>_. True), ce_reported = hd\<rparr>"

definition demo_signup :: create_input where
  "demo_signup = \<lparr>cr_formId = ''form'', cr_formData = [], cr_email = '' Ann@x.org'', cr_firstName = Some ''Ann'', cr_lastName = None,
     cr_phone = None, cr_accessSelections = Some [(''ws'', 1)], cr_paymentMethod = None, cr_labName = None,
     cr_networkingOptIn = None, cr_sponsorshipCode = None, cr_idempotencyKey = Some ''k'', cr_linkBaseUrl = None\<rparr>"

text \<open>The event holds one registration; a second sponsorship is pending. The clock stands at 1000.\<close>

definition demo_signup_db :: "date \<Rightarrow> access_db" where
  "demo_signup_db endDate = (let s = demo_registration_db PENDING 0; d = ad_settle s in
     s\<lparr>ad_events := map (\<lambda>e. e\<lparr>pe_endDate := endDate\<rparr>) (ad_events s),
       ad_settle := d\<lparr>db_sponsorships := db_sponsorships d @ [(ex_sponsorship ''s2'' Sp_pending)\<lparr>sp_code := ''SP-2''\<rparr>]\<rparr>\<rparr>)"

definition demo_reg :: "date \<Rightarrow> reg_db" where
  "demo_reg endDate = \<lparr>rd_tables = demo_signup_db endDate, rd_refCounters = [(''70-CONGRESS-'', 3)], rd_intMax = 9\<rparr>"

text \<open>
  The signup, the signup again by a request that had read the tables before it, and a deletion: what they answer.
\<close>

definition demo_runs :: "(bool \<times> registration_row) \<times> reg_db \<Rightarrow> bool" where
  "demo_runs res = (case res of ((created, row), s1) \<Rightarrow> created
     \<and> (rg_email row, rg_paymentStatus row, rg_referenceNumber row, rg_totalAmount row)
        = (''ann@x.org'', PENDING, Some ''70-CONGRESS-004'', 0)
     \<and> map ae_registeredCount (ad_events (rd_tables s1)) = [2]
     \<and> (case createPublicRegistration demo_create_env demo_signup ''tok2'' (rd_tables (demo_reg 5000)) s1 of
          Inl e \<Rightarrow> False | Inr ((created2, _), _) \<Rightarrow> \<not> created2)
     \<and> (case in_tables (deleteRegistration ''r1'' (Some ''admin'') False) s1 of
          Inl e \<Rightarrow> False
        | Inr (_, s2) \<Rightarrow> map (\<lambda>e. (pe_id e, ae_registeredCount e)) (ad_events (rd_tables s2)) = [(''ev'', 1)]
            \<and> map ea_id (db_accesses (settle_view (rd_tables s2))) = [''ws'']))"

lemma demo_run:
  "case createPublicRegistration demo_create_env demo_signup ''tok'' (rd_tables (demo_reg 5000)) (demo_reg 5000) of
     Inl e \<Rightarrow> False | Inr res \<Rightarrow> demo_runs res"
  by code_simp

lemma demo_signup_run:
  obtains row s1 where "createPublicRegistration demo_create_env demo_signup ''tok'' (rd_tables (demo_reg 5000)) (demo_reg 5000)
      = Inr ((True, row), s1)" "demo_runs ((True, row), s1)"
proof (cases "createPublicRegistration demo_create_env demo_signup ''tok'' (rd_tables (demo_reg 5000)) (demo_reg 5000)")
  case (Inl e)
  with demo_run show ?thesis by simp
next
  case (Inr res)
  obtain created row s1 where res: "res = ((created, row), s1)" by (cases res) auto
  with demo_run Inr have "demo_runs ((created, row), s1)" by simp
  moreover from this have created by (simp add: demo_runs_def)
  ultimately show ?thesis using Inr res that by simp
qed

lemma demo_books: "books (\<lambda>_. 0) (rd_tables (demo_reg 5000))"
proof -
  have "store_ok (settle_view (rd_tables (demo_reg 5000)))" by code_simp
  moreover have "events_ok (rd_tables (demo_reg 5000))" by code_simp
  moreover have "conserved (settle_view (rd_tables (demo_reg 5000)))" by code_simp
  then have "owed (\<lambda>_. 0) (settle_view (rd_tables (demo_reg 5000)))" by (simp add: owed_def conserved_def)
  moreover have "list_all (\<lambda>u. us_registrationId u = Some ''r1'') (db_usages (settle_view (rd_tables (demo_reg 5000))))"
    "''r1'' \<in> rg_id ` set (db_registrations (settle_view (rd_tables (demo_reg 5000))))" by code_simp+
  then have "usages_known (settle_view (rd_tables (demo_reg 5000)))"
    by (auto simp: usages_known_iff list_all_iff simp del: registrations_view)
  ultimately show ?thesis by (simp add: books_def)
qed

section \<open>Properties\<close>

text \<open>The tables before a payment proof: a PENDING registration with two sponsored places of the workshop.\<close>

definition demo_pending :: reg_db where
  "demo_pending = \<lparr>rd_tables = demo_registration_db PENDING 0, rd_refCounters = [], rd_intMax = 9\<rparr>"

lemma demo_pending_books: "books (\<lambda>_. 0) (rd_tables demo_pending)"
proof -
  have "store_ok (settle_view (rd_tables demo_pending))" by code_simp
  moreover have "events_ok (rd_tables demo_pending)" by code_simp
  moreover have "conserved (settle_view (rd_tables demo_pending))" by code_simp
  then have "owed (\<lambda>_. 0) (settle_view (rd_tables demo_pending))" by (simp add: owed_def conserved_def)
  moreover have "list_all (\<lambda>u. us_registrationId u = Some ''r1'') (db_usages (settle_view (rd_tables demo_pending)))"
    "''r1'' \<in> rg_id ` set (db_registrations (settle_view (rd_tables demo_pending)))" by code_simp+
  then have "usages_known (settle_view (rd_tables demo_pending))"
    by (auto simp: usages_known_iff list_all_iff simp del: registrations_view)
  ultimately show ?thesis by (simp add: books_def)
qed

lemma demo_shortfall:
  "proof_shortfall (rd_tables demo_pending) ''r1'' ''ws'' = 2" "ea_id ` set (db_accesses (settle_view (rd_tables demo_pending))) = {''ws''}"
  by code_simp+

text \<open>
  C1: Whatever the registration services do together from exact books (signups, administrators' creates and edits,
  self-edits, payments, payment proofs, deletions, settlements, changes of events and of access items; each
  committed or refused, in any order, over the same events and items), each access item's paid count is the number of
  places its registrations hold less what payment proofs of PENDING registrations left uncounted, which is nothing in
  a run without such proofs; each event's registered count is exactly the number of its registrations; and neither
  count exceeds its capacity.
\<close>

theorem reachable_books:
  assumes "reg_run env s0 short s" and "books (\<lambda>_. 0) (rd_tables s0)"
    and "r \<in> set (db_accesses (settle_view (rd_tables s)))" and "e \<in> set (ad_events (rd_tables s))"
  shows "ea_paidCount r = places_held (settle_view (rd_tables s)) (ea_id r) - short (ea_id r) \<and>
    (\<forall>c. ea_maxCapacity r = Some c \<longrightarrow> ea_paidCount r \<le> c) \<and>
    ae_registeredCount e = int (registered_at (settle_view (rd_tables s)) (pe_id e)) \<and>
    (\<forall>c. ae_maxCapacity e = Some c \<longrightarrow> ae_registeredCount e \<le> c)"
proof -
  have b: "books (\<lambda>k. - short k) (rd_tables s)" by (rule run_keeps_books[OF assms(1,2)])
  have "ea_paidCount r = places_held (settle_view (rd_tables s)) (ea_id r) - short (ea_id r) \<and>
      (\<forall>c. ea_maxCapacity r = Some c \<longrightarrow> ea_paidCount r \<le> c)"
    using books_items[OF b assms(3)] unfolding add_uminus_conv_diff .
  with books_events[OF b assms(4)] show ?thesis by blast
qed

text \<open>
  A payment proof of a PENDING registration with two sponsored places, whose workshop then counts two places less than
  are held.
\<close>

theorem reachable_books_witness:
  "\<exists>short s r. reg_run demo_create_env demo_pending short s \<and> r \<in> set (db_accesses (settle_view (rd_tables s))) \<and>
    ea_paidCount r = places_held (settle_view (rd_tables s)) (ea_id r) - 2"
proof -
  obtain s' keys where run: "uploadPaymentProof demo_access_env (\<lambda>u. None) ''r1'' demo_proof (rd_tables demo_pending) (rd_tables demo_pending)
      = (Inr ''https://files/ev/r1/proof-2.webp'', s', keys)"
    using demo_proof_run by (auto simp: demo_pending_def)
  let ?s = "demo_pending\<lparr>rd_tables := s'\<rparr>"
  let ?short = "\<lambda>k. 0 + proof_shortfall (rd_tables demo_pending) ''r1'' k"
  have steps: "reg_run demo_create_env demo_pending ?short ?s"
    by (rule run_proof[OF run_start]) (use run in \<open>simp add: demo_create_env_def\<close>)
  have "store_ok (settle_view (rd_tables demo_pending))" using demo_pending_books by (simp add: books_def)
  from upload_reviewed[OF this run] obtain x y where "under_review ''r1'' (rd_tables demo_pending) s' x y" by blast
  then have u: "map ea_id (db_accesses (settle_view s')) = map ea_id (db_accesses (settle_view (rd_tables demo_pending)))"
    "ad_events s' = ad_events (rd_tables demo_pending)" unfolding under_review_def by blast+
  have "''ws'' \<in> set (map ea_id (db_accesses (settle_view s')))"
    unfolding u(1) set_map demo_shortfall(2) by (rule insertI1)
  then have "''ws'' \<in> ea_id ` set (db_accesses (settle_view s'))" unfolding set_map .
  then obtain r where r0: "r \<in> set (db_accesses (settle_view s'))" and id: "ea_id r = ''ws''" by (elim imageE) (drule sym, blast)
  have tab: "rd_tables ?s = s'" by simp
  have r: "r \<in> set (db_accesses (settle_view (rd_tables ?s)))" unfolding tab by (rule r0)
  have "ad_events (rd_tables demo_pending) \<noteq> []" by code_simp
  then have "hd (ad_events s') \<in> set (ad_events s')" unfolding u(2) by (rule hd_in_set)
  then have e: "hd (ad_events s') \<in> set (ad_events (rd_tables ?s))" unfolding tab .
  have "ea_paidCount r = places_held (settle_view (rd_tables ?s)) (ea_id r) - ?short (ea_id r)"
    using reachable_books[OF steps demo_pending_books r e] by blast
  then have "ea_paidCount r = places_held (settle_view (rd_tables ?s)) (ea_id r) - 2"
    unfolding id demo_shortfall(1) by (simp only: add_0)
  with r steps show ?thesis by blast
qed

text \<open>
  C2: A signup commits once. After a public signup committed, no other one with its idempotency key, with its address
  for the same form, or with its sponsorship code for the same event creates a registration, whatever state its first
  reads had seen: when it answers at all it answers with a stored registration, and writes nothing.
\<close>

theorem signup_once:
  assumes "createPublicRegistration env input token s0 s = Inr ((True, row), s1)" and "books l (rd_tables s)"
    and "ad_forms s0 = ad_forms (rd_tables s)" and "ad_forms s0' = ad_forms (rd_tables s)"
    and "same_signup (rd_tables s) input input'"
    and "createPublicRegistration env input' token' s0' s1 = Inr ((created, row'), s2)"
  shows "\<not> created \<and> s2 = s1"
  using not_created_twice[OF assms(1-5)] assms(6) by (cases rule: createPublic_cases[OF assms(6)]) auto

text \<open>The second request read the tables before the first one committed; its insert fails and it replays the row.\<close>

theorem signup_once_witness:
  "\<exists>row s1. createPublicRegistration demo_create_env demo_signup ''tok'' (rd_tables (demo_reg 5000)) (demo_reg 5000) = Inr ((True, row), s1) \<and>
    (\<exists>row'. createPublicRegistration demo_create_env demo_signup ''tok2'' (rd_tables (demo_reg 5000)) s1 = Inr ((False, row'), s1))"
proof -
  obtain row s1 where run: "createPublicRegistration demo_create_env demo_signup ''tok'' (rd_tables (demo_reg 5000)) (demo_reg 5000)
      = Inr ((True, row), s1)" and d: "demo_runs ((True, row), s1)"
    by (rule demo_signup_run)
  from d obtain created row' s2 where run2:
    "createPublicRegistration demo_create_env demo_signup ''tok2'' (rd_tables (demo_reg 5000)) s1 = Inr ((created, row'), s2)"
    by (auto simp: demo_runs_def split: sum.splits)
  have same: "same_signup (rd_tables (demo_reg 5000)) demo_signup demo_signup" by (simp add: same_signup_def)
  from signup_once[OF run demo_books refl refl same run2] run run2 show ?thesis by auto
qed

text \<open>
  C3: After a committed public signup with an idempotency key, a later request with that key, whatever else it asks,
  answers with the registration the signup stored and leaves every table as it found it.
\<close>

theorem signup_replayed:
  assumes "createPublicRegistration env input token s0 s = Inr ((True, row), s1)" and "books l (rd_tables s)"
    and "ad_forms s0 = ad_forms (rd_tables s)" and "cr_idempotencyKey input' = cr_idempotencyKey input"
    and "cr_idempotencyKey input = Some key" and "key \<noteq> []"
  shows "createPublicRegistration env input' token' (rd_tables s1) t = Inr ((False, row), t)"
  by (rule created_replays[OF assms])

text \<open>The same key with another address.\<close>

theorem signup_replayed_witness:
  "\<exists>row s1. rg_email row = ''ann@x.org'' \<and>
    createPublicRegistration demo_create_env (demo_signup\<lparr>cr_email := ''b@x.org''\<rparr>) ''tok2'' (rd_tables s1) s1 = Inr ((False, row), s1)"
proof -
  obtain row s1 where run: "createPublicRegistration demo_create_env demo_signup ''tok'' (rd_tables (demo_reg 5000)) (demo_reg 5000)
      = Inr ((True, row), s1)" and d: "demo_runs ((True, row), s1)"
    by (rule demo_signup_run)
  have k: "cr_idempotencyKey (demo_signup\<lparr>cr_email := ''b@x.org''\<rparr>) = cr_idempotencyKey demo_signup" by simp
  have "cr_idempotencyKey demo_signup = Some ''k''" by (simp add: demo_signup_def)
  from signup_replayed[OF run demo_books refl k this] d show ?thesis by (auto simp: demo_runs_def)
qed


lemma last_day_refused:
  assumes "replay_of input s0 = None" and "form_of s0 (cr_formId input) = Some f"
    and "event_of s0 (fm_eventId f) = Some e" and "pe_endDate e < db_clock (ad_settle s0)"
  shows "createPublicRegistration env input token s0 s = Inl notFound"
  using assms by (simp add: createPublicRegistration_def signup_price_def findActiveRegistrationFormById_def)

text \<open>
  C32: On the last day of an open event whose end date is a midnight, which the event's own rule counts as open, every
  new public signup is refused with "Form not found": the form is looked up by the bare end date.
\<close>

theorem signup_last_day:
  assumes "replay_of input s0 = None" and "form_of s0 (cr_formId input) = Some f"
    and "event_of s0 (fm_eventId f) = Some e" and "pe_status e = Ev_open" and "pe_endDate e mod day_ms = 0"
    and "pe_endDate e < db_clock (ad_settle s0)" and "db_clock (ad_settle s0) < pe_endDate e + day_ms"
  shows "createPublicRegistration env input token s0 s = Inl notFound \<and>
    assertEventAcceptsPublicActions (pe_status e) (pe_endDate e) (db_clock (ad_settle s0)) = Inr ()"
  using last_day_refused[OF assms(1-3,6)] assms
  by (simp add: assertEventAcceptsPublicActions_def assertEventOpen_def eventAcceptsPublicActions_def
      effectivePublicEndDate_def guard_def)

text \<open>One second into the last day.\<close>

theorem signup_last_day_witness:
  "createPublicRegistration demo_create_env demo_signup ''tok'' (rd_tables (demo_reg 0)) (demo_reg 0) = Inl notFound"
proof -
  let ?s = "rd_tables (demo_reg 0)"
  let ?f = "hd (ad_forms ?s)" and ?e = "hd (ad_events ?s)"
  have r: "replay_of demo_signup ?s = None" by code_simp
  have f: "form_of ?s (cr_formId demo_signup) = Some ?f" by code_simp
  have e: "event_of ?s (fm_eventId ?f) = Some ?e" by code_simp
  have d: "pe_status ?e = Ev_open" "pe_endDate ?e mod day_ms = 0" "pe_endDate ?e < db_clock (ad_settle ?s)"
    "db_clock (ad_settle ?s) < pe_endDate ?e + day_ms" by code_simp+
  from signup_last_day[OF r f e d] show ?thesis by blast
qed

end
