(* ===== verification/Checkin.thy ===== *)
theory Checkin
  imports RegistrationPayments
begin

text \<open>
  Check-in (\<open>apps/api/src/modules/checkin/checkin.service.ts\<close>) and its queries
  (\<open>packages/db/src/queries/checkin.ts\<close>, \<open>checkin-undo.ts\<close>): the scan of a badge at the event or at an access item,
  the batch of scans made offline, the undo, the preload of a scanner and the statistics. The rule of the
  networking entrance is the one of \<open>packages/db/src/policy/networking-eligibility.ts\<close>.
\<close>

section \<open>Tables\<close>

record access_check_in =
  aci_id :: string
  aci_registrationId :: string
  aci_accessId :: string
  aci_checkedInAt :: date
  aci_checkedInBy :: string

record networking_config =
  nc_eventId :: string
  nc_enabled :: bool
  nc_requiredAccessId :: "string option"
  nc_eligiblePaymentStatuses :: "payment_status list"

record networking_profile =
  np_id :: string
  np_eventId :: string
  np_registrationId :: string
  np_status :: string
  np_consent :: bool
  np_withdrawnAt :: "date option"
  np_erasedAt :: "date option"

record networking_meeting =
  nm_eventId :: string
  nm_status :: string
  nm_requesterId :: string
  nm_recipientId :: string

record checkin_db =
  ck_tables :: access_db
  ck_checkIns :: "access_check_in list"
  ck_configs :: "networking_config list"
  ck_profiles :: "networking_profile list"
  ck_meetings :: "networking_meeting list"

abbreviation ck_rows :: "checkin_db \<Rightarrow> db" where
  "ck_rows s \<equiv> ad_settle (ck_tables s)"

definition on_rows :: "(db \<Rightarrow> db) \<Rightarrow> checkin_db \<Rightarrow> checkin_db" where
  "on_rows f s = s\<lparr>ck_tables := (ck_tables s)\<lparr>ad_settle := f (ck_rows s)\<rparr>\<rparr>"

section \<open>The networking entrance\<close>

definition eligibleProfile :: "networking_profile \<Rightarrow> registration_row \<Rightarrow> payment_status list \<Rightarrow> bool" where
  "eligibleProfile p r statuses \<longleftrightarrow> np_status p = ''ACTIVE'' \<and> np_consent p \<and> np_withdrawnAt p = None
     \<and> np_erasedAt p = None \<and> rg_eventId r = np_eventId p \<and> rg_networkingOptIn r \<noteq> Some False
     \<and> rg_paymentStatus r \<in> set statuses"

definition admittedProfile ::
  "networking_meeting list \<Rightarrow> networking_profile \<Rightarrow> registration_row \<Rightarrow> payment_status list \<Rightarrow> bool" where
  "admittedProfile meetings p r statuses \<longleftrightarrow> eligibleProfile p r statuses
     \<and> list_ex (\<lambda>m. nm_eventId m = np_eventId p \<and> nm_status m = ''CONFIRMED''
         \<and> (nm_requesterId m = np_id p \<or> nm_recipientId m = np_id p)) meetings"

definition networkingAdmission :: "string \<Rightarrow> checkin_db \<Rightarrow> registration_row \<Rightarrow> bool" where
  "networkingAdmission accessId s r \<longleftrightarrow>
     \<not> list_ex (\<lambda>c. nc_eventId c = rg_eventId r \<and> nc_enabled c \<and> nc_requiredAccessId c = Some accessId
         \<and> \<not> list_ex (\<lambda>p. np_registrationId p = rg_id r \<and> np_eventId p = nc_eventId c
               \<and> admittedProfile (ck_meetings s) p r (nc_eligiblePaymentStatuses c)) (ck_profiles s)) (ck_configs s)"

definition isNetworkingAccessAllowed :: "checkin_db \<Rightarrow> string \<Rightarrow> string \<Rightarrow> string \<Rightarrow> bool" where
  "isNetworkingAccessAllowed s eventId registrationId accessId \<longleftrightarrow>
     list_ex (\<lambda>r. rg_eventId r = eventId \<and> rg_id r = registrationId \<and> networkingAdmission accessId s r)
       (db_registrations (ck_rows s))"

definition getNetworkingAdmittedRegistrationIds ::
  "checkin_db \<Rightarrow> string \<Rightarrow> string \<Rightarrow> string list \<Rightarrow> string list" where
  "getNetworkingAdmittedRegistrationIds s eventId accessId ids =
     map rg_id (filter (\<lambda>r. rg_eventId r = eventId \<and> rg_id r \<in> set ids \<and> networkingAdmission accessId s r)
       (db_registrations (ck_rows s)))"

section \<open>Reads\<close>

record check_in_registration =
  kr_row :: registration_row
  kr_clientId :: string

definition kr_accessTypeIds :: "registration_row \<Rightarrow> string list" where
  "kr_accessTypeIds r = (case rg_accessTypeIds r of None \<Rightarrow> [] | Some ids \<Rightarrow> ids)"

definition getRegistrationForCheckIn :: "checkin_db \<Rightarrow> string \<Rightarrow> check_in_registration option" where
  "getRegistrationForCheckIn s i =
     (case registration_of (ck_rows s) i of None \<Rightarrow> None
      | Some r \<Rightarrow> map_option (\<lambda>e. \<lparr>kr_row = r, kr_clientId = ae_clientId e\<rparr>) (event_of (ck_tables s) (rg_eventId r)))"

text \<open>The map of the registrations asked for; an id without a row is absent.\<close>

definition getRegistrationsForCheckIn :: "checkin_db \<Rightarrow> string list \<Rightarrow> string \<Rightarrow> check_in_registration option" where
  "getRegistrationsForCheckIn s ids i = (if i \<in> set ids then getRegistrationForCheckIn s i else None)"

definition getAccessCheckIn :: "checkin_db \<Rightarrow> string \<Rightarrow> string \<Rightarrow> access_check_in option" where
  "getAccessCheckIn s registrationId accessId =
     find (\<lambda>c. aci_registrationId c = registrationId \<and> aci_accessId c = accessId) (ck_checkIns s)"

definition getActiveEventAccessId :: "checkin_db \<Rightarrow> string \<Rightarrow> string \<Rightarrow> string option" where
  "getActiveEventAccessId s accessId eventId =
     map_option ea_id (find (\<lambda>a. ea_id a = accessId \<and> ea_eventId a = eventId \<and> ea_active a) (ad_items (ck_tables s)))"

definition getEligibleRegistrationIds :: "checkin_db \<Rightarrow> string \<Rightarrow> string option \<Rightarrow> string list" where
  "getEligibleRegistrationIds s eventId accessId =
     map rg_id (filter (\<lambda>r. rg_eventId r = eventId \<and> isFullySettled (Some (rg_paymentStatus r))
       \<and> (case accessId of None \<Rightarrow> True
          | Some a \<Rightarrow> a \<in> set (kr_accessTypeIds r) \<and> networkingAdmission a s r)) (db_registrations (ck_rows s)))"

section \<open>Writes\<close>

record check_in_write =
  wi_registrationId :: string
  wi_eventId :: string
  wi_clientId :: string
  wi_accessId :: "string option"
  wi_checkedInBy :: string
  wi_checkedInAt :: date

datatype check_in_result = Checked_in date | Already_checked_in date | Not_eligible

definition check_in_open :: "check_in_write \<Rightarrow> registration_row \<Rightarrow> bool" where
  "check_in_open input r \<longleftrightarrow> rg_id r = wi_registrationId input \<and> rg_eventId r = wi_eventId input
     \<and> rg_checkedInAt r = None \<and> isFullySettled (Some (rg_paymentStatus r))"

definition check_in_audit :: "string \<Rightarrow> string \<Rightarrow> string \<Rightarrow> audit_change list \<Rightarrow> string \<Rightarrow> audit_entry" where
  "check_in_audit entityType entityId action changes who =
     \<lparr>au_entityType = entityType, au_entityId = entityId, au_action = action, au_changes = changes,
      au_performedBy = Some who, au_ipAddress = None\<rparr>"

definition announce_check_in :: "check_in_write \<Rightarrow> db \<Rightarrow> db" where
  "announce_check_in input d =
     (if wi_clientId input = [] then d
      else snd (enqueueRealtimeOutboxEvent
        (Registration_checkedIn (wi_clientId input) (wi_eventId input) (wi_registrationId input) (wi_accessId input)) d))"

definition checkInRegistrationTx :: "check_in_write \<Rightarrow> checkin_db \<Rightarrow> error + check_in_result \<times> checkin_db" where
  "checkInRegistrationTx input s =
     (let d = ck_rows s in
      if list_ex (check_in_open input) (db_registrations d) then
        Inr (Checked_in (wi_checkedInAt input), on_rows (\<lambda>d. announce_check_in input (insertAuditLog
          (check_in_audit ''Registration'' (wi_registrationId input) ''CHECK_IN''
            [Changed ''checkedInAt'' Av_null (Av_date (wi_checkedInAt input))] (wi_checkedInBy input))
          (d\<lparr>db_registrations := update_rows (check_in_open input)
              (\<lambda>r. r\<lparr>rg_checkedInAt := Some (wi_checkedInAt input), rg_checkedInBy := Some (wi_checkedInBy input),
                     rg_updatedAt := db_clock d\<rparr>) (db_registrations d)\<rparr>))) s)
      else (case find (\<lambda>r. rg_id r = wi_registrationId input \<and> rg_eventId r = wi_eventId input) (db_registrations d) of
              None \<Rightarrow> Inr (Not_eligible, s)
            | Some r \<Rightarrow> (case rg_checkedInAt r of None \<Rightarrow> Inr (Not_eligible, s) | Some t \<Rightarrow> Inr (Already_checked_in t, s))))"

text \<open>
  The insert does nothing on the unique key (registration, access item); its foreign keys ask for both rows.
\<close>

definition createAccessCheckInTx ::
  "check_in_write \<Rightarrow> string \<Rightarrow> checkin_db \<Rightarrow> error + check_in_result \<times> checkin_db" where
  "createAccessCheckInTx input accessId s =
     (case getAccessCheckIn s (wi_registrationId input) accessId of
        Some existing \<Rightarrow> Inr (Already_checked_in (aci_checkedInAt existing), s)
      | None \<Rightarrow>
         (case db_ids (ck_rows s) of
            [] \<Rightarrow> Inl (Plain_error ''newId'')
          | i # ids \<Rightarrow>
              sbind (guard (registration_of (ck_rows s) (wi_registrationId input) \<noteq> None
                  \<and> accessId \<in> ea_id ` set (ad_items (ck_tables s))) (Plain_error ''foreign key'')) (\<lambda>_.
              Inr (Checked_in (wi_checkedInAt input),
                on_rows (\<lambda>d. announce_check_in input (insertAuditLog
                  (check_in_audit ''AccessCheckIn'' i ''CHECK_IN''
                    [Changed ''accessId'' Av_null (Av_text accessId),
                     Changed ''checkedInAt'' Av_null (Av_date (wi_checkedInAt input))] (wi_checkedInBy input))
                  (d\<lparr>db_ids := ids\<rparr>)))
                (s\<lparr>ck_checkIns := ck_checkIns s @ [\<lparr>aci_id = i, aci_registrationId = wi_registrationId input,
                   aci_accessId = accessId, aci_checkedInAt = wi_checkedInAt input,
                   aci_checkedInBy = wi_checkedInBy input\<rparr>]\<rparr>)))))"

definition checkInItemTx :: "check_in_write \<Rightarrow> checkin_db \<Rightarrow> error + check_in_result \<times> checkin_db" where
  "checkInItemTx item s =
     (case wi_accessId item of None \<Rightarrow> checkInRegistrationTx item s | Some a \<Rightarrow> createAccessCheckInTx item a s)"

section \<open>Undo\<close>

datatype undo_result = Undone | Already_undone | Undo_not_found | Undo_conflict

record undo_input =
  uc_eventId :: string
  uc_registrationId :: string
  uc_accessId :: "string option"
  uc_actorId :: string
  uc_expectedCheckedInAt :: "date option"

definition undo_changes :: "date \<Rightarrow> string option \<Rightarrow> audit_change list" where
  "undo_changes current accessId = Changed ''checkedInAt'' (Av_date current) Av_null
     # (case accessId of None \<Rightarrow> [] | Some a \<Rightarrow> [Changed ''accessId'' (Av_text a) (Av_text a)])"

definition announce_undo :: "undo_input \<Rightarrow> string \<Rightarrow> checkin_db \<Rightarrow> checkin_db" where
  "announce_undo input registrationId s =
     (case event_of (ck_tables s) (uc_eventId input) of None \<Rightarrow> s
      | Some e \<Rightarrow> on_rows (snd \<circ> enqueueRealtimeOutboxEvent
          (Registration_checkInUndone (ae_clientId e) (uc_eventId input) registrationId)) s)"

definition undoCheckIn :: "undo_input \<Rightarrow> checkin_db \<Rightarrow> undo_result \<times> checkin_db" where
  "undoCheckIn input s =
     (case find (\<lambda>r. rg_id r = uc_registrationId input \<and> rg_eventId r = uc_eventId input) (db_registrations (ck_rows s)) of
        None \<Rightarrow> (Undo_not_found, s)
      | Some reg \<Rightarrow>
         (let access = (case uc_accessId input of None \<Rightarrow> None | Some a \<Rightarrow> getAccessCheckIn s (rg_id reg) a);
              current = (if uc_accessId input \<noteq> None then map_option aci_checkedInAt access else rg_checkedInAt reg)
          in case current of
               None \<Rightarrow> (Already_undone, s)
             | Some t \<Rightarrow>
                if uc_expectedCheckedInAt input \<noteq> None \<and> uc_expectedCheckedInAt input \<noteq> Some t then (Undo_conflict, s)
                else
                 (let s1 = (case access of
                        Some c \<Rightarrow> on_rows (insertAuditLog (check_in_audit ''AccessCheckIn'' (aci_id c) ''UNDO_CHECK_IN''
                            (undo_changes t (uc_accessId input)) (uc_actorId input)))
                          (s\<lparr>ck_checkIns := filter (\<lambda>x. aci_id x \<noteq> aci_id c) (ck_checkIns s)\<rparr>)
                      | None \<Rightarrow> on_rows (\<lambda>d. insertAuditLog (check_in_audit ''Registration'' (rg_id reg) ''UNDO_CHECK_IN''
                            (undo_changes t (uc_accessId input)) (uc_actorId input))
                          (d\<lparr>db_registrations := update_rows (\<lambda>r. rg_id r = rg_id reg)
                            (\<lambda>r. r\<lparr>rg_checkedInAt := None, rg_checkedInBy := None, rg_updatedAt := db_clock d\<rparr>)
                            (db_registrations d)\<rparr>)) s)
                  in (Undone, announce_undo input (rg_id reg) s1))))"

text \<open>The service: an outcome that is no success is an error of the API.\<close>

definition undo_check_in :: "undo_input \<Rightarrow> checkin_db \<Rightarrow> error + undo_result \<times> checkin_db" where
  "undo_check_in input s =
     (case undoCheckIn input s of
        (Undo_not_found, _) \<Rightarrow> Inl notFound
      | (Undo_conflict, _) \<Rightarrow> Inl (App_exception ''CONFLICT'' 409)
      | (outcome, s') \<Rightarrow> Inr (outcome, s'))"

section \<open>One scan\<close>

definition paymentRequired :: error where
  "paymentRequired = App_exception ''CHECKIN_PAYMENT_REQUIRED'' 400"

definition networkingMeetingRequired :: error where
  "networkingMeetingRequired = App_exception ''CHECKIN_NETWORKING_MEETING_REQUIRED'' 403"

definition assertCheckInAllowed ::
  "check_in_registration option \<Rightarrow> string \<Rightarrow> string option \<Rightarrow> error + check_in_registration" where
  "assertCheckInAllowed registration eventId accessId =
     (case registration of
        None \<Rightarrow> Inl registration_not_found
      | Some k \<Rightarrow>
         sbind (guard (rg_eventId (kr_row k) = eventId) (App_exception ''CHECKIN_EVENT_MISMATCH'' 400)) (\<lambda>_.
         sbind (guard (isFullySettled (Some (rg_paymentStatus (kr_row k)))) paymentRequired) (\<lambda>_.
         sbind (guard (case accessId of None \<Rightarrow> True | Some a \<Rightarrow> a \<in> set (kr_accessTypeIds (kr_row k)))
           (App_exception ''CHECKIN_ACCESS_NOT_ON_REGISTRATION'' 400)) (\<lambda>_.
         Inr k))))"

definition write_of :: "check_in_registration \<Rightarrow> string option \<Rightarrow> string \<Rightarrow> date \<Rightarrow> check_in_write" where
  "write_of k accessId who scannedAt = \<lparr>wi_registrationId = rg_id (kr_row k), wi_eventId = rg_eventId (kr_row k),
     wi_clientId = kr_clientId k, wi_accessId = accessId, wi_checkedInBy = who, wi_checkedInAt = scannedAt\<rparr>"

record check_in_answer =
  an_alreadyCheckedIn :: bool
  an_checkedInAt :: date
  an_registration :: registration_row

text \<open>
  The registration is read in the state \<open>s0\<close>, the entrance rule in \<open>s1\<close>; the write is a transaction on \<open>s\<close>.
\<close>

definition checkIn ::
  "string \<Rightarrow> string \<Rightarrow> string option \<Rightarrow> string \<Rightarrow> date \<Rightarrow> checkin_db \<Rightarrow> checkin_db \<Rightarrow> checkin_db
    \<Rightarrow> error + check_in_answer \<times> checkin_db" where
  "checkIn eventId registrationId accessId userId checkedInAt s0 s1 s =
     sbind (assertCheckInAllowed (getRegistrationForCheckIn s0 registrationId) eventId accessId) (\<lambda>k.
     sbind (guard (case accessId of None \<Rightarrow> True | Some a \<Rightarrow> isNetworkingAccessAllowed s1 eventId registrationId a)
       networkingMeetingRequired) (\<lambda>_.
     case (if accessId = None then rg_checkedInAt (kr_row k) else None) of
       Some t \<Rightarrow> Inr (\<lparr>an_alreadyCheckedIn = True, an_checkedInAt = t, an_registration = kr_row k\<rparr>, s)
     | None \<Rightarrow>
        sbind (checkInItemTx (write_of k accessId userId checkedInAt) s) (\<lambda>(result, s').
        case result of
          Not_eligible \<Rightarrow> Inl paymentRequired
        | Already_checked_in t \<Rightarrow> Inr (\<lparr>an_alreadyCheckedIn = True, an_checkedInAt = t, an_registration = kr_row k\<rparr>, s')
        | Checked_in t \<Rightarrow> Inr (\<lparr>an_alreadyCheckedIn = False, an_checkedInAt = t, an_registration = kr_row k\<rparr>, s'))))"

definition getCheckInRegistrations :: "checkin_db \<Rightarrow> string \<Rightarrow> string option \<Rightarrow> error + string list" where
  "getCheckInRegistrations s eventId accessId =
     sbind (guard (case accessId of None \<Rightarrow> True | Some a \<Rightarrow> getActiveEventAccessId s a eventId \<noteq> None)
       (App_exception ''ACCESS_NOT_FOUND'' 404)) (\<lambda>_.
     Inr (getEligibleRegistrationIds s eventId accessId))"

end
