(* ===== verification/CheckinBatch.thy ===== *)
theory CheckinBatch
  imports Checkin
begin

text \<open>
  The batch of offline scans: \<open>batchCheckIn\<close> of \<open>packages/db/src/queries/checkin.ts\<close>, \<open>batchSync\<close> and \<open>syncChunk\<close> of
  \<open>checkin.service.ts\<close>, and the statistics. A transaction is one step; what other processes commit before it is the
  function \<open>others\<close> of the step's number.
\<close>

section \<open>One transaction of scans\<close>

definition CHECK_IN_BATCH_TX_SIZE :: nat where
  "CHECK_IN_BATCH_TX_SIZE = 100"

datatype batch_result = Written check_in_result | Write_failed error

text \<open>Items in (registration, access item) order, equal ones in the order of the request.\<close>

definition write_order :: "check_in_write list \<Rightarrow> (check_in_write \<times> nat) list" where
  "write_order items = sort_key (\<lambda>(w, _). wi_registrationId w)
     (sort_key (\<lambda>(w, _). case wi_accessId w of None \<Rightarrow> [] | Some a \<Rightarrow> a) (zip items [0..<length items]))"

fun batch_txn ::
  "(check_in_write \<times> nat) list \<Rightarrow> batch_result list \<Rightarrow> checkin_db \<Rightarrow> error + batch_result list \<times> checkin_db" where
  "batch_txn [] results s = Inr (results, s)"
| "batch_txn ((item, index) # rest) results s =
     sbind (checkInItemTx item s) (\<lambda>(r, s'). batch_txn rest (results[index := Written r]) s')"

fun batch_singly ::
  "(nat \<Rightarrow> checkin_db \<Rightarrow> checkin_db) \<Rightarrow> (check_in_write \<times> nat) list \<Rightarrow> batch_result list \<Rightarrow> checkin_db
    \<Rightarrow> batch_result list \<times> checkin_db" where
  "batch_singly others [] results s = (results, s)"
| "batch_singly others ((item, index) # rest) results s =
     (let t = others index s in
      case checkInItemTx item t of
        Inl err \<Rightarrow> batch_singly others rest (results[index := Write_failed err]) t
      | Inr (r, t') \<Rightarrow> batch_singly others rest (results[index := Written r]) t')"

text \<open>An array of the given length; every slot is assigned before it is read.\<close>

definition no_results :: "nat \<Rightarrow> batch_result list" where
  "no_results n = replicate n (Write_failed (Plain_error ''undefined''))"

definition batchCheckIn ::
  "(nat \<Rightarrow> checkin_db \<Rightarrow> checkin_db) \<Rightarrow> check_in_write list \<Rightarrow> checkin_db \<Rightarrow> error + batch_result list \<times> checkin_db" where
  "batchCheckIn others items s =
     (if CHECK_IN_BATCH_TX_SIZE < length items then Inl (Plain_error ''RangeError'')
      else if items = [] then Inr ([], s)
      else (case batch_txn (write_order items) (no_results (length items)) s of
              Inr res \<Rightarrow> Inr res
            | Inl err \<Rightarrow> Inr (batch_singly others (write_order items) (no_results (length items)) s)))"

section \<open>A chunk of the request\<close>

record scan =
  sn_registrationId :: string
  sn_accessId :: "string option"
  sn_scannedAt :: date

datatype sync_outcome = Synced | Sync_already | Sync_error error

definition unknown_error :: error where
  "unknown_error = Plain_error ''Unknown error''"

text \<open>
  What a chunk sees and what happens around it: whether its reads reach the database, the state its registrations
  are read in, the state the entrance rule of an access item is read in, and what others commit before a write.
\<close>

record sync_view =
  sv_reached :: bool
  sv_read :: checkin_db
  sv_admitted :: "string \<Rightarrow> checkin_db"
  sv_others :: "nat \<Rightarrow> checkin_db \<Rightarrow> checkin_db"

definition scan_rule :: "string \<Rightarrow> (string \<Rightarrow> check_in_registration option) \<Rightarrow> scan \<Rightarrow> sync_outcome" where
  "scan_rule eventId registrations item =
     (case assertCheckInAllowed (registrations (sn_registrationId item)) eventId (sn_accessId item) of
        Inl err \<Rightarrow> Sync_error err | Inr _ \<Rightarrow> Synced)"

text \<open>The ids asked about an access item: those of the chunk's allowed scans at it.\<close>

definition ids_at :: "string \<Rightarrow> (scan \<times> sync_outcome) list \<Rightarrow> string list" where
  "ids_at a scans = map (sn_registrationId \<circ> fst) (filter (\<lambda>(x, out). out = Synced \<and> sn_accessId x = Some a) scans)"

definition scan_admitted :: "string \<Rightarrow> sync_view \<Rightarrow> (scan \<times> sync_outcome) list \<Rightarrow> scan \<Rightarrow> bool" where
  "scan_admitted eventId v scans item =
     (case sn_accessId item of None \<Rightarrow> True
      | Some a \<Rightarrow> sn_registrationId item \<in> set (getNetworkingAdmittedRegistrationIds (sv_admitted v a) eventId a (ids_at a scans)))"

definition scan_outcomes :: "string \<Rightarrow> sync_view \<Rightarrow> scan list \<Rightarrow> sync_outcome list" where
  "scan_outcomes eventId v chunk =
     (let registrations = getRegistrationsForCheckIn (sv_read v) (map sn_registrationId chunk);
          scans = map (\<lambda>x. (x, scan_rule eventId registrations x)) chunk
      in map (\<lambda>(x, out). if out = Synced \<and> \<not> scan_admitted eventId v scans x then Sync_error networkingMeetingRequired
           else out) scans)"

text \<open>The writes of the chunk, with the positions of their scans.\<close>

definition scan_writes :: "string \<Rightarrow> sync_view \<Rightarrow> scan list \<Rightarrow> sync_outcome list \<Rightarrow> (check_in_write \<times> nat) list" where
  "scan_writes userId v chunk outcomes =
     concat (map (\<lambda>(n, x, out). if out \<noteq> Synced then []
         else case getRegistrationsForCheckIn (sv_read v) (map sn_registrationId chunk) (sn_registrationId x) of
           None \<Rightarrow> []
         | Some k \<Rightarrow> [((write_of k (sn_accessId x) userId (sn_scannedAt x))\<lparr>wi_registrationId := sn_registrationId x\<rparr>, n)])
       (zip [0..<length chunk] (zip chunk outcomes)))"

definition written_outcome :: "batch_result \<Rightarrow> sync_outcome" where
  "written_outcome r =
     (case r of
        Written (Checked_in _) \<Rightarrow> Synced
      | Written (Already_checked_in _) \<Rightarrow> Sync_already
      | Written Not_eligible \<Rightarrow> Sync_error paymentRequired
      | Write_failed _ \<Rightarrow> Sync_error unknown_error)"

fun put_outcomes :: "(check_in_write \<times> nat) list \<Rightarrow> batch_result list \<Rightarrow> sync_outcome list \<Rightarrow> sync_outcome list" where
  "put_outcomes ((_, n) # ws) (r # rs) outcomes = put_outcomes ws rs (outcomes[n := written_outcome r])"
| "put_outcomes _ _ outcomes = outcomes"

definition syncChunk ::
  "string \<Rightarrow> scan list \<Rightarrow> string \<Rightarrow> sync_view \<Rightarrow> checkin_db \<Rightarrow> error + sync_outcome list \<times> checkin_db" where
  "syncChunk eventId chunk userId v s =
     sbind (guard (sv_reached v) (Plain_error ''connection'')) (\<lambda>_.
     let outcomes = scan_outcomes eventId v chunk; writes = scan_writes userId v chunk outcomes in
     sbind (batchCheckIn (sv_others v \<circ> Suc) (map fst writes) (sv_others v 0 s)) (\<lambda>(results, s').
     Inr (put_outcomes writes results outcomes, s')))"

section \<open>The request\<close>

fun chunks_of :: "nat \<Rightarrow> 'a list \<Rightarrow> 'a list list" where
  "chunks_of n xs = (if n = 0 \<or> xs = [] then [] else take n xs # chunks_of n (drop n xs))"

declare chunks_of.simps [simp del]

text \<open>A chunk that throws leaves an error for each of its scans.\<close>

fun sync_chunks ::
  "string \<Rightarrow> string \<Rightarrow> (nat \<Rightarrow> sync_view) \<Rightarrow> nat \<Rightarrow> scan list list \<Rightarrow> checkin_db \<Rightarrow> sync_outcome list \<times> checkin_db" where
  "sync_chunks eventId userId views n [] s = ([], s)"
| "sync_chunks eventId userId views n (chunk # chunks) s =
     (case syncChunk eventId chunk userId (views n) s of
        Inl err \<Rightarrow>
          (case sync_chunks eventId userId views (Suc n) chunks s of
             (out, s') \<Rightarrow> (map (\<lambda>_. Sync_error unknown_error) chunk @ out, s'))
      | Inr (outcomes, t) \<Rightarrow>
          (case sync_chunks eventId userId views (Suc n) chunks t of (out, s') \<Rightarrow> (outcomes @ out, s')))"

record sync_answer =
  sy_synced :: nat
  sy_alreadyCheckedIn :: nat
  sy_errors :: "(string \<times> error) list"

definition tally :: "scan list \<Rightarrow> sync_outcome list \<Rightarrow> sync_answer" where
  "tally checkIns outcomes =
     \<lparr>sy_synced = length (filter (\<lambda>x. x = Synced) outcomes),
      sy_alreadyCheckedIn = length (filter (\<lambda>x. x = Sync_already) outcomes),
      sy_errors = concat (map (\<lambda>(x, out). case out of Sync_error e \<Rightarrow> [(sn_registrationId x, e)] | _ \<Rightarrow> [])
        (zip checkIns outcomes))\<rparr>"

definition batchSync ::
  "string \<Rightarrow> scan list \<Rightarrow> string \<Rightarrow> (nat \<Rightarrow> sync_view) \<Rightarrow> checkin_db \<Rightarrow> sync_answer \<times> checkin_db" where
  "batchSync eventId checkIns userId views s =
     (case sync_chunks eventId userId views 0 (chunks_of CHECK_IN_BATCH_TX_SIZE checkIns) s of
        (outcomes, s') \<Rightarrow> (tally checkIns outcomes, s'))"

section \<open>Statistics\<close>

record access_stats =
  st_accessId :: string
  st_name :: string
  st_type :: access_type
  st_total :: nat
  st_checkedIn :: nat

record check_in_stats =
  st_registrations :: nat
  st_checkedInRegistrations :: nat
  st_byAccess :: "access_stats list"

definition getActiveAccessItems :: "checkin_db \<Rightarrow> string \<Rightarrow> event_access list" where
  "getActiveAccessItems s eventId = filter (\<lambda>a. ea_eventId a = eventId \<and> ea_active a) (ad_items (ck_tables s))"

definition countEventRegistrations :: "checkin_db \<Rightarrow> string \<Rightarrow> nat" where
  "countEventRegistrations s eventId = length (filter (\<lambda>r. rg_eventId r = eventId) (db_registrations (ck_rows s)))"

definition countCheckedInRegistrations :: "checkin_db \<Rightarrow> string \<Rightarrow> nat" where
  "countCheckedInRegistrations s eventId =
     length (filter (\<lambda>r. rg_eventId r = eventId \<and> rg_checkedInAt r \<noteq> None) (db_registrations (ck_rows s)))"

text \<open>The count of an active item in the grouped query; an item without a check-in is absent.\<close>

definition getAccessCheckInCounts :: "checkin_db \<Rightarrow> string \<Rightarrow> string \<Rightarrow> nat option" where
  "getAccessCheckInCounts s eventId i =
     (let n = length (filter (\<lambda>c. aci_accessId c = i
            \<and> (case registration_of (ck_rows s) (aci_registrationId c) of None \<Rightarrow> False | Some r \<Rightarrow> rg_eventId r = eventId))
          (ck_checkIns s))
      in if getActiveEventAccessId s i eventId = None \<or> n = 0 then None else Some n)"

definition getEligibleRegistrationAccessTypeIds :: "checkin_db \<Rightarrow> string \<Rightarrow> string list list" where
  "getEligibleRegistrationAccessTypeIds s eventId =
     map kr_accessTypeIds (filter (\<lambda>r. rg_eventId r = eventId \<and> isFullySettled (Some (rg_paymentStatus r)))
       (db_registrations (ck_rows s)))"

definition count_access :: "string list \<Rightarrow> string list \<Rightarrow> (string \<times> nat) list \<Rightarrow> (string \<times> nat) list" where
  "count_access active ids totals =
     fold (\<lambda>i m. if i \<notin> set active then m
       else AList.update i ((case map_of m i of None \<Rightarrow> 0 | Some n \<Rightarrow> n) + 1) m) ids totals"

definition getCheckInStats :: "checkin_db \<Rightarrow> string \<Rightarrow> check_in_stats" where
  "getCheckInStats s eventId =
     (let items = getActiveAccessItems s eventId;
          totals = fold (count_access (map ea_id items)) (getEligibleRegistrationAccessTypeIds s eventId) []
      in \<lparr>st_registrations = countEventRegistrations s eventId,
          st_checkedInRegistrations = countCheckedInRegistrations s eventId,
          st_byAccess = map (\<lambda>a. \<lparr>st_accessId = ea_id a, st_name = ea_name a, st_type = ax_type a,
            st_total = (case map_of totals (ea_id a) of None \<Rightarrow> 0 | Some n \<Rightarrow> n),
            st_checkedIn = (case getAccessCheckInCounts s eventId (ea_id a) of None \<Rightarrow> 0 | Some n \<Rightarrow> n)\<rparr>) items\<rparr>)"

end
