(* ===== verification/CheckinProps.thy ===== *)
theory CheckinProps
  imports CheckinBatch PaymentProps
begin

text \<open>
  What check-in guarantees: one check-in per badge however many scanners race, an undo that takes back exactly the
  scan it names, and a batch that does what its scans would have done one by one.
\<close>

section \<open>What a statement touches\<close>

lemma find_in_last: "\<forall>x \<in> set xs. \<not> P x \<Longrightarrow> P y \<Longrightarrow> find P (xs @ [y]) = Some y"
  by (induction xs) auto

lemma on_rows_fields [simp]:
  "ck_rows (on_rows f s) = f (ck_rows s)" "ck_checkIns (on_rows f s) = ck_checkIns s"
  "ad_items (ck_tables (on_rows f s)) = ad_items (ck_tables s)" "ad_events (ck_tables (on_rows f s)) = ad_events (ck_tables s)"
  by (simp_all add: on_rows_def)

lemma enqueue_rows [simp]:
  "db_registrations (snd (enqueueRealtimeOutboxEvent ev d)) = db_registrations d"
  "db_audit (snd (enqueueRealtimeOutboxEvent ev d)) = db_audit d"
  by (simp_all add: enqueueRealtimeOutboxEvent_def enqueueOutboxEvent_def)

lemma announce_rows [simp]:
  "db_registrations (announce_check_in w d) = db_registrations d" "db_audit (announce_check_in w d) = db_audit d"
  by (simp_all add: announce_check_in_def)

lemma announce_undo_fields [simp]:
  "db_registrations (ck_rows (announce_undo input i s)) = db_registrations (ck_rows s)"
  "db_audit (ck_rows (announce_undo input i s)) = db_audit (ck_rows s)"
  "ck_checkIns (announce_undo input i s) = ck_checkIns s"
  by (simp_all add: announce_undo_def split: option.split)

lemma log_rows [simp]:
  "db_registrations (insertAuditLog a d) = db_registrations d" "db_audit (insertAuditLog a d) = db_audit d @ [a]"
  by (simp_all add: insertAuditLog_def)

section \<open>One check-in per badge\<close>

definition entries :: "string \<Rightarrow> string \<Rightarrow> string \<Rightarrow> audit_entry list \<Rightarrow> nat" where
  "entries kind action i audits =
     length (filter (\<lambda>a. au_entityType a = kind \<and> au_action a = action \<and> au_entityId a = i) audits)"

lemma entries_append [simp]: "entries k a i (xs @ ys) = entries k a i xs + entries k a i ys"
  by (simp add: entries_def)

lemma entries_one [simp]: "entries k a i [x] = (if au_entityType x = k \<and> au_action x = a \<and> au_entityId x = i then 1 else 0)"
  by (simp add: entries_def)

text \<open>The log shows as many check-ins of a registration as undos, and one more while it is checked in.\<close>

definition row_ledger :: "audit_entry list \<Rightarrow> registration_row \<Rightarrow> bool" where
  "row_ledger audits r \<longleftrightarrow> entries ''Registration'' ''CHECK_IN'' (rg_id r) audits
     = entries ''Registration'' ''UNDO_CHECK_IN'' (rg_id r) audits + (if rg_checkedInAt r = None then 0 else 1)"

definition pair_of :: "access_check_in \<Rightarrow> string \<times> string" where
  "pair_of c = (aci_registrationId c, aci_accessId c)"

definition ledger :: "checkin_db \<Rightarrow> bool" where
  "ledger s \<longleftrightarrow> distinct (map rg_id (db_registrations (ck_rows s)))
     \<and> list_all (row_ledger (db_audit (ck_rows s))) (db_registrations (ck_rows s))
     \<and> distinct (map pair_of (ck_checkIns s))"

lemma ledger_tables:
  assumes "map (\<lambda>r. (rg_id r, rg_checkedInAt r)) (db_registrations (ck_rows s')) = map (\<lambda>r. (rg_id r, rg_checkedInAt r)) (db_registrations (ck_rows s))"
    and "\<And>i a. a = ''CHECK_IN'' \<or> a = ''UNDO_CHECK_IN'' \<Longrightarrow>
      entries ''Registration'' a i (db_audit (ck_rows s')) = entries ''Registration'' a i (db_audit (ck_rows s))"
    and "distinct (map pair_of (ck_checkIns s'))" and "ledger s"
  shows "ledger s'"
proof -
  let ?f = "\<lambda>r. (rg_id r, rg_checkedInAt r)"
  have ids: "map rg_id xs = map fst (map ?f xs)" for xs by simp
  have "list_all (row_ledger audits) xs = list_all (\<lambda>(i, t). entries ''Registration'' ''CHECK_IN'' i audits
      = entries ''Registration'' ''UNDO_CHECK_IN'' i audits + (if t = None then 0 else 1)) (map ?f xs)" for audits xs
    by (simp add: list_all_iff row_ledger_def)
  then show ?thesis using assms unfolding ledger_def ids by simp
qed


text \<open>Rows with distinct ids: an update of one row.\<close>

lemma list_all_update:
  assumes "list_all P t" and "\<And>r. r \<in> set t \<Longrightarrow> p r \<Longrightarrow> P r \<Longrightarrow> Q (f r)" and "\<And>r. r \<in> set t \<Longrightarrow> \<not> p r \<Longrightarrow> P r \<Longrightarrow> Q r"
  shows "list_all Q (update_rows p f t)"
  using assms by (auto simp: list_all_iff set_update_rows)

lemma checkInRegistration_ledger:
  assumes run: "checkInRegistrationTx input s = Inr (res, s')" and led: "ledger s"
  shows "ledger s'"
proof (cases "list_ex (check_in_open input) (db_registrations (ck_rows s))")
  case False
  then have "s' = s" using run by (auto simp: checkInRegistrationTx_def Let_def split: option.splits)
  with led show ?thesis by simp
next
  case True
  let ?d = "ck_rows s"
  let ?f = "\<lambda>r. r\<lparr>rg_checkedInAt := Some (wi_checkedInAt input), rg_checkedInBy := Some (wi_checkedInBy input),
      rg_updatedAt := db_clock ?d\<rparr>"
  define a where "a = check_in_audit ''Registration'' (wi_registrationId input) ''CHECK_IN''
    [Changed ''checkedInAt'' Av_null (Av_date (wi_checkedInAt input))] (wi_checkedInBy input)"
  have a: "au_entityType a = ''Registration''" "au_entityId a = wi_registrationId input" "au_action a = ''CHECK_IN''"
    by (simp_all add: a_def check_in_audit_def)
  have s': "db_registrations (ck_rows s') = update_rows (check_in_open input) ?f (db_registrations ?d)"
    "db_audit (ck_rows s') = db_audit ?d @ [a]" "ck_checkIns s' = ck_checkIns s"
    using True run by (auto simp: checkInRegistrationTx_def Let_def a_def)
  have dist: "distinct (map rg_id (db_registrations ?d))" and all: "list_all (row_ledger (db_audit ?d)) (db_registrations ?d)"
    using led by (simp_all add: ledger_def)
  from True obtain r0 where r0: "r0 \<in> set (db_registrations ?d)" "check_in_open input r0" by (auto simp: list_ex_iff)
  have other: "rg_id r \<noteq> wi_registrationId input" if "r \<in> set (db_registrations ?d)" "\<not> check_in_open input r" for r
    using that r0 dist by (metis check_in_open_def distinct_map inj_onD)
  have "list_all (row_ledger (db_audit ?d @ [a])) (update_rows (check_in_open input) ?f (db_registrations ?d))"
  proof (rule list_all_update[OF all])
    fix r assume "r \<in> set (db_registrations ?d)" "check_in_open input r" "row_ledger (db_audit ?d) r"
    then show "row_ledger (db_audit ?d @ [a]) (?f r)"
      using a by (simp add: row_ledger_def check_in_open_def)
  next
    fix r assume "r \<in> set (db_registrations ?d)" "\<not> check_in_open input r" "row_ledger (db_audit ?d) r"
    moreover from this other have "wi_registrationId input \<noteq> rg_id r" by metis
    ultimately show "row_ledger (db_audit ?d @ [a]) r" using a by (simp add: row_ledger_def)
  qed
  then show ?thesis using led dist by (simp add: ledger_def s' keys_update_rows)
qed

lemma createAccessCheckIn_ledger:
  assumes run: "createAccessCheckInTx input k s = Inr (res, s')" and led: "ledger s"
  shows "ledger s'"
proof (cases "getAccessCheckIn s (wi_registrationId input) k")
  case (Some c)
  then have "s' = s" using run by (simp add: createAccessCheckInTx_def)
  with led show ?thesis by simp
next
  case None
  from run None obtain i ids where ids: "db_ids (ck_rows s) = i # ids"
    by (auto simp: createAccessCheckInTx_def split: list.splits)
  define a where "a = check_in_audit ''AccessCheckIn'' i ''CHECK_IN'' [Changed ''accessId'' Av_null (Av_text k),
    Changed ''checkedInAt'' Av_null (Av_date (wi_checkedInAt input))] (wi_checkedInBy input)"
  have a: "au_entityType a = ''AccessCheckIn''" by (simp add: a_def check_in_audit_def)
  have s': "db_registrations (ck_rows s') = db_registrations (ck_rows s)" "db_audit (ck_rows s') = db_audit (ck_rows s) @ [a]"
    "ck_checkIns s' = ck_checkIns s @ [\<lparr>aci_id = i, aci_registrationId = wi_registrationId input,
       aci_accessId = k, aci_checkedInAt = wi_checkedInAt input, aci_checkedInBy = wi_checkedInBy input\<rparr>]"
    using run None ids by (auto simp: createAccessCheckInTx_def a_def elim!: sbind_InrE)
  have "(wi_registrationId input, k) \<notin> pair_of ` set (ck_checkIns s)"
    using None by (auto simp: getAccessCheckIn_def find_None_iff pair_of_def)
  then show ?thesis
    by (intro ledger_tables[OF _ _ _ led]) (use s' a led in \<open>simp_all add: ledger_def pair_of_def\<close>)
qed

lemma checkInItem_ledger: "checkInItemTx item s = Inr (res, s') \<Longrightarrow> ledger s \<Longrightarrow> ledger s'"
  by (auto simp: checkInItemTx_def intro: checkInRegistration_ledger createAccessCheckIn_ledger split: option.splits)

lemma undo_ledger:
  assumes run: "undoCheckIn input s = (out, s')" and led: "ledger s"
  shows "ledger s'"
proof (cases "out = Undone")
  case False
  then have "s' = s" using run by (auto simp: undoCheckIn_def Let_def split: option.splits if_splits)
  with led show ?thesis by simp
next
  case True
  with run obtain reg t where reg: "find (\<lambda>r. rg_id r = uc_registrationId input \<and> rg_eventId r = uc_eventId input)
      (db_registrations (ck_rows s)) = Some reg"
    and cur: "(if uc_accessId input \<noteq> None then map_option aci_checkedInAt
        (case uc_accessId input of None \<Rightarrow> None | Some a \<Rightarrow> getAccessCheckIn s (rg_id reg) a) else rg_checkedInAt reg) = Some t"
    by (auto simp: undoCheckIn_def Let_def split: option.splits)
  let ?d = "ck_rows s"
  have mem: "reg \<in> set (db_registrations ?d)" using find_SomeD[OF reg] by simp
  have dist: "distinct (map rg_id (db_registrations ?d))" and all: "list_all (row_ledger (db_audit ?d)) (db_registrations ?d)"
    using led by (simp_all add: ledger_def)
  show ?thesis
  proof (cases "uc_accessId input")
    case (Some k)
    with cur obtain c where c: "getAccessCheckIn s (rg_id reg) k = Some c" by (auto split: option.splits)
    define a where "a = check_in_audit ''AccessCheckIn'' (aci_id c) ''UNDO_CHECK_IN''
      (undo_changes (aci_checkedInAt c) (uc_accessId input)) (uc_actorId input)"
    have "au_entityType a = ''AccessCheckIn''" by (simp add: a_def check_in_audit_def)
    moreover have "db_registrations (ck_rows s') = db_registrations ?d" "db_audit (ck_rows s') = db_audit ?d @ [a]"
      "ck_checkIns s' = filter (\<lambda>x. aci_id x \<noteq> aci_id c) (ck_checkIns s)"
      using run reg Some True c by (auto simp: undoCheckIn_def Let_def a_def split: if_splits)
    ultimately show ?thesis
      by (intro ledger_tables[OF _ _ _ led]) (use led in \<open>simp_all add: ledger_def distinct_map_filter\<close>)
  next
    case None
    let ?f = "\<lambda>r. r\<lparr>rg_checkedInAt := None, rg_checkedInBy := None, rg_updatedAt := db_clock ?d\<rparr>"
    from None cur have t: "rg_checkedInAt reg = Some t" by simp
    define a where "a = check_in_audit ''Registration'' (rg_id reg) ''UNDO_CHECK_IN''
      (undo_changes t (uc_accessId input)) (uc_actorId input)"
    have a: "au_entityType a = ''Registration''" "au_entityId a = rg_id reg" "au_action a = ''UNDO_CHECK_IN''"
      by (simp_all add: a_def check_in_audit_def)
    have s': "db_registrations (ck_rows s') = update_rows (\<lambda>r. rg_id r = rg_id reg) ?f (db_registrations ?d)"
      "db_audit (ck_rows s') = db_audit ?d @ [a]" "ck_checkIns s' = ck_checkIns s"
      using run reg None True t by (auto simp: undoCheckIn_def Let_def a_def split: if_splits)
    have "list_all (row_ledger (db_audit ?d @ [a])) (update_rows (\<lambda>r. rg_id r = rg_id reg) ?f (db_registrations ?d))"
    proof (rule list_all_update[OF all])
      fix r assume "r \<in> set (db_registrations ?d)" "rg_id r = rg_id reg" and l: "row_ledger (db_audit ?d) r"
      then have "r = reg" using mem dist by (auto simp: distinct_map dest: inj_onD)
      then show "row_ledger (db_audit ?d @ [a]) (?f r)"
        using l a t by (simp add: row_ledger_def)
    next
      fix r assume "r \<in> set (db_registrations ?d)" "rg_id r \<noteq> rg_id reg" "row_ledger (db_audit ?d) r"
      then show "row_ledger (db_audit ?d @ [a]) r" using a by (simp add: row_ledger_def)
    qed
    then show ?thesis using led dist by (simp add: ledger_def s' keys_update_rows)
  qed
qed


section \<open>Other transactions, and the batch\<close>

text \<open>
  What the rest of the system does to these tables: it changes other columns, adds registrations that nobody scanned,
  deletes registrations with their check-ins, and writes other entries of the log.
\<close>

definition quiet :: "checkin_db \<Rightarrow> checkin_db \<Rightarrow> bool" where
  "quiet s t \<longleftrightarrow> distinct (map rg_id (db_registrations (ck_rows t)))
     \<and> list_all (\<lambda>r. (\<exists>r0 \<in> set (db_registrations (ck_rows s)). rg_id r0 = rg_id r \<and> rg_checkedInAt r0 = rg_checkedInAt r)
         \<or> rg_checkedInAt r = None \<and> rg_id r \<notin> au_entityId ` set (db_audit (ck_rows s))) (db_registrations (ck_rows t))
     \<and> (\<exists>rest. db_audit (ck_rows t) = db_audit (ck_rows s) @ rest
         \<and> list_all (\<lambda>a. au_action a \<noteq> ''CHECK_IN'' \<and> au_action a \<noteq> ''UNDO_CHECK_IN'') rest)
     \<and> (\<exists>p. ck_checkIns t = filter p (ck_checkIns s))"

lemma entries_none: "list_all (\<lambda>a. au_action a \<noteq> action) rest \<Longrightarrow> entries k action i rest = 0"
  by (induction rest) (simp_all add: entries_def)

lemma entries_fresh: "i \<notin> au_entityId ` set xs \<Longrightarrow> entries k action i xs = 0"
  by (auto simp: entries_def filter_empty_conv)

lemma quiet_ledger:
  assumes q: "quiet s t" and led: "ledger s"
  shows "ledger t"
proof -
  obtain rest where rest: "db_audit (ck_rows t) = db_audit (ck_rows s) @ rest"
    "list_all (\<lambda>a. au_action a \<noteq> ''CHECK_IN'' \<and> au_action a \<noteq> ''UNDO_CHECK_IN'') rest"
    using q by (auto simp: quiet_def)
  then have none: "entries k ''CHECK_IN'' i rest = 0" "entries k ''UNDO_CHECK_IN'' i rest = 0" for k i
    by (auto intro!: entries_none simp: list_all_iff)
  have "row_ledger (db_audit (ck_rows t)) r" if "r \<in> set (db_registrations (ck_rows t))" for r
  proof -
    from q that consider (old) r0 where "r0 \<in> set (db_registrations (ck_rows s))" "rg_id r0 = rg_id r" "rg_checkedInAt r0 = rg_checkedInAt r"
      | (new) "rg_checkedInAt r = None" "rg_id r \<notin> au_entityId ` set (db_audit (ck_rows s))"
      by (auto simp: quiet_def list_all_iff)
    then show ?thesis
    proof cases
      case old
      with led have "row_ledger (db_audit (ck_rows s)) r0" by (simp add: ledger_def list_all_iff)
      with old rest(1) none show ?thesis by (simp add: row_ledger_def)
    next
      case new
      with rest(1) none show ?thesis by (simp add: row_ledger_def entries_fresh)
    qed
  qed
  moreover have "distinct (map pair_of (ck_checkIns t))" using q led by (auto simp: quiet_def ledger_def distinct_map_filter)
  ultimately show ?thesis using q by (simp add: ledger_def list_all_iff quiet_def)
qed

lemma batch_txn_ledger: "batch_txn items results s = Inr (res, s') \<Longrightarrow> ledger s \<Longrightarrow> ledger s'"
proof (induction items arbitrary: results s)
  case (Cons x rest)
  obtain item n where x: "x = (item, n)" by (cases x)
  from Cons.prems(1) obtain r t where "checkInItemTx item s = Inr (r, t)"
    and rest: "batch_txn rest (results[n := Written r]) t = Inr (res, s')"
    by (auto simp: x elim!: sbind_InrE)
  then show ?case using Cons.IH[OF rest] checkInItem_ledger Cons.prems(2) by blast
qed simp

lemma batch_singly_ledger:
  assumes "\<And>k t. ledger t \<Longrightarrow> ledger (others k t)"
  shows "batch_singly others items results s = (res, s') \<Longrightarrow> ledger s \<Longrightarrow> ledger s'"
proof (induction items arbitrary: results s)
  case (Cons x rest)
  obtain item n where x: "x = (item, n)" by (cases x)
  have led: "ledger (others n s)" using assms Cons.prems(2) .
  show ?case
  proof (cases "checkInItemTx item (others n s)")
    case (Inl e)
    with Cons.prems(1) Cons.IH[OF _ led] show ?thesis by (simp add: x)
  next
    case (Inr y)
    obtain r t where y: "y = (r, t)" by (cases y)
    with Inr led checkInItem_ledger have "ledger t" by blast
    with Inr y Cons.prems(1) Cons.IH[of "results[n := Written r]" t] show ?thesis by (simp add: x)
  qed
qed simp

lemma batchCheckIn_ledger:
  assumes "\<And>k t. ledger t \<Longrightarrow> ledger (others k t)" and "batchCheckIn others items s = Inr (res, s')" and "ledger s"
  shows "ledger s'"
proof (cases "items = []")
  case True
  with assms(2,3) show ?thesis by (simp add: batchCheckIn_def)
next
  case False
  with assms(2) consider "batch_txn (write_order items) (no_results (length items)) s = Inr (res, s')"
    | "batch_singly others (write_order items) (no_results (length items)) s = (res, s')"
    by (auto simp: batchCheckIn_def split: if_splits sum.splits)
  then show ?thesis
  proof cases
    case 1
    then show ?thesis using assms(3) by (rule batch_txn_ledger)
  next
    case 2
    with assms(1) show ?thesis using assms(3) by (rule batch_singly_ledger)
  qed
qed

text \<open>What others commit around the chunks is quiet.\<close>

definition quiet_views :: "(nat \<Rightarrow> sync_view) \<Rightarrow> bool" where
  "quiet_views views \<longleftrightarrow> (\<forall>n k t. quiet t (sv_others (views n) k t))"

lemma syncChunk_ledger:
  assumes q: "\<And>k t. quiet t (sv_others v k t)" and run: "syncChunk e chunk u v s = Inr (out, s')" and led: "ledger s"
  shows "ledger s'"
proof -
  from run obtain results where b: "batchCheckIn (sv_others v \<circ> Suc) (map fst (scan_writes u v chunk (scan_outcomes e v chunk)))
      (sv_others v 0 s) = Inr (results, s')"
    by (auto simp: syncChunk_def Let_def elim!: sbind_InrE)
  show ?thesis
    by (rule batchCheckIn_ledger[OF _ b]) (use q quiet_ledger led in \<open>auto simp: comp_def\<close>)
qed

lemma sync_chunks_ledger:
  assumes "quiet_views views"
  shows "sync_chunks e u views n chunks s = (out, s') \<Longrightarrow> ledger s \<Longrightarrow> ledger s'"
proof (induction chunks arbitrary: n s out)
  case (Cons chunk chunks)
  have q: "\<And>k t. quiet t (sv_others (views n) k t)" using assms by (simp add: quiet_views_def)
  show ?case
  proof (cases "syncChunk e chunk u (views n) s")
    case (Inl err)
    with Cons show ?thesis by (auto split: prod.splits)
  next
    case (Inr x)
    obtain o1 t where x: "x = (o1, t)" by (cases x)
    have "ledger t" by (rule syncChunk_ledger[OF q Inr[unfolded x] Cons.prems(2)])
    with Inr x Cons show ?thesis by (auto split: prod.splits)
  qed
qed simp

section \<open>Steps\<close>

text \<open>Reads may have seen any state; every write is a transaction of its own.\<close>

inductive scan_step :: "checkin_db \<Rightarrow> checkin_db \<Rightarrow> bool" where
  sc_check_in: "checkIn e i accessId u now s0 s1 s = Inr (ans, s') \<Longrightarrow> scan_step s s'"
| sc_undo: "undo_check_in input s = Inr (out, s') \<Longrightarrow> scan_step s s'"
| sc_batch: "batchSync e scans u views s = (answer, s') \<Longrightarrow> quiet_views views \<Longrightarrow> scan_step s s'"
| sc_other: "quiet s s' \<Longrightarrow> scan_step s s'"

inductive_cases scan_stepE: "scan_step s s'"

lemma checkIn_cases:
  assumes "checkIn e i accessId u now s0 s1 s = Inr (ans, s')"
  obtains (seen) "s' = s" "an_alreadyCheckedIn ans"
  | (wrote) k r where "assertCheckInAllowed (getRegistrationForCheckIn s0 i) e accessId = Inr k"
      "case accessId of None \<Rightarrow> True | Some a \<Rightarrow> isNetworkingAccessAllowed s1 e i a"
      "checkInItemTx (write_of k accessId u now) s = Inr (r, s')"
      "case r of Checked_in t \<Rightarrow> \<not> an_alreadyCheckedIn ans \<and> an_checkedInAt ans = t
        | Already_checked_in t \<Rightarrow> an_alreadyCheckedIn ans \<and> an_checkedInAt ans = t | Not_eligible \<Rightarrow> False"
proof -
  from assms obtain k where k: "assertCheckInAllowed (getRegistrationForCheckIn s0 i) e accessId = Inr k"
    and adm: "case accessId of None \<Rightarrow> True | Some a \<Rightarrow> isNetworkingAccessAllowed s1 e i a"
    and rest: "(case (if accessId = None then rg_checkedInAt (kr_row k) else None) of
       Some t \<Rightarrow> Inr (\<lparr>an_alreadyCheckedIn = True, an_checkedInAt = t, an_registration = kr_row k\<rparr>, s)
     | None \<Rightarrow>
        sbind (checkInItemTx (write_of k accessId u now) s) (\<lambda>(result, s').
        case result of
          Not_eligible \<Rightarrow> Inl paymentRequired
        | Already_checked_in t \<Rightarrow> Inr (\<lparr>an_alreadyCheckedIn = True, an_checkedInAt = t, an_registration = kr_row k\<rparr>, s')
        | Checked_in t \<Rightarrow> Inr (\<lparr>an_alreadyCheckedIn = False, an_checkedInAt = t, an_registration = kr_row k\<rparr>, s'))) = Inr (ans, s')"
    unfolding checkIn_def by (auto elim!: sbind_InrE)
  show ?thesis
  proof (cases "if accessId = None then rg_checkedInAt (kr_row k) else None")
    case (Some t)
    with rest seen show ?thesis by auto
  next
    case None
    with rest obtain r where w: "checkInItemTx (write_of k accessId u now) s = Inr (r, s')"
      and r: "case r of Checked_in t \<Rightarrow> \<not> an_alreadyCheckedIn ans \<and> an_checkedInAt ans = t
        | Already_checked_in t \<Rightarrow> an_alreadyCheckedIn ans \<and> an_checkedInAt ans = t | Not_eligible \<Rightarrow> False"
      by (auto elim!: sbind_InrE split: check_in_result.splits)
    from wrote[OF k adm w r] show ?thesis .
  qed
qed

lemma checkIn_ledger:
  assumes "checkIn e i accessId u now s0 s1 s = Inr (ans, s')" and "ledger s"
  shows "ledger s'"
  using assms(1) by (cases rule: checkIn_cases) (use assms(2) checkInItem_ledger in blast)+

lemma scan_step_ledger: "scan_step s s' \<Longrightarrow> ledger s \<Longrightarrow> ledger s'"
proof (induction rule: scan_step.induct)
  case (sc_undo input s out s')
  then show ?case by (auto simp: undo_check_in_def split: prod.splits undo_result.splits intro: undo_ledger)
next
  case (sc_batch e scans u views s answer s')
  then show ?case by (auto simp: batchSync_def split: prod.splits intro: sync_chunks_ledger)
qed (auto intro: checkIn_ledger quiet_ledger)

lemma reachable_ledger: "scan_step\<^sup>*\<^sup>* s0 s \<Longrightarrow> ledger s0 \<Longrightarrow> ledger s"
  by (induction rule: rtranclp_induct) (auto intro: scan_step_ledger)


section \<open>One scan and its undo\<close>

text \<open>What a check-in stores at: the row of a registration, or the check-in of a pair.\<close>

definition checked_in_at :: "checkin_db \<Rightarrow> string \<Rightarrow> string option \<Rightarrow> date option" where
  "checked_in_at s i accessId =
     (case accessId of
        None \<Rightarrow> (case registration_of (ck_rows s) i of None \<Rightarrow> None | Some r \<Rightarrow> rg_checkedInAt r)
      | Some a \<Rightarrow> map_option aci_checkedInAt (getAccessCheckIn s i a))"

definition ids_ok :: "checkin_db \<Rightarrow> bool" where
  "ids_ok s \<longleftrightarrow> distinct (map rg_id (db_registrations (ck_rows s)))
     \<and> distinct (map aci_id (ck_checkIns s) @ db_ids (ck_rows s)) \<and> distinct (map pair_of (ck_checkIns s))"

lemma find_unique: "r \<in> set t \<Longrightarrow> Q r \<Longrightarrow> (\<And>x. x \<in> set t \<Longrightarrow> Q x \<Longrightarrow> x = r) \<Longrightarrow> find Q t = Some r"
proof (induction t)
  case (Cons a t)
  show ?case
  proof (cases "Q a")
    case True
    then show ?thesis using Cons.prems(3)[of a] by simp
  next
    case False
    with Cons.prems(1,2) have "r \<in> set t" by auto
    then have "find Q t = Some r" by (rule Cons.IH[OF _ Cons.prems(2) Cons.prems(3)[OF list.set_intros(2)]])
    with False show ?thesis by simp
  qed
qed simp

lemma row_unique: "distinct (map rg_id t) \<Longrightarrow> r \<in> set t \<Longrightarrow> x \<in> set t \<Longrightarrow> rg_id x = rg_id r \<Longrightarrow> x = r"
  by (auto simp: distinct_map dest: inj_onD)

lemma checkInRegistration_Inr:
  assumes ok: "ids_ok s" and run: "checkInRegistrationTx w s = Inr (Checked_in t, s')"
  obtains r where "registration_of (ck_rows s) (wi_registrationId w) = Some r" "check_in_open w r"
    "t = wi_checkedInAt w" "ck_checkIns s' = ck_checkIns s" "ck_tables s' = (ck_tables s)\<lparr>ad_settle := ck_rows s'\<rparr>"
    "db_registrations (ck_rows s') = update_rows (\<lambda>x. rg_id x = wi_registrationId w)
      (\<lambda>x. x\<lparr>rg_checkedInAt := Some t, rg_checkedInBy := Some (wi_checkedInBy w), rg_updatedAt := db_clock (ck_rows s)\<rparr>)
      (db_registrations (ck_rows s))"
proof -
  let ?d = "ck_rows s"
  have hit: "list_ex (check_in_open w) (db_registrations ?d)" and t: "t = wi_checkedInAt w"
    using run by (auto simp: checkInRegistrationTx_def Let_def split: if_splits option.splits)
  then obtain r where r: "r \<in> set (db_registrations ?d)" "check_in_open w r" by (auto simp: list_ex_iff)
  have dist: "distinct (map rg_id (db_registrations ?d))" using ok by (simp add: ids_ok_def)
  have row: "registration_of ?d (wi_registrationId w) = Some r"
    using row_of_distinct[OF dist r(1)] r(2) by (simp add: registration_of_def check_in_open_def)
  have same: "check_in_open w x = (rg_id x = wi_registrationId w)" if "x \<in> set (db_registrations ?d)" for x
    using row_unique[OF dist r(1) that] r(2) by (auto simp: check_in_open_def)
  let ?f = "\<lambda>x. x\<lparr>rg_checkedInAt := Some t, rg_checkedInBy := Some (wi_checkedInBy w), rg_updatedAt := db_clock ?d\<rparr>"
  have u: "update_rows (check_in_open w) ?f (db_registrations ?d) = update_rows (\<lambda>x. rg_id x = wi_registrationId w) ?f (db_registrations ?d)"
    using same by (simp add: update_rows_def)
  show ?thesis
    by (rule that[OF row r(2) t]) (use run hit t u in \<open>auto simp: checkInRegistrationTx_def Let_def on_rows_def\<close>)
qed


lemma createAccessCheckIn_Inr:
  assumes ok: "ids_ok s" and run: "createAccessCheckInTx w k s = Inr (Checked_in t, s')"
  obtains i ids where "db_ids (ck_rows s) = i # ids" "getAccessCheckIn s (wi_registrationId w) k = None"
    "t = wi_checkedInAt w" "db_registrations (ck_rows s') = db_registrations (ck_rows s)"
    "ck_tables s' = (ck_tables s)\<lparr>ad_settle := ck_rows s'\<rparr>"
    "ck_checkIns s' = ck_checkIns s @ [\<lparr>aci_id = i, aci_registrationId = wi_registrationId w,
       aci_accessId = k, aci_checkedInAt = t, aci_checkedInBy = wi_checkedInBy w\<rparr>]"
    "i \<notin> aci_id ` set (ck_checkIns s)"
proof -
  have none: "getAccessCheckIn s (wi_registrationId w) k = None"
    using run by (auto simp: createAccessCheckInTx_def split: option.splits)
  with run obtain i ids where ids: "db_ids (ck_rows s) = i # ids"
    by (auto simp: createAccessCheckInTx_def split: list.splits)
  have fresh: "i \<notin> aci_id ` set (ck_checkIns s)" using ok ids by (auto simp: ids_ok_def)
  show ?thesis
    by (rule that[OF ids none]) (use run none ids fresh in \<open>auto simp: createAccessCheckInTx_def on_rows_def elim!: sbind_InrE\<close>)
qed

text \<open>The undo of a registration's scan and of a scan at an access item.\<close>

lemma undo_registration:
  assumes find: "find (\<lambda>r. rg_id r = uc_registrationId input \<and> rg_eventId r = uc_eventId input) (db_registrations (ck_rows s)) = Some reg"
    and none: "uc_accessId input = None" and t: "rg_checkedInAt reg = Some t"
    and exp: "uc_expectedCheckedInAt input = None \<or> uc_expectedCheckedInAt input = Some t"
  obtains s' where "undoCheckIn input s = (Undone, s')" "ck_checkIns s' = ck_checkIns s"
    "db_registrations (ck_rows s') = update_rows (\<lambda>r. rg_id r = rg_id reg)
      (\<lambda>r. r\<lparr>rg_checkedInAt := None, rg_checkedInBy := None, rg_updatedAt := db_clock (ck_rows s)\<rparr>) (db_registrations (ck_rows s))"
proof -
  obtain s' where run: "undoCheckIn input s = (Undone, s')"
    using assms by (auto simp: undoCheckIn_def)
  show ?thesis by (rule that[OF run]) (use run assms in \<open>auto simp: undoCheckIn_def Let_def\<close>)
qed

lemma undo_access:
  assumes find: "find (\<lambda>r. rg_id r = uc_registrationId input \<and> rg_eventId r = uc_eventId input) (db_registrations (ck_rows s)) = Some reg"
    and k: "uc_accessId input = Some k" and c: "getAccessCheckIn s (rg_id reg) k = Some c"
    and exp: "uc_expectedCheckedInAt input = None \<or> uc_expectedCheckedInAt input = Some (aci_checkedInAt c)"
  obtains s' where "undoCheckIn input s = (Undone, s')" "ck_checkIns s' = filter (\<lambda>x. aci_id x \<noteq> aci_id c) (ck_checkIns s)"
    "db_registrations (ck_rows s') = db_registrations (ck_rows s)"
proof -
  obtain s' where run: "undoCheckIn input s = (Undone, s')"
    using assms by (auto simp: undoCheckIn_def)
  show ?thesis by (rule that[OF run]) (use run assms in \<open>auto simp: undoCheckIn_def Let_def\<close>)
qed

definition undo_of :: "check_in_write \<Rightarrow> string \<Rightarrow> date option \<Rightarrow> undo_input" where
  "undo_of w who expected = \<lparr>uc_eventId = wi_eventId w, uc_registrationId = wi_registrationId w, uc_accessId = wi_accessId w,
     uc_actorId = who, uc_expectedCheckedInAt = expected\<rparr>"

lemma checked_in_after:
  assumes ok: "ids_ok s" and run: "checkInItemTx w s = Inr (Checked_in t, s1)"
    and reg: "registration_of (ck_rows s) (wi_registrationId w) = Some r" "rg_eventId r = wi_eventId w"
    and exp: "expected = None \<or> expected = Some t"
  shows "\<exists>s2. undoCheckIn (undo_of w who expected) s1 = (Undone, s2) \<and> checked_in_at s2 = checked_in_at s"
proof -
  have dist: "distinct (map rg_id (db_registrations (ck_rows s)))" using ok by (simp add: ids_ok_def)
  have mem: "r \<in> set (db_registrations (ck_rows s))" and idr: "rg_id r = wi_registrationId w"
    using reg(1) by (auto simp: registration_of_def row_of_def dest: find_SomeD)
  show ?thesis
  proof (cases "wi_accessId w")
    case None
    then have "checkInRegistrationTx w s = Inr (Checked_in t, s1)" using run by (simp add: checkInItemTx_def)
    then obtain r0 where r0: "registration_of (ck_rows s) (wi_registrationId w) = Some r0" "check_in_open w r0"
      and c1: "ck_checkIns s1 = ck_checkIns s"
      and rows: "db_registrations (ck_rows s1) = update_rows (\<lambda>x. rg_id x = wi_registrationId w)
        (\<lambda>x. x\<lparr>rg_checkedInAt := Some t, rg_checkedInBy := Some (wi_checkedInBy w), rg_updatedAt := db_clock (ck_rows s)\<rparr>)
        (db_registrations (ck_rows s))"
      by (rule checkInRegistration_Inr[OF ok]) blast
    let ?f = "\<lambda>x. x\<lparr>rg_checkedInAt := Some t, rg_checkedInBy := Some (wi_checkedInBy w), rg_updatedAt := db_clock (ck_rows s)\<rparr>"
    have fs: "find (\<lambda>r. rg_id r = uc_registrationId (undo_of w who expected) \<and> rg_eventId r = uc_eventId (undo_of w who expected))
        (db_registrations (ck_rows s1)) = Some (?f r)"
    proof (rule find_unique)
      show "?f r \<in> set (db_registrations (ck_rows s1))" using mem idr by (force simp: rows set_update_rows)
      fix x assume "x \<in> set (db_registrations (ck_rows s1))"
        "rg_id x = uc_registrationId (undo_of w who expected) \<and> rg_eventId x = uc_eventId (undo_of w who expected)"
      then show "x = ?f r" using row_unique[OF dist mem] idr by (auto simp: rows set_update_rows undo_of_def)
    qed (simp add: undo_of_def idr reg(2))
    obtain s2 where u: "undoCheckIn (undo_of w who expected) s1 = (Undone, s2)" "ck_checkIns s2 = ck_checkIns s1"
      and rows2: "db_registrations (ck_rows s2) = update_rows (\<lambda>x. rg_id x = rg_id (?f r))
        (\<lambda>x. x\<lparr>rg_checkedInAt := None, rg_checkedInBy := None, rg_updatedAt := db_clock (ck_rows s1)\<rparr>) (db_registrations (ck_rows s1))"
      by (rule undo_registration[OF fs, of t]) (use None exp in \<open>simp_all add: undo_of_def\<close>)
    have "checked_in_at s2 i a = checked_in_at s i a" for i a
    proof (cases a)
      case None
      have "registration_of (ck_rows s2) i = map_option
          (\<lambda>x. if i = wi_registrationId w then (?f x)\<lparr>rg_checkedInAt := None, rg_checkedInBy := None,
            rg_updatedAt := db_clock (ck_rows s1)\<rparr> else x) (registration_of (ck_rows s) i)"
        by (simp add: registration_of_def rows2 rows row_of_update_key idr option.map_comp comp_def option.map_id[unfolded id_def])
      then show ?thesis using r0 None by (auto simp: checked_in_at_def check_in_open_def split: option.split)
    next
      case (Some k)
      then show ?thesis using u c1 by (simp add: checked_in_at_def getAccessCheckIn_def)
    qed
    with u(1) show ?thesis by blast
  next
    case (Some k)
    then have "createAccessCheckInTx w k s = Inr (Checked_in t, s1)" using run by (simp add: checkInItemTx_def)
    then obtain i where none: "getAccessCheckIn s (wi_registrationId w) k = None"
      and rows: "db_registrations (ck_rows s1) = db_registrations (ck_rows s)"
      and c1: "ck_checkIns s1 = ck_checkIns s @ [\<lparr>aci_id = i, aci_registrationId = wi_registrationId w,
        aci_accessId = k, aci_checkedInAt = t, aci_checkedInBy = wi_checkedInBy w\<rparr>]"
      and fresh: "i \<notin> aci_id ` set (ck_checkIns s)"
      by (rule createAccessCheckIn_Inr[OF ok]) blast
    let ?c = "\<lparr>aci_id = i, aci_registrationId = wi_registrationId w,
        aci_accessId = k, aci_checkedInAt = t, aci_checkedInBy = wi_checkedInBy w\<rparr>"
    have fs: "find (\<lambda>r. rg_id r = uc_registrationId (undo_of w who expected) \<and> rg_eventId r = uc_eventId (undo_of w who expected))
        (db_registrations (ck_rows s1)) = Some r"
    proof (rule find_unique)
      fix x assume "x \<in> set (db_registrations (ck_rows s1))"
        "rg_id x = uc_registrationId (undo_of w who expected) \<and> rg_eventId x = uc_eventId (undo_of w who expected)"
      then show "x = r" by (intro row_unique[OF dist mem]) (simp_all add: rows idr undo_of_def)
    qed (simp_all add: undo_of_def idr reg(2) mem rows)
    have c: "getAccessCheckIn s1 (rg_id r) k = Some ?c"
      unfolding getAccessCheckIn_def c1 idr
      by (rule find_in_last) (use none in \<open>auto simp: getAccessCheckIn_def find_None_iff\<close>)
    obtain s2 where u: "undoCheckIn (undo_of w who expected) s1 = (Undone, s2)"
      "ck_checkIns s2 = filter (\<lambda>x. aci_id x \<noteq> aci_id ?c) (ck_checkIns s1)"
      "db_registrations (ck_rows s2) = db_registrations (ck_rows s1)"
      by (rule undo_access[OF fs _ c]) (use Some exp in \<open>simp_all add: undo_of_def\<close>)
    have "ck_checkIns s2 = ck_checkIns s" using u(2) fresh by (auto simp: c1 filter_id_conv)
    then have "checked_in_at s2 = checked_in_at s" using u(3) rows
      by (intro ext) (simp add: checked_in_at_def getAccessCheckIn_def registration_of_def split: option.split)
    with u(1) show ?thesis by blast
  qed
qed


lemma write_keeps_ids:
  assumes "ids_ok s" and "checkInItemTx w s = Inr (Checked_in t, s')"
  shows "distinct (map rg_id (db_registrations (ck_rows s')))"
proof (cases "wi_accessId w")
  case None
  then have "checkInRegistrationTx w s = Inr (Checked_in t, s')" using assms(2) by (simp add: checkInItemTx_def)
  then show ?thesis
    by (rule checkInRegistration_Inr[OF assms(1)]) (use assms(1) in \<open>simp add: ids_ok_def keys_update_rows\<close>)
next
  case (Some k)
  then have "createAccessCheckInTx w k s = Inr (Checked_in t, s')" using assms(2) by (simp add: checkInItemTx_def)
  then show ?thesis by (rule createAccessCheckIn_Inr[OF assms(1)]) (use assms(1) in \<open>simp add: ids_ok_def\<close>)
qed

lemma undo_refused:
  assumes "undoCheckIn (undo_of w who expected) s = (Undone, s')" and "checked_in_at s (wi_registrationId w) (wi_accessId w) = Some t"
    and ids: "distinct (map rg_id (db_registrations (ck_rows s)))"
  shows "expected = None \<or> expected = Some t"
proof -
  obtain reg where reg: "find (\<lambda>r. rg_id r = wi_registrationId w \<and> rg_eventId r = wi_eventId w) (db_registrations (ck_rows s)) = Some reg"
    using assms(1) by (auto simp: undoCheckIn_def undo_of_def split: option.splits)
  then have mem: "reg \<in> set (db_registrations (ck_rows s))" and i: "rg_id reg = wi_registrationId w" by (auto dest: find_SomeD)
  have row: "registration_of (ck_rows s) (wi_registrationId w) = Some reg"
    using row_of_distinct[OF ids mem] by (simp add: registration_of_def i)
  show ?thesis
    using assms(1,2) reg row find_SomeD[OF reg]
    by (auto simp: undoCheckIn_def undo_of_def Let_def checked_in_at_def split: option.splits if_splits)
qed

section \<open>A batch and its scans\<close>

lemma singly_agrees:
  "batch_txn items results s = Inr x \<Longrightarrow> batch_singly (\<lambda>_ t. t) items results s = x"
proof (induction items arbitrary: results s)
  case (Cons y rest)
  obtain item n where y: "y = (item, n)" by (cases y)
  from Cons.prems obtain r t where "checkInItemTx item s = Inr (r, t)" "batch_txn rest (results[n := Written r]) t = Inr x"
    by (auto simp: y elim!: sbind_InrE)
  with Cons.IH show ?case by (simp add: y)
qed simp

lemma batch_is_singly:
  assumes "length items \<le> CHECK_IN_BATCH_TX_SIZE"
  shows "batchCheckIn (\<lambda>_ t. t) items s = Inr (batch_singly (\<lambda>_ t. t) (write_order items) (no_results (length items)) s)"
proof (cases "items = []")
  case True
  then show ?thesis by (simp add: batchCheckIn_def write_order_def no_results_def)
next
  case False
  then show ?thesis using assms singly_agrees[of "write_order items" "no_results (length items)" s]
    by (cases "batch_txn (write_order items) (no_results (length items)) s") (auto simp: batchCheckIn_def)
qed

text \<open>What a scan does alone, and what it answers.\<close>

definition scan_turn :: "check_in_write \<Rightarrow> checkin_db \<Rightarrow> checkin_db" where
  "scan_turn w s = (case checkInItemTx w s of Inl err \<Rightarrow> s | Inr (r, s') \<Rightarrow> s')"

definition scan_answer :: "check_in_write \<Rightarrow> checkin_db \<Rightarrow> batch_result" where
  "scan_answer w s = (case checkInItemTx w s of Inl err \<Rightarrow> Write_failed err | Inr (r, s') \<Rightarrow> Written r)"

text \<open>Whose turn comes first: by registration, then by access item, then by place in the request.\<close>

definition scan_place :: "check_in_write \<Rightarrow> string" where
  "scan_place w = (case wi_accessId w of None \<Rightarrow> [] | Some a \<Rightarrow> a)"

definition turn_before :: "check_in_write list \<Rightarrow> nat \<Rightarrow> nat \<Rightarrow> bool" where
  "turn_before items i j \<longleftrightarrow>
     wi_registrationId (items ! i) < wi_registrationId (items ! j)
   \<or> wi_registrationId (items ! i) = wi_registrationId (items ! j)
     \<and> (scan_place (items ! i) < scan_place (items ! j) \<or> scan_place (items ! i) = scan_place (items ! j) \<and> i < j)"

text \<open>A stable sort refines the order it is given.\<close>

lemma sorted_classes:
  assumes "\<And>k. sorted_wrt R (filter (\<lambda>y. f y = k) ys)" and "sorted (map f ys)"
  shows "sorted_wrt (\<lambda>x y. f x < f y \<or> f x = f y \<and> R x y) ys"
  using assms
proof (induction ys)
  case (Cons y ys)
  have R: "R y z" if "z \<in> set ys" "f z = f y" for z
    using Cons.prems(1)[of "f y"] that by simp
  have "sorted_wrt R (filter (\<lambda>y. f y = k) ys)" for k
    using Cons.prems(1)[of k] by (cases "f y = k") simp_all
  with Cons R show ?case by (auto simp: order.order_iff_strict)
qed simp

lemma sort_key_refines:
  assumes "sorted_wrt R xs"
  shows "sorted_wrt (\<lambda>x y. f x < f y \<or> f x = f y \<and> R x y) (sort_key f xs)"
  by (rule sorted_classes) (simp_all add: sort_key_stable sorted_wrt_filter[OF assms])

lemma write_order_items: "(w, i) \<in> set (write_order items) \<Longrightarrow> i < length items \<and> w = items ! i"
  by (auto simp: write_order_def set_zip)

lemma mset_write_order: "mset (map snd (write_order items)) = mset [0..<length items]"
  unfolding mset_map write_order_def mset_sort by (simp flip: mset_map)

lemma write_order_sorted: "sorted_wrt (turn_before items) (map snd (write_order items))"
proof -
  have "sorted_wrt (\<lambda>x y. snd x < snd y) (zip items [0..<length items])"
    by (simp add: sorted_wrt_iff_nth_less)
  then have "sorted_wrt (\<lambda>x y. (wi_registrationId (fst x) < wi_registrationId (fst y)
      \<or> wi_registrationId (fst x) = wi_registrationId (fst y)
        \<and> (scan_place (fst x) < scan_place (fst y) \<or> scan_place (fst x) = scan_place (fst y) \<and> snd x < snd y))) (write_order items)"
    unfolding write_order_def case_prod_beta scan_place_def[symmetric] by (intro sort_key_refines)
  moreover have "fst x = items ! snd x" if "x \<in> set (write_order items)" for x
    using write_order_items[of "fst x" "snd x"] that by simp
  ultimately show ?thesis
    unfolding sorted_wrt_map turn_before_def by (auto elim!: sorted_wrt_mono_rel[rotated])
qed

lemma singly_turns:
  assumes "batch_singly (\<lambda>_ t. t) ws results s = (results', s')" and "distinct (map snd ws)"
    and "\<forall>x \<in> set ws. snd x < length results"
  shows "s' = fold (scan_turn \<circ> fst) ws s \<and> length results' = length results \<and>
    (\<forall>i. i \<notin> snd ` set ws \<longrightarrow> results' ! i = results ! i) \<and>
    (\<forall>n < length ws. results' ! snd (ws ! n) = scan_answer (fst (ws ! n)) (fold (scan_turn \<circ> fst) (take n ws) s))"
  using assms
proof (induction ws arbitrary: results s)
  case (Cons x ws)
  let ?r = "results[snd x := scan_answer (fst x) s]" and ?t = "scan_turn (fst x) s"
  have "batch_singly (\<lambda>_ t. t) ws ?r ?t = (results', s')"
    using Cons.prems(1) by (cases x) (auto simp: scan_answer_def scan_turn_def Let_def split: sum.splits prod.splits)
  from Cons.IH[OF this] Cons.prems(2,3)
  have IH: "s' = fold (scan_turn \<circ> fst) ws ?t" "length results' = length results"
    "\<And>i. i \<notin> snd ` set ws \<Longrightarrow> results' ! i = ?r ! i"
    "\<And>n. n < length ws \<Longrightarrow> results' ! snd (ws ! n) = scan_answer (fst (ws ! n)) (fold (scan_turn \<circ> fst) (take n ws) ?t)"
    by (auto simp: comp_def)
  have first: "results' ! snd x = scan_answer (fst x) s" using IH(3)[of "snd x"] Cons.prems(2,3) by simp
  have "results' ! snd ((x # ws) ! n) = scan_answer (fst ((x # ws) ! n)) (fold (scan_turn \<circ> fst) (take n (x # ws)) s)"
    if "n < length (x # ws)" for n
    using that first IH(4) by (cases n) simp_all
  with IH show ?case by (auto simp: nth_list_update_neq comp_def)
qed simp

lemma batch_turns:
  assumes "length items \<le> CHECK_IN_BATCH_TX_SIZE"
  shows "\<exists>order results s'. batchCheckIn (\<lambda>_ t. t) items s = Inr (results, s') \<and>
    mset order = mset [0..<length items] \<and> sorted_wrt (turn_before items) order \<and>
    s' = fold (\<lambda>i. scan_turn (items ! i)) order s \<and> length results = length items \<and>
    (\<forall>n < length items. results ! (order ! n)
      = scan_answer (items ! (order ! n)) (fold (\<lambda>i. scan_turn (items ! i)) (take n order) s))"
proof -
  let ?ws = "write_order items" and ?order = "map snd (write_order items)"
  obtain results s' where run: "batch_singly (\<lambda>_ t. t) ?ws (no_results (length items)) s = (results, s')" by fastforce
  have "distinct ?order" by (metis mset_write_order distinct_upt mset_eq_imp_distinct_iff)
  moreover have "\<forall>x \<in> set ?ws. snd x < length (no_results (length items))"
    using write_order_items by (fastforce simp: no_results_def)
  ultimately have T: "s' = fold (scan_turn \<circ> fst) ?ws s" "length results = length (no_results (length items))"
    "\<And>n. n < length ?ws \<Longrightarrow> results ! snd (?ws ! n) = scan_answer (fst (?ws ! n)) (fold (scan_turn \<circ> fst) (take n ?ws) s)"
    using singly_turns[OF run] by blast+
  have item: "fst x = items ! snd x" if "x \<in> set ?ws" for x
    using write_order_items[of "fst x" "snd x"] that by simp
  have turns: "fold (scan_turn \<circ> fst) xs t = fold (\<lambda>i. scan_turn (items ! i)) (map snd xs) t" if "set xs \<subseteq> set ?ws" for xs t
    unfolding fold_map using that item by (intro fold_cong) auto
  have len: "length ?ws = length items" by (simp add: write_order_def)
  have "results ! (?order ! n) = scan_answer (items ! (?order ! n)) (fold (\<lambda>i. scan_turn (items ! i)) (take n ?order) s)"
    if "n < length items" for n
    using T(3)[of n] that len item[of "?ws ! n"] turns[of "take n ?ws"] by (simp add: take_map set_take_subset)
  moreover have "s' = fold (\<lambda>i. scan_turn (items ! i)) ?order s" using T(1) turns[of ?ws] by simp
  ultimately show ?thesis
    using batch_is_singly[OF assms, of s] run T(2) mset_write_order write_order_sorted
    by (intro exI[of _ ?order] exI[of _ results] exI[of _ s']) (simp add: no_results_def)
qed

lemma put_outcomes_length [simp]: "length (put_outcomes ws rs out) = length out"
  by (induction ws rs out rule: put_outcomes.induct) simp_all

lemma syncChunk_length: "syncChunk e chunk u v s = Inr (out, s') \<Longrightarrow> length out = length chunk"
  by (auto simp: syncChunk_def Let_def scan_outcomes_def elim!: sbind_InrE)

lemma sync_chunks_length: "sync_chunks e u views n chunks s = (out, s') \<Longrightarrow> length out = length (concat chunks)"
proof (induction chunks arbitrary: n s out)
  case (Cons chunk chunks)
  show ?case
  proof (cases "syncChunk e chunk u (views n) s")
    case (Inl err)
    with Cons show ?thesis by (auto split: prod.splits)
  next
    case (Inr x)
    obtain o1 t where x: "x = (o1, t)" by (cases x)
    with Inr syncChunk_length[of e chunk u "views n" s o1 t] Cons show ?thesis by (auto split: prod.splits)
  qed
qed simp

lemma concat_chunks: "0 < n \<Longrightarrow> concat (chunks_of n xs) = xs"
proof (induction n xs rule: chunks_of.induct)
  case (1 n xs)
  then show ?case by (subst chunks_of.simps) auto
qed

lemma errors_count: "length xs = length out \<Longrightarrow>
  length (filter (\<lambda>x. x = Synced) out) + length (filter (\<lambda>x. x = Sync_already) out)
    + length (concat (map (\<lambda>(x, y). case y of Sync_error e \<Rightarrow> [(f x, e)] | _ \<Rightarrow> []) (zip xs out))) = length xs"
proof (induction xs out rule: list_induct2)
  case (Cons x xs y ys)
  then show ?case by (cases y) simp_all
qed simp


text \<open>Every scan of a request is counted once in its answer.\<close>

lemma sync_accounts:
  "batchSync e checkIns u views s = (answer, s') \<Longrightarrow>
    sy_synced answer + sy_alreadyCheckedIn answer + length (sy_errors answer) = length checkIns"
proof -
  assume run: "batchSync e checkIns u views s = (answer, s')"
  obtain out t where c: "sync_chunks e u views 0 (chunks_of CHECK_IN_BATCH_TX_SIZE checkIns) s = (out, t)"
    by (cases "sync_chunks e u views 0 (chunks_of CHECK_IN_BATCH_TX_SIZE checkIns) s")
  have "length checkIns = length out"
    using sync_chunks_length[OF c] by (simp add: concat_chunks CHECK_IN_BATCH_TX_SIZE_def)
  from errors_count[OF this] run c show ?thesis by (auto simp: batchSync_def tally_def)
qed

text \<open>The total of an active item counts every registration that may be scanned there.\<close>

definition counted :: "(string \<times> nat) list \<Rightarrow> string \<Rightarrow> nat" where
  "counted m i = (case map_of m i of None \<Rightarrow> 0 | Some n \<Rightarrow> n)"

lemma count_access_counts:
  "i \<in> set active \<Longrightarrow> counted (count_access active ids m) i = counted m i + count_list ids i"
proof (induction ids arbitrary: m)
  case Nil
  then show ?case by (simp add: count_access_def)
next
  case (Cons j ids)
  have step: "count_access active (j # ids) m = count_access active ids
      (if j \<notin> set active then m else AList.update j ((case map_of m j of None \<Rightarrow> 0 | Some n \<Rightarrow> n) + 1) m)"
    by (simp add: count_access_def)
  show ?case unfolding step using Cons by (auto simp: counted_def update_conv' split: option.split)
qed

lemma totals_count:
  "i \<in> set active \<Longrightarrow> counted (fold (count_access active) regs m) i = counted m i + count_list (concat regs) i"
  by (induction regs arbitrary: m) (simp_all add: count_access_counts)

section \<open>What an accepted scan means\<close>

lemma allowed_Inr:
  "assertCheckInAllowed x e a = Inr k \<longleftrightarrow> x = Some k \<and> rg_eventId (kr_row k) = e \<and>
    isFullySettled (Some (rg_paymentStatus (kr_row k))) \<and> (case a of None \<Rightarrow> True | Some i \<Rightarrow> i \<in> set (kr_accessTypeIds (kr_row k)))"
  by (auto simp: assertCheckInAllowed_def guard_def split: option.split)

definition scan_allowed :: "checkin_db \<Rightarrow> checkin_db \<Rightarrow> checkin_db \<Rightarrow> string \<Rightarrow> string \<Rightarrow> string option \<Rightarrow> bool" where
  "scan_allowed s0 s1 s e i accessId \<longleftrightarrow>
     (\<exists>r. registration_of (ck_rows s0) i = Some r \<and> rg_eventId r = e \<and> isFullySettled (Some (rg_paymentStatus r))
       \<and> (case accessId of
            None \<Rightarrow> (\<exists>r'. registration_of (ck_rows s) i = Some r' \<and> rg_eventId r' = e \<and> isFullySettled (Some (rg_paymentStatus r')))
          | Some a \<Rightarrow> a \<in> set (kr_accessTypeIds r) \<and> isNetworkingAccessAllowed s1 e i a))"

lemma write_effect:
  assumes ok: "ids_ok s" and run: "checkInItemTx w s = Inr (Checked_in t, s')"
  shows "t = wi_checkedInAt w \<and> checked_in_at s (wi_registrationId w) (wi_accessId w) = None \<and>
    checked_in_at s' (wi_registrationId w) (wi_accessId w) = Some t \<and>
    (wi_accessId w = None \<longrightarrow> (\<exists>r. registration_of (ck_rows s) (wi_registrationId w) = Some r \<and> check_in_open w r))"
proof (cases "wi_accessId w")
  case None
  then have "checkInRegistrationTx w s = Inr (Checked_in t, s')" using run by (simp add: checkInItemTx_def)
  then show ?thesis
    by (rule checkInRegistration_Inr[OF ok])
      (simp add: None checked_in_at_def check_in_open_def registration_of_def row_of_update_key)
next
  case (Some k)
  then have "createAccessCheckInTx w k s = Inr (Checked_in t, s')" using run by (simp add: checkInItemTx_def)
  then show ?thesis
  proof (rule createAccessCheckIn_Inr[OF ok])
    fix i assume none: "getAccessCheckIn s (wi_registrationId w) k = None"
      and c: "ck_checkIns s' = ck_checkIns s @ [\<lparr>aci_id = i, aci_registrationId = wi_registrationId w,
        aci_accessId = k, aci_checkedInAt = t, aci_checkedInBy = wi_checkedInBy w\<rparr>]" and t: "t = wi_checkedInAt w"
    have "getAccessCheckIn s' (wi_registrationId w) k = Some \<lparr>aci_id = i, aci_registrationId = wi_registrationId w,
        aci_accessId = k, aci_checkedInAt = t, aci_checkedInBy = wi_checkedInBy w\<rparr>"
      unfolding getAccessCheckIn_def c by (rule find_in_last) (use none in \<open>auto simp: getAccessCheckIn_def find_None_iff\<close>)
    with none t show ?thesis by (simp add: Some checked_in_at_def)
  qed
qed

lemma scan_effect:
  assumes run: "checkIn e i accessId u now s0 s1 s = Inr (ans, s')" and new: "\<not> an_alreadyCheckedIn ans" and ok: "ids_ok s"
  shows "scan_allowed s0 s1 s e i accessId \<and> checked_in_at s i accessId = None \<and> checked_in_at s' i accessId = Some now \<and>
    an_checkedInAt ans = now"
  using run
proof (cases rule: checkIn_cases)
  case seen
  with new show ?thesis by simp
next
  case (wrote k r)
  then obtain t where t: "r = Checked_in t" "an_checkedInAt ans = t" using new by (cases r) auto
  have k: "getRegistrationForCheckIn s0 i = Some k" and ev: "rg_eventId (kr_row k) = e"
    and st: "isFullySettled (Some (rg_paymentStatus (kr_row k)))"
    and acc: "case accessId of None \<Rightarrow> True | Some a \<Rightarrow> a \<in> set (kr_accessTypeIds (kr_row k))"
    using wrote(1) by (auto simp: allowed_Inr)
  have row: "registration_of (ck_rows s0) i = Some (kr_row k)"
    using k by (auto simp: getRegistrationForCheckIn_def split: option.splits)
  have idk: "rg_id (kr_row k) = i" by (rule registration_of_key[OF row])
  note W = write_effect[OF ok wrote(3)[unfolded t(1)]]
  show ?thesis
    using W wrote(2) row ev st acc t idk
    by (cases accessId) (auto simp: scan_allowed_def write_of_def check_in_open_def)
qed


section \<open>Properties\<close>

definition demo_checkin :: "networking_config list \<Rightarrow> checkin_db" where
  "demo_checkin configs = \<lparr>ck_tables = demo_registration_db PAID 2, ck_checkIns = [], ck_configs = configs, ck_profiles = [],
     ck_meetings = []\<rparr>"

lemma demo_checkin_ledger: "ledger (demo_checkin [])"
  by code_simp

lemma demo_checkin_ids: "ids_ok (demo_checkin [])"
  by code_simp

text \<open>Two scanners that read the same row, the undo of the first scan, and a scan again.\<close>

definition demo_scan :: "date \<Rightarrow> checkin_db \<Rightarrow> error + check_in_answer \<times> checkin_db" where
  "demo_scan t s = checkIn ''ev'' ''r1'' None ''staff'' t (demo_checkin []) (demo_checkin []) s"

definition demo_undo :: undo_input where
  "demo_undo = \<lparr>uc_eventId = ''ev'', uc_registrationId = ''r1'', uc_accessId = None, uc_actorId = ''admin'',
     uc_expectedCheckedInAt = Some 7\<rparr>"

definition demo_scans :: "error + check_in_answer \<times> checkin_db \<Rightarrow> bool" where
  "demo_scans first = (case first of Inl e \<Rightarrow> False | Inr (a1, s1) \<Rightarrow> \<not> an_alreadyCheckedIn a1 \<and>
     (case demo_scan 8 s1 of Inl e \<Rightarrow> False | Inr (a2, s2) \<Rightarrow> an_alreadyCheckedIn a2 \<and> an_checkedInAt a2 = 7 \<and>
     (case undo_check_in demo_undo s2 of Inl e \<Rightarrow> False | Inr (out, s3) \<Rightarrow> out = Undone \<and>
       map rg_checkedInAt (db_registrations (ck_rows s3)) = [None] \<and> map rg_id (db_registrations (ck_rows s3)) = [''r1''] \<and>
       entries ''Registration'' ''UNDO_CHECK_IN'' ''r1'' (db_audit (ck_rows s3)) = 1)))"

lemma committed: "(case x of Inl e \<Rightarrow> False | Inr (a, b) \<Rightarrow> P a b) \<Longrightarrow> \<exists>a b. x = Inr (a, b) \<and> P a b"
  by (auto split: sum.splits prod.splits)

lemma demo_scans_run: "demo_scans (demo_scan 7 (demo_checkin []))"
  by code_simp

text \<open>
  C28: However many scanners, batches of offline scans and undos race, with whatever earlier states their first reads
  saw and whatever else changes in between, the audit log holds for each registration exactly one CHECK_IN more than
  undos while it is checked in and as many when it is not; and no access item has two check-ins of a registration.
\<close>

theorem scans_counted_once:
  assumes "scan_step\<^sup>*\<^sup>* s0 s" and "ledger s0" and "r \<in> set (db_registrations (ck_rows s))"
  shows "entries ''Registration'' ''CHECK_IN'' (rg_id r) (db_audit (ck_rows s))
      = entries ''Registration'' ''UNDO_CHECK_IN'' (rg_id r) (db_audit (ck_rows s)) + (if rg_checkedInAt r = None then 0 else 1) \<and>
    distinct (map pair_of (ck_checkIns s))"
  using reachable_ledger[OF assms(1,2)] assms(3) by (simp add: ledger_def list_all_iff row_ledger_def)

text \<open>Two scans and an undo: one entry of each kind.\<close>

theorem scans_counted_once_witness:
  "\<exists>s. scan_step\<^sup>*\<^sup>* (demo_checkin []) s \<and> entries ''Registration'' ''CHECK_IN'' ''r1'' (db_audit (ck_rows s)) = 1"
proof -
  obtain a1 s1 where c1: "demo_scan 7 (demo_checkin []) = Inr (a1, s1)"
    and d1: "case demo_scan 8 s1 of Inl e \<Rightarrow> False | Inr (a2, s2) \<Rightarrow> an_alreadyCheckedIn a2 \<and> an_checkedInAt a2 = 7 \<and>
     (case undo_check_in demo_undo s2 of Inl e \<Rightarrow> False | Inr (out, s3) \<Rightarrow> out = Undone \<and>
       map rg_checkedInAt (db_registrations (ck_rows s3)) = [None] \<and> map rg_id (db_registrations (ck_rows s3)) = [''r1''] \<and>
       entries ''Registration'' ''UNDO_CHECK_IN'' ''r1'' (db_audit (ck_rows s3)) = 1)"
    using committed[OF demo_scans_run[unfolded demo_scans_def]] by blast
  obtain a2 s2 where c2: "demo_scan 8 s1 = Inr (a2, s2)"
    and d2: "case undo_check_in demo_undo s2 of Inl e \<Rightarrow> False | Inr (out, s3) \<Rightarrow> out = Undone \<and>
       map rg_checkedInAt (db_registrations (ck_rows s3)) = [None] \<and> map rg_id (db_registrations (ck_rows s3)) = [''r1''] \<and>
       entries ''Registration'' ''UNDO_CHECK_IN'' ''r1'' (db_audit (ck_rows s3)) = 1"
    using committed[OF d1] by blast
  obtain out s3 where u: "undo_check_in demo_undo s2 = Inr (out, s3)"
    and rows: "map rg_checkedInAt (db_registrations (ck_rows s3)) = [None]" "map rg_id (db_registrations (ck_rows s3)) = [''r1'']"
    and one: "entries ''Registration'' ''UNDO_CHECK_IN'' ''r1'' (db_audit (ck_rows s3)) = 1"
    using committed[OF d2] by auto
  have "scan_step (demo_checkin []) s1" "scan_step s1 s2" "scan_step s2 s3"
    using c1 c2 u by (auto simp: demo_scan_def intro: sc_check_in sc_undo)
  then have run: "scan_step\<^sup>*\<^sup>* (demo_checkin []) s3" by (meson converse_rtranclp_into_rtranclp rtranclp.rtrancl_refl)
  obtain r where r: "r \<in> set (db_registrations (ck_rows s3))" "rg_id r = ''r1''" "rg_checkedInAt r = None"
    using rows by (auto simp: map_eq_Cons_conv)
  from scans_counted_once[OF run demo_checkin_ledger r(1)] r one run show ?thesis by auto
qed

text \<open>
  C29: A scan that answers with a new check-in was allowed: the registration it read belongs to the event and is fully
  settled, at the event it still is in the state of the write, and at an access item it holds the item and passes the
  networking entrance. Nobody was checked in there before; afterwards the scan's time is stored.
\<close>

theorem scan_accepted:
  assumes "checkIn e i accessId u now s0 s1 s = Inr (ans, s')" and "\<not> an_alreadyCheckedIn ans" and "ids_ok s"
  shows "scan_allowed s0 s1 s e i accessId \<and> checked_in_at s i accessId = None \<and> checked_in_at s' i accessId = Some now \<and>
    an_checkedInAt ans = now"
  by (rule scan_effect[OF assms])

theorem scan_accepted_witness:
  "\<exists>ans s'. checkIn ''ev'' ''r1'' (Some ''ws'') ''staff'' 7 (demo_checkin []) (demo_checkin []) (demo_checkin []) = Inr (ans, s') \<and>
    checked_in_at s' ''r1'' (Some ''ws'') = Some 7"
proof -
  have "case checkIn ''ev'' ''r1'' (Some ''ws'') ''staff'' 7 (demo_checkin []) (demo_checkin []) (demo_checkin []) of
      Inl e \<Rightarrow> False | Inr (ans, s') \<Rightarrow> \<not> an_alreadyCheckedIn ans" by code_simp
  then obtain ans s' where run: "checkIn ''ev'' ''r1'' (Some ''ws'') ''staff'' 7 (demo_checkin []) (demo_checkin []) (demo_checkin [])
      = Inr (ans, s')" and new: "\<not> an_alreadyCheckedIn ans" by (auto split: sum.splits prod.splits)
  from scan_accepted[OF run new demo_checkin_ids] run show ?thesis by blast
qed

text \<open>
  C30: An undo takes back exactly the scan it names. After a new check-in, the undo with the scan's time restores
  whether and when everyone is checked in at the event and at every access item; an undo that expects another time
  does not succeed.
\<close>

theorem undo_takes_back:
  assumes "ids_ok s" and "checkInItemTx w s = Inr (Checked_in t, s1)"
    and "registration_of (ck_rows s) (wi_registrationId w) = Some r" and "rg_eventId r = wi_eventId w"
  shows "(\<exists>s2. undoCheckIn (undo_of w who (Some t)) s1 = (Undone, s2) \<and> checked_in_at s2 = checked_in_at s) \<and>
    (\<forall>t'. t' \<noteq> t \<longrightarrow> fst (undoCheckIn (undo_of w who (Some t')) s1) \<noteq> Undone)"
proof -
  have "checked_in_at s1 (wi_registrationId w) (wi_accessId w) = Some t" using write_effect[OF assms(1,2)] by blast
  moreover have "distinct (map rg_id (db_registrations (ck_rows s1)))" by (rule write_keeps_ids[OF assms(1,2)])
  ultimately have "t' = t" if "fst (undoCheckIn (undo_of w who (Some t')) s1) = Undone" for t'
    using undo_refused[of w who "Some t'" s1] that by (cases "undoCheckIn (undo_of w who (Some t')) s1") auto
  with checked_in_after[OF assms] show ?thesis by blast
qed

definition demo_write :: check_in_write where
  "demo_write = \<lparr>wi_registrationId = ''r1'', wi_eventId = ''ev'', wi_clientId = ''cl'', wi_accessId = Some ''ws'',
     wi_checkedInBy = ''staff'', wi_checkedInAt = 7\<rparr>"

theorem undo_takes_back_witness:
  "\<exists>s1. checkInItemTx demo_write (demo_checkin []) = Inr (Checked_in 7, s1) \<and>
    (\<exists>s2. undoCheckIn (undo_of demo_write ''admin'' (Some 7)) s1 = (Undone, s2)) \<and>
    fst (undoCheckIn (undo_of demo_write ''admin'' (Some 8)) s1) \<noteq> Undone"
proof -
  have "case checkInItemTx demo_write (demo_checkin []) of Inl e \<Rightarrow> False | Inr (x, s1) \<Rightarrow> x = Checked_in 7" by code_simp
  then obtain s1 where run: "checkInItemTx demo_write (demo_checkin []) = Inr (Checked_in 7, s1)"
    by (auto split: sum.splits prod.splits)
  have row: "registration_of (ck_rows (demo_checkin [])) (wi_registrationId demo_write) = Some (demo_reg_row PAID)" by code_simp
  have ev: "rg_eventId (demo_reg_row PAID) = wi_eventId demo_write" by code_simp
  from undo_takes_back[OF demo_checkin_ids run row ev, of "''admin''"] run show ?thesis by auto
qed

text \<open>
  C31: A batch of at most a hundred validated scans, with nothing in between, gives every scan its turn alone, by
  registration, then access item, then place in the request: each answer, at the scan's own place, is what the scan
  answers when its turn comes, a scan that fails changes nothing and stops no other, and the batch ends in the state
  the turns leave. The single transaction it tries first makes no difference.
\<close>

theorem batch_as_single_scans:
  assumes "length items \<le> CHECK_IN_BATCH_TX_SIZE"
  shows "\<exists>order results s'. batchCheckIn (\<lambda>_ t. t) items s = Inr (results, s') \<and>
    mset order = mset [0..<length items] \<and> sorted_wrt (turn_before items) order \<and>
    s' = fold (\<lambda>i. scan_turn (items ! i)) order s \<and> length results = length items \<and>
    (\<forall>n < length items. results ! (order ! n)
      = scan_answer (items ! (order ! n)) (fold (\<lambda>i. scan_turn (items ! i)) (take n order) s))"
  by (rule batch_turns[OF assms])

text \<open>
  A scan at an item that does not exist comes before a scan of the next registration: its insert fails, and the two
  scans at the workshop, the second of which finds the first, are kept.
\<close>

definition demo_batch :: "check_in_write list" where
  "demo_batch = [demo_write, demo_write\<lparr>wi_accessId := Some ''gone''\<rparr>, demo_write]"

lemma demo_turns:
  assumes "i \<in> {0, 1, 2}" and "j \<in> {0, 1, 2}" and "turn_before demo_batch i j"
  shows "(i, j) \<in> {(1, 0), (0, 2), (1, 2)}"
proof -
  have "list_all (\<lambda>(i, j). turn_before demo_batch i j \<longrightarrow> (i, j) \<in> set [(1, 0), (0, 2), (1, 2)]) (List.product [0, 1, 2] [0, 1, 2])"
    by code_simp
  moreover have "(i, j) \<in> set (List.product [0, 1, 2] [0, 1, 2])" using assms(1,2) unfolding set_product by auto
  ultimately show ?thesis using assms(3) unfolding list_all_iff by fastforce
qed

lemma demo_order:
  assumes "mset order = mset [0..<3]" and "sorted_wrt (turn_before demo_batch) order"
  shows "order = [1, 0, 2]"
proof -
  have "length order = 3" using mset_eq_length[OF assms(1)] by simp
  then obtain a b c where o: "order = [a, b, c]" by (auto simp: length_Suc_conv numeral_3_eq_3)
  have "set order = set [0..<3]" by (rule mset_eq_setD[OF assms(1)])
  also have "set [0..<3] = {0, 1, 2 :: nat}" by code_simp
  finally have set: "set order = {0, 1, 2}" .
  have "a \<in> set order" "b \<in> set order" "c \<in> set order" by (simp_all add: o)
  then have m: "a \<in> {0, 1, 2}" "b \<in> {0, 1, 2}" "c \<in> {0, 1, 2}" unfolding set .
  have "turn_before demo_batch a b" "turn_before demo_batch b c" using assms(2) by (simp_all add: o)
  from demo_turns[OF m(1,2) this(1)] demo_turns[OF m(2,3) this(2)] have "a = 1 \<and> b = 0 \<and> c = 2" by auto
  then show ?thesis by (simp only: o)
qed

lemma demo_answers:
  "scan_answer (demo_batch ! 1) (demo_checkin []) = Write_failed (Plain_error ''foreign key'')"
  "scan_answer (demo_batch ! 0) (scan_turn (demo_batch ! 1) (demo_checkin [])) = Written (Checked_in 7)"
  "scan_answer (demo_batch ! 2) (scan_turn (demo_batch ! 0) (scan_turn (demo_batch ! 1) (demo_checkin []))) = Written (Already_checked_in 7)"
  by code_simp+

theorem batch_as_single_scans_witness:
  "\<exists>results s'. batchCheckIn (\<lambda>_ t. t) demo_batch (demo_checkin []) = Inr (results, s') \<and>
    results ! 0 = Written (Checked_in 7) \<and> results ! 1 = Write_failed (Plain_error ''foreign key'') \<and>
    results ! 2 = Written (Already_checked_in 7)"
proof -
  have len: "length demo_batch = 3" by (simp add: demo_batch_def)
  then have "length demo_batch \<le> CHECK_IN_BATCH_TX_SIZE" by (simp add: CHECK_IN_BATCH_TX_SIZE_def)
  from batch_as_single_scans[OF this, of "demo_checkin []"] obtain order results s' where
    run: "batchCheckIn (\<lambda>_ t. t) demo_batch (demo_checkin []) = Inr (results, s')"
    and o: "mset order = mset [0..<3]" "sorted_wrt (turn_before demo_batch) order"
    and res: "\<And>n. n < 3 \<Longrightarrow> results ! (order ! n)
      = scan_answer (demo_batch ! (order ! n)) (fold (\<lambda>i. scan_turn (demo_batch ! i)) (take n order) (demo_checkin []))"
    unfolding len by blast
  have order: "order = [1, 0, 2]" by (rule demo_order[OF o])
  from res[of 0] res[of 1] res[of 2] demo_answers run show ?thesis by (simp add: order numeral_2_eq_2)
qed

end
