(* ===== verification/Spec2Isabelle.thy ===== *)
theory Spec2Isabelle
  imports SettlementSystem SponsorshipSafety OutboxBatch Txn Satisfiability PricingProps Events SelectProps PaymentProps ReferenceProps RegistrationProps CheckinProps
begin

text \<open>
  A verification library for the backend of an event-registration platform: a TypeScript monorepo with an HTTP
  API (\<open>apps/api\<close>), a worker (\<open>apps/worker\<close>) and the packages they share (\<open>packages/shared\<close>: pure rules,
  \<open>packages/db\<close>: tables, queries and transactions, \<open>packages/contracts\<close>: request schemas). All state lives in
  SQL tables; several processes write them at once. The library models the core a registration's money and
  places rest on, and the machinery that carries its side effects.

  \<^bold>\<open>How the program hangs together.\<close> A participant answers an event's form, selects paid items (``access'':
  workshops, dinners) and gets a price quote; a registration row stores the price, the selection and a payment
  status. Sponsors hand out codes and batches that cover parts of a registration. Every change of money or
  status goes through one writer, which keeps the row consistent and hands the paid places of the access items
  to counters with a capacity. What happens after a commit (realtime events, mails, drops of a full item) is
  written to an outbox table in the same transaction and carried out by workers that lease rows.

  \<^bold>\<open>How state and effects are modelled.\<close> A table is a list of records keyed by id (theory Prelude); a
  transaction is a function from the tables to \<open>Inl\<close> the thrown error (the tables roll back) or \<open>Inr\<close> the
  tables it commits. Row locks serialise the transactions that take them, so a run of the settlement is a
  sequence of whole transactions; where the code reads outside its transaction, or one statement at a time
  (outbox, access items, pricing), the model has a step per statement or keeps the earlier read as a state of
  its own, and the properties hold for every interleaving. Amounts are JavaScript numbers: exact integers of
  ten-thousandths within \<open>2^53\<close>, as \<open>money.ts\<close> computes them (theory Money), with the writer's own range check.
  Decimals of form values are exact (mantissa, exponent), where a double would round past 15 digits; theory
  NumberText proves what that costs. Dates are integers of milliseconds. The clock, random ids, SKIP LOCKED,
  object stores, file types, Intl data and third-party checkers are parameters.

  \<^bold>\<open>The theories.\<close>
  \<^item> \<^bold>\<open>Shared.\<close> Prelude: results, tables of rows, runs of steps. Types: the data types of
    \<open>payment-status.ts\<close> and \<open>contracts/pricing.ts\<close>. Money: \<open>shared/money.ts\<close>. Db: the columns and queries of
    \<open>db/schema\<close> and \<open>db/queries\<close> the modelled code uses.
  \<^item> \<^bold>\<open>Settlement.\<close> Settlement: the pure rules of \<open>shared/settlement.ts\<close> and \<open>sponsorship-math.ts\<close> (covered
    lines, net, derived status; idempotent, within the allowed transitions). PaidAccess:
    \<open>db/settlement/paid-access.ts\<close>, the counters behind the locale \<open>bounded_counter\<close>, interpreted on
    \<open>takePaidAccess\<close> and \<open>releasePaidAccess\<close>. SettlementWriter: \<open>writer.ts\<close>. Settle: \<open>settle.ts\<close>, with the
    refinement ``a settlement stores exactly what the pure rules derive''. SponsorshipLink:
    \<open>sponsorship-code.ts\<close> and \<open>sponsorship-link.ts\<close>. AccessDrop: \<open>access-drop.ts\<close>. Conservation: the paid
    counter of an item equals the places held by the registrations, and each operation keeps it.
    SponsorshipSafety: unlinking and claiming codes. SettlementSystem: the operations as a step relation and
    the counter invariant over its reachable states.
  \<^item> \<^bold>\<open>Outbox.\<close> LeaseQueue: \<open>lease-queue/lease-queue.ts\<close> over a queue spec, its laws in the locale
    \<open>lease_policy\<close>. RunLeased: \<open>run-leased.ts\<close>, a batch as lanes, heartbeat and abort between awaits. Outbox:
    \<open>db/outbox\<close>, the policy's interpretation. OutboxLife, OutboxRetention, OutboxProps, OutboxBatch: lease
    exclusion, exactly-once keys, recovery, backoff, retention that ends, and the books of a batch.
    Txn: \<open>txn.ts\<close>, which errors are retried and how often.
  \<^item> \<^bold>\<open>Forms and conditions.\<close> JsValue, NumberText: values, \<open>String\<close> and \<open>Number\<close>. Conditions, Satisfiability,
    Signature: \<open>shared/conditions.ts\<close>, the contradiction guard (sound) and the rule fingerprint (injective up
    to the order of conditions). Visibility, FormData: \<open>field-visibility.ts\<close> and \<open>form-data-validator.ts\<close>.
  \<^item> \<^bold>\<open>Pricing and events.\<close> Pricing, PricingWrite, PricingRules: \<open>api/modules/pricing\<close>, the stored price list and
    its invariant, kept by each write of the service. Events: \<open>events.service.ts\<close> and \<open>db/queries/events.ts\<close>, an event
    created, updated and deleted with its price list, and the invariant over the writes of both services, which are
    all that touch the table. PricingQuote, PricingProps: \<open>calculatePrice\<close>, whose totals add up, pick the rule
    with the highest priority and pass the settlement writer's checks.
  \<^item> \<^bold>\<open>Access items.\<close> Access, AccessGraph, AccessWrite: \<open>access.service.ts\<close>, whose prerequisite graph stays
    acyclic: the cycle search runs in the locking transaction of the write. AccessSelect, SelectProps:
    \<open>access-validation.ts\<close> and \<open>access-grouping.ts\<close>. AccessProps: the invariants of the writes.
  \<^item> \<^bold>\<open>Registrations.\<close> RegistrationRules: \<open>payment-transitions.ts\<close>, \<open>edit-policy.ts\<close>, \<open>registrations.guards.ts\<close>.
    RegistrationPayments: \<open>registrations.payments.service.ts\<close>, the payment-proof service and the loaders, on
    top of the settlement transactions. RegistrationKept, RegistrationPaid, PaymentProps: what each write
    keeps and what a confirmed payment means. RegistrationEdit, RegistrationEdited: \<open>registrations.repricer.ts\<close>,
    the edits that reprice, and what they leave of a PAID registration. RegistrationCreate:
    \<open>registrations.create.service.ts\<close>, the public signup with its replays, its sponsorship code and its free events,
    on the unique indexes of the table; RegistrationRemove: the administrator's create and the deletion of
    \<open>registrations.service.ts\<close>. RegistrationBooks: creation and deletion keep the paid counts and the event's
    registered count, or whatever difference they found. RegistrationSystem: signups, creates, edits, payments,
    deletions, settlements and changes of events and access items behind the locales \<open>reg_operation\<close> and
    \<open>row_operation\<close>, and their runs together with payment proofs, which record what a proof leaves uncounted
    (\<open>reg_run\<close>). The set of events and access items is fixed there. RegistrationProps: the books after every run, a
    signup that commits once, and the last day on which none does. ReferenceNumber, ReferenceProps: the reference numbers of
    \<open>db/queries/registrations.ts\<close>, never issued twice by transactions that race, and the LIKE patterns of
    \<open>db/like.ts\<close>, which match literally.
  \<^item> \<^bold>\<open>Check-in.\<close> Checkin: \<open>checkin.service.ts\<close>, \<open>db/queries/checkin.ts\<close> and \<open>checkin-undo.ts\<close>, a scan as two reads and
    a transaction that checks again; CheckinBatch: the offline scans, a hundred per transaction with single
    transactions as the fallback, and the statistics. CheckinProps: the audit log counts each check-in once however
    scans race, an undo takes back the scan it names, and a batch gives each scan its turn alone.

  \<^bold>\<open>Bounds and fuel.\<close> Loops over data are structural. \<open>detectCircularPrerequisites\<close> searches with a depth bound
  (\<open>hasCycle\<close>, \<open>anyCycle\<close>), three more than the edges and new requirements together, which is proved to be enough for every graph; the
  retention loop is a \<open>partial_function (option)\<close>,
  proved to return for every table when the batch limit is positive. \<open>withTxnRetry\<close> counts its attempts down.

  \<^bold>\<open>Not modelled.\<close> Third-party code (mail, PDF and image libraries, Firebase, drivers), HTTP wiring, generated
  contracts, command-line scripts, reports, and the abstract, certificate, badge, networking and
  identity modules. Message texts are left out of errors unless a caller reads them. Isolation anomalies below
  the row locks the code takes, connection failures in mid-commit and process crashes appear only as
  interrupted lanes of a batch.
\<close>

end
